(* ===== verification/Prelude.thy ===== *)
theory Prelude
  imports Main "HOL-Library.AList" "HOL-Library.Multiset" "HOL-Library.Product_Lexorder"
begin

text \<open>
  Shared vocabulary of the development.

  \<^item> A JavaScript \<open>Map\<close> keeps its entries in insertion order, overwrites in place and
    appends a new key; it is an association list with \<open>AList.update\<close>, \<open>AList.delete\<close> and
    \<open>map_of\<close>. A \<open>Set\<close> of strings is a list without duplicates in insertion order.
  \<^item> A JavaScript function that may throw after it has already mutated its argument
    returns an \<open>outcome\<close>: the state as it was left, and whether the call completed.
  \<^item> BigInts and the Numbers used as counters, heights and unix seconds are \<open>int\<close>.
  \<^item> A value that may be \<open>null\<close> or \<open>undefined\<close> is an \<open>option\<close>.
\<close>

named_theorems jsmap_simps \<open>lookup laws of the Map and Set operations\<close>

section \<open>Maps and sets in insertion order\<close>

type_synonym ('k, 'v) jsmap = "('k \<times> 'v) list"
type_synonym 'a jsset = "'a list"

definition jget_or :: "'v \<Rightarrow> ('k, 'v) jsmap \<Rightarrow> 'k \<Rightarrow> 'v" where
  "jget_or d m k = (case map_of m k of Some v \<Rightarrow> v | None \<Rightarrow> d)"

definition jadd :: "'a \<Rightarrow> 'a jsset \<Rightarrow> 'a jsset" where
  "jadd x s = (if x \<in> set s then s else s @ [x])"

definition jdel :: "'a \<Rightarrow> 'a jsset \<Rightarrow> 'a jsset" where
  "jdel x s = filter (\<lambda>y. y \<noteq> x) s"

abbreviation wf_map :: "('k, 'v) jsmap \<Rightarrow> bool" where
  "wf_map m \<equiv> distinct (map fst m)"

lemma jget_or_update [jsmap_simps, simp]:
  "jget_or d (AList.update k v m) k' = (if k' = k then v else jget_or d m k')"
  by (simp add: jget_or_def update_conv')

lemma jget_or_delete [jsmap_simps, simp]:
  "jget_or d (AList.delete k m) k' = (if k' = k then d else jget_or d m k')"
  by (simp add: jget_or_def delete_conv')

lemma jget_or_Nil [simp]: "jget_or d [] k = d"
  by (simp add: jget_or_def)

lemma set_jadd [simp]: "set (jadd x s) = insert x (set s)"
  by (auto simp: jadd_def)

lemma set_jdel [simp]: "set (jdel x s) = set s - {x}"
  by (auto simp: jdel_def)

lemma distinct_jadd [simp]: "distinct (jadd x s) = distinct s"
  by (auto simp: jadd_def)

lemma distinct_jdel [simp]: "distinct s \<Longrightarrow> distinct (jdel x s)"
  by (simp add: jdel_def)

lemma length_jadd: "length (jadd x s) = (if x \<in> set s then length s else Suc (length s))"
  by (simp add: jadd_def)

lemma jdel_notin [simp]: "x \<notin> set s \<Longrightarrow> jdel x s = s"
  by (induction s) (auto simp: jdel_def)

lemma length_jdel:
  "distinct s \<Longrightarrow> x \<in> set s \<Longrightarrow> Suc (length (jdel x s)) = length s"
proof (induction s)
  case (Cons a s)
  then show ?case
    by (cases "a = x") (use jdel_notin [of x s] in \<open>auto simp: jdel_def\<close>)
qed simp

lemma wf_map_update [simp]: "wf_map m \<Longrightarrow> wf_map (AList.update k v m)"
  by (rule distinct_update)

lemma wf_map_delete [simp]: "wf_map m \<Longrightarrow> wf_map (AList.delete k m)"
  by (rule distinct_delete)

lemma length_update:
  "length (AList.update k v m) = (if k \<in> fst ` set m then length m else Suc (length m))"
  by (induction m) auto

lemma length_delete:
  "wf_map m \<Longrightarrow> k \<in> fst ` set m \<Longrightarrow> Suc (length (AList.delete k m)) = length m"
proof (induction m)
  case (Cons p m)
  then show ?case by (cases p) (auto simp: image_iff)
qed simp

lemma map_of_Some_key: "map_of m k = Some v \<Longrightarrow> k \<in> fst ` set m"
  by (metis domI dom_map_of_conv_image_fst)

lemma set_update_sub: "set (AList.update k v m) \<subseteq> insert (k, v) (set m)"
  by (induction m) auto

lemma set_delete_sub: "set (AList.delete k m) \<subseteq> set m"
  by (auto simp: AList.delete_eq)

section \<open>Calls that may throw after mutating their argument\<close>

datatype ('e, 's) outcome = Done 's | Threw 'e 's

fun run_seq :: "('s \<Rightarrow> 'a \<Rightarrow> ('e, 's) outcome) \<Rightarrow> 's \<Rightarrow> 'a list \<Rightarrow> ('e, 's) outcome" where
  "run_seq f s [] = Done s"
| "run_seq f s (x # xs) =
     (case f s x of Done s' \<Rightarrow> run_seq f s' xs | Threw e s' \<Rightarrow> Threw e s')"

text \<open>The inputs a run actually reaches satisfy \<open>pre\<close> in the state they meet.\<close>

fun reaches_pre ::
  "('s \<Rightarrow> 'a \<Rightarrow> ('e, 's) outcome) \<Rightarrow> ('s \<Rightarrow> 'a \<Rightarrow> bool) \<Rightarrow> 's \<Rightarrow> 'a list \<Rightarrow> bool" where
  "reaches_pre f pre s [] = True"
| "reaches_pre f pre s (x # xs) =
     (pre s x \<and> (case f s x of Done s' \<Rightarrow> reaches_pre f pre s' xs | Threw e s' \<Rightarrow> True))"

fun outcome_state :: "('e, 's) outcome \<Rightarrow> 's" where
  "outcome_state (Done s) = s"
| "outcome_state (Threw e s) = s"

lemma run_seq_append:
  "run_seq f s (xs @ ys) =
     (case run_seq f s xs of Done s' \<Rightarrow> run_seq f s' ys | Threw e s' \<Rightarrow> Threw e s')"
  by (induction xs arbitrary: s) (auto split: outcome.splits)

lemma reaches_pre_True [simp]: "reaches_pre f (\<lambda>_ _. True) s xs"
  by (induction xs arbitrary: s) (auto split: outcome.splits)

text \<open>
  The contract of an event handler folded over a log: an invariant that every step whose
  input is admissible keeps, also when the step throws.
\<close>

locale event_fold =
  fixes step :: "'s \<Rightarrow> 'a \<Rightarrow> ('e, 's) outcome"
    and pre :: "'s \<Rightarrow> 'a \<Rightarrow> bool"
    and inv :: "'s \<Rightarrow> bool"
  assumes step_inv: "inv s \<Longrightarrow> pre s a \<Longrightarrow> inv (outcome_state (step s a))"
begin

lemma run_inv: "inv s \<Longrightarrow> reaches_pre step pre s as \<Longrightarrow> inv (outcome_state (run_seq step s as))"
proof (induction as arbitrary: s)
  case (Cons a as)
  then have *: "inv (outcome_state (step s a))" by (simp add: step_inv)
  with Cons show ?case by (auto split: outcome.splits)
qed simp

lemma run_inv_Done:
  assumes "inv s" "reaches_pre step pre s as" "run_seq step s as = Done s'"
  shows "inv s'"
  using run_inv [OF assms(1,2)] assms(3) by simp

end

section \<open>Calls that throw without effects\<close>

definition bindE :: "'e + 'a \<Rightarrow> ('a \<Rightarrow> 'e + 'b) \<Rightarrow> 'e + 'b" where
  "bindE m f = (case m of Inl e \<Rightarrow> Inl e | Inr a \<Rightarrow> f a)"

lemma bindE_simps [simp]: "bindE (Inl e) f = Inl e" "bindE (Inr a) f = f a"
  by (simp_all add: bindE_def)

lemma bindE_Inr: "bindE m f = Inr b \<longleftrightarrow> (\<exists>a. m = Inr a \<and> f a = Inr b)"
  by (cases m) auto

definition ok_or :: "'e \<Rightarrow> 'a option \<Rightarrow> 'e + 'a" where
  "ok_or e x = (case x of None \<Rightarrow> Inl e | Some a \<Rightarrow> Inr a)"

lemma ok_or_simps [simp]: "ok_or e None = Inl e" "ok_or e (Some a) = Inr a"
  by (simp_all add: ok_or_def)

text \<open>\<open>for (const [k, v] of entries) m.set(k, f(v))\<close>, where \<open>f\<close> may throw.\<close>

fun restore_map :: "('k \<Rightarrow> 'a \<Rightarrow> 'e + 'b) \<Rightarrow> ('k, 'b) jsmap \<Rightarrow> ('k \<times> 'a) list \<Rightarrow> 'e + ('k, 'b) jsmap" where
  "restore_map f acc [] = Inr acc"
| "restore_map f acc ((k, v) # kvs) =
     bindE (f k v) (\<lambda>b. restore_map f (AList.update k b acc) kvs)"

lemma update_notin: "k \<notin> fst ` set m \<Longrightarrow> AList.update k v m = m @ [(k, v)]"
  by (induction m) auto

lemma restore_map_roundtrip:
  assumes "\<And>k v. (k, v) \<in> set m \<Longrightarrow> f k (g v) = Inr v" and "wf_map (acc @ m)"
  shows "restore_map f acc (map (\<lambda>(k, v). (k, g v)) m) = Inr (acc @ m)"
  using assms
proof (induction m arbitrary: acc)
  case (Cons p m)
  obtain k v where p: "p = (k, v)" by (cases p)
  have "k \<notin> fst ` set acc" using Cons.prems(2) p by auto
  moreover have "restore_map f (acc @ [p]) (map (\<lambda>(k, v). (k, g v)) m) = Inr ((acc @ [p]) @ m)"
    by (rule Cons.IH) (use Cons.prems in auto)
  ultimately show ?case using Cons.prems(1) [of k v] p by (simp add: update_notin)
qed simp

text \<open>\<open>new Set(xs)\<close>.\<close>

definition set_of_list :: "'a list \<Rightarrow> 'a jsset" where
  "set_of_list xs = foldl (\<lambda>s x. jadd x s) [] xs"

lemma foldl_jadd: "distinct (s @ xs) \<Longrightarrow> foldl (\<lambda>s x. jadd x s) s xs = s @ xs"
  by (induction xs arbitrary: s) (auto simp: jadd_def)

lemma set_foldl_jadd: "set (foldl (\<lambda>s x. jadd x s) s xs) = set s \<union> set xs"
  by (induction xs arbitrary: s) auto

lemma set_set_of_list [simp]: "set (set_of_list xs) = set xs"
  by (simp add: set_of_list_def set_foldl_jadd)

lemma set_of_list_distinct [simp]: "distinct xs \<Longrightarrow> set_of_list xs = xs"
  by (simp add: set_of_list_def foldl_jadd)

section \<open>Logs in chain order\<close>

text \<open>
  The contract of a routine that puts a log into (blockNumber, logIndex) order: it permutes
  the log and its result is sorted. What the folds over such logs rely on follows.
\<close>

locale chain_order =
  fixes pos :: "'a \<Rightarrow> 'k :: linorder"
    and put_in_order :: "'a list \<Rightarrow> 'a list"
  assumes order_mset: "mset (put_in_order xs) = mset xs"
    and order_sorted: "sorted (map pos (put_in_order xs))"
begin

lemma order_set: "set (put_in_order xs) = set xs"
  using order_mset mset_eq_setD by blast

lemma order_independent:
  assumes "mset xs = mset ys" and "inj_on pos (set xs)"
  shows "put_in_order xs = put_in_order ys"
proof -
  have "sort_key pos (put_in_order xs) = put_in_order ys"
    by (rule sort_key_inj_key_eq) (use assms in \<open>auto simp: order_mset order_sorted order_set\<close>)
  moreover have "sort_key pos (put_in_order xs) = put_in_order xs"
    by (rule sort_key_inj_key_eq) (use assms in \<open>auto simp: order_mset order_sorted order_set\<close>)
  ultimately show ?thesis by simp
qed

lemma order_append:
  assumes "\<And>x y. x \<in> set xs \<Longrightarrow> y \<in> set ys \<Longrightarrow> pos x < pos y"
    and "inj_on pos (set xs)" and "inj_on pos (set ys)"
  shows "put_in_order (xs @ ys) = put_in_order xs @ put_in_order ys"
proof -
  have inj: "inj_on pos (set (xs @ ys))"
    using assms by (fastforce simp: inj_on_def dest: less_imp_neq)
  have s: "sorted (map pos (put_in_order xs @ put_in_order ys))"
    using assms(1) by (auto simp: sorted_append order_sorted order_set intro: less_imp_le)
  have "sort_key pos (put_in_order (xs @ ys)) = put_in_order xs @ put_in_order ys"
    by (rule sort_key_inj_key_eq) (use inj s in \<open>auto simp: order_mset order_set\<close>)
  moreover have "sort_key pos (put_in_order (xs @ ys)) = put_in_order (xs @ ys)"
    by (rule sort_key_inj_key_eq) (use inj in \<open>auto simp: order_mset order_sorted order_set\<close>)
  ultimately show ?thesis by simp
qed

lemma order_id: "inj_on pos (set xs) \<Longrightarrow> sorted (map pos xs) \<Longrightarrow> put_in_order xs = xs"
proof -
  assume a: "inj_on pos (set xs)" "sorted (map pos xs)"
  have "sort_key pos (put_in_order xs) = xs"
    by (rule sort_key_inj_key_eq) (use a in \<open>auto simp: order_mset order_set\<close>)
  moreover have "sort_key pos (put_in_order xs) = put_in_order xs"
    by (rule sort_key_inj_key_eq) (use a in \<open>auto simp: order_mset order_sorted order_set\<close>)
  ultimately show ?thesis by simp
qed

end

section \<open>Array.prototype.sort\<close>

text \<open>
  A stable insertion with a comparator: the new element goes after every element it does not
  compare below. For a consistent comparator this is the result the language prescribes.
\<close>

fun js_insert :: "('a \<Rightarrow> 'a \<Rightarrow> int) \<Rightarrow> 'a \<Rightarrow> 'a list \<Rightarrow> 'a list" where
  "js_insert cmp x [] = [x]"
| "js_insert cmp x (y # ys) = (if cmp x y < 0 then x # y # ys else y # js_insert cmp x ys)"

definition js_sort :: "('a \<Rightarrow> 'a \<Rightarrow> int) \<Rightarrow> 'a list \<Rightarrow> 'a list" where
  "js_sort cmp xs = foldl (\<lambda>acc x. js_insert cmp x acc) [] xs"

lemma mset_js_insert [simp]: "mset (js_insert cmp x ys) = add_mset x (mset ys)"
  by (induction ys) auto

lemma mset_js_sort [simp]: "mset (js_sort cmp xs) = mset xs"
proof -
  have "mset (foldl (\<lambda>acc x. js_insert cmp x acc) ys xs) = mset ys + mset xs" for ys
    by (induction xs arbitrary: ys) auto
  then show ?thesis by (simp add: js_sort_def)
qed

lemma set_js_sort [simp]: "set (js_sort cmp xs) = set xs"
  by (metis mset_js_sort mset_eq_setD)

lemma length_js_sort [simp]: "length (js_sort cmp xs) = length xs"
  by (metis mset_js_sort mset_eq_length)

lemma set_js_insert [simp]: "set (js_insert cmp x ys) = insert x (set ys)"
  by (induction ys) auto

lemma js_insert_sorted:
  assumes "\<And>a b. R a b \<Longrightarrow> \<not> R b a \<Longrightarrow> cmp a b < 0" "\<And>a b. cmp a b < 0 \<Longrightarrow> R a b"
    and "transp R" and "\<And>a b. R a b \<or> R b a"
  shows "sorted_wrt R ys \<Longrightarrow> sorted_wrt R (js_insert cmp x ys)"
proof (induction ys)
  case (Cons y ys)
  show ?case
  proof (cases "cmp x y < 0")
    case True
    then have "R x y" by (rule assms(2))
    with Cons.prems True show ?thesis using assms(3) by (auto dest: transpD)
  next
    case False
    then have "R y x" using assms(1) assms(4) by blast
    with Cons False show ?thesis by auto
  qed
qed simp

lemma js_sort_sorted:
  assumes "\<And>a b. R a b \<Longrightarrow> \<not> R b a \<Longrightarrow> cmp a b < 0" "\<And>a b. cmp a b < 0 \<Longrightarrow> R a b"
    and "transp R" and "\<And>a b. R a b \<or> R b a"
  shows "sorted_wrt R (js_sort cmp xs)"
proof -
  have "sorted_wrt R ys \<Longrightarrow> sorted_wrt R (foldl (\<lambda>acc x. js_insert cmp x acc) ys xs)" for ys
    by (induction xs arbitrary: ys) (simp_all add: js_insert_sorted [OF assms])
  then show ?thesis by (simp add: js_sort_def)
qed

section \<open>Arithmetic\<close>

lemma le_zdiv_iff: "0 < e \<Longrightarrow> (a :: int) \<le> n div e \<longleftrightarrow> a * e \<le> n"
proof
  assume "0 < e" "a \<le> n div e"
  then have "a * e \<le> n div e * e" by (intro mult_right_mono) auto
  also have "\<dots> \<le> n" using \<open>0 < e\<close> by (metis div_mult_mod_eq le_add_same_cancel1 pos_mod_sign)
  finally show "a * e \<le> n" .
next
  assume "0 < e" "a * e \<le> n"
  then show "a \<le> n div e" using zdiv_mono1 [of "a * e" n e] by simp
qed

section \<open>Strings\<close>

definition lower_char :: "char \<Rightarrow> char" where
  "lower_char c = (let n = of_char c :: nat in
     if 65 \<le> n \<and> n \<le> 90 then char_of (n + 32) else c)"

definition lc :: "string \<Rightarrow> string" where
  "lc s = map lower_char s"

definition hex_char :: "char \<Rightarrow> bool" where
  "hex_char c = (let n = of_char c :: nat in
     (48 \<le> n \<and> n \<le> 57) \<or> (97 \<le> n \<and> n \<le> 102) \<or> (65 \<le> n \<and> n \<le> 70))"

text \<open>\<open>hex_string n s\<close>: the test \<open>/^0x[0-9a-fA-F]{n}$/\<close>.\<close>

definition hex_string :: "nat \<Rightarrow> string \<Rightarrow> bool" where
  "hex_string n s = (take 2 s = ''0x'' \<and> length s = n + 2 \<and> list_all hex_char (drop 2 s))"

definition is_address :: "string \<Rightarrow> bool" where
  "is_address s = hex_string 40 s"

lemma lower_char_idem [simp]: "lower_char (lower_char c) = lower_char c"
proof -
  have "of_char (char_of (of_char c + 32 :: nat) :: char) = (of_char c + 32 :: nat)"
    if "(of_char c :: nat) \<le> 90"
    using that by simp
  then show ?thesis by (auto simp: lower_char_def Let_def)
qed

lemma lc_idem [simp]: "lc (lc s) = lc s"
  by (simp add: lc_def comp_def)

lemma length_lc [simp]: "length (lc s) = length s"
  by (simp add: lc_def)

end
