(* ===== verification/Decimal.thy ===== *)
theory Decimal
  imports Prelude
begin

text \<open>
  BigInt and its strings: \<open>b.toString()\<close>, \<open>BigInt(s)\<close> on a string (surrounding white space, an
  optional sign, decimal digits or a \<open>0x\<close>, \<open>0o\<close>, \<open>0b\<close> literal, the empty string as 0; anything
  else throws, here \<open>None\<close>), and the round trip between them.
\<close>

definition digit_char :: "nat \<Rightarrow> char" where
  "digit_char d = char_of (48 + d)"

fun show_nat :: "nat \<Rightarrow> string" where
  "show_nat n = (if n < 10 then [digit_char n] else show_nat (n div 10) @ [digit_char (n mod 10)])"

declare show_nat.simps [simp del]

definition show_int :: "int \<Rightarrow> string" where
  "show_int n = (if n < 0 then CHR ''-'' # show_nat (nat (- n)) else show_nat (nat n))"

text \<open>The value of a digit in a radix up to 36.\<close>

definition digit_val :: "nat \<Rightarrow> char \<Rightarrow> nat option" where
  "digit_val r c =
     (let n = of_char c :: nat;
          v = (if 48 \<le> n \<and> n \<le> 57 then n - 48
               else if 97 \<le> n \<and> n \<le> 122 then n - 87
               else if 65 \<le> n \<and> n \<le> 90 then n - 55 else 36)
      in if v < r then Some v else None)"

fun parse_radix :: "nat \<Rightarrow> nat \<Rightarrow> string \<Rightarrow> nat option" where
  "parse_radix r acc [] = Some acc"
| "parse_radix r acc (c # cs) =
     (case digit_val r c of None \<Rightarrow> None | Some d \<Rightarrow> parse_radix r (acc * r + d) cs)"

definition parse_digits :: "nat \<Rightarrow> string \<Rightarrow> nat option" where
  "parse_digits r s = (if s = [] then None else parse_radix r 0 s)"

definition white :: "char \<Rightarrow> bool" where
  "white c = (let n = of_char c :: nat in n = 32 \<or> (9 \<le> n \<and> n \<le> 13) \<or> n = 160)"

definition js_trim :: "string \<Rightarrow> string" where
  "js_trim s = rev (dropWhile white (rev (dropWhile white s)))"

definition bigint_of_string :: "string \<Rightarrow> int option" where
  "bigint_of_string raw =
     (let s = js_trim raw in
      if s = [] then Some 0
      else if take 2 s = ''0x'' \<or> take 2 s = ''0X'' then map_option int (parse_digits 16 (drop 2 s))
      else if take 2 s = ''0o'' \<or> take 2 s = ''0O'' then map_option int (parse_digits 8 (drop 2 s))
      else if take 2 s = ''0b'' \<or> take 2 s = ''0B'' then map_option int (parse_digits 2 (drop 2 s))
      else if hd s = CHR ''-'' then map_option (\<lambda>n. - int n) (parse_digits 10 (tl s))
      else if hd s = CHR ''+'' then map_option int (parse_digits 10 (tl s))
      else map_option int (parse_digits 10 s))"

section \<open>The round trip\<close>

abbreviation decimal_char :: "char \<Rightarrow> bool" where
  "decimal_char c \<equiv> 48 \<le> (of_char c :: nat) \<and> (of_char c :: nat) \<le> 57"

lemma decimal_digit_char: "d < 10 \<Longrightarrow> decimal_char (digit_char d)"
  by (simp add: digit_char_def)

lemma digit_val_digit_char: "d < 10 \<Longrightarrow> digit_val 10 (digit_char d) = Some d"
  by (simp add: digit_val_def digit_char_def)

lemma parse_radix_append:
  "parse_radix r acc (xs @ ys) =
     (case parse_radix r acc xs of None \<Rightarrow> None | Some a \<Rightarrow> parse_radix r a ys)"
  by (induction xs arbitrary: acc) (auto split: option.split)

lemma show_nat_nonempty [simp]: "show_nat n \<noteq> []"
  by (subst show_nat.simps) simp

lemma show_nat_decimal: "\<forall>c \<in> set (show_nat n). decimal_char c"
proof (induction n rule: show_nat.induct)
  case (1 n)
  then show ?case
    by (subst show_nat.simps) (auto simp: decimal_digit_char)
qed

lemma parse_show_nat: "parse_radix 10 0 (show_nat n) = Some n"
proof (induction n rule: show_nat.induct)
  case (1 n)
  then show ?case
    by (subst show_nat.simps) (auto simp: parse_radix_append digit_val_digit_char)
qed

lemma parse_digits_show [simp]: "parse_digits 10 (show_nat n) = Some n"
  by (simp add: parse_digits_def parse_show_nat)

lemma decimal_not_white: "decimal_char c \<Longrightarrow> \<not> white c"
  by (auto simp: white_def Let_def)

lemma js_trim_id:
  assumes "s \<noteq> []" "\<not> white (hd s)" "\<not> white (last s)" shows "js_trim s = s"
proof -
  have "dropWhile white s = s" using assms by (cases s) auto
  moreover have "dropWhile white (rev s) = rev s" using assms by (cases s rule: rev_cases) auto
  ultimately show ?thesis by (simp add: js_trim_def)
qed

lemma show_nat_hd_last: "decimal_char (hd (show_nat n)) \<and> decimal_char (last (show_nat n))"
  using show_nat_decimal [of n] by simp

lemma show_nat_second: "take 2 (show_nat n) = [a, b] \<Longrightarrow> decimal_char b"
  using show_nat_decimal [of n] set_take_subset [of 2 "show_nat n"] by auto

lemma letters_not_decimal [simp]:
  "\<not> decimal_char CHR ''x''" "\<not> decimal_char CHR ''X''" "\<not> decimal_char CHR ''o''"
  "\<not> decimal_char CHR ''O''" "\<not> decimal_char CHR ''b''" "\<not> decimal_char CHR ''B''"
  "\<not> decimal_char CHR ''-''" "\<not> decimal_char CHR ''+''"
  by simp_all

lemma show_nat_no_prefix:
  "take 2 (show_nat n) \<noteq> ''0x'' \<and> take 2 (show_nat n) \<noteq> ''0X'' \<and> take 2 (show_nat n) \<noteq> ''0o''
   \<and> take 2 (show_nat n) \<noteq> ''0O'' \<and> take 2 (show_nat n) \<noteq> ''0b'' \<and> take 2 (show_nat n) \<noteq> ''0B''
   \<and> hd (show_nat n) \<noteq> CHR ''-'' \<and> hd (show_nat n) \<noteq> CHR ''+''"
  using show_nat_second [of n] show_nat_hd_last [of n] letters_not_decimal by metis

lemma trim_show_nat [simp]: "js_trim (show_nat n) = show_nat n"
  using show_nat_hd_last [of n] decimal_not_white by (intro js_trim_id) auto

lemma trim_show_neg [simp]: "js_trim (CHR ''-'' # show_nat n) = CHR ''-'' # show_nat n"
  using show_nat_hd_last [of n] decimal_not_white
  by (intro js_trim_id) (auto simp: white_def)

theorem bigint_roundtrip [simp]: "bigint_of_string (show_int n) = Some n"
  using show_nat_no_prefix [of "nat n"]
  by (auto simp: bigint_of_string_def show_int_def Let_def numeral_2_eq_2)

lemma show_int_nat [simp]: "show_int (int n) = show_nat n"
  by (simp add: show_int_def)

lemma show_int_inject [simp]: "show_int a = show_int b \<longleftrightarrow> a = b"
  by (metis bigint_roundtrip option.inject)

section \<open>Padding\<close>

text \<open>\<open>padStart\<close>, \<open>padEnd\<close> and \<open>replace(/0+$/, '')\<close>.\<close>

definition pad_start :: "nat \<Rightarrow> char \<Rightarrow> string \<Rightarrow> string" where
  "pad_start n c s = replicate (n - length s) c @ s"

definition pad_end :: "nat \<Rightarrow> char \<Rightarrow> string \<Rightarrow> string" where
  "pad_end n c s = s @ replicate (n - length s) c"

definition strip_zeros :: "string \<Rightarrow> string" where
  "strip_zeros s = rev (dropWhile (\<lambda>c. c = CHR ''0'') (rev s))"

lemma digit_char_0: "digit_char 0 = CHR ''0''"
  by code_simp

lemma parse_zeros [simp]: "parse_radix 10 0 (replicate k (CHR ''0'') @ s) = parse_radix 10 0 s"
  using digit_val_digit_char [of 0] by (induction k) (simp_all add: digit_char_0)

lemma parse_pad_start [simp]: "parse_radix 10 0 (pad_start n (CHR ''0'') (show_nat m)) = Some m"
  by (simp add: pad_start_def parse_show_nat)

lemma length_show_nat: "m < 10 ^ n \<Longrightarrow> 0 < n \<Longrightarrow> length (show_nat m) \<le> n"
proof (induction m arbitrary: n rule: show_nat.induct)
  case (1 m)
  show ?case
  proof (cases "m < 10")
    case True
    then show ?thesis using 1 by (subst show_nat.simps) simp
  next
    case False
    have "n \<noteq> 1" using False 1(2) by auto
    then obtain k where n: "n = Suc k" "0 < k" using 1(3) by (cases n) auto
    have "m div 10 < 10 ^ k" using 1(2) n(1) by (simp add: less_mult_imp_div_less mult.commute)
    then have "length (show_nat (m div 10)) \<le> k" using 1(1) False n(2) by simp
    then show ?thesis using False n(1) by (subst show_nat.simps) simp
  qed
qed

lemma length_pad_start: "length s \<le> n \<Longrightarrow> length (pad_start n c s) = n"
  by (simp add: pad_start_def)

lemma strip_zeros_split: "\<exists>k. s = strip_zeros s @ replicate k (CHR ''0'')"
proof -
  have "rev s = takeWhile (\<lambda>c. c = CHR ''0'') (rev s) @ dropWhile (\<lambda>c. c = CHR ''0'') (rev s)"
    by simp
  then have "s = strip_zeros s @ rev (takeWhile (\<lambda>c. c = CHR ''0'') (rev s))"
    by (metis rev_append rev_rev_ident strip_zeros_def)
  moreover have "takeWhile (\<lambda>c. c = CHR ''0'') (rev s) =
      replicate (length (takeWhile (\<lambda>c. c = CHR ''0'') (rev s))) (CHR ''0'')"
    by (induction "rev s") (auto intro!: replicate_eqI dest: set_takeWhileD)
  ultimately show ?thesis by (metis rev_replicate)
qed

lemma pad_end_strip: "length s = n \<Longrightarrow> pad_end n (CHR ''0'') (strip_zeros s) = s"
proof -
  assume n: "length s = n"
  obtain k where k: "s = strip_zeros s @ replicate k (CHR ''0'')" using strip_zeros_split by blast
  then have "n - length (strip_zeros s) = k" using n by (metis diff_add_inverse length_append length_replicate)
  then show ?thesis using k by (simp add: pad_end_def)
qed

lemma set_strip_zeros: "set (strip_zeros s) \<subseteq> set s"
  using strip_zeros_split [of s] by (metis Un_upper1 set_append)

section \<open>BigInt division\<close>

text \<open>\<open>a / b\<close> and \<open>a % b\<close> on BigInts round towards zero.\<close>

definition bdiv :: "int \<Rightarrow> int \<Rightarrow> int" where
  "bdiv a b = sgn a * sgn b * (\<bar>a\<bar> div \<bar>b\<bar>)"

definition bmod :: "int \<Rightarrow> int \<Rightarrow> int" where
  "bmod a b = a - b * bdiv a b"

lemma bdiv_nonneg [simp]: "0 \<le> a \<Longrightarrow> 0 \<le> b \<Longrightarrow> bdiv a b = a div b"
  by (cases "a = 0"; cases "b = 0") (simp_all add: bdiv_def)

lemma bmod_nonneg [simp]: "0 \<le> a \<Longrightarrow> 0 \<le> b \<Longrightarrow> bmod a b = a mod b"
  by (simp add: bmod_def minus_mult_div_eq_mod)

end
