(* ===== verification/Projections.thy ===== *)
theory Projections
  imports Prelude
begin

text \<open>
  The indexer's fold, \<open>packages/indexer/src/projections.mjs\<close>: the projection state, the
  handler \<open>apply\<close> of one normalized event and \<open>applyAll\<close>, with the invariant that ties the
  counters of a vault record to the member sets they count.

  A vault key is a string, or \<open>None\<close> for the \<open>null\<close> vault of an event from an untrusted
  emitter. The handler mutates its state in place, so a throw leaves the mutations made so
  far: \<open>Threw\<close> carries that state.
\<close>

section \<open>State\<close>

type_synonym vkey = "string option"

record vault_state =
  v_vault :: vkey
  v_creator :: string
  v_usdc :: string
  v_kind :: string
  v_operatorId :: int
  v_totalShares :: int
  v_idleUsdc :: int
  v_memberCount :: int
  v_pendingCount :: int
  v_capacityCapUsdc :: int
  v_parent :: "string option"
  v_depth :: int
  v_exitQueuedCount :: int
  v_exitSettledCount :: int
  v_modeFSettledCount :: int

record operator_state =
  o_operatorId :: int
  o_operator :: string
  o_lifetimeGainUsdc :: int
  o_lifetimeLossUsdc :: int
  o_lifetimeFeesUsdc :: int
  o_vaultCount :: int

datatype proposal_status = Active | Passed | Defeated | Executed | Expired

record proposal_state =
  p_pid :: int
  p_vault :: vkey
  p_ptype :: int
  p_proposer :: string
  p_status :: proposal_status
  p_forWeight :: int
  p_againstWeight :: int
  p_revealedWeight :: int
  p_revealedVoters :: int
  p_delegatedForWeight :: "int option"

record event_stat =
  es_count :: int
  es_lastBlock :: int
  es_lastLogIndex :: int

record istate =
  vaults :: "(vkey, vault_state) jsmap"
  operators :: "(int, operator_state) jsmap"
  shares :: "(vkey, (string, int) jsmap) jsmap"
  proposals :: "(int, proposal_state) jsmap"
  activeProposal :: "(vkey, int) jsmap"
  eventStats :: "(string, event_stat) jsmap"
  adapters :: "string jsset"
  queuedExits :: "(vkey, string jsset) jsmap"
  queuedExitShares :: "(vkey, (string, int) jsmap) jsmap"
  pendingMembers :: "(vkey, string jsset) jsmap"
  lastBlock :: int
  lastLogIndex :: int

definition emptyState :: istate where
  "emptyState = \<lparr> vaults = [], operators = [], shares = [], proposals = [],
     activeProposal = [], eventStats = [], adapters = [], queuedExits = [],
     queuedExitShares = [], pendingMembers = [], lastBlock = 0, lastLogIndex = -1 \<rparr>"

definition newVault :: "vkey \<Rightarrow> vault_state" where
  "newVault k = \<lparr> v_vault = k, v_creator = ''0x'', v_usdc = ''0x'', v_kind = ''regular'',
     v_operatorId = 0, v_totalShares = 0, v_idleUsdc = 0, v_memberCount = 0,
     v_pendingCount = 0, v_capacityCapUsdc = 0, v_parent = None, v_depth = 0,
     v_exitQueuedCount = 0, v_exitSettledCount = 0, v_modeFSettledCount = 0 \<rparr>"

definition newOperator :: "int \<Rightarrow> string \<Rightarrow> operator_state" where
  "newOperator i a = \<lparr> o_operatorId = i, o_operator = a, o_lifetimeGainUsdc = 0,
     o_lifetimeLossUsdc = 0, o_lifetimeFeesUsdc = 0, o_vaultCount = 0 \<rparr>"

definition newProposal :: "int \<Rightarrow> vkey \<Rightarrow> int \<Rightarrow> string \<Rightarrow> proposal_state" where
  "newProposal pid v ptype proposer = \<lparr> p_pid = pid, p_vault = v, p_ptype = ptype,
     p_proposer = proposer, p_status = Active, p_forWeight = 0, p_againstWeight = 0,
     p_revealedWeight = 0, p_revealedVoters = 0, p_delegatedForWeight = Some 0 \<rparr>"

definition MAX_TRACKED_ADAPTERS :: nat where
  "MAX_TRACKED_ADAPTERS = 64"

section \<open>Events\<close>

text \<open>
  One constructor per event name the switch of \<open>apply\<close> has a case for, carrying the arguments
  that case reads; \<open>OtherEvent\<close> is any other name. An argument the code defaults
  (\<open>a.x ?? 0\<close>) or tests for absence is an option.
\<close>

datatype event_body =
    VaultCreated string string string "int option"
  | AgentVaultCreated string string string "int option" "int option"
  | VaultAttested string int
  | ChildRegistered string string int
  | OperatorRegistered int string
  | RealizationRecorded int "int option" "int option"
  | FeeRecorded int "int option"
  | DepositPending string
  | PendingCancelled string
  | DepositActivated string int
  | ExitQueued string "int option"
  | ExitSettled string int
  | RebalanceExecuted "string option"
  | Proposed int string int string
  | Revealed int bool "int option"
  | DefaultApplied int bool "int option"
  | DelegatedRevealed int bool "int option"
  | Finalized int int
  | ExecutedEvent int
  | ProposalExpired int
  | OtherEvent string

record event =
  e_body :: event_body
  e_vault :: vkey
  e_blockNumber :: int
  e_logIndex :: int

fun event_name :: "event_body \<Rightarrow> string" where
  "event_name (VaultCreated _ _ _ _) = ''VaultCreated''"
| "event_name (AgentVaultCreated _ _ _ _ _) = ''AgentVaultCreated''"
| "event_name (VaultAttested _ _) = ''VaultAttested''"
| "event_name (ChildRegistered _ _ _) = ''ChildRegistered''"
| "event_name (OperatorRegistered _ _) = ''OperatorRegistered''"
| "event_name (RealizationRecorded _ _ _) = ''RealizationRecorded''"
| "event_name (FeeRecorded _ _) = ''FeeRecorded''"
| "event_name (DepositPending _) = ''DepositPending''"
| "event_name (PendingCancelled _) = ''PendingCancelled''"
| "event_name (DepositActivated _ _) = ''DepositActivated''"
| "event_name (ExitQueued _ _) = ''ExitQueued''"
| "event_name (ExitSettled _ _) = ''ExitSettled''"
| "event_name (RebalanceExecuted _) = ''RebalanceExecuted''"
| "event_name (Proposed _ _ _ _) = ''Proposed''"
| "event_name (Revealed _ _ _) = ''Revealed''"
| "event_name (DefaultApplied _ _ _) = ''DefaultApplied''"
| "event_name (DelegatedRevealed _ _ _) = ''DelegatedRevealed''"
| "event_name (Finalized _ _) = ''Finalized''"
| "event_name (ExecutedEvent _) = ''Executed''"
| "event_name (ProposalExpired _) = ''ProposalExpired''"
| "event_name (OtherEvent n) = n"

definition STAT_ONLY_EVENTS :: "string list" where
  "STAT_ONLY_EVENTS = [''ExitQueued'', ''SliceEscrowed'', ''EscrowClaimed'', ''ModuleCallFailed'',
     ''RebalanceExecuted'', ''FeeAssessed'', ''FeeCredited'', ''FeesClaimed'',
     ''VaultRegistered'', ''Committed'', ''SwapExecuted'']"

definition VAULT_KINDS :: "string list" where
  "VAULT_KINDS = [''regular'', ''agent'']"

definition VAULT_KIND_AGENT :: int where
  "VAULT_KIND_AGENT = 1"

section \<open>Accessors that create on demand\<close>

definition vrec :: "istate \<Rightarrow> vkey \<Rightarrow> vault_state" where
  "vrec st k = jget_or (newVault k) (vaults st) k"

definition ensureVault :: "istate \<Rightarrow> vkey \<Rightarrow> istate" where
  "ensureVault st k = st\<lparr>vaults := AList.update k (vrec st k) (vaults st)\<rparr>"

definition mod_vault :: "vkey \<Rightarrow> (vault_state \<Rightarrow> vault_state) \<Rightarrow> istate \<Rightarrow> istate" where
  "mod_vault k f st = st\<lparr>vaults := AList.update k (f (vrec st k)) (vaults st)\<rparr>"

definition queuedExitSet :: "istate \<Rightarrow> vkey \<Rightarrow> string jsset" where
  "queuedExitSet st k = jget_or [] (queuedExits st) k"

definition pendingMemberSet :: "istate \<Rightarrow> vkey \<Rightarrow> string jsset" where
  "pendingMemberSet st k = jget_or [] (pendingMembers st) k"

definition queuedExitShareBook :: "istate \<Rightarrow> vkey \<Rightarrow> (string, int) jsmap" where
  "queuedExitShareBook st k = jget_or [] (queuedExitShares st) k"

definition shareBook :: "istate \<Rightarrow> vkey \<Rightarrow> (string, int) jsmap" where
  "shareBook st k = jget_or [] (shares st) k"

definition put_queuedExitSet :: "vkey \<Rightarrow> string jsset \<Rightarrow> istate \<Rightarrow> istate" where
  "put_queuedExitSet k q st = st\<lparr>queuedExits := AList.update k q (queuedExits st)\<rparr>"

definition put_pendingMemberSet :: "vkey \<Rightarrow> string jsset \<Rightarrow> istate \<Rightarrow> istate" where
  "put_pendingMemberSet k q st = st\<lparr>pendingMembers := AList.update k q (pendingMembers st)\<rparr>"

definition put_queuedExitShareBook :: "vkey \<Rightarrow> (string, int) jsmap \<Rightarrow> istate \<Rightarrow> istate" where
  "put_queuedExitShareBook k b st =
     st\<lparr>queuedExitShares := AList.update k b (queuedExitShares st)\<rparr>"

definition put_shareBook :: "vkey \<Rightarrow> (string, int) jsmap \<Rightarrow> istate \<Rightarrow> istate" where
  "put_shareBook k b st = st\<lparr>shares := AList.update k b (shares st)\<rparr>"

definition bumpEventStat :: "istate \<Rightarrow> event \<Rightarrow> istate" where
  "bumpEventStat st e =
     (let n = event_name (e_body e);
          s = jget_or \<lparr>es_count = 0, es_lastBlock = 0, es_lastLogIndex = -1\<rparr> (eventStats st) n
      in st\<lparr>eventStats := AList.update n
           \<lparr>es_count = es_count s + 1, es_lastBlock = e_blockNumber e,
            es_lastLogIndex = e_logIndex e\<rparr> (eventStats st)\<rparr>)"

section \<open>Share books\<close>

definition setShares :: "istate \<Rightarrow> vkey \<Rightarrow> string \<Rightarrow> int \<Rightarrow> istate" where
  "setShares st k m nxt =
     (let st1 = ensureVault st k;
          book = shareBook st1 k;
          prev = jget_or 0 book m;
          st2 = (if prev = 0 \<and> nxt > 0
                 then mod_vault k (\<lambda>v. v\<lparr>v_memberCount := v_memberCount v + 1\<rparr>) st1 else st1);
          st3 = (if prev > 0 \<and> nxt \<le> 0
                 then mod_vault k (\<lambda>v. v\<lparr>v_memberCount := v_memberCount v - 1\<rparr>) st2 else st2);
          st4 = put_shareBook k
                  (if nxt \<le> 0 then AList.delete m book else AList.update m nxt book) st3
      in mod_vault k (\<lambda>v. v\<lparr>v_totalShares := v_totalShares v + (nxt - prev)\<rparr>) st4)"

definition creditShares :: "istate \<Rightarrow> vkey \<Rightarrow> string \<Rightarrow> int \<Rightarrow> istate" where
  "creditShares st k m delta =
     (let prev = jget_or 0 (shareBook st k) m in setShares st k m (prev + delta))"

section \<open>The handler\<close>

definition mod_operator :: "int \<Rightarrow> (operator_state \<Rightarrow> operator_state) \<Rightarrow> istate \<Rightarrow> istate" where
  "mod_operator i f st = (case map_of (operators st) i of
     None \<Rightarrow> st | Some q \<Rightarrow> st\<lparr>operators := AList.update i (f q) (operators st)\<rparr>)"

definition mod_proposal :: "int \<Rightarrow> (proposal_state \<Rightarrow> proposal_state) \<Rightarrow> istate \<Rightarrow> istate" where
  "mod_proposal i f st = (case map_of (proposals st) i of
     None \<Rightarrow> st | Some q \<Rightarrow> st\<lparr>proposals := AList.update i (f q) (proposals st)\<rparr>)"

definition clearActive :: "int \<Rightarrow> istate \<Rightarrow> istate" where
  "clearActive pid st = (case map_of (proposals st) pid of
     None \<Rightarrow> st
   | Some q \<Rightarrow> st\<lparr>activeProposal := AList.update (p_vault q) 0 (activeProposal st)\<rparr>)"

abbreviation or0 :: "int option \<Rightarrow> int" where
  "or0 x \<equiv> (case x of None \<Rightarrow> 0 | Some n \<Rightarrow> n)"

definition tally :: "bool \<Rightarrow> int \<Rightarrow> proposal_state \<Rightarrow> proposal_state" where
  "tally support w p =
     (if support then p\<lparr>p_forWeight := p_forWeight p + w\<rparr>
      else p\<lparr>p_againstWeight := p_againstWeight p + w\<rparr>)"

text \<open>Factory, registry and fee events.\<close>

fun apply_registry :: "istate \<Rightarrow> event_body \<Rightarrow> istate" where
  "apply_registry st (VaultCreated va creator us cap) =
     mod_vault (Some va) (\<lambda>v. v\<lparr>v_creator := creator, v_usdc := us,
       v_capacityCapUsdc := or0 cap, v_kind := ''regular''\<rparr>) st"
| "apply_registry st (AgentVaultCreated va creator us cap knd) =
     mod_vault (Some va) (\<lambda>v. v\<lparr>v_creator := creator, v_usdc := us,
       v_capacityCapUsdc := or0 cap,
       v_kind := (if knd = Some VAULT_KIND_AGENT then ''agent'' else ''unknown'')\<rparr>) st"
| "apply_registry st (VaultAttested va opId) =
     mod_operator opId (\<lambda>q. q\<lparr>o_vaultCount := o_vaultCount q + 1\<rparr>)
       (mod_vault (Some va) (\<lambda>v. v\<lparr>v_operatorId := opId\<rparr>) st)"
| "apply_registry st (ChildRegistered child prnt dep) =
     mod_vault (Some child) (\<lambda>v. v\<lparr>v_parent := Some prnt, v_depth := dep\<rparr>) st"
| "apply_registry st (OperatorRegistered opId who) =
     (if map_of (operators st) opId = None
      then st\<lparr>operators := AList.update opId (newOperator opId who) (operators st)\<rparr> else st)"
| "apply_registry st (RealizationRecorded opId gain loss) =
     mod_operator opId (\<lambda>q. q\<lparr>o_lifetimeGainUsdc := o_lifetimeGainUsdc q + or0 gain,
       o_lifetimeLossUsdc := o_lifetimeLossUsdc q + or0 loss\<rparr>) st"
| "apply_registry st (FeeRecorded opId amount) =
     mod_operator opId (\<lambda>q. q\<lparr>o_lifetimeFeesUsdc := o_lifetimeFeesUsdc q + or0 amount\<rparr>) st"
| "apply_registry st _ = st"

text \<open>Deposits, exits and adapter discovery on the emitting vault \<open>k\<close>.\<close>

datatype index_error = ZeroPostMintBalance string

fun apply_member :: "istate \<Rightarrow> vkey \<Rightarrow> event_body \<Rightarrow> (index_error, istate) outcome" where
  "apply_member st k (DepositPending m) =
     (if m \<in> set (pendingMemberSet st k)
      then Done (put_pendingMemberSet k (pendingMemberSet st k) st)
      else Done (mod_vault k (\<lambda>v. v\<lparr>v_pendingCount := v_pendingCount v + 1\<rparr>)
             (put_pendingMemberSet k (jadd m (pendingMemberSet st k)) st)))"
| "apply_member st k (PendingCancelled m) =
     (let st1 = put_pendingMemberSet k (jdel m (pendingMemberSet st k)) st in
      if m \<in> set (pendingMemberSet st k)
      then Done (mod_vault k (\<lambda>v. v\<lparr>v_pendingCount := v_pendingCount v - 1\<rparr>) st1)
      else Done st1)"
| "apply_member st k (DepositActivated m after) =
     (let st0 = ensureVault st k;
          st1 = put_pendingMemberSet k (jdel m (pendingMemberSet st k)) st0;
          st2 = (if m \<in> set (pendingMemberSet st k)
                 then mod_vault k (\<lambda>v. v\<lparr>v_pendingCount := v_pendingCount v - 1\<rparr>) st1 else st1)
      in if after \<le> 0 then Threw (ZeroPostMintBalance m) st2
         else Done (setShares st2 k m after))"
| "apply_member st k (ExitQueued m amount) =
     (let st1 = mod_vault k (\<lambda>v. v\<lparr>v_exitQueuedCount := v_exitQueuedCount v + 1\<rparr>) st;
          st2 = put_queuedExitSet k (jadd m (queuedExitSet st1 k)) st1
      in case amount of
           None \<Rightarrow> Done st2
         | Some n \<Rightarrow> Done (put_queuedExitShareBook k
                           (AList.update m n (queuedExitShareBook st2 k)) st2))"
| "apply_member st k (ExitSettled m burned) =
     (let st1 = mod_vault k (\<lambda>v. v\<lparr>v_exitSettledCount := v_exitSettledCount v + 1\<rparr>) st;
          st2 = put_queuedExitSet k (jdel m (queuedExitSet st1 k)) st1;
          st3 = (if m \<in> set (queuedExitSet st1 k)
                 then mod_vault k (\<lambda>v. v\<lparr>v_modeFSettledCount := v_modeFSettledCount v + 1\<rparr>) st2
                 else st2);
          st4 = put_queuedExitShareBook k (AList.delete m (queuedExitShareBook st3 k)) st3
      in Done (creditShares st4 k m (- burned)))"
| "apply_member st k (RebalanceExecuted adapter) =
     (case adapter of
        None \<Rightarrow> Done st
      | Some a \<Rightarrow> if a \<noteq> [] \<and> length (adapters st) < MAX_TRACKED_ADAPTERS
                 then Done (st\<lparr>adapters := jadd a (adapters st)\<rparr>) else Done st)"
| "apply_member st k _ = Done st"

text \<open>Governance events.\<close>

fun apply_governance :: "istate \<Rightarrow> event_body \<Rightarrow> istate" where
  "apply_governance st (Proposed pid va ptype proposer) =
     st\<lparr>proposals := AList.update pid (newProposal pid (Some va) ptype proposer) (proposals st),
        activeProposal := AList.update (Some va) pid (activeProposal st)\<rparr>"
| "apply_governance st (Revealed pid support weight) =
     mod_proposal pid (\<lambda>p. let w = or0 weight; p1 = tally support w p in
       p1\<lparr>p_revealedWeight := p_revealedWeight p1 + w,
          p_revealedVoters := p_revealedVoters p1 + 1\<rparr>) st"
| "apply_governance st (DefaultApplied pid support weight) =
     mod_proposal pid (\<lambda>p. tally support (or0 weight) p) st"
| "apply_governance st (DelegatedRevealed pid support weight) =
     mod_proposal pid (\<lambda>p. let w = or0 weight; p1 = tally support w p in
       if support then p1\<lparr>p_delegatedForWeight := map_option (\<lambda>d. d + w) (p_delegatedForWeight p1)\<rparr>
       else p1) st"
| "apply_governance st (Finalized pid status) =
     (let st1 = mod_proposal pid
            (\<lambda>p. p\<lparr>p_status := (if status = 2 then Passed else Defeated)\<rparr>) st
      in if status = 2 then st1 else clearActive pid st1)"
| "apply_governance st (ExecutedEvent pid) =
     clearActive pid (mod_proposal pid (\<lambda>p. p\<lparr>p_status := Executed\<rparr>) st)"
| "apply_governance st (ProposalExpired pid) =
     clearActive pid (mod_proposal pid (\<lambda>p. p\<lparr>p_status := Expired\<rparr>) st)"
| "apply_governance st _ = st"

text \<open>
  \<open>apply\<close>: the statistics of a stat-only event, the case of its name, then the cursor. A
  throw skips the cursor update.
\<close>

definition apply_event :: "istate \<Rightarrow> event \<Rightarrow> (index_error, istate) outcome" where
  "apply_event st e =
     (let st0 = (if event_name (e_body e) \<in> set STAT_ONLY_EVENTS then bumpEventStat st e else st);
          st1 = apply_governance (apply_registry st0 (e_body e)) (e_body e)
      in case apply_member st1 (e_vault e) (e_body e) of
           Threw err st2 \<Rightarrow> Threw err st2
         | Done st2 \<Rightarrow> Done (st2\<lparr>lastBlock := e_blockNumber e, lastLogIndex := e_logIndex e\<rparr>))"

abbreviation event_pos :: "event \<Rightarrow> int \<times> int" where
  "event_pos e \<equiv> (e_blockNumber e, e_logIndex e)"

definition sort_log :: "event list \<Rightarrow> event list" where
  "sort_log es = sort_key event_pos es"

definition applyAll :: "event list \<Rightarrow> istate \<Rightarrow> (index_error, istate) outcome" where
  "applyAll es st = run_seq apply_event st (sort_log es)"

end
