(* ===== verification/Chain_Source.thy ===== *)
theory Chain_Source
  imports Decimal Projections
begin

text \<open>
  The chain side of the indexer: \<open>packages/indexer/src/chain.mjs\<close> (\<open>canon\<close>, \<open>normalizeLog\<close>,
  \<open>sortEvents\<close>) and the discovery logic of \<open>packages/indexer/src/rpc.mjs\<close>
  (\<open>createChainSource\<close>, \<open>logsFor\<close>, \<open>fetchEvents\<close>). The RPC's \<open>getLogs\<close> is a parameter: it maps
  an address list, the label of the ABI group and a block range to decoded logs, of which an
  entry may be missing or carry no event name.
\<close>

section \<open>Normalized events\<close>

datatype arg = AStr string | AInt int | ABool bool

record raw_log =
  rl_eventName :: "string option"
  rl_address :: string
  rl_blockNumber :: int
  rl_logIndex :: int
  rl_args :: "(string, arg) jsmap"

record norm_event =
  n_name :: "string option"
  n_vault :: "arg option"
  n_emitter :: string
  n_blockNumber :: int
  n_logIndex :: int
  n_args :: "(string, arg) jsmap"

definition canon_str :: "string \<Rightarrow> string" where
  "canon_str s = (if is_address s then lc s else s)"

fun canon :: "arg \<Rightarrow> arg" where
  "canon (AStr s) = AStr (canon_str s)"
| "canon v = v"

definition normalizeLog :: "raw_log \<Rightarrow> string option \<Rightarrow> bool \<Rightarrow> norm_event" where
  "normalizeLog log vaultAddress attributed =
     (let args = map (\<lambda>(k, v). (k, canon v)) (rl_args log);
          emitter = canon_str (rl_address log);
          vault = (if attributed
                   then Some (canon (case vaultAddress of
                          Some a \<Rightarrow> AStr a
                        | None \<Rightarrow> (case map_of args ''vault'' of Some v \<Rightarrow> v | None \<Rightarrow> AStr emitter)))
                   else None)
      in \<lparr> n_name = rl_eventName log, n_vault = vault, n_emitter = emitter,
           n_blockNumber = rl_blockNumber log, n_logIndex = rl_logIndex log, n_args = args \<rparr>)"

abbreviation norm_pos :: "norm_event \<Rightarrow> int \<times> int" where
  "norm_pos e \<equiv> (n_blockNumber e, n_logIndex e)"

definition sortEvents :: "norm_event list \<Rightarrow> norm_event list" where
  "sortEvents es = sort_key norm_pos es"

interpretation chain_log_order: chain_order norm_pos sortEvents
  by unfold_locales (simp_all add: sortEvents_def)

section \<open>The source\<close>

definition SINGLETON_LABELS :: "string list" where
  "SINGLETON_LABELS = [''factory'', ''operatorRegistry'', ''subvaultRegistry'', ''governance'', ''feeEngine'']"

record source =
  cs_addr :: "(string, string) jsmap"
  cs_vaults :: "string jsset"
  cs_configured :: "string jsset"
  cs_discovered :: "string jsset"

record cap_report =
  cr_dropped :: "string list"
  cr_tracked :: nat

definition createChainSource ::
  "(string, string) jsmap \<Rightarrow> string list \<Rightarrow> string list \<Rightarrow> string list \<Rightarrow> source \<times> cap_report option" where
  "createChainSource addresses knownVaults knownAdapters configuredAdapters =
     (let addr = concat (map (\<lambda>label. case map_of addresses label of
                   None \<Rightarrow> [] | Some a \<Rightarrow> if a = [] then [] else [(label, lc a)]) SINGLETON_LABELS);
          vaults = set_of_list (map lc (filter is_address knownVaults));
          configured = set_of_list (map lc (filter is_address configuredAdapters));
          seed = filter (\<lambda>a. a \<notin> set configured) (map lc (filter is_address knownAdapters));
          discovered = set_of_list (take MAX_TRACKED_ADAPTERS seed);
          dropped = drop MAX_TRACKED_ADAPTERS seed
      in (\<lparr> cs_addr = addr, cs_vaults = vaults, cs_configured = configured,
            cs_discovered = discovered \<rparr>,
          if dropped \<noteq> []
          then Some \<lparr> cr_dropped = dropped, cr_tracked = length configured + length discovered \<rparr>
          else None))"

definition pollSet :: "source \<Rightarrow> string list" where
  "pollSet s = cs_configured s @ cs_discovered s"

type_synonym get_logs = "string list \<Rightarrow> string \<Rightarrow> int \<Rightarrow> int \<Rightarrow> raw_log option list"

definition logsFor :: "get_logs \<Rightarrow> string list \<Rightarrow> string \<Rightarrow> int \<Rightarrow> int \<Rightarrow> bool \<Rightarrow> norm_event list" where
  "logsFor getLogs address grp lo hi attributed =
     (if address = [] then []
      else concat (map (\<lambda>ol. case ol of
             None \<Rightarrow> []
           | Some l \<Rightarrow> (case rl_eventName l of
                 None \<Rightarrow> []
               | Some n \<Rightarrow> if n = [] then [] else [normalizeLog l None attributed]))
           (getLogs address grp lo hi)))"

text \<open>The vault key of an event, when it is a string of address shape.\<close>

definition vault_address :: "norm_event \<Rightarrow> string option" where
  "vault_address e = (case n_vault e of
     Some (AStr s) \<Rightarrow> if is_address s then Some s else None | _ \<Rightarrow> None)"

definition adapter_arg :: "norm_event \<Rightarrow> string option" where
  "adapter_arg e = (case map_of (n_args e) ''adapter'' of
     Some (AStr s) \<Rightarrow> if is_address s then Some s else None | _ \<Rightarrow> None)"

fun learn_vaults :: "string jsset \<Rightarrow> norm_event list \<Rightarrow> string jsset" where
  "learn_vaults vs [] = vs"
| "learn_vaults vs (e # es) =
     learn_vaults (if n_name e = Some ''VaultCreated'' \<or> n_name e = Some ''AgentVaultCreated''
                   then (case vault_address e of Some a \<Rightarrow> jadd a vs | None \<Rightarrow> vs) else vs) es"

fun learn_adapters ::
  "string jsset \<Rightarrow> string jsset \<Rightarrow> string list \<Rightarrow> norm_event list \<Rightarrow> string jsset \<times> string list" where
  "learn_adapters configured discovered dropped [] = (discovered, dropped)"
| "learn_adapters configured discovered dropped (e # es) =
     (case adapter_arg e of
        Some raw \<Rightarrow>
          if n_name e \<noteq> Some ''RebalanceExecuted'' then learn_adapters configured discovered dropped es
          else let adapter = lc raw in
            if adapter \<in> set configured \<or> adapter \<in> set discovered
            then learn_adapters configured discovered dropped es
            else if length discovered \<ge> MAX_TRACKED_ADAPTERS
            then learn_adapters configured discovered (dropped @ [adapter]) es
            else learn_adapters configured (jadd adapter discovered) dropped es
      | None \<Rightarrow> learn_adapters configured discovered dropped es)"

definition singleton_events :: "get_logs \<Rightarrow> source \<Rightarrow> int \<Rightarrow> int \<Rightarrow> norm_event list" where
  "singleton_events getLogs s lo hi =
     concat (map (\<lambda>label. case map_of (cs_addr s) label of
        None \<Rightarrow> [] | Some a \<Rightarrow> logsFor getLogs [a] label lo hi True) SINGLETON_LABELS)"

definition fetchEvents ::
  "get_logs \<Rightarrow> source \<Rightarrow> int \<Rightarrow> int \<Rightarrow> norm_event list \<times> source \<times> cap_report option" where
  "fetchEvents getLogs s lo hi =
     (let out1 = singleton_events getLogs s lo hi;
          vaults = learn_vaults (cs_vaults s) out1;
          vaultEvts = (if vaults = [] then [] else logsFor getLogs vaults ''vault'' lo hi True);
          (discovered, dropped) = learn_adapters (cs_configured s) (cs_discovered s) [] vaultEvts;
          s' = s\<lparr>cs_vaults := vaults, cs_discovered := discovered\<rparr>;
          poll = pollSet s';
          adapterEvts = logsFor getLogs poll ''adapter'' lo hi False
      in (sortEvents (out1 @ vaultEvts @ adapterEvts), s',
          if dropped \<noteq> []
          then Some \<lparr> cr_dropped = dropped,
                      cr_tracked = length (cs_configured s') + length discovered \<rparr>
          else None))"

section \<open>What the source promises\<close>

definition source_ok :: "source \<Rightarrow> bool" where
  "source_ok s \<longleftrightarrow> distinct (cs_discovered s) \<and> length (cs_discovered s) \<le> MAX_TRACKED_ADAPTERS
     \<and> set (cs_discovered s) \<inter> set (cs_configured s) = {}
     \<and> (\<forall>a \<in> set (cs_configured s) \<union> set (cs_discovered s) \<union> set (cs_vaults s). lc a = a)"

lemma distinct_set_of_list [simp]: "distinct (set_of_list xs)"
proof -
  have "distinct s \<Longrightarrow> distinct (foldl (\<lambda>s x. jadd x s) s xs)" for s
    by (induction xs arbitrary: s) auto
  then show ?thesis by (simp add: set_of_list_def)
qed

lemma length_set_of_list: "length (set_of_list xs) \<le> length xs"
proof -
  have "length (foldl (\<lambda>s x. jadd x s) s xs) \<le> length s + length xs" for s
  proof (induction xs arbitrary: s)
    case (Cons x xs)
    show ?case using Cons [of "jadd x s"] by (auto simp: length_jadd split: if_splits)
  qed simp
  from this [of "[]"] show ?thesis by (simp add: set_of_list_def)
qed

lemma learn_adapters_ok:
  assumes "learn_adapters c d dr es = (d', dr')"
    and "distinct d" "length d \<le> MAX_TRACKED_ADAPTERS" "set d \<inter> set c = {}" "\<forall>a \<in> set d. lc a = a"
  shows "distinct d' \<and> length d' \<le> MAX_TRACKED_ADAPTERS \<and> set d' \<inter> set c = {} \<and> (\<forall>a \<in> set d'. lc a = a)"
  using assms
proof (induction es arbitrary: d dr)
  case (Cons e es)
  show ?case
  proof (cases "\<exists>raw. adapter_arg e = Some raw \<and> n_name e = Some ''RebalanceExecuted''
      \<and> lc raw \<notin> set c \<and> lc raw \<notin> set d \<and> length d < MAX_TRACKED_ADAPTERS")
    case True
    then obtain raw where raw: "adapter_arg e = Some raw" "n_name e = Some ''RebalanceExecuted''"
      "lc raw \<notin> set c" "lc raw \<notin> set d" "length d < MAX_TRACKED_ADAPTERS" by blast
    then have "learn_adapters c (jadd (lc raw) d) dr es = (d', dr')"
      using Cons.prems(1) by simp
    then show ?thesis
      by (rule Cons.IH) (use raw Cons.prems in \<open>auto simp: length_jadd\<close>)
  next
    case False
    then obtain dr1 where "learn_adapters c d dr1 es = (d', dr')"
      using Cons.prems(1) by (auto simp: Let_def split: option.splits if_splits)
    then show ?thesis by (rule Cons.IH) (use Cons.prems in auto)
  qed
qed simp

lemma canon_str_lc: "is_address (canon_str s) \<Longrightarrow> lc (canon_str s) = canon_str s"
  by (auto simp: canon_str_def)

lemma canon_address: "canon v = AStr s \<Longrightarrow> is_address s \<Longrightarrow> lc s = s"
  by (cases v) (auto simp: canon_str_def split: if_splits)

lemma vault_address_canonical:
  assumes "e \<in> set (logsFor g a grp f t b)" "vault_address e = Some v" shows "lc v = v"
proof -
  obtain l va at where "e = normalizeLog l va at"
    using assms(1) by (auto simp: logsFor_def split: option.splits if_splits)
  then obtain w where "n_vault e = Some (canon w)"
    using assms(2) by (auto simp: normalizeLog_def Let_def vault_address_def split: if_splits)
  then show ?thesis
    using assms(2) canon_address [of w v]
    by (auto simp: vault_address_def split: arg.splits if_splits)
qed

lemma learn_vaults_lc:
  assumes "\<forall>a \<in> set vs. lc a = a" "\<forall>e \<in> set es. \<forall>v. vault_address e = Some v \<longrightarrow> lc v = v"
  shows "\<forall>a \<in> set (learn_vaults vs es). lc a = a"
  using assms
proof (induction es arbitrary: vs)
  case (Cons e es)
  define vs' where "vs' = (if n_name e = Some ''VaultCreated'' \<or> n_name e = Some ''AgentVaultCreated''
                   then (case vault_address e of Some a \<Rightarrow> jadd a vs | None \<Rightarrow> vs) else vs)"
  have "vault_address e = Some v \<Longrightarrow> lc v = v" for v using Cons.prems(2) by simp
  then have "\<forall>a \<in> set vs'. lc a = a"
    using Cons.prems(1) by (cases "vault_address e") (simp_all add: vs'_def)
  then have "\<forall>a \<in> set (learn_vaults vs' es). lc a = a"
    by (rule Cons.IH) (use Cons.prems(2) in simp)
  then show ?case by (simp add: vs'_def)
qed simp

lemma singleton_events_vault:
  assumes "e \<in> set (singleton_events g s lo hi)" "vault_address e = Some v" shows "lc v = v"
proof -
  obtain a label where "e \<in> set (logsFor g a label lo hi True)"
    using assms(1) by (auto simp: singleton_events_def split: option.splits)
  then show ?thesis using assms(2) by (rule vault_address_canonical)
qed

lemma fetchEvents_parts:
  assumes "fetchEvents g s lo hi = (es, s', rep)"
  obtains vs vevts d dr where "vs = learn_vaults (cs_vaults s) (singleton_events g s lo hi)"
    "vevts = (if vs = [] then [] else logsFor g vs ''vault'' lo hi True)"
    "learn_adapters (cs_configured s) (cs_discovered s) [] vevts = (d, dr)"
    "s' = s\<lparr>cs_vaults := vs, cs_discovered := d\<rparr>"
    "es = sortEvents (singleton_events g s lo hi @ vevts @ logsFor g (pollSet s') ''adapter'' lo hi False)"
proof -
  define vs where "vs = learn_vaults (cs_vaults s) (singleton_events g s lo hi)"
  define vevts where "vevts = (if vs = [] then [] else logsFor g vs ''vault'' lo hi True)"
  obtain d dr where la: "learn_adapters (cs_configured s) (cs_discovered s) [] vevts = (d, dr)"
    by fastforce
  have "s' = s\<lparr>cs_vaults := vs, cs_discovered := d\<rparr> \<and>
    es = sortEvents (singleton_events g s lo hi @ vevts @ logsFor g (pollSet s') ''adapter'' lo hi False)"
    using assms
    unfolding fetchEvents_def Let_def vs_def [symmetric] vevts_def [symmetric] la prod.case by auto
  then show thesis using that [OF vs_def vevts_def la] by blast
qed

text \<open>
  Discovery stays bounded and canonical over every fetch: the learned adapters are
  distinct, at most 64, never overlap the configured ones, every tracked address is in lower
  case, and the configured adapters are polled unchanged.
\<close>

theorem fetchEvents_source_ok:
  assumes "source_ok s" and "fetchEvents g s lo hi = (es, s', rep)"
  shows "source_ok s' \<and> cs_configured s' = cs_configured s
    \<and> set (cs_configured s) \<subseteq> set (pollSet s') \<and> length (pollSet s') \<le> length (cs_configured s) + 64"
proof -
  obtain vs vevts d dr where p: "vs = learn_vaults (cs_vaults s) (singleton_events g s lo hi)"
    "learn_adapters (cs_configured s) (cs_discovered s) [] vevts = (d, dr)"
    "s' = s\<lparr>cs_vaults := vs, cs_discovered := d\<rparr>"
    using fetchEvents_parts [OF assms(2)] by metis
  have d: "distinct d \<and> length d \<le> MAX_TRACKED_ADAPTERS \<and> set d \<inter> set (cs_configured s) = {}
      \<and> (\<forall>a \<in> set d. lc a = a)"
    by (rule learn_adapters_ok [OF p(2)]) (use assms(1) in \<open>auto simp: source_ok_def\<close>)
  have "\<forall>a \<in> set vs. lc a = a"
    unfolding p(1)
    by (rule learn_vaults_lc) (use assms(1) in \<open>auto simp: source_ok_def intro: singleton_events_vault\<close>)
  with d assms(1) show ?thesis
    by (auto simp: p(3) source_ok_def pollSet_def MAX_TRACKED_ADAPTERS_def)
qed

lemma set_take_lc: "a \<in> set (take n (filter P (map lc xs))) \<Longrightarrow> P a \<and> lc a = a"
  by (drule in_set_takeD) auto

lemma createChainSource_ok: "source_ok (fst (createChainSource a kv ka ca))"
proof -
  define conf where "conf = set_of_list (map lc (filter is_address ca))"
  define disc where "disc = take MAX_TRACKED_ADAPTERS
      (filter (\<lambda>x. x \<notin> set conf) (map lc (filter is_address ka)))"
  have "length disc \<le> MAX_TRACKED_ADAPTERS" by (simp add: disc_def)
  then have "length (set_of_list disc) \<le> MAX_TRACKED_ADAPTERS"
    using length_set_of_list [of disc] by linarith
  moreover have "\<forall>x \<in> set disc. x \<notin> set conf \<and> lc x = x"
    using set_take_lc unfolding disc_def by blast
  moreover have "\<forall>x \<in> set conf. lc x = x" by (auto simp: conf_def)
  ultimately show ?thesis
    unfolding createChainSource_def Let_def conf_def [symmetric] disc_def [symmetric]
    by (auto simp: source_ok_def)
qed

definition sample_logs :: get_logs where
  "sample_logs address grp lo hi =
     (if grp = ''adapter'' then [Some \<lparr>rl_eventName = Some ''SwapExecuted'', rl_address = ''0xbad'',
        rl_blockNumber = lo, rl_logIndex = 0, rl_args = [(''vault'', AStr ''0xvictim'')]\<rparr>]
      else [None])"

lemma fetchEvents_source_ok_witness:
  "source_ok (fst (snd (fetchEvents sample_logs (fst (createChainSource [] [] [] [])) 1 2)))"
  using fetchEvents_source_ok [OF createChainSource_ok [of "[]" "[]" "[]" "[]"],
      of sample_logs 1 2 "fst (fetchEvents sample_logs (fst (createChainSource [] [] [] [])) 1 2)"
      "fst (snd (fetchEvents sample_logs (fst (createChainSource [] [] [] [])) 1 2))"
      "snd (snd (fetchEvents sample_logs (fst (createChainSource [] [] [] [])) 1 2))"]
  by simp

lemma logsFor_attribution: "e \<in> set (logsFor g a grp lo hi False) \<Longrightarrow> n_vault e = None"
  by (auto simp: logsFor_def normalizeLog_def Let_def split: option.splits if_splits)

text \<open>
  Attribution: an event carries a vault key only if it was read from one of the fixed
  singleton contracts or from a vault the factory announced; what an execution adapter (code
  anyone can deploy) says about a vault never becomes a key. The batch comes in chain order.
\<close>

theorem fetchEvents_attribution:
  assumes "fetchEvents g s lo hi = (es, s', rep)" and "e \<in> set es" and "n_vault e \<noteq> None"
  shows "(e \<in> set (singleton_events g s lo hi) \<or> e \<in> set (logsFor g (cs_vaults s') ''vault'' lo hi True))
    \<and> sorted (map norm_pos es)"
proof -
  obtain vs vevts d where p: "vevts = (if vs = [] then [] else logsFor g vs ''vault'' lo hi True)"
    "s' = s\<lparr>cs_vaults := vs, cs_discovered := d\<rparr>"
    "es = sortEvents (singleton_events g s lo hi @ vevts @ logsFor g (pollSet s') ''adapter'' lo hi False)"
    using fetchEvents_parts [OF assms(1)] by metis
  have "e \<in> set (singleton_events g s lo hi) \<or> e \<in> set vevts"
    using assms(2,3) logsFor_attribution by (auto simp: p(3) chain_log_order.order_set)
  moreover have "sorted (map norm_pos es)" unfolding p(3) by (rule chain_log_order.order_sorted)
  moreover have "e \<in> set vevts \<Longrightarrow> e \<in> set (logsFor g (cs_vaults s') ''vault'' lo hi True)"
    by (simp add: p(1,2) split: if_splits)
  ultimately show ?thesis by blast
qed

definition sample_source :: source where
  "sample_source = \<lparr> cs_addr = [], cs_vaults = [''0xv''], cs_configured = [''0xa''], cs_discovered = [] \<rparr>"

definition vault_logs :: get_logs where
  "vault_logs address grp lo hi =
     (if grp = ''vault'' then [Some \<lparr>rl_eventName = Some ''DepositPending'', rl_address = ''0xv'',
        rl_blockNumber = hi, rl_logIndex = 3, rl_args = []\<rparr>] else sample_logs address grp lo hi)"

definition vault_event :: norm_event where
  "vault_event = \<lparr> n_name = Some ''DepositPending'', n_vault = Some (AStr ''0xv''), n_emitter = ''0xv'',
     n_blockNumber = 2, n_logIndex = 3, n_args = [] \<rparr>"

lemma fetchEvents_attribution_witness:
  "vault_event \<in> set (singleton_events vault_logs sample_source 1 2)
     \<or> vault_event \<in> set (logsFor vault_logs [''0xv''] ''vault'' 1 2 True)"
proof -
  let ?r = "fetchEvents vault_logs sample_source 1 2"
  have "vault_event \<in> set (fst ?r)" "cs_vaults (fst (snd ?r)) = [''0xv'']"
    "n_vault vault_event \<noteq> None"
    by code_simp+
  then show ?thesis
    using fetchEvents_attribution [of vault_logs sample_source 1 2 "fst ?r" "fst (snd ?r)" "snd (snd ?r)"
        vault_event] by simp
qed

end
