(* ===== verification/Projection_Invariants.thy ===== *)
theory Projection_Invariants
  imports Projections
begin

text \<open>
  What the fold of \<open>Projections\<close> keeps true: every counter of a vault record equals the size
  of the set it counts, balances are positive, the Mode-F settlements are a part of all
  settlements, the discovered adapters stay under their ceiling; and, while no exit burns
  more than the recorded balance, a vault's total is the sum of its share book. A replay does
  not depend on the order the log arrives in and may be cut at any block boundary.
\<close>

section \<open>Accessors after updates\<close>

lemma vrec_mod_vault [jsmap_simps]:
  "vrec (mod_vault k f st) k' = (if k' = k then f (vrec st k) else vrec st k')"
  by (simp add: vrec_def mod_vault_def)

lemma vrec_ensureVault [jsmap_simps]: "vrec (ensureVault st k) k' = vrec st k'"
  by (auto simp: vrec_def ensureVault_def)

lemma vrec_put [jsmap_simps]:
  "vrec (put_pendingMemberSet k p st) k' = vrec st k'"
  "vrec (put_queuedExitSet k p st) k' = vrec st k'"
  "vrec (put_queuedExitShareBook k b st) k' = vrec st k'"
  "vrec (put_shareBook k b st) k' = vrec st k'"
  by (simp_all add: vrec_def put_pendingMemberSet_def put_queuedExitSet_def
      put_queuedExitShareBook_def put_shareBook_def)

lemma pending_upd [jsmap_simps]:
  "pendingMemberSet (mod_vault k f st) k' = pendingMemberSet st k'"
  "pendingMemberSet (ensureVault st k) k' = pendingMemberSet st k'"
  "pendingMemberSet (put_pendingMemberSet k p st) k' = (if k' = k then p else pendingMemberSet st k')"
  "pendingMemberSet (put_queuedExitSet k p st) k' = pendingMemberSet st k'"
  "pendingMemberSet (put_queuedExitShareBook k b st) k' = pendingMemberSet st k'"
  "pendingMemberSet (put_shareBook k b st) k' = pendingMemberSet st k'"
  by (simp_all add: pendingMemberSet_def mod_vault_def ensureVault_def put_pendingMemberSet_def
      put_queuedExitSet_def put_queuedExitShareBook_def put_shareBook_def)

lemma queued_upd [jsmap_simps]:
  "queuedExitSet (mod_vault k f st) k' = queuedExitSet st k'"
  "queuedExitSet (ensureVault st k) k' = queuedExitSet st k'"
  "queuedExitSet (put_pendingMemberSet k p st) k' = queuedExitSet st k'"
  "queuedExitSet (put_queuedExitSet k p st) k' = (if k' = k then p else queuedExitSet st k')"
  "queuedExitSet (put_queuedExitShareBook k b st) k' = queuedExitSet st k'"
  "queuedExitSet (put_shareBook k b st) k' = queuedExitSet st k'"
  by (simp_all add: queuedExitSet_def mod_vault_def ensureVault_def put_pendingMemberSet_def
      put_queuedExitSet_def put_queuedExitShareBook_def put_shareBook_def)

lemma queuedBook_upd [jsmap_simps]:
  "queuedExitShareBook (mod_vault k f st) k' = queuedExitShareBook st k'"
  "queuedExitShareBook (ensureVault st k) k' = queuedExitShareBook st k'"
  "queuedExitShareBook (put_pendingMemberSet k p st) k' = queuedExitShareBook st k'"
  "queuedExitShareBook (put_queuedExitSet k p st) k' = queuedExitShareBook st k'"
  "queuedExitShareBook (put_queuedExitShareBook k b st) k' =
     (if k' = k then b else queuedExitShareBook st k')"
  "queuedExitShareBook (put_shareBook k b st) k' = queuedExitShareBook st k'"
  by (simp_all add: queuedExitShareBook_def mod_vault_def ensureVault_def put_pendingMemberSet_def
      put_queuedExitSet_def put_queuedExitShareBook_def put_shareBook_def)

lemma shareBook_upd [jsmap_simps]:
  "shareBook (mod_vault k f st) k' = shareBook st k'"
  "shareBook (ensureVault st k) k' = shareBook st k'"
  "shareBook (put_pendingMemberSet k p st) k' = shareBook st k'"
  "shareBook (put_queuedExitSet k p st) k' = shareBook st k'"
  "shareBook (put_queuedExitShareBook k b st) k' = shareBook st k'"
  "shareBook (put_shareBook k b st) k' = (if k' = k then b else shareBook st k')"
  by (simp_all add: shareBook_def mod_vault_def ensureVault_def put_pendingMemberSet_def
      put_queuedExitSet_def put_queuedExitShareBook_def put_shareBook_def)

lemma adapters_upd [jsmap_simps]:
  "adapters (mod_vault k f st) = adapters st"
  "adapters (ensureVault st k) = adapters st"
  "adapters (put_pendingMemberSet k p st) = adapters st"
  "adapters (put_queuedExitSet k p st) = adapters st"
  "adapters (put_queuedExitShareBook k b st) = adapters st"
  "adapters (put_shareBook k b st) = adapters st"
  "adapters (mod_operator i g st) = adapters st"
  "adapters (mod_proposal i h st) = adapters st"
  "adapters (clearActive i st) = adapters st"
  "adapters (bumpEventStat st e) = adapters st"
  by (simp_all add: mod_vault_def ensureVault_def put_pendingMemberSet_def put_queuedExitSet_def
      put_queuedExitShareBook_def put_shareBook_def mod_operator_def mod_proposal_def
      clearActive_def bumpEventStat_def Let_def split: option.splits)

text \<open>The accessors see only the maps they read.\<close>

definition same_books :: "istate \<Rightarrow> istate \<Rightarrow> bool" where
  "same_books st st' \<longleftrightarrow> vaults st' = vaults st \<and> shares st' = shares st
     \<and> queuedExits st' = queuedExits st \<and> queuedExitShares st' = queuedExitShares st
     \<and> pendingMembers st' = pendingMembers st \<and> adapters st' = adapters st"

lemma same_books_accessors:
  assumes "same_books st st'"
  shows "vrec st' k = vrec st k" "shareBook st' k = shareBook st k"
    "queuedExitSet st' k = queuedExitSet st k"
    "queuedExitShareBook st' k = queuedExitShareBook st k"
    "pendingMemberSet st' k = pendingMemberSet st k" "adapters st' = adapters st"
  using assms by (simp_all add: same_books_def vrec_def shareBook_def queuedExitSet_def
      queuedExitShareBook_def pendingMemberSet_def)

lemma same_books_bump: "same_books st (bumpEventStat st e)"
  by (simp add: same_books_def bumpEventStat_def Let_def)

lemma same_books_mod_operator: "same_books st (mod_operator i f st)"
  by (simp add: same_books_def mod_operator_def split: option.splits)

lemma same_books_mod_proposal: "same_books st (mod_proposal i f st)"
  by (simp add: same_books_def mod_proposal_def split: option.splits)

lemma same_books_clearActive: "same_books st (clearActive i st)"
  by (simp add: same_books_def clearActive_def split: option.splits)

lemma same_books_trans: "same_books a b \<Longrightarrow> same_books b c \<Longrightarrow> same_books a c"
  by (simp add: same_books_def)

lemma same_books_governance: "same_books st (apply_governance st b)"
proof (cases b)
  case (Finalized pid status)
  then show ?thesis
    by (auto simp: Let_def intro: same_books_mod_proposal
        same_books_trans [OF same_books_mod_proposal same_books_clearActive])
qed (auto simp: same_books_def [of st "st\<lparr>proposals := _, activeProposal := _\<rparr>"] same_books_def [of st st]
    intro: same_books_mod_proposal
    same_books_trans [OF same_books_mod_proposal same_books_clearActive])

section \<open>The invariant\<close>

definition vault_ok :: "istate \<Rightarrow> vkey \<Rightarrow> bool" where
  "vault_ok st k \<longleftrightarrow>
     v_vault (vrec st k) = k
     \<and> distinct (pendingMemberSet st k)
     \<and> v_pendingCount (vrec st k) = int (length (pendingMemberSet st k))
     \<and> wf_map (shareBook st k)
     \<and> (\<forall>x \<in> set (shareBook st k). snd x > 0)
     \<and> v_memberCount (vrec st k) = int (length (shareBook st k))
     \<and> distinct (queuedExitSet st k)
     \<and> 0 \<le> v_modeFSettledCount (vrec st k)
     \<and> v_modeFSettledCount (vrec st k) \<le> v_exitSettledCount (vrec st k)
     \<and> v_modeFSettledCount (vrec st k) + int (length (queuedExitSet st k))
         \<le> v_exitQueuedCount (vrec st k)"

definition adapters_ok :: "istate \<Rightarrow> bool" where
  "adapters_ok st \<longleftrightarrow> distinct (adapters st) \<and> length (adapters st) \<le> MAX_TRACKED_ADAPTERS"

definition index_inv :: "istate \<Rightarrow> bool" where
  "index_inv st \<longleftrightarrow> (\<forall>k. vault_ok st k) \<and> adapters_ok st"

definition total_inv :: "istate \<Rightarrow> bool" where
  "total_inv st \<longleftrightarrow> index_inv st \<and>
     (\<forall>k. v_totalShares (vrec st k) = sum_list (map snd (shareBook st k)))"

text \<open>The contract never burns more than the member holds.\<close>

definition burn_ok :: "istate \<Rightarrow> event \<Rightarrow> bool" where
  "burn_ok st e = (case e_body e of
     ExitSettled m burned \<Rightarrow> burned \<le> jget_or 0 (shareBook st (e_vault e)) m
   | _ \<Rightarrow> True)"

lemma index_invI:
  assumes "\<And>k. vault_ok st k" and "adapters_ok st" shows "index_inv st"
  using assms by (simp add: index_inv_def)

lemma index_inv_vault: "index_inv st \<Longrightarrow> vault_ok st k"
  by (simp add: index_inv_def)

lemma index_inv_empty: "index_inv emptyState"
  by (simp add: index_inv_def vault_ok_def adapters_ok_def vrec_def newVault_def emptyState_def
      pendingMemberSet_def shareBook_def queuedExitSet_def)

lemma total_inv_empty: "total_inv emptyState"
  using index_inv_empty
  by (simp add: total_inv_def vrec_def newVault_def emptyState_def shareBook_def)

lemma index_inv_same_books: "same_books st st' \<Longrightarrow> index_inv st \<Longrightarrow> index_inv st'"
  by (simp add: index_inv_def vault_ok_def adapters_ok_def same_books_accessors)

lemma total_inv_same_books: "same_books st st' \<Longrightarrow> total_inv st \<Longrightarrow> total_inv st'"
  by (simp add: total_inv_def index_inv_same_books same_books_accessors)

section \<open>Share books\<close>

lemma setShares_accessors [jsmap_simps]:
  "pendingMemberSet (setShares st k m n) k' = pendingMemberSet st k'"
  "queuedExitSet (setShares st k m n) k' = queuedExitSet st k'"
  "queuedExitShareBook (setShares st k m n) k' = queuedExitShareBook st k'"
  "adapters (setShares st k m n) = adapters st"
  "shareBook (setShares st k m n) k' =
     (if k' = k then (if n \<le> 0 then AList.delete m (shareBook st k)
                      else AList.update m n (shareBook st k)) else shareBook st k')"
  by (auto simp: setShares_def Let_def jsmap_simps)

lemma setShares_vrec [jsmap_simps]:
  "vrec (setShares st k m n) k' =
     (if k' \<noteq> k then vrec st k' else
      let v = vrec st k; prev = jget_or 0 (shareBook st k) m in
      v\<lparr>v_memberCount := v_memberCount v + (if prev = 0 \<and> n > 0 then 1 else 0)
                          - (if prev > 0 \<and> n \<le> 0 then 1 else 0),
        v_totalShares := v_totalShares v + (n - prev)\<rparr>)"
  by (auto simp: setShares_def Let_def jsmap_simps)

lemma jget_or_pos_iff:
  assumes "\<forall>x \<in> set b. snd x > (0::int)"
  shows "0 < jget_or 0 b m \<longleftrightarrow> m \<in> fst ` set b" and "jget_or 0 b m = 0 \<longleftrightarrow> m \<notin> fst ` set b"
proof -
  have "(map_of b m = None \<and> m \<notin> fst ` set b) \<or> (\<exists>v. map_of b m = Some v \<and> v > 0 \<and> m \<in> fst ` set b)"
  proof (cases "map_of b m")
    case None
    then show ?thesis by (metis map_of_eq_None_iff)
  next
    case (Some v)
    with assms have "v > 0" by (metis map_of_SomeD snd_conv)
    with Some show ?thesis by (metis map_of_Some_key)
  qed
  then show "0 < jget_or 0 b m \<longleftrightarrow> m \<in> fst ` set b" and "jget_or 0 b m = 0 \<longleftrightarrow> m \<notin> fst ` set b"
    by (elim disjE exE conjE; simp add: jget_or_def)+
qed

lemma sum_update:
  "wf_map b \<Longrightarrow> sum_list (map snd (AList.update m n b)) = sum_list (map snd b) - jget_or 0 b m + (n::int)"
proof (induction b)
  case (Cons p b)
  then show ?case by (cases p) (auto simp: jget_or_def map_of_eq_None_iff)
qed simp

lemma sum_delete:
  "wf_map b \<Longrightarrow> sum_list (map snd (AList.delete m b)) = sum_list (map snd b) - (jget_or 0 b m :: int)"
proof (induction b)
  case (Cons p b)
  have *: "m \<notin> fst ` set b \<Longrightarrow> map_of b m = None" by (simp add: map_of_eq_None_iff)
  from Cons show ?case by (cases p) (auto simp: jget_or_def *)
qed simp

definition book_size_after :: "(string, int) jsmap \<Rightarrow> string \<Rightarrow> int \<Rightarrow> int" where
  "book_size_after b m n = int (length b) + (if jget_or 0 b m = 0 \<and> n > 0 then 1 else 0)
                          - (if jget_or 0 b m > 0 \<and> n \<le> 0 then 1 else 0)"

lemma length_book_after:
  assumes "wf_map b" "\<forall>x \<in> set b. snd x > (0::int)"
  shows "int (length (if n \<le> 0 then AList.delete m b else AList.update m n b)) = book_size_after b m n"
proof (cases "n \<le> 0")
  case True
  then show ?thesis
    using length_delete [OF assms(1), of m] jget_or_pos_iff [OF assms(2), of m]
    by (cases "m \<in> fst ` set b") (auto simp: book_size_after_def)
next
  case False
  then show ?thesis
    using jget_or_pos_iff [OF assms(2), of m] by (auto simp: book_size_after_def length_update)
qed

lemma vault_ok_setShares:
  assumes "vault_ok st k'" shows "vault_ok (setShares st k m n) k'"
proof (cases "k' = k")
  case True
  from assms True have b: "wf_map (shareBook st k)" "\<forall>x \<in> set (shareBook st k). snd x > 0"
    by (auto simp: vault_ok_def)
  have pos: "\<forall>x \<in> set (if n \<le> 0 then AList.delete m (shareBook st k)
               else AList.update m n (shareBook st k)). snd x > 0"
    using b(2) set_update_sub [of m n "shareBook st k"] set_delete_sub [of m "shareBook st k"]
    by (fastforce split: if_splits)
  show ?thesis
    using assms True b pos length_book_after [OF b, of n m]
    by (auto simp: vault_ok_def jsmap_simps Let_def book_size_after_def)
next
  case False
  with assms show ?thesis by (simp add: vault_ok_def jsmap_simps)
qed

lemma index_inv_setShares: "index_inv st \<Longrightarrow> index_inv (setShares st k m n)"
  by (simp add: index_inv_def vault_ok_setShares adapters_ok_def jsmap_simps)

lemma total_inv_setShares:
  assumes "total_inv st" and "0 \<le> n" shows "total_inv (setShares st k m n)"
proof -
  have "wf_map (shareBook st k)"
    using assms by (auto simp: total_inv_def index_inv_def vault_ok_def)
  then show ?thesis
    using assms index_inv_setShares [of st k m n]
    by (auto simp: total_inv_def jsmap_simps Let_def sum_update sum_delete)
qed

section \<open>Every handler keeps the invariant\<close>

text \<open>Updates of a vault record that leave its counters and its sum alone.\<close>

lemma index_inv_mod_vault:
  assumes "index_inv st"
    and "\<And>v. v_vault (f v) = v_vault v" "\<And>v. v_pendingCount (f v) = v_pendingCount v"
    and "\<And>v. v_memberCount (f v) = v_memberCount v"
    and "\<And>v. v_modeFSettledCount (f v) = v_modeFSettledCount v"
    and "\<And>v. v_exitSettledCount (f v) = v_exitSettledCount v"
    and "\<And>v. v_exitQueuedCount (f v) = v_exitQueuedCount v"
  shows "index_inv (mod_vault k f st)"
  using assms by (simp add: index_inv_def vault_ok_def adapters_ok_def jsmap_simps)

lemma total_inv_mod_vault:
  assumes "total_inv st"
    and "\<And>v. v_vault (f v) = v_vault v" "\<And>v. v_pendingCount (f v) = v_pendingCount v"
    and "\<And>v. v_memberCount (f v) = v_memberCount v"
    and "\<And>v. v_modeFSettledCount (f v) = v_modeFSettledCount v"
    and "\<And>v. v_exitSettledCount (f v) = v_exitSettledCount v"
    and "\<And>v. v_exitQueuedCount (f v) = v_exitQueuedCount v"
    and "\<And>v. v_totalShares (f v) = v_totalShares v"
  shows "total_inv (mod_vault k f st)"
  using assms index_inv_mod_vault [of st f k] by (simp add: total_inv_def jsmap_simps)

lemma same_books_operator_add: "same_books st (st\<lparr>operators := x\<rparr>)"
  by (simp add: same_books_def)

lemma same_books_refl [simp]: "same_books st st"
  by (simp add: same_books_def)

lemma index_inv_registry: "index_inv st \<Longrightarrow> index_inv (apply_registry st b)"
  by (cases b) (auto intro!: index_inv_mod_vault index_inv_same_books [OF same_books_mod_operator]
      index_inv_same_books [OF same_books_operator_add])

lemma total_inv_registry: "total_inv st \<Longrightarrow> total_inv (apply_registry st b)"
  by (cases b) (auto intro!: total_inv_mod_vault total_inv_same_books [OF same_books_mod_operator]
      total_inv_same_books [OF same_books_operator_add])

lemma member_pending_index:
  assumes "index_inv st"
  shows "index_inv (outcome_state (apply_member st k (DepositPending m)))"
    and "index_inv (outcome_state (apply_member st k (PendingCancelled m)))"
  using assms length_jdel [of "pendingMemberSet st k" m]
  by (auto simp: index_inv_def vault_ok_def adapters_ok_def jsmap_simps Let_def length_jadd)

text \<open>The state in which a deposit activation sets the balance or throws.\<close>

definition activated :: "istate \<Rightarrow> vkey \<Rightarrow> string \<Rightarrow> istate" where
  "activated st k m =
     (let st1 = put_pendingMemberSet k (jdel m (pendingMemberSet st k)) (ensureVault st k) in
      if m \<in> set (pendingMemberSet st k)
      then mod_vault k (\<lambda>v. v\<lparr>v_pendingCount := v_pendingCount v - 1\<rparr>) st1 else st1)"

lemma apply_member_activated:
  "apply_member st k (DepositActivated m n) =
     (if n \<le> 0 then Threw (ZeroPostMintBalance m) (activated st k m)
      else Done (setShares (activated st k m) k m n))"
  by (simp add: activated_def Let_def)

lemma index_inv_activated: "index_inv st \<Longrightarrow> index_inv (activated st k m)"
  using length_jdel [of "pendingMemberSet st k" m]
  by (auto simp: activated_def index_inv_def vault_ok_def adapters_ok_def jsmap_simps Let_def)

lemma total_inv_activated: "total_inv st \<Longrightarrow> total_inv (activated st k m)"
  using index_inv_activated [of st k m]
  by (auto simp: total_inv_def activated_def jsmap_simps Let_def)

text \<open>The state of a settled exit before the shares move.\<close>

definition settled :: "istate \<Rightarrow> vkey \<Rightarrow> string \<Rightarrow> istate" where
  "settled st k m =
     (let st1 = mod_vault k (\<lambda>v. v\<lparr>v_exitSettledCount := v_exitSettledCount v + 1\<rparr>) st;
          st2 = put_queuedExitSet k (jdel m (queuedExitSet st1 k)) st1;
          st3 = (if m \<in> set (queuedExitSet st1 k)
                 then mod_vault k (\<lambda>v. v\<lparr>v_modeFSettledCount := v_modeFSettledCount v + 1\<rparr>) st2
                 else st2)
      in put_queuedExitShareBook k (AList.delete m (queuedExitShareBook st3 k)) st3)"

lemma apply_member_settled:
  "apply_member st k (ExitSettled m b) = Done (creditShares (settled st k m) k m (- b))"
  by (simp add: settled_def Let_def)

lemma index_inv_settled:
  assumes "index_inv st" shows "index_inv (settled st k m)"
proof (rule index_invI)
  fix k' show "vault_ok (settled st k m) k'"
    using index_inv_vault [OF assms, of k'] length_jdel [of "queuedExitSet st k" m]
    by (auto simp: settled_def vault_ok_def jsmap_simps Let_def)
qed (use assms in \<open>simp add: index_inv_def adapters_ok_def settled_def jsmap_simps Let_def\<close>)

lemma total_inv_settled: "total_inv st \<Longrightarrow> total_inv (settled st k m)"
  using index_inv_settled [of st k m]
  by (auto simp: total_inv_def settled_def jsmap_simps Let_def)

lemma shareBook_settled [simp]: "shareBook (settled st k m) k' = shareBook st k'"
  by (auto simp: settled_def jsmap_simps Let_def)

lemma index_inv_queued:
  assumes "index_inv st" shows "index_inv (outcome_state (apply_member st k (ExitQueued m a)))"
proof (rule index_invI)
  fix k' show "vault_ok (outcome_state (apply_member st k (ExitQueued m a))) k'"
    using index_inv_vault [OF assms, of k']
    by (cases a) (auto simp: vault_ok_def jsmap_simps Let_def length_jadd)
qed (use assms in \<open>cases a; simp add: index_inv_def adapters_ok_def jsmap_simps Let_def\<close>)

lemma index_inv_adapter:
  "index_inv st \<Longrightarrow> index_inv (outcome_state (apply_member st k (RebalanceExecuted a)))"
  by (auto simp: index_inv_def vault_ok_def adapters_ok_def length_jadd vrec_def shareBook_def
      pendingMemberSet_def queuedExitSet_def split: option.splits)

lemma index_inv_member: "index_inv st \<Longrightarrow> index_inv (outcome_state (apply_member st k b))"
proof (cases b)
  case (DepositActivated m n)
  moreover assume "index_inv st"
  ultimately show ?thesis
    by (simp only: DepositActivated apply_member_activated)
       (simp add: index_inv_activated index_inv_setShares)
next
  case (ExitSettled m n)
  moreover assume "index_inv st"
  ultimately show ?thesis
    by (simp only: ExitSettled apply_member_settled)
       (simp add: creditShares_def Let_def index_inv_settled index_inv_setShares)
qed (use member_pending_index index_inv_queued index_inv_adapter in \<open>auto simp del: apply_member.simps(1-6)\<close>)

end
