(* ===== verification/Projection_Runs.thy ===== *)
theory Projection_Runs
  imports Projection_Invariants
begin

text \<open>
  Runs of the indexer's fold: the two invariants over whole logs, and the two laws a
  resumable indexer rests on. A replay does not depend on the order the log arrives in, and
  a log cut between two blocks is the same as the whole log.
\<close>

section \<open>One event\<close>

lemma same_books_cursor: "same_books st (st\<lparr>lastBlock := b, lastLogIndex := i\<rparr>)"
  by (simp add: same_books_def)

text \<open>A property every part of the handler keeps is kept by the handler.\<close>

lemma apply_event_keeps:
  assumes "P st"
    and "\<And>s. P s \<Longrightarrow> P (bumpEventStat s e)"
    and "\<And>s. P s \<Longrightarrow> P (apply_registry s (e_body e))"
    and "\<And>s. P s \<Longrightarrow> P (apply_governance s (e_body e))"
    and "\<And>s. P s \<Longrightarrow> P (outcome_state (apply_member s (e_vault e) (e_body e)))"
    and "\<And>s b i. P s \<Longrightarrow> P (s\<lparr>lastBlock := b, lastLogIndex := i\<rparr>)"
  shows "P (outcome_state (apply_event st e))"
proof -
  define st1 where "st1 = apply_governance (apply_registry
     (if event_name (e_body e) \<in> set STAT_ONLY_EVENTS then bumpEventStat st e else st) (e_body e)) (e_body e)"
  have "P (outcome_state (apply_member st1 (e_vault e) (e_body e)))"
    using assms(1-5) by (auto simp: st1_def)
  then show ?thesis
    unfolding apply_event_def Let_def st1_def [symmetric]
    by (auto split: outcome.splits intro: assms(6))
qed

lemma index_inv_event: "index_inv st \<Longrightarrow> index_inv (outcome_state (apply_event st e))"
  by (rule apply_event_keeps)
     (auto intro: index_inv_same_books [OF same_books_bump] index_inv_registry index_inv_member
       index_inv_same_books [OF same_books_governance] index_inv_same_books [OF same_books_cursor])

lemma total_inv_member:
  assumes "total_inv st"
    and "\<And>m n. b = ExitSettled m n \<Longrightarrow> n \<le> jget_or 0 (shareBook st k) m"
  shows "total_inv (outcome_state (apply_member st k b))"
proof -
  have inv: "index_inv (outcome_state (apply_member st k b))"
    using assms(1) by (simp add: total_inv_def index_inv_member)
  show ?thesis
  proof (cases b)
    case (DepositActivated m n)
    then show ?thesis
      by (simp only: DepositActivated apply_member_activated)
         (simp add: total_inv_activated total_inv_setShares assms(1))
  next
    case (ExitSettled m n)
    then have "n \<le> jget_or 0 (shareBook st k) m" by (rule assms(2))
    then show ?thesis
      by (simp only: ExitSettled apply_member_settled)
         (simp add: creditShares_def Let_def total_inv_settled total_inv_setShares assms(1))
  next
    case (RebalanceExecuted a)
    then show ?thesis
      using inv assms(1)
      by (auto simp: total_inv_def vrec_def shareBook_def split: option.splits if_splits)
  next
    case (ExitQueued m a)
    then show ?thesis
      using inv assms(1) by (cases a) (auto simp: total_inv_def jsmap_simps Let_def)
  qed (use inv assms(1) in \<open>auto simp: total_inv_def jsmap_simps Let_def\<close>)
qed

lemma registry_books: "shareBook (apply_registry st b) k = shareBook st k"
  by (cases b) (auto simp: jsmap_simps same_books_accessors [OF same_books_mod_operator]
      same_books_accessors [OF same_books_operator_add])

lemma total_inv_event:
  assumes "total_inv st" and "burn_ok st e" shows "total_inv (outcome_state (apply_event st e))"
proof -
  define st0 where "st0 = (if event_name (e_body e) \<in> set STAT_ONLY_EVENTS then bumpEventStat st e else st)"
  define st1 where "st1 = apply_governance (apply_registry st0 (e_body e)) (e_body e)"
  have "total_inv st0"
    using assms by (simp add: st0_def total_inv_same_books [OF same_books_bump])
  then have inv: "total_inv st1"
    by (simp add: st1_def total_inv_same_books [OF same_books_governance] total_inv_registry)
  have book: "shareBook st1 k = shareBook st k" for k
    by (simp add: st0_def st1_def registry_books same_books_accessors [OF same_books_governance]
        same_books_accessors [OF same_books_bump])
  have "total_inv (outcome_state (apply_member st1 (e_vault e) (e_body e)))"
    by (rule total_inv_member [OF inv]) (use assms(2) in \<open>simp add: burn_ok_def book\<close>)
  then show ?thesis
    unfolding apply_event_def Let_def st0_def [symmetric] st1_def [symmetric]
    by (auto split: outcome.splits intro: total_inv_same_books [OF same_books_cursor])
qed

section \<open>Whole logs\<close>

interpretation index_fold: event_fold apply_event "\<lambda>_ _. True" index_inv
  by unfold_locales (rule index_inv_event)

interpretation total_fold: event_fold apply_event burn_ok total_inv
  by unfold_locales (rule total_inv_event)

interpretation log_order: chain_order event_pos sort_log
  by unfold_locales (simp_all add: sort_log_def)

definition sample_log :: "event list" where
  "sample_log =
    [\<lparr>e_body = DepositActivated ''0xb'' 5, e_vault = Some ''0xv'', e_blockNumber = 2, e_logIndex = 0\<rparr>,
     \<lparr>e_body = DepositPending ''0xb'', e_vault = Some ''0xv'', e_blockNumber = 1, e_logIndex = 4\<rparr>,
     \<lparr>e_body = ExitQueued ''0xb'' (Some 3), e_vault = Some ''0xv'', e_blockNumber = 3, e_logIndex = 1\<rparr>,
     \<lparr>e_body = ExitSettled ''0xb'' 3, e_vault = Some ''0xv'', e_blockNumber = 4, e_logIndex = 0\<rparr>]"

text \<open>
  C6. Whatever the log (also one that makes the handler throw part way), the counters of
  every vault record agree with the sets they count: the pending count with the pending
  members, the member count with the entries of the share book, all of whose balances are
  positive; the Mode-F settlements are non-negative, at most the settlements, and together
  with the members still queued at most the exits ever queued; and the discovered adapters
  are distinct and at most 64.
\<close>

theorem applyAll_keeps_index:
  assumes "index_inv st" shows "index_inv (outcome_state (applyAll es st))"
  unfolding applyAll_def by (rule index_fold.run_inv) (simp_all add: assms)

lemma applyAll_keeps_index_witness: "index_inv (outcome_state (applyAll sample_log emptyState))"
  by (rule applyAll_keeps_index) (rule index_inv_empty)

text \<open>
  C5. While no settled exit burns more than the recorded balance of its member (the
  contract's own guarantee), the total of every vault is the sum of its share book.
\<close>

theorem applyAll_conserves_shares:
  assumes "total_inv st" and "reaches_pre apply_event burn_ok st (sort_log es)"
    and "applyAll es st = Done st'"
  shows "v_totalShares (vrec st' k) = sum_list (map snd (shareBook st' k))"
  using total_fold.run_inv_Done [OF assms(1,2)] assms(3) by (simp add: applyAll_def total_inv_def)

lemma sample_run:
  "(case applyAll sample_log emptyState of
      Done st' \<Rightarrow> shareBook st' (Some ''0xv'') = [(''0xb'', 2)] | Threw _ _ \<Rightarrow> False)"
  by code_simp

lemma sample_reaches: "reaches_pre apply_event burn_ok emptyState (sort_log sample_log)"
  by code_simp

lemma applyAll_conserves_shares_witness:
  "\<exists>st'. applyAll sample_log emptyState = Done st' \<and> v_totalShares (vrec st' (Some ''0xv'')) = 2"
proof (cases "applyAll sample_log emptyState")
  case (Done st')
  then show ?thesis
    using sample_run applyAll_conserves_shares [OF total_inv_empty sample_reaches Done, of "Some ''0xv''"]
    by simp
qed (use sample_run in simp)

text \<open>
  Determinism: two arrivals of the same log, in whatever order the RPC delivered it,
  fold to the same outcome (the same state and, if it throws, the same error), since no two
  logs of a chain share a (blockNumber, logIndex).
\<close>

theorem applyAll_replay_deterministic:
  assumes "mset es = mset es'" and "inj_on event_pos (set es)"
  shows "applyAll es st = applyAll es' st"
  using log_order.order_independent [OF assms] by (simp add: applyAll_def)

lemma applyAll_replay_deterministic_witness:
  "applyAll (rev sample_log) emptyState = applyAll sample_log emptyState"
  by (rule applyAll_replay_deterministic) (simp_all add: sample_log_def inj_on_def)

text \<open>
  Resuming: if every event of the first batch precedes every event of the second, then
  applying the batches one after the other is applying the whole log at once.
\<close>

theorem applyAll_resume:
  assumes "\<And>e e'. e \<in> set es \<Longrightarrow> e' \<in> set es' \<Longrightarrow> event_pos e < event_pos e'"
    and "inj_on event_pos (set es)" and "inj_on event_pos (set es')"
  shows "applyAll (es @ es') st =
    (case applyAll es st of Done st' \<Rightarrow> applyAll es' st' | Threw err st' \<Rightarrow> Threw err st')"
  using log_order.order_append [OF assms] by (simp add: applyAll_def run_seq_append split: outcome.split)

lemma applyAll_resume_witness:
  "applyAll sample_log emptyState =
    (case applyAll (take 2 sample_log) emptyState of
       Done st' \<Rightarrow> applyAll (drop 2 sample_log) st' | Threw err st' \<Rightarrow> Threw err st')"
proof -
  have "applyAll (take 2 sample_log @ drop 2 sample_log) emptyState =
    (case applyAll (take 2 sample_log) emptyState of
       Done st' \<Rightarrow> applyAll (drop 2 sample_log) st' | Threw err st' \<Rightarrow> Threw err st')"
    by (rule applyAll_resume) (auto simp: sample_log_def inj_on_def)
  then show ?thesis by simp
qed

end
