(* ===== verification/Projection_Views.thy ===== *)
theory Projection_Views
  imports Projection_Runs Decimal
begin

text \<open>
  The read side of \<open>packages/indexer/src/projections.mjs\<close>: the operator leaderboard, the vault
  view and list, the Mode-F exit rate and a member's position. \<open>shareBook\<close> creates an empty
  book for a vault it has not seen, so the views that call it return the state they leave.
\<close>

section \<open>Leaderboard\<close>

record leaderboard_row =
  l_operatorId :: int
  l_operator :: string
  l_netRealizedUsdc :: int
  l_lifetimeGainUsdc :: int
  l_lifetimeLossUsdc :: int
  l_lifetimeFeesUsdc :: int
  l_vaultCount :: int

definition leaderboard_row :: "operator_state \<Rightarrow> leaderboard_row" where
  "leaderboard_row q = \<lparr> l_operatorId = o_operatorId q, l_operator = o_operator q,
     l_netRealizedUsdc = o_lifetimeGainUsdc q - o_lifetimeLossUsdc q,
     l_lifetimeGainUsdc = o_lifetimeGainUsdc q, l_lifetimeLossUsdc = o_lifetimeLossUsdc q,
     l_lifetimeFeesUsdc = o_lifetimeFeesUsdc q, l_vaultCount = o_vaultCount q \<rparr>"

text \<open>The comparator never answers 0: two rows that tie on both keys compare as \<open>-1\<close>.\<close>

definition leaderboard_cmp :: "leaderboard_row \<Rightarrow> leaderboard_row \<Rightarrow> int" where
  "leaderboard_cmp a b =
     (let c = (if l_netRealizedUsdc b > l_netRealizedUsdc a then 1
               else if l_netRealizedUsdc b < l_netRealizedUsdc a then -1 else 0)
      in if c \<noteq> 0 then c
         else if l_lifetimeFeesUsdc b > l_lifetimeFeesUsdc a then 1 else -1)"

definition leaderboard :: "istate \<Rightarrow> leaderboard_row list" where
  "leaderboard st = js_sort leaderboard_cmp (map (leaderboard_row \<circ> snd) (operators st))"

section \<open>Vaults\<close>

definition queuedExitBacklog :: "istate \<Rightarrow> vkey \<Rightarrow> int" where
  "queuedExitBacklog st k =
     (case map_of (queuedExits st) k of None \<Rightarrow> 0 | Some q \<Rightarrow> int (length q))"

record vault_view =
  vw_vault :: vault_state
  vw_holders :: int
  vw_exitQueuedOutstanding :: int
  vw_activeProposal :: "proposal_state option"

definition vaultView :: "istate \<Rightarrow> vkey \<Rightarrow> vault_view option \<times> istate" where
  "vaultView st k = (case map_of (vaults st) k of
      None \<Rightarrow> (None, st)
    | Some v \<Rightarrow>
        (let pid = jget_or 0 (activeProposal st) k;
             proposal = (if pid \<noteq> 0 then map_of (proposals st) pid else None)
         in (Some \<lparr> vw_vault = v, vw_holders = int (length (shareBook st k)),
                    vw_exitQueuedOutstanding = queuedExitBacklog st k,
                    vw_activeProposal = proposal \<rparr>,
             put_shareBook k (shareBook st k) st)))"

record vault_row =
  r_vault :: vkey
  r_kind :: string
  r_operatorId :: int
  r_memberCount :: int
  r_depth :: int
  r_parent :: "string option"
  r_capacityCapUsdc :: int
  r_attested :: bool

datatype view_error = UnknownVaultKind string

definition vault_row :: "vault_state \<Rightarrow> vault_row" where
  "vault_row v = \<lparr> r_vault = v_vault v, r_kind = v_kind v, r_operatorId = v_operatorId v,
     r_memberCount = v_memberCount v, r_depth = v_depth v, r_parent = v_parent v,
     r_capacityCapUsdc = v_capacityCapUsdc v, r_attested = (v_operatorId v \<noteq> 0) \<rparr>"

definition listVaults :: "istate \<Rightarrow> string option \<Rightarrow> view_error + vault_row list" where
  "listVaults st kind = (case kind of
      Some kd \<Rightarrow> if kd \<notin> set VAULT_KINDS then Inl (UnknownVaultKind kd)
                else Inr (map vault_row (filter (\<lambda>v. v_kind v = kd) (map snd (vaults st))))
    | None \<Rightarrow> Inr (map vault_row (map snd (vaults st))))"

text \<open>\<open>Math.round(n / d)\<close> for \<open>d > 0\<close>: the nearest integer, halves up.\<close>

definition round_div :: "int \<Rightarrow> int \<Rightarrow> int" where
  "round_div n d = (2 * n + d) div (2 * d)"

definition modeFExitRateBps :: "istate \<Rightarrow> vkey \<Rightarrow> int option" where
  "modeFExitRateBps st k = (case map_of (vaults st) k of
      None \<Rightarrow> None
    | Some v \<Rightarrow> if v_exitSettledCount v = 0 then None
               else Some (round_div (v_modeFSettledCount v * 10000) (v_exitSettledCount v)))"

section \<open>A member's position\<close>

datatype eligible_note = ParentNonVoting string | LockedAmountUnknown int | LockedShares int int

record member_position =
  mp_vault :: vkey
  mp_member :: string
  mp_shares :: int
  mp_shareOfVaultBps :: int
  mp_queuedExitShares :: "int option"
  mp_votingEligibleShares :: "int option"
  mp_notes :: "eligible_note list"

definition memberPosition :: "istate \<Rightarrow> vkey \<Rightarrow> string \<Rightarrow> member_position \<times> istate" where
  "memberPosition st k m =
     (let sh = jget_or 0 (shareBook st k) m;
          v = map_of (vaults st) k;
          total = (case v of None \<Rightarrow> 0 | Some r \<Rightarrow> v_totalShares r);
          sizeBook = jget_or [] (queuedExitShares st) k;
          unknown = (m \<in> set (jget_or [] (queuedExits st) k) \<and> map_of sizeBook m = None);
          queued = (if unknown then None else Some (jget_or 0 sizeBook m));
          parent = (case v of None \<Rightarrow> None | Some r \<Rightarrow> v_parent r);
          isParent = (case parent of None \<Rightarrow> False | Some p \<Rightarrow> lc p = lc m);
          eligible = (if isParent then Some 0
                      else case queued of None \<Rightarrow> None
                           | Some q \<Rightarrow> Some (if sh > q then sh - q else 0));
          notes = (if isParent then [ParentNonVoting (the parent)] else [])
                @ (if unknown then [LockedAmountUnknown sh] else [])
                @ (case queued of None \<Rightarrow> [] | Some q \<Rightarrow> if q > 0 then [LockedShares q sh] else [])
      in (\<lparr> mp_vault = k, mp_member = m, mp_shares = sh,
            mp_shareOfVaultBps = (if total > 0 then bdiv (sh * 10000) total else 0),
            mp_queuedExitShares = queued, mp_votingEligibleShares = eligible,
            mp_notes = notes \<rparr>,
          put_shareBook k (shareBook st k) st))"

section \<open>What the views promise\<close>

definition ranks_above :: "leaderboard_row \<Rightarrow> leaderboard_row \<Rightarrow> bool" where
  "ranks_above a b \<longleftrightarrow> l_netRealizedUsdc b < l_netRealizedUsdc a
     \<or> l_netRealizedUsdc a = l_netRealizedUsdc b \<and> l_lifetimeFeesUsdc b \<le> l_lifetimeFeesUsdc a"

text \<open>
  The leaderboard leaves no operator out and invents none, and it is ordered by realized
  net result, ties by lifetime fees, both descending; rows equal on both keys may come in
  any order.
\<close>

theorem leaderboard_complete_and_ranked:
  "mset (leaderboard st) = mset (map (leaderboard_row \<circ> snd) (operators st))
   \<and> sorted_wrt ranks_above (leaderboard st)"
proof -
  have "sorted_wrt ranks_above (leaderboard st)"
    unfolding leaderboard_def
  proof (rule js_sort_sorted)
    fix a b assume "ranks_above a b" "\<not> ranks_above b a"
    then show "leaderboard_cmp a b < 0"
      by (auto simp: ranks_above_def leaderboard_cmp_def Let_def)
  next
    fix a b assume "leaderboard_cmp a b < 0"
    then show "ranks_above a b"
      by (auto simp: ranks_above_def leaderboard_cmp_def Let_def split: if_splits)
  qed (auto simp: ranks_above_def intro!: transpI)
  then show ?thesis by (simp add: leaderboard_def)
qed

lemma round_div_bounds:
  assumes "0 \<le> n" "n \<le> c * d" "0 < d" shows "0 \<le> round_div n d" "round_div n d \<le> c"
proof -
  show "0 \<le> round_div n d"
    using assms by (simp add: round_div_def div_int_pos_iff)
  have "(2 * n + d) div (2 * d) \<le> (d + c * (2 * d)) div (2 * d)"
    using assms by (intro zdiv_mono1) (auto simp: algebra_simps)
  also have "\<dots> = c" using assms(3) by (simp add: div_pos_pos_trivial)
  finally show "round_div n d \<le> c" by (simp add: round_div_def)
qed

text \<open>
  The Mode-F exit rate is a rate: on every state the fold can produce it lies between 0
  and 10000 basis points.
\<close>

theorem modeFExitRateBps_bounded:
  assumes "index_inv st" and "modeFExitRateBps st k = Some r"
  shows "0 \<le> r \<and> r \<le> 10000"
proof -
  obtain v where v: "map_of (vaults st) k = Some v" "v_exitSettledCount v \<noteq> 0"
      "r = round_div (v_modeFSettledCount v * 10000) (v_exitSettledCount v)"
    using assms(2) by (auto simp: modeFExitRateBps_def split: option.splits if_splits)
  have "vrec st k = v" using v(1) by (simp add: vrec_def jget_or_def)
  with index_inv_vault [OF assms(1), of k]
  have "0 \<le> v_modeFSettledCount v" "v_modeFSettledCount v \<le> v_exitSettledCount v"
    by (auto simp: vault_ok_def)
  with v show ?thesis
    using round_div_bounds [of "v_modeFSettledCount v * 10000" 10000 "v_exitSettledCount v"] by simp
qed

lemma modeFExitRateBps_bounded_witness:
  "modeFExitRateBps (outcome_state (applyAll sample_log emptyState)) (Some ''0xv'') = Some 10000
   \<and> (10000 :: int) \<le> 10000"
proof -
  let ?st = "outcome_state (applyAll sample_log emptyState)"
  have inv: "index_inv ?st"
    unfolding applyAll_def by (rule index_fold.run_inv) (simp_all add: index_inv_empty)
  have rate: "modeFExitRateBps ?st (Some ''0xv'') = Some 10000" by code_simp
  show ?thesis using modeFExitRateBps_bounded [OF inv rate] rate by simp
qed

lemma book_entry_le_sum:
  assumes "\<forall>x \<in> set b. snd x > (0 :: int)" shows "0 \<le> jget_or 0 b m \<and> jget_or 0 b m \<le> sum_list (map snd b)"
  using assms
proof (induction b)
  case (Cons p b)
  then have "0 \<le> sum_list (map snd b)" by (intro sum_list_nonneg) auto
  with Cons show ?case by (cases p) (auto simp: jget_or_def)
qed simp

lemma index_inv_holding: "index_inv st \<Longrightarrow> 0 \<le> jget_or 0 (shareBook st k) m"
  using index_inv_vault [of st k] book_entry_le_sum [of "shareBook st k" m] by (auto simp: vault_ok_def)

text \<open>
  A member's position never over-reports what can vote. The eligible weight, when it is
  known, is between 0 and the holding, and 0 for the parent vault; it is unknown exactly when
  an exit of a non-parent member is queued whose size the fold does not have; with no note
  at all the whole holding votes; and the share of the vault is between 0 and 10000 bps.
\<close>

theorem memberPosition_never_overreports:
  assumes "total_inv st" and "0 \<le> jget_or 0 (queuedExitShareBook st k) m"
    and "memberPosition st k m = (p, st')"
  shows "(\<forall>w. mp_votingEligibleShares p = Some w \<longrightarrow> 0 \<le> w \<and> w \<le> mp_shares p)
    \<and> (v_parent (vrec st k) = Some m \<longrightarrow> mp_votingEligibleShares p = Some 0)
    \<and> (mp_votingEligibleShares p = None \<longrightarrow> m \<in> set (queuedExitSet st k)
         \<and> map_of (queuedExitShareBook st k) m = None)
    \<and> (mp_notes p = [] \<longrightarrow> mp_votingEligibleShares p = Some (mp_shares p))
    \<and> 0 \<le> mp_shareOfVaultBps p \<and> mp_shareOfVaultBps p \<le> 10000"
proof -
  have idx: "index_inv st" using assms(1) by (simp add: total_inv_def)
  have hold: "0 \<le> jget_or 0 (shareBook st k) m" by (rule index_inv_holding [OF idx])
  have p: "p = fst (memberPosition st k m)" using assms(3) by simp
  have "mp_shareOfVaultBps p \<le> 10000 \<and> 0 \<le> mp_shareOfVaultBps p"
  proof (cases "map_of (vaults st) k")
    case (Some v)
    then have "v = vrec st k" by (simp add: vrec_def jget_or_def)
    then have "jget_or 0 (shareBook st k) m \<le> v_totalShares v"
      using assms(1) index_inv_vault [OF idx, of k] book_entry_le_sum [of "shareBook st k" m]
      by (simp add: total_inv_def vault_ok_def)
    then have "jget_or 0 (shareBook st k) m * 10000 div v_totalShares v \<le> 10000"
      if "0 < v_totalShares v"
      using zdiv_mono1 [of "jget_or 0 (shareBook st k) m * 10000" "10000 * v_totalShares v" "v_totalShares v"]
        that by simp
    with Some hold show ?thesis
      by (auto simp: p memberPosition_def Let_def pos_imp_zdiv_nonneg_iff)
  qed (simp add: p memberPosition_def Let_def)
  moreover have "v_parent (vrec st k) = Some m \<Longrightarrow> mp_votingEligibleShares p = Some 0"
    by (auto simp: p memberPosition_def Let_def vrec_def jget_or_def newVault_def split: option.splits)
  ultimately show ?thesis
    using assms(2) hold
    by (auto simp: p memberPosition_def Let_def queuedExitSet_def queuedExitShareBook_def
        split: option.splits if_splits)
qed

definition locked_state :: istate where
  "locked_state = outcome_state (applyAll
     [\<lparr>e_body = DepositActivated ''0xb'' 5, e_vault = Some ''0xv'', e_blockNumber = 2, e_logIndex = 0\<rparr>,
      \<lparr>e_body = ExitQueued ''0xb'' (Some 3), e_vault = Some ''0xv'', e_blockNumber = 3, e_logIndex = 1\<rparr>]
     emptyState)"

lemma locked_total: "total_inv locked_state"
  unfolding locked_state_def applyAll_def
  by (rule total_fold.run_inv [OF total_inv_empty]) code_simp

lemma memberPosition_never_overreports_witness:
  "mp_votingEligibleShares (fst (memberPosition locked_state (Some ''0xv'') ''0xb'')) = Some 2
   \<and> (2 :: int) \<le> mp_shares (fst (memberPosition locked_state (Some ''0xv'') ''0xb''))"
proof -
  let ?r = "memberPosition locked_state (Some ''0xv'') ''0xb''"
  have q: "0 \<le> jget_or 0 (queuedExitShareBook locked_state (Some ''0xv'')) ''0xb''" by code_simp
  have e: "mp_votingEligibleShares (fst ?r) = Some 2" by code_simp
  show ?thesis
    using memberPosition_never_overreports [OF locked_total q, of "fst ?r" "snd ?r"] e by simp
qed

end
