(* ===== verification/Store.thy ===== *)
theory Store
  imports Projection_Views Decimal
begin

text \<open>
  Persistence of the projection state, \<open>packages/indexer/src/store.mjs\<close>: the JSON-shaped
  snapshot, \<open>serializeState\<close>, \<open>deserializeState\<close> with its refusals and its migration of older
  snapshots, \<open>resumeCursor\<close> and \<open>countState\<close>. A field that a JSON round trip may have dropped or
  turned into \<open>null\<close> is an option. The file system is not modelled.
\<close>

section \<open>Snapshots\<close>

definition VERSION :: int where
  "VERSION = 1"

record snap_vault =
  sv_vault :: vkey
  sv_creator :: "string option"
  sv_usdc :: "string option"
  sv_kind :: "string option"
  sv_operatorId :: "int option"
  sv_totalShares :: "string option"
  sv_idleUsdc :: "string option"
  sv_memberCount :: "int option"
  sv_pendingCount :: "int option"
  sv_capacityCapUsdc :: "string option"
  sv_parent :: "string option"
  sv_depth :: "int option"
  sv_exitQueuedCount :: "int option"
  sv_exitSettledCount :: "int option"
  sv_modeFSettledCount :: "int option"

record snap_operator =
  so_operatorId :: int
  so_operator :: string
  so_lifetimeGainUsdc :: string
  so_lifetimeLossUsdc :: string
  so_lifetimeFeesUsdc :: string
  so_vaultCount :: int

record snap_proposal =
  sp_pid :: int
  sp_vault :: vkey
  sp_ptype :: int
  sp_proposer :: string
  sp_status :: proposal_status
  sp_forWeight :: string
  sp_againstWeight :: string
  sp_revealedWeight :: string
  sp_revealedVoters :: int
  sp_delegatedForWeight :: "string option"

record snapshot =
  sn_version :: "int option"
  sn_lastBlock :: int
  sn_lastLogIndex :: int
  sn_vaults :: "(vkey \<times> snap_vault) list"
  sn_operators :: "(int \<times> snap_operator) list"
  sn_shares :: "(vkey \<times> (string \<times> string) list) list"
  sn_proposals :: "(int \<times> snap_proposal) list"
  sn_activeProposal :: "(vkey \<times> int) list"
  sn_eventStats :: "(string \<times> event_stat) list option"
  sn_adapters :: "string list option"
  sn_queuedExits :: "(vkey \<times> string list) list option"
  sn_queuedExitShares :: "(vkey \<times> (string \<times> string) list) list option"
  sn_pendingMembers :: "(vkey \<times> string list) list option"

section \<open>Writing\<close>

definition mapEntries :: "('v \<Rightarrow> 'w) \<Rightarrow> ('k, 'v) jsmap \<Rightarrow> ('k \<times> 'w) list" where
  "mapEntries f m = map (\<lambda>(k, v). (k, f v)) m"

definition snap_vault :: "vault_state \<Rightarrow> snap_vault" where
  "snap_vault v = \<lparr> sv_vault = v_vault v, sv_creator = Some (v_creator v),
     sv_usdc = Some (v_usdc v), sv_kind = Some (v_kind v),
     sv_operatorId = Some (v_operatorId v), sv_totalShares = Some (show_int (v_totalShares v)),
     sv_idleUsdc = Some (show_int (v_idleUsdc v)), sv_memberCount = Some (v_memberCount v),
     sv_pendingCount = Some (v_pendingCount v),
     sv_capacityCapUsdc = Some (show_int (v_capacityCapUsdc v)), sv_parent = v_parent v,
     sv_depth = Some (v_depth v), sv_exitQueuedCount = Some (v_exitQueuedCount v),
     sv_exitSettledCount = Some (v_exitSettledCount v),
     sv_modeFSettledCount = Some (v_modeFSettledCount v) \<rparr>"

definition snap_operator :: "operator_state \<Rightarrow> snap_operator" where
  "snap_operator q = \<lparr> so_operatorId = o_operatorId q, so_operator = o_operator q,
     so_lifetimeGainUsdc = show_int (o_lifetimeGainUsdc q),
     so_lifetimeLossUsdc = show_int (o_lifetimeLossUsdc q),
     so_lifetimeFeesUsdc = show_int (o_lifetimeFeesUsdc q), so_vaultCount = o_vaultCount q \<rparr>"

definition snap_proposal :: "proposal_state \<Rightarrow> snap_proposal" where
  "snap_proposal p = \<lparr> sp_pid = p_pid p, sp_vault = p_vault p, sp_ptype = p_ptype p,
     sp_proposer = p_proposer p, sp_status = p_status p,
     sp_forWeight = show_int (p_forWeight p), sp_againstWeight = show_int (p_againstWeight p),
     sp_revealedWeight = show_int (p_revealedWeight p), sp_revealedVoters = p_revealedVoters p,
     sp_delegatedForWeight = map_option show_int (p_delegatedForWeight p) \<rparr>"

definition serializeState :: "istate \<Rightarrow> snapshot" where
  "serializeState st = \<lparr> sn_version = Some VERSION, sn_lastBlock = lastBlock st,
     sn_lastLogIndex = lastLogIndex st, sn_vaults = mapEntries snap_vault (vaults st),
     sn_operators = mapEntries snap_operator (operators st),
     sn_shares = mapEntries (mapEntries show_int) (shares st),
     sn_proposals = mapEntries snap_proposal (proposals st),
     sn_activeProposal = mapEntries id (activeProposal st),
     sn_eventStats = Some (mapEntries id (eventStats st)),
     sn_adapters = Some (adapters st),
     sn_queuedExits = Some (mapEntries id (queuedExits st)),
     sn_queuedExitShares = Some (mapEntries (mapEntries show_int) (queuedExitShares st)),
     sn_pendingMembers = Some (mapEntries id (pendingMembers st)) \<rparr>"

section \<open>Reading\<close>

datatype store_error =
    UnsupportedVersion "int option"
  | BadBigInt string
  | PredatesPendingMembers

definition readBigInt :: "string \<Rightarrow> store_error + int" where
  "readBigInt s = ok_or (BadBigInt s) (bigint_of_string s)"

abbreviation or_else :: "'a option \<Rightarrow> 'a \<Rightarrow> 'a" where
  "or_else x d \<equiv> (case x of None \<Rightarrow> d | Some a \<Rightarrow> a)"

text \<open>
  Every field the stored record does not carry falls back to that of \<open>newVault\<close>, whose bigint
  fields print as themselves.
\<close>

definition read_vault :: "vkey \<Rightarrow> snap_vault \<Rightarrow> store_error + vault_state" where
  "read_vault k v =
     (let base = newVault k in
      bindE (readBigInt (or_else (sv_totalShares v) (show_int (v_totalShares base)))) (\<lambda>total.
      bindE (readBigInt (or_else (sv_idleUsdc v) (show_int (v_idleUsdc base)))) (\<lambda>idle.
      bindE (readBigInt (or_else (sv_capacityCapUsdc v) (show_int (v_capacityCapUsdc base)))) (\<lambda>cap.
      Inr \<lparr> v_vault = (case sv_vault v of None \<Rightarrow> v_vault base | Some a \<Rightarrow> Some a),
            v_creator = or_else (sv_creator v) (v_creator base),
            v_usdc = or_else (sv_usdc v) (v_usdc base),
            v_kind = or_else (sv_kind v) (v_kind base),
            v_operatorId = or_else (sv_operatorId v) (v_operatorId base),
            v_totalShares = total, v_idleUsdc = idle,
            v_memberCount = or_else (sv_memberCount v) (v_memberCount base),
            v_pendingCount = or_else (sv_pendingCount v) (v_pendingCount base),
            v_capacityCapUsdc = cap,
            v_parent = (case sv_parent v of None \<Rightarrow> v_parent base | Some a \<Rightarrow> Some a),
            v_depth = or_else (sv_depth v) (v_depth base),
            v_exitQueuedCount = or_else (sv_exitQueuedCount v) (v_exitQueuedCount base),
            v_exitSettledCount = or_else (sv_exitSettledCount v) (v_exitSettledCount base),
            v_modeFSettledCount = or_else (sv_modeFSettledCount v) (v_modeFSettledCount base) \<rparr>))))"

definition read_operator :: "snap_operator \<Rightarrow> store_error + operator_state" where
  "read_operator q =
     bindE (readBigInt (so_lifetimeGainUsdc q)) (\<lambda>gain.
     bindE (readBigInt (so_lifetimeLossUsdc q)) (\<lambda>loss.
     bindE (readBigInt (so_lifetimeFeesUsdc q)) (\<lambda>fees.
     Inr \<lparr> o_operatorId = so_operatorId q, o_operator = so_operator q,
           o_lifetimeGainUsdc = gain, o_lifetimeLossUsdc = loss, o_lifetimeFeesUsdc = fees,
           o_vaultCount = so_vaultCount q \<rparr>)))"

definition read_book :: "(string \<times> string) list \<Rightarrow> store_error + (string, int) jsmap" where
  "read_book b = restore_map (\<lambda>_. readBigInt) [] b"

definition read_proposal :: "snap_proposal \<Rightarrow> store_error + proposal_state" where
  "read_proposal p =
     bindE (readBigInt (sp_forWeight p)) (\<lambda>fw.
     bindE (readBigInt (sp_againstWeight p)) (\<lambda>aw.
     bindE (readBigInt (sp_revealedWeight p)) (\<lambda>rw.
     bindE (case sp_delegatedForWeight p of None \<Rightarrow> Inr None
            | Some s \<Rightarrow> bindE (readBigInt s) (\<lambda>d. Inr (Some d))) (\<lambda>dw.
     Inr \<lparr> p_pid = sp_pid p, p_vault = sp_vault p, p_ptype = sp_ptype p,
           p_proposer = sp_proposer p, p_status = sp_status p, p_forWeight = fw,
           p_againstWeight = aw, p_revealedWeight = rw, p_revealedVoters = sp_revealedVoters p,
           p_delegatedForWeight = dw \<rparr>))))"

definition deserializeState :: "snapshot option \<Rightarrow> store_error + istate" where
  "deserializeState ob = (case ob of
      None \<Rightarrow> Inl (UnsupportedVersion None)
    | Some obj \<Rightarrow>
        if sn_version obj \<noteq> Some VERSION then Inl (UnsupportedVersion (sn_version obj))
        else
        bindE (restore_map read_vault [] (sn_vaults obj)) (\<lambda>vs.
        bindE (restore_map (\<lambda>_. read_operator) [] (sn_operators obj)) (\<lambda>ops.
        bindE (restore_map (\<lambda>_. read_book) [] (sn_shares obj)) (\<lambda>shs.
        bindE (restore_map (\<lambda>_. read_proposal) [] (sn_proposals obj)) (\<lambda>props.
        bindE (restore_map (\<lambda>_. Inr) [] (sn_activeProposal obj)) (\<lambda>act.
        bindE (restore_map (\<lambda>_. Inr) [] (or_else (sn_eventStats obj) [])) (\<lambda>stats.
        bindE (restore_map (\<lambda>_ ms. Inr (set_of_list ms)) [] (or_else (sn_queuedExits obj) [])) (\<lambda>qx.
        bindE (restore_map (\<lambda>_. read_book) [] (or_else (sn_queuedExitShares obj) [])) (\<lambda>qs.
        bindE (case sn_pendingMembers obj of
                 None \<Rightarrow> if sn_lastBlock obj > 0 then Inl PredatesPendingMembers else Inr []
               | Some pm \<Rightarrow> restore_map (\<lambda>_ ms. Inr (set_of_list ms)) [] pm) (\<lambda>pend.
        Inr \<lparr> vaults = vs, operators = ops, shares = shs, proposals = props,
              activeProposal = act, eventStats = stats,
              adapters = set_of_list (or_else (sn_adapters obj) []), queuedExits = qx,
              queuedExitShares = qs, pendingMembers = pend, lastBlock = sn_lastBlock obj,
              lastLogIndex = sn_lastLogIndex obj \<rparr>))))))))))"

section \<open>Cursor and tallies\<close>

definition resumeCursor :: "istate \<Rightarrow> int" where
  "resumeCursor st = (if lastBlock st = 0 \<and> lastLogIndex st = -1 then 0 else lastBlock st + 1)"

record state_counts =
  c_vaults :: nat
  c_operators :: nat
  c_proposals :: nat
  c_shareBooks :: nat
  c_holders :: nat
  c_activeProposals :: nat
  c_adapters :: nat

definition countState :: "istate \<Rightarrow> state_counts" where
  "countState st = \<lparr> c_vaults = length (vaults st), c_operators = length (operators st),
     c_proposals = length (proposals st), c_shareBooks = length (shares st),
     c_holders = sum_list (map (length \<circ> snd) (shares st)),
     c_activeProposals = length (activeProposal st), c_adapters = length (adapters st) \<rparr>"

end
