(* ===== verification/Store_Roundtrip.thy ===== *)
theory Store_Roundtrip
  imports Store
begin

text \<open>
  Restoring a snapshot gives back the state it was taken from. The states the fold produces
  have duplicate-free maps and sets (\<open>maps_wf\<close>), which is what makes the entry lists of the
  snapshot rebuild them exactly.
\<close>

section \<open>States whose maps are maps\<close>

definition maps_wf :: "istate \<Rightarrow> bool" where
  "maps_wf st \<longleftrightarrow>
     wf_map (vaults st) \<and> (\<forall>(k, v) \<in> set (vaults st). v_vault v = k)
     \<and> wf_map (operators st) \<and> wf_map (proposals st) \<and> wf_map (activeProposal st)
     \<and> wf_map (eventStats st) \<and> distinct (adapters st)
     \<and> wf_map (shares st) \<and> (\<forall>(k, b) \<in> set (shares st). wf_map b)
     \<and> wf_map (queuedExits st) \<and> (\<forall>(k, q) \<in> set (queuedExits st). distinct q)
     \<and> wf_map (queuedExitShares st) \<and> (\<forall>(k, b) \<in> set (queuedExitShares st). wf_map b)
     \<and> wf_map (pendingMembers st) \<and> (\<forall>(k, q) \<in> set (pendingMembers st). distinct q)"

lemma maps_wf_empty: "maps_wf emptyState"
  by (simp add: maps_wf_def emptyState_def)

lemma all_update:
  "\<forall>(k, v) \<in> set m. P k v \<Longrightarrow> P k0 v0 \<Longrightarrow> \<forall>(k, v) \<in> set (AList.update k0 v0 m). P k v"
  using set_update_sub [of k0 v0 m] by fastforce

lemma all_jget_or:
  "\<forall>(k, v) \<in> set m. P k v \<Longrightarrow> P k d \<Longrightarrow> P k (jget_or d m k)"
  by (auto simp: jget_or_def split: option.splits dest: map_of_SomeD)

lemma vrec_key: "maps_wf st \<Longrightarrow> v_vault (vrec st k) = k"
  unfolding vrec_def maps_wf_def
  by (rule all_jget_or [of _ "\<lambda>k v. v_vault v = k"]) (simp_all add: newVault_def)

lemma wf_accessors:
  assumes "maps_wf st"
  shows "distinct (pendingMemberSet st k)" "distinct (queuedExitSet st k)"
    "wf_map (shareBook st k)" "wf_map (queuedExitShareBook st k)"
  using assms
    all_jget_or [of "pendingMembers st" "\<lambda>_. distinct" k "[]"]
    all_jget_or [of "queuedExits st" "\<lambda>_. distinct" k "[]"]
    all_jget_or [of "shares st" "\<lambda>_. wf_map" k "[]"]
    all_jget_or [of "queuedExitShares st" "\<lambda>_. wf_map" k "[]"]
  by (simp_all add: maps_wf_def pendingMemberSet_def queuedExitSet_def shareBook_def
      queuedExitShareBook_def)

lemma maps_wf_mod_vault:
  "maps_wf st \<Longrightarrow> (\<And>v. v_vault (f v) = v_vault v) \<Longrightarrow> maps_wf (mod_vault k f st)"
  using all_update [of "vaults st" "\<lambda>k v. v_vault v = k" k "f (vrec st k)"] vrec_key [of st k]
  by (simp add: maps_wf_def mod_vault_def)

lemma maps_wf_ensureVault: "maps_wf st \<Longrightarrow> maps_wf (ensureVault st k)"
  using maps_wf_mod_vault [of st "\<lambda>v. v" k] by (simp add: ensureVault_def mod_vault_def)

lemma maps_wf_put_pending: "maps_wf st \<Longrightarrow> distinct q \<Longrightarrow> maps_wf (put_pendingMemberSet k q st)"
  using all_update [of "pendingMembers st" "\<lambda>_. distinct" k q]
  by (simp add: maps_wf_def put_pendingMemberSet_def)

lemma maps_wf_put_queued: "maps_wf st \<Longrightarrow> distinct q \<Longrightarrow> maps_wf (put_queuedExitSet k q st)"
  using all_update [of "queuedExits st" "\<lambda>_. distinct" k q]
  by (simp add: maps_wf_def put_queuedExitSet_def)

lemma maps_wf_put_book: "maps_wf st \<Longrightarrow> wf_map b \<Longrightarrow> maps_wf (put_shareBook k b st)"
  using all_update [of "shares st" "\<lambda>_. wf_map" k b]
  by (simp add: maps_wf_def put_shareBook_def)

lemma maps_wf_put_queuedBook:
  "maps_wf st \<Longrightarrow> wf_map b \<Longrightarrow> maps_wf (put_queuedExitShareBook k b st)"
  using all_update [of "queuedExitShares st" "\<lambda>_. wf_map" k b]
  by (simp add: maps_wf_def put_queuedExitShareBook_def)

lemmas maps_wf_put = maps_wf_put_pending maps_wf_put_queued maps_wf_put_book maps_wf_put_queuedBook

lemma maps_wf_tables:
  assumes "maps_wf st"
  shows "maps_wf (mod_operator i f st)" "maps_wf (mod_proposal i g st)" "maps_wf (clearActive i st)"
    "maps_wf (bumpEventStat st e)" "maps_wf (st\<lparr>lastBlock := b, lastLogIndex := j\<rparr>)"
    "maps_wf (st\<lparr>operators := AList.update i q (operators st)\<rparr>)"
    "maps_wf (st\<lparr>proposals := AList.update i p (proposals st),
                activeProposal := AList.update k i (activeProposal st)\<rparr>)"
    "maps_wf (st\<lparr>adapters := jadd a (adapters st)\<rparr>)"
  using assms
  by (simp_all add: maps_wf_def mod_operator_def mod_proposal_def clearActive_def
      bumpEventStat_def Let_def split: option.split)

lemmas maps_wf_intros = maps_wf_mod_vault maps_wf_ensureVault maps_wf_put maps_wf_tables

lemma maps_wf_setShares: "maps_wf st \<Longrightarrow> maps_wf (setShares st k m n)"
  by (simp add: setShares_def Let_def maps_wf_intros wf_accessors jsmap_simps)

lemma maps_wf_registry: "maps_wf st \<Longrightarrow> maps_wf (apply_registry st b)"
  by (cases b) (simp_all add: maps_wf_intros)

lemma maps_wf_governance: "maps_wf st \<Longrightarrow> maps_wf (apply_governance st b)"
  by (cases b) (simp_all add: maps_wf_intros Let_def)

lemma maps_wf_member: "maps_wf st \<Longrightarrow> maps_wf (outcome_state (apply_member st k b))"
  by (cases b) (auto simp: maps_wf_intros wf_accessors maps_wf_setShares creditShares_def
      Let_def jsmap_simps split: option.splits)

lemma maps_wf_event: "maps_wf st \<Longrightarrow> maps_wf (outcome_state (apply_event st e))"
  by (rule apply_event_keeps)
     (simp_all add: maps_wf_tables maps_wf_registry maps_wf_governance maps_wf_member)

interpretation wf_fold: event_fold apply_event "\<lambda>_ _. True" maps_wf
  by unfold_locales (rule maps_wf_event)

section \<open>The snapshot contract\<close>

text \<open>
  What the daemon relies on: reading back what was written gives the same state. Then two
  states with the same snapshot are equal, and a run continued from disk is the run.
\<close>

locale snapshots =
  fixes ser :: "'s \<Rightarrow> 'j" and deser :: "'j option \<Rightarrow> 'e + 's" and wf :: "'s \<Rightarrow> bool"
  assumes read_write: "wf s \<Longrightarrow> deser (Some (ser s)) = Inr s"
begin

lemma write_inj: "wf s \<Longrightarrow> wf t \<Longrightarrow> ser s = ser t \<Longrightarrow> s = t"
  by (metis read_write sum.inject(2))

lemma continue_from_disk:
  "wf s \<Longrightarrow> bindE (deser (Some (ser s))) (\<lambda>t. Inr (run_seq f t as)) = Inr (run_seq f s as)"
  by (simp add: read_write)

end

lemma readBigInt_show [simp]: "readBigInt (show_int n) = Inr n"
  by (simp add: readBigInt_def)

lemma read_snap_vault: "v_vault v = k \<Longrightarrow> read_vault k (snap_vault v) = Inr v"
  by (cases k) (auto simp: read_vault_def snap_vault_def Let_def newVault_def split: option.split)

lemma read_snap_operator [simp]: "read_operator (snap_operator q) = Inr q"
  by (simp add: read_operator_def snap_operator_def)

lemma read_snap_proposal [simp]: "read_proposal (snap_proposal p) = Inr p"
  by (cases "p_delegatedForWeight p") (simp_all add: read_proposal_def snap_proposal_def)

lemma restore_entries:
  "(\<And>k v. (k, v) \<in> set m \<Longrightarrow> f k (g v) = Inr v) \<Longrightarrow> wf_map m \<Longrightarrow>
     restore_map f [] (mapEntries g m) = Inr m"
  unfolding mapEntries_def using restore_map_roundtrip [of m f g "[]"] by simp

lemma read_snap_book [simp]: "wf_map b \<Longrightarrow> read_book (mapEntries show_int b) = Inr b"
  unfolding read_book_def by (rule restore_entries) simp_all

lemma deserialize_serialize:
  assumes "maps_wf st" shows "deserializeState (Some (serializeState st)) = Inr st"
proof -
  have "restore_map read_vault [] (mapEntries snap_vault (vaults st)) = Inr (vaults st)"
    by (rule restore_entries) (use assms in \<open>auto simp: maps_wf_def read_snap_vault\<close>)
  moreover have "restore_map (\<lambda>_. read_operator) [] (mapEntries snap_operator (operators st))
      = Inr (operators st)"
    by (rule restore_entries) (use assms in \<open>auto simp: maps_wf_def\<close>)
  moreover have "restore_map (\<lambda>_. read_proposal) [] (mapEntries snap_proposal (proposals st))
      = Inr (proposals st)"
    by (rule restore_entries) (use assms in \<open>auto simp: maps_wf_def\<close>)
  moreover have "restore_map (\<lambda>_. read_book) [] (mapEntries (mapEntries show_int) (shares st))
      = Inr (shares st)"
    by (rule restore_entries) (use assms in \<open>auto simp: maps_wf_def\<close>)
  moreover have "restore_map (\<lambda>_. read_book) [] (mapEntries (mapEntries show_int) (queuedExitShares st))
      = Inr (queuedExitShares st)"
    by (rule restore_entries) (use assms in \<open>auto simp: maps_wf_def\<close>)
  moreover have "restore_map (\<lambda>_. Inr) [] (mapEntries id (activeProposal st)) = (Inr (activeProposal st) :: store_error + _)"
    by (rule restore_entries) (use assms in \<open>auto simp: maps_wf_def\<close>)
  moreover have "restore_map (\<lambda>_. Inr) [] (mapEntries id (eventStats st)) = (Inr (eventStats st) :: store_error + _)"
    by (rule restore_entries) (use assms in \<open>auto simp: maps_wf_def\<close>)
  moreover have "restore_map (\<lambda>_ ms. Inr (set_of_list ms)) [] (mapEntries id (queuedExits st))
      = (Inr (queuedExits st) :: store_error + _)"
    by (rule restore_entries) (use assms in \<open>auto simp: maps_wf_def\<close>)
  moreover have "restore_map (\<lambda>_ ms. Inr (set_of_list ms)) [] (mapEntries id (pendingMembers st))
      = (Inr (pendingMembers st) :: store_error + _)"
    by (rule restore_entries) (use assms in \<open>auto simp: maps_wf_def\<close>)
  ultimately show ?thesis
    using assms by (simp add: deserializeState_def serializeState_def maps_wf_def)
qed

interpretation store: snapshots serializeState deserializeState maps_wf
  by unfold_locales (rule deserialize_serialize)

text \<open>
  C9. Round trip: any state the fold has produced from a state with proper maps, the empty one
  in particular, is read back from its snapshot exactly as it was, cursor included.
\<close>

theorem snapshot_roundtrip:
  assumes "maps_wf st" and "applyAll es st = Done st'"
  shows "deserializeState (Some (serializeState st')) = Inr st'"
  by (rule store.read_write)
     (use wf_fold.run_inv_Done [OF assms(1) reaches_pre_True] assms(2) in \<open>simp add: applyAll_def\<close>)

lemma snapshot_roundtrip_witness:
  "\<exists>st'. applyAll sample_log emptyState = Done st'
     \<and> deserializeState (Some (serializeState st')) = Inr st'"
proof (cases "applyAll sample_log emptyState")
  case (Done st')
  then show ?thesis using snapshot_roundtrip [OF maps_wf_empty Done] by simp
qed (use sample_run in simp)

text \<open>
  An older snapshot is never resumed into a wrong pending count: one that has folded any
  block but carries no pending-member set is refused, whatever else it holds, and so is every
  snapshot of another version.
\<close>

theorem deserialize_refuses_unsafe:
  assumes "sn_version obj \<noteq> Some VERSION \<or> sn_pendingMembers obj = None \<and> sn_lastBlock obj > 0"
  shows "\<exists>e. deserializeState (Some obj) = Inl e"
proof (rule ccontr)
  assume "\<not> ?thesis"
  then obtain st where "deserializeState (Some obj) = Inr st"
    by (cases "deserializeState (Some obj)") auto
  then show False
    using assms by (auto simp: deserializeState_def bindE_Inr split: if_splits)
qed

lemma deserialize_refuses_unsafe_witness:
  "\<exists>e. deserializeState (Some ((serializeState emptyState)
      \<lparr>sn_lastBlock := 7, sn_pendingMembers := None\<rparr>)) = Inl e"
  by (rule deserialize_refuses_unsafe) simp

end
