(* ===== verification/Daemon.thy ===== *)
theory Daemon
  imports Store_Roundtrip
begin

text \<open>
  The indexer daemon, \<open>packages/indexer/src/daemon.mjs\<close>: \<open>tick\<close> (one batch from the resume
  cursor to the confirmed head) and \<open>catchUp\<close> (ticks until caught up or aborted). The fetch of
  a block range and the successive answers of \<open>headBlock\<close> and of the abort signal are
  parameters. The loop runs on fuel, and \<open>None\<close> means that it has not returned yet.
\<close>

section \<open>The code\<close>

record daemon_cfg =
  confirmations :: int
  batchBlocks :: int

type_synonym fetch = "int \<Rightarrow> int \<Rightarrow> event list"

datatype tick_result =
    TickIdle
  | Ticked int istate
  | TickFailed index_error istate

text \<open>\<open>Ticked n st\<close> is both the state in memory and the one saved; a failure is not saved.\<close>

definition tick :: "daemon_cfg \<Rightarrow> int \<Rightarrow> fetch \<Rightarrow> istate \<Rightarrow> tick_result" where
  "tick cfg head fetchEvents st =
     (let safeHead = head - confirmations cfg;
          from_block = resumeCursor st
      in if safeHead < from_block then TickIdle
         else
           let to_block = min safeHead (from_block + batchBlocks cfg - 1);
               events = fetchEvents from_block to_block
           in case run_seq apply_event st events of
                Threw err st' \<Rightarrow> TickFailed err st'
              | Done st' \<Rightarrow>
                  let st'' = (if lastBlock st' < to_block
                              then st'\<lparr>lastBlock := to_block, lastLogIndex := -1\<rparr> else st')
                  in Ticked (int (length events)) st'')"

datatype catch_result = CaughtUp int istate | CatchFailed index_error istate

text \<open>Iteration \<open>i\<close> reads the head twice, before and after its tick.\<close>

fun catchUp ::
  "nat \<Rightarrow> daemon_cfg \<Rightarrow> (nat \<Rightarrow> int) \<Rightarrow> (nat \<Rightarrow> bool) \<Rightarrow> fetch \<Rightarrow> nat \<Rightarrow> int \<Rightarrow> istate \<Rightarrow> catch_result option"
where
  "catchUp 0 cfg heads aborted fetchEvents i acc st = None"
| "catchUp (Suc fuel) cfg heads aborted fetchEvents i acc st =
     (case tick cfg (heads (2 * i)) fetchEvents st of
        TickFailed err st' \<Rightarrow> Some (CatchFailed err st')
      | r \<Rightarrow>
        let (n, st') = (case r of Ticked n st' \<Rightarrow> (n, st') | _ \<Rightarrow> (0, st)) in
        if aborted i then Some (CaughtUp (acc + n) st')
        else if resumeCursor st' > heads (2 * i + 1) - confirmations cfg
        then Some (CaughtUp (acc + n) st')
        else catchUp fuel cfg heads aborted fetchEvents (Suc i) (acc + n) st')"

text \<open>A chain that answers a range with its logs in that range.\<close>

definition chain_fetch :: "event list \<Rightarrow> fetch" where
  "chain_fetch chain lo hi = filter (\<lambda>e. lo \<le> e_blockNumber e \<and> e_blockNumber e \<le> hi) chain"

section \<open>The fold does not look at the cursor\<close>

abbreviation with_cursor :: "int \<Rightarrow> int \<Rightarrow> istate \<Rightarrow> istate" where
  "with_cursor b i st \<equiv> st\<lparr>lastBlock := b, lastLogIndex := i\<rparr>"

fun map_outcome :: "('s \<Rightarrow> 't) \<Rightarrow> ('e, 's) outcome \<Rightarrow> ('e, 't) outcome" where
  "map_outcome f (Done s) = Done (f s)"
| "map_outcome f (Threw e s) = Threw e (f s)"

named_theorems cursor_simps

lemma cursor_read [cursor_simps]:
  "vrec (with_cursor b i st) k = vrec st k"
  "shareBook (with_cursor b i st) k = shareBook st k"
  "pendingMemberSet (with_cursor b i st) k = pendingMemberSet st k"
  "queuedExitSet (with_cursor b i st) k = queuedExitSet st k"
  "queuedExitShareBook (with_cursor b i st) k = queuedExitShareBook st k"
  by (simp_all add: vrec_def shareBook_def pendingMemberSet_def queuedExitSet_def
      queuedExitShareBook_def)

lemma cursor_put [cursor_simps]:
  "mod_vault k f (with_cursor b i st) = with_cursor b i (mod_vault k f st)"
  "ensureVault (with_cursor b i st) k = with_cursor b i (ensureVault st k)"
  "put_shareBook k sb (with_cursor b i st) = with_cursor b i (put_shareBook k sb st)"
  "put_pendingMemberSet k q (with_cursor b i st) = with_cursor b i (put_pendingMemberSet k q st)"
  "put_queuedExitSet k q (with_cursor b i st) = with_cursor b i (put_queuedExitSet k q st)"
  "put_queuedExitShareBook k sb (with_cursor b i st) = with_cursor b i (put_queuedExitShareBook k sb st)"
  "mod_operator j g (with_cursor b i st) = with_cursor b i (mod_operator j g st)"
  "mod_proposal j h (with_cursor b i st) = with_cursor b i (mod_proposal j h st)"
  "clearActive j (with_cursor b i st) = with_cursor b i (clearActive j st)"
  "bumpEventStat (with_cursor b i st) e = with_cursor b i (bumpEventStat st e)"
  by (simp_all add: mod_vault_def ensureVault_def put_shareBook_def put_pendingMemberSet_def
      put_queuedExitSet_def put_queuedExitShareBook_def mod_operator_def mod_proposal_def
      clearActive_def bumpEventStat_def vrec_def Let_def split: option.split)

lemma cursor_setShares [cursor_simps]:
  "setShares (with_cursor b i st) k m n = with_cursor b i (setShares st k m n)"
  by (simp add: setShares_def Let_def cursor_simps)

lemma cursor_registry: "apply_registry (with_cursor b i st) ev = with_cursor b i (apply_registry st ev)"
  by (cases ev) (simp_all add: cursor_simps)

lemma cursor_governance: "apply_governance (with_cursor b i st) ev = with_cursor b i (apply_governance st ev)"
  by (cases ev) (simp_all add: cursor_simps Let_def)

lemma cursor_member:
  "apply_member (with_cursor b i st) k ev = map_outcome (with_cursor b i) (apply_member st k ev)"
  by (cases ev) (simp_all add: cursor_simps Let_def creditShares_def split: option.split)

lemma cursor_event:
  "apply_event (with_cursor b i st) e =
     (case apply_event st e of Done s \<Rightarrow> Done s | Threw err s \<Rightarrow> Threw err (with_cursor b i s))"
proof -
  have *: "map_outcome (with_cursor b i) r =
      (case r of Done s \<Rightarrow> Done (with_cursor b i s) | Threw err s \<Rightarrow> Threw err (with_cursor b i s))"
    for r :: "(index_error, istate) outcome" by (cases r) simp_all
  show ?thesis
    by (auto simp: apply_event_def Let_def cursor_registry cursor_governance cursor_member cursor_simps *
        split: outcome.split)
qed

lemma event_Done_cursor:
  "apply_event st e = Done st' \<Longrightarrow> lastBlock st' = e_blockNumber e \<and> lastLogIndex st' = e_logIndex e"
  by (auto simp: apply_event_def Let_def split: outcome.splits)

lemma event_Threw_cursor:
  assumes "apply_event st e = Threw err st'"
  shows "lastBlock st' = lastBlock st \<and> lastLogIndex st' = lastLogIndex st"
proof -
  have "Threw err st' = Threw err (with_cursor (lastBlock st) (lastLogIndex st) st')"
    using cursor_event [where b = "lastBlock st" and i = "lastLogIndex st" and st = st and e = e] assms by simp
  then have "st' = with_cursor (lastBlock st) (lastLogIndex st) st'" by simp
  moreover have "lastBlock (with_cursor b i st') = b \<and> lastLogIndex (with_cursor b i st') = i" for b i
    by simp
  ultimately show ?thesis by metis
qed

lemma run_Done_cursor:
  "run_seq apply_event st es = Done st' \<Longrightarrow> es \<noteq> [] \<Longrightarrow>
     lastBlock st' = e_blockNumber (last es) \<and> lastLogIndex st' = e_logIndex (last es)"
proof (induction es arbitrary: st)
  case (Cons e es)
  then obtain s1 where "apply_event st e = Done s1" "run_seq apply_event s1 es = Done st'"
    by (auto split: outcome.splits)
  with Cons show ?case by (cases "es = []") (auto simp: event_Done_cursor)
qed simp

lemma run_with_cursor:
  assumes "run_seq apply_event st es = Done st'"
  shows "run_seq apply_event (with_cursor b i st) es = Done (if es = [] then with_cursor b i st else st')"
  using assms by (cases es) (auto simp: cursor_event split: outcome.splits)

section \<open>One batch\<close>

lemma tick_Ticked:
  assumes "tick cfg head fetchEvents st = Ticked n st''"
  obtains st' to_block where "to_block = min (head - confirmations cfg) (resumeCursor st + batchBlocks cfg - 1)"
    "resumeCursor st \<le> head - confirmations cfg"
    "run_seq apply_event st (fetchEvents (resumeCursor st) to_block) = Done st'"
    "st'' = (if lastBlock st' < to_block then with_cursor to_block (-1) st' else st')"
    "n = int (length (fetchEvents (resumeCursor st) to_block))"
  using assms by (auto simp: tick_def Let_def split: if_splits outcome.splits)

lemma resumeCursor_nonfresh: "1 \<le> resumeCursor st \<Longrightarrow> resumeCursor st = lastBlock st + 1"
  by (auto simp: resumeCursor_def split: if_splits)

lemma resumeCursor_with: "1 \<le> b \<Longrightarrow> resumeCursor (with_cursor b i st) = b + 1"
  by (simp add: resumeCursor_def)

lemma with_own_cursor: "with_cursor (lastBlock st) (lastLogIndex st) st = st"
  by simp

lemma run_lastBlock_le:
  assumes "run_seq apply_event st es = Done st'" "\<forall>e \<in> set es. e_blockNumber e \<le> b" "lastBlock st \<le> b"
  shows "lastBlock st' \<le> b"
proof (cases "es = []")
  case False
  then show ?thesis using run_Done_cursor [OF assms(1)] assms(2) last_in_set by metis
qed (use assms in simp)

text \<open>
  One batch of the daemon, on a source that answers only with logs of the range it was
  asked for: the state it saves is the fold of exactly the range from the cursor on, the next
  cursor is the block after that range, so that consecutive ranges neither overlap nor leave a
  gap, and it never passes the confirmed head.
\<close>

theorem tick_covers_its_range:
  assumes "tick cfg head fetchEvents st = Ticked n st''" and "1 \<le> resumeCursor st" and "1 \<le> batchBlocks cfg"
    and "\<And>lo hi e. e \<in> set (fetchEvents lo hi) \<Longrightarrow> lo \<le> e_blockNumber e \<and> e_blockNumber e \<le> hi"
  shows "\<exists>to_block st'. resumeCursor st'' = to_block + 1 \<and> resumeCursor st \<le> to_block
     \<and> to_block \<le> head - confirmations cfg \<and> to_block < resumeCursor st + batchBlocks cfg
     \<and> run_seq apply_event st (fetchEvents (resumeCursor st) to_block) = Done st'
     \<and> (\<exists>i. st'' = with_cursor to_block i st')"
proof -
  obtain st' to_block where t: "to_block = min (head - confirmations cfg) (resumeCursor st + batchBlocks cfg - 1)"
    "resumeCursor st \<le> head - confirmations cfg"
    "run_seq apply_event st (fetchEvents (resumeCursor st) to_block) = Done st'"
    "st'' = (if lastBlock st' < to_block then with_cursor to_block (-1) st' else st')"
    using tick_Ticked [OF assms(1)] by metis
  have le: "resumeCursor st \<le> to_block" using t assms(3) by simp
  have "lastBlock st' \<le> to_block"
    by (rule run_lastBlock_le [OF t(3)])
       (use assms(4) le resumeCursor_nonfresh [OF assms(2)] in auto)
  then obtain i where st'': "st'' = with_cursor to_block i st'"
    using t(4) with_own_cursor [of st'] by (metis not_less order_antisym)
  then have "resumeCursor st'' = to_block + 1" using le assms(2) by (simp add: resumeCursor_with)
  moreover have "to_block \<le> head - confirmations cfg" "to_block < resumeCursor st + batchBlocks cfg"
    using t(1) by simp_all
  ultimately show ?thesis using t(3) le st'' by blast
qed

definition sample_chain :: "event list" where
  "sample_chain = sort_log sample_log"

definition start_state :: istate where
  "start_state = emptyState\<lparr>lastBlock := 1\<rparr>"

lemma chain_fetch_range:
  "e \<in> set (chain_fetch chain lo hi) \<Longrightarrow> lo \<le> e_blockNumber e \<and> e_blockNumber e \<le> hi"
  by (simp add: chain_fetch_def)

lemma tick_covers_its_range_witness:
  "\<exists>n st'' to_block. tick \<lparr>confirmations = 5, batchBlocks = 2\<rparr> 20 (chain_fetch sample_chain) start_state = Ticked n st''
     \<and> resumeCursor st'' = to_block + 1 \<and> to_block \<le> 20 - 5"
proof -
  let ?cfg = "\<lparr>confirmations = 5, batchBlocks = 2\<rparr>"
  have "(case tick ?cfg 20 (chain_fetch sample_chain) start_state of Ticked _ _ \<Rightarrow> True | _ \<Rightarrow> False)"
    by code_simp
  then obtain n st'' where t: "tick ?cfg 20 (chain_fetch sample_chain) start_state = Ticked n st''"
    by (auto split: tick_result.splits)
  have "1 \<le> resumeCursor start_state" "1 \<le> batchBlocks ?cfg" by code_simp+
  from tick_covers_its_range [OF t this] chain_fetch_range
  obtain to_block where "resumeCursor st'' = to_block + 1" "to_block \<le> 20 - confirmations ?cfg"
    by blast
  with t show ?thesis by auto
qed

section \<open>Catching up\<close>

definition strip :: "istate \<Rightarrow> istate" where
  "strip st = with_cursor 0 0 st"

lemma strip_eq: "strip st = strip st' \<Longrightarrow> \<exists>b i. st = with_cursor b i st'"
proof -
  assume "strip st = strip st'"
  then have "with_cursor (lastBlock st) (lastLogIndex st) (strip st) =
      with_cursor (lastBlock st) (lastLogIndex st) (strip st')" by simp
  then show ?thesis by (auto simp: strip_def)
qed

lemma strip_with_cursor [simp]: "strip (with_cursor b i st) = strip st"
  by (simp add: strip_def)

lemma run_strip:
  assumes "run_seq apply_event st es = Done s1" and "strip st' = strip st"
  shows "\<exists>s1'. run_seq apply_event st' es = Done s1' \<and> strip s1' = strip s1"
proof -
  obtain b i where "st' = with_cursor b i st" using strip_eq [OF assms(2)] by blast
  then show ?thesis
    using run_with_cursor [OF assms(1), where b = b and i = i] assms(1) by (auto split: if_splits)
qed

lemma chain_fetch_split:
  assumes "sorted (map event_pos chain)" and "lo \<le> m + 1" "m \<le> hi"
  shows "chain_fetch chain lo hi = chain_fetch chain lo m @ chain_fetch chain (m + 1) hi"
  using assms
proof (induction chain)
  case (Cons e chain)
  have rest: "\<forall>x \<in> set chain. e_blockNumber e \<le> e_blockNumber x"
    using Cons.prems(1) by (auto simp: less_eq_prod_def)
  show ?case
  proof (cases "e_blockNumber e \<le> m")
    case True
    then show ?thesis using Cons by (simp add: chain_fetch_def)
  next
    case False
    then have "filter (\<lambda>e. lo \<le> e_blockNumber e \<and> e_blockNumber e \<le> m) chain = []"
      using rest by (auto simp: filter_empty_conv)
    moreover have "filter (\<lambda>e. lo \<le> e_blockNumber e \<and> e_blockNumber e \<le> hi) chain =
        filter (\<lambda>e. m + 1 \<le> e_blockNumber e \<and> e_blockNumber e \<le> hi) chain"
      using rest False Cons.prems(2) by (intro filter_cong) auto
    ultimately show ?thesis using False Cons.prems(2) by (simp add: chain_fetch_def)
  qed
qed (simp add: chain_fetch_def)

lemma tick_on_chain:
  assumes "sorted (map event_pos chain)" and "1 \<le> resumeCursor st" "1 \<le> batchBlocks cfg"
    and "resumeCursor st \<le> head - confirmations cfg"
    and "run_seq apply_event st (chain_fetch chain (resumeCursor st) (head - confirmations cfg)) = Done s1"
  obtains m st' s' where "tick cfg head (chain_fetch chain) st =
       Ticked (int (length (chain_fetch chain (resumeCursor st) m))) st'"
    "m = min (head - confirmations cfg) (resumeCursor st + batchBlocks cfg - 1)"
    "resumeCursor st' = m + 1" "strip st' = strip s'"
    "run_seq apply_event st (chain_fetch chain (resumeCursor st) m) = Done s'"
    "run_seq apply_event s' (chain_fetch chain (m + 1) (head - confirmations cfg)) = Done s1"
proof -
  define m where "m = min (head - confirmations cfg) (resumeCursor st + batchBlocks cfg - 1)"
  have m: "resumeCursor st \<le> m" "m \<le> head - confirmations cfg" using assms by (simp_all add: m_def)
  have "chain_fetch chain (resumeCursor st) (head - confirmations cfg) =
      chain_fetch chain (resumeCursor st) m @ chain_fetch chain (m + 1) (head - confirmations cfg)"
    by (rule chain_fetch_split) (use assms(1) m in auto)
  with assms(5) obtain s' where s': "run_seq apply_event st (chain_fetch chain (resumeCursor st) m) = Done s'"
    "run_seq apply_event s' (chain_fetch chain (m + 1) (head - confirmations cfg)) = Done s1"
    by (auto simp: run_seq_append split: outcome.splits)
  have t: "tick cfg head (chain_fetch chain) st =
      Ticked (int (length (chain_fetch chain (resumeCursor st) m)))
        (if lastBlock s' < m then with_cursor m (-1) s' else s')"
    using assms(4) s'(1) by (simp add: tick_def Let_def m_def [symmetric])
  have "lastBlock s' \<le> m"
    by (rule run_lastBlock_le [OF s'(1)])
       (use m resumeCursor_nonfresh [OF assms(2)] in \<open>auto simp: chain_fetch_def\<close>)
  then have "resumeCursor (if lastBlock s' < m then with_cursor m (-1) s' else s') = m + 1"
    using m assms(2) by (auto simp: resumeCursor_def)
  then show thesis using that [OF t m_def _ _ s'] by auto
qed

text \<open>
  C10. Catching up is folding. On a chain whose head stays put, from a cursor past genesis and
  with batches of at least one block, \<open>catchUp\<close> returns (the fuel is the number of blocks still
  to read), its cursor is the block after the confirmed head, the number it reports is the
  number of events in the range, and its state is, cursor apart, the one a single fold over
  all of them gives: where the batches are cut makes no difference.
\<close>

theorem catchUp_is_one_fold:
  assumes "sorted (map event_pos chain)" and "1 \<le> batchBlocks cfg" and "1 \<le> resumeCursor st"
    and "resumeCursor st \<le> head - confirmations cfg"
    and "run_seq apply_event st (chain_fetch chain (resumeCursor st) (head - confirmations cfg)) = Done s1"
    and "nat (head - confirmations cfg - resumeCursor st) < fuel"
  shows "\<exists>st'. catchUp fuel cfg (\<lambda>_. head) (\<lambda>_. False) (chain_fetch chain) i acc st =
      Some (CaughtUp (acc + int (length (chain_fetch chain (resumeCursor st) (head - confirmations cfg)))) st')
    \<and> strip st' = strip s1 \<and> resumeCursor st' = head - confirmations cfg + 1"
  using assms(3-6)
proof (induction fuel arbitrary: i acc st s1)
  case (Suc fuel)
  let ?S = "head - confirmations cfg"
  obtain m st' s' where t: "tick cfg head (chain_fetch chain) st =
       Ticked (int (length (chain_fetch chain (resumeCursor st) m))) st'"
    and m: "m = min ?S (resumeCursor st + batchBlocks cfg - 1)" "resumeCursor st' = m + 1" "strip st' = strip s'"
      "run_seq apply_event s' (chain_fetch chain (m + 1) ?S) = Done s1"
    using tick_on_chain [OF assms(1) Suc.prems(1) assms(2) Suc.prems(2,3)] by metis
  have split: "chain_fetch chain (resumeCursor st) ?S =
      chain_fetch chain (resumeCursor st) m @ chain_fetch chain (m + 1) ?S"
    by (rule chain_fetch_split) (use assms(1,2) m Suc.prems(2) in auto)
  show ?case
  proof (cases "m = ?S")
    case True
    then have "s1 = s'" using m(4) by (simp add: chain_fetch_def)
    then show ?thesis using True t m by simp
  next
    case False
    then have lt: "m < ?S" using m(1) by simp
    obtain s2 where s2: "run_seq apply_event st' (chain_fetch chain (m + 1) ?S) = Done s2" "strip s2 = strip s1"
      using run_strip [OF m(4,3)] by blast
    have "\<exists>st2. catchUp fuel cfg (\<lambda>_. head) (\<lambda>_. False) (chain_fetch chain) (Suc i)
          (acc + int (length (chain_fetch chain (resumeCursor st) m))) st' =
        Some (CaughtUp (acc + int (length (chain_fetch chain (resumeCursor st) m))
          + int (length (chain_fetch chain (resumeCursor st') ?S))) st2)
      \<and> strip st2 = strip s2 \<and> resumeCursor st2 = ?S + 1"
      by (rule Suc.IH) (use lt m(1,2) s2 Suc.prems assms(2) in auto)
    then show ?thesis using t lt m(2) s2(2) split by (auto simp: add.assoc)
  qed
qed simp

lemma catchUp_is_one_fold_witness:
  "\<exists>st'. catchUp 20 \<lparr>confirmations = 5, batchBlocks = 2\<rparr> (\<lambda>_. 20) (\<lambda>_. False)
     (chain_fetch sample_chain) 0 0 start_state = Some (CaughtUp 3 st')"
proof -
  let ?cfg = "\<lparr>confirmations = 5, batchBlocks = 2\<rparr>"
  have "(case run_seq apply_event start_state (chain_fetch sample_chain (resumeCursor start_state) (20 - confirmations ?cfg)) of
      Done _ \<Rightarrow> True | Threw _ _ \<Rightarrow> False)" by code_simp
  then obtain s1 where "run_seq apply_event start_state
      (chain_fetch sample_chain (resumeCursor start_state) (20 - confirmations ?cfg)) = Done s1"
    by (auto split: outcome.splits)
  moreover have "sorted (map event_pos sample_chain)" "1 \<le> batchBlocks ?cfg" "1 \<le> resumeCursor start_state"
    "resumeCursor start_state \<le> 20 - confirmations ?cfg"
    "nat (20 - confirmations ?cfg - resumeCursor start_state) < 20"
    "int (length (chain_fetch sample_chain (resumeCursor start_state) (20 - confirmations ?cfg))) = 3"
    by code_simp+
  ultimately show ?thesis
    using catchUp_is_one_fold [of sample_chain ?cfg start_state 20 s1 20 0 0] by auto
qed

section \<open>Two ways the loop does not do its work\<close>

text \<open>
  C40. A batch that throws part way is not retried from its start. The events before the
  throwing one stay applied in memory, and if one of them lies in the same block, the next
  batch starts at the block after it: the throwing event and everything behind it in that
  block are never fetched again.
\<close>

theorem failed_tick_skips_rest_of_block:
  assumes "resumeCursor st \<le> head - confirmations cfg"
    and "fetchEvents (resumeCursor st) (min (head - confirmations cfg) (resumeCursor st + batchBlocks cfg - 1))
         = before @ e # behind"
    and "before \<noteq> []" and "run_seq apply_event st before = Done s1"
    and "apply_event s1 e = Threw err s2"
    and "e_blockNumber (last before) = e_blockNumber e" and "1 \<le> e_blockNumber e"
  shows "tick cfg head fetchEvents st = TickFailed err s2 \<and> resumeCursor s2 = e_blockNumber e + 1"
proof -
  have "lastBlock s1 = e_blockNumber e"
    using run_Done_cursor [OF assms(4,3)] assms(6) by simp
  moreover have "lastBlock s2 = lastBlock s1 \<and> lastLogIndex s2 = lastLogIndex s1"
    by (rule event_Threw_cursor [OF assms(5)])
  ultimately show ?thesis
    using assms by (simp add: tick_def Let_def run_seq_append resumeCursor_def)
qed

text \<open>
  From a fresh state, while the confirmed head is block 0 and that block has no events,
  \<open>catchUp\<close> does not return: the cursor of a fresh state and of one that has read block 0 are
  the same, so every iteration reads block 0 again.
\<close>

theorem catchUp_spins_on_block_zero:
  "catchUp fuel \<lparr>confirmations = n, batchBlocks = int (Suc b)\<rparr> (\<lambda>_. n) (\<lambda>_. False) (\<lambda>_ _. []) i acc emptyState = None"
proof (induction fuel arbitrary: i acc)
  case (Suc fuel)
  have "tick \<lparr>confirmations = n, batchBlocks = int (Suc b)\<rparr> n (\<lambda>_ _. []) emptyState = Ticked 0 emptyState"
    by (simp add: tick_def resumeCursor_def emptyState_def Let_def)
  then show ?case using Suc by (simp add: resumeCursor_def emptyState_def)
qed simp

definition bad_block :: "event list" where
  "bad_block =
    [\<lparr>e_body = DepositPending ''0xb'', e_vault = Some ''0xv'', e_blockNumber = 3, e_logIndex = 0\<rparr>,
     \<lparr>e_body = DepositActivated ''0xc'' 0, e_vault = Some ''0xv'', e_blockNumber = 3, e_logIndex = 1\<rparr>,
     \<lparr>e_body = DepositPending ''0xd'', e_vault = Some ''0xv'', e_blockNumber = 3, e_logIndex = 2\<rparr>]"

lemma failed_tick_skips_rest_of_block_witness:
  "\<exists>err s2. tick \<lparr>confirmations = 5, batchBlocks = 100\<rparr> 20 (chain_fetch bad_block) start_state = TickFailed err s2
     \<and> resumeCursor s2 = 4"
proof -
  let ?cfg = "\<lparr>confirmations = 5, batchBlocks = 100\<rparr>"
  define e where "e = bad_block ! 1"
  have split: "chain_fetch bad_block (resumeCursor start_state)
      (min (20 - confirmations ?cfg) (resumeCursor start_state + batchBlocks ?cfg - 1))
      = [hd bad_block] @ e # [last bad_block]"
    unfolding e_def by code_simp
  have "(case run_seq apply_event start_state [hd bad_block] of
      Done s1 \<Rightarrow> (case apply_event s1 e of Threw _ _ \<Rightarrow> True | _ \<Rightarrow> False) | _ \<Rightarrow> False)"
    unfolding e_def by code_simp
  then obtain s1 err s2 where run: "run_seq apply_event start_state [hd bad_block] = Done s1"
    "apply_event s1 e = Threw err s2"
    by (auto split: outcome.splits)
  have "resumeCursor start_state \<le> 20 - confirmations ?cfg" by code_simp
  moreover have "e_blockNumber (last [hd bad_block]) = e_blockNumber e" "e_blockNumber e = 3"
    by (simp_all add: e_def bad_block_def)
  ultimately show ?thesis
    using failed_tick_skips_rest_of_block [of start_state 20 ?cfg "chain_fetch bad_block"
        "[hd bad_block]" e "[last bad_block]" s1 err s2] split run by auto
qed

end
