(* ===== verification/Agent_Config.thy ===== *)
theory Agent_Config
  imports Decimal
begin

text \<open>
  Configuration of the reference agent, \<open>packages/reference-agent/src/config.mjs\<close>: USDC amounts
  (\<open>toBaseUnits\<close>, \<open>fromBaseUnits\<close>), the checks \<open>loadConfig\<close> makes on the merged configuration,
  the execute gate \<open>gateMode\<close> and \<open>redact\<close>, through which every log line goes. The merge of
  presets and overrides is not modelled: the records below are its result.
\<close>

section \<open>Amounts\<close>

datatype config_error =
    NotPositiveDecimal string
  | TooManyDecimals string
  | UnknownMode string
  | ExecuteRefused bool bool
  | BadInteger string int
  | BadInclude
  | BadScope string
  | BadPayloadHash string
  | BadPayload string
  | BadDisclosed
  | ProfileNeedsExit

definition USDC_DECIMALS :: nat where
  "USDC_DECIMALS = 6"

definition USDC_UNIT :: int where
  "USDC_UNIT = 10 ^ USDC_DECIMALS"

definition is_digit :: "char \<Rightarrow> bool" where
  "is_digit c = (digit_val 10 c \<noteq> None)"

text \<open>The part before the first dot, and the part after it if there is one.\<close>

definition split_dot :: "string \<Rightarrow> string \<times> string option" where
  "split_dot s = (takeWhile (\<lambda>c. c \<noteq> CHR ''.'') s,
     (case dropWhile (\<lambda>c. c \<noteq> CHR ''.'') s of [] \<Rightarrow> None | _ # f \<Rightarrow> Some f))"

text \<open>The test \<open>/^\d+(\.\d+)?$/\<close>.\<close>

definition positive_decimal :: "string \<Rightarrow> bool" where
  "positive_decimal s = (case split_dot s of (w, fo) \<Rightarrow>
     w \<noteq> [] \<and> list_all is_digit w \<and>
     (case fo of None \<Rightarrow> True | Some f \<Rightarrow> f \<noteq> [] \<and> list_all is_digit f))"

definition digits_value :: "string \<Rightarrow> int" where
  "digits_value s = (case parse_radix 10 0 s of None \<Rightarrow> 0 | Some n \<Rightarrow> int n)"

definition toBaseUnits :: "string \<Rightarrow> config_error + int" where
  "toBaseUnits usdc =
     (let s = js_trim usdc in
      if \<not> positive_decimal s then Inl (NotPositiveDecimal s)
      else let whole = fst (split_dot s);
               frac = (case snd (split_dot s) of None \<Rightarrow> [] | Some f \<Rightarrow> f)
           in if length frac > USDC_DECIMALS then Inl (TooManyDecimals s)
              else Inr (digits_value whole * USDC_UNIT
                        + digits_value (pad_end USDC_DECIMALS (CHR ''0'') frac)))"

definition fromBaseUnits :: "int \<Rightarrow> string" where
  "fromBaseUnits base =
     (let neg = base < 0;
          v = (if neg then - base else base);
          frac = strip_zeros (pad_start USDC_DECIMALS (CHR ''0'') (show_int (bmod v USDC_UNIT)))
      in (if neg then ''-'' else '''') @ show_int (bdiv v USDC_UNIT)
         @ (if frac \<noteq> [] then CHR ''.'' # frac else []))"

section \<open>The resolved configuration\<close>

record join_config =
  requireAttestedOperator :: bool
  minOperatorNetRealizedUsdc :: string
  requireProvenOperator :: bool
  maxPerfFeeBps :: int
  maxExitFeeBps :: int
  depositUsdc :: string
  minFreeCapacityUsdc :: string
  maxDepth :: int
  maxConcurrentVaults :: int
  profile :: "string option"
  disclosedAddresses :: "string list"

record exit_config =
  maxDrawdownBps :: int
  onOracleFreezeWarning :: bool
  onOperatorNetNegative :: bool

record timing_config =
  revealSafetyMarginSec :: int
  activateGraceSec :: int
  tickIntervalSec :: int

record crank_config =
  scope :: string
  crankFinalize :: bool
  crankExecute :: bool
  crankMarkExpired :: bool
  knownPayloads :: "(string, string) jsmap"

record discovery_config =
  maxVaults :: int
  pageSize :: int
  include_vaults :: "string list"
  pageBlocks :: int
  maxPagesPerTick :: int
  maxBlocks :: int
  pacingMs :: int

record loaded_config =
  lc_mode :: string
  lc_maxSessionSpendUsdc :: string
  lc_maxSingleReadUsdc :: string
  lc_discovery :: discovery_config
  lc_join :: join_config
  lc_exit :: exit_config
  lc_crank :: crank_config

definition CRANK_SCOPES :: "string list" where
  "CRANK_SCOPES = [''held'', ''all'', ''off'']"

definition UNPROVEN_OPERATOR_PROFILE :: string where
  "UNPROVEN_OPERATOR_PROFILE = ''unproven-operator''"

text \<open>The test \<open>/^0x(?:[0-9a-fA-F]{2})*$/\<close>.\<close>

definition hex_bytes :: "string \<Rightarrow> bool" where
  "hex_bytes s = (take 2 s = ''0x'' \<and> even (length s) \<and> list_all hex_char (drop 2 s))"

fun first_error :: "(bool \<times> 'e) list \<Rightarrow> 'e option" where
  "first_error [] = None"
| "first_error ((bad, e) # cs) = (if bad then Some e else first_error cs)"

text \<open>The checks of \<open>loadConfig\<close>, in their order.\<close>

definition payload_checks :: "(string, string) jsmap \<Rightarrow> (bool \<times> config_error) list" where
  "payload_checks kp = concat (map (\<lambda>(h, p).
     [(\<not> hex_string 64 h, BadPayloadHash h), (\<not> hex_bytes p, BadPayload h)]) kp)"

definition checkConfig :: "loaded_config \<Rightarrow> config_error + loaded_config" where
  "checkConfig cfg =
     (if lc_mode cfg \<noteq> ''dry-run'' \<and> lc_mode cfg \<noteq> ''execute'' then Inl (UnknownMode (lc_mode cfg))
      else
      bindE (toBaseUnits (lc_maxSessionSpendUsdc cfg)) (\<lambda>_.
      bindE (toBaseUnits (lc_maxSingleReadUsdc cfg)) (\<lambda>_.
      bindE (toBaseUnits (depositUsdc (lc_join cfg))) (\<lambda>_.
      bindE (toBaseUnits (minFreeCapacityUsdc (lc_join cfg))) (\<lambda>_.
      bindE (toBaseUnits (minOperatorNetRealizedUsdc (lc_join cfg))) (\<lambda>_.
      let d = lc_discovery cfg; c = lc_crank cfg; j = lc_join cfg in
      (case first_error
         ([(maxVaults d < 1, BadInteger ''maxVaults'' (maxVaults d)),
           (pageSize d < 1, BadInteger ''pageSize'' (pageSize d)),
           (\<not> list_all is_address (include_vaults d), BadInclude),
           (scope c \<notin> set CRANK_SCOPES, BadScope (scope c))]
          @ payload_checks (knownPayloads c)
          @ [(pageBlocks d < 1, BadInteger ''pageBlocks'' (pageBlocks d)),
             (maxPagesPerTick d < 1, BadInteger ''maxPagesPerTick'' (maxPagesPerTick d)),
             (maxBlocks d < 1, BadInteger ''maxBlocks'' (maxBlocks d)),
             (pacingMs d < 0, BadInteger ''pacingMs'' (pacingMs d)),
             (\<not> list_all is_address (disclosedAddresses j), BadDisclosed),
             (profile j = Some UNPROVEN_OPERATOR_PROFILE \<and> \<not> onOperatorNetNegative (lc_exit cfg),
              ProfileNeedsExit)])
       of Some e \<Rightarrow> Inl e | None \<Rightarrow> Inr cfg)))))))"

section \<open>The execute gate\<close>

definition EXECUTE_ENV_VAR :: string where
  "EXECUTE_ENV_VAR = ''AGENT_I_UNDERSTAND_THIS_SPENDS_FUNDS''"

definition EXECUTE_ENV_VALUE :: string where
  "EXECUTE_ENV_VALUE = ''yes''"

text \<open>\<open>account\<close> is the address of the injected account, if there is one with an address.\<close>

definition gateMode :: "string \<Rightarrow> string option \<Rightarrow> (string, string) jsmap \<Rightarrow> config_error + (string \<times> bool)" where
  "gateMode mode account env =
     (if mode = ''dry-run'' then Inr (''dry-run'', False)
      else if mode \<noteq> ''execute'' then Inl (UnknownMode mode)
      else let noAccount = (account = None);
               noEnv = (map_of env EXECUTE_ENV_VAR \<noteq> Some EXECUTE_ENV_VALUE)
           in if noAccount \<or> noEnv then Inl (ExecuteRefused noAccount noEnv)
              else Inr (''execute'', True))"

section \<open>Redaction\<close>

datatype jsval =
    JUndefined
  | JNull
  | JBool bool
  | JNum int
  | JBig int
  | JFn
  | JStr string
  | JArr "jsval list"
  | JObj "(string \<times> jsval) list"

definition KEYISH :: "string list" where
  "KEYISH = [''privatekey'', ''privkey'', ''secret'', ''mnemonic'', ''seed'', ''key'', ''pk'', ''signature'',
     ''sessionkey'', ''sessionprivatekey'', ''serializedsessionkey'', ''serializedaccount'']"

definition keyish :: "string \<Rightarrow> bool" where
  "keyish k = (lc k \<in> set KEYISH)"

definition isSigner :: "(string \<times> jsval) list \<Rightarrow> bool" where
  "isSigner fs = ((case map_of fs ''address'' of Some (JStr _) \<Rightarrow> True | _ \<Rightarrow> False) \<and>
     (map_of fs ''signMessage'' = Some JFn \<or> map_of fs ''sign'' = Some JFn
      \<or> map_of fs ''signTypedData'' = Some JFn \<or> map_of fs ''signTransaction'' = Some JFn))"

text \<open>
  \<open>redactUrls\<close>: the global replacement of
  \<open>\b([a-z][a-z0-9+.-]*://)([^\s/?#'"`<>]+)([^\s'"`<>]*)\<close>, case-insensitive, by the scheme and
  the authority without its user info. The classes make the match unambiguous.
\<close>

definition letter :: "char \<Rightarrow> bool" where
  "letter c = (let n = of_char (lower_char c) :: nat in 97 \<le> n \<and> n \<le> 122)"

definition word_char :: "char \<Rightarrow> bool" where
  "word_char c = (letter c \<or> is_digit c \<or> c = CHR ''_'')"

definition scheme_char :: "char \<Rightarrow> bool" where
  "scheme_char c = (letter c \<or> is_digit c \<or> c \<in> set ''+.-'')"

definition url_stop :: "char \<Rightarrow> bool" where
  "url_stop c = (white c \<or> c = char_of (39 :: nat) \<or> c = char_of (34 :: nat) \<or> c = char_of (96 :: nat)
     \<or> c \<in> set ''<>'')"

definition authority_char :: "char \<Rightarrow> bool" where
  "authority_char c = (\<not> url_stop c \<and> c \<notin> set ''/?#'')"

definition drop_userinfo :: "string \<Rightarrow> string" where
  "drop_userinfo s = (if CHR ''@'' \<in> set s then rev (takeWhile (\<lambda>c. c \<noteq> CHR ''@'') (rev s)) else s)"

definition match_url :: "string \<Rightarrow> (string \<times> string) option" where
  "match_url s =
     (let sch = takeWhile scheme_char s;
          r1 = drop (length sch) s;
          auth = takeWhile authority_char (drop 3 r1);
          r2 = dropWhile (\<lambda>c. \<not> url_stop c) (drop (length auth) (drop 3 r1))
      in if s \<noteq> [] \<and> letter (hd s) \<and> take 3 r1 = ''://'' \<and> auth \<noteq> []
         then Some (sch @ ''://'' @ drop_userinfo auth, r2) else None)"

lemma match_url_shorter: "match_url s = Some (t, r) \<Longrightarrow> length r < length s"
proof -
  assume m: "match_url s = Some (t, r)"
  define sch where "sch = takeWhile scheme_char s"
  define auth where "auth = takeWhile authority_char (drop 3 (drop (length sch) s))"
  have r: "r = dropWhile (\<lambda>c. \<not> url_stop c) (drop (length auth) (drop 3 (drop (length sch) s)))" "s \<noteq> []"
      "take 3 (drop (length sch) s) = ''://''"
    using m by (auto simp: match_url_def Let_def sch_def auth_def simp del: drop_drop split: if_splits)
  have "length r \<le> length (drop 3 (drop (length sch) s))"
    unfolding r(1) by (rule order_trans [OF length_dropWhile_le]) simp
  moreover have "length (drop (length sch) s) \<ge> 3"
    using arg_cong [OF r(3), of length] by (simp del: drop_drop length_drop)
  ultimately show ?thesis by simp
qed

function replace_urls :: "char option \<Rightarrow> string \<Rightarrow> string" where
  "replace_urls prev [] = []"
| "replace_urls prev (c # cs) =
     (case (if (case prev of None \<Rightarrow> True | Some p \<Rightarrow> \<not> word_char p) then match_url (c # cs) else None) of
        Some (t, r) \<Rightarrow> t @ replace_urls (Some (last (take (length (c # cs) - length r) (c # cs)))) r
      | None \<Rightarrow> c # replace_urls (Some c) cs)"
  by pat_completeness auto
termination
  by (relation "measure (\<lambda>(_, s). length s)") (auto split: if_splits option.splits dest: match_url_shorter)

definition redactUrls :: "string \<Rightarrow> string" where
  "redactUrls s = replace_urls None s"

fun redact :: "jsval \<Rightarrow> nat \<Rightarrow> jsval"
  and redact_list :: "jsval list \<Rightarrow> nat \<Rightarrow> jsval list"
  and redact_fields :: "(string \<times> jsval) list \<Rightarrow> nat \<Rightarrow> (string \<times> jsval) list"
where
  "redact v depth =
     (if depth > 8 then JStr ''[deep]''
      else case v of
        JBig n \<Rightarrow> JStr (show_int n)
      | JFn \<Rightarrow> JStr ''[fn]''
      | JStr s \<Rightarrow> if hex_string 64 s then JStr ''[redacted:32-byte-hex]'' else JStr (redactUrls s)
      | JArr vs \<Rightarrow> JArr (redact_list vs (depth + 1))
      | JObj fs \<Rightarrow>
          if isSigner fs
          then JObj [(''address'', (case map_of fs ''address'' of Some a \<Rightarrow> a | None \<Rightarrow> JUndefined)),
                     (''_'', JStr ''[account: signer withheld]'')]
          else JObj (redact_fields fs (depth + 1))
      | _ \<Rightarrow> v)"
| "redact_list [] depth = []"
| "redact_list (v # vs) depth = redact v depth # redact_list vs depth"
| "redact_fields [] depth = []"
| "redact_fields ((k, v) # fs) depth =
     (k, if keyish k then JStr ''[redacted]'' else redact v depth) # redact_fields fs depth"


section \<open>What the configuration promises\<close>

lemma is_digit_decimal: "decimal_char c \<Longrightarrow> is_digit c"
  by (auto simp: is_digit_def digit_val_def Let_def)

lemma dot_not_decimal: "\<not> decimal_char (CHR ''.'')"
  by simp

lemma set_pad_start: "set (pad_start n c s) \<subseteq> insert c (set s)"
  by (auto simp: pad_start_def)

lemma pad_show_decimal: "\<forall>c \<in> set (pad_start n (CHR ''0'') (show_nat m)). decimal_char c"
  using set_pad_start [of n "CHR ''0''" "show_nat m"] show_nat_decimal [of m] by auto

lemma split_dot_decimal:
  assumes "\<forall>c \<in> set w. decimal_char c" shows "split_dot (w @ CHR ''.'' # f) = (w, Some f)" "split_dot w = (w, None)"
proof -
  have *: "\<forall>c \<in> set w. c \<noteq> CHR ''.''" using assms dot_not_decimal by blast
  then show "split_dot (w @ CHR ''.'' # f) = (w, Some f)"
    by (simp add: split_dot_def takeWhile_append2 dropWhile_append2)
  from * have "takeWhile (\<lambda>c. c \<noteq> CHR ''.'') w = w" "dropWhile (\<lambda>c. c \<noteq> CHR ''.'') w = []"
    by (simp_all only: takeWhile_eq_all_conv dropWhile_eq_Nil_conv)
  then show "split_dot w = (w, None)" by (simp only: split_dot_def list.case)
qed

lemma decimal_trim: "s \<noteq> [] \<Longrightarrow> decimal_char (hd s) \<Longrightarrow> decimal_char (last s) \<Longrightarrow> js_trim s = s"
  using decimal_not_white by (intro js_trim_id) auto

text \<open>
  Amounts round trip: parsing what \<open>fromBaseUnits\<close> prints gives the same number of base
  units, for every non-negative amount.
\<close>

theorem base_units_roundtrip:
  assumes "0 \<le> b" shows "toBaseUnits (fromBaseUnits b) = Inr b"
proof -
  define n where "n = nat b"
  define w where "w = show_nat (n div 10 ^ 6)"
  define q where "q = pad_start 6 (CHR ''0'') (show_nat (n mod 10 ^ 6))"
  define f where "f = strip_zeros q"
  have b: "b = int n" using assms by (simp add: n_def)
  have str: "fromBaseUnits b = w @ (if f \<noteq> [] then CHR ''.'' # f else [])"
  proof -
    have "int n div 10 ^ 6 = int (n div 10 ^ 6)" "int n mod 10 ^ 6 = int (n mod 10 ^ 6)"
      by (simp_all add: zdiv_int zmod_int)
    then show ?thesis
      by (simp add: fromBaseUnits_def Let_def USDC_UNIT_def USDC_DECIMALS_def b
          w_def q_def f_def del: power_numeral)
  qed
  have w: "\<forall>c \<in> set w. decimal_char c" "w \<noteq> []" by (simp_all add: w_def show_nat_decimal)
  have lenq: "length q = 6"
    unfolding q_def by (intro length_pad_start length_show_nat) simp_all
  have q: "\<forall>c \<in> set q. decimal_char c" unfolding q_def by (rule pad_show_decimal)
  then have f: "\<forall>c \<in> set f. decimal_char c" using set_strip_zeros [of q] by (auto simp: f_def)
  have pad: "pad_end 6 (CHR ''0'') f = q" unfolding f_def by (rule pad_end_strip [OF lenq])
  have lenf: "length f \<le> 6"
    using pad lenq by (metis length_append le_add1 pad_end_def)
  have val: "digits_value w = int (n div 10 ^ 6)" "digits_value q = int (n mod 10 ^ 6)"
    by (simp_all add: digits_value_def w_def q_def parse_show_nat)
  have sum: "int (n div 10 ^ 6) * 10 ^ 6 + int (n mod 10 ^ 6) = b"
    by (simp add: b zdiv_int zmod_int)
  have digits: "list_all is_digit w" "list_all is_digit f"
    using w f is_digit_decimal by (auto simp: list_all_iff)
  show ?thesis
  proof (cases "f = []")
    case True
    have "js_trim w = w" by (rule decimal_trim) (use w in auto)
    then show ?thesis
      using True str w val pad sum digits
      by (simp add: toBaseUnits_def Let_def positive_decimal_def split_dot_decimal USDC_DECIMALS_def USDC_UNIT_def)
  next
    case False
    have "js_trim (w @ CHR ''.'' # f) = w @ CHR ''.'' # f"
      by (rule decimal_trim) (use w f False in auto)
    then show ?thesis
      using False str w val pad sum digits lenf
      by (simp add: toBaseUnits_def Let_def positive_decimal_def split_dot_decimal USDC_DECIMALS_def USDC_UNIT_def)
  qed
qed

lemma base_units_roundtrip_witness: "toBaseUnits (fromBaseUnits 1500000) = Inr 1500000"
  by (rule base_units_roundtrip) simp

text \<open>
  The execute gate never downgrades and never opens by accident: it lets a run sign
  transactions only in execute mode, with an account injected and the confirmation variable
  set to \<open>yes\<close>, and a request for execute mode that lacks either is an error.
\<close>

theorem gateMode_opens_only_with_consent:
  "(gateMode mode account env = Inr (m, True) \<longleftrightarrow>
      mode = ''execute'' \<and> m = ''execute'' \<and> account \<noteq> None \<and> map_of env EXECUTE_ENV_VAR = Some EXECUTE_ENV_VALUE)
   \<and> (gateMode ''execute'' account env = Inr (m, signs) \<longrightarrow> signs)"
  by (auto simp: gateMode_def Let_def)

lemma gateMode_opens_only_with_consent_witness:
  "gateMode ''execute'' (Some ''0xa'') [(EXECUTE_ENV_VAR, ''yes'')] = Inr (''execute'', True)"
  using gateMode_opens_only_with_consent
    [of "''execute''" "Some ''0xa''" "[(EXECUTE_ENV_VAR, ''yes'')]" "''execute''" True]
  by (simp add: EXECUTE_ENV_VALUE_def)

section \<open>Nothing key-shaped is printed\<close>

lemma match_url_colon: "match_url s = Some (t, r) \<Longrightarrow> CHR '':'' \<in> set t"
  by (auto simp: match_url_def Let_def split: if_splits)

lemma replace_urls_colon: "replace_urls prev s = s \<or> CHR '':'' \<in> set (replace_urls prev s)"
  by (induction prev s rule: replace_urls.induct)
     (auto split: option.splits if_splits dest: match_url_colon)

lemma colon_not_hex: "CHR '':'' \<in> set s \<Longrightarrow> \<not> hex_string n s"
proof
  assume c: "CHR '':'' \<in> set s" "hex_string n s"
  then have "CHR '':'' \<in> set (take 2 s) \<or> CHR '':'' \<in> set (drop 2 s)"
    by (metis Un_iff append_take_drop_id set_append)
  with c(2) show False by (auto simp: hex_string_def list_all_iff hex_char_def)
qed

lemma redactUrls_not_hex: "\<not> hex_string n s \<Longrightarrow> \<not> hex_string n (redactUrls s)"
  using replace_urls_colon [of None s] colon_not_hex by (auto simp: redactUrls_def)

text \<open>A value is clean: no 32-byte hex string, and nothing under a key-like name but the marker.\<close>

fun clean :: "jsval \<Rightarrow> bool" and clean_list :: "jsval list \<Rightarrow> bool"
  and clean_fields :: "(string \<times> jsval) list \<Rightarrow> bool" where
  "clean (JStr s) = (\<not> hex_string 64 s)"
| "clean (JArr vs) = clean_list vs"
| "clean (JObj fs) = clean_fields fs"
| "clean v = True"
| "clean_list [] = True"
| "clean_list (v # vs) = (clean v \<and> clean_list vs)"
| "clean_fields [] = True"
| "clean_fields ((k, v) # fs) =
     ((keyish k \<longrightarrow> v = JStr ''[redacted]'') \<and> clean v \<and> clean_fields fs)"

text \<open>Signers hold a public address, which is never 32 bytes long.\<close>

fun addresses_ok :: "jsval \<Rightarrow> bool" and addresses_ok_list :: "jsval list \<Rightarrow> bool"
  and addresses_ok_fields :: "(string \<times> jsval) list \<Rightarrow> bool" where
  "addresses_ok (JArr vs) = addresses_ok_list vs"
| "addresses_ok (JObj fs) =
     ((case map_of fs ''address'' of Some (JStr a) \<Rightarrow> isSigner fs \<longrightarrow> is_address a | _ \<Rightarrow> True)
      \<and> addresses_ok_fields fs)"
| "addresses_ok v = True"
| "addresses_ok_list [] = True"
| "addresses_ok_list (v # vs) = (addresses_ok v \<and> addresses_ok_list vs)"
| "addresses_ok_fields [] = True"
| "addresses_ok_fields ((k, v) # fs) = (addresses_ok v \<and> addresses_ok_fields fs)"

lemma address_not_hex64: "is_address a \<Longrightarrow> \<not> hex_string 64 a"
  by (simp add: is_address_def hex_string_def)

lemma signer_clean:
  assumes "isSigner fs" "case map_of fs ''address'' of Some (JStr a) \<Rightarrow> isSigner fs \<longrightarrow> is_address a | _ \<Rightarrow> True"
  shows "clean (JObj [(''address'', (case map_of fs ''address'' of Some a \<Rightarrow> a | None \<Rightarrow> JUndefined)),
                     (''_'', JStr ''[account: signer withheld]'')])"
proof -
  obtain a where a: "map_of fs ''address'' = Some (JStr a)"
    using assms(1) by (auto simp: isSigner_def split: option.splits jsval.splits)
  then have "\<not> hex_string 64 a" using assms address_not_hex64 by simp
  moreover have "\<not> keyish ''address''" "\<not> keyish ''_''" "\<not> hex_string 64 ''[account: signer withheld]''"
    by code_simp+
  ultimately show ?thesis using a by simp
qed

lemma redact_markers: "\<not> hex_string 64 ''[deep]''" "\<not> hex_string 64 ''[redacted:32-byte-hex]''"
  "\<not> hex_string 64 ''[redacted]''" "\<not> hex_string 64 ''[fn]''"
  by code_simp+

lemma show_nat_head_length: "hex_string n (show_int i) \<Longrightarrow> False"
proof -
  assume h: "hex_string n (show_int i)"
  then have pre: "take 2 (show_int i) = ''0x''" by (simp add: hex_string_def)
  show False
  proof (cases "i < 0")
    case True
    with pre show False by (simp add: show_int_def numeral_2_eq_2)
  next
    case False
    with pre show False using show_nat_no_prefix [of "nat i"] by (simp add: show_int_def)
  qed
qed

lemma redact_clean_all:
  shows "addresses_ok v \<Longrightarrow> clean (redact v d)"
    and "addresses_ok_list vs \<Longrightarrow> clean_list (redact_list vs d)"
    and "addresses_ok_fields fs \<Longrightarrow> clean_fields (redact_fields fs d)"
proof (induction v d and vs d and fs d rule: redact_redact_list_redact_fields.induct)
  case (1 v d)
  show ?case
  proof (cases "d > 8")
    case True
    then show ?thesis by (simp add: redact_markers del: One_nat_def)
  next
    case False
    show ?thesis
    proof (cases v)
      case (JStr s)
      then show ?thesis using False redactUrls_not_hex by (simp add: redact_markers)
    next
      case (JBig n)
      then show ?thesis using False show_nat_head_length by auto
    next
      case (JArr vs)
      then show ?thesis using 1 False by simp
    next
      case (JObj fs)
      show ?thesis
      proof (cases "isSigner fs")
        case True
        then show ?thesis using 1(3) signer_clean [OF True] JObj False by (simp del: clean.simps)
      next
        case nsig: False
        then show ?thesis using 1(2) [OF False JObj nsig] 1(3) JObj False by simp
      qed
    qed (use False redact_markers in simp_all)
  qed
qed (auto simp: redact_markers)

text \<open>
  Nothing key-shaped reaches a log line: in what \<open>redact\<close> returns there is no bare 32-byte
  hex string at any depth, and under every key-like property name there is only the marker,
  for any value whose signer objects carry a 20-byte public address.
\<close>

theorem redact_hides_secrets:
  assumes "addresses_ok v" shows "clean (redact v depth)"
  by (rule redact_clean_all(1) [OF assms])

definition secret_value :: jsval where
  "secret_value = JObj [(''account'', JObj [(''privateKey'', JStr ''0x01''), (''note'', JStr ''u https://rpc.io/v2/KEY'')])]"

lemma redact_hides_secrets_witness:
  "clean (redact secret_value 0)
   \<and> redact secret_value 0 = JObj [(''account'', JObj [(''privateKey'', JStr ''[redacted]''), (''note'', JStr ''u https://rpc.io'')])]"
proof
  have "addresses_ok secret_value" by code_simp
  then show "clean (redact secret_value 0)" by (rule redact_hides_secrets)
qed code_simp

end
