(* ===== verification/Agent_Policy.thy ===== *)
theory Agent_Policy
  imports Agent_Config
begin

text \<open>
  The decision layer of the reference agent, \<open>packages/reference-agent/src/policy.mjs\<close>, and its
  evaluators, \<open>evaluators.mjs\<close>. A check is its name and whether it passed; the texts that only
  explain a verdict are not modelled. A value that could not be read is \<open>None\<close>. Configured USDC
  amounts are decimal strings, so a decision may fail with the configuration error of
  \<open>toBaseUnits\<close>.
\<close>

section \<open>What the agent reads\<close>

record self_read =
  self_shares :: "int option"
  pendingAmount :: "int option"
  pendingAvailableAt :: "int option"
  queuedExitSharesRead :: "int option"
  exitFeeBpsRead :: "int option"

record chain_read =
  ch_vault :: string
  ch_minDepositUsdc :: "int option"
  ch_capacityCapUsdc :: "int option"
  ch_totalAssetsUsdc :: "int option"
  ch_totalPendingUsdc :: "int option"
  ch_idleUsdc :: "int option"
  ch_navReadable :: "bool option"
  ch_navPerShareWad :: "int option"
  ch_self :: self_read

record vault_summary =
  vs_operatorId :: "int option"
  vs_depth :: "int option"

record operator_row =
  or_netRealizedUsdc :: "string option"
  or_lifetimeGainUsdc :: "string option"
  or_lifetimeLossUsdc :: "string option"

record fee_read =
  stackedPerfFeeBps :: "int option"
  stackedExitFeeCapBps :: "int option"
  fee_depth :: "int option"

datatype gov_status = GNone | GActive | GPassed | GDefeated | GExecuted | GExpired | GUnknown

record gov_proposal =
  gp_pid :: int
  gp_ptype :: int
  gp_status :: gov_status
  gp_commitDeadline :: int
  gp_revealDeadline :: int
  gp_executableAt :: int
  gp_expiresAt :: int
  gp_actionHash :: string

record gov_read =
  gr_proposal :: "gov_proposal option"
  gr_activePid :: "int option"
  gr_available :: "bool option"
  gr_hasOutstandingCommit :: bool
  gr_commitUnknown :: bool
  gr_revealed :: "bool option"
  gr_hasPendingExecution :: "bool option"

type_synonym check = "string \<times> bool"

abbreviation all_ok :: "check list \<Rightarrow> bool" where
  "all_ok cs \<equiv> list_all snd cs"

definition BPS :: int where
  "BPS = 10000"

definition asBigInt :: "string option \<Rightarrow> int option" where
  "asBigInt v = (case v of None \<Rightarrow> None | Some s \<Rightarrow> if s = [] then None else bigint_of_string s)"

abbreviation or_zero :: "int option \<Rightarrow> int" where
  "or_zero x \<equiv> (case x of None \<Rightarrow> 0 | Some n \<Rightarrow> n)"

section \<open>The record of outside members\<close>

record member_realization =
  mr_member :: string
  mr_gain :: int
  mr_loss :: int

record realization_record =
  rr_complete :: bool
  rr_members :: "member_realization list"

record tally_side =
  ts_gain :: int
  ts_loss :: int
  ts_members :: int

record track_record =
  tr_complete :: bool
  tr_included :: tally_side
  tr_net :: int
  tr_excluded :: tally_side
  tr_reconciles :: "bool option"

definition add_side :: "tally_side \<Rightarrow> member_realization \<Rightarrow> tally_side" where
  "add_side s m = \<lparr> ts_gain = ts_gain s + mr_gain m, ts_loss = ts_loss s + mr_loss m,
                     ts_members = ts_members s + 1 \<rparr>"

definition side_of :: "member_realization list \<Rightarrow> tally_side" where
  "side_of ms = foldl add_side \<lparr>ts_gain = 0, ts_loss = 0, ts_members = 0\<rparr> ms"

definition row_gain :: "operator_row option \<Rightarrow> int option" where
  "row_gain row = (case row of None \<Rightarrow> None | Some r \<Rightarrow> asBigInt (or_lifetimeGainUsdc r))"

definition row_loss :: "operator_row option \<Rightarrow> int option" where
  "row_loss row = (case row of None \<Rightarrow> None | Some r \<Rightarrow> asBigInt (or_lifetimeLossUsdc r))"

definition row_net :: "operator_row option \<Rightarrow> int option" where
  "row_net row = (case row of None \<Rightarrow> None | Some r \<Rightarrow> asBigInt (or_netRealizedUsdc r))"

definition outsideTrackRecord ::
  "realization_record option \<Rightarrow> string list \<Rightarrow> operator_row option \<Rightarrow> track_record option" where
  "outsideTrackRecord rec disclosed registryRow = (case rec of
      None \<Rightarrow> None
    | Some r \<Rightarrow>
        (let listed = map lc disclosed;
             included = side_of (filter (\<lambda>m. lc (mr_member m) \<notin> set listed) (rr_members r));
             excluded = side_of (filter (\<lambda>m. lc (mr_member m) \<in> set listed) (rr_members r));
             reconciles = (if rr_complete r
                then (case (row_gain registryRow, row_loss registryRow) of
                        (Some g, Some l) \<Rightarrow>
                          Some (ts_gain included + ts_gain excluded = g \<and> ts_loss included + ts_loss excluded = l)
                      | _ \<Rightarrow> None)
                else None)
         in Some \<lparr> tr_complete = rr_complete r, tr_included = included,
                   tr_net = ts_gain included - ts_loss included,
                   tr_excluded = excluded, tr_reconciles = reconciles \<rparr>))"

section \<open>Joining\<close>

record join_decision =
  jd_join :: bool
  jd_checks :: "check list"
  jd_depositUsdc :: int

definition operator_check :: "join_config \<Rightarrow> vault_summary \<Rightarrow> int option \<Rightarrow> check" where
  "operator_check cfg vault registryOperatorId =
     (let apiOpId = or_zero (vs_operatorId vault) in
      (''operator-attested'',
       (case registryOperatorId of
          Some r \<Rightarrow> if r \<noteq> apiOpId then False
                    else if requireAttestedOperator cfg then r \<noteq> 0 else True
        | None \<Rightarrow> if requireAttestedOperator cfg then apiOpId \<noteq> 0 else True)))"

definition net_check :: "join_config \<Rightarrow> int \<Rightarrow> operator_row option \<Rightarrow> check" where
  "net_check cfg minNet row =
     (''operator-net-positive'',
      (case row_net row of
         None \<Rightarrow> False
       | Some net \<Rightarrow>
           if requireProvenOperator cfg \<and> or_zero (row_gain row) = 0 \<and> or_zero (row_loss row) = 0
           then False else net \<ge> minNet))"

definition outside_checks :: "join_config \<Rightarrow> int \<Rightarrow> track_record option \<Rightarrow> check list" where
  "outside_checks cfg minNet outside = (case outside of
      None \<Rightarrow> []
    | Some t \<Rightarrow>
        [(''outside-track-record'',
          if \<not> tr_complete t then False
          else let hasRecord = (ts_gain (tr_included t) > 0 \<or> ts_loss (tr_included t) > 0)
               in tr_net t \<ge> minNet \<and> (\<not> requireProvenOperator cfg \<or> hasRecord))])"

definition capacity_check :: "chain_read \<Rightarrow> int \<Rightarrow> int \<Rightarrow> check" where
  "capacity_check chain deposit minFree =
     (''capacity-available'',
      (case ch_capacityCapUsdc chain of
         None \<Rightarrow> False
       | Some cap \<Rightarrow>
           if cap = 0 then True
           else (case (ch_totalAssetsUsdc chain, ch_totalPendingUsdc chain) of
               (Some assets, Some pending) \<Rightarrow>
                 (let used = assets + pending; free = (if cap > used then cap - used else 0)
                  in free \<ge> deposit \<and> free \<ge> minFree)
             | _ \<Rightarrow> False)))"

definition fees_check :: "join_config \<Rightarrow> chain_read \<Rightarrow> fee_read \<Rightarrow> check" where
  "fees_check cfg chain fees =
     (''fees-in-bounds'',
      (case (stackedPerfFeeBps fees,
             case stackedExitFeeCapBps fees of Some c \<Rightarrow> Some c | None \<Rightarrow> exitFeeBpsRead (ch_self chain)) of
         (Some perf, Some exitCap) \<Rightarrow> perf \<le> maxPerfFeeBps cfg \<and> exitCap \<le> maxExitFeeBps cfg
       | _ \<Rightarrow> False))"

definition depth_check :: "join_config \<Rightarrow> vault_summary \<Rightarrow> fee_read \<Rightarrow> check" where
  "depth_check cfg vault fees =
     (''depth-within-limit'',
      (case (case fee_depth fees of Some d \<Rightarrow> Some d | None \<Rightarrow> vs_depth vault) of
         None \<Rightarrow> False | Some d \<Rightarrow> d \<le> maxDepth cfg))"

definition join_checks ::
  "join_config \<Rightarrow> vault_summary \<Rightarrow> chain_read \<Rightarrow> operator_row option \<Rightarrow> int option \<Rightarrow> fee_read \<Rightarrow> int
   \<Rightarrow> track_record option \<Rightarrow> int \<Rightarrow> int \<Rightarrow> int \<Rightarrow> int \<Rightarrow> check list" where
  "join_checks cfg vault chain row registryOperatorId fees heldVaultCount outside deposit ceiling minNet minFree =
     (if profile cfg = Some UNPROVEN_OPERATOR_PROFILE
      then [(''profile-unproven-operator'', True),
            (''deposit-within-ceiling'',
             (case ch_minDepositUsdc chain of None \<Rightarrow> False | Some m \<Rightarrow> m \<le> ceiling))] else [])
     @ [operator_check cfg vault registryOperatorId, net_check cfg minNet row]
     @ outside_checks cfg minNet outside
     @ [capacity_check chain deposit minFree, fees_check cfg chain fees, depth_check cfg vault fees,
        (''concurrency-limit'', heldVaultCount < maxConcurrentVaults cfg),
        (''nav-readable'', ch_navReadable chain = Some True),
        (''meets-min-deposit'',
         (case ch_minDepositUsdc chain of None \<Rightarrow> False | Some m \<Rightarrow> deposit \<ge> m))]"

definition decideJoin ::
  "join_config \<Rightarrow> vault_summary \<Rightarrow> chain_read \<Rightarrow> operator_row option \<Rightarrow> int option \<Rightarrow> fee_read \<Rightarrow> int
   \<Rightarrow> track_record option \<Rightarrow> config_error + join_decision" where
  "decideJoin cfg vault chain row registryOperatorId fees heldVaultCount outside =
     (let pinned = (profile cfg = Some UNPROVEN_OPERATOR_PROFILE) in
      bindE (if pinned then Inr (or_zero (ch_minDepositUsdc chain)) else toBaseUnits (depositUsdc cfg)) (\<lambda>deposit.
      bindE (if pinned then toBaseUnits (depositUsdc cfg) else Inr 0) (\<lambda>ceiling.
      bindE (toBaseUnits (minOperatorNetRealizedUsdc cfg)) (\<lambda>minNet.
      bindE (toBaseUnits (minFreeCapacityUsdc cfg)) (\<lambda>minFree.
      let checks = join_checks cfg vault chain row registryOperatorId fees heldVaultCount outside
                     deposit ceiling minNet minFree
      in Inr \<lparr> jd_join = (filter (\<lambda>c. \<not> snd c) checks = []), jd_checks = checks, jd_depositUsdc = deposit \<rparr>)))))"

section \<open>Leaving\<close>

record exit_decision =
  ed_exit :: bool
  ed_triggers :: "check list"
  ed_modeF :: bool

definition drop_bps :: "int \<Rightarrow> int \<Rightarrow> int" where
  "drop_bps entry nowNav = (if entry = 0 then 0 else if nowNav \<ge> entry then 0 else bdiv ((entry - nowNav) * BPS) entry)"

definition decideExit ::
  "exit_config \<Rightarrow> chain_read \<Rightarrow> int option \<Rightarrow> operator_row option \<Rightarrow> gov_read \<Rightarrow> exit_decision" where
  "decideExit cfg chain entryNav row governance =
     (let triggers =
        [(''drawdown'', (case (ch_navPerShareWad chain, entryNav) of
             (Some nav, Some entry) \<Rightarrow> drop_bps entry nav \<ge> maxDrawdownBps cfg | _ \<Rightarrow> False))]
        @ (if onOracleFreezeWarning cfg then [(''oracle-freeze'', ch_navReadable chain = Some False)] else [])
        @ (if onOperatorNetNegative cfg
           then [(''operator-net-negative'', (case row_net row of None \<Rightarrow> False | Some n \<Rightarrow> n < 0))] else [])
      in \<lparr> ed_exit = (filter snd triggers \<noteq> []), ed_triggers = triggers,
           ed_modeF = (gr_hasPendingExecution governance = Some True) \<rparr>)"

definition WAD :: int where
  "WAD = 10 ^ 18"

definition fmtWad :: "int \<Rightarrow> string" where
  "fmtWad b = show_int (bdiv b WAD) @ ''.''
     @ pad_start 4 (CHR ''0'') (show_int (bdiv (bmod b WAD * 10000) WAD))"

section \<open>Evaluators\<close>

record vote_config =
  vc_driftBandBps :: int
  vc_maxDriftBandBps :: int
  vc_voteAgainstWhenUnknown :: bool
  vc_proposalTypes :: "int list"
  vc_knownActions :: "(string, string) jsmap"
  vc_requireKnownAction :: bool

text \<open>\<open>support\<close>: for, against, or no view.\<close>

type_synonym evaluator = "gov_proposal \<Rightarrow> chain_read \<Rightarrow> vote_config \<Rightarrow> bool option"

definition naiveDriftBand :: evaluator where
  "naiveDriftBand proposal chain cfg =
     (let action = (if gp_actionHash proposal = [] then None
                    else map_of (vc_knownActions cfg) (lc (gp_actionHash proposal)))
      in if vc_requireKnownAction cfg \<and> action = None then None
         else (case (ch_totalAssetsUsdc chain, ch_idleUsdc chain) of
             (Some tot, Some idle) \<Rightarrow>
               if tot = 0 then None
               else let driftBps = bdiv (idle * BPS) tot in
                 if driftBps > vc_maxDriftBandBps cfg then Some False
                 else if driftBps < vc_driftBandBps cfg then Some False
                 else Some True
           | _ \<Rightarrow> None))"

definition alwaysAbstain :: evaluator where
  "alwaysAbstain proposal chain cfg = None"

definition EVALUATORS :: "(string \<times> evaluator) list" where
  "EVALUATORS = [(''naive-drift-band'', naiveDriftBand), (''always-abstain'', alwaysAbstain)]"

text \<open>A name, or an object that implements the contract.\<close>

datatype evaluator_ref = ByName string | Custom evaluator

datatype policy_error = UnknownEvaluator string

fun resolveEvaluator :: "evaluator_ref \<Rightarrow> policy_error + evaluator" where
  "resolveEvaluator (Custom f) = Inr f"
| "resolveEvaluator (ByName n) = ok_or (UnknownEvaluator n) (map_of EVALUATORS n)"

section \<open>Voting\<close>

datatype vote_phase = PhNone | PhCommit | PhReveal | PhClosed

definition votePhase :: "gov_proposal option \<Rightarrow> int \<Rightarrow> vote_phase" where
  "votePhase proposal nowSec = (case proposal of
      None \<Rightarrow> PhNone
    | Some p \<Rightarrow> if nowSec < gp_commitDeadline p then PhCommit
               else if nowSec < gp_revealDeadline p then PhReveal else PhClosed)"

text \<open>\<open>VoteReveal urgent secondsToDeadline\<close>; the flag of \<open>VoteNone\<close> is \<open>degraded\<close>.\<close>

datatype vote_decision = VoteNone bool | VoteReveal bool int | VoteCommit bool

definition decideVote ::
  "gov_read \<Rightarrow> chain_read \<Rightarrow> int option \<Rightarrow> int \<Rightarrow> vote_config \<Rightarrow> evaluator_ref \<Rightarrow> timing_config
   \<Rightarrow> policy_error + vote_decision" where
  "decideVote g chain votingWeight nowSec cfg evaluatorRef timing = (case gr_proposal g of
      None \<Rightarrow> Inr (VoteNone (or_zero (gr_activePid g) > 0))
    | Some p \<Rightarrow>
        (let phase = votePhase (Some p) nowSec in
         if gr_hasOutstandingCommit g then
           (if phase = PhCommit then Inr (VoteNone False)
            else if phase = PhReveal then
              let remaining = gp_revealDeadline p - nowSec
              in Inr (VoteReveal (remaining \<le> revealSafetyMarginSec timing) remaining)
            else Inr (VoteNone False))
         else if gr_commitUnknown g then Inr (VoteNone True)
         else if phase \<noteq> PhCommit then Inr (VoteNone False)
         else if gr_revealed g = Some True then Inr (VoteNone False)
         else if gp_ptype p \<notin> set (vc_proposalTypes cfg) then Inr (VoteNone False)
         else if gp_status p \<noteq> GActive then Inr (VoteNone False)
         else if or_zero votingWeight = 0 then Inr (VoteNone False)
         else bindE (resolveEvaluator evaluatorRef) (\<lambda>evaluate.
           (case evaluate p chain cfg of
              None \<Rightarrow> if vc_voteAgainstWhenUnknown cfg then Inr (VoteCommit False) else Inr (VoteNone False)
            | Some support \<Rightarrow> Inr (VoteCommit support)))))"

section \<open>Entry, settlement and the crank\<close>

datatype entry_decision = EntryNone | EntryActivate int | EntrySkipWindow int | EntryWait int

definition decideEntry :: "chain_read \<Rightarrow> int \<Rightarrow> timing_config \<Rightarrow> bool \<Rightarrow> entry_decision" where
  "decideEntry chain nowSec timing allowSkipWindow =
     (case pendingAmount (ch_self chain) of
        None \<Rightarrow> EntryNone
      | Some amount \<Rightarrow>
          if amount = 0 then EntryNone
          else let dueAt = or_zero (pendingAvailableAt (ch_self chain)) + activateGraceSec timing in
            if nowSec \<ge> dueAt then EntryActivate dueAt
            else if allowSkipWindow then EntrySkipWindow nowSec
            else EntryWait dueAt)"

datatype settle_decision = SettleNone | SettleQueuedExit

definition decideSettle :: "chain_read \<Rightarrow> gov_read \<Rightarrow> settle_decision" where
  "decideSettle chain g =
     (if or_zero (queuedExitSharesRead (ch_self chain)) = 0 then SettleNone
      else if gr_hasPendingExecution g = Some True then SettleNone
      else SettleQueuedExit)"

definition CRANK_EXECUTE_PTYPE :: int where
  "CRANK_EXECUTE_PTYPE = 0"

text \<open>
  \<open>CrankExecute pid ptype actionHash payload urgent\<close>; the flag of \<open>CrankNone\<close> is \<open>degraded\<close>. The
  checks are the ones listed when the verdict is taken.
\<close>

datatype crank_action =
    CrankNone bool
  | CrankFinalize int
  | CrankMarkExpired int
  | CrankExecute int int string string bool

definition crank_now :: "int option \<Rightarrow> int \<Rightarrow> timing_config \<Rightarrow> int" where
  "crank_now chainNowSec nowSec timing = (case chainNowSec of
      Some t \<Rightarrow> t | None \<Rightarrow> nowSec - activateGraceSec timing)"

definition crank_verdict :: "check list \<Rightarrow> crank_action \<Rightarrow> crank_action \<times> check list" where
  "crank_verdict checks action = (if all_ok checks then (action, checks) else (CrankNone False, checks))"

definition decideCrank ::
  "gov_read \<Rightarrow> int option \<Rightarrow> int \<Rightarrow> timing_config \<Rightarrow> crank_config \<Rightarrow> (string, string) jsmap \<Rightarrow> bool
   \<Rightarrow> crank_action \<times> check list" where
  "decideCrank g chainNowSec nowSec timing cfg payloads held =
     (if scope cfg = ''off'' then (CrankNone False, [(''scope'', False)])
      else
      let inScope = (scope cfg = ''all'' \<or> held); c0 = [(''scope'', inScope)] in
      if \<not> inScope then (CrankNone False, c0)
      else if gr_available g = Some False then (CrankNone False, c0)
      else (case gr_proposal g of
        None \<Rightarrow> (CrankNone (or_zero (gr_activePid g) > 0), c0)
      | Some p \<Rightarrow>
        let now0 = crank_now chainNowSec nowSec timing; c1 = c0 @ [(''clock'', True)] in
        (case gp_status p of
           GActive \<Rightarrow>
             crank_verdict (c1 @ [(''status-active'', True),
               (''reveal-window-over'', now0 \<ge> gp_revealDeadline p),
               (''finalize-enabled'', crankFinalize cfg)]) (CrankFinalize (gp_pid p))
         | GPassed \<Rightarrow>
             if now0 > gp_expiresAt p
             then crank_verdict (c1 @ [(''status-passed'', True), (''window-over'', True),
                    (''mark-expired-enabled'', crankMarkExpired cfg)]) (CrankMarkExpired (gp_pid p))
             else
               let payload = map_of payloads (lc (gp_actionHash p)) in
               crank_verdict (c1 @ [(''status-passed'', True),
                 (''timelock-elapsed'', now0 \<ge> gp_executableAt p), (''window-open'', True),
                 (''execute-enabled'', crankExecute cfg),
                 (''rebalance-only'', gp_ptype p = CRANK_EXECUTE_PTYPE),
                 (''payload-known'', payload \<noteq> None)])
                 (CrankExecute (gp_pid p) (gp_ptype p) (gp_actionHash p)
                    (case payload of None \<Rightarrow> [] | Some x \<Rightarrow> x)
                    (gp_expiresAt p - now0 \<le> revealSafetyMarginSec timing))
         | GUnknown \<Rightarrow> (CrankNone True, c1)
         | _ \<Rightarrow> (CrankNone False, c1))))"

end
