(* ===== verification/Agent_Policy_Props.thy ===== *)
theory Agent_Policy_Props
  imports Agent_Policy
begin

text \<open>
  What the decisions of the reference agent guarantee: no deposit outside the configured limits,
  a disclosed-address list that can only tighten the verdict, no vote outside its window, an
  owed reveal that is never dropped, and no crank call the Governance contract would refuse.
\<close>

section \<open>Joining\<close>

lemma filter_not_snd: "filter (\<lambda>c. \<not> snd c) cs = [] \<longleftrightarrow> all_ok cs"
  by (induction cs) auto

lemma operator_check_ok: "snd (operator_check cfg v r) \<longleftrightarrow>
   (r = None \<or> r = Some (or_zero (vs_operatorId v))) \<and> (requireAttestedOperator cfg \<longrightarrow> or_zero (vs_operatorId v) \<noteq> 0)"
  by (auto simp: operator_check_def Let_def split: option.splits)

lemma capacity_check_ok: "snd (capacity_check ch dep minFree) \<Longrightarrow> 0 < dep \<Longrightarrow> ch_capacityCapUsdc ch = Some cap \<Longrightarrow> cap \<noteq> 0 \<Longrightarrow>
   (\<exists>a q. ch_totalAssetsUsdc ch = Some a \<and> ch_totalPendingUsdc ch = Some q \<and> a + q + dep \<le> cap)"
  by (auto simp: capacity_check_def Let_def split: option.splits if_splits)

abbreviation pinned :: "join_config \<Rightarrow> bool" where
  "pinned cfg \<equiv> profile cfg = Some UNPROVEN_OPERATOR_PROFILE"

lemma decideJoin_Inr:
  assumes "decideJoin cfg v ch row reg fees held outside = Inr d"
  obtains deposit ceiling minNet minFree where
    "jd_depositUsdc d = deposit"
    "jd_join d = all_ok (join_checks cfg v ch row reg fees held outside deposit ceiling minNet minFree)"
    "toBaseUnits (minOperatorNetRealizedUsdc cfg) = Inr minNet" "toBaseUnits (minFreeCapacityUsdc cfg) = Inr minFree"
    "(if pinned cfg then Inr (or_zero (ch_minDepositUsdc ch)) else toBaseUnits (depositUsdc cfg)) = Inr deposit"
    "(if pinned cfg then toBaseUnits (depositUsdc cfg) else Inr 0) = Inr ceiling"
proof -
  obtain deposit ceiling minNet minFree where
    *: "(if pinned cfg then Inr (or_zero (ch_minDepositUsdc ch)) else toBaseUnits (depositUsdc cfg)) = Inr deposit"
    "(if pinned cfg then toBaseUnits (depositUsdc cfg) else Inr 0) = Inr ceiling"
    "toBaseUnits (minOperatorNetRealizedUsdc cfg) = Inr minNet" "toBaseUnits (minFreeCapacityUsdc cfg) = Inr minFree"
    and d: "Inr d = (Inr \<lparr> jd_join = (filter (\<lambda>c. \<not> snd c) (join_checks cfg v ch row reg fees held outside deposit ceiling minNet minFree) = []),
       jd_checks = join_checks cfg v ch row reg fees held outside deposit ceiling minNet minFree, jd_depositUsdc = deposit \<rparr> :: config_error + join_decision)"
    using assms unfolding decideJoin_def Let_def bindE_Inr by metis
  show thesis
    by (rule that [OF _ _ *(3,4,1,2)]) (use d in \<open>simp_all add: filter_not_snd\<close>)
qed

lemma decideJoin_Inr_intro:
  assumes "toBaseUnits (minOperatorNetRealizedUsdc cfg) = Inr minNet" "toBaseUnits (minFreeCapacityUsdc cfg) = Inr minFree"
    "(if pinned cfg then Inr (or_zero (ch_minDepositUsdc ch)) else toBaseUnits (depositUsdc cfg)) = Inr deposit"
    "(if pinned cfg then toBaseUnits (depositUsdc cfg) else Inr 0) = Inr ceiling"
  shows "\<exists>d. decideJoin cfg v ch row reg fees held outside = Inr d \<and> jd_depositUsdc d = deposit \<and>
    jd_join d = all_ok (join_checks cfg v ch row reg fees held outside deposit ceiling minNet minFree)"
  using assms by (simp add: decideJoin_def Let_def filter_not_snd)

text \<open>The operator-set limits a join respects.\<close>

definition within_limits ::
  "join_config \<Rightarrow> vault_summary \<Rightarrow> chain_read \<Rightarrow> int option \<Rightarrow> fee_read \<Rightarrow> int \<Rightarrow> int \<Rightarrow> bool" where
  "within_limits cfg v ch reg fees held dep \<longleftrightarrow>
     (requireAttestedOperator cfg \<longrightarrow> or_zero (vs_operatorId v) \<noteq> 0)
     \<and> (reg = None \<or> reg = Some (or_zero (vs_operatorId v)))
     \<and> held < maxConcurrentVaults cfg \<and> ch_navReadable ch = Some True
     \<and> (\<exists>perf. stackedPerfFeeBps fees = Some perf \<and> perf \<le> maxPerfFeeBps cfg)
     \<and> (\<exists>dp. (fee_depth fees = Some dp \<or> fee_depth fees = None \<and> vs_depth v = Some dp) \<and> dp \<le> maxDepth cfg)
     \<and> (\<exists>m. ch_minDepositUsdc ch = Some m \<and> m \<le> dep)
     \<and> (\<exists>cap. ch_capacityCapUsdc ch = Some cap \<and> (cap = 0 \<or> (\<exists>a q. ch_totalAssetsUsdc ch = Some a
           \<and> ch_totalPendingUsdc ch = Some q \<and> (0 < dep \<longrightarrow> a + q + dep \<le> cap))))"

text \<open>
  A vault is joined only inside every limit: the operator attested at the registry when
  that is required, and never on a disagreement between registry and API; stacked fees, depth
  and the number of vaults held under their ceilings; a readable NAV; at least the vault's
  minimum and never more than the configured \<open>depositUsdc\<close>; and the deposit fits under the
  capacity cap together with the assets and the pending deposits.
\<close>

theorem decideJoin_respects_limits:
  assumes "decideJoin cfg v ch row reg fees held outside = Inr d" and "jd_join d"
  shows "within_limits cfg v ch reg fees held (jd_depositUsdc d)
    \<and> (\<exists>ceiling. toBaseUnits (depositUsdc cfg) = Inr ceiling \<and> jd_depositUsdc d \<le> ceiling)"
proof -
  obtain deposit ceiling minNet minFree where d: "jd_depositUsdc d = deposit"
    "jd_join d = all_ok (join_checks cfg v ch row reg fees held outside deposit ceiling minNet minFree)"
    "(if pinned cfg then Inr (or_zero (ch_minDepositUsdc ch)) else toBaseUnits (depositUsdc cfg)) = Inr deposit"
    "(if pinned cfg then toBaseUnits (depositUsdc cfg) else Inr 0) = Inr ceiling"
    by (rule decideJoin_Inr [OF assms(1)])
  note ok = assms(2) [unfolded d(2) join_checks_def]
  have cap: "snd (capacity_check ch deposit minFree)" and op: "snd (operator_check cfg v reg)"
    using ok by simp_all
  have "\<exists>c. toBaseUnits (depositUsdc cfg) = Inr c \<and> deposit \<le> c"
    using ok d(3,4) by (cases "pinned cfg") (auto split: option.splits)
  moreover have "\<exists>cap. ch_capacityCapUsdc ch = Some cap \<and> (cap = 0 \<or> (\<exists>a q. ch_totalAssetsUsdc ch = Some a
           \<and> ch_totalPendingUsdc ch = Some q \<and> (0 < deposit \<longrightarrow> a + q + deposit \<le> cap)))"
    using cap by (auto simp: capacity_check_def Let_def split: option.splits if_splits)
  moreover have "\<exists>perf. stackedPerfFeeBps fees = Some perf \<and> perf \<le> maxPerfFeeBps cfg"
    using ok by (auto simp: fees_check_def split: option.splits)
  moreover have "\<exists>dp. (fee_depth fees = Some dp \<or> fee_depth fees = None \<and> vs_depth v = Some dp) \<and> dp \<le> maxDepth cfg"
    using ok by (auto simp: depth_check_def split: option.splits)
  moreover have "\<exists>m. ch_minDepositUsdc ch = Some m \<and> m \<le> deposit"
    using ok by (auto split: option.splits)
  moreover have "held < maxConcurrentVaults cfg \<and> ch_navReadable ch = Some True"
    using ok by simp
  ultimately show ?thesis
    using op [unfolded operator_check_ok] unfolding within_limits_def d(1) by blast
qed

text \<open>
  The record of outside members only tightens: whenever a vault is joined with that record
  applied, it is joined, for the same deposit, without it.
\<close>

theorem outside_record_only_tightens:
  assumes "decideJoin cfg v ch row reg fees held (Some t) = Inr d" and "jd_join d"
  shows "\<exists>d'. decideJoin cfg v ch row reg fees held None = Inr d' \<and> jd_join d' \<and> jd_depositUsdc d' = jd_depositUsdc d"
proof -
  obtain deposit ceiling minNet minFree where d: "jd_depositUsdc d = deposit"
    "jd_join d = all_ok (join_checks cfg v ch row reg fees held (Some t) deposit ceiling minNet minFree)"
    and c: "toBaseUnits (minOperatorNetRealizedUsdc cfg) = Inr minNet" "toBaseUnits (minFreeCapacityUsdc cfg) = Inr minFree"
    "(if pinned cfg then Inr (or_zero (ch_minDepositUsdc ch)) else toBaseUnits (depositUsdc cfg)) = Inr deposit"
    "(if pinned cfg then toBaseUnits (depositUsdc cfg) else Inr 0) = Inr ceiling"
    by (rule decideJoin_Inr [OF assms(1)])
  have "all_ok (join_checks cfg v ch row reg fees held None deposit ceiling minNet minFree)"
    using assms(2) d(2) by (simp add: join_checks_def outside_checks_def)
  then show ?thesis using decideJoin_Inr_intro [OF c, of v row reg fees held None] d(1) by auto
qed

definition sample_join :: join_config where
  "sample_join = \<lparr> requireAttestedOperator = True, minOperatorNetRealizedUsdc = ''0'',
     requireProvenOperator = True, maxPerfFeeBps = 1000, maxExitFeeBps = 100, depositUsdc = ''25'',
     minFreeCapacityUsdc = ''25'', maxDepth = 0, maxConcurrentVaults = 3, profile = None,
     disclosedAddresses = [] \<rparr>"

definition sample_chain_read :: chain_read where
  "sample_chain_read = \<lparr> ch_vault = ''0xv'', ch_minDepositUsdc = Some 1000000, ch_capacityCapUsdc = Some 100000000,
     ch_totalAssetsUsdc = Some 40000000, ch_totalPendingUsdc = Some 0, ch_idleUsdc = Some 4000000,
     ch_navReadable = Some True, ch_navPerShareWad = Some (10 ^ 18),
     ch_self = \<lparr> self_shares = Some 0, pendingAmount = None, pendingAvailableAt = None,
                 queuedExitSharesRead = None, exitFeeBpsRead = Some 50 \<rparr> \<rparr>"

definition sample_row :: operator_row where
  "sample_row = \<lparr> or_netRealizedUsdc = Some ''700'', or_lifetimeGainUsdc = Some ''900'', or_lifetimeLossUsdc = Some ''200'' \<rparr>"

definition sample_track :: track_record where
  "sample_track = \<lparr> tr_complete = True, tr_included = \<lparr>ts_gain = 50, ts_loss = 10, ts_members = 2\<rparr>, tr_net = 40,
     tr_excluded = \<lparr>ts_gain = 0, ts_loss = 0, ts_members = 0\<rparr>, tr_reconciles = None \<rparr>"

definition sample_join_call :: "track_record option \<Rightarrow> config_error + join_decision" where
  "sample_join_call t = decideJoin sample_join \<lparr>vs_operatorId = Some 7, vs_depth = Some 0\<rparr> sample_chain_read
     (Some sample_row) (Some 7) \<lparr>stackedPerfFeeBps = Some 1000, stackedExitFeeCapBps = None, fee_depth = None\<rparr> 1 t"

lemma sample_join_joins:
  "\<exists>d. sample_join_call (Some sample_track) = Inr d \<and> jd_join d \<and> jd_depositUsdc d = 25000000"
proof -
  have "(case sample_join_call (Some sample_track) of Inr d \<Rightarrow> jd_join d \<and> jd_depositUsdc d = 25000000 | Inl _ \<Rightarrow> False)"
    by code_simp
  then show ?thesis by (auto split: sum.splits)
qed

lemma decideJoin_respects_limits_witness:
  "\<exists>d. sample_join_call (Some sample_track) = Inr d \<and> jd_join d
     \<and> (\<exists>c. toBaseUnits ''25'' = Inr c \<and> jd_depositUsdc d \<le> c)"
  using sample_join_joins decideJoin_respects_limits [of sample_join]
  unfolding sample_join_call_def by (fastforce simp: sample_join_def)

lemma outside_record_only_tightens_witness:
  "\<exists>d. sample_join_call None = Inr d \<and> jd_join d"
  using sample_join_joins outside_record_only_tightens unfolding sample_join_call_def by blast

section \<open>The record of outside members\<close>

lemma foldl_add_side:
  "foldl add_side s ms = \<lparr> ts_gain = ts_gain s + sum_list (map mr_gain ms),
     ts_loss = ts_loss s + sum_list (map mr_loss ms), ts_members = ts_members s + int (length ms) \<rparr>"
  by (induction ms arbitrary: s) (simp_all add: add_side_def)

lemma side_of_sums:
  "side_of ms = \<lparr> ts_gain = sum_list (map mr_gain ms), ts_loss = sum_list (map mr_loss ms),
     ts_members = int (length ms) \<rparr>"
  by (simp add: side_of_def foldl_add_side)

lemma sum_list_partition:
  "sum_list (map f (filter (\<lambda>x. \<not> P x) xs)) + sum_list (map f (filter P xs)) = (sum_list (map f xs) :: int)"
  by (induction xs) auto

lemma sum_list_filter_mono:
  "(\<And>x. x \<in> set xs \<Longrightarrow> 0 \<le> f x) \<Longrightarrow> (\<And>x. P x \<Longrightarrow> Q x) \<Longrightarrow>
     sum_list (map f (filter P xs)) \<le> (sum_list (map f (filter Q xs)) :: int)"
  by (induction xs) (auto intro: add_mono add_increasing)

text \<open>
  Disclosing addresses never adds trust: the included and the excluded side always make up
  the whole record, and a longer list only takes gains and losses out of the included side
  (addresses compare without regard to letter case).
\<close>

theorem outsideTrackRecord_disclosure_only_removes:
  assumes "\<And>m. m \<in> set (rr_members r) \<Longrightarrow> 0 \<le> mr_gain m \<and> 0 \<le> mr_loss m"
    and "set (map lc ds) \<subseteq> set (map lc ds')"
    and "outsideTrackRecord (Some r) ds row = Some t" and "outsideTrackRecord (Some r) ds' row = Some t'"
  shows "ts_gain (tr_included t') \<le> ts_gain (tr_included t) \<and> ts_loss (tr_included t') \<le> ts_loss (tr_included t)
    \<and> ts_gain (tr_included t) + ts_gain (tr_excluded t) = sum_list (map mr_gain (rr_members r))
    \<and> ts_loss (tr_included t) + ts_loss (tr_excluded t) = sum_list (map mr_loss (rr_members r))
    \<and> tr_net t = ts_gain (tr_included t) - ts_loss (tr_included t)"
proof -
  have t: "tr_included t = side_of (filter (\<lambda>m. lc (mr_member m) \<notin> set (map lc ds)) (rr_members r))"
    "tr_excluded t = side_of (filter (\<lambda>m. lc (mr_member m) \<in> set (map lc ds)) (rr_members r))"
    "tr_net t = ts_gain (tr_included t) - ts_loss (tr_included t)"
    "tr_included t' = side_of (filter (\<lambda>m. lc (mr_member m) \<notin> set (map lc ds')) (rr_members r))"
    using assms(3,4) by (auto simp: outsideTrackRecord_def Let_def)
  show ?thesis
    unfolding t side_of_sums using assms(1,2)
    by (auto simp: sum_list_partition simp del: set_map intro!: sum_list_filter_mono)
qed

definition sample_realizations :: realization_record where
  "sample_realizations = \<lparr> rr_complete = True,
     rr_members = [\<lparr>mr_member = ''0xAA'', mr_gain = 30, mr_loss = 0\<rparr>, \<lparr>mr_member = ''0xbb'', mr_gain = 20, mr_loss = 10\<rparr>] \<rparr>"

lemma outsideTrackRecord_disclosure_only_removes_witness:
  "\<exists>t. outsideTrackRecord (Some sample_realizations) [] None = Some t
     \<and> ts_gain (tr_included t) + ts_gain (tr_excluded t) = 50"
proof -
  obtain t t' where t: "outsideTrackRecord (Some sample_realizations) [] None = Some t"
    "outsideTrackRecord (Some sample_realizations) [''0xaa''] None = Some t'"
    by (simp add: outsideTrackRecord_def Let_def)
  have "\<And>m. m \<in> set (rr_members sample_realizations) \<Longrightarrow> 0 \<le> mr_gain m \<and> 0 \<le> mr_loss m"
    by (auto simp: sample_realizations_def)
  from outsideTrackRecord_disclosure_only_removes [OF this _ t] t show ?thesis
    by (simp add: sample_realizations_def)
qed

section \<open>Voting\<close>

text \<open>
  An owed reveal is never dropped and no vote leaves its window. With a commitment
  outstanding on a readable proposal, the agent reveals exactly between the commit and the
  reveal deadline, urgently in the last stretch, and never commits again; it commits only in
  the commit window of an active proposal of a type in its mandate, with voting weight; and an
  unreadable proposal or commitment is reported as degraded, not as nothing to do.
\<close>

theorem decideVote_windows:
  assumes "decideVote g ch w nowSec cfg ev timing = Inr v"
  shows "(\<forall>p. gr_proposal g = Some p \<and> gr_hasOutstandingCommit g \<longrightarrow>
      ((\<exists>u s. v = VoteReveal u s) \<longleftrightarrow> gp_commitDeadline p \<le> nowSec \<and> nowSec < gp_revealDeadline p)
      \<and> (\<forall>b. v \<noteq> VoteCommit b))
    \<and> (\<forall>u s. v = VoteReveal u s \<longrightarrow> gr_hasOutstandingCommit g \<and> (u \<longleftrightarrow> s \<le> revealSafetyMarginSec timing) \<and> 0 < s)
    \<and> (\<forall>b. v = VoteCommit b \<longrightarrow> (\<exists>p. gr_proposal g = Some p \<and> nowSec < gp_commitDeadline p
         \<and> gp_status p = GActive \<and> gp_ptype p \<in> set (vc_proposalTypes cfg) \<and> or_zero w \<noteq> 0
         \<and> \<not> gr_commitUnknown g \<and> gr_revealed g \<noteq> Some True))
    \<and> (gr_proposal g = None \<and> 0 < or_zero (gr_activePid g) \<longrightarrow> v = VoteNone True)"
  using assms
  by (cases "gr_proposal g")
     (auto simp: decideVote_def votePhase_def Let_def bindE_Inr split: if_splits option.splits)

definition sample_proposal :: gov_proposal where
  "sample_proposal = \<lparr> gp_pid = 4, gp_ptype = 0, gp_status = GActive, gp_commitDeadline = 100,
     gp_revealDeadline = 200, gp_executableAt = 300, gp_expiresAt = 400, gp_actionHash = ''0xab'' \<rparr>"

definition sample_gov :: gov_read where
  "sample_gov = \<lparr> gr_proposal = Some sample_proposal, gr_activePid = Some 4, gr_available = Some True,
     gr_hasOutstandingCommit = True, gr_commitUnknown = False, gr_revealed = Some False,
     gr_hasPendingExecution = Some True \<rparr>"

definition sample_vote :: vote_config where
  "sample_vote = \<lparr> vc_driftBandBps = 500, vc_maxDriftBandBps = 5000, vc_voteAgainstWhenUnknown = False,
     vc_proposalTypes = [0], vc_knownActions = [], vc_requireKnownAction = False \<rparr>"

definition sample_timing :: timing_config where
  "sample_timing = \<lparr> revealSafetyMarginSec = 30, activateGraceSec = 60, tickIntervalSec = 60 \<rparr>"

lemma decideVote_windows_witness:
  "\<exists>u s. decideVote sample_gov sample_chain_read (Some 5) 150 sample_vote (ByName ''naive-drift-band'') sample_timing
     = Inr (VoteReveal u s)"
proof -
  have "\<exists>v. decideVote sample_gov sample_chain_read (Some 5) 150 sample_vote (ByName ''naive-drift-band'') sample_timing = Inr v"
    by (simp add: decideVote_def sample_gov_def sample_proposal_def votePhase_def Let_def)
  then obtain v where v: "decideVote sample_gov sample_chain_read (Some 5) 150 sample_vote
      (ByName ''naive-drift-band'') sample_timing = Inr v" by blast
  from decideVote_windows [OF v] v show ?thesis
    by (simp add: sample_gov_def sample_proposal_def)
qed

section \<open>Entry and exit\<close>

text \<open>
  The observation window is never skipped unless the operator has switched that on: without
  it an escrowed deposit is activated only once its window plus the grace has passed, and until
  then the activation is scheduled for that moment.
\<close>

theorem decideEntry_never_skips:
  assumes "pendingAmount (ch_self ch) = Some a" and "a \<noteq> 0"
    and "due = or_zero (pendingAvailableAt (ch_self ch)) + activateGraceSec timing"
  shows "decideEntry ch nowSec timing False = (if due \<le> nowSec then EntryActivate due else EntryWait due)
    \<and> (decideEntry ch nowSec timing allow = EntrySkipWindow t \<longrightarrow> allow \<and> nowSec < due)"
  using assms by (auto simp: decideEntry_def Let_def)

lemma decideEntry_never_skips_witness:
  "decideEntry (sample_chain_read\<lparr>ch_self := \<lparr>self_shares = None, pendingAmount = Some 9, pendingAvailableAt = Some 1000,
     queuedExitSharesRead = None, exitFeeBpsRead = None\<rparr>\<rparr>) 900 sample_timing False = EntryWait 1060"
  using decideEntry_never_skips [of "sample_chain_read\<lparr>ch_self := \<lparr>self_shares = None, pendingAmount = Some 9,
      pendingAvailableAt = Some 1000, queuedExitSharesRead = None, exitFeeBpsRead = None\<rparr>\<rparr>" 9 1060 sample_timing 900]
  by (simp add: sample_timing_def)

text \<open>
  Any one trigger suffices and nothing else exits: a drop of at least the configured part
  of the entry mark, an unreadable NAV when that is watched, or a negative operator net when
  that is watched.
\<close>

theorem decideExit_iff:
  assumes "entry = Some e" and "0 < e" and "ch_navPerShareWad ch = Some nav" and "nav < e"
  shows "ed_exit (decideExit cfg ch entry row g) \<longleftrightarrow>
    maxDrawdownBps cfg * e \<le> (e - nav) * 10000
    \<or> onOracleFreezeWarning cfg \<and> ch_navReadable ch = Some False
    \<or> onOperatorNetNegative cfg \<and> (\<exists>n. row_net row = Some n \<and> n < 0)"
proof -
  have "bdiv ((e - nav) * 10000) e = (e - nav) * 10000 div e" using assms by simp
  moreover have "maxDrawdownBps cfg \<le> (e - nav) * 10000 div e \<longleftrightarrow> maxDrawdownBps cfg * e \<le> (e - nav) * 10000"
    using assms(2) by (simp add: le_zdiv_iff)
  ultimately show ?thesis
    using assms by (auto simp: decideExit_def Let_def drop_bps_def BPS_def split: option.splits)
qed

lemma decideExit_iff_witness:
  "ed_exit (decideExit \<lparr>maxDrawdownBps = 1000, onOracleFreezeWarning = True, onOperatorNetNegative = True\<rparr>
     (sample_chain_read\<lparr>ch_navPerShareWad := Some 90\<rparr>) (Some 100) None sample_gov)"
  using decideExit_iff [of "Some 100" 100 "sample_chain_read\<lparr>ch_navPerShareWad := Some 90\<rparr>" 90
      "\<lparr>maxDrawdownBps = 1000, onOracleFreezeWarning = True, onOperatorNetNegative = True\<rparr>" None sample_gov]
  by simp

section \<open>The crank\<close>

text \<open>
  What the Governance contract accepts at block time \<open>t\<close>, as the comments of the source state
  it: \<open>finalize\<close> from the reveal deadline on, \<open>execute\<close> between timelock and expiry, and
  \<open>markExpired\<close> strictly after expiry.
\<close>

fun governance_accepts :: "gov_proposal \<Rightarrow> int \<Rightarrow> crank_action \<Rightarrow> bool" where
  "governance_accepts p t (CrankFinalize pid) = (gp_status p = GActive \<and> gp_revealDeadline p \<le> t)"
| "governance_accepts p t (CrankMarkExpired pid) = (gp_status p = GPassed \<and> gp_expiresAt p < t)"
| "governance_accepts p t (CrankExecute pid pt h x u) =
     (gp_status p = GPassed \<and> gp_executableAt p \<le> t \<and> t \<le> gp_expiresAt p)"
| "governance_accepts p t (CrankNone d) = True"

lemma crank_verdict_none: "crank_verdict cs a = (act, cs') \<Longrightarrow> act \<noteq> CrankNone False \<Longrightarrow> act = a \<and> all_ok cs"
  by (auto simp: crank_verdict_def split: if_splits)

lemma decideCrank_acts:
  assumes "decideCrank g cn nowSec timing cfg payloads held = (act, cs)" and "\<And>d. act \<noteq> CrankNone d"
  obtains p where "gr_proposal g = Some p" "scope cfg \<noteq> ''off''" "scope cfg = ''all'' \<or> held"
    "act = CrankFinalize (gp_pid p) \<and> gp_status p = GActive \<and> gp_revealDeadline p \<le> crank_now cn nowSec timing \<and> crankFinalize cfg
     \<or> act = CrankMarkExpired (gp_pid p) \<and> gp_status p = GPassed \<and> gp_expiresAt p < crank_now cn nowSec timing \<and> crankMarkExpired cfg
     \<or> (\<exists>x u. act = CrankExecute (gp_pid p) 0 (gp_actionHash p) x u \<and> map_of payloads (lc (gp_actionHash p)) = Some x
          \<and> gp_status p = GPassed \<and> gp_executableAt p \<le> crank_now cn nowSec timing
          \<and> crank_now cn nowSec timing \<le> gp_expiresAt p \<and> crankExecute cfg)"
proof (cases "gr_proposal g")
  case None
  then show thesis using assms
    by (auto simp: decideCrank_def Let_def split: if_splits)
next
  case (Some p)
  show thesis
  proof (rule that [OF Some])
    show "scope cfg \<noteq> ''off''" "scope cfg = ''all'' \<or> held"
      using assms by (auto simp: decideCrank_def Let_def split: if_splits)
  qed (use assms Some in \<open>cases "gp_status p"; auto simp: decideCrank_def Let_def crank_verdict_def
        CRANK_EXECUTE_PTYPE_def split: if_splits\<close>)
qed

text \<open>
  A crank call is one the contract accepts. With the chain's clock read, at that very time;
  without it, at any block time that is at least the local clock less the grace, except that an
  execution may then be late, never early. An execution always carries a payload held for the
  proposal's action hash, and only of a Rebalance.
\<close>

theorem decideCrank_accepted:
  assumes "decideCrank g cn nowSec timing cfg payloads held = (act, cs)" and "gr_proposal g = Some p"
  shows "(\<forall>t. cn = Some t \<longrightarrow> governance_accepts p t act)
    \<and> (\<forall>t. cn = None \<and> nowSec - activateGraceSec timing \<le> t \<longrightarrow>
         governance_accepts p t act
         \<or> (\<exists>pid pt h x u. act = CrankExecute pid pt h x u \<and> gp_executableAt p \<le> t \<and> gp_expiresAt p < t))
    \<and> (\<forall>pid pt h x u. act = CrankExecute pid pt h x u \<longrightarrow>
         pt = 0 \<and> h = gp_actionHash p \<and> map_of payloads (lc h) = Some x)"
proof (cases "\<exists>d. act = CrankNone d")
  case False
  then show ?thesis
    using decideCrank_acts [OF assms(1)] assms(2) by (fastforce simp: crank_now_def)
qed auto

lemma decideCrank_accepted_witness:
  "\<exists>cs. decideCrank sample_gov (Some 250) 0 sample_timing
      \<lparr>scope = ''held'', crankFinalize = True, crankExecute = True, crankMarkExpired = False, knownPayloads = []\<rparr> [] True
      = (CrankFinalize 4, cs) \<and> governance_accepts sample_proposal 250 (CrankFinalize 4)"
proof -
  let ?c = "\<lparr>scope = ''held'', crankFinalize = True, crankExecute = True, crankMarkExpired = False, knownPayloads = []\<rparr>"
  obtain cs where cs: "decideCrank sample_gov (Some 250) 0 sample_timing ?c [] True = (CrankFinalize 4, cs)"
    by (simp add: decideCrank_def sample_gov_def sample_proposal_def crank_verdict_def crank_now_def Let_def)
  from decideCrank_accepted [OF cs, of sample_proposal] cs show ?thesis by (simp add: sample_gov_def)
qed

text \<open>
  An expired round never wedges a vault the agent holds: once the reveal window of an active
  proposal is over on the chain's clock, the agent finalizes it, unless the operator switched
  that off.
\<close>

theorem decideCrank_finalizes:
  assumes "gr_proposal g = Some p" and "gp_status p = GActive" and "gr_available g \<noteq> Some False"
    and "scope cfg = ''held'' \<and> held \<or> scope cfg = ''all''" and "crankFinalize cfg" and "gp_revealDeadline p \<le> t"
  shows "fst (decideCrank g (Some t) nowSec timing cfg payloads held) = CrankFinalize (gp_pid p)"
  using assms by (auto simp: decideCrank_def Let_def crank_verdict_def crank_now_def)

lemma decideCrank_finalizes_witness:
  "fst (decideCrank sample_gov (Some 250) 0 sample_timing
      \<lparr>scope = ''all'', crankFinalize = True, crankExecute = True, crankMarkExpired = False, knownPayloads = []\<rparr> [] False)
   = CrankFinalize 4"
  using decideCrank_finalizes [of sample_gov sample_proposal] by (simp add: sample_gov_def sample_proposal_def)

end
