(* ===== verification/Agent_Plan.thy ===== *)
theory Agent_Plan
  imports Agent_Policy_Props
begin

text \<open>
  Planning, \<open>packages/reference-agent/src/plan.mjs\<close>: from one perceived world to the list of
  intents in risk order, and its split into what is due now and what is scheduled. The
  \<open>decisions\<close> list and the log lines, which only report, are not modelled.
\<close>

section \<open>Intents\<close>

text \<open>
  What an intent carries besides its vault and due time: the proposal and urgency of a reveal,
  the direction of a commit, the shares and mode of an exit, whether an activation is only
  scheduled, the amount of a deposit.
\<close>

datatype intent_args =
    AReveal int bool
  | AFinalize int
  | ASettleQueuedExit
  | AExecute int int string string bool
  | AExit int bool
  | AActivate bool
  | ASkipWindow
  | AMarkExpired int
  | ACommit int bool
  | ADeposit int

record intent =
  i_args :: intent_args
  i_vault :: string
  i_dueAtSec :: int

fun INTENT_ORDER :: "intent_args \<Rightarrow> int" where
  "INTENT_ORDER (AReveal _ _) = 0"
| "INTENT_ORDER (AFinalize _) = 1"
| "INTENT_ORDER ASettleQueuedExit = 2"
| "INTENT_ORDER (AExecute _ _ _ _ _) = 3"
| "INTENT_ORDER (AExit _ _) = 4"
| "INTENT_ORDER (AActivate _) = 5"
| "INTENT_ORDER ASkipWindow = 6"
| "INTENT_ORDER (AMarkExpired _) = 7"
| "INTENT_ORDER (ACommit _ _) = 8"
| "INTENT_ORDER (ADeposit _) = 9"

record observation =
  ob_chain :: chain_read
  ob_summary :: vault_summary
  ob_governance :: gov_read
  ob_votingWeight :: "int option"
  ob_operatorRow :: "operator_row option"
  ob_registryOperatorId :: "int option"
  ob_fees :: fee_read
  ob_outsideRecord :: "track_record option"

record world =
  w_nowSec :: int
  w_chainNowSec :: "int option"
  w_heldVaultCount :: int
  w_crankPayloads :: "(string, string) jsmap"
  w_vaults :: "observation list"

record agent_config =
  ac_vote :: vote_config
  ac_evaluator :: evaluator_ref
  ac_timing :: timing_config
  ac_crank :: crank_config
  ac_exit :: exit_config
  ac_join :: join_config
  ac_allowSkipWindow :: bool

datatype plan_error = PlanPolicy policy_error | PlanConfig config_error

definition lift_policy :: "policy_error + 'a \<Rightarrow> plan_error + 'a" where
  "lift_policy r = (case r of Inl e \<Rightarrow> Inl (PlanPolicy e) | Inr a \<Rightarrow> Inr a)"

definition lift_config :: "config_error + 'a \<Rightarrow> plan_error + 'a" where
  "lift_config r = (case r of Inl e \<Rightarrow> Inl (PlanConfig e) | Inr a \<Rightarrow> Inr a)"

section \<open>One vault\<close>

definition ob_vault :: "observation \<Rightarrow> string" where
  "ob_vault ob = ch_vault (ob_chain ob)"

definition ob_shares :: "observation \<Rightarrow> int" where
  "ob_shares ob = or_zero (self_shares (ch_self (ob_chain ob)))"

definition ob_held :: "observation \<Rightarrow> bool" where
  "ob_held ob = (ob_shares ob > 0)"

definition ob_pending :: "observation \<Rightarrow> bool" where
  "ob_pending ob = (case pendingAmount (ch_self (ob_chain ob)) of None \<Rightarrow> False | Some a \<Rightarrow> a > 0)"

definition vote_intents :: "int \<Rightarrow> observation \<Rightarrow> vote_decision \<Rightarrow> intent list" where
  "vote_intents nowSec ob vote = (case (gr_proposal (ob_governance ob), vote) of
      (Some p, VoteReveal urgent _) \<Rightarrow> [\<lparr>i_args = AReveal (gp_pid p) urgent, i_vault = ob_vault ob, i_dueAtSec = nowSec\<rparr>]
    | (Some p, VoteCommit support) \<Rightarrow> [\<lparr>i_args = ACommit (gp_pid p) support, i_vault = ob_vault ob, i_dueAtSec = nowSec\<rparr>]
    | _ \<Rightarrow> [])"

definition crank_intents :: "int \<Rightarrow> observation \<Rightarrow> crank_action \<Rightarrow> intent list" where
  "crank_intents nowSec ob act = (case act of
      CrankNone _ \<Rightarrow> []
    | CrankFinalize pid \<Rightarrow> [\<lparr>i_args = AFinalize pid, i_vault = ob_vault ob, i_dueAtSec = nowSec\<rparr>]
    | CrankMarkExpired pid \<Rightarrow> [\<lparr>i_args = AMarkExpired pid, i_vault = ob_vault ob, i_dueAtSec = nowSec\<rparr>]
    | CrankExecute pid pt h x u \<Rightarrow> [\<lparr>i_args = AExecute pid pt h x u, i_vault = ob_vault ob, i_dueAtSec = nowSec\<rparr>])"

definition settle_intents :: "int \<Rightarrow> observation \<Rightarrow> intent list" where
  "settle_intents nowSec ob = (case decideSettle (ob_chain ob) (ob_governance ob) of
      SettleNone \<Rightarrow> []
    | SettleQueuedExit \<Rightarrow> [\<lparr>i_args = ASettleQueuedExit, i_vault = ob_vault ob, i_dueAtSec = nowSec\<rparr>])"

definition exit_intents :: "agent_config \<Rightarrow> int option \<Rightarrow> int \<Rightarrow> observation \<Rightarrow> intent list" where
  "exit_intents cfg mark nowSec ob =
     (let e = decideExit (ac_exit cfg) (ob_chain ob) mark (ob_operatorRow ob) (ob_governance ob)
      in if ed_exit e
         then [\<lparr>i_args = AExit (ob_shares ob) (ed_modeF e), i_vault = ob_vault ob, i_dueAtSec = nowSec\<rparr>] else [])"

definition entry_intents :: "agent_config \<Rightarrow> int \<Rightarrow> observation \<Rightarrow> intent list" where
  "entry_intents cfg nowSec ob =
     (case decideEntry (ob_chain ob) nowSec (ac_timing cfg) (ac_allowSkipWindow cfg) of
        EntryNone \<Rightarrow> []
      | EntryActivate due \<Rightarrow> [\<lparr>i_args = AActivate False, i_vault = ob_vault ob, i_dueAtSec = due\<rparr>]
      | EntrySkipWindow _ \<Rightarrow> [\<lparr>i_args = ASkipWindow, i_vault = ob_vault ob, i_dueAtSec = nowSec\<rparr>]
      | EntryWait due \<Rightarrow> [\<lparr>i_args = AActivate True, i_vault = ob_vault ob, i_dueAtSec = due\<rparr>])"

text \<open>Exit, entry or join: the intents, and the number of vaults held counting a planned deposit.\<close>

definition position_intents ::
  "agent_config \<Rightarrow> (string, int) jsmap \<Rightarrow> world \<Rightarrow> int \<Rightarrow> observation \<Rightarrow> config_error + (intent list \<times> int)" where
  "position_intents cfg entryMarks w heldVaultCount ob =
     (if ob_held ob then Inr (exit_intents cfg (map_of entryMarks (ob_vault ob)) (w_nowSec w) ob, heldVaultCount)
      else if ob_pending ob then Inr (entry_intents cfg (w_nowSec w) ob, heldVaultCount)
      else bindE (decideJoin (ac_join cfg) (ob_summary ob) (ob_chain ob) (ob_operatorRow ob)
                    (ob_registryOperatorId ob) (ob_fees ob) heldVaultCount (ob_outsideRecord ob)) (\<lambda>d.
        if jd_join d
        then Inr ([\<lparr>i_args = ADeposit (jd_depositUsdc d), i_vault = ob_vault ob, i_dueAtSec = w_nowSec w\<rparr>],
                  heldVaultCount + 1)
        else Inr ([], heldVaultCount)))"

definition plan_vault ::
  "agent_config \<Rightarrow> (string, int) jsmap \<Rightarrow> world \<Rightarrow> int \<Rightarrow> observation \<Rightarrow> plan_error + (intent list \<times> int)" where
  "plan_vault cfg entryMarks w heldVaultCount ob =
     bindE (lift_policy (decideVote (ob_governance ob) (ob_chain ob) (ob_votingWeight ob) (w_nowSec w)
              (ac_vote cfg) (ac_evaluator cfg) (ac_timing cfg))) (\<lambda>vote.
     let crank = decideCrank (ob_governance ob) (w_chainNowSec w) (w_nowSec w) (ac_timing cfg) (ac_crank cfg)
                   (w_crankPayloads w) (ob_held ob \<or> ob_pending ob)
     in bindE (lift_config (position_intents cfg entryMarks w heldVaultCount ob)) (\<lambda>(pos, held').
        Inr (vote_intents (w_nowSec w) ob vote @ crank_intents (w_nowSec w) ob (fst crank)
             @ settle_intents (w_nowSec w) ob @ pos, held')))"

section \<open>The plan\<close>

fun plan_vaults ::
  "agent_config \<Rightarrow> (string, int) jsmap \<Rightarrow> world \<Rightarrow> int \<Rightarrow> observation list \<Rightarrow> plan_error + intent list" where
  "plan_vaults cfg entryMarks w heldVaultCount [] = Inr []"
| "plan_vaults cfg entryMarks w heldVaultCount (ob # obs) =
     bindE (plan_vault cfg entryMarks w heldVaultCount ob) (\<lambda>(intents, held').
     bindE (plan_vaults cfg entryMarks w held' obs) (\<lambda>rest. Inr (intents @ rest)))"

abbreviation intent_pos :: "intent \<Rightarrow> int \<times> int" where
  "intent_pos i \<equiv> (INTENT_ORDER (i_args i), i_dueAtSec i)"

definition sort_intents :: "intent list \<Rightarrow> intent list" where
  "sort_intents is = sort_key intent_pos is"

definition plan :: "agent_config \<Rightarrow> (string, int) jsmap \<Rightarrow> world \<Rightarrow> plan_error + intent list" where
  "plan cfg entryMarks w =
     bindE (plan_vaults cfg entryMarks w (w_heldVaultCount w) (w_vaults w)) (\<lambda>intents. Inr (sort_intents intents))"

definition partitionDue :: "intent list \<Rightarrow> int \<Rightarrow> intent list \<times> intent list" where
  "partitionDue intents nowSec =
     (filter (\<lambda>i. i_dueAtSec i \<le> nowSec) intents, filter (\<lambda>i. \<not> i_dueAtSec i \<le> nowSec) intents)"

interpretation intent_order: chain_order intent_pos sort_intents
  by unfold_locales (simp_all add: sort_intents_def)

section \<open>What a plan contains\<close>

fun is_deposit :: "intent_args \<Rightarrow> bool" where
  "is_deposit (ADeposit _) = True"
| "is_deposit _ = False"

definition deposits :: "intent list \<Rightarrow> nat" where
  "deposits is = length (filter (\<lambda>i. is_deposit (i_args i)) is)"

lemma position_intents_cases:
  assumes "position_intents cfg marks w held ob = Inr (is, held')"
  shows "held' = held \<and> deposits is = 0
       \<or> held' = held + 1 \<and> held < maxConcurrentVaults (ac_join cfg) \<and> deposits is = 1"
proof (cases "ob_held ob \<or> ob_pending ob")
  case True
  then show ?thesis
    using assms by (auto simp: position_intents_def exit_intents_def entry_intents_def Let_def deposits_def
        split: if_splits entry_decision.splits)
next
  case False
  then obtain d where d: "decideJoin (ac_join cfg) (ob_summary ob) (ob_chain ob) (ob_operatorRow ob)
                    (ob_registryOperatorId ob) (ob_fees ob) held (ob_outsideRecord ob) = Inr d"
    "(if jd_join d then Inr ([\<lparr>i_args = ADeposit (jd_depositUsdc d), i_vault = ob_vault ob, i_dueAtSec = w_nowSec w\<rparr>], held + 1)
      else Inr ([], held)) = (Inr (is, held') :: config_error + _)"
    using assms by (auto simp: position_intents_def bindE_Inr)
  have "jd_join d \<Longrightarrow> held < maxConcurrentVaults (ac_join cfg)"
    using decideJoin_Inr [OF d(1)] by (auto simp: join_checks_def)
  then show ?thesis using d(2) by (auto simp: deposits_def split: if_splits)
qed

lemma deposits_append [simp]: "deposits (xs @ ys) = deposits xs + deposits ys"
  by (simp add: deposits_def)

lemma other_intents_no_deposit:
  "deposits (vote_intents n ob v) = 0" "deposits (crank_intents n ob c) = 0" "deposits (settle_intents n ob) = 0"
  by (auto simp: deposits_def vote_intents_def crank_intents_def settle_intents_def
      split: option.splits vote_decision.splits crank_action.splits settle_decision.splits)

lemma vote_intents_kind: "i \<in> set (vote_intents n ob v) \<Longrightarrow>
    i_vault i = ob_vault ob \<and> ((\<exists>p u. i_args i = AReveal p u) \<or> (\<exists>p b. i_args i = ACommit p b))"
  by (cases "gr_proposal (ob_governance ob)"; cases v) (auto simp: vote_intents_def)

lemma crank_intents_kind: "i \<in> set (crank_intents n ob c) \<Longrightarrow>
    i_vault i = ob_vault ob \<and> ((\<exists>p. i_args i = AFinalize p) \<or> (\<exists>p. i_args i = AMarkExpired p)
      \<or> (\<exists>p t h x u. i_args i = AExecute p t h x u))"
  by (cases c) (auto simp: crank_intents_def)

lemma settle_intents_kind: "i \<in> set (settle_intents n ob) \<Longrightarrow>
    i_vault i = ob_vault ob \<and> i_args i = ASettleQueuedExit"
  by (auto simp: settle_intents_def split: settle_decision.splits)

lemma plan_vault_Inr:
  assumes "plan_vault cfg marks w held ob = Inr (is, held')"
  obtains vote pos where
    "decideVote (ob_governance ob) (ob_chain ob) (ob_votingWeight ob) (w_nowSec w) (ac_vote cfg)
       (ac_evaluator cfg) (ac_timing cfg) = Inr vote"
    "position_intents cfg marks w held ob = Inr (pos, held')"
    "is = vote_intents (w_nowSec w) ob vote @ crank_intents (w_nowSec w) ob (fst (decideCrank (ob_governance ob)
         (w_chainNowSec w) (w_nowSec w) (ac_timing cfg) (ac_crank cfg) (w_crankPayloads w) (ob_held ob \<or> ob_pending ob)))
       @ settle_intents (w_nowSec w) ob @ pos"
  using assms by (auto simp: plan_vault_def bindE_Inr Let_def lift_policy_def lift_config_def split: sum.splits)

lemma plan_vault_deposits:
  assumes "plan_vault cfg marks w held ob = Inr (is, held')"
  shows "held' = held + int (deposits is) \<and> deposits is \<le> 1 \<and> (0 < deposits is \<longrightarrow> held < maxConcurrentVaults (ac_join cfg))"
proof -
  obtain vote pos where p: "position_intents cfg marks w held ob = Inr (pos, held')"
    "is = vote_intents (w_nowSec w) ob vote @ crank_intents (w_nowSec w) ob (fst (decideCrank (ob_governance ob)
         (w_chainNowSec w) (w_nowSec w) (ac_timing cfg) (ac_crank cfg) (w_crankPayloads w) (ob_held ob \<or> ob_pending ob)))
       @ settle_intents (w_nowSec w) ob @ pos"
    by (rule plan_vault_Inr [OF assms])
  have "deposits is = deposits pos" by (simp add: p(2) other_intents_no_deposit)
  then show ?thesis
    using position_intents_cases [OF p(1)] by auto
qed

lemma plan_vaults_deposits:
  assumes "plan_vaults cfg marks w held obs = Inr is"
  shows "int (deposits is) \<le> max 0 (maxConcurrentVaults (ac_join cfg) - held)"
  using assms
proof (induction obs arbitrary: held "is")
  case (Cons ob obs)
  then obtain is1 held' is2 where s: "plan_vault cfg marks w held ob = Inr (is1, held')"
    "plan_vaults cfg marks w held' obs = Inr is2" "is = is1 @ is2"
    by (auto simp: bindE_Inr)
  then show ?case
    using plan_vault_deposits [OF s(1)] Cons.IH [OF s(2)] by (auto simp: max_def split: if_splits)
qed (simp add: deposits_def)


text \<open>
  A plan is in risk order (reveal first, deposit last, ties by due time), loses and invents
  nothing of what the vaults gave, and never opens more vaults than the concurrency limit
  leaves room for, however many pass the join gates in the same tick.
\<close>

theorem plan_ordered_and_bounded:
  assumes "plan cfg marks w = Inr is"
  shows "sorted (map intent_pos is)
    \<and> (\<exists>raw. plan_vaults cfg marks w (w_heldVaultCount w) (w_vaults w) = Inr raw \<and> mset is = mset raw)
    \<and> int (deposits is) \<le> max 0 (maxConcurrentVaults (ac_join cfg) - w_heldVaultCount w)"
proof -
  obtain raw where raw: "plan_vaults cfg marks w (w_heldVaultCount w) (w_vaults w) = Inr raw" "is = sort_intents raw"
    using assms by (auto simp: plan_def bindE_Inr)
  have m: "mset is = mset raw" unfolding raw(2) by (rule intent_order.order_mset)
  then have "deposits is = deposits raw"
    unfolding deposits_def by (metis mset_filter size_mset)
  then show ?thesis
    using raw m plan_vaults_deposits [OF raw(1)] intent_order.order_sorted [of raw] by auto
qed

lemma plan_vaults_Cons:
  assumes "plan_vaults cfg marks w held (ob # obs) = Inr is"
  obtains is1 held' is2 where "plan_vault cfg marks w held ob = Inr (is1, held')"
    "plan_vaults cfg marks w held' obs = Inr is2" "is = is1 @ is2"
  using assms by (auto simp: bindE_Inr)

lemma plan_vaults_member:
  "plan_vaults cfg marks w held obs = Inr is \<Longrightarrow> i \<in> set is \<Longrightarrow>
     \<exists>ob held1 is1 held2. ob \<in> set obs \<and> plan_vault cfg marks w held1 ob = Inr (is1, held2) \<and> i \<in> set is1"
proof (induction obs arbitrary: held "is")
  case (Cons ob obs)
  obtain is1 held' is2 where s: "plan_vault cfg marks w held ob = Inr (is1, held')"
    "plan_vaults cfg marks w held' obs = Inr is2" "is = is1 @ is2"
    by (rule plan_vaults_Cons [OF Cons.prems(1)])
  show ?case
  proof (cases "i \<in> set is1")
    case True
    then show ?thesis using s(1) by (meson list.set_intros(1))
  next
    case False
    then have "i \<in> set is2" using Cons.prems(2) s(3) by simp
    then show ?thesis using Cons.IH [OF s(2)] by (meson list.set_intros(2))
  qed
qed simp

lemma plan_vaults_contains:
  "plan_vaults cfg marks w held obs = Inr is \<Longrightarrow> ob \<in> set obs \<Longrightarrow>
     \<exists>held1 is1 held2. plan_vault cfg marks w held1 ob = Inr (is1, held2) \<and> set is1 \<subseteq> set is"
proof (induction obs arbitrary: held "is")
  case (Cons o' obs)
  obtain is1 held' is2 where s: "plan_vault cfg marks w held o' = Inr (is1, held')"
    "plan_vaults cfg marks w held' obs = Inr is2" "is = is1 @ is2"
    by (rule plan_vaults_Cons [OF Cons.prems(1)])
  show ?case
  proof (cases "ob = o'")
    case True
    then show ?thesis using s(1,3) by (metis Un_upper1 set_append)
  next
    case False
    then have "ob \<in> set obs" using Cons.prems(2) by simp
    from Cons.IH [OF s(2) this] show ?thesis using s(3) by (metis le_supI2 set_append)
  qed
qed simp

text \<open>
  What a plan can contain: a skip-window only if the operator allowed it; an exit only of
  a vault the agent holds shares in, for all of them; an activation only of a vault it has
  escrowed money in and none of whose shares it holds; a deposit only into a vault where it has
  neither.
\<close>

theorem plan_intents_fit_position:
  assumes "plan cfg marks w = Inr is" and "i \<in> set is"
  shows "(i_args i = ASkipWindow \<longrightarrow> ac_allowSkipWindow cfg)
    \<and> (\<exists>ob \<in> set (w_vaults w). i_vault i = ob_vault ob
        \<and> (\<forall>n m. i_args i = AExit n m \<longrightarrow> ob_held ob \<and> n = ob_shares ob)
        \<and> (\<forall>s. i_args i = AActivate s \<longrightarrow> \<not> ob_held ob \<and> ob_pending ob)
        \<and> (\<forall>a. i_args i = ADeposit a \<longrightarrow> \<not> ob_held ob \<and> \<not> ob_pending ob))"
proof -
  obtain raw where raw: "plan_vaults cfg marks w (w_heldVaultCount w) (w_vaults w) = Inr raw" "is = sort_intents raw"
    using assms by (auto simp: plan_def bindE_Inr)
  have "i \<in> set raw" using assms(2) unfolding raw(2) intent_order.order_set .
  then obtain ob held1 is1 held2 where ob: "ob \<in> set (w_vaults w)"
    "plan_vault cfg marks w held1 ob = Inr (is1, held2)" "i \<in> set is1"
    using plan_vaults_member [OF raw(1)] by blast
  obtain vote pos where p: "position_intents cfg marks w held1 ob = Inr (pos, held2)"
    "is1 = vote_intents (w_nowSec w) ob vote @ crank_intents (w_nowSec w) ob (fst (decideCrank (ob_governance ob)
         (w_chainNowSec w) (w_nowSec w) (ac_timing cfg) (ac_crank cfg) (w_crankPayloads w) (ob_held ob \<or> ob_pending ob)))
       @ settle_intents (w_nowSec w) ob @ pos"
    by (rule plan_vault_Inr [OF ob(2)])
  have "(i_args i = ASkipWindow \<longrightarrow> ac_allowSkipWindow cfg) \<and> i_vault i = ob_vault ob
        \<and> (\<forall>n m. i_args i = AExit n m \<longrightarrow> ob_held ob \<and> n = ob_shares ob)
        \<and> (\<forall>s. i_args i = AActivate s \<longrightarrow> \<not> ob_held ob \<and> ob_pending ob)
        \<and> (\<forall>a. i_args i = ADeposit a \<longrightarrow> \<not> ob_held ob \<and> \<not> ob_pending ob)"
  proof (cases "i \<in> set pos")
    case True
    then show ?thesis
      using p(1) by (auto simp: position_intents_def exit_intents_def entry_intents_def decideEntry_def Let_def bindE_Inr
          split: if_splits option.splits)
  next
    case False
    then have "i \<in> set (vote_intents (w_nowSec w) ob vote) \<or> i \<in> set (crank_intents (w_nowSec w) ob (fst (decideCrank (ob_governance ob)
         (w_chainNowSec w) (w_nowSec w) (ac_timing cfg) (ac_crank cfg) (w_crankPayloads w) (ob_held ob \<or> ob_pending ob))))
       \<or> i \<in> set (settle_intents (w_nowSec w) ob)" using ob(3) p(2) by auto
    then show ?thesis
      using vote_intents_kind crank_intents_kind settle_intents_kind by fastforce
  qed
  then show ?thesis using ob(1) by blast
qed

lemma owed_reveal_planned:
  assumes "plan cfg marks w = Inr is" and "ob \<in> set (w_vaults w)"
    and "gr_proposal (ob_governance ob) = Some p" and "gr_hasOutstandingCommit (ob_governance ob)"
    and "gp_commitDeadline p \<le> w_nowSec w" and "w_nowSec w < gp_revealDeadline p"
  shows "\<exists>i u. i \<in> set (fst (partitionDue is (w_nowSec w))) \<and> i_args i = AReveal (gp_pid p) u \<and> i_vault i = ob_vault ob
    \<and> (\<forall>j \<in> set is. INTENT_ORDER (i_args i) \<le> INTENT_ORDER (i_args j))"
proof -
  obtain raw where raw: "plan_vaults cfg marks w (w_heldVaultCount w) (w_vaults w) = Inr raw" "is = sort_intents raw"
    using assms(1) by (auto simp: plan_def bindE_Inr)
  obtain held1 is1 held2 where ob: "plan_vault cfg marks w held1 ob = Inr (is1, held2)" "set is1 \<subseteq> set raw"
    using plan_vaults_contains [OF raw(1) assms(2)] by blast
  obtain vote where v: "decideVote (ob_governance ob) (ob_chain ob) (ob_votingWeight ob) (w_nowSec w) (ac_vote cfg)
       (ac_evaluator cfg) (ac_timing cfg) = Inr vote" and sub: "set (vote_intents (w_nowSec w) ob vote) \<subseteq> set is1"
    by (rule plan_vault_Inr [OF ob(1)]) auto
  obtain u s where "vote = VoteReveal u s"
    using v assms(3-6) by (auto simp: decideVote_def votePhase_def Let_def)
  then have "\<lparr>i_args = AReveal (gp_pid p) u, i_vault = ob_vault ob, i_dueAtSec = w_nowSec w\<rparr> \<in> set is"
    using sub ob(2) assms(3) by (auto simp: vote_intents_def raw(2) intent_order.order_set)
  moreover have "0 \<le> INTENT_ORDER a" for a by (cases a) simp_all
  ultimately show ?thesis
    by (intro exI conjI) (auto simp: partitionDue_def)
qed

text \<open>A deposit in a plan is a join decision on an observed vault.\<close>

lemma planned_deposit_joined:
  assumes "plan cfg marks w = Inr is" "i \<in> set is" "i_args i = ADeposit amt"
  shows "\<exists>ob held d. ob \<in> set (w_vaults w) \<and> i_vault i = ob_vault ob
    \<and> decideJoin (ac_join cfg) (ob_summary ob) (ob_chain ob) (ob_operatorRow ob) (ob_registryOperatorId ob) (ob_fees ob) held
        (ob_outsideRecord ob) = Inr d \<and> jd_join d \<and> amt = jd_depositUsdc d \<and> \<not> ob_held ob \<and> \<not> ob_pending ob"
proof -
  obtain raw where raw: "plan_vaults cfg marks w (w_heldVaultCount w) (w_vaults w) = Inr raw" "is = sort_intents raw"
    using assms(1) by (auto simp: plan_def bindE_Inr)
  have "i \<in> set raw" using assms(2) by (simp add: raw(2) intent_order.order_set)
  then obtain ob held is1 held2 where ob: "ob \<in> set (w_vaults w)" "plan_vault cfg marks w held ob = Inr (is1, held2)" "i \<in> set is1"
    using plan_vaults_member [OF raw(1)] by blast
  obtain vote pos where p: "position_intents cfg marks w held ob = Inr (pos, held2)"
    "is1 = vote_intents (w_nowSec w) ob vote @ crank_intents (w_nowSec w) ob (fst (decideCrank (ob_governance ob)
         (w_chainNowSec w) (w_nowSec w) (ac_timing cfg) (ac_crank cfg) (w_crankPayloads w) (ob_held ob \<or> ob_pending ob)))
       @ settle_intents (w_nowSec w) ob @ pos"
    by (rule plan_vault_Inr [OF ob(2)])
  have i: "i \<in> set pos"
    using ob(3) assms(3) vote_intents_kind crank_intents_kind settle_intents_kind by (fastforce simp: p(2))
  then have "\<exists>d. decideJoin (ac_join cfg) (ob_summary ob) (ob_chain ob) (ob_operatorRow ob) (ob_registryOperatorId ob) (ob_fees ob) held
        (ob_outsideRecord ob) = Inr d \<and> jd_join d \<and> amt = jd_depositUsdc d \<and> \<not> ob_held ob \<and> \<not> ob_pending ob \<and> i_vault i = ob_vault ob"
    using p(1) assms(3)
    by (auto simp: position_intents_def bindE_Inr exit_intents_def entry_intents_def Let_def split: if_splits entry_decision.splits)
  then show ?thesis using ob(1) by blast
qed

text \<open>
  An owed reveal is in the plan, due now, ahead of everything but other reveals: for every
  vault read with a commitment outstanding inside the reveal window, whatever else is planned.
\<close>

theorem plan_contains_owed_reveals:
  assumes "plan cfg marks w = Inr is" and "ob \<in> set (w_vaults w)"
    and "gr_proposal (ob_governance ob) = Some p" and "gr_hasOutstandingCommit (ob_governance ob)"
    and "gp_commitDeadline p \<le> w_nowSec w" and "w_nowSec w < gp_revealDeadline p"
  shows "\<exists>i u. i \<in> set (fst (partitionDue is (w_nowSec w))) \<and> i_args i = AReveal (gp_pid p) u \<and> i_vault i = ob_vault ob
    \<and> (\<forall>j \<in> set is. INTENT_ORDER (i_args i) \<le> INTENT_ORDER (i_args j))"
  by (rule owed_reveal_planned [OF assms])

section \<open>A world\<close>

definition sample_agent :: agent_config where
  "sample_agent = \<lparr> ac_vote = sample_vote, ac_evaluator = ByName ''naive-drift-band'', ac_timing = sample_timing,
     ac_crank = \<lparr>scope = ''held'', crankFinalize = True, crankExecute = True, crankMarkExpired = False, knownPayloads = []\<rparr>,
     ac_exit = \<lparr>maxDrawdownBps = 1000, onOracleFreezeWarning = True, onOperatorNetNegative = True\<rparr>,
     ac_join = sample_join, ac_allowSkipWindow = False \<rparr>"

definition sample_observation :: observation where
  "sample_observation = \<lparr> ob_chain = sample_chain_read, ob_summary = \<lparr>vs_operatorId = Some 7, vs_depth = Some 0\<rparr>,
     ob_governance = sample_gov, ob_votingWeight = Some 5, ob_operatorRow = Some sample_row,
     ob_registryOperatorId = Some 7,
     ob_fees = \<lparr>stackedPerfFeeBps = Some 1000, stackedExitFeeCapBps = None, fee_depth = None\<rparr>, ob_outsideRecord = None \<rparr>"

definition sample_world :: world where
  "sample_world = \<lparr> w_nowSec = 150, w_chainNowSec = Some 150, w_heldVaultCount = 2, w_crankPayloads = [],
     w_vaults = [sample_observation, sample_observation] \<rparr>"

definition sample_plan :: "intent list" where
  "sample_plan = (case plan sample_agent [] sample_world of Inr is \<Rightarrow> is | Inl _ \<Rightarrow> [])"

lemma sample_plan_runs: "plan sample_agent [] sample_world = Inr sample_plan"
proof -
  have "(case plan sample_agent [] sample_world of Inr _ \<Rightarrow> True | Inl _ \<Rightarrow> False)" by code_simp
  then show ?thesis by (auto simp: sample_plan_def split: sum.splits)
qed

lemma plan_ordered_and_bounded_witness: "int (deposits sample_plan) \<le> 1"
  using plan_ordered_and_bounded [OF sample_plan_runs]
  by (simp add: sample_agent_def sample_join_def sample_world_def)

lemma plan_intents_fit_position_witness:
  "\<exists>ob \<in> set (w_vaults sample_world). \<not> ob_held ob"
proof -
  define i where "i = \<lparr>i_args = ADeposit 25000000, i_vault = ''0xv'', i_dueAtSec = 150\<rparr>"
  have "list_ex (\<lambda>j. is_deposit (i_args j)) sample_plan" by code_simp
  then obtain j a where "j \<in> set sample_plan" "i_args j = ADeposit a"
    by (auto simp: list_ex_iff elim: is_deposit.elims)
  with plan_intents_fit_position [OF sample_plan_runs] show ?thesis by blast
qed

lemma plan_contains_owed_reveals_witness:
  "\<exists>i u. i \<in> set (fst (partitionDue sample_plan 150)) \<and> i_args i = AReveal 4 u"
  using plan_contains_owed_reveals [OF sample_plan_runs, of sample_observation sample_proposal]
  by (auto simp: sample_world_def sample_observation_def sample_gov_def sample_proposal_def)

end
