(* ===== verification/Agent_Budget.thy ===== *)
theory Agent_Budget
  imports Agent_Config
begin

text \<open>
  The per-session x402 spend cap, \<open>packages/reference-agent/src/budget.mjs\<close>: the pre-call gate
  \<open>canAfford\<close>, \<open>charge\<close>, and \<open>guardSigner\<close>, which charges before it signs. The signer that is
  wrapped is a parameter.
\<close>

record budget =
  b_enabled :: bool
  b_cap :: int
  b_perRead :: int
  b_spent :: int
  b_ledger :: "(int \<times> string) list"

definition createBudget :: "string \<Rightarrow> string \<Rightarrow> bool \<Rightarrow> config_error + budget" where
  "createBudget maxSessionSpendUsdc maxSingleReadUsdc enabled =
     bindE (toBaseUnits maxSessionSpendUsdc) (\<lambda>cap.
     bindE (toBaseUnits maxSingleReadUsdc) (\<lambda>perRead.
     Inr \<lparr> b_enabled = enabled, b_cap = cap, b_perRead = perRead, b_spent = 0, b_ledger = [] \<rparr>))"

datatype refusal = PaymentsDisabled | AbovePerRead | AboveSessionCap | NoValue

definition canAfford :: "budget \<Rightarrow> int \<Rightarrow> refusal option" where
  "canAfford b amount =
     (if \<not> b_enabled b then Some PaymentsDisabled
      else if amount > b_perRead b then Some AbovePerRead
      else if b_spent b + amount > b_cap b then Some AboveSessionCap
      else None)"

definition charge :: "budget \<Rightarrow> int \<Rightarrow> string \<Rightarrow> refusal + budget" where
  "charge b amount label = (case canAfford b amount of
      Some r \<Rightarrow> Inl r
    | None \<Rightarrow> Inr (b\<lparr>b_spent := b_spent b + amount, b_ledger := b_ledger b @ [(amount, label)]\<rparr>))"

text \<open>The value is the one of the typed data itself; \<open>sign\<close> is reached only after the charge.\<close>

definition guardSigner ::
  "('t \<Rightarrow> 's) \<Rightarrow> string \<Rightarrow> ('t \<Rightarrow> int option) \<Rightarrow> budget \<Rightarrow> 't \<Rightarrow> (refusal + 's) \<times> budget" where
  "guardSigner sign label value_of b typedData = (case value_of typedData of
      None \<Rightarrow> (Inl NoValue, b)
    | Some v \<Rightarrow> (case charge b v label of
          Inl r \<Rightarrow> (Inl r, b)
        | Inr b' \<Rightarrow> (Inr (sign typedData), b')))"

text \<open>A session: the guarded signer applied to one request after the other.\<close>

fun session :: "('t \<Rightarrow> 's) \<Rightarrow> string \<Rightarrow> ('t \<Rightarrow> int option) \<Rightarrow> budget \<Rightarrow> 't list \<Rightarrow> ('t \<times> 's) list \<times> budget" where
  "session sign label value_of b [] = ([], b)"
| "session sign label value_of b (t # ts) =
     (case guardSigner sign label value_of b t of
        (Inl r, b') \<Rightarrow> session sign label value_of b' ts
      | (Inr s, b') \<Rightarrow> (let (signed, b'') = session sign label value_of b' ts in ((t, s) # signed, b'')))"

lemma guardSigner_signed:
  assumes "guardSigner sign label value_of b t = (Inr s, b')"
  obtains v where "value_of t = Some v" "b_enabled b" "v \<le> b_perRead b" "b_spent b + v \<le> b_cap b"
    "b' = b\<lparr>b_spent := b_spent b + v, b_ledger := b_ledger b @ [(v, label)]\<rparr>" "s = sign t"
  using assms by (auto simp: guardSigner_def charge_def canAfford_def split: option.splits sum.splits if_splits)

lemma guardSigner_refused: "guardSigner sign label value_of b t = (Inl r, b') \<Longrightarrow> b' = b"
  by (auto simp: guardSigner_def split: option.splits sum.splits)

lemma session_Cons_cases:
  assumes "session sign label value_of b (t # ts) = (signed, b')"
  obtains (refused) r where "guardSigner sign label value_of b t = (Inl r, b)"
      "session sign label value_of b ts = (signed, b')"
    | (signs) s b1 rest where "guardSigner sign label value_of b t = (Inr s, b1)"
      "session sign label value_of b1 ts = (rest, b')" "signed = (t, s) # rest"
proof (cases "guardSigner sign label value_of b t")
  case (Pair res b1)
  show thesis
  proof (cases res)
    case (Inl r)
    then show thesis using refused Pair guardSigner_refused [of sign label value_of b t r b1] assms by auto
  next
    case (Inr s)
    then show thesis using signs Pair assms by (auto split: prod.splits)
  qed
qed

text \<open>
  The cap binds at signature time, whatever is asked for and in whatever order: over a whole
  session the values signed sum up to exactly what the budget records as spent, which never
  exceeds the session cap; every single one is within the per-read cap; and with payments
  disabled nothing is signed.
\<close>

theorem session_within_budget:
  assumes "session sign label value_of b ts = (signed, b')" and "b_spent b \<le> b_cap b"
  shows "b_spent b' = b_spent b + sum_list (map (\<lambda>(t, s). case value_of t of Some v \<Rightarrow> v | None \<Rightarrow> 0) signed)
    \<and> b_spent b' \<le> b_cap b
    \<and> (\<forall>(t, s) \<in> set signed. \<exists>v. value_of t = Some v \<and> v \<le> b_perRead b)
    \<and> (\<not> b_enabled b \<longrightarrow> signed = [])"
  using assms
proof (induction ts arbitrary: b signed)
  case (Cons t ts)
  from Cons.prems(1) show ?case
  proof (cases rule: session_Cons_cases)
    case (refused r)
    then show ?thesis using Cons.IH [OF refused(2) Cons.prems(2)] by simp
  next
    case (signs s b1 rest)
    obtain v where v: "value_of t = Some v" "b_enabled b" "v \<le> b_perRead b" "b_spent b + v \<le> b_cap b"
      "b1 = b\<lparr>b_spent := b_spent b + v, b_ledger := b_ledger b @ [(v, label)]\<rparr>" "s = sign t"
      by (rule guardSigner_signed [OF signs(1)])
    have "b_spent b1 \<le> b_cap b1" using v by simp
    from Cons.IH [OF signs(2) this] show ?thesis using v signs(3) by auto
  qed
qed simp

definition sample_budget :: budget where
  "sample_budget = \<lparr> b_enabled = True, b_cap = 250, b_perRead = 100, b_spent = 0, b_ledger = [] \<rparr>"

lemma session_within_budget_witness:
  "fst (session id ''read'' Some sample_budget [90, 101, 90, 90, 60]) = [(90, 90), (90, 90), (60, 60)]
   \<and> b_spent (snd (session id ''read'' Some sample_budget [90, 101, 90, 90, 60])) \<le> 250"
proof -
  let ?r = "session id ''read'' Some sample_budget [90, 101, 90, 90, 60]"
  have f: "fst ?r = [(90, 90), (90, 90), (60, 60)]" by code_simp
  have b: "b_spent sample_budget \<le> b_cap sample_budget" and c: "b_cap sample_budget = 250" by code_simp+
  have e: "?r = (fst ?r, snd ?r)" by (rule prod.collapse [symmetric])
  from session_within_budget [OF e b] have "b_spent (snd ?r) \<le> b_cap sample_budget"
    by (rule conjunct1 [OF conjunct2])
  then show ?thesis unfolding c using f by (rule conjI [rotated])
qed

end
