(* ===== verification/Agent_Salt.thy ===== *)
theory Agent_Salt
  imports Decimal
begin

text \<open>
  Commit-reveal salts, \<open>packages/reference-agent/src/salt.mjs\<close>: the agent keeps no vote state, and
  re-derives the salt of an outstanding commitment from public inputs and its own signature.
  \<open>keccak256\<close> and \<open>encodeAbiParameters\<close> (viem) and the account's \<open>signMessage\<close> are parameters;
  the account itself is its address and its configured salt version.
\<close>

section \<open>The code\<close>

datatype salt_error =
    UnknownSaltVersion string
  | NotAnAddress string
  | NeedsVoter string
  | BadSalt string
  | NotDeterministic

definition SALT_MESSAGE_PREFIX :: string where
  "SALT_MESSAGE_PREFIX = ''x402-vaults:reveal-salt:v1''"

definition SALT_MESSAGE_PREFIX_V2 :: string where
  "SALT_MESSAGE_PREFIX_V2 = ''x402-vaults:reveal-salt:v2''"

record account =
  acct_address :: string
  acct_saltVersion :: "string option"

definition saltVersionOf :: "account \<Rightarrow> salt_error + string" where
  "saltVersionOf a = (let v = (case acct_saltVersion a of None \<Rightarrow> ''v1'' | Some v \<Rightarrow> v) in
     if v \<noteq> ''v1'' \<and> v \<noteq> ''v2'' then Inl (UnknownSaltVersion v) else Inr v)"

definition saltMessage :: "int \<Rightarrow> string \<Rightarrow> int \<Rightarrow> string \<Rightarrow> string \<Rightarrow> salt_error + string" where
  "saltMessage chainId vault pid voter version =
     (if \<not> is_address vault then Inl (NotAnAddress vault)
      else let base = show_int chainId @ '':'' @ lc vault @ '':'' @ show_int pid in
        if version = ''v1'' then Inr (SALT_MESSAGE_PREFIX @ '':'' @ base)
        else if version \<noteq> ''v2'' then Inl (UnknownSaltVersion version)
        else if \<not> is_address voter then Inl (NeedsVoter voter)
        else Inr (SALT_MESSAGE_PREFIX_V2 @ '':'' @ base @ '':'' @ lc voter))"

type_synonym hash = "string \<Rightarrow> string"
type_synonym signer = "string \<Rightarrow> string"
type_synonym abi_encode = "int \<Rightarrow> string \<Rightarrow> bool \<Rightarrow> string \<Rightarrow> string"

definition deriveSalt :: "hash \<Rightarrow> signer \<Rightarrow> account \<Rightarrow> int \<Rightarrow> string \<Rightarrow> int \<Rightarrow> string \<Rightarrow> salt_error + string" where
  "deriveSalt keccak sign a chainId vault pid version =
     bindE (saltMessage chainId vault pid (acct_address a) version) (\<lambda>msg. Inr (keccak (sign msg)))"

definition commitmentFor :: "hash \<Rightarrow> abi_encode \<Rightarrow> int \<Rightarrow> string \<Rightarrow> bool \<Rightarrow> string \<Rightarrow> salt_error + string" where
  "commitmentFor keccak encode pid voter support salt =
     (if \<not> hex_string 64 salt then Inl (BadSalt salt) else Inr (keccak (encode pid voter support salt)))"

text \<open>Two signatures of the same message; a signer with entropy may give two different ones.\<close>

definition assertDeterministicSigner ::
  "hash \<Rightarrow> signer \<Rightarrow> signer \<Rightarrow> account \<Rightarrow> int \<Rightarrow> string \<Rightarrow> int \<Rightarrow> salt_error + string" where
  "assertDeterministicSigner keccak sign1 sign2 a chainId vault pid =
     bindE (saltVersionOf a) (\<lambda>v.
     bindE (deriveSalt keccak sign1 a chainId vault pid v) (\<lambda>s1.
     bindE (deriveSalt keccak sign2 a chainId vault pid v) (\<lambda>s2.
     if s1 \<noteq> s2 then Inl NotDeterministic else Inr s1)))"

record built_vote =
  bv_pid :: int
  bv_vault :: string
  bv_voter :: string
  bv_support :: bool
  bv_salt :: string
  bv_commitment :: string

definition buildVote ::
  "hash \<Rightarrow> abi_encode \<Rightarrow> signer \<Rightarrow> account \<Rightarrow> int \<Rightarrow> string \<Rightarrow> int \<Rightarrow> bool \<Rightarrow> salt_error + built_vote" where
  "buildVote keccak encode sign a chainId vault pid support =
     bindE (saltVersionOf a) (\<lambda>v.
     bindE (deriveSalt keccak sign a chainId vault pid v) (\<lambda>salt.
     bindE (commitmentFor keccak encode pid (acct_address a) support salt) (\<lambda>c.
     Inr \<lparr> bv_pid = pid, bv_vault = lc vault, bv_voter = acct_address a, bv_support = support,
           bv_salt = salt, bv_commitment = c \<rparr>)))"

text \<open>The inner loop: both directions against the commitment read from the chain.\<close>

fun try_supports ::
  "hash \<Rightarrow> abi_encode \<Rightarrow> int \<Rightarrow> string \<Rightarrow> string \<Rightarrow> string \<Rightarrow> bool list \<Rightarrow> salt_error + bool option" where
  "try_supports keccak encode pid voter salt onChain [] = Inr None"
| "try_supports keccak encode pid voter salt onChain (b # bs) =
     bindE (commitmentFor keccak encode pid voter b salt) (\<lambda>c.
     if lc c = lc onChain then Inr (Some b) else try_supports keccak encode pid voter salt onChain bs)"

fun try_versions ::
  "hash \<Rightarrow> abi_encode \<Rightarrow> signer \<Rightarrow> account \<Rightarrow> int \<Rightarrow> string \<Rightarrow> int \<Rightarrow> string \<Rightarrow> string list
   \<Rightarrow> salt_error + (bool \<times> string \<times> string) option" where
  "try_versions keccak encode sign a chainId vault pid onChain [] = Inr None"
| "try_versions keccak encode sign a chainId vault pid onChain (v # vs) =
     (if v = ''v2'' \<and> \<not> is_address (acct_address a)
      then try_versions keccak encode sign a chainId vault pid onChain vs
      else bindE (deriveSalt keccak sign a chainId vault pid v) (\<lambda>salt.
           bindE (try_supports keccak encode pid (acct_address a) salt onChain [True, False]) (\<lambda>r.
           case r of Some b \<Rightarrow> Inr (Some (b, salt, v))
                   | None \<Rightarrow> try_versions keccak encode sign a chainId vault pid onChain vs)))"

definition recoverVote ::
  "hash \<Rightarrow> abi_encode \<Rightarrow> signer \<Rightarrow> account \<Rightarrow> int \<Rightarrow> string \<Rightarrow> int \<Rightarrow> string
   \<Rightarrow> salt_error + (bool \<times> string \<times> string) option" where
  "recoverVote keccak encode sign a chainId vault pid onChain =
     bindE (saltVersionOf a) (\<lambda>v.
     try_versions keccak encode sign a chainId vault pid onChain
       (if v = ''v2'' then [''v2'', ''v1''] else [''v1'', ''v2'']))"

section \<open>A restarted agent can always reveal\<close>

text \<open>The salt an account derives under a version.\<close>

definition salt_under :: "hash \<Rightarrow> signer \<Rightarrow> account \<Rightarrow> int \<Rightarrow> string \<Rightarrow> int \<Rightarrow> string \<Rightarrow> string" where
  "salt_under keccak sign a chainId vault pid v =
     (case deriveSalt keccak sign a chainId vault pid v of Inr s \<Rightarrow> s | Inl _ \<Rightarrow> [])"

lemma deriveSalt_ok:
  assumes "is_address vault" "is_address (acct_address a)" "v = ''v1'' \<or> v = ''v2''"
  shows "deriveSalt keccak sign a chainId vault pid v = Inr (salt_under keccak sign a chainId vault pid v)"
  using assms by (auto simp: salt_under_def deriveSalt_def saltMessage_def Let_def)

lemma deriveSalt_version_free:
  "deriveSalt keccak sign (a\<lparr>acct_saltVersion := x\<rparr>) chainId vault pid v = deriveSalt keccak sign a chainId vault pid v"
  by (simp add: deriveSalt_def)

lemma salt_under_hex:
  assumes "\<And>s. hex_string 64 (keccak s)" "is_address vault" "is_address (acct_address a)" "v = ''v1'' \<or> v = ''v2''"
  shows "hex_string 64 (salt_under keccak sign a chainId vault pid v)"
  using assms by (auto simp: salt_under_def deriveSalt_def saltMessage_def Let_def)

lemma try_supports_found:
  assumes "hex_string 64 salt"
  shows "try_supports keccak encode pid voter salt onChain [True, False] =
    Inr (if lc (keccak (encode pid voter True salt)) = lc onChain then Some True
         else if lc (keccak (encode pid voter False salt)) = lc onChain then Some False else None)"
  using assms by (simp add: commitmentFor_def)

lemma recover_built:
  assumes "\<And>s. hex_string 64 (keccak s)"
    and "is_address vault" and "is_address (acct_address a)"
    and "buildVote keccak encode sign a chainId vault pid support = Inr vote"
    and "acct_saltVersion a' \<in> {None, Some ''v1'', Some ''v2''}" and "acct_address a' = acct_address a"
    and "\<And>b s b' s'. s \<in> salt_under keccak sign a chainId vault pid ` {''v1'', ''v2''} \<Longrightarrow>
        s' \<in> salt_under keccak sign a chainId vault pid ` {''v1'', ''v2''} \<Longrightarrow>
        lc (keccak (encode pid (acct_address a) b s)) = lc (keccak (encode pid (acct_address a) b' s')) \<Longrightarrow> b = b' \<and> s = s'"
    and "lc onChain = lc (bv_commitment vote)"
  shows "\<exists>v. recoverVote keccak encode sign a' chainId vault pid onChain = Inr (Some (support, bv_salt vote, v))"
proof -
  define S where "S v = salt_under keccak sign a chainId vault pid v" for v
  define K where "K b s = lc (keccak (encode pid (acct_address a) b s))" for b s
  have a': "a' = a\<lparr>acct_saltVersion := acct_saltVersion a'\<rparr>" using assms(6) by simp
  have der: "deriveSalt keccak sign a' chainId vault pid v = Inr (S v)" if "v = ''v1'' \<or> v = ''v2''" for v
    unfolding S_def using deriveSalt_ok [OF assms(2,3) that] deriveSalt_version_free a' by metis
  have hex: "hex_string 64 (S v)" if "v = ''v1'' \<or> v = ''v2''" for v
    unfolding S_def by (rule salt_under_hex [OF assms(1-3) that])
  obtain v0 salt c where b: "saltVersionOf a = Inr v0" "deriveSalt keccak sign a chainId vault pid v0 = Inr salt"
    "commitmentFor keccak encode pid (acct_address a) support salt = Inr c" "bv_salt vote = salt" "bv_commitment vote = c"
    using assms(4) by (auto simp: buildVote_def bindE_Inr)
  have v0: "v0 = ''v1'' \<or> v0 = ''v2''"
    using b(1) by (auto simp: saltVersionOf_def Let_def split: if_splits)
  have salt: "salt = S v0" using b(2) deriveSalt_ok [OF assms(2,3) v0] by (simp add: S_def)
  then have c: "lc (bv_commitment vote) = K support (S v0)"
    using b(3,5) hex [OF v0] by (simp add: commitmentFor_def K_def)
  have inj: "K b (S v) = K b' (S v') \<Longrightarrow> b = b' \<and> S v = S v'" if "v = ''v1'' \<or> v = ''v2''" "v' = ''v1'' \<or> v' = ''v2''" for b b' v v'
    using assms(7) [of "S v" "S v'" b b'] that by (auto simp: S_def K_def)
  have on: "lc onChain = K support (S v0)" using assms(8) c by simp
  have attempt: "try_supports keccak encode pid (acct_address a) (S v) onChain [True, False] =
      Inr (if S v = S v0 then Some support else None)" if "v = ''v1'' \<or> v = ''v2''" for v
  proof -
    have e: "K b (S v) = K support (S v0) \<longleftrightarrow> b = support \<and> S v = S v0" for b
      using inj [OF that v0, of b support] by auto
    show ?thesis
      unfolding try_supports_found [OF hex [OF that]] on K_def [symmetric] e by (cases support) auto
  qed
  have step: "try_versions keccak encode sign a' chainId vault pid onChain (v # vs) =
      (if S v = S v0 then Inr (Some (support, S v, v)) else try_versions keccak encode sign a' chainId vault pid onChain vs)"
    if "v = ''v1'' \<or> v = ''v2''" for v vs
    using der [OF that] attempt [OF that] assms(3,6) by (simp del: try_supports.simps)
  have "\<exists>v. try_versions keccak encode sign a' chainId vault pid onChain vs = Inr (Some (support, S v0, v))"
    if "vs = [''v2'', ''v1''] \<or> vs = [''v1'', ''v2'']" for vs
    using that v0 by (elim disjE) (simp_all add: step del: try_versions.simps)
  then show ?thesis
    using assms(5) b(4) salt by (auto simp: recoverVote_def saltVersionOf_def Let_def simp del: try_versions.simps)
qed

text \<open>
  A vote committed before a restart can be revealed after it: from the on-chain commitment
  alone (in any letter case) \<open>recoverVote\<close> gives back the direction and the salt that
  \<open>buildVote\<close> committed to, also when the account has switched salt schemes in between. Assumed
  of keccak256: its output is 32-byte hex, and it does not collide on the at most four
  candidate commitments.
\<close>

theorem recoverVote_inverts_buildVote:
  assumes "\<And>s. hex_string 64 (keccak s)"
    and "is_address vault" and "is_address (acct_address a)"
    and "buildVote keccak encode sign a chainId vault pid support = Inr vote"
    and "acct_saltVersion a' \<in> {None, Some ''v1'', Some ''v2''}" and "acct_address a' = acct_address a"
    and "\<And>b s b' s'. s \<in> salt_under keccak sign a chainId vault pid ` {''v1'', ''v2''} \<Longrightarrow>
        s' \<in> salt_under keccak sign a chainId vault pid ` {''v1'', ''v2''} \<Longrightarrow>
        lc (keccak (encode pid (acct_address a) b s)) = lc (keccak (encode pid (acct_address a) b' s')) \<Longrightarrow> b = b' \<and> s = s'"
    and "lc onChain = lc (bv_commitment vote)"
  shows "\<exists>v. recoverVote keccak encode sign a' chainId vault pid onChain = Inr (Some (support, bv_salt vote, v))"
  by (rule recover_built) (fact assms)+

text \<open>A toy hash and encoding that meet the assumptions on the candidates of one vote.\<close>

definition toy_keccak :: hash where
  "toy_keccak s = ''0x'' @ replicate 64 (if take 1 s = ''T'' then CHR ''a'' else if take 1 s = ''F'' then CHR ''b'' else CHR ''c'')"

definition toy_encode :: abi_encode where
  "toy_encode pid voter support salt = (if support then ''T'' else ''F'') @ salt"

definition toy_account :: account where
  "toy_account = \<lparr> acct_address = ''0x'' @ replicate 40 (CHR ''1''), acct_saltVersion = Some ''v2'' \<rparr>"

lemma toy_keccak_hex: "hex_string 64 (toy_keccak s)"
  by (simp add: toy_keccak_def hex_string_def list_all_iff hex_char_def)

lemma toy_salt_v1: "salt_under toy_keccak id toy_account 1 (acct_address toy_account) 7 ''v1'' = toy_keccak ''x''"
  and toy_salt_v2: "salt_under toy_keccak id toy_account 1 (acct_address toy_account) 7 ''v2'' = toy_keccak ''x''"
  by code_simp+

lemma toy_salt: "v = ''v1'' \<or> v = ''v2'' \<Longrightarrow>
    salt_under toy_keccak id toy_account 1 (acct_address toy_account) 7 v = toy_keccak ''x''"
  using toy_salt_v1 toy_salt_v2 by blast

lemma nth_prefixed_replicate: "(''0x'' @ replicate (Suc n) c) ! 2 = c"
  by (simp add: nth_append)

lemma toy_third_char: "lc (toy_keccak (toy_encode p w b s)) ! 2 = (if b then CHR ''a'' else CHR ''b'')"
proof -
  have k: "toy_keccak (toy_encode p w b s) = ''0x'' @ replicate (Suc 63) (if b then CHR ''a'' else CHR ''b'')"
    unfolding toy_keccak_def toy_encode_def by (cases b) simp_all
  have "lower_char (CHR ''a'') = CHR ''a''" "lower_char (CHR ''b'') = CHR ''b''" by code_simp+
  then have "lower_char (toy_keccak (toy_encode p w b s) ! 2) = (if b then CHR ''a'' else CHR ''b'')"
    unfolding k nth_prefixed_replicate by simp
  moreover have "2 < length (toy_keccak (toy_encode p w b s))" unfolding k by simp
  ultimately show ?thesis by (simp add: lc_def)
qed

lemma toy_commitments_differ:
  "lc (toy_keccak (toy_encode p w b s)) = lc (toy_keccak (toy_encode p w b' s)) \<Longrightarrow> b = b'"
proof -
  assume "lc (toy_keccak (toy_encode p w b s)) = lc (toy_keccak (toy_encode p w b' s))"
  then have "(if b then CHR ''a'' else CHR ''b'') = (if b' then CHR ''a'' else CHR ''b'')"
    by (subst (1 2) toy_third_char [symmetric]) (rule arg_cong [of _ _ "\<lambda>x. x ! 2"])
  then show "b = b'" by (cases b; cases b') simp_all
qed

lemma recoverVote_inverts_buildVote_witness:
  "\<exists>vote v. buildVote toy_keccak toy_encode id toy_account 1 (acct_address toy_account) 7 False = Inr vote
     \<and> recoverVote toy_keccak toy_encode id (toy_account\<lparr>acct_saltVersion := None\<rparr>) 1 (acct_address toy_account) 7
         (bv_commitment vote) = Inr (Some (False, bv_salt vote, v))"
proof -
  have addr: "is_address (acct_address toy_account)" by code_simp
  have "(case buildVote toy_keccak toy_encode id toy_account 1 (acct_address toy_account) 7 False of Inr _ \<Rightarrow> True | Inl _ \<Rightarrow> False)"
    by code_simp
  then obtain vote where vote: "buildVote toy_keccak toy_encode id toy_account 1 (acct_address toy_account) 7 False = Inr vote"
    by (auto split: sum.splits)
  have "\<exists>v. recoverVote toy_keccak toy_encode id (toy_account\<lparr>acct_saltVersion := None\<rparr>) 1 (acct_address toy_account) 7
         (bv_commitment vote) = Inr (Some (False, bv_salt vote, v))"
    by (rule recoverVote_inverts_buildVote [OF toy_keccak_hex addr addr vote])
       (auto simp: toy_salt dest: toy_commitments_differ)
  then show ?thesis using vote by blast
qed

end
