(* ===== verification/Sanctions.thy ===== *)
theory Sanctions
  imports Decimal
begin

text \<open>
  The sanctions screen, \<open>apps/vaults-ui/src/lib/sanctions.ts\<close>, which the UI, the API's payment gate
  and the reference agent share, and the agent's wrappers around its signers,
  \<open>packages/reference-agent/src/screen.mjs\<close>. The vendored list is a parameter.
\<close>

record sdn_list =
  sdn_fetchedAt :: int
  sdn_addresses :: "string list"

datatype screen_error = ListStale | Listed

definition SDN_LIST_MAX_AGE_DAYS :: int where "SDN_LIST_MAX_AGE_DAYS = 30"

definition isSanctionedAddress :: "sdn_list \<Rightarrow> string option \<Rightarrow> bool" where
  "isSanctionedAddress sdn address = (case address of
      None \<Rightarrow> False
    | Some a \<Rightarrow> a \<noteq> [] \<and> lc a \<in> lc ` set (sdn_addresses sdn))"

text \<open>\<open>sdnListAgeDays(now) > SDN_LIST_MAX_AGE_DAYS\<close>, over milliseconds.\<close>

definition sdn_stale :: "sdn_list \<Rightarrow> int \<Rightarrow> bool" where
  "sdn_stale sdn now \<longleftrightarrow> now - sdn_fetchedAt sdn > SDN_LIST_MAX_AGE_DAYS * 86400000"

definition STALE_LIST_EXEMPT_FUNCTIONS :: "string list" where
  "STALE_LIST_EXEMPT_FUNCTIONS = [''requestExit'', ''claimEscrowed'']"

definition assertNotSanctioned :: "sdn_list \<Rightarrow> string option \<Rightarrow> int \<Rightarrow> string option \<Rightarrow> screen_error option" where
  "assertNotSanctioned sdn address now functionName =
     (let exempt = (case functionName of Some f \<Rightarrow> f \<in> set STALE_LIST_EXEMPT_FUNCTIONS | None \<Rightarrow> False) in
      if \<not> exempt \<and> sdn_stale sdn now then Some ListStale
      else if isSanctionedAddress sdn address then Some Listed
      else None)"

lemma assertNotSanctioned_clean:
  "assertNotSanctioned sdn a now f = None \<Longrightarrow> \<not> isSanctionedAddress sdn a"
  by (simp add: assertNotSanctioned_def Let_def split: if_splits)

section \<open>Calls\<close>

datatype call_arg = CInt int | CStr string | CBool bool

record call =
  c_to :: string
  c_contract :: string
  c_functionName :: string
  c_args :: "call_arg list"

text \<open>
  \<open>screenWalletClient\<close>: the inner client is reached only past the screen. An error is its message;
  the list of calls says what the inner client was asked to send.
\<close>

definition settlesOwnExit :: "string \<Rightarrow> call \<Rightarrow> bool" where
  "settlesOwnExit from c \<longleftrightarrow> c_functionName c = ''settleQueuedExit''
     \<and> (case c_args c of CStr m # _ \<Rightarrow> lc m = lc from | _ \<Rightarrow> False)"

definition screened_write ::
  "sdn_list \<Rightarrow> int \<Rightarrow> (call \<Rightarrow> string + string) \<Rightarrow> string option \<Rightarrow> call \<Rightarrow> (string + string) \<times> call list" where
  "screened_write sdn now inner from c = (case from of
      None \<Rightarrow> (Inl ''no account address to screen'', [])
    | Some f \<Rightarrow>
        if f = [] then (Inl ''no account address to screen'', [])
        else (case assertNotSanctioned sdn (Some f) now
                (Some (if settlesOwnExit f c then ''requestExit'' else c_functionName c)) of
            Some ListStale \<Rightarrow> (Inl ''sanctions list out of date'', [])
          | Some Listed \<Rightarrow> (Inl ''address is listed'', [])
          | None \<Rightarrow> (inner c, [c])))"

text \<open>\<open>screenPayer\<close>, one of the two signing methods.\<close>

definition screened_sign ::
  "sdn_list \<Rightarrow> int \<Rightarrow> ('t \<Rightarrow> 's) \<Rightarrow> string \<Rightarrow> 't \<Rightarrow> screen_error option + 's" where
  "screened_sign sdn now sign address t =
     (if address = [] then Inl None
      else (case assertNotSanctioned sdn (Some address) now None of
          Some e \<Rightarrow> Inl (Some e)
        | None \<Rightarrow> Inr (sign t)))"

lemma screened_write_sent:
  assumes "screened_write sdn now inner from c = (r, calls)" "calls \<noteq> []"
  obtains f where "from = Some f" "f \<noteq> []" "\<not> isSanctionedAddress sdn (Some f)" "calls = [c]" "r = inner c"
  using assms assertNotSanctioned_clean
  by (auto simp: screened_write_def split: option.splits screen_error.splits if_splits)

lemma screened_write_fresh:
  assumes "f \<noteq> []" "\<not> isSanctionedAddress sdn (Some f)" "\<not> sdn_stale sdn now"
  shows "screened_write sdn now inner (Some f) c = (inner c, [c])"
  using assms by (simp add: screened_write_def assertNotSanctioned_def Let_def)

text \<open>
  Exits are never trapped by a stale list, and nothing else passes one: an account that is not
  on the list can request its exit, claim its escrow and settle its own queued exit however old the
  list is; every other call is refused once the list is older than thirty days; and a listed
  account sends nothing at all.
\<close>

theorem screen_never_traps_an_exit:
  assumes "f \<noteq> []"
  shows "(isSanctionedAddress sdn (Some f) \<longrightarrow> snd (screened_write sdn now inner (Some f) c) = [])
    \<and> (\<not> isSanctionedAddress sdn (Some f)
        \<and> (c_functionName c \<in> {''requestExit'', ''claimEscrowed''} \<or> settlesOwnExit f c)
        \<longrightarrow> screened_write sdn now inner (Some f) c = (inner c, [c]))
    \<and> (sdn_stale sdn now \<and> c_functionName c \<notin> {''requestExit'', ''claimEscrowed''} \<and> \<not> settlesOwnExit f c
        \<longrightarrow> snd (screened_write sdn now inner (Some f) c) = [])"
proof (intro conjI impI)
  assume "isSanctionedAddress sdn (Some f)"
  then show "snd (screened_write sdn now inner (Some f) c) = []"
    using screened_write_sent [OF prod.collapse [symmetric], of sdn now inner "Some f" c] by blast
next
  assume "\<not> isSanctionedAddress sdn (Some f)
        \<and> (c_functionName c \<in> {''requestExit'', ''claimEscrowed''} \<or> settlesOwnExit f c)"
  then show "screened_write sdn now inner (Some f) c = (inner c, [c])"
    using assms by (auto simp: screened_write_def assertNotSanctioned_def STALE_LIST_EXEMPT_FUNCTIONS_def Let_def)
next
  assume "sdn_stale sdn now \<and> c_functionName c \<notin> {''requestExit'', ''claimEscrowed''} \<and> \<not> settlesOwnExit f c"
  then show "snd (screened_write sdn now inner (Some f) c) = []"
    using assms by (simp add: screened_write_def assertNotSanctioned_def STALE_LIST_EXEMPT_FUNCTIONS_def Let_def)
qed

definition sample_sdn :: sdn_list where
  "sample_sdn = \<lparr> sdn_fetchedAt = 0, sdn_addresses = [''0xBad''] \<rparr>"

definition sample_exit_call :: call where
  "sample_exit_call = \<lparr> c_to = ''0xv'', c_contract = ''VaultCore'', c_functionName = ''settleQueuedExit'',
     c_args = [CStr ''0xME''] \<rparr>"

theorem screen_never_traps_an_exit_witness:
  "screened_write sample_sdn (99 * 86400000) (\<lambda>_. Inr ''0xh'') (Some ''0xme'') sample_exit_call
     = (Inr ''0xh'', [sample_exit_call])"
proof -
  have "\<not> isSanctionedAddress sample_sdn (Some ''0xme'')" "settlesOwnExit ''0xme'' sample_exit_call" by code_simp+
  then show ?thesis
    using screen_never_traps_an_exit [of "''0xme''" sample_sdn "99 * 86400000" "\<lambda>_. Inr ''0xh''" sample_exit_call] by blast
qed

end
