(* ===== verification/Agent_Act.thy ===== *)
theory Agent_Act
  imports Agent_Plan Agent_Salt Sanctions
begin

text \<open>
  Acting, \<open>packages/reference-agent/src/act.mjs\<close>: the call an intent stands for (\<open>resolveCall\<close>), and
  \<open>run\<close>, which simulates, describes or sends it; the check of known payloads,
  \<open>payloads.mjs\<close>; and one pass of the agent over its due intents, \<open>agent.mjs\<close>.

  The hash, the ABI encoding, the account's signatures (the n-th signature of a call by its
  number), the chain reads and the wallet are parameters. The human-readable rendering of a call
  and the ABI fragments are left out: a call is its target, contract, function and arguments.
\<close>

section \<open>Known payloads\<close>

definition payloadHash :: "hash \<Rightarrow> string \<Rightarrow> string" where
  "payloadHash keccak payload = lc (keccak payload)"

datatype payload_reject = BadKey | BadBytes | BadHash

definition payload_verdict :: "hash \<Rightarrow> string \<Rightarrow> string \<Rightarrow> payload_reject option" where
  "payload_verdict keccak key payload =
     (if \<not> hex_string 64 (lc key) then Some BadKey
      else if \<not> hex_bytes payload then Some BadBytes
      else if payloadHash keccak payload \<noteq> lc key then Some BadHash
      else None)"

fun verifyKnownPayloads ::
  "hash \<Rightarrow> (string, string) jsmap \<Rightarrow> (string, string) jsmap \<Rightarrow> (string \<times> payload_reject) list
   \<Rightarrow> (string, string) jsmap \<times> (string \<times> payload_reject) list" where
  "verifyKnownPayloads keccak [] verified rejected = (verified, rejected)"
| "verifyKnownPayloads keccak ((key, payload) # kps) verified rejected =
     (case payload_verdict keccak key payload of
        None \<Rightarrow> verifyKnownPayloads keccak kps (AList.update (lc key) payload verified) rejected
      | Some BadKey \<Rightarrow> verifyKnownPayloads keccak kps verified (rejected @ [(key, BadKey)])
      | Some r \<Rightarrow> verifyKnownPayloads keccak kps verified (rejected @ [(lc key, r)]))"

section \<open>From an intent to a call\<close>

datatype act_refusal =
    SkipWindowRefused
  | NeedsAccount
  | NeedsGovernance
  | SaltFailed salt_error
  | ReadFailed string
  | NoCommitment
  | NotRecovered
  | NotReproduced
  | NeedsPid
  | NotARebalance
  | NoPayloadBytes
  | NoActionHash
  | PayloadMismatch

record actor_env =
  ae_keccak :: hash
  ae_encode :: abi_encode
  ae_sign :: "nat \<Rightarrow> signer"
  ae_readCommitment :: "string \<Rightarrow> string \<Rightarrow> string + string option"
  ae_simulate :: "(call \<Rightarrow> string option \<Rightarrow> (bool \<times> string) option) option"
  ae_write :: "call list \<Rightarrow> call \<Rightarrow> string + string"
  ae_sdn :: sdn_list

record actor_cfg =
  af_execute :: bool
  af_governance :: "string option"
  af_usdc :: "string option"
  af_chainId :: int
  af_allowSkipWindow :: bool
  af_account :: "account option"
  af_hasWallet :: bool

record resolved =
  rs_call :: call
  rs_approvalFirst :: "call option"

definition lift_salt :: "salt_error + 'a \<Rightarrow> act_refusal + 'a" where
  "lift_salt r = (case r of Inl e \<Rightarrow> Inl (SaltFailed e) | Inr a \<Rightarrow> Inr a)"

abbreviation plain :: "call \<Rightarrow> resolved" where
  "plain c \<equiv> \<lparr> rs_call = c, rs_approvalFirst = None \<rparr>"

abbreviation vault_call :: "string \<Rightarrow> string \<Rightarrow> call_arg list \<Rightarrow> call" where
  "vault_call v f args \<equiv> \<lparr> c_to = v, c_contract = ''VaultCore'', c_functionName = f, c_args = args \<rparr>"

abbreviation gov_call :: "string \<Rightarrow> string \<Rightarrow> call_arg list \<Rightarrow> call" where
  "gov_call g f args \<equiv> \<lparr> c_to = g, c_contract = ''Governance'', c_functionName = f, c_args = args \<rparr>"

definition crankPid :: "int \<Rightarrow> act_refusal + int" where
  "crankPid pid = (if pid < 0 then Inl NeedsPid else Inr pid)"

definition resolve_deposit :: "actor_cfg \<Rightarrow> string \<Rightarrow> int \<Rightarrow> resolved" where
  "resolve_deposit cfg vault amount =
     \<lparr> rs_call = vault_call vault ''deposit'' [CInt amount],
       rs_approvalFirst = map_option (\<lambda>usdc. \<lparr> c_to = usdc, c_contract = ''USDC'', c_functionName = ''approve'',
           c_args = [CStr vault, CInt amount] \<rparr>) (af_usdc cfg) \<rparr>"

text \<open>The boolean is \<open>signerChecked\<close>: the determinism of the signer is proved once per session.\<close>

definition resolve_commit ::
  "actor_env \<Rightarrow> actor_cfg \<Rightarrow> bool \<Rightarrow> string \<Rightarrow> int \<Rightarrow> bool \<Rightarrow> (act_refusal + resolved) \<times> bool" where
  "resolve_commit env cfg checked vault pid support = (case af_account cfg of
      None \<Rightarrow> (Inl NeedsAccount, checked)
    | Some a \<Rightarrow> (case af_governance cfg of
        None \<Rightarrow> (Inl NeedsGovernance, checked)
      | Some g \<Rightarrow>
          (case (if checked then Inr []
                 else assertDeterministicSigner (ae_keccak env) (ae_sign env 0) (ae_sign env 1) a (af_chainId cfg) vault pid) of
             Inl e \<Rightarrow> (Inl (SaltFailed e), checked)
           | Inr _ \<Rightarrow>
               (bindE (lift_salt (buildVote (ae_keccak env) (ae_encode env) (ae_sign env 2) a (af_chainId cfg) vault pid support))
                  (\<lambda>vote. Inr (plain (gov_call g ''commitVote'' [CInt (bv_pid vote), CStr (bv_commitment vote)]))), True))))"

definition resolve_reveal :: "actor_env \<Rightarrow> actor_cfg \<Rightarrow> string \<Rightarrow> int \<Rightarrow> act_refusal + resolved" where
  "resolve_reveal env cfg vault pid = (case af_account cfg of
      None \<Rightarrow> Inl NeedsAccount
    | Some a \<Rightarrow> (case af_governance cfg of
        None \<Rightarrow> Inl NeedsGovernance
      | Some g \<Rightarrow> (case ae_readCommitment env vault (acct_address a) of
          Inl e \<Rightarrow> Inl (ReadFailed e)
        | Inr None \<Rightarrow> Inl NoCommitment
        | Inr (Some onChain) \<Rightarrow>
            if onChain = [] then Inl NoCommitment
            else bindE (lift_salt (recoverVote (ae_keccak env) (ae_encode env) (ae_sign env 0) a (af_chainId cfg) vault pid onChain))
            (\<lambda>recovered. case recovered of
               None \<Rightarrow> Inl NotRecovered
             | Some (support, salt, version) \<Rightarrow>
                 bindE (lift_salt (commitmentFor (ae_keccak env) (ae_encode env) pid (acct_address a) support salt))
                 (\<lambda>rebuilt. if lc rebuilt \<noteq> lc onChain then Inl NotReproduced
                    else Inr (plain (gov_call g ''revealVote'' [CInt pid, CBool support, CStr salt])))))))"

definition resolve_execute ::
  "actor_env \<Rightarrow> actor_cfg \<Rightarrow> int \<Rightarrow> int \<Rightarrow> string \<Rightarrow> string \<Rightarrow> act_refusal + resolved" where
  "resolve_execute env cfg pid0 ptype actionHash payload = (case af_governance cfg of
      None \<Rightarrow> Inl NeedsGovernance
    | Some g \<Rightarrow> bindE (crankPid pid0) (\<lambda>pid.
        if ptype \<noteq> CRANK_EXECUTE_PTYPE then Inl NotARebalance
        else if \<not> hex_bytes payload then Inl NoPayloadBytes
        else if \<not> hex_string 64 actionHash then Inl NoActionHash
        else if payloadHash (ae_keccak env) payload \<noteq> lc actionHash then Inl PayloadMismatch
        else Inr (plain (gov_call g ''execute'' [CInt pid, CStr payload]))))"

definition resolve_crank :: "actor_cfg \<Rightarrow> string \<Rightarrow> int \<Rightarrow> act_refusal + resolved" where
  "resolve_crank cfg f pid0 = (case af_governance cfg of
      None \<Rightarrow> Inl NeedsGovernance
    | Some g \<Rightarrow> bindE (crankPid pid0) (\<lambda>pid. Inr (plain (gov_call g f [CInt pid]))))"

text \<open>\<open>member\<close> is the world's member, the account the agent acts for.\<close>

definition resolveCall ::
  "actor_env \<Rightarrow> actor_cfg \<Rightarrow> string \<Rightarrow> bool \<Rightarrow> intent \<Rightarrow> (act_refusal + resolved) \<times> bool" where
  "resolveCall env cfg member checked i = (let v = i_vault i in case i_args i of
      ADeposit amount \<Rightarrow> (Inr (resolve_deposit cfg v amount), checked)
    | AActivate _ \<Rightarrow> (Inr (plain (vault_call v ''activate'' [CStr member])), checked)
    | AExit shares modeF \<Rightarrow> (Inr (plain (vault_call v ''requestExit'' [CInt shares])), checked)
    | ASettleQueuedExit \<Rightarrow> (Inr (plain (vault_call v ''settleQueuedExit'' [CStr member])), checked)
    | ASkipWindow \<Rightarrow>
        (if \<not> af_allowSkipWindow cfg then Inl SkipWindowRefused
         else Inr (plain (vault_call v ''skipWindow'' [])), checked)
    | ACommit pid support \<Rightarrow> resolve_commit env cfg checked v pid support
    | AReveal pid _ \<Rightarrow> (resolve_reveal env cfg v pid, checked)
    | AFinalize pid \<Rightarrow> (resolve_crank cfg ''finalize'' pid, checked)
    | AMarkExpired pid \<Rightarrow> (resolve_crank cfg ''markExpired'' pid, checked)
    | AExecute pid ptype h x _ \<Rightarrow> (resolve_execute env cfg pid ptype h x, checked))"

section \<open>Running an intent\<close>

definition is_crank :: "intent_args \<Rightarrow> bool" where
  "is_crank a = (case a of AFinalize _ \<Rightarrow> True | AExecute _ _ _ _ _ \<Rightarrow> True | AMarkExpired _ \<Rightarrow> True | _ \<Rightarrow> False)"

text \<open>\<open>None\<close> is a passed simulation; a failure says whether it was a revert, and why.\<close>

definition simulate :: "actor_env \<Rightarrow> actor_cfg \<Rightarrow> call \<Rightarrow> (bool \<times> string) option" where
  "simulate env cfg c = (case ae_simulate env of
      None \<Rightarrow> Some (False, ''this chain reader cannot simulate'')
    | Some f \<Rightarrow> f c (map_option acct_address (af_account cfg)))"

datatype run_result =
    Refused act_refusal
  | Dropped bool string
  | DryRun call "call option"
  | NoWallet
  | ApprovalFailed string
  | SendFailed string
  | Sent string call "string option"

text \<open>
  The wallet the actor holds is the screened one. \<open>sent0\<close> is what the inner wallet was asked to send so
  far; the third component of the result is what it is asked to send now.
\<close>

definition wallet_write ::
  "actor_env \<Rightarrow> actor_cfg \<Rightarrow> int \<Rightarrow> call list \<Rightarrow> call \<Rightarrow> (string + string) \<times> call list" where
  "wallet_write env cfg now sent0 c =
     screened_write (ae_sdn env) now (ae_write env sent0) (map_option acct_address (af_account cfg)) c"

definition send_call ::
  "actor_env \<Rightarrow> actor_cfg \<Rightarrow> int \<Rightarrow> call list \<Rightarrow> call list \<Rightarrow> string option \<Rightarrow> call \<Rightarrow> run_result \<times> call list" where
  "send_call env cfg now sent0 sent1 approvalHash c =
     (case wallet_write env cfg now (sent0 @ sent1) c of
        (Inl e, s) \<Rightarrow> (SendFailed e, sent1 @ s)
      | (Inr h, s) \<Rightarrow> (Sent h c approvalHash, sent1 @ s))"

definition send_resolved ::
  "actor_env \<Rightarrow> actor_cfg \<Rightarrow> int \<Rightarrow> call list \<Rightarrow> resolved \<Rightarrow> run_result \<times> call list" where
  "send_resolved env cfg now sent0 r = (case rs_approvalFirst r of
      None \<Rightarrow> send_call env cfg now sent0 [] None (rs_call r)
    | Some appr \<Rightarrow> (case wallet_write env cfg now sent0 appr of
        (Inl e, s) \<Rightarrow> (ApprovalFailed e, s)
      | (Inr h, s) \<Rightarrow> send_call env cfg now sent0 s (Some h) (rs_call r)))"

definition run_intent ::
  "actor_env \<Rightarrow> actor_cfg \<Rightarrow> string \<Rightarrow> int \<Rightarrow> call list \<Rightarrow> bool \<Rightarrow> intent \<Rightarrow> run_result \<times> bool \<times> call list" where
  "run_intent env cfg member now sent0 checked i =
     (case resolveCall env cfg member checked i of
        (Inl e, checked') \<Rightarrow> (Refused e, checked', [])
      | (Inr r, checked') \<Rightarrow>
          (case (if is_crank (i_args i) then simulate env cfg (rs_call r) else None) of
             Some (reverted, why) \<Rightarrow> (Dropped reverted why, checked', [])
           | None \<Rightarrow>
               if \<not> af_execute cfg then (DryRun (rs_call r) (rs_approvalFirst r), checked', [])
               else if \<not> af_hasWallet cfg then (NoWallet, checked', [])
               else (let (res, sent) = send_resolved env cfg now sent0 r in (res, checked', sent))))"

text \<open>The act phase of a tick: the due intents one after the other.\<close>

fun run_all ::
  "actor_env \<Rightarrow> actor_cfg \<Rightarrow> string \<Rightarrow> int \<Rightarrow> call list \<Rightarrow> bool \<Rightarrow> intent list \<Rightarrow> run_result list \<times> bool \<times> call list" where
  "run_all env cfg member now sent checked [] = ([], checked, sent)"
| "run_all env cfg member now sent checked (i # is) =
     (let (r, checked1, s) = run_intent env cfg member now sent checked i;
          (rs, checked2, sent2) = run_all env cfg member now (sent @ s) checked1 is
      in (r # rs, checked2, sent2))"

section \<open>A tick\<close>

text \<open>\<open>seedEntryMarks\<close>: the drawdown baseline of a vault first seen held, never overwritten.\<close>

definition seed_mark :: "(string, int) jsmap \<Rightarrow> observation \<Rightarrow> (string, int) jsmap" where
  "seed_mark marks ob =
     (let v = ob_vault ob in
      if ob_shares ob = 0 then marks
      else if map_of marks v \<noteq> None then marks
      else (case ch_navPerShareWad (ob_chain ob) of None \<Rightarrow> marks | Some n \<Rightarrow> AList.update v n marks))"

definition seedEntryMarks :: "(string, int) jsmap \<Rightarrow> world \<Rightarrow> (string, int) jsmap" where
  "seedEntryMarks marks w = foldl seed_mark marks (w_vaults w)"

record agent_state =
  as_marks :: "(string, int) jsmap"
  as_checked :: bool
  as_sent :: "call list"

text \<open>
  \<open>tick\<close> from a perceived world on, and \<open>loop\<close> over what successive perceptions gave: a failed
  perception or plan ends that tick only.
\<close>

definition agent_tick ::
  "actor_env \<Rightarrow> actor_cfg \<Rightarrow> agent_config \<Rightarrow> string \<Rightarrow> int \<Rightarrow> agent_state \<Rightarrow> world
   \<Rightarrow> (plan_error + run_result list) \<times> agent_state" where
  "agent_tick env cfg pcfg member nowMs st w =
     (let marks = seedEntryMarks (as_marks st) w in
      case plan pcfg marks w of
        Inl e \<Rightarrow> (Inl e, st\<lparr>as_marks := marks\<rparr>)
      | Inr intents \<Rightarrow>
          let (due, deferred) = partitionDue intents (w_nowSec w);
              (rs, checked, sent) = run_all env cfg member nowMs (as_sent st) (as_checked st) due
          in (Inr rs, \<lparr> as_marks = marks, as_checked = checked, as_sent = sent \<rparr>))"

fun agent_loop ::
  "actor_env \<Rightarrow> actor_cfg \<Rightarrow> agent_config \<Rightarrow> string \<Rightarrow> agent_state \<Rightarrow> (int \<times> world option) list \<Rightarrow> agent_state" where
  "agent_loop env cfg pcfg member st [] = st"
| "agent_loop env cfg pcfg member st ((nowMs, None) # ticks) = agent_loop env cfg pcfg member st ticks"
| "agent_loop env cfg pcfg member st ((nowMs, Some w) # ticks) =
     agent_loop env cfg pcfg member (snd (agent_tick env cfg pcfg member nowMs st w)) ticks"

section \<open>What can reach the wallet\<close>

definition account_addr :: "actor_cfg \<Rightarrow> string option" where
  "account_addr cfg = map_option acct_address (af_account cfg)"

definition may_send :: "actor_env \<Rightarrow> actor_cfg \<Rightarrow> bool" where
  "may_send env cfg \<longleftrightarrow> account_addr cfg \<noteq> None \<and> \<not> isSanctionedAddress (ae_sdn env) (account_addr cfg)"

lemma wallet_write_sent:
  assumes "wallet_write env cfg now sent0 c = (r, s)"
  shows "set s \<subseteq> {c} \<and> (s \<noteq> [] \<longrightarrow> may_send env cfg)"
proof (cases "s = []")
  case False
  then show ?thesis
    using screened_write_sent [OF assms [unfolded wallet_write_def]]
    by (metis account_addr_def may_send_def empty_set list.simps(15) option.distinct(1) subset_refl)
qed simp

lemma send_call_sent:
  assumes "send_call env cfg now sent0 sent1 h c = (r, s)"
  obtains s' where "s = sent1 @ s'" "set s' \<subseteq> {c}" "s' \<noteq> [] \<longrightarrow> may_send env cfg"
proof -
  obtain w s' where w: "wallet_write env cfg now (sent0 @ sent1) c = (w, s')" by fastforce
  have "s = sent1 @ s'" using assms w by (cases w) (simp_all add: send_call_def)
  then show thesis using that wallet_write_sent [OF w] by blast
qed

lemma send_resolved_sent:
  assumes "send_resolved env cfg now sent0 r = (res, s)"
  shows "set s \<subseteq> insert (rs_call r) (set_option (rs_approvalFirst r))
    \<and> (s \<noteq> [] \<longrightarrow> may_send env cfg)"
proof (cases "rs_approvalFirst r")
  case None
  obtain s' where "s = [] @ s'" "set s' \<subseteq> {rs_call r}"
    "s' \<noteq> [] \<longrightarrow> may_send env cfg"
    using assms None by (auto simp: send_resolved_def elim: send_call_sent)
  then show ?thesis by auto
next
  case (Some appr)
  obtain w s0 where w: "wallet_write env cfg now sent0 appr = (w, s0)" by fastforce
  show ?thesis
  proof (cases w)
    case (Inl e)
    then show ?thesis using assms Some w wallet_write_sent [OF w] by (auto simp: send_resolved_def)
  next
    case (Inr h)
    then have "send_call env cfg now sent0 s0 (Some h) (rs_call r) = (res, s)"
      using assms Some w by (simp add: send_resolved_def)
    then obtain s' where "s = s0 @ s'" "set s' \<subseteq> {rs_call r}"
      "s' \<noteq> [] \<longrightarrow> may_send env cfg"
      by (rule send_call_sent)
    then show ?thesis using wallet_write_sent [OF w] Some by auto
  qed
qed

text \<open>What a sent call comes from: an intent that resolves to it, simulated first when it is a crank.\<close>

definition stems_from :: "actor_env \<Rightarrow> actor_cfg \<Rightarrow> string \<Rightarrow> intent \<Rightarrow> call \<Rightarrow> bool" where
  "stems_from env cfg member i c \<longleftrightarrow> af_execute cfg \<and> may_send env cfg \<and> (\<exists>checked r.
     fst (resolveCall env cfg member checked i) = Inr r \<and> (c = rs_call r \<or> rs_approvalFirst r = Some c)
     \<and> (is_crank (i_args i) \<longrightarrow> simulate env cfg (rs_call r) = None))"

lemma run_intent_sent:
  assumes "run_intent env cfg member now sent0 checked i = (res, checked', s)" "c \<in> set s"
  shows "stems_from env cfg member i c"
proof -
  obtain rc checked1 where r0: "resolveCall env cfg member checked i = (rc, checked1)" by fastforce
  obtain r where r: "rc = Inr r" using assms r0 by (cases rc) (auto simp: run_intent_def)
  have sim: "is_crank (i_args i) \<longrightarrow> simulate env cfg (rs_call r) = None"
    using assms r0 r by (auto simp: run_intent_def split: option.splits prod.splits)
  have ex: "af_execute cfg"
    using assms r0 r by (auto simp: run_intent_def split: option.splits prod.splits if_splits)
  obtain res' where "send_resolved env cfg now sent0 r = (res', s)"
    using assms r0 r by (auto simp: run_intent_def split: option.splits prod.splits if_splits)
  then have "c \<in> insert (rs_call r) (set_option (rs_approvalFirst r))" "may_send env cfg"
    using send_resolved_sent assms(2) by (blast, metis send_resolved_sent empty_iff empty_set)
  then show ?thesis using ex sim r0 r unfolding stems_from_def by (metis fst_conv insertE elem_set)
qed

lemma run_all_sent:
  "run_all env cfg member now sent checked is = (rs, checked', sent') \<Longrightarrow> c \<in> set sent' \<Longrightarrow>
     c \<in> set sent \<or> (\<exists>i \<in> set is. stems_from env cfg member i c)"
proof (induction "is" arbitrary: sent checked rs)
  case (Cons i "is")
  obtain r ch1 s where one: "run_intent env cfg member now sent checked i = (r, ch1, s)" by (metis prod_cases3)
  obtain rs2 where rest: "run_all env cfg member now (sent @ s) ch1 is = (rs2, checked', sent')"
    using Cons.prems(1) one by (auto split: prod.splits)
  from Cons.IH [OF rest Cons.prems(2)] show ?case using run_intent_sent [OF one] by auto
qed simp

lemma decideCrank_execute:
  assumes "fst (decideCrank g chainNow now timing cfg payloads held) = CrankExecute pid pt h x u"
  obtains p where "gr_proposal g = Some p" "pid = gp_pid p" "pt = gp_ptype p" "h = gp_actionHash p"
    "gp_status p = GPassed"
  using assms
  by (auto simp: decideCrank_def crank_verdict_def Let_def split: if_splits option.splits gov_status.splits)

lemma plan_execute_intent:
  assumes "plan pcfg marks w = Inr is" "i \<in> set is" "i_args i = AExecute pid pt h x u"
  obtains ob p where "ob \<in> set (w_vaults w)" "gr_proposal (ob_governance ob) = Some p" "pid = gp_pid p"
    "pt = gp_ptype p" "h = gp_actionHash p" "gp_status p = GPassed"
proof -
  obtain raw where raw: "plan_vaults pcfg marks w (w_heldVaultCount w) (w_vaults w) = Inr raw" "is = sort_intents raw"
    using assms(1) by (auto simp: plan_def bindE_Inr)
  have "i \<in> set raw" using assms(2) raw(2) by (simp add: sort_intents_def)
  from plan_vaults_member [OF raw(1) this] obtain ob held1 is1 held2 where
    ob: "ob \<in> set (w_vaults w)" "plan_vault pcfg marks w held1 ob = Inr (is1, held2)" "i \<in> set is1" by blast
  from ob(2) obtain vote pos where parts:
    "position_intents pcfg marks w held1 ob = Inr (pos, held2)"
    "is1 = vote_intents (w_nowSec w) ob vote @ crank_intents (w_nowSec w) ob (fst (decideCrank (ob_governance ob)
         (w_chainNowSec w) (w_nowSec w) (ac_timing pcfg) (ac_crank pcfg) (w_crankPayloads w) (ob_held ob \<or> ob_pending ob)))
       @ settle_intents (w_nowSec w) ob @ pos"
    by (rule plan_vault_Inr) blast
  have pos: "i \<notin> set pos"
    using parts(1) assms(3)
    by (auto simp: position_intents_def bindE_Inr exit_intents_def entry_intents_def Let_def
             split: if_splits entry_decision.splits)
  have vote: "i \<notin> set (vote_intents (w_nowSec w) ob vote)" using vote_intents_kind assms(3) by fastforce
  have settle: "i \<notin> set (settle_intents (w_nowSec w) ob)" using settle_intents_kind assms(3) by fastforce
  have "i \<in> set (crank_intents (w_nowSec w) ob (fst (decideCrank (ob_governance ob)
         (w_chainNowSec w) (w_nowSec w) (ac_timing pcfg) (ac_crank pcfg) (w_crankPayloads w) (ob_held ob \<or> ob_pending ob))))"
    using ob(3) pos vote settle unfolding parts(2) by simp
  then have "fst (decideCrank (ob_governance ob) (w_chainNowSec w) (w_nowSec w) (ac_timing pcfg) (ac_crank pcfg)
       (w_crankPayloads w) (ob_held ob \<or> ob_pending ob)) = CrankExecute pid pt h x u"
    using assms(3) by (auto simp: crank_intents_def split: crank_action.splits)
  then show thesis by (rule decideCrank_execute) (rule that [OF ob(1)])
qed

text \<open>The guards of each kind of call, as the resolved call shows them.\<close>

lemma resolve_execute_ok:
  assumes "resolve_execute env cfg pid pt h x = Inr r"
  obtains g where "af_governance cfg = Some g" "pt = CRANK_EXECUTE_PTYPE" "hex_bytes x"
    "payloadHash (ae_keccak env) x = lc h" "r = plain (gov_call g ''execute'' [CInt pid, CStr x])"
  using assms
  by (auto simp: resolve_execute_def crankPid_def bindE_Inr split: option.splits if_splits)

lemma lift_salt_Inr: "lift_salt m = Inr a \<longleftrightarrow> m = Inr a"
  by (auto simp: lift_salt_def split: sum.splits)

lemma resolve_reveal_ok:
  assumes "resolve_reveal env cfg vault pid = Inr r"
  obtains a g onChain support salt where "af_account cfg = Some a" "af_governance cfg = Some g"
    "ae_readCommitment env vault (acct_address a) = Inr (Some onChain)"
    "lc (ae_keccak env (ae_encode env pid (acct_address a) support salt)) = lc onChain"
    "r = plain (gov_call g ''revealVote'' [CInt pid, CBool support, CStr salt])"
proof -
  obtain a g where ag: "af_account cfg = Some a" "af_governance cfg = Some g"
    using assms by (auto simp: resolve_reveal_def split: option.splits)
  obtain onChain where on: "ae_readCommitment env vault (acct_address a) = Inr (Some onChain)" "onChain \<noteq> []"
    using assms ag by (auto simp: resolve_reveal_def split: option.splits sum.splits if_splits)
  obtain rec where rec: "recoverVote (ae_keccak env) (ae_encode env) (ae_sign env 0) a (af_chainId cfg) vault pid onChain = Inr rec"
    using assms ag on by (auto simp: resolve_reveal_def bindE_Inr lift_salt_Inr)
  obtain support salt version where sv: "rec = Some (support, salt, version)"
    using assms ag on rec by (cases rec) (auto simp: resolve_reveal_def bindE_Inr lift_salt_Inr)
  obtain rebuilt where rb: "commitmentFor (ae_keccak env) (ae_encode env) pid (acct_address a) support salt = Inr rebuilt"
    "lc rebuilt = lc onChain" "r = plain (gov_call g ''revealVote'' [CInt pid, CBool support, CStr salt])"
    using assms ag on rec sv by (auto simp: resolve_reveal_def bindE_Inr lift_salt_Inr split: if_splits)
  have "rebuilt = ae_keccak env (ae_encode env pid (acct_address a) support salt)"
    using rb(1) by (simp add: commitmentFor_def split: if_splits)
  then show thesis using that ag on(1) rb(2,3) by blast
qed

lemma resolve_commit_ok:
  assumes "fst (resolve_commit env cfg checked vault pid support) = Inr r"
  obtains g c where "af_governance cfg = Some g" "r = plain (gov_call g ''commitVote'' [CInt pid, CStr c])"
  using assms
  by (auto simp: resolve_commit_def bindE_Inr lift_salt_def buildVote_def
           split: option.splits sum.splits if_splits)

lemma resolve_crank_ok:
  assumes "resolve_crank cfg f pid = Inr r"
  obtains g where "af_governance cfg = Some g" "r = plain (gov_call g f [CInt pid])"
  using assms by (auto simp: resolve_crank_def crankPid_def bindE_Inr split: option.splits if_splits)

definition reproduces :: "actor_env \<Rightarrow> actor_cfg \<Rightarrow> call \<Rightarrow> bool" where
  "reproduces env cfg c \<longleftrightarrow> (\<exists>a vault onChain pid support salt. af_account cfg = Some a
     \<and> ae_readCommitment env vault (acct_address a) = Inr (Some onChain)
     \<and> c_args c = [CInt pid, CBool support, CStr salt]
     \<and> lc (ae_keccak env (ae_encode env pid (acct_address a) support salt)) = lc onChain)"

lemma stems_from_cases:
  assumes "stems_from env cfg member i c"
  shows "(c_functionName c = ''skipWindow'' \<longrightarrow> af_allowSkipWindow cfg)
    \<and> (c_functionName c \<in> {''finalize'', ''execute'', ''markExpired''} \<longrightarrow> simulate env cfg c = None)
    \<and> (c_functionName c = ''revealVote'' \<longrightarrow> reproduces env cfg c)
    \<and> (c_functionName c = ''execute'' \<longrightarrow> (\<exists>pid h x u. i_args i = AExecute pid CRANK_EXECUTE_PTYPE h x u
          \<and> c_args c = [CInt pid, CStr x] \<and> payloadHash (ae_keccak env) x = lc h))"
proof -
  obtain checked r where r: "fst (resolveCall env cfg member checked i) = Inr r"
    "c = rs_call r \<or> rs_approvalFirst r = Some c" "is_crank (i_args i) \<longrightarrow> simulate env cfg (rs_call r) = None"
    using assms by (auto simp: stems_from_def)
  show ?thesis
  proof (cases "i_args i")
    case (AReveal pid u)
    then have "resolve_reveal env cfg (i_vault i) pid = Inr r" using r(1) by (simp add: resolveCall_def)
    then show ?thesis by (rule resolve_reveal_ok) (use r(2) in \<open>auto simp: reproduces_def\<close>)
  next
    case (ACommit pid b)
    then have "fst (resolve_commit env cfg checked (i_vault i) pid b) = Inr r" using r(1) by (simp add: resolveCall_def)
    then show ?thesis by (rule resolve_commit_ok) (use r(2) in auto)
  next
    case (AExecute pid pt h x u)
    then have "resolve_execute env cfg pid pt h x = Inr r" using r(1) by (simp add: resolveCall_def)
    then show ?thesis by (rule resolve_execute_ok) (use r(2,3) AExecute in \<open>auto simp: is_crank_def\<close>)
  next
    case (AFinalize pid)
    then have "resolve_crank cfg ''finalize'' pid = Inr r" using r(1) by (simp add: resolveCall_def)
    then show ?thesis by (rule resolve_crank_ok) (use r(2,3) AFinalize in \<open>auto simp: is_crank_def\<close>)
  next
    case (AMarkExpired pid)
    then have "resolve_crank cfg ''markExpired'' pid = Inr r" using r(1) by (simp add: resolveCall_def)
    then show ?thesis by (rule resolve_crank_ok) (use r(2,3) AMarkExpired in \<open>auto simp: is_crank_def\<close>)
  next
    case (ADeposit n)
    then show ?thesis using r(1,2) by (auto simp: resolveCall_def resolve_deposit_def Let_def)
  next
    case ASkipWindow
    then show ?thesis using r(1,2) by (auto simp: resolveCall_def Let_def split: if_splits)
  qed (use r(1,2) in \<open>auto simp: resolveCall_def Let_def\<close>)
qed

text \<open>
  C1. What one tick can put on the chain: nothing in dry-run, nothing from a listed account; a
  skip-window only if the operator allowed it; a crank only if its exact calldata passed a
  simulation; an execution only of a payload that hashes to the action hash of a passed Rebalance
  proposal the agent has read; and a reveal only if it reproduces the commitment read from the chain.
\<close>

theorem tick_sends_only_what_it_may:
  assumes "agent_tick env cfg pcfg member now st w = (r, st')"
    and "c \<in> set (as_sent st')" and "c \<notin> set (as_sent st)"
  shows "af_execute cfg \<and> may_send env cfg
    \<and> (c_functionName c = ''skipWindow'' \<longrightarrow> af_allowSkipWindow cfg)
    \<and> (c_functionName c \<in> {''finalize'', ''execute'', ''markExpired''} \<longrightarrow> simulate env cfg c = None)
    \<and> (c_functionName c = ''revealVote'' \<longrightarrow> reproduces env cfg c)
    \<and> (c_functionName c = ''execute'' \<longrightarrow> (\<exists>ob \<in> set (w_vaults w). \<exists>p x. gr_proposal (ob_governance ob) = Some p
          \<and> gp_status p = GPassed \<and> gp_ptype p = CRANK_EXECUTE_PTYPE \<and> c_args c = [CInt (gp_pid p), CStr x]
          \<and> payloadHash (ae_keccak env) x = lc (gp_actionHash p)))"
proof -
  define marks where "marks = seedEntryMarks (as_marks st) w"
  obtain intents where plan: "plan pcfg marks w = Inr intents"
    using assms by (cases "plan pcfg marks w") (auto simp: agent_tick_def marks_def [symmetric] Let_def)
  obtain rs checked sent where run: "run_all env cfg member now (as_sent st) (as_checked st)
      (fst (partitionDue intents (w_nowSec w))) = (rs, checked, sent)" by (metis prod_cases3)
  have "as_sent st' = sent"
    using assms(1) plan run by (auto simp: agent_tick_def marks_def [symmetric] Let_def split: prod.splits)
  then obtain i where i: "i \<in> set intents" "stems_from env cfg member i c"
    using run_all_sent [OF run] assms(2,3) by (auto simp: partitionDue_def)
  have exec: "\<exists>ob \<in> set (w_vaults w). \<exists>p x. gr_proposal (ob_governance ob) = Some p
          \<and> gp_status p = GPassed \<and> gp_ptype p = CRANK_EXECUTE_PTYPE \<and> c_args c = [CInt (gp_pid p), CStr x]
          \<and> payloadHash (ae_keccak env) x = lc (gp_actionHash p)" if "c_functionName c = ''execute''"
  proof -
    have "\<exists>pid h x u. i_args i = AExecute pid CRANK_EXECUTE_PTYPE h x u
          \<and> c_args c = [CInt pid, CStr x] \<and> payloadHash (ae_keccak env) x = lc h"
      using stems_from_cases [OF i(2)] that by (elim conjE) (rule mp)
    then obtain pid h x u where a: "i_args i = AExecute pid CRANK_EXECUTE_PTYPE h x u" "c_args c = [CInt pid, CStr x]"
      "payloadHash (ae_keccak env) x = lc h" by (elim exE conjE) (rule that)
    from plan_execute_intent [OF plan i(1) a(1)] obtain ob p where p:
      "ob \<in> set (w_vaults w)" "gr_proposal (ob_governance ob) = Some p" "pid = gp_pid p"
      "CRANK_EXECUTE_PTYPE = gp_ptype p" "h = gp_actionHash p" "gp_status p = GPassed" by metis
    then show ?thesis using a(2,3) by (intro bexI [OF _ p(1)] exI [of _ p] exI [of _ x]) simp
  qed
  have "af_execute cfg" "may_send env cfg" using i(2) by (simp_all add: stems_from_def)
  then show ?thesis using stems_from_cases [OF i(2)] exec by blast
qed

section \<open>Dry-run and execution take the same path\<close>

lemma resolve_mode:
  "resolve_deposit (cfg\<lparr>af_execute := b\<rparr>) v n = resolve_deposit cfg v n"
  "resolve_commit env (cfg\<lparr>af_execute := b\<rparr>) checked v pid s = resolve_commit env cfg checked v pid s"
  "resolve_reveal env (cfg\<lparr>af_execute := b\<rparr>) v pid = resolve_reveal env cfg v pid"
  "resolve_execute env (cfg\<lparr>af_execute := b\<rparr>) pid pt h x = resolve_execute env cfg pid pt h x"
  "resolve_crank (cfg\<lparr>af_execute := b\<rparr>) f pid = resolve_crank cfg f pid"
  by (simp_all add: resolve_deposit_def resolve_commit_def resolve_reveal_def resolve_execute_def resolve_crank_def
      split: option.split sum.split)

lemma resolveCall_mode: "resolveCall env (cfg\<lparr>af_execute := b\<rparr>) member checked i = resolveCall env cfg member checked i"
  by (cases "i_args i") (simp_all add: resolveCall_def resolve_mode Let_def)

lemma simulate_mode: "simulate env (cfg\<lparr>af_execute := b\<rparr>) c = simulate env cfg c"
  by (simp add: simulate_def split: option.split)

definition accepting :: "actor_env \<Rightarrow> actor_cfg \<Rightarrow> int \<Rightarrow> bool" where
  "accepting env cfg now \<longleftrightarrow> af_hasWallet cfg \<and> may_send env cfg \<and> account_addr cfg \<noteq> Some []
     \<and> \<not> sdn_stale (ae_sdn env) now \<and> (\<forall>sent c. \<exists>h. ae_write env sent c = Inr h)"

lemma accepting_write:
  assumes "accepting env cfg now"
  obtains h where "wallet_write env (cfg\<lparr>af_execute := b\<rparr>) now sent c = (Inr h, [c])"
proof -
  obtain a where a: "account_addr cfg = Some a" "a \<noteq> []" "\<not> isSanctionedAddress (ae_sdn env) (Some a)"
    using assms by (auto simp: accepting_def may_send_def)
  obtain h where "ae_write env sent c = Inr h" using assms by (auto simp: accepting_def)
  then have "wallet_write env (cfg\<lparr>af_execute := b\<rparr>) now sent c = (Inr h, [c])"
    using screened_write_fresh [OF a(2,3), of now] assms a(1)
    by (auto simp: wallet_write_def accepting_def account_addr_def)
  then show thesis by (rule that)
qed

lemma accepting_send:
  assumes "accepting env cfg now"
  shows "\<exists>h ah. send_resolved env (cfg\<lparr>af_execute := b\<rparr>) now sent r
     = (Sent h (rs_call r) ah, (case rs_approvalFirst r of None \<Rightarrow> [rs_call r] | Some a \<Rightarrow> [a, rs_call r]))"
proof (cases "rs_approvalFirst r")
  case None
  obtain h where "wallet_write env (cfg\<lparr>af_execute := b\<rparr>) now sent (rs_call r) = (Inr h, [rs_call r])"
    by (rule accepting_write [OF assms])
  then show ?thesis using None by (simp add: send_resolved_def send_call_def)
next
  case (Some a)
  obtain h where "wallet_write env (cfg\<lparr>af_execute := b\<rparr>) now sent a = (Inr h, [a])"
    by (rule accepting_write [OF assms])
  moreover obtain h' where "wallet_write env (cfg\<lparr>af_execute := b\<rparr>) now (sent @ [a]) (rs_call r) = (Inr h', [rs_call r])"
    by (rule accepting_write [OF assms])
  ultimately show ?thesis using Some by (simp add: send_resolved_def send_call_def)
qed

lemma run_intent_eq:
  assumes "resolveCall env cfg member checked i = (Inr r, ch)"
  shows "run_intent env (cfg\<lparr>af_execute := b\<rparr>) member now sent checked i =
    (case (if is_crank (i_args i) then simulate env cfg (rs_call r) else None) of
       Some (reverted, why) \<Rightarrow> (Dropped reverted why, ch, [])
     | None \<Rightarrow>
         if \<not> b then (DryRun (rs_call r) (rs_approvalFirst r), ch, [])
         else if \<not> af_hasWallet cfg then (NoWallet, ch, [])
         else (let (res, s) = send_resolved env (cfg\<lparr>af_execute := b\<rparr>) now sent r in (res, ch, s)))"
  unfolding run_intent_def resolveCall_mode simulate_mode assms by simp

text \<open>
  Dry-run describes what execution would do: for any intent, the same call with the same
  approval before it is described in dry-run as an accepting wallet is asked to send in execution,
  and an intent refused or dropped in one mode is refused or dropped for the same reason in the
  other; a dry-run itself sends nothing.
\<close>

theorem dry_run_describes_what_execute_sends:
  assumes "accepting env cfg now"
    and "run_intent env (cfg\<lparr>af_execute := False\<rparr>) member now sent checked i = (dry, ch1, sent1)"
    and "run_intent env (cfg\<lparr>af_execute := True\<rparr>) member now sent checked i = (live, ch2, sent2)"
  shows "sent1 = [] \<and> ch1 = ch2
    \<and> (case dry of
         DryRun c appr \<Rightarrow> sent2 = (case appr of None \<Rightarrow> [c] | Some a \<Rightarrow> [a, c]) \<and> (\<exists>h ah. live = Sent h c ah)
       | _ \<Rightarrow> live = dry \<and> sent2 = [])"
proof -
  obtain rc ch where rc: "resolveCall env cfg member checked i = (rc, ch)" by fastforce
  show ?thesis
  proof (cases rc)
    case (Inl e)
    then show ?thesis using assms(2,3) rc by (auto simp: run_intent_def resolveCall_mode)
  next
    case (Inr r)
    show ?thesis
    proof (cases "if is_crank (i_args i) then simulate env cfg (rs_call r) else None")
      case None
      obtain h ah where "send_resolved env (cfg\<lparr>af_execute := True\<rparr>) now sent r
         = (Sent h (rs_call r) ah, (case rs_approvalFirst r of None \<Rightarrow> [rs_call r] | Some a \<Rightarrow> [a, rs_call r]))"
        using accepting_send [OF assms(1)] by blast
      moreover have "af_hasWallet cfg" using assms(1) by (simp add: accepting_def)
      ultimately have "live = Sent h (rs_call r) ah" "ch2 = ch"
        "sent2 = (case rs_approvalFirst r of None \<Rightarrow> [rs_call r] | Some a \<Rightarrow> [a, rs_call r])"
        using assms(3) unfolding run_intent_eq [OF rc [unfolded Inr]] None by simp_all
      moreover have "dry = DryRun (rs_call r) (rs_approvalFirst r)" "ch1 = ch" "sent1 = []"
        using assms(2) unfolding run_intent_eq [OF rc [unfolded Inr]] None by simp_all
      ultimately show ?thesis by simp
    next
      case (Some x)
      then have "live = Dropped (fst x) (snd x)" "dry = live" "ch1 = ch" "ch2 = ch" "sent1 = []" "sent2 = []"
        using assms(2,3) unfolding run_intent_eq [OF rc [unfolded Inr]] Some by (cases x, simp)+
      then show ?thesis by simp
    qed
  qed
qed

section \<open>A restarted agent reveals what it committed\<close>

text \<open>
  C8. The vote survives a restart: if the agent's commit intent resolved to a call, and the chain
  now holds that commitment (in any letter case), then the reveal intent of a fresh process with
  the same account, whatever its salt scheme is set to by then, resolves to a reveal of the same
  direction. Assumed: the signer is deterministic, the hash gives 32-byte hex and does not
  collide on the candidates of this vote.
\<close>

theorem reveal_after_restart:
  assumes "fst (resolveCall env cfg member checked \<lparr>i_args = ACommit pid support, i_vault = vault, i_dueAtSec = t\<rparr>)
      = Inr (plain (gov_call g ''commitVote'' [CInt pid, CStr commitment]))"
    and "af_account cfg = Some a" "is_address vault" "is_address (acct_address a)"
    and "af_account cfg' = Some a'" "acct_address a' = acct_address a"
    and "acct_saltVersion a' \<in> {None, Some ''v1'', Some ''v2''}"
    and "af_chainId cfg' = af_chainId cfg" "af_governance cfg' = Some g" "\<forall>n. ae_sign env n = sign"
    and "ae_readCommitment env vault (acct_address a) = Inr (Some onChain)" "lc onChain = lc commitment" "onChain \<noteq> []"
    and "\<forall>s. hex_string 64 (ae_keccak env s)"
    and "\<forall>b s b' s'. s \<in> salt_under (ae_keccak env) sign a (af_chainId cfg) vault pid ` {''v1'', ''v2''}
        \<and> s' \<in> salt_under (ae_keccak env) sign a (af_chainId cfg) vault pid ` {''v1'', ''v2''}
        \<and> lc (ae_keccak env (ae_encode env pid (acct_address a) b s)) = lc (ae_keccak env (ae_encode env pid (acct_address a) b' s'))
        \<longrightarrow> b = b' \<and> s = s'"
  shows "\<exists>salt. resolveCall env cfg' member' checked' \<lparr>i_args = AReveal pid u, i_vault = vault, i_dueAtSec = t'\<rparr>
      = (Inr (plain (gov_call g ''revealVote'' [CInt pid, CBool support, CStr salt])), checked')"
proof -
  obtain vote where vote: "buildVote (ae_keccak env) (ae_encode env) sign a (af_chainId cfg) vault pid support = Inr vote"
    "bv_commitment vote = commitment"
    using assms(1,2,10)
    by (auto simp: resolveCall_def resolve_commit_def bindE_Inr lift_salt_Inr split: option.splits sum.splits if_splits)
  obtain v where rec: "recoverVote (ae_keccak env) (ae_encode env) sign a' (af_chainId cfg) vault pid onChain
      = Inr (Some (support, bv_salt vote, v))"
    using recover_built [OF _ assms(3,4) vote(1) assms(7,6), of onChain] assms(14,15) assms(12) vote(2) by blast
  have b: "bv_commitment vote = ae_keccak env (ae_encode env pid (acct_address a) support (bv_salt vote))"
    "hex_string 64 (bv_salt vote)"
    using vote(1) by (auto simp: buildVote_def bindE_Inr commitmentFor_def split: if_splits)
  have "resolve_reveal env cfg' vault pid
      = Inr (plain (gov_call g ''revealVote'' [CInt pid, CBool support, CStr (bv_salt vote)]))"
    using assms(5,6,8-13) rec b vote(2)
    by (simp add: resolve_reveal_def lift_salt_def commitmentFor_def)
  then show ?thesis by (simp add: resolveCall_def)
qed

section \<open>Witnesses\<close>

definition toy_env :: "string \<Rightarrow> actor_env" where
  "toy_env onChain = \<lparr> ae_keccak = toy_keccak, ae_encode = toy_encode, ae_sign = \<lambda>_. id,
     ae_readCommitment = \<lambda>_ _. Inr (Some onChain), ae_simulate = Some (\<lambda>_ _. None),
     ae_write = \<lambda>_ _. Inr ''0xh'', ae_sdn = sample_sdn \<rparr>"

definition toy_actor :: "bool \<Rightarrow> actor_cfg" where
  "toy_actor exec = \<lparr> af_execute = exec, af_governance = Some ''0xgov'', af_usdc = Some ''0xusdc'', af_chainId = 1,
     af_allowSkipWindow = False, af_account = Some toy_account, af_hasWallet = True \<rparr>"

definition toy_start :: agent_state where
  "toy_start = \<lparr> as_marks = [], as_checked = False, as_sent = [] \<rparr>"

definition toy_sent :: "call list" where
  "toy_sent = as_sent (snd (agent_tick (toy_env ''0xcc'') (toy_actor True) sample_agent ''0xme'' 0 toy_start sample_world))"

lemma toy_sent_deposit: "list_ex (\<lambda>c. c_functionName c = ''deposit'') toy_sent"
  by code_simp

lemma tick_sends_only_what_it_may_witness:
  "\<exists>c \<in> set toy_sent. c_functionName c = ''deposit'' \<and> may_send (toy_env ''0xcc'') (toy_actor True)"
proof -
  obtain c where c: "c \<in> set toy_sent" "c_functionName c = ''deposit''"
    using toy_sent_deposit by (auto simp: list_ex_iff)
  moreover have "may_send (toy_env ''0xcc'') (toy_actor True)"
    using tick_sends_only_what_it_may [OF prod.collapse [symmetric] c(1) [unfolded toy_sent_def]]
    by (simp add: toy_start_def)
  ultimately show ?thesis by blast
qed

lemma dry_run_describes_what_execute_sends_witness:
  "\<exists>c. snd (snd (run_intent (toy_env ''0xcc'') (toy_actor True) ''0xme'' 0 [] False
      \<lparr>i_args = ADeposit 25000000, i_vault = ''0xv'', i_dueAtSec = 150\<rparr>)) = [c, vault_call ''0xv'' ''deposit'' [CInt 25000000]]"
proof -
  define i where "i = \<lparr>i_args = ADeposit 25000000, i_vault = ''0xv'', i_dueAtSec = 150\<rparr>"
  have "may_send (toy_env ''0xcc'') (toy_actor True)" "\<not> sdn_stale (ae_sdn (toy_env ''0xcc'')) 0"
    "account_addr (toy_actor True) \<noteq> Some []"
    by code_simp+
  then have acc: "accepting (toy_env ''0xcc'') (toy_actor True) 0"
    by (simp add: accepting_def toy_actor_def toy_env_def)
  have modes: "(toy_actor True)\<lparr>af_execute := b\<rparr> = toy_actor b" for b by (simp add: toy_actor_def)
  let ?r = "resolve_deposit (toy_actor True) ''0xv'' 25000000"
  have dry: "run_intent (toy_env ''0xcc'') (toy_actor False) ''0xme'' 0 [] False i
      = (DryRun (rs_call ?r) (rs_approvalFirst ?r), False, [])"
    by (simp add: run_intent_def resolveCall_def i_def is_crank_def Let_def toy_actor_def resolve_deposit_def)
  obtain live ch sent2 where live: "run_intent (toy_env ''0xcc'') (toy_actor True) ''0xme'' 0 [] False i = (live, ch, sent2)"
    by (metis prod_cases3)
  show ?thesis
    using dry_run_describes_what_execute_sends [OF acc, unfolded modes, OF dry live] live
    by (simp add: i_def resolve_deposit_def toy_actor_def)
qed

definition toy_reader :: actor_cfg where
  "toy_reader = (toy_actor True)\<lparr>af_account := Some (toy_account\<lparr>acct_saltVersion := None\<rparr>)\<rparr>"

lemma reveal_after_restart_witness:
  "\<exists>onChain salt. fst (resolveCall (toy_env onChain) toy_reader
       ''0xme'' False \<lparr>i_args = AReveal 7 False, i_vault = acct_address toy_account, i_dueAtSec = 900\<rparr>)
     = Inr (plain (gov_call ''0xgov'' ''revealVote'' [CInt 7, CBool False, CStr salt]))"
proof -
  have addr: "is_address (acct_address toy_account)" by code_simp
  define commitment where "commitment = (case buildVote toy_keccak toy_encode id toy_account 1 (acct_address toy_account) 7 False of
      Inr v \<Rightarrow> bv_commitment v | Inl _ \<Rightarrow> [])"
  have ne: "commitment \<noteq> []" unfolding commitment_def by code_simp
  then obtain vote where vote: "buildVote toy_keccak toy_encode id toy_account 1 (acct_address toy_account) 7 False = Inr vote"
    "bv_commitment vote = commitment"
    by (auto simp: commitment_def split: sum.splits)
  have pid: "bv_pid vote = 7" using vote(1) by (auto simp: buildVote_def bindE_Inr)
  have c: "fst (resolveCall (toy_env commitment) (toy_actor True) ''0xme'' True
        \<lparr>i_args = ACommit 7 False, i_vault = acct_address toy_account, i_dueAtSec = 150\<rparr>)
      = Inr (plain (gov_call ''0xgov'' ''commitVote'' [CInt 7, CStr commitment]))"
    using vote pid
    by (simp add: resolveCall_def resolve_commit_def toy_env_def toy_actor_def lift_salt_def)
  have "\<exists>salt. resolveCall (toy_env commitment) toy_reader ''0xme'' False
        \<lparr>i_args = AReveal 7 False, i_vault = acct_address toy_account, i_dueAtSec = 900\<rparr>
      = (Inr (plain (gov_call ''0xgov'' ''revealVote'' [CInt 7, CBool False, CStr salt])), False)"
  proof (rule reveal_after_restart [OF c _ addr addr])
    show "af_account (toy_actor True) = Some toy_account" "af_account toy_reader = Some (toy_account\<lparr>acct_saltVersion := None\<rparr>)"
      "af_chainId toy_reader = af_chainId (toy_actor True)" "af_governance toy_reader = Some ''0xgov''"
      by (simp_all add: toy_reader_def toy_actor_def)
    show "\<forall>n. ae_sign (toy_env commitment) n = id" "\<forall>s. hex_string 64 (ae_keccak (toy_env commitment) s)"
      "ae_readCommitment (toy_env commitment) (acct_address toy_account) (acct_address toy_account) = Inr (Some commitment)"
      by (simp_all add: toy_env_def toy_keccak_hex)
    have chain: "af_chainId (toy_actor True) = 1" by (simp add: toy_actor_def)
    show "\<forall>b s b' s'. s \<in> salt_under (ae_keccak (toy_env commitment)) id toy_account (af_chainId (toy_actor True))
          (acct_address toy_account) 7 ` {''v1'', ''v2''}
        \<and> s' \<in> salt_under (ae_keccak (toy_env commitment)) id toy_account (af_chainId (toy_actor True))
          (acct_address toy_account) 7 ` {''v1'', ''v2''}
        \<and> lc (ae_keccak (toy_env commitment) (ae_encode (toy_env commitment) 7 (acct_address toy_account) b s))
          = lc (ae_keccak (toy_env commitment) (ae_encode (toy_env commitment) 7 (acct_address toy_account) b' s'))
        \<longrightarrow> b = b' \<and> s = s'"
      unfolding chain by (auto simp: toy_env_def toy_salt dest: toy_commitments_differ)
  qed (simp_all add: ne)
  then show ?thesis by (metis fst_conv)
qed

end
