(* ===== verification/Payment_Gate.thy ===== *)
theory Payment_Gate
  imports Sanctions
begin

text \<open>
  The x402 payment gate of the API, \<open>apps/api/src/x402.mjs\<close>: the check of a decoded envelope
  against the server's price, the replay key, and \<open>gate\<close> itself, cut at its one \<open>await\<close> into
  what runs before the facilitator call and what runs after it, so that requests interleave.

  Base64 and JSON decoding and the Solana message codec are parameters.
  A field of the client's JSON that is absent or of another type than the code expects is
  \<open>None\<close>.
\<close>

section \<open>Networks\<close>

definition CAIP2_BY_LEGACY :: "(string \<times> string) list" where
  "CAIP2_BY_LEGACY = [(''base'', ''eip155:8453''), (''base-sepolia'', ''eip155:84532'')]"

definition toCaip2 :: "string \<Rightarrow> string" where
  "toCaip2 network = (case map_of CAIP2_BY_LEGACY (lc network) of Some c \<Rightarrow> c | None \<Rightarrow> network)"

definition networksEqual :: "string option \<Rightarrow> string option \<Rightarrow> bool" where
  "networksEqual a b = (case (a, b) of
     (Some x, Some y) \<Rightarrow> x \<noteq> [] \<and> y \<noteq> [] \<and> toCaip2 (lc x) = toCaip2 (lc y) | _ \<Rightarrow> False)"

section \<open>Envelope and price\<close>

record svm_price =
  svm_feePayer :: string
  svm_decimals :: int

record price =
  pr_asset :: string
  pr_amount :: int
  pr_payTo :: string
  pr_network :: "string option"
  pr_svm :: "svm_price option"

record authorization =
  au_asset :: "string option"
  au_from :: "string option"
  au_to :: "string option"
  au_value :: "string option"
  au_validBefore :: "int option"
  au_nonce :: "string option"

record envelope =
  en_x402Version :: "int option"
  en_signature :: "string option"
  en_scheme :: "string option"
  en_network :: "string option"
  en_transaction :: "string option"
  en_authorization :: "authorization option"

text \<open>
  The JSON object a header decodes to. A spec-shaped envelope nests signature and authorization
  under \<open>payload\<close> and names its network and asset under \<open>accepted\<close>.
\<close>

record raw_payload =
  rp_signature :: "string option"
  rp_authorization :: "authorization option"

record raw_accepted =
  ra_asset :: "string option"
  ra_network :: "string option"

record raw_envelope =
  re_x402Version :: "int option"
  re_scheme :: "string option"
  re_network :: "string option"
  re_transaction :: "string option"
  re_flat :: raw_payload
  re_payload :: "raw_payload option"
  re_accepted :: "raw_accepted option"

text \<open>\<open>decodeSignatureHeader\<close> after base64 and JSON: both shapes come out flat.\<close>

definition normalizeEnvelope :: "raw_envelope option \<Rightarrow> envelope option" where
  "normalizeEnvelope r = (case r of
      None \<Rightarrow> None
    | Some env \<Rightarrow>
        if re_x402Version env \<noteq> Some 2 then None
        else
          let src = (case re_payload env of Some p \<Rightarrow> p | None \<Rightarrow> re_flat env);
              evmShape = (rp_signature src \<noteq> None \<and> rp_authorization src \<noteq> None);
              svmShape = (re_scheme env = Some ''exact-svm'' \<and> re_transaction env \<noteq> None)
          in if \<not> evmShape \<and> \<not> svmShape then None
             else if \<not> evmShape \<or> (re_payload env = None \<and> re_accepted env = None)
             then Some \<lparr> en_x402Version = re_x402Version env, en_signature = rp_signature (re_flat env),
                         en_scheme = re_scheme env, en_network = re_network env,
                         en_transaction = re_transaction env, en_authorization = rp_authorization (re_flat env) \<rparr>
             else
               let auth = map_option (\<lambda>a. if au_asset a \<noteq> None then a
                            else a\<lparr>au_asset := (case re_accepted env of Some acc \<Rightarrow> ra_asset acc | None \<Rightarrow> None)\<rparr>)
                            (rp_authorization src)
               in Some \<lparr> en_x402Version = re_x402Version env, en_signature = rp_signature src,
                         en_scheme = re_scheme env,
                         en_network = (case re_network env of Some n \<Rightarrow> Some n
                            | None \<Rightarrow> (case re_accepted env of Some acc \<Rightarrow> ra_network acc | None \<Rightarrow> None)),
                         en_transaction = re_transaction env, en_authorization = auth \<rparr>)"

abbreviation or_empty :: "string option \<Rightarrow> string" where
  "or_empty x \<equiv> (case x of None \<Rightarrow> [] | Some s \<Rightarrow> s)"

definition no_authorization :: authorization where
  "no_authorization = \<lparr> au_asset = None, au_from = None, au_to = None, au_value = None,
     au_validBefore = None, au_nonce = None \<rparr>"

definition auth_of :: "envelope \<Rightarrow> authorization" where
  "auth_of env = (case en_authorization env of Some a \<Rightarrow> a | None \<Rightarrow> no_authorization)"

text \<open>The reason of a refusal, or \<open>None\<close> when the envelope matches the price.\<close>

definition checkEnvelopeAgainstPrice :: "price \<Rightarrow> envelope \<Rightarrow> int \<Rightarrow> string option" where
  "checkEnvelopeAgainstPrice price env nowMs =
     (case pr_svm price of
        Some _ \<Rightarrow>
          if \<not> networksEqual (en_network env) (pr_network price) then Some ''network-mismatch''
          else if en_scheme env \<noteq> Some ''exact-svm'' then Some ''scheme-mismatch''
          else if or_empty (en_transaction env) = [] then Some ''no-transaction''
          else None
      | None \<Rightarrow>
          if en_scheme env = Some ''exact-svm'' then Some ''scheme-mismatch''
          else let auth = auth_of env in
            if lc (or_empty (au_asset auth)) \<noteq> lc (pr_asset price) then Some ''asset-mismatch''
            else if lc (or_empty (au_to auth)) \<noteq> lc (pr_payTo price) then Some ''recipient-mismatch''
            else if \<not> networksEqual (en_network env) (pr_network price) then Some ''network-mismatch''
            else (case bigint_of_string (case au_value auth of None \<Rightarrow> ''0'' | Some v \<Rightarrow> v) of
                None \<Rightarrow> Some ''bad-value''
              | Some paid \<Rightarrow>
                  if paid < pr_amount price then Some ''underpaid''
                  else let validBefore = (case au_validBefore auth of None \<Rightarrow> 0 | Some v \<Rightarrow> v) * 1000
                    in if validBefore \<noteq> 0 \<and> validBefore < nowMs then Some ''authorization-expired'' else None))"

section \<open>Replay keys\<close>

definition DEFINITE_REJECTIONS :: "string list" where
  "DEFINITE_REJECTIONS =
    [''no-envelope'', ''no-authorization'', ''nonpositive-value'', ''authorization-expired'',
     ''signer-mismatch'', ''smart-account-needs-rpc'', ''smart-account-signature-invalid'',
     ''counterfactual-account-not-deployed'', ''stub-deny'', ''no-challenge-price'',
     ''no-challenge'', ''challenge-bad-payTo'', ''recipient-mismatch'', ''asset-mismatch'', ''network-mismatch'',
     ''underpaid'', ''no-price'', ''nonpositive-price'', ''price-names-no-network'', ''unsupported-x402-version'',
     ''no-transaction'', ''no-instructions'', ''no-transfer'', ''more-than-one-transfer'',
     ''token-instruction-is-not-transferchecked'', ''source-is-destination'', ''authority-is-fee-payer'']"

definition DEFINITE_REJECTION_PREFIX :: "string list" where
  "DEFINITE_REJECTION_PREFIX = [''bad-'', ''wrong-'', ''transaction-'', ''transfer-'', ''expected-two-signers-got:'']"

definition isDefiniteRejection :: "string option \<Rightarrow> bool" where
  "isDefiniteRejection reason = (case reason of
      None \<Rightarrow> False
    | Some r \<Rightarrow> r \<in> set DEFINITE_REJECTIONS \<or> list_ex (\<lambda>p. take (length p) r = p) DEFINITE_REJECTION_PREFIX)"

text \<open>
  \<open>svmReplayKey\<close>. Bytes are numbers below 256; the signature count is a shortvec of at most three
  bytes. \<open>reserialize\<close> is \<open>VersionedMessage.deserialize\<close> followed by \<open>serialize\<close>, \<open>None\<close> when the
  former throws.
\<close>

fun shortvec :: "nat \<Rightarrow> nat list \<Rightarrow> (nat \<times> nat) option" where
  "shortvec i [] = None"
| "shortvec i (b # bs) =
     (if i \<ge> 3 then None
      else if b < 128 then Some (b * 2 ^ (7 * i), Suc i)
      else map_option (\<lambda>(c, n). (c + (b mod 128) * 2 ^ (7 * i), n)) (shortvec (Suc i) bs))"

definition svmReplayKey ::
  "(string \<Rightarrow> nat list) \<Rightarrow> (nat list \<Rightarrow> string) \<Rightarrow> (nat list \<Rightarrow> nat list option) \<Rightarrow> string \<Rightarrow> string option" where
  "svmReplayKey from_b64 to_b64 reserialize b64 =
     (let raw = from_b64 b64 in
      case shortvec 0 raw of
        None \<Rightarrow> None
      | Some (cnt, n) \<Rightarrow>
          let messageBytes = drop (n + 64 * cnt) raw in
          if messageBytes = [] then None
          else (case reserialize messageBytes of
              None \<Rightarrow> None
            | Some bytes \<Rightarrow> if bytes \<noteq> messageBytes then None else Some (to_b64 messageBytes)))"

section \<open>The gate, before and after the facilitator call\<close>

record gate_env =
  ge_price :: price
  ge_sdn :: sdn_list
  ge_svmKey :: "string \<Rightarrow> string option"

text \<open>
  Up to the \<open>await\<close>: a refusal, or the envelope with the key it has reserved. \<open>seen\<close> is the set
  of reserved keys after the call.
\<close>

definition gate_enter ::
  "gate_env \<Rightarrow> string jsset \<Rightarrow> envelope option \<Rightarrow> int \<Rightarrow> (string + string option) \<times> string jsset" where
  "gate_enter g seen envelope nowMs = (case envelope of
      None \<Rightarrow> (Inl ''payment required'', seen)
    | Some env \<Rightarrow>
        (case checkEnvelopeAgainstPrice (ge_price g) env nowMs of
           Some reason \<Rightarrow> (Inl reason, seen)
         | None \<Rightarrow>
             let from = au_from (auth_of env); svm = (pr_svm (ge_price g) \<noteq> None) in
             if \<not> svm \<and> from \<noteq> None \<and> \<not> is_address (or_empty from) then (Inl ''bad-payer'', seen)
             else if \<not> svm \<and> assertNotSanctioned (ge_sdn g) from nowMs None \<noteq> None then (Inl ''payer screening'', seen)
             else
               let nonce = (if svm then en_transaction env else au_nonce (auth_of env));
                   key = (if svm then ge_svmKey g (or_empty nonce)
                          else (case nonce of None \<Rightarrow> None | Some n \<Rightarrow> if n = [] then None else Some (lc n)))
               in if svm \<and> key = None then (Inl ''bad-transaction'', seen)
                  else (case key of
                      None \<Rightarrow> (Inr None, seen)
                    | Some k \<Rightarrow> if k \<in> set seen then (Inl ''replayed-nonce'', seen)
                               else (Inr (Some k), jadd k seen))))"

record settle_result =
  sr_ok :: bool
  sr_receiptId :: "string option"
  sr_reason :: "string option"

definition gate_finish :: "string jsset \<Rightarrow> string option \<Rightarrow> settle_result \<Rightarrow> (string + string) \<times> string jsset" where
  "gate_finish seen key settled =
     (if \<not> sr_ok settled
      then (Inl (case sr_reason settled of None \<Rightarrow> ''unknown'' | Some r \<Rightarrow> r),
            (case key of
               Some k \<Rightarrow> if isDefiniteRejection (sr_reason settled) then jdel k seen else seen
             | None \<Rightarrow> seen))
      else (Inr (or_empty (sr_receiptId settled)), seen))"

section \<open>Requests interleave at the facilitator call\<close>

text \<open>
  A request that got past the checks is in flight with the key it reserved, until the
  facilitator answers; a throw of the facilitator ends it with the key still reserved.
\<close>

record gate_state =
  gs_seen :: "string jsset"
  gs_flights :: "(nat \<times> string option) list"
  gs_served :: "(nat \<times> string option) list"

definition gate_init :: gate_state where
  "gate_init = \<lparr> gs_seen = [], gs_flights = [], gs_served = [] \<rparr>"

inductive gate_step :: "gate_env \<Rightarrow> gate_state \<Rightarrow> gate_state \<Rightarrow> bool" for g where
  refuse: "gate_enter g (gs_seen s) env t = (Inl reason, seen') \<Longrightarrow> gate_step g s (s\<lparr>gs_seen := seen'\<rparr>)"
| enter: "gate_enter g (gs_seen s) env t = (Inr key, seen') \<Longrightarrow>
    gate_step g s (s\<lparr>gs_seen := seen', gs_flights := (i, key) # gs_flights s\<rparr>)"
| serve: "gs_flights s = before @ (i, key) # behind \<Longrightarrow> gate_finish (gs_seen s) key settled = (Inr receipt, seen') \<Longrightarrow>
    gate_step g s (s\<lparr>gs_seen := seen', gs_flights := before @ behind, gs_served := (i, key) # gs_served s\<rparr>)"
| fail: "gs_flights s = before @ (i, key) # behind \<Longrightarrow> gate_finish (gs_seen s) key settled = (Inl reason, seen') \<Longrightarrow>
    gate_step g s (s\<lparr>gs_seen := seen', gs_flights := before @ behind\<rparr>)"
| throws: "gs_flights s = before @ (i, key) # behind \<Longrightarrow>
    gate_step g s (s\<lparr>gs_flights := before @ behind\<rparr>)"

abbreviation keys_of :: "(nat \<times> string option) list \<Rightarrow> string list" where
  "keys_of xs \<equiv> List.map_filter snd xs"

definition gate_inv :: "gate_state \<Rightarrow> bool" where
  "gate_inv s \<longleftrightarrow> distinct (keys_of (gs_flights s) @ keys_of (gs_served s))
     \<and> set (keys_of (gs_flights s)) \<union> set (keys_of (gs_served s)) \<subseteq> set (gs_seen s)"

lemma keys_of_Cons: "keys_of ((i, k) # xs) = (case k of None \<Rightarrow> keys_of xs | Some x \<Rightarrow> x # keys_of xs)"
  by (cases k) (simp_all add: map_filter_simps)

lemma keys_of_append: "keys_of (xs @ ys) = keys_of xs @ keys_of ys"
  by (simp add: List.map_filter_def)

lemma gate_enter_key:
  "gate_enter g seen env t = (Inr key, seen') \<Longrightarrow>
     (case key of None \<Rightarrow> seen' = seen | Some k \<Rightarrow> k \<notin> set seen \<and> seen' = jadd k seen)"
  by (auto simp: gate_enter_def Let_def split: option.splits if_splits)

lemma gate_enter_refuse: "gate_enter g seen env t = (Inl r, seen') \<Longrightarrow> seen' = seen"
  by (auto simp: gate_enter_def Let_def split: option.splits if_splits)

lemma gate_finish_serve: "gate_finish seen key settled = (Inr r, seen') \<Longrightarrow> seen' = seen \<and> sr_ok settled"
  by (auto simp: gate_finish_def split: if_splits)

lemma gate_finish_fail: "gate_finish seen key settled = (Inl r, seen') \<Longrightarrow>
   seen' = seen \<or> (\<exists>k. key = Some k \<and> seen' = jdel k seen \<and> isDefiniteRejection (sr_reason settled))"
  by (auto simp: gate_finish_def split: if_splits option.splits)

lemma gate_step_inv: "gate_step g s s' \<Longrightarrow> gate_inv s \<Longrightarrow> gate_inv s'"
proof (induction rule: gate_step.induct)
  case (refuse s env t reason seen')
  from gate_enter_refuse [OF refuse(1)] refuse(2) show ?case by (simp add: gate_inv_def)
next
  case (enter s env t key seen' i)
  from gate_enter_key [OF enter(1)] enter(2) show ?case
    by (cases key) (auto simp: gate_inv_def keys_of_Cons)
next
  case (serve s before i key behind settled receipt seen')
  then show ?case
    using gate_finish_serve [OF serve(2)] by (cases key) (auto simp: gate_inv_def keys_of_Cons keys_of_append)
next
  case (fail s before i key behind settled reason seen')
  then show ?case
    using gate_finish_fail [OF fail(2)] by (cases key) (auto simp: gate_inv_def keys_of_Cons keys_of_append)
next
  case (throws s before i key behind)
  then show ?case by (cases key) (auto simp: gate_inv_def keys_of_Cons keys_of_append)
qed

lemma gate_inv_init: "gate_inv gate_init"
  by (simp add: gate_inv_def gate_init_def map_filter_simps)

lemma gate_reachable_inv: "(gate_step g)\<^sup>*\<^sup>* gate_init s \<Longrightarrow> gate_inv s"
  by (induction rule: rtranclp_induct) (rule gate_inv_init, erule gate_step_inv)

inductive_cases gate_step_cases: "gate_step g s s'"

text \<open>
  C7. However requests and facilitator answers interleave, one payment is served at most once,
  and at most one facilitator call for it is under way, none after it was served: the replay
  keys of the requests in flight and of those answered 200 are all different.
\<close>

theorem gate_serves_a_payment_once:
  assumes "(gate_step g)\<^sup>*\<^sup>* gate_init s"
  shows "distinct (keys_of (gs_flights s) @ keys_of (gs_served s))"
  using gate_reachable_inv [OF assms] by (simp add: gate_inv_def)

text \<open>
  What the gate lets through to the facilitator pays the price: against a price without the
  Solana scheme, an envelope gets past the checks only if its authorization names the price's
  asset and recipient (up to letter case) on the price's network, for at least the amount, not
  expired, from a payer the screen does not refuse, whatever else the client wrote into it.
\<close>

lemma gate_enter_pays_the_price:
  assumes "gate_enter g seen (Some env) nowMs = (Inr key, seen')" and "pr_svm (ge_price g) = None"
    and "a = auth_of env"
  shows "lc (or_empty (au_asset a)) = lc (pr_asset (ge_price g)) \<and> lc (or_empty (au_to a)) = lc (pr_payTo (ge_price g))
    \<and> networksEqual (en_network env) (pr_network (ge_price g))
    \<and> (\<exists>paid. bigint_of_string (case au_value a of None \<Rightarrow> ''0'' | Some v \<Rightarrow> v) = Some paid \<and> pr_amount (ge_price g) \<le> paid)
    \<and> (\<forall>v. au_validBefore a = Some v \<and> v \<noteq> 0 \<longrightarrow> nowMs \<le> v * 1000)
    \<and> \<not> isSanctionedAddress (ge_sdn g) (au_from a)"
  using assms(1,2) assertNotSanctioned_clean unfolding assms(3)
  by (auto simp: gate_enter_def checkEnvelopeAgainstPrice_def Let_def split: option.splits if_splits)

text \<open>A payment that is in flight blocks its own copies.\<close>

definition sample_price :: price where
  "sample_price = \<lparr> pr_asset = ''0xUSDC'', pr_amount = 1000, pr_payTo = ''0xPAYEE'', pr_network = Some ''base'', pr_svm = None \<rparr>"

definition sample_gate :: gate_env where
  "sample_gate = \<lparr> ge_price = sample_price, ge_sdn = \<lparr> sdn_fetchedAt = 0, sdn_addresses = [''0xbad''] \<rparr>, ge_svmKey = (\<lambda>_. None) \<rparr>"

definition sample_envelope :: envelope where
  "sample_envelope = \<lparr> en_x402Version = Some 2, en_signature = Some (''0x'' @ replicate 130 (CHR ''1'')),
     en_scheme = None, en_network = Some ''eip155:8453'', en_transaction = None,
     en_authorization = Some \<lparr> au_asset = Some ''0xusdc'', au_from = Some (''0x'' @ replicate 40 (CHR ''a'')),
       au_to = Some ''0xpayee'', au_value = Some ''1000'', au_validBefore = Some 99,
       au_nonce = Some (''0x'' @ replicate 64 (CHR ''B'')) \<rparr> \<rparr>"

definition sample_key :: string where
  "sample_key = ''0x'' @ replicate 64 (CHR ''b'')"

lemma sample_enter: "gate_enter sample_gate [] (Some sample_envelope) 5 = (Inr (Some sample_key), [sample_key])"
  by code_simp

lemma sample_enter_again:
  "gate_enter sample_gate [sample_key] (Some sample_envelope) 6 = (Inl ''replayed-nonce'', [sample_key])"
  by code_simp

definition sample_flight :: gate_state where
  "sample_flight = \<lparr> gs_seen = [sample_key], gs_flights = [(0, Some sample_key)], gs_served = [] \<rparr>"

definition sample_served :: gate_state where
  "sample_served = \<lparr> gs_seen = [sample_key], gs_flights = [], gs_served = [(0, Some sample_key)] \<rparr>"

lemma sample_reached: "(gate_step sample_gate)\<^sup>*\<^sup>* gate_init sample_served"
proof -
  have "gate_step sample_gate gate_init sample_flight"
    using gate_step.enter [of sample_gate gate_init "Some sample_envelope" 5 "Some sample_key" "[sample_key]" 0]
      sample_enter by (simp add: gate_init_def sample_flight_def)
  moreover have "gate_step sample_gate sample_flight sample_flight"
    using gate_step.refuse [of sample_gate sample_flight "Some sample_envelope" 6 "''replayed-nonce''" "[sample_key]"]
      sample_enter_again by (simp add: sample_flight_def)
  moreover have "gate_step sample_gate sample_flight sample_served"
    using gate_step.serve [of sample_flight "[]" 0 "Some sample_key" "[]"
        "\<lparr> sr_ok = True, sr_receiptId = Some ''0xtx'', sr_reason = None \<rparr>" "''0xtx''" "[sample_key]" sample_gate]
    by (simp add: sample_flight_def sample_served_def gate_finish_def)
  ultimately show ?thesis by (meson rtranclp.rtrancl_into_rtrancl rtranclp.rtrancl_refl)
qed

theorem gate_serves_a_payment_once_witness:
  "distinct (keys_of (gs_flights sample_served) @ keys_of (gs_served sample_served))"
  by (rule gate_serves_a_payment_once [OF sample_reached])

end
