(* ===== verification/Facilitators.thy ===== *)
theory Facilitators
  imports Payment_Gate
begin

text \<open>
  The facilitators behind the gate, \<open>apps/api/src/facilitator.mjs\<close>: the shape check of an envelope,
  the recovery of the payer, the stub, the two HTTP facilitators and the one that settles on chain
  itself. The network and the chain client are parameters; a facilitator returns its verdict with
  the trace of the calls it made, and a call is answered from the trace so far. An error that is
  caught is its message.
\<close>

section \<open>Shape\<close>

definition smart_sig :: "string \<Rightarrow> bool" where
  "smart_sig s \<longleftrightarrow> take 2 s = ''0x'' \<and> list_all hex_char (drop 2 s) \<and> even (length s)
     \<and> 130 \<le> length s - 2 \<and> length s - 2 \<le> 16384"

definition verifyEnvelopeShape :: "envelope option \<Rightarrow> int \<Rightarrow> string option" where
  "verifyEnvelopeShape envelope nowMs = (case envelope of
      None \<Rightarrow> Some ''no-envelope''
    | Some env \<Rightarrow>
        if en_x402Version env \<noteq> Some 2 then Some ''bad-version''
        else (case en_authorization env of
          None \<Rightarrow> Some ''no-authorization''
        | Some a \<Rightarrow>
            if \<not> is_address (or_empty (au_from a)) then Some ''bad-from''
            else if \<not> is_address (or_empty (au_to a)) then Some ''bad-to''
            else if \<not> smart_sig (or_empty (en_signature env)) then Some ''bad-signature-format''
            else (case bigint_of_string (or_empty (au_value a)) of
              None \<Rightarrow> Some ''bad-value''
            | Some value \<Rightarrow>
                if value \<le> 0 then Some ''nonpositive-value''
                else if \<not> hex_string 64 (or_empty (au_nonce a)) then Some ''bad-nonce''
                else let validBefore = (case au_validBefore a of None \<Rightarrow> 0 | Some v \<Rightarrow> v) * 1000
                  in if validBefore \<noteq> 0 \<and> validBefore < nowMs then Some ''authorization-expired'' else None)))"

section \<open>Payer\<close>

record domain_cfg =
  dc_chainId :: int
  dc_usdcName :: "string option"
  dc_usdcVersion :: "string option"
  dc_usdcAddress :: "string option"

record typed_data =
  td_name :: string
  td_version :: string
  td_chainId :: int
  td_verifyingContract :: "string option"
  td_message :: authorization

definition reconstructTypedData :: "envelope \<Rightarrow> domain_cfg \<Rightarrow> typed_data" where
  "reconstructTypedData env cfg =
     (let auth = auth_of env in
      \<lparr> td_name = (case dc_usdcName cfg of Some n \<Rightarrow> n | None \<Rightarrow> ''USD Coin''),
        td_version = (case dc_usdcVersion cfg of Some v \<Rightarrow> v | None \<Rightarrow> ''2''),
        td_chainId = dc_chainId cfg,
        td_verifyingContract = (case dc_usdcAddress cfg of Some a \<Rightarrow> Some a | None \<Rightarrow> au_asset auth),
        td_message = auth \<rparr>)"

text \<open>
  \<open>recover\<close> is \<open>recoverTypedDataAddress\<close>, \<open>None\<close> when it throws; \<open>verify\<close> is the public client's
  \<open>verifyTypedData\<close>, absent when there is no client.
\<close>

record recovery =
  rv_recover :: "typed_data \<Rightarrow> string \<Rightarrow> string option"
  rv_verify :: "(typed_data \<Rightarrow> string \<Rightarrow> string \<Rightarrow> string + bool) option"

text \<open>\<open>Inr (payer, smart)\<close>, or the reason of the refusal.\<close>

definition recoverPayer :: "recovery \<Rightarrow> envelope \<Rightarrow> domain_cfg \<Rightarrow> string + string \<times> bool" where
  "recoverPayer rv env cfg =
     (let td = reconstructTypedData env cfg; sig = or_empty (en_signature env);
          from = lc (or_empty (au_from (auth_of env)));
          recovered = (if hex_string 130 sig then rv_recover rv td sig else None);
          mismatch = (case recovered of Some r \<Rightarrow> r \<noteq> [] \<and> lc r \<noteq> from | None \<Rightarrow> False)
      in if (case recovered of Some r \<Rightarrow> r \<noteq> [] \<and> lc r = from | None \<Rightarrow> False) then Inr (from, False)
         else (case rv_verify rv of
             None \<Rightarrow> Inl (if mismatch then ''signer-mismatch'' else ''smart-account-needs-rpc'')
           | Some verify \<Rightarrow> (case verify td (or_empty (au_from (auth_of env))) sig of
               Inl e \<Rightarrow> Inl (''smart-account-verify-failed: '' @ e)
             | Inr True \<Rightarrow> Inr (from, True)
             | Inr False \<Rightarrow> Inl (if mismatch then ''signer-mismatch'' else ''smart-account-signature-invalid''))))"

section \<open>Stub and bespoke HTTP facilitator\<close>

abbreviation refused :: "string \<Rightarrow> settle_result" where
  "refused r \<equiv> \<lparr> sr_ok = False, sr_receiptId = None, sr_reason = Some r \<rparr>"

abbreviation settled_as :: "string \<Rightarrow> settle_result" where
  "settled_as i \<equiv> \<lparr> sr_ok = True, sr_receiptId = Some i, sr_reason = None \<rparr>"

definition stub_verifyAndSettle :: "bool \<Rightarrow> string \<Rightarrow> int \<Rightarrow> envelope option \<Rightarrow> settle_result \<times> int" where
  "stub_verifyAndSettle accept receiptPrefix n envelope =
     (if \<not> accept then (refused ''stub-deny'', n)
      else let nonce = (case envelope of Some e \<Rightarrow> or_empty (au_nonce (auth_of e)) | None \<Rightarrow> [])
        in (settled_as (receiptPrefix @ ''_'' @ show_int (n + 1) @ ''_'' @ take 10 nonce), n + 1))"

text \<open>A response: status, whether it is 2xx, and its JSON fields; \<open>None\<close> is no JSON object.\<close>

record json_body =
  jb_ok :: "bool option"
  jb_receiptId :: "string option"
  jb_reason :: "string option"
  jb_isValid :: "bool option"
  jb_hasIsValid :: bool
  jb_invalidReason :: "string option"
  jb_invalidMessage :: "string option"
  jb_success :: "bool option"
  jb_hasSuccess :: bool
  jb_transaction :: "string option"
  jb_errorReason :: "string option"
  jb_errorMessage :: "string option"

record http_response =
  hr_ok :: bool
  hr_status :: int
  hr_json :: "json_body option"

definition HTTP_FACILITATOR_TIMEOUT_MS :: int where "HTTP_FACILITATOR_TIMEOUT_MS = 45000"
definition SETTLE_RECEIPT_TIMEOUT_MS :: int where "SETTLE_RECEIPT_TIMEOUT_MS = 30000"

definition http_verifyAndSettle :: "string + http_response \<Rightarrow> settle_result" where
  "http_verifyAndSettle answer = (case answer of
      Inl err \<Rightarrow> refused (''facilitator-unreachable: '' @ err)
    | Inr res \<Rightarrow>
        (let body_reason = (case hr_json res of Some b \<Rightarrow> jb_reason b | None \<Rightarrow> None) in
         if \<not> hr_ok res
         then refused (case body_reason of Some r \<Rightarrow> r | None \<Rightarrow> ''facilitator-http-'' @ show_int (hr_status res))
         else \<lparr> sr_ok = (case hr_json res of Some b \<Rightarrow> jb_ok b = Some True | None \<Rightarrow> False),
                sr_receiptId = (case hr_json res of Some b \<Rightarrow> jb_receiptId b | None \<Rightarrow> None),
                sr_reason = body_reason \<rparr>))"

section \<open>The standard two-leg facilitator\<close>

datatype step = Verify | Settle

fun step_name :: "step \<Rightarrow> string" where
  "step_name Verify = ''verify''"
| "step_name Settle = ''settle''"

record payment_requirements =
  rq_scheme :: string
  rq_network :: string
  rq_amount :: string
  rq_asset :: string
  rq_payTo :: string
  rq_maxTimeoutSeconds :: int
  rq_name :: string
  rq_version :: string

record wire_body =
  wb_x402Version :: int
  wb_accepted :: payment_requirements
  wb_signature :: "string option"
  wb_authorization :: "authorization option"
  wb_requirements :: payment_requirements

record http_call =
  hc_url :: string
  hc_body :: wire_body

type_synonym network = "http_call list \<Rightarrow> http_call \<Rightarrow> string + http_response"

text \<open>\<open>Inl reason\<close> is a transport failure, \<open>Inr body\<close> an answer, whatever it says.\<close>

definition postStandardFacilitatorRequest :: "string + http_response \<Rightarrow> step \<Rightarrow> string + json_body" where
  "postStandardFacilitatorRequest answer step = (case answer of
      Inl err \<Rightarrow> Inl (step_name step @ ''-unreachable: '' @ err)
    | Inr res \<Rightarrow> (case hr_json res of
        None \<Rightarrow> Inl (step_name step @ ''-malformed-response'')
      | Some json \<Rightarrow>
          let hasVerdict = (case step of Verify \<Rightarrow> jb_hasIsValid json | Settle \<Rightarrow> jb_hasSuccess json) in
          if \<not> hr_ok res \<and> \<not> hasVerdict
          then Inl (step_name step @ ''-http-'' @ show_int (hr_status res) @ '': '' @
                 (case jb_invalidMessage json of Some m \<Rightarrow> m | None \<Rightarrow>
                  (case jb_errorMessage json of Some m \<Rightarrow> m | None \<Rightarrow>
                   (case jb_reason json of Some m \<Rightarrow> m | None \<Rightarrow> ''no-detail''))))
          else Inr json))"

record standard_cfg =
  sf_base :: string
  sf_network :: string
  sf_usdcName :: string
  sf_usdcVersion :: string
  sf_maxTimeoutSeconds :: int

definition wire_of :: "standard_cfg \<Rightarrow> price \<Rightarrow> envelope \<Rightarrow> wire_body" where
  "wire_of cfg price env =
     (let rq = \<lparr> rq_scheme = ''exact'', rq_network = sf_network cfg, rq_amount = show_int (pr_amount price),
                 rq_asset = pr_asset price, rq_payTo = pr_payTo price,
                 rq_maxTimeoutSeconds = sf_maxTimeoutSeconds cfg,
                 rq_name = sf_usdcName cfg, rq_version = sf_usdcVersion cfg \<rparr>
      in \<lparr> wb_x402Version = 2, wb_accepted = rq, wb_signature = en_signature env,
           wb_authorization = en_authorization env, wb_requirements = rq \<rparr>)"

definition standard_settle :: "string + http_response \<Rightarrow> settle_result" where
  "standard_settle answer = (case postStandardFacilitatorRequest answer Settle of
      Inl reason \<Rightarrow> refused reason
    | Inr body \<Rightarrow> (case jb_success body of
        None \<Rightarrow> refused ''settle-malformed-response''
      | Some success \<Rightarrow>
          if success \<and> or_empty (jb_transaction body) \<noteq> [] then settled_as (or_empty (jb_transaction body))
          else refused (case jb_errorReason body of Some r \<Rightarrow> r | None \<Rightarrow> ''settle-failed-no-transaction'')))"

definition standard_verifyAndSettle ::
  "standard_cfg \<Rightarrow> network \<Rightarrow> price option \<Rightarrow> envelope option \<Rightarrow> int \<Rightarrow> settle_result \<times> http_call list" where
  "standard_verifyAndSettle cfg net price_opt envelope nowMs = (case price_opt of
      None \<Rightarrow> (refused ''no-challenge-price'', [])
    | Some price \<Rightarrow> (case verifyEnvelopeShape envelope nowMs of
        Some reason \<Rightarrow> (refused reason, [])
      | None \<Rightarrow> (case envelope of None \<Rightarrow> (refused ''no-envelope'', [])
        | Some env \<Rightarrow>
          let body = wire_of cfg price env;
              vcall = \<lparr> hc_url = sf_base cfg @ ''/verify'', hc_body = body \<rparr>;
              scall = \<lparr> hc_url = sf_base cfg @ ''/settle'', hc_body = body \<rparr>
          in (case postStandardFacilitatorRequest (net [] vcall) Verify of
              Inl reason \<Rightarrow> (refused reason, [vcall])
            | Inr v \<Rightarrow> (case jb_isValid v of
                None \<Rightarrow> (refused ''verify-malformed-response'', [vcall])
              | Some False \<Rightarrow> (refused (case jb_invalidReason v of Some r \<Rightarrow> r | None \<Rightarrow> ''invalid''), [vcall])
              | Some True \<Rightarrow> (standard_settle (net [vcall] scall), [vcall, scall]))))))"

section \<open>The settling facilitator\<close>

datatype sig_args = BytesSig string | VRS int string string

definition ERC6492_MAGIC :: string where "ERC6492_MAGIC = concat (replicate 16 ''6492'')"

definition ends_with :: "string \<Rightarrow> string \<Rightarrow> bool" where
  "ends_with suf s \<longleftrightarrow> length suf \<le> length s \<and> drop (length s - length suf) s = suf"

definition vrs_of :: "string \<Rightarrow> sig_args" where
  "vrs_of sig =
     (let v = (case parse_digits 16 (take 2 (drop 130 sig)) of Some n \<Rightarrow> int n | None \<Rightarrow> 0)
      in VRS (if v < 27 then v + 27 else v) (''0x'' @ take 64 (drop 2 sig)) (''0x'' @ take 64 (drop 66 sig)))"

record receipt =
  rc_transactionHash :: string
  rc_status :: string

record 'req chain_client =
  cl_getCode :: "string \<Rightarrow> string + string option"
  cl_parse6492 :: "string \<Rightarrow> string + string"
  cl_authorizationState :: "string \<Rightarrow> string \<Rightarrow> string + bool"
  cl_simulate :: "authorization \<Rightarrow> sig_args \<Rightarrow> string + 'req"
  cl_writeContract :: "'req \<Rightarrow> string + string"
  cl_waitReceipt :: "string \<Rightarrow> string + receipt option"

text \<open>
  From the signature to the receipt, inside the \<open>try\<close>; the second component lists the
  transactions handed to \<open>writeContract\<close>. The \<open>BigInt\<close> conversions of the simulated arguments
  belong to \<open>simulate\<close>, which answers their error.
\<close>

definition settle_signed ::
  "'req chain_client \<Rightarrow> authorization \<Rightarrow> bool \<Rightarrow> string \<Rightarrow> settle_result \<times> 'req list" where
  "settle_signed cl a smart sig =
     (let args = (if smart then BytesSig sig else vrs_of sig); failed = (\<lambda>e. refused (''settle-failed: '' @ e)) in
      case cl_authorizationState cl (or_empty (au_from a)) (or_empty (au_nonce a)) of
        Inl e \<Rightarrow> (failed e, [])
      | Inr True \<Rightarrow> (refused ''authorization-used'', [])
      | Inr False \<Rightarrow> (case cl_simulate cl a args of
          Inl e \<Rightarrow> (failed e, [])
        | Inr req \<Rightarrow> (case cl_writeContract cl req of
            Inl e \<Rightarrow> (failed e, [req])
          | Inr hash \<Rightarrow>
              ((case cl_waitReceipt cl hash of
                  Inl e \<Rightarrow> refused (''settle-unreachable: no receipt for '' @ hash @ '': '' @ e)
                | Inr r \<Rightarrow>
                    if map_option rc_transactionHash r \<noteq> Some hash then refused (''settle-replaced: '' @ hash)
                    else if map_option rc_status r \<noteq> Some ''success'' then refused (''settle-reverted: '' @ hash)
                    else settled_as hash), [req]))))"

definition settling_verifyAndSettle ::
  "'req chain_client \<Rightarrow> recovery \<Rightarrow> domain_cfg \<Rightarrow> envelope option \<Rightarrow> int \<Rightarrow> settle_result \<times> 'req list" where
  "settling_verifyAndSettle cl rv cfg envelope nowMs = (case verifyEnvelopeShape envelope nowMs of
      Some reason \<Rightarrow> (refused reason, [])
    | None \<Rightarrow> (case envelope of None \<Rightarrow> (refused ''no-envelope'', [])
      | Some env \<Rightarrow> (case recoverPayer rv env cfg of
          Inl reason \<Rightarrow> (refused reason, [])
        | Inr (payer, smart) \<Rightarrow>
            let a = auth_of env; sig = or_empty (en_signature env) in
            if smart \<and> ends_with ERC6492_MAGIC (lc sig) then
              (case cl_getCode cl (or_empty (au_from a)) of
                 Inl e \<Rightarrow> (refused (''settle-failed: '' @ e), [])
               | Inr code \<Rightarrow>
                   if or_empty code = [] \<or> code = Some ''0x''
                   then (refused ''counterfactual-account-not-deployed'', [])
                   else (case cl_parse6492 cl sig of
                       Inl e \<Rightarrow> (refused (''settle-failed: '' @ e), [])
                     | Inr sig' \<Rightarrow> settle_signed cl a smart sig'))
            else settle_signed cl a smart sig)))"

section \<open>What every facilitator promises\<close>

text \<open>
  The contract the gate relies on: a payment is reported settled only with a receipt, and only for
  an envelope of the right shape.
\<close>

locale facilitator =
  fixes settle :: "price option \<Rightarrow> envelope option \<Rightarrow> int \<Rightarrow> settle_result"
  assumes settled_shape: "sr_ok (settle p e t) \<Longrightarrow> verifyEnvelopeShape e t = None"
    and settled_receipt: "sr_ok (settle p e t) \<Longrightarrow> sr_receiptId (settle p e t) \<noteq> None"
begin

lemma served_shape:
  assumes "gate_finish seen key (settle p e t) = (Inr receipt, seen')"
  shows "verifyEnvelopeShape e t = None \<and> sr_receiptId (settle p e t) = Some receipt"
proof -
  have ok: "sr_ok (settle p e t)" using gate_finish_serve [OF assms] by simp
  show ?thesis using assms ok settled_shape [OF ok] settled_receipt [OF ok]
    by (auto simp: gate_finish_def)
qed

lemma refused_malformed: "verifyEnvelopeShape e t = Some r \<Longrightarrow> \<not> sr_ok (settle p e t)"
  using settled_shape by fastforce

end

lemma standard_settle_ok:
  assumes "sr_ok (standard_settle answer)"
  obtains body tx where "postStandardFacilitatorRequest answer Settle = Inr body" "jb_success body = Some True"
    "jb_transaction body = Some tx" "tx \<noteq> []" "standard_settle answer = settled_as tx"
  using assms by (auto simp: standard_settle_def split: sum.splits option.splits if_splits)

lemma standard_ok_cases:
  assumes "standard_verifyAndSettle cfg net p e t = (r, calls)" "sr_ok r"
  obtains price env v where "p = Some price" "e = Some env" "verifyEnvelopeShape e t = None"
    "calls = [\<lparr> hc_url = sf_base cfg @ ''/verify'', hc_body = wire_of cfg price env \<rparr>,
              \<lparr> hc_url = sf_base cfg @ ''/settle'', hc_body = wire_of cfg price env \<rparr>]"
    "postStandardFacilitatorRequest (net [] (calls ! 0)) Verify = Inr v" "jb_isValid v = Some True"
    "r = standard_settle (net [calls ! 0] (calls ! 1))"
  using assms
  by (auto simp: standard_verifyAndSettle_def Let_def split: option.splits sum.splits bool.splits)

lemma settle_signed_ok:
  assumes "settle_signed cl a smart sig = (r, reqs)" "sr_ok r"
  obtains req hash where "cl_authorizationState cl (or_empty (au_from a)) (or_empty (au_nonce a)) = Inr False"
    "cl_simulate cl a (if smart then BytesSig sig else vrs_of sig) = Inr req"
    "cl_writeContract cl req = Inr hash" "reqs = [req]" "r = settled_as hash"
    "cl_waitReceipt cl hash = Inr (Some \<lparr> rc_transactionHash = hash, rc_status = ''success'' \<rparr>)"
proof -
  have st: "cl_authorizationState cl (or_empty (au_from a)) (or_empty (au_nonce a)) = Inr False"
    using assms by (auto simp: settle_signed_def split: sum.splits bool.splits)
  obtain req where req: "cl_simulate cl a (if smart then BytesSig sig else vrs_of sig) = Inr req"
    using assms st by (auto simp: settle_signed_def split: sum.splits)
  obtain hash where hash: "cl_writeContract cl req = Inr hash"
    using assms st req by (auto simp: settle_signed_def split: sum.splits)
  obtain rc where rc: "cl_waitReceipt cl hash = Inr (Some rc)" "rc_transactionHash rc = hash" "rc_status rc = ''success''"
    using assms st req hash by (auto simp: settle_signed_def split: sum.splits if_splits)
  have "rc = \<lparr> rc_transactionHash = hash, rc_status = ''success'' \<rparr>" using rc by simp
  moreover have "reqs = [req]" "r = settled_as hash"
    using assms(1) rc by (simp_all add: settle_signed_def st req hash)
  ultimately show thesis using that st req hash rc(1) by blast
qed

lemma settling_ok_cases:
  assumes "settling_verifyAndSettle cl rv cfg e t = (r, reqs)" "sr_ok r"
  obtains env smart sig where "e = Some env" "verifyEnvelopeShape e t = None"
    "recoverPayer rv env cfg = Inr (lc (or_empty (au_from (auth_of env))), smart)"
    "settle_signed cl (auth_of env) smart sig = (r, reqs)"
proof -
  have payer: "fst x = lc (or_empty (au_from (auth_of env)))" if "recoverPayer rv env cfg = Inr x" for x env
    using that by (auto simp: recoverPayer_def Let_def split: option.splits sum.splits bool.splits if_splits)
  obtain env where e: "e = Some env" "verifyEnvelopeShape e t = None"
    using assms by (auto simp: settling_verifyAndSettle_def split: option.splits)
  obtain payer' smart where rp: "recoverPayer rv env cfg = Inr (payer', smart)"
    using assms e by (auto simp: settling_verifyAndSettle_def split: sum.splits)
  obtain sig where "settle_signed cl (auth_of env) smart sig = (r, reqs)"
    using assms e rp
    by (auto simp: settling_verifyAndSettle_def Let_def split: sum.splits if_splits)
  then show thesis using that e rp payer [OF rp] by simp
qed

interpretation standard: facilitator "\<lambda>p e t. fst (standard_verifyAndSettle cfg net p e t)" for cfg net
proof unfold_locales
  fix p e t
  assume ok: "sr_ok (fst (standard_verifyAndSettle cfg net p e t))"
  obtain price env v where c: "verifyEnvelopeShape e t = None"
    "fst (standard_verifyAndSettle cfg net p e t)
       = standard_settle (net [snd (standard_verifyAndSettle cfg net p e t) ! 0] (snd (standard_verifyAndSettle cfg net p e t) ! 1))"
    using standard_ok_cases [OF prod.collapse [symmetric] ok] by metis
  show "verifyEnvelopeShape e t = None" by (rule c)
  show "sr_receiptId (fst (standard_verifyAndSettle cfg net p e t)) \<noteq> None"
    using ok unfolding c(2) by (auto elim: standard_settle_ok)
qed

interpretation settling: facilitator "\<lambda>p e t. fst (settling_verifyAndSettle cl rv cfg e t)" for cl rv cfg
proof unfold_locales
  fix e t
  assume ok: "sr_ok (fst (settling_verifyAndSettle cl rv cfg e t))"
  show "verifyEnvelopeShape e t = None"
    using settling_ok_cases [OF prod.collapse [symmetric] ok] by metis
  show "sr_receiptId (fst (settling_verifyAndSettle cl rv cfg e t)) \<noteq> None"
    using settling_ok_cases [OF prod.collapse [symmetric] ok] settle_signed_ok ok
    by (metis option.distinct(1) settle_result.select_convs(2))
qed

section \<open>Properties\<close>

text \<open>
  A facilitator reached over the standard protocol is believed only on positive evidence: the
  settle leg is posted only after the verify leg answered \<open>isValid: true\<close>, both legs carry the
  server's own price, recipient and network whatever the client sent, and a settlement is reported
  only when the settle leg answered \<open>success: true\<close> with a non-empty transaction, which is the
  receipt.
\<close>

theorem standard_settles_on_positive_evidence:
  assumes "standard_verifyAndSettle cfg net (Some price) e t = (r, calls)"
  shows "(\<forall>c \<in> set calls. wb_requirements (hc_body c) = wb_accepted (hc_body c)
        \<and> rq_payTo (wb_requirements (hc_body c)) = pr_payTo price
        \<and> rq_amount (wb_requirements (hc_body c)) = show_int (pr_amount price)
        \<and> rq_asset (wb_requirements (hc_body c)) = pr_asset price
        \<and> rq_network (wb_requirements (hc_body c)) = sf_network cfg)
    \<and> (length calls > 1 \<longrightarrow> length calls = 2
        \<and> (\<exists>v. postStandardFacilitatorRequest (net [] (calls ! 0)) Verify = Inr v \<and> jb_isValid v = Some True))
    \<and> (sr_ok r \<longrightarrow> length calls = 2
        \<and> (\<exists>s tx. postStandardFacilitatorRequest (net [calls ! 0] (calls ! 1)) Settle = Inr s
              \<and> jb_success s = Some True \<and> jb_transaction s = Some tx \<and> tx \<noteq> [] \<and> sr_receiptId r = Some tx))"
proof -
  have legs: "\<forall>c \<in> set calls. wb_requirements (hc_body c) = wb_accepted (hc_body c)
        \<and> rq_payTo (wb_requirements (hc_body c)) = pr_payTo price
        \<and> rq_amount (wb_requirements (hc_body c)) = show_int (pr_amount price)
        \<and> rq_asset (wb_requirements (hc_body c)) = pr_asset price
        \<and> rq_network (wb_requirements (hc_body c)) = sf_network cfg"
    using assms
    by (auto simp: standard_verifyAndSettle_def wire_of_def Let_def split: option.splits sum.splits bool.splits)
  have two: "length calls > 1 \<longrightarrow> length calls = 2
        \<and> (\<exists>v. postStandardFacilitatorRequest (net [] (calls ! 0)) Verify = Inr v \<and> jb_isValid v = Some True)"
    using assms
    by (auto simp: standard_verifyAndSettle_def Let_def split: option.splits sum.splits bool.splits)
  have ok: "length calls = 2 \<and> (\<exists>s tx. postStandardFacilitatorRequest (net [calls ! 0] (calls ! 1)) Settle = Inr s
              \<and> jb_success s = Some True \<and> jb_transaction s = Some tx \<and> tx \<noteq> [] \<and> sr_receiptId r = Some tx)"
    if okr: "sr_ok r"
  proof -
    obtain price' env where c: "r = standard_settle (net [calls ! 0] (calls ! 1))"
      "calls = [\<lparr> hc_url = sf_base cfg @ ''/verify'', hc_body = wire_of cfg price' env \<rparr>,
              \<lparr> hc_url = sf_base cfg @ ''/settle'', hc_body = wire_of cfg price' env \<rparr>]"
      by (rule standard_ok_cases [OF assms okr])
    have "sr_ok (standard_settle (net [calls ! 0] (calls ! 1)))" using okr c(1) by simp
    then show ?thesis unfolding c(1) by (rule standard_settle_ok) (use c(2) in auto)
  qed
  from legs two ok show ?thesis by blast
qed

lemma settle_leg_not_definite: "\<not> isDefiniteRejection (Some (''settle-'' @ x))"
  by (simp add: isDefiniteRejection_def DEFINITE_REJECTIONS_def DEFINITE_REJECTION_PREFIX_def)

lemma settle_signed_broadcast:
  assumes "settle_signed cl a smart sig = (r, reqs)"
  shows "length reqs \<le> 1 \<and> (reqs \<noteq> [] \<longrightarrow> sr_reason r = None \<or> (\<exists>x. sr_reason r = Some (''settle-'' @ x)))"
  using assms by (auto simp: settle_signed_def Let_def split: sum.splits bool.splits if_splits)

lemma settling_reqs:
  assumes "settling_verifyAndSettle cl rv cfg e t = (r, reqs)" "reqs \<noteq> []"
  obtains a smart sig where "settle_signed cl a smart sig = (r, reqs)"
  using assms
  by (auto simp: settling_verifyAndSettle_def Let_def split: option.splits sum.splits prod.splits if_splits)

text \<open>
  The settling facilitator never reports success without a mined transfer, nor frees the replay
  key of a transfer it may have broadcast: it hands at most one transaction to the chain; success
  means that this transaction's own receipt says so; and after a broadcast no refusal is one for
  which the gate releases the key, so the same payment cannot be taken again.
\<close>

theorem settling_broadcasts_once_and_keeps_the_key:
  assumes "settling_verifyAndSettle cl rv cfg e t = (r, reqs)"
  shows "length reqs \<le> 1
    \<and> (sr_ok r \<longrightarrow> (\<exists>req hash. reqs = [req] \<and> cl_writeContract cl req = Inr hash \<and> sr_receiptId r = Some hash
          \<and> cl_waitReceipt cl hash = Inr (Some \<lparr> rc_transactionHash = hash, rc_status = ''success'' \<rparr>)))
    \<and> (reqs \<noteq> [] \<longrightarrow> \<not> isDefiniteRejection (sr_reason r) \<and> snd (gate_finish seen key r) = seen)"
proof -
  have one: "length reqs \<le> 1"
  proof (cases "reqs = []")
    case False
    obtain a smart sig where "settle_signed cl a smart sig = (r, reqs)"
      by (rule settling_reqs [OF assms False])
    then show ?thesis using settle_signed_broadcast by blast
  qed simp
  have ok: "\<exists>req hash. reqs = [req] \<and> cl_writeContract cl req = Inr hash \<and> sr_receiptId r = Some hash
          \<and> cl_waitReceipt cl hash = Inr (Some \<lparr> rc_transactionHash = hash, rc_status = ''success'' \<rparr>)" if okr: "sr_ok r"
  proof -
    obtain env smart sig where "settle_signed cl (auth_of env) smart sig = (r, reqs)"
      by (rule settling_ok_cases [OF assms okr])
    then show ?thesis by (rule settle_signed_ok [OF _ okr]) auto
  qed
  have kept: "\<not> isDefiniteRejection (sr_reason r)" if broadcast: "reqs \<noteq> []"
  proof -
    obtain a smart sig where "settle_signed cl a smart sig = (r, reqs)"
      by (rule settling_reqs [OF assms broadcast])
    then have "sr_reason r = None \<or> (\<exists>x. sr_reason r = Some (''settle-'' @ x))"
      using settle_signed_broadcast broadcast by blast
    then show ?thesis
    proof
      assume "sr_reason r = None"
      then show ?thesis by (simp add: isDefiniteRejection_def)
    next
      assume "\<exists>x. sr_reason r = Some (''settle-'' @ x)"
      then show ?thesis using settle_leg_not_definite by auto
    qed
  qed
  then have "snd (gate_finish seen key r) = seen" if "reqs \<noteq> []"
    using that by (auto simp: gate_finish_def split: option.splits)
  with one ok kept show ?thesis by blast
qed


section \<open>Concrete runs\<close>

definition sample_cfg :: standard_cfg where
  "sample_cfg = \<lparr> sf_base = ''https://f'', sf_network = ''eip155:8453'', sf_usdcName = ''USD Coin'',
     sf_usdcVersion = ''2'', sf_maxTimeoutSeconds = 60 \<rparr>"

definition paying_envelope :: envelope where
  "paying_envelope = sample_envelope\<lparr>en_authorization :=
     Some ((auth_of sample_envelope)\<lparr>au_to := Some (''0x'' @ replicate 40 (CHR ''c''))\<rparr>)\<rparr>"

definition paying_gate :: gate_env where
  "paying_gate = sample_gate\<lparr>ge_price := sample_price\<lparr>pr_payTo := ''0x'' @ replicate 40 (CHR ''C'')\<rparr>\<rparr>"

definition blank_json :: json_body where
  "blank_json = \<lparr> jb_ok = None, jb_receiptId = None, jb_reason = None, jb_isValid = None, jb_hasIsValid = False,
     jb_invalidReason = None, jb_invalidMessage = None, jb_success = None, jb_hasSuccess = False,
     jb_transaction = None, jb_errorReason = None, jb_errorMessage = None \<rparr>"

definition answering :: "json_body \<Rightarrow> network" where
  "answering settle_answer calls call = Inr \<lparr> hr_ok = True, hr_status = 200,
     hr_json = Some (if calls = [] then blank_json\<lparr>jb_isValid := Some True, jb_hasIsValid := True\<rparr> else settle_answer) \<rparr>"

definition paid_json :: json_body where
  "paid_json = blank_json\<lparr>jb_success := Some True, jb_hasSuccess := True, jb_transaction := Some ''0xtx''\<rparr>"

definition failed_json :: json_body where
  "failed_json = blank_json\<lparr>jb_success := Some False, jb_hasSuccess := True, jb_transaction := Some ''0xtx'',
     jb_errorReason := Some ''transaction-timeout''\<rparr>"

abbreviation paid_run :: "settle_result \<times> http_call list" where
  "paid_run \<equiv> standard_verifyAndSettle sample_cfg (answering paid_json) (Some (ge_price paying_gate)) (Some paying_envelope) 6"

lemma paid_run_ok: "fst paid_run = settled_as ''0xtx''"
  by code_simp

lemma paying_enter: "gate_enter paying_gate [] (Some paying_envelope) 5 = (Inr (Some sample_key), [sample_key])"
  by code_simp

theorem standard_settles_on_positive_evidence_witness:
  "length (snd paid_run) = 2 \<and> sr_receiptId (fst paid_run) = Some ''0xtx''"
proof -
  have "sr_ok (fst paid_run)" by (simp only: paid_run_ok settle_result.select_convs)
  then have "length (snd paid_run) = 2"
    by (rule standard_settles_on_positive_evidence [OF prod.collapse [symmetric],
          THEN conjunct2, THEN conjunct2, THEN mp, THEN conjunct1])
  moreover have "sr_receiptId (fst paid_run) = Some ''0xtx''"
    by (simp only: paid_run_ok settle_result.select_convs)
  ultimately show ?thesis by (rule conjI)
qed


definition sample_client :: "unit chain_client" where
  "sample_client = \<lparr> cl_getCode = (\<lambda>_. Inr None), cl_parse6492 = Inr, cl_authorizationState = (\<lambda>_ _. Inr False),
     cl_simulate = (\<lambda>_ _. Inr ()), cl_writeContract = (\<lambda>_. Inr ''0xh''),
     cl_waitReceipt = (\<lambda>h. Inr (Some \<lparr> rc_transactionHash = h, rc_status = ''reverted'' \<rparr>)) \<rparr>"

definition sample_recovery :: recovery where
  "sample_recovery = \<lparr> rv_recover = (\<lambda>td _. au_from (td_message td)), rv_verify = None \<rparr>"

definition sample_domain :: domain_cfg where
  "sample_domain = \<lparr> dc_chainId = 8453, dc_usdcName = None, dc_usdcVersion = None, dc_usdcAddress = None \<rparr>"

abbreviation reverted_run :: "settle_result \<times> unit list" where
  "reverted_run \<equiv> settling_verifyAndSettle sample_client sample_recovery sample_domain (Some paying_envelope) 6"

lemma reverted_run_result: "reverted_run = (refused ''settle-reverted: 0xh'', [()])"
  by code_simp

theorem settling_broadcasts_once_and_keeps_the_key_witness:
  "snd (gate_finish [sample_key] (Some sample_key) (fst reverted_run)) = [sample_key]"
  using settling_broadcasts_once_and_keeps_the_key [OF reverted_run_result, of "[sample_key]" "Some sample_key"]
  by (simp add: reverted_run_result)

text \<open>
  A settle leg can release the key: when a remote facilitator has verified a payment, was asked
  to settle it and reports a failure whose reason is spelled like one of the server's own refusals,
  the gate drops the replay key although a transaction was named, so the same signed payment is
  admitted again.
\<close>

theorem settle_leg_can_release_the_key:
  "length (snd (standard_verifyAndSettle sample_cfg (answering failed_json) (Some (ge_price paying_gate)) (Some paying_envelope) 6)) = 2
   \<and> gate_finish [sample_key] (Some sample_key)
        (fst (standard_verifyAndSettle sample_cfg (answering failed_json) (Some (ge_price paying_gate)) (Some paying_envelope) 6))
      = (Inl ''transaction-timeout'', [])"
  by code_simp

end
