(* ===== verification/Canary_Tracker.thy ===== *)
theory Canary_Tracker
  imports Decimal
begin

text \<open>
  The vocabulary of the canary's signals, \<open>packages/canary/src/signal.mjs\<close>, and the transition
  tracker that turns observations into operator lines, \<open>packages/canary/src/transitions.mjs\<close>.

  A tracked record is mutated in place in the code; here it is written back under its id. The
  \<open>detail\<close> of a result keeps the three fields the tracker reads, and one of type \<open>'d\<close> for the rest.
\<close>

section \<open>Signals\<close>

datatype sig_status = StOk | StAlert | StSkipped

record 'd sig =
  sg_id :: string
  sg_signal :: string
  sg_vault :: string
  sg_key :: "string option"
  sg_status :: sig_status
  sg_message :: string
  sg_measured :: "string option"
  sg_threshold :: "string option"
  sg_minConsecutive :: "int option"
  sg_detectorBroken :: bool
  sg_notApplicable :: bool
  sg_detail :: 'd

definition signalId :: "string \<Rightarrow> string \<Rightarrow> string option \<Rightarrow> string" where
  "signalId signal vault key = (case key of
      Some k \<Rightarrow> if k \<noteq> [] then signal @ ''|'' @ vault @ ''|'' @ k else signal @ ''|'' @ vault
    | None \<Rightarrow> signal @ ''|'' @ vault)"

definition build_sig ::
  "sig_status \<Rightarrow> string \<Rightarrow> string \<Rightarrow> string option \<Rightarrow> string \<Rightarrow> string option \<Rightarrow> string option \<Rightarrow> 'd \<Rightarrow> 'd sig" where
  "build_sig status signal vault key message measured threshold detail =
     \<lparr> sg_id = signalId signal vault key, sg_signal = signal, sg_vault = vault, sg_key = key,
       sg_status = status, sg_message = message, sg_measured = measured, sg_threshold = threshold,
       sg_minConsecutive = None, sg_detectorBroken = False, sg_notApplicable = False, sg_detail = detail \<rparr>"

definition detectorBroken :: "string \<Rightarrow> string \<Rightarrow> string option \<Rightarrow> string \<Rightarrow> 'd \<Rightarrow> 'd sig" where
  "detectorBroken signal vault key message detail =
     (build_sig StSkipped signal vault key message None None detail)\<lparr>sg_detectorBroken := True\<rparr>"

definition notApplicable :: "string \<Rightarrow> string \<Rightarrow> string option \<Rightarrow> string \<Rightarrow> 'd \<Rightarrow> 'd sig" where
  "notApplicable signal vault key message detail =
     (build_sig StOk signal vault key message None None detail)\<lparr>sg_notApplicable := True\<rparr>"

definition divergenceBps :: "int \<Rightarrow> int \<Rightarrow> int" where
  "divergenceBps a b =
     (let hi = (if a > b then a else b) in
      if hi = 0 then 0 else bdiv ((if a > b then a - b else b - a) * 10000) hi)"

definition bpsToPct :: "int \<Rightarrow> string" where
  "bpsToPct n =
     (let m = \<bar>n\<bar> in
      (if n < 0 then ''-'' else []) @ show_int (m div 100) @ ''.''
        @ pad_start 2 (CHR ''0'') (show_int (m mod 100)) @ ''%'')"

section \<open>Lines\<close>

definition MARK :: "sig_status \<Rightarrow> string" where
  "MARK s = (case s of StAlert \<Rightarrow> ''ALERT'' | StOk \<Rightarrow> ''RECOVERED'' | StSkipped \<Rightarrow> ''DEGRADED'')"

definition markFor :: "sig_status \<Rightarrow> 'd sig \<Rightarrow> int \<Rightarrow> string" where
  "markFor to r repeat =
     (if sg_detectorBroken r
      then (if repeat > 0 then ''DETECTOR BROKEN (still blind after '' @ show_int repeat @ '' consecutive sweeps)''
            else ''DETECTOR BROKEN'')
      else if to = StOk \<and> sg_notApplicable r then ''NOTICE''
      else MARK to)"

fun join_words :: "string list \<Rightarrow> string" where
  "join_words [] = []"
| "join_words [w] = w"
| "join_words (w # ws) = w @ '' '' @ join_words ws"

definition formatLine :: "sig_status \<Rightarrow> 'd sig \<Rightarrow> string \<Rightarrow> int \<Rightarrow> string" where
  "formatLine to r timestamp repeat =
     (let mt = (case (sg_measured r, sg_threshold r) of
                  (Some m, Some t) \<Rightarrow> ''(measured '' @ m @ '', threshold '' @ t @ '')'' | _ \<Rightarrow> [])
      in join_words (filter (\<lambda>w. w \<noteq> [])
           [timestamp, markFor to r repeat, ''['' @ sg_signal r @ '']'', sg_message r, mt]))"

section \<open>The tracker\<close>

record tracked =
  tr_status :: sig_status
  tr_since :: int
  tr_pendingStatus :: "sig_status option"
  tr_pendingCount :: int
  tr_brokenPolls :: int
  tr_brokenNext :: int

record transition =
  tn_id :: string
  tn_from :: sig_status
  tn_to :: sig_status
  tn_line :: string
  tn_repeat :: int

type_synonym tracker = "(string, tracked) jsmap"

definition BROKEN_REPEAT_CAP :: int where "BROKEN_REPEAT_CAP = 64"

definition nextBrokenReport :: "int \<Rightarrow> int" where
  "nextBrokenReport n = (if n \<ge> BROKEN_REPEAT_CAP then n + BROKEN_REPEAT_CAP else n * 2)"

definition blind :: "'d sig \<Rightarrow> bool" where
  "blind r \<longleftrightarrow> sg_detectorBroken r \<and> sg_status r \<noteq> StOk"

definition needed :: "'d sig \<Rightarrow> int" where
  "needed r = max 1 (case sg_minConsecutive r of None \<Rightarrow> 1 | Some n \<Rightarrow> n)"

definition emit_line :: "string \<Rightarrow> 'd sig \<Rightarrow> sig_status \<Rightarrow> int \<Rightarrow> transition" where
  "emit_line timestamp r from repeat =
     \<lparr> tn_id = sg_id r, tn_from = from, tn_to = sg_status r,
       tn_line = formatLine (sg_status r) r timestamp repeat, tn_repeat = repeat \<rparr>"

definition first_sight :: "int \<Rightarrow> 'd sig \<Rightarrow> tracked" where
  "first_sight poll r =
     \<lparr> tr_status = sg_status r, tr_since = poll, tr_pendingStatus = None, tr_pendingCount = 0,
       tr_brokenPolls = (if blind r then 1 else 0), tr_brokenNext = (if blind r then 2 else 0) \<rparr>"

text \<open>One result of a poll: the tracker after it, and the line it emits, if any.\<close>

definition observe_one :: "int \<Rightarrow> string \<Rightarrow> tracker \<Rightarrow> 'd sig \<Rightarrow> tracker \<times> transition option" where
  "observe_one poll timestamp states r = (case map_of states (sg_id r) of
      None \<Rightarrow>
        (AList.update (sg_id r) (first_sight poll r) states,
         if sg_status r \<noteq> StOk \<or> sg_notApplicable r then Some (emit_line timestamp r StOk 0) else None)
    | Some prev \<Rightarrow>
        if sg_status r = tr_status prev then
          let p1 = prev\<lparr>tr_pendingStatus := None, tr_pendingCount := 0\<rparr> in
          if \<not> blind r
          then (AList.update (sg_id r) (p1\<lparr>tr_brokenPolls := 0, tr_brokenNext := 0\<rparr>) states, None)
          else
            let polls = tr_brokenPolls prev + 1 in
            if polls \<ge> (if tr_brokenNext prev = 0 then 2 else tr_brokenNext prev)
            then (AList.update (sg_id r) (p1\<lparr>tr_brokenPolls := polls, tr_brokenNext := nextBrokenReport polls\<rparr>) states,
                  Some (emit_line timestamp r (tr_status prev) polls))
            else (AList.update (sg_id r) (p1\<lparr>tr_brokenPolls := polls\<rparr>) states, None)
        else
          let pc = (if tr_pendingStatus prev = Some (sg_status r) then tr_pendingCount prev + 1 else 1) in
          if pc < needed r
          then (AList.update (sg_id r) (prev\<lparr>tr_pendingStatus := Some (sg_status r), tr_pendingCount := pc\<rparr>) states, None)
          else (AList.update (sg_id r) (first_sight poll r) states,
                Some (emit_line timestamp r (tr_status prev) 0)))"

fun observe :: "int \<Rightarrow> string \<Rightarrow> tracker \<Rightarrow> 'd sig list \<Rightarrow> tracker \<times> transition list" where
  "observe poll timestamp states [] = (states, [])"
| "observe poll timestamp states (r # rs) =
     (let (states1, t) = observe_one poll timestamp states r;
          (states2, ts) = observe poll timestamp states1 rs
      in (states2, (case t of None \<Rightarrow> ts | Some x \<Rightarrow> x # ts)))"

text \<open>Poll after poll: the lines in the order they were emitted.\<close>

fun sweeps :: "tracker \<Rightarrow> (int \<times> string \<times> 'd sig list) list \<Rightarrow> tracker \<times> transition list" where
  "sweeps states [] = (states, [])"
| "sweeps states ((poll, ts, rs) # later) =
     (let (states1, out) = observe poll ts states rs; (states2, out2) = sweeps states1 later
      in (states2, out @ out2))"

definition unhealthy :: "tracker \<Rightarrow> (string \<times> tracked) list" where
  "unhealthy states = filter (\<lambda>(i, s). tr_status s \<noteq> StOk) states"

section \<open>The lines tell the state\<close>

text \<open>What an operator concludes about an id who starts from \<open>s\<close> and reads the lines in order.\<close>

definition told :: "string \<Rightarrow> sig_status \<Rightarrow> transition list \<Rightarrow> sig_status" where
  "told i s out = fold (\<lambda>t s. if tn_id t = i then tn_to t else s) out s"

definition status_of :: "tracker \<Rightarrow> string \<Rightarrow> sig_status" where
  "status_of states i = (case map_of states i of Some t \<Rightarrow> tr_status t | None \<Rightarrow> StOk)"

lemma told_Nil [simp]: "told i s [] = s"
  by (simp add: told_def)

lemma told_Cons [simp]: "told i s (t # ts) = told i (if tn_id t = i then tn_to t else s) ts"
  by (simp add: told_def)

lemma told_append [simp]: "told i s (xs @ ys) = told i (told i s xs) ys"
  by (simp add: told_def)

lemma status_of_update [simp]:
  "status_of (AList.update k v m) i = (if i = k then tr_status v else status_of m i)"
  by (simp add: status_of_def update_conv')

lemma emit_line_simps [simp]:
  "tn_id (emit_line ts r from n) = sg_id r" "tn_to (emit_line ts r from n) = sg_status r"
  "tn_from (emit_line ts r from n) = from" "tn_repeat (emit_line ts r from n) = n"
  by (simp_all add: emit_line_def)

lemma first_sight_status [simp]: "tr_status (first_sight poll r) = sg_status r"
  by (simp add: first_sight_def)

lemma observe_one_told:
  assumes "observe_one poll ts states r = (states', t)"
  shows "status_of states' i = told i (status_of states i) (case t of None \<Rightarrow> [] | Some x \<Rightarrow> [x])"
  using assms
  by (auto simp: observe_one_def status_of_def update_conv' Let_def split: option.splits if_splits)

lemma observe_one_from:
  assumes "observe_one poll ts states r = (states', Some t)"
  shows "tn_from t = status_of states (tn_id t) \<and> (tn_from t = tn_to t \<longrightarrow> blind r \<or> sg_notApplicable r)"
  using assms
  by (auto simp: observe_one_def status_of_def Let_def split: option.splits if_splits)

lemma observe_Cons_cases:
  assumes "observe poll ts states (r # rs) = (states', out)"
  obtains states1 t out2 where "observe_one poll ts states r = (states1, t)"
    "observe poll ts states1 rs = (states', out2)"
    "out = (case t of None \<Rightarrow> [] | Some x \<Rightarrow> [x]) @ out2"
proof -
  obtain states1 t where one: "observe_one poll ts states r = (states1, t)" by fastforce
  obtain states2 out2 where rest: "observe poll ts states1 rs = (states2, out2)" by fastforce
  have "states' = states2" "out = (case t of None \<Rightarrow> [] | Some x \<Rightarrow> [x]) @ out2"
    using assms one rest by (auto split: option.splits)
  then show thesis using that [OF one] rest by blast
qed

lemma observe_told:
  "observe poll ts states rs = (states', out) \<Longrightarrow> status_of states' i = told i (status_of states i) out"
proof (induction rs arbitrary: states out)
  case (Cons r rs)
  from Cons.prems show ?case
    by (rule observe_Cons_cases) (use Cons.IH observe_one_told in \<open>force\<close>)
qed simp

lemma sweeps_Cons_cases:
  assumes "sweeps states ((poll, ts, rs) # later) = (states', out)"
  obtains states1 out1 out2 where "observe poll ts states rs = (states1, out1)"
    "sweeps states1 later = (states', out2)" "out = out1 @ out2"
  using assms by (auto split: prod.splits)

lemma sweeps_told:
  "sweeps states polls = (states', out) \<Longrightarrow> status_of states' i = told i (status_of states i) out"
proof (induction polls arbitrary: states out)
  case (Cons p polls)
  obtain poll ts rs where p: "p = (poll, ts, rs)" by (cases p) auto
  from Cons.prems [unfolded p] obtain states1 out1 out2 where
    "observe poll ts states rs = (states1, out1)" "sweeps states1 polls = (states', out2)" "out = out1 @ out2"
    by (rule sweeps_Cons_cases)
  then show ?case using observe_told [of poll ts states rs states1 out1 i] Cons.IH by simp
qed simp

text \<open>
  Every line names the status the operator had concluded from the lines before it, and a line that
  does not change it is a re-assertion of a blind detector or the one notice of a check without
  subject.
\<close>

definition line_ok :: "sig_status \<Rightarrow> transition \<Rightarrow> bool" where
  "line_ok s t \<longleftrightarrow> tn_from t = s \<and> (tn_to t = s \<and> s \<noteq> StOk \<longrightarrow> tn_repeat t > 0 )"

fun lines_ok :: "(string \<Rightarrow> sig_status) \<Rightarrow> transition list \<Rightarrow> bool" where
  "lines_ok st [] = True"
| "lines_ok st (t # ts) = (line_ok (st (tn_id t)) t \<and> lines_ok (st(tn_id t := tn_to t)) ts)"

lemma lines_ok_append:
  "lines_ok st (xs @ ys) \<longleftrightarrow> lines_ok st xs \<and> lines_ok (\<lambda>i. told i (st i) xs) ys"
proof (induction xs arbitrary: st)
  case (Cons x xs)
  have eq: "(\<lambda>i. told i ((st(tn_id x := tn_to x)) i) xs) = (\<lambda>i. told i (st i) (x # xs))"
    by (rule ext) simp
  show ?case by (simp only: append_Cons lines_ok.simps Cons.IH eq conj_assoc)
qed simp

definition broken_counts :: "tracker \<Rightarrow> bool" where
  "broken_counts states \<longleftrightarrow> (\<forall>t \<in> snd ` set states. tr_brokenPolls t \<ge> 0)"

lemma broken_counts_get: "broken_counts states \<Longrightarrow> map_of states i = Some t \<Longrightarrow> tr_brokenPolls t \<ge> 0"
  unfolding broken_counts_def by (force dest: map_of_SomeD)

lemma broken_counts_update:
  "broken_counts states \<Longrightarrow> tr_brokenPolls t \<ge> 0 \<Longrightarrow> broken_counts (AList.update i t states)"
  unfolding broken_counts_def using set_update_sub [of i t states] by fastforce

lemma observe_one_line:
  assumes "observe_one poll ts states r = (states', t)" "broken_counts states"
  shows "broken_counts states' \<and> lines_ok (status_of states) (case t of None \<Rightarrow> [] | Some x \<Rightarrow> [x])"
proof (cases "map_of states (sg_id r)")
  case None
  then show ?thesis using assms
    by (auto simp: observe_one_def line_ok_def status_of_def first_sight_def intro!: broken_counts_update)
next
  case (Some prev)
  have "tr_brokenPolls prev \<ge> 0" by (rule broken_counts_get [OF assms(2) Some])
  then show ?thesis using assms Some
    by (auto simp: observe_one_def line_ok_def status_of_def first_sight_def Let_def
             intro!: broken_counts_update split: if_splits)
qed

lemma observe_lines:
  "observe poll ts states rs = (states', out) \<Longrightarrow> broken_counts states \<Longrightarrow>
     broken_counts states' \<and> lines_ok (status_of states) out"
proof (induction rs arbitrary: states out)
  case (Cons r rs)
  from Cons.prems(1) obtain states1 t out2 where
    one: "observe_one poll ts states r = (states1, t)" and rest: "observe poll ts states1 rs = (states', out2)"
    and out: "out = (case t of None \<Rightarrow> [] | Some x \<Rightarrow> [x]) @ out2"
    by (rule observe_Cons_cases)
  have "status_of states1 = (\<lambda>i. told i (status_of states i) (case t of None \<Rightarrow> [] | Some x \<Rightarrow> [x]))"
    by (rule ext) (rule observe_one_told [OF one])
  then show ?case
    using Cons.IH [OF rest] observe_one_line [OF one Cons.prems(2)] by (simp add: out lines_ok_append)
qed simp

lemma sweeps_lines:
  "sweeps states polls = (states', out) \<Longrightarrow> broken_counts states \<Longrightarrow> lines_ok (status_of states) out"
proof (induction polls arbitrary: states out)
  case (Cons p polls)
  obtain poll ts rs where p: "p = (poll, ts, rs)" by (cases p) auto
  from Cons.prems(1) [unfolded p] obtain states1 out1 out2 where
    o: "observe poll ts states rs = (states1, out1)" "sweeps states1 polls = (states', out2)" "out = out1 @ out2"
    by (rule sweeps_Cons_cases)
  have "status_of states1 = (\<lambda>i. told i (status_of states i) out1)"
    by (rule ext) (rule observe_told [OF o(1)])
  then show ?case
    using Cons.IH [OF o(2)] observe_lines [OF o(1) Cons.prems(2)] by (simp add: o(3) lines_ok_append)
qed simp

text \<open>
  The operator's lines and the tracker never drift apart: over any number of polls of a fresh
  tracker, the status it holds for an id is what the last line about that id says (healthy while
  none was written), each line starts from the status the previous one left, and a line that
  repeats a fault is a counted re-assertion of a blind detector.
\<close>

theorem lines_tell_the_state:
  assumes "sweeps [] polls = (states, out)"
  shows "status_of states i = told i StOk out \<and> lines_ok (\<lambda>_. StOk) out"
proof -
  have "status_of [] = (\<lambda>_. StOk)" by (rule ext) (simp add: status_of_def)
  then show ?thesis
    using sweeps_told [OF assms, of i] sweeps_lines [OF assms] by (simp add: broken_counts_def)
qed

section \<open>The debounce counter never runs negative\<close>

definition pending_ok :: "tracker \<Rightarrow> bool" where
  "pending_ok states \<longleftrightarrow> (\<forall>i t. map_of states i = Some t \<longrightarrow> 0 \<le> tr_pendingCount t)"

lemma pending_ok_get: "pending_ok states \<Longrightarrow> map_of states i = Some t \<Longrightarrow> 0 \<le> tr_pendingCount t"
  by (simp add: pending_ok_def)

lemma pending_ok_update: "pending_ok states \<Longrightarrow> 0 \<le> tr_pendingCount t \<Longrightarrow> pending_ok (AList.update i t states)"
  by (auto simp: pending_ok_def update_conv')

lemma first_sight_pending [simp]: "tr_pendingCount (first_sight p x) = 0"
  by (simp add: first_sight_def)

lemma observe_one_pending:
  assumes "pending_ok states" "observe_one p t states x = (states', out)"
  shows "pending_ok states'"
  using assms
  by (auto simp: observe_one_def Let_def dest: pending_ok_get intro!: pending_ok_update split: option.splits if_splits)

lemma observe_pending: "pending_ok states \<Longrightarrow> observe p t states xs = (states', out) \<Longrightarrow> pending_ok states'"
  by (induction xs arbitrary: states out) (auto split: prod.splits dest: observe_one_pending)

lemma sweeps_pending: "pending_ok states \<Longrightarrow> sweeps states h = (states', out) \<Longrightarrow> pending_ok states'"
  by (induction states h arbitrary: out rule: sweeps.induct) (auto split: prod.splits dest: observe_pending)

section \<open>A dead detector keeps saying so\<close>

text \<open>The sweeps after the first that report: doubling up to the cap, then every 64.\<close>

definition next_report :: "int \<Rightarrow> int" where
  "next_report n = (if n < 2 then 2 else if n < 4 then 4 else if n < 8 then 8 else if n < 16 then 16
     else if n < 32 then 32 else if n < 64 then 64 else (n div 64 + 1) * 64)"

definition reports_at :: "int \<Rightarrow> bool" where
  "reports_at n \<longleftrightarrow> n \<in> {1, 2, 4, 8, 16, 32} \<or> n mod 64 = 0"

lemma next_report_large: "64 \<le> n \<Longrightarrow> next_report n = n - n mod 64 + 64"
  by (simp add: next_report_def minus_mod_eq_mult_div algebra_simps)

lemma next_report_small:
  "list_all (\<lambda>n. (n + 1 \<ge> next_report n \<longleftrightarrow> reports_at (n + 1))
     \<and> next_report (n + 1) = (if n + 1 \<ge> next_report n then nextBrokenReport (n + 1) else next_report n)) [1..63]"
  by code_simp

lemma next_report_next:
  assumes "0 < n"
  shows "(n + 1 \<ge> next_report n \<longleftrightarrow> reports_at (n + 1))
     \<and> next_report (n + 1) = (if n + 1 \<ge> next_report n then nextBrokenReport (n + 1) else next_report n)"
proof (cases "n < 64")
  case True
  then have "n \<in> set [1..63]" using assms by (simp only: set_upto atLeastAtMost_iff) linarith
  then show ?thesis using bspec [OF next_report_small [unfolded list_all_iff]] by blast
next
  case False
  have l: "0 \<le> n mod 64" "n mod 64 < 64" by simp_all
  have "(n + 1) mod 64 = (n mod 64 + 1) mod 64" by (rule mod_add_left_eq [symmetric])
  also have "\<dots> = (if n mod 64 = 63 then 0 else n mod 64 + 1)"
    using l by (cases "n mod 64 = 63") (simp_all add: mod_pos_pos_trivial)
  finally have m: "(n + 1) mod 64 = (if n mod 64 = 63 then 0 else n mod 64 + 1)" .
  have large: "next_report n = n - n mod 64 + 64" "next_report (n + 1) = n + 1 - (n + 1) mod 64 + 64"
    using False by (simp_all add: next_report_large)
  have ne: "n + 1 \<notin> {1, 2, 4, 8, 16, 32}" using False by auto
  show ?thesis
  proof (cases "n mod 64 = 63")
    case True
    then show ?thesis using False m large by (simp add: reports_at_def nextBrokenReport_def BROKEN_REPEAT_CAP_def)
  next
    case other: False
    then have "n mod 64 + 1 \<noteq> 0" "n mod 64 < 63" using l by (simp_all add: add_eq_0_iff)
    then show ?thesis using other m large ne by (simp add: reports_at_def)
  qed
qed
lemma next_report_pos: "0 < next_report n"
proof (cases "n < 64")
  case False
  then have "0 \<le> n div 64" by (simp add: pos_imp_zdiv_nonneg_iff)
  then show ?thesis using False by (simp add: next_report_def)
qed (simp add: next_report_def)

definition blind_since :: "tracker \<Rightarrow> string \<Rightarrow> sig_status \<Rightarrow> int \<Rightarrow> bool" where
  "blind_since states i st n \<longleftrightarrow> (\<exists>t. map_of states i = Some t \<and> tr_status t = st \<and> tr_brokenPolls t = n
     \<and> tr_brokenNext t = next_report n)"

lemma blind_step:
  assumes "blind_since states (sg_id r) (sg_status r) n" "0 < n" "blind r"
  obtains states' t where "observe_one poll ts states r = (states', t)"
    "blind_since states' (sg_id r) (sg_status r) (n + 1)"
    "t = (if reports_at (n + 1) then Some (emit_line ts r (sg_status r) (n + 1)) else None)"
proof -
  obtain p where p: "map_of states (sg_id r) = Some p" "tr_status p = sg_status r"
    "tr_brokenPolls p = n" "tr_brokenNext p = next_report n"
    using assms(1) by (auto simp: blind_since_def)
  have nz: "next_report n \<noteq> 0" using next_report_pos [of n] by simp
  show thesis
    using that [of "fst (observe_one poll ts states r)" "snd (observe_one poll ts states r)"]
      p nz assms(3) next_report_next [OF assms(2)]
    by (auto simp: observe_one_def blind_since_def update_conv' Let_def)
qed

definition blind_sweeps :: "'d sig \<Rightarrow> int \<Rightarrow> string \<Rightarrow> nat \<Rightarrow> (int \<times> string \<times> 'd sig list) list" where
  "blind_sweeps r poll ts k = replicate k (poll, ts, [r])"

lemma blind_sweeps_from:
  assumes "blind_since states (sg_id r) (sg_status r) n" "0 < n" "blind r"
  shows "map tn_repeat (snd (sweeps states (blind_sweeps r poll ts k)))
           = filter reports_at [n + 1 .. n + int k]"
  using assms
proof (induction k arbitrary: states n)
  case 0
  then show ?case by (simp add: blind_sweeps_def)
next
  case (Suc k)
  from Suc.prems obtain states1 t where
    one: "observe_one poll ts states r = (states1, t)"
    and b: "blind_since states1 (sg_id r) (sg_status r) (n + 1)"
    and t: "t = (if reports_at (n + 1) then Some (emit_line ts r (sg_status r) (n + 1)) else None)"
    by (rule blind_step)
  have IH: "map tn_repeat (snd (sweeps states1 (blind_sweeps r poll ts k)))
     = filter reports_at [n + 2 .. n + 1 + int k]"
    using Suc.IH [OF b _ Suc.prems(3)] Suc.prems(2) by (simp add: add.commute add.left_commute)
  have upto: "[n + 1 .. n + int (Suc k)] = (n + 1) # [n + 2 .. n + 1 + int k]"
    by (subst upto_rec1) (simp_all add: algebra_simps)
  have filt: "filter reports_at [n + 1 .. n + int (Suc k)]
     = (if reports_at (n + 1) then [n + 1] else []) @ filter reports_at [n + 2 .. n + 1 + int k]"
    unfolding upto by simp
  obtain s2 o2 where s2: "sweeps states1 (blind_sweeps r poll ts k) = (s2, o2)" by fastforce
  have "sweeps states (blind_sweeps r poll ts (Suc k))
     = (s2, (case t of None \<Rightarrow> [] | Some x \<Rightarrow> [x]) @ o2)"
    using s2 one by (simp add: blind_sweeps_def split: option.splits)
  then show ?case unfolding filt using IH s2 t by (cases "reports_at (n + 1)") simp_all
qed

text \<open>
  A monitor that is blind never goes quiet: over k consecutive sweeps in which one detector is
  broken from its first sighting on, it is reported at the sweeps 1, 2, 4, 8, 16, 32 and then at
  every multiple of 64, each line carrying the number of sweeps it has been blind.
\<close>

theorem blind_detector_is_reported:
  assumes "blind r" and "map_of states (sg_id r) = None"
  shows "map tn_repeat (snd (sweeps states (blind_sweeps r poll ts (Suc k))))
           = 0 # filter reports_at [2 .. int (Suc k)]"
proof -
  have notok: "sg_status r \<noteq> StOk" using assms(1) by (simp add: blind_def)
  let ?s = "AList.update (sg_id r) (first_sight poll r) states"
  have b: "blind_since ?s (sg_id r) (sg_status r) 1"
    using assms(1) by (simp add: blind_since_def update_conv' first_sight_def next_report_def)
  have one: "observe_one poll ts states r = (?s, Some (emit_line ts r StOk 0))"
    using assms(2) notok by (simp add: observe_one_def)
  obtain s2 o2 where s2: "sweeps ?s (blind_sweeps r poll ts k) = (s2, o2)" by fastforce
  have "sweeps states (blind_sweeps r poll ts (Suc k)) = (s2, emit_line ts r StOk 0 # o2)"
    using s2 one by (simp add: blind_sweeps_def)
  moreover have "map tn_repeat o2 = filter reports_at [2 .. int (Suc k)]"
    using blind_sweeps_from [OF b _ assms(1), of poll ts k] s2 by simp
  ultimately show ?thesis by simp
qed

definition sample_blind :: "unit sig" where
  "sample_blind = detectorBroken ''oracle'' ''0xv'' None ''blind'' ()"

lemma sample_blind_blind: "blind sample_blind"
  by (simp add: sample_blind_def detectorBroken_def build_sig_def blind_def)

theorem blind_detector_is_reported_witness:
  "map tn_repeat (snd (sweeps [] (blind_sweeps sample_blind 7 ''t'' (Suc 8)))) = [0, 2, 4, 8]"
  using blind_detector_is_reported [OF sample_blind_blind, of "[]" 7 "''t''" 8]
  by (simp add: reports_at_def upto.simps)

definition sample_polls :: "(int \<times> string \<times> unit sig list) list" where
  "sample_polls =
     (let s = (\<lambda>st. (build_sig st ''nav'' ''0xv'' None ''m'' None None ())\<lparr>sg_minConsecutive := Some 2\<rparr>)
      in [(1, ''a'', [s StOk]), (2, ''b'', [s StAlert]), (3, ''c'', [s StAlert, sample_blind]),
          (4, ''d'', [s StOk, sample_blind]), (5, ''e'', [s StOk])])"

theorem lines_tell_the_state_witness:
  "map (\<lambda>t. (tn_to t, tn_repeat t)) (snd (sweeps [] sample_polls))
     = [(StAlert, 0), (StSkipped, 0), (StSkipped, 2), (StOk, 0)]
   \<and> told (signalId ''oracle'' ''0xv'' None) StOk (snd (sweeps [] sample_polls)) = StSkipped"
proof -
  have st: "status_of (fst (sweeps [] sample_polls)) (signalId ''oracle'' ''0xv'' None) = StSkipped"
    by code_simp
  have ev: "map (\<lambda>t. (tn_to t, tn_repeat t)) (snd (sweeps [] sample_polls))
     = [(StAlert, 0), (StSkipped, 0), (StSkipped, 2), (StOk, 0)]"
    by code_simp
  from lines_tell_the_state [of sample_polls, OF prod.collapse [symmetric]] st
  have "told (signalId ''oracle'' ''0xv'' None) StOk (snd (sweeps [] sample_polls)) = StSkipped" by simp
  with ev show ?thesis by (rule conjI)
qed

end
