(* ===== verification/Web_Governance.thy ===== *)
theory Web_Governance
  imports Decimal
begin

text \<open>
  The web app's readout of a proposal, \<open>apps/web/src/governance.mjs\<close>: the phase, whether an exit
  taken now is queued (Mode F), the quorum and the operator's right to propose. The contract it
  mirrors, \<open>contracts/src/Governance.sol\<close>, is stated beside it as the specification.

  Labels and sentences shown to the user are left out. A field that is absent, or that \<open>Number\<close>
  does not turn into a finite number, is \<open>None\<close>.
\<close>

section \<open>What the contract decides\<close>

datatype sol_status = SNone | SActive | SPassed | SDefeated | SExecuted | SExpired
datatype sol_ptype = Rebalance | RuleChange | ChildAllocation

record sol_proposal =
  sp_ptype :: sol_ptype
  sp_commitDeadline :: int
  sp_revealDeadline :: int
  sp_executableAt :: int
  sp_expiresAt :: int
  sp_status :: sol_status
  sp_snapshotTotal :: int
  sp_memberCount :: int
  sp_forWeight :: int
  sp_revealedWeight :: int
  sp_revealedVoterCount :: int
  sp_delegatedForWeight :: int

definition sol_pending :: "sol_proposal option \<Rightarrow> int \<Rightarrow> bool" where
  "sol_pending active now = (case active of
      None \<Rightarrow> False
    | Some p \<Rightarrow> (case sp_status p of
          SActive \<Rightarrow> now \<ge> sp_commitDeadline p
        | SPassed \<Rightarrow> now \<le> sp_expiresAt p
        | _ \<Rightarrow> False))"

definition sol_quorumOk :: "sol_proposal \<Rightarrow> int \<Rightarrow> bool" where
  "sol_quorumOk p quorumBps = (case sp_ptype p of
      RuleChange \<Rightarrow> sp_revealedWeight p = sp_snapshotTotal p \<and> sp_forWeight p \<ge> sp_snapshotTotal p
    | _ \<Rightarrow>
        if sp_memberCount p < 5
        then let selfDirectedFor = sp_forWeight p - sp_delegatedForWeight p in
          (sp_revealedVoterCount p * 2 > sp_memberCount p
             \<and> selfDirectedFor * 10000 \<ge> quorumBps * sp_snapshotTotal p)
          \<or> selfDirectedFor * 2 > sp_snapshotTotal p
        else sp_revealedWeight p * 10000 \<ge> quorumBps * sp_snapshotTotal p)"

definition sol_can_commit :: "sol_proposal \<Rightarrow> int \<Rightarrow> bool" where
  "sol_can_commit p now \<longleftrightarrow> sp_status p = SActive \<and> now < sp_commitDeadline p"

definition sol_can_reveal :: "sol_proposal \<Rightarrow> int \<Rightarrow> bool" where
  "sol_can_reveal p now \<longleftrightarrow> sp_status p = SActive \<and> sp_commitDeadline p \<le> now \<and> now < sp_revealDeadline p"

definition sol_can_finalize :: "sol_proposal \<Rightarrow> int \<Rightarrow> bool" where
  "sol_can_finalize p now \<longleftrightarrow> sp_status p = SActive \<and> sp_revealDeadline p \<le> now"

definition sol_can_execute :: "sol_proposal \<Rightarrow> int \<Rightarrow> bool" where
  "sol_can_execute p now \<longleftrightarrow> sp_status p = SPassed \<and> sp_executableAt p \<le> now \<and> now \<le> sp_expiresAt p"

definition sol_can_expire :: "sol_proposal \<Rightarrow> int \<Rightarrow> bool" where
  "sol_can_expire p now \<longleftrightarrow> sp_status p = SPassed \<and> sp_expiresAt p < now"

lemmas sol_guards = sol_can_commit_def sol_can_reveal_def sol_can_finalize_def sol_can_execute_def sol_can_expire_def

section \<open>Reading values\<close>

datatype js_amount = JBig int | JStr string | JNone

definition num :: "int option \<Rightarrow> int option" where
  "num v = (case v of None \<Rightarrow> None | Some n \<Rightarrow> if n > 0 then Some n else None)"

fun big :: "js_amount \<Rightarrow> int option" where
  "big (JBig v) = Some v"
| "big (JStr v) = (if v = [] then None else bigint_of_string v)"
| "big JNone = None"

section \<open>Phase and exit mode\<close>

record web_proposal =
  wp_status :: string
  wp_commitDeadline :: "int option"
  wp_revealDeadline :: "int option"
  wp_executableAt :: "int option"
  wp_expiresAt :: "int option"

datatype web_phase =
  WCommit | WReveal | WTally | WTimelock | WExecutable | WExecuted | WDefeated | WExpired | WUnknown

text \<open>The phase, its index in the progress bar, and the deadline shown.\<close>

definition proposalPhase :: "web_proposal option \<Rightarrow> int \<Rightarrow> web_phase \<times> int \<times> int option" where
  "proposalPhase p nowSec =
     (let unknown = (WUnknown, -1, None) in
      case p of None \<Rightarrow> unknown
      | Some w \<Rightarrow>
        (let st = wp_status w;
             cd = num (wp_commitDeadline w); rd = num (wp_revealDeadline w);
             ea = num (wp_executableAt w); ex = num (wp_expiresAt w) in
         if st = ''Executed'' then (WExecuted, 3, None)
         else if st = ''Defeated'' then (WDefeated, -1, None)
         else if st = ''Expired'' then (WExpired, -1, None)
         else if st = ''Passed'' then
           (case ea of None \<Rightarrow> unknown
            | Some ea' \<Rightarrow>
                if nowSec < ea' then (WTimelock, 2, Some ea')
                else if (case ex of Some ex' \<Rightarrow> nowSec > ex' | None \<Rightarrow> False) then (WExpired, -1, None)
                else (WExecutable, 2, ex))
         else if st = ''Active'' then
           (case (cd, rd) of
              (Some cd', Some rd') \<Rightarrow>
                if nowSec < cd' then (WCommit, 0, Some cd')
                else if nowSec < rd' then (WReveal, 1, Some rd')
                else (WTally, 1, None)
            | _ \<Rightarrow> unknown)
         else unknown))"

datatype active_proposal = ProposalUnknown | NoProposal | Proposal web_proposal

definition hasPendingExecution :: "active_proposal \<Rightarrow> int \<Rightarrow> bool option" where
  "hasPendingExecution proposal nowSec = (case proposal of
      ProposalUnknown \<Rightarrow> None
    | NoProposal \<Rightarrow> Some False
    | Proposal w \<Rightarrow>
        let st = wp_status w in
        if st = ''Defeated'' \<or> st = ''Executed'' \<or> st = ''Expired'' then Some False
        else if st = ''Passed'' then
          (case num (wp_expiresAt w) of None \<Rightarrow> None | Some ex \<Rightarrow> Some (nowSec \<le> ex))
        else if st = ''Active'' then
          (case num (wp_commitDeadline w) of None \<Rightarrow> None | Some cd \<Rightarrow> Some (nowSec \<ge> cd))
        else None)"

datatype exit_mode = ModeI | ModeF | ModeUnknown

definition resolveExitMode :: "active_proposal \<Rightarrow> int \<Rightarrow> exit_mode" where
  "resolveExitMode proposal nowSec = (case hasPendingExecution proposal nowSec of
      Some True \<Rightarrow> ModeF | Some False \<Rightarrow> ModeI | None \<Rightarrow> ModeUnknown)"

section \<open>Quorum\<close>

definition QUORUM_FLOOR_BPS :: int where "QUORUM_FLOOR_BPS = 2500"
definition SIGNER_REGIME_BELOW :: int where "SIGNER_REGIME_BELOW = 5"

record quorum_input =
  qi_ptype :: string
  qi_revealedWeight :: js_amount
  qi_forWeight :: js_amount
  qi_snapshotTotal :: js_amount
  qi_memberCount :: "int option"
  qi_quorumBps :: "int option"
  qi_revealedVoterCount :: "int option"
  qi_delegatedForWeight :: js_amount

datatype regime = Consensus | Signers | Stake

record quorum_readout =
  qr_regime :: regime
  qr_met :: "bool option"
  qr_revealedBps :: "int option"
  qr_forBps :: "int option"
  qr_quorumBps :: "int option"

definition readout :: "regime \<Rightarrow> bool option \<Rightarrow> quorum_readout" where
  "readout r met = \<lparr> qr_regime = r, qr_met = met, qr_revealedBps = None, qr_forBps = None, qr_quorumBps = None \<rparr>"

definition signers_readout :: "quorum_input \<Rightarrow> int \<Rightarrow> int option \<Rightarrow> quorum_readout" where
  "signers_readout i members q =
     (case (big (qi_snapshotTotal i), big (qi_forWeight i)) of
        (Some tot, Some forW) \<Rightarrow>
          if tot = 0 then readout Signers None
          else (case big (qi_delegatedForWeight i) of
              None \<Rightarrow> (readout Signers None)\<lparr>qr_forBps := Some (bdiv (forW * 10000) tot), qr_quorumBps := q\<rparr>
            | Some delegatedFor \<Rightarrow>
                let selfDirectedFor = (if forW > delegatedFor then forW - delegatedFor else 0);
                    headMajority = (case qi_revealedVoterCount i of Some n \<Rightarrow> n * 2 > members | None \<Rightarrow> False);
                    forStakeMajority = selfDirectedFor * 2 > tot;
                    met = (if forStakeMajority then Some True
                           else if \<not> headMajority then Some False
                           else map_option (\<lambda>q'. selfDirectedFor * 10000 \<ge> q' * tot) q)
                in (readout Signers met)\<lparr>qr_forBps := Some (bdiv (selfDirectedFor * 10000) tot), qr_quorumBps := q\<rparr>)
      | _ \<Rightarrow> readout Signers None)"

definition stake_readout :: "int option \<Rightarrow> int option \<Rightarrow> int option \<Rightarrow> quorum_readout" where
  "stake_readout tot revealed q = (case (tot, revealed) of
      (Some t, Some r) \<Rightarrow>
        if t = 0 then readout Stake None
        else (readout Stake (map_option (\<lambda>q'. r * 10000 \<ge> q' * t) q))
               \<lparr>qr_revealedBps := Some (bdiv (r * 10000) t), qr_quorumBps := q\<rparr>
    | _ \<Rightarrow> readout Stake None)"

definition quorumReadout :: "quorum_input \<Rightarrow> quorum_readout" where
  "quorumReadout i =
     (let tot = big (qi_snapshotTotal i); revealed = big (qi_revealedWeight i);
          forW = big (qi_forWeight i); q = num (qi_quorumBps i) in
      if qi_ptype i = ''RuleChange'' then
        (case (tot, revealed, forW) of
           (Some t, Some r, Some f) \<Rightarrow>
             if t = 0 then readout Consensus None
             else (readout Consensus (Some (r = t \<and> f \<ge> t)))
                    \<lparr>qr_revealedBps := Some (bdiv (r * 10000) t), qr_forBps := Some (bdiv (f * 10000) t)\<rparr>
         | _ \<Rightarrow> readout Consensus None)
      else case num (qi_memberCount i) of
        Some members \<Rightarrow>
          if members < SIGNER_REGIME_BELOW then signers_readout i members q
          else stake_readout tot revealed q
      | None \<Rightarrow> stake_readout tot revealed q)"

text \<open>
  \<open>proposalRight\<close>: whether the stake clears the threshold, the stake in basis points and the
  headroom.
\<close>

definition proposalRight :: "js_amount \<Rightarrow> js_amount \<Rightarrow> int option \<Rightarrow> (bool \<times> int \<times> int) option" where
  "proposalRight stake eligibleTotal thresholdBps =
     (case (big stake, big eligibleTotal, thresholdBps) of
        (Some s, Some t, Some th) \<Rightarrow>
          if t = 0 then None
          else let bps = bdiv (s * 10000) t in Some (bps \<ge> th, bps, bps - th)
      | _ \<Rightarrow> None)"

section \<open>The readout against the contract\<close>

fun status_name :: "sol_status \<Rightarrow> string" where
  "status_name SNone = ''None''"
| "status_name SActive = ''Active''"
| "status_name SPassed = ''Passed''"
| "status_name SDefeated = ''Defeated''"
| "status_name SExecuted = ''Executed''"
| "status_name SExpired = ''Expired''"

fun ptype_name :: "sol_ptype \<Rightarrow> string" where
  "ptype_name Rebalance = ''Rebalance''"
| "ptype_name RuleChange = ''RuleChange''"
| "ptype_name ChildAllocation = ''ChildAllocation''"

text \<open>A readout carries some of the proposal's fields, and the ones it carries are the chain's.\<close>

definition carries :: "web_proposal \<Rightarrow> sol_proposal \<Rightarrow> bool" where
  "carries w p \<longleftrightarrow> wp_status w = status_name (sp_status p)
     \<and> wp_commitDeadline w \<in> {None, Some (sp_commitDeadline p)}
     \<and> wp_revealDeadline w \<in> {None, Some (sp_revealDeadline p)}
     \<and> wp_executableAt w \<in> {None, Some (sp_executableAt p)}
     \<and> wp_expiresAt w \<in> {None, Some (sp_expiresAt p)}"

definition amount_of :: "js_amount \<Rightarrow> int \<Rightarrow> bool" where
  "amount_of a v \<longleftrightarrow> big a \<in> {None, Some v}"

definition carries_tally :: "quorum_input \<Rightarrow> sol_proposal \<Rightarrow> int \<Rightarrow> bool" where
  "carries_tally i p quorumBps \<longleftrightarrow> qi_ptype i = ptype_name (sp_ptype p)
     \<and> amount_of (qi_revealedWeight i) (sp_revealedWeight p) \<and> amount_of (qi_forWeight i) (sp_forWeight p)
     \<and> amount_of (qi_snapshotTotal i) (sp_snapshotTotal p)
     \<and> amount_of (qi_delegatedForWeight i) (sp_delegatedForWeight p)
     \<and> qi_memberCount i = Some (sp_memberCount p) \<and> qi_revealedVoterCount i = Some (sp_revealedVoterCount p)
     \<and> qi_quorumBps i \<in> {None, Some quorumBps}"

lemma num_Some: "num v = Some n \<longleftrightarrow> v = Some n \<and> n > 0"
  by (auto simp: num_def split: option.splits)

lemma num_None: "num v = None \<longleftrightarrow> (\<forall>n. v = Some n \<longrightarrow> n \<le> 0)"
  by (auto simp: num_def split: option.splits)

text \<open>
  The exit mode is never guessed: whenever the app says that an exit settles now or is
  queued, the contract decides the same from its own record of the proposal, whatever fields the
  data source happens to carry.
\<close>

theorem resolveExitMode_matches_contract:
  assumes "carries w p" "resolveExitMode (Proposal w) nowSec = m"
  shows "(m = ModeF \<longrightarrow> sol_pending (Some p) nowSec) \<and> (m = ModeI \<longrightarrow> \<not> sol_pending (Some p) nowSec)"
  using assms
  by (cases "sp_status p")
     (auto simp: resolveExitMode_def hasPendingExecution_def carries_def sol_pending_def num_Some Let_def
           split: option.splits if_splits bool.splits)

lemma stake_readout_met:
  assumes "qr_met (stake_readout tot revealed (num q)) = Some b" "q \<in> {None, Some quorumBps}"
    "tot \<in> {None, Some t}" "revealed \<in> {None, Some r}"
  shows "b = (r * 10000 \<ge> quorumBps * t)"
  using assms by (auto simp: stake_readout_def readout_def num_Some split: option.splits if_splits)

lemma signers_readout_met:
  assumes "qr_met (signers_readout i (sp_memberCount p) (num (qi_quorumBps i))) = Some b"
    and "carries_tally i p quorumBps" "sp_memberCount p < 5" "sp_ptype p \<noteq> RuleChange"
    and "0 \<le> sp_delegatedForWeight p" "sp_delegatedForWeight p \<le> sp_forWeight p"
  shows "b = sol_quorumOk p quorumBps"
proof -
  obtain t where tot: "big (qi_snapshotTotal i) = Some t" "t \<noteq> 0"
    using assms(1) by (auto simp: signers_readout_def readout_def split: option.splits if_splits)
  obtain f where forW: "big (qi_forWeight i) = Some f"
    using assms(1) tot by (auto simp: signers_readout_def readout_def split: option.splits if_splits)
  obtain d where del: "big (qi_delegatedForWeight i) = Some d"
    using assms(1) tot forW by (auto simp: signers_readout_def readout_def split: option.splits if_splits)
  have eqs: "t = sp_snapshotTotal p" "f = sp_forWeight p" "d = sp_delegatedForWeight p"
    "qi_revealedVoterCount i = Some (sp_revealedVoterCount p)" "qi_quorumBps i \<in> {None, Some quorumBps}"
    using assms(2) tot forW del by (auto simp: carries_tally_def amount_of_def)
  have self: "(if f > d then f - d else 0) = f - d"
    using assms(6) eqs by simp
  let ?self = "f - d"
  have met: "qr_met (signers_readout i (sp_memberCount p) (num (qi_quorumBps i))) =
     (if ?self * 2 > t then Some True
      else if \<not> sp_revealedVoterCount p * 2 > sp_memberCount p then Some False
      else map_option (\<lambda>q'. ?self * 10000 \<ge> q' * t) (num (qi_quorumBps i)))"
    by (simp only: signers_readout_def tot forW del prod.case option.case self eqs(4) Let_def)
       (simp add: readout_def tot)
  have sol: "sol_quorumOk p quorumBps \<longleftrightarrow>
     (sp_revealedVoterCount p * 2 > sp_memberCount p \<and> ?self * 10000 \<ge> quorumBps * t) \<or> ?self * 2 > t"
    using assms(3,4) eqs by (cases "sp_ptype p") (simp_all add: sol_quorumOk_def Let_def)
  show ?thesis
    using assms(1) eqs(5) unfolding met sol
    by (auto simp: num_Some split: if_splits option.splits)
qed

lemma quorumReadout_met:
  assumes "carries_tally i p quorumBps" "sp_memberCount p > 0" "qr_met (quorumReadout i) = Some b"
    and "0 \<le> sp_delegatedForWeight p" "sp_delegatedForWeight p \<le> sp_forWeight p"
  shows "b = sol_quorumOk p quorumBps"
proof -
  have tally: "big (qi_snapshotTotal i) \<in> {None, Some (sp_snapshotTotal p)}"
    "big (qi_revealedWeight i) \<in> {None, Some (sp_revealedWeight p)}"
    "big (qi_forWeight i) \<in> {None, Some (sp_forWeight p)}"
    "num (qi_memberCount i) = Some (sp_memberCount p)" "qi_quorumBps i \<in> {None, Some quorumBps}"
    "qi_ptype i = ptype_name (sp_ptype p)"
    using assms(1,2) by (auto simp: carries_tally_def amount_of_def num_def)
  show ?thesis
  proof (cases "sp_ptype p = RuleChange")
    case True
    then have "qi_ptype i = ''RuleChange''" using tally(6) by simp
    then show ?thesis using assms(3) tally(1-3) True
      by (auto simp: quorumReadout_def readout_def sol_quorumOk_def Let_def split: option.splits if_splits)
  next
    case False
    then have notRC: "qi_ptype i \<noteq> ''RuleChange''" using tally(6) by (cases "sp_ptype p") simp_all
    show ?thesis
    proof (cases "sp_memberCount p < 5")
      case True
      then show ?thesis
        using signers_readout_met [OF _ assms(1) True False assms(4,5)] assms(3) notRC tally(4)
        by (simp add: quorumReadout_def SIGNER_REGIME_BELOW_def)
    next
      case five: False
      have "b = (sp_revealedWeight p * 10000 \<ge> quorumBps * sp_snapshotTotal p)"
        using stake_readout_met [OF _ tally(5,1,2)] assms(3) notRC tally(4) five
        by (simp add: quorumReadout_def SIGNER_REGIME_BELOW_def)
      then show ?thesis using False five by (cases "sp_ptype p") (simp_all add: sol_quorumOk_def)
    qed
  qed
qed

text \<open>
  What the quorum line claims is what \<open>finalize\<close> computes: for a tally with members, in each
  of the three regimes, a verdict that is not \<open>unknown\<close> is the contract's, provided the amounts
  that are exposed are the chain's.
\<close>

theorem quorumReadout_matches_finalize:
  assumes "carries_tally i p quorumBps" "sp_memberCount p > 0" "qr_met (quorumReadout i) = Some b"
    and "0 \<le> sp_delegatedForWeight p" "sp_delegatedForWeight p \<le> sp_forWeight p"
  shows "b = sol_quorumOk p quorumBps"
  by (rule quorumReadout_met [OF assms])

definition onchain_proposal :: sol_proposal where
  "onchain_proposal = \<lparr> sp_ptype = Rebalance, sp_commitDeadline = 100, sp_revealDeadline = 200,
     sp_executableAt = 0, sp_expiresAt = 0, sp_status = SActive, sp_snapshotTotal = 2000,
     sp_memberCount = 4, sp_forWeight = 900, sp_revealedWeight = 900, sp_revealedVoterCount = 3,
     sp_delegatedForWeight = 200 \<rparr>"

definition sample_readout :: web_proposal where
  "sample_readout = \<lparr> wp_status = ''Active'', wp_commitDeadline = Some 100, wp_revealDeadline = None,
     wp_executableAt = None, wp_expiresAt = None \<rparr>"

definition sample_tally :: quorum_input where
  "sample_tally = \<lparr> qi_ptype = ''Rebalance'', qi_revealedWeight = JStr ''900'', qi_forWeight = JBig 900,
     qi_snapshotTotal = JStr ''2000'', qi_memberCount = Some 4, qi_quorumBps = Some 3500,
     qi_revealedVoterCount = Some 3, qi_delegatedForWeight = JBig 200 \<rparr>"

lemma sample_carries: "carries sample_readout onchain_proposal"
  by (simp add: carries_def sample_readout_def onchain_proposal_def)

lemma sample_mode: "resolveExitMode (Proposal sample_readout) 150 = ModeF"
  by (simp add: resolveExitMode_def hasPendingExecution_def sample_readout_def num_def)

theorem resolveExitMode_matches_contract_witness: "sol_pending (Some onchain_proposal) 150"
  using resolveExitMode_matches_contract [OF sample_carries sample_mode] by simp

lemma sample_carries_tally: "carries_tally sample_tally onchain_proposal 3500"
  unfolding carries_tally_def amount_of_def by code_simp

lemma sample_met: "qr_met (quorumReadout sample_tally) = Some True"
  by code_simp

theorem quorumReadout_matches_finalize_witness: "sol_quorumOk onchain_proposal 3500"
  using quorumReadout_matches_finalize [OF sample_carries_tally _ sample_met]
  by (simp add: onchain_proposal_def)

end
