(* ===== verification/Canary_Governance.thy ===== *)
theory Canary_Governance
  imports Canary_Tracker Web_Governance
begin

text \<open>
  The canary's governance signal, \<open>packages/canary/src/signals/governance-watch.mjs\<close>: the decoding
  of the contract's tuples, the phase of a proposal, the timing it reports, and
  \<open>checkGovernanceWatch\<close>, which observes six phase keys on every sweep. The reader (an RPC client)
  is a parameter, and so are the sentences of the lines, a function of the phase key.
\<close>

section \<open>Decoding\<close>

text \<open>A component of a tuple as the RPC client returns it: a number or a string.\<close>

datatype tuple_value = TInt int | TStr string

definition PHASES :: "string list" where
  "PHASES = [''commit'', ''reveal'', ''tally'', ''timelock'', ''execution'', ''lapsed'']"

definition PROPOSAL_TYPES :: "string list" where
  "PROPOSAL_TYPES = [''Rebalance'', ''RuleChange'', ''ChildAllocation'']"

definition STATUSES :: "string list" where
  "STATUSES = [''None'', ''Active'', ''Passed'', ''Defeated'', ''Executed'', ''Expired'']"

definition at_num :: "tuple_value list \<Rightarrow> nat \<Rightarrow> int" where
  "at_num t i = (if i < length t then (case t ! i of TInt n \<Rightarrow> n | TStr s \<Rightarrow> 0) else 0)"

definition at_str :: "tuple_value list \<Rightarrow> nat \<Rightarrow> string option" where
  "at_str t i = (if i < length t then (case t ! i of TStr s \<Rightarrow> Some s | TInt n \<Rightarrow> None) else None)"

definition named :: "string list \<Rightarrow> string \<Rightarrow> int \<Rightarrow> string" where
  "named names other n =
     (if 0 \<le> n \<and> nat n < length names then names ! nat n else other @ ''#'' @ show_int n)"

record canary_proposal =
  cp_vault :: "string option"
  cp_ptype :: string
  cp_proposer :: "string option"
  cp_createdAt :: int
  cp_commitDeadline :: int
  cp_revealDeadline :: int
  cp_executableAt :: int
  cp_expiresAt :: int
  cp_status :: string
  cp_actionHash :: "string option"
  cp_snapshotTotal :: string
  cp_memberCount :: int
  cp_forWeight :: string
  cp_againstWeight :: string
  cp_revealedWeight :: string
  cp_revealedVoterCount :: int

definition decodeProposal :: "tuple_value list \<Rightarrow> canary_proposal" where
  "decodeProposal t =
     \<lparr> cp_vault = at_str t 0, cp_ptype = named PROPOSAL_TYPES ''type'' (at_num t 1),
       cp_proposer = at_str t 2, cp_createdAt = at_num t 3, cp_commitDeadline = at_num t 4,
       cp_revealDeadline = at_num t 5, cp_executableAt = at_num t 6, cp_expiresAt = at_num t 7,
       cp_status = named STATUSES ''status'' (at_num t 8), cp_actionHash = at_str t 9,
       cp_snapshotTotal = show_int (at_num t 10), cp_memberCount = at_num t 11,
       cp_forWeight = show_int (at_num t 12), cp_againstWeight = show_int (at_num t 13),
       cp_revealedWeight = show_int (at_num t 14), cp_revealedVoterCount = at_num t 15 \<rparr>"

record canary_config =
  cc_commitDuration :: int
  cc_revealDuration :: int
  cc_timelockDuration :: int
  cc_executionWindow :: int

definition decodeGovConfig :: "tuple_value list \<Rightarrow> canary_config" where
  "decodeGovConfig t = \<lparr> cc_commitDuration = at_num t 0, cc_revealDuration = at_num t 1,
     cc_timelockDuration = at_num t 2, cc_executionWindow = at_num t 3 \<rparr>"

section \<open>Phase and timing\<close>

definition phaseOf :: "canary_proposal \<Rightarrow> int \<Rightarrow> string option" where
  "phaseOf p nowSec =
     (if cp_status p = ''Active'' then
        (if nowSec < cp_commitDeadline p then Some ''commit''
         else if nowSec < cp_revealDeadline p then Some ''reveal'' else Some ''tally'')
      else if cp_status p = ''Passed'' then
        (if nowSec < cp_executableAt p then Some ''timelock''
         else if nowSec \<le> cp_expiresAt p then Some ''execution'' else Some ''lapsed'')
      else None)"

record timing =
  tm_revealDeadline :: int
  tm_earliestExecuteAt :: "int option"
  tm_executionWindowClosesAt :: "int option"

definition timingOf :: "canary_proposal \<Rightarrow> canary_config \<Rightarrow> int \<Rightarrow> timing" where
  "timingOf p cfg nowSec =
     (if cp_status p = ''Passed'' then
        \<lparr> tm_revealDeadline = cp_revealDeadline p, tm_earliestExecuteAt = Some (cp_executableAt p),
          tm_executionWindowClosesAt = Some (cp_expiresAt p) \<rparr>
      else if cp_status p = ''Active'' then
        \<lparr> tm_revealDeadline = cp_revealDeadline p,
          tm_earliestExecuteAt = Some (max nowSec (cp_revealDeadline p) + cc_timelockDuration cfg),
          tm_executionWindowClosesAt = None \<rparr>
      else \<lparr> tm_revealDeadline = cp_revealDeadline p, tm_earliestExecuteAt = None,
             tm_executionWindowClosesAt = None \<rparr>)"

section \<open>The check\<close>

record gov_log =
  gl_eventName :: string
  gl_pid :: "int option"
  gl_ptype :: "int option"
  gl_proposer :: "string option"
  gl_actionHash :: "string option"
  gl_status :: "int option"
  gl_blockNumber :: int
  gl_transactionHash :: "string option"

record event_row =
  er_event :: string
  er_pid :: "int option"
  er_ptype :: "string option"
  er_proposer :: "string option"
  er_actionHash :: "string option"
  er_status :: "string option"
  er_blockNumber :: int
  er_txHash :: "string option"

definition eventRow :: "gov_log \<Rightarrow> event_row" where
  "eventRow l =
     \<lparr> er_event = gl_eventName l, er_pid = gl_pid l,
       er_ptype = map_option (named PROPOSAL_TYPES ''type'') (gl_ptype l),
       er_proposer = gl_proposer l, er_actionHash = gl_actionHash l,
       er_status = (if gl_eventName l = ''Finalized''
                    then Some (named STATUSES ''status'' (case gl_status l of None \<Rightarrow> 0 | Some n \<Rightarrow> n)) else None),
       er_blockNumber = gl_blockNumber l, er_txHash = gl_transactionHash l \<rparr>"

text \<open>
  \<open>tryRead\<close> answers an error kind or a value; \<open>read\<close> and \<open>getLogs\<close> throw, an \<open>Inl\<close>. A \<open>governance()\<close>
  value that is no string is \<open>None\<close>. State is read at a block height, \<open>None\<close> for the head.
\<close>

record 'e gov_reader =
  rd_governance :: "string \<Rightarrow> int option \<Rightarrow> 'e + string option"
  rd_activeProposalOf :: "string \<Rightarrow> string \<Rightarrow> int option \<Rightarrow> 'e + int option"
  rd_proposals :: "string \<Rightarrow> int \<Rightarrow> int option \<Rightarrow> 'e + tuple_value list"
  rd_configOf :: "string \<Rightarrow> string \<Rightarrow> int option \<Rightarrow> 'e + tuple_value list"
  rd_vaultLogs :: "string \<Rightarrow> string \<Rightarrow> string \<Rightarrow> int \<Rightarrow> int \<Rightarrow> 'e + gov_log list"
  rd_pidLogs :: "string \<Rightarrow> string \<Rightarrow> int \<Rightarrow> int \<Rightarrow> int \<Rightarrow> 'e + gov_log list"

record gov_detail =
  gd_pid :: "int option"
  gd_phase :: "string option"
  gd_timing :: "timing option"
  gd_proposal :: "canary_proposal option"
  gd_modeFExitQueueing :: bool
  gd_events :: "event_row list"

definition no_detail :: gov_detail where
  "no_detail = \<lparr> gd_pid = None, gd_phase = None, gd_timing = None, gd_proposal = None,
     gd_modeFExitQueueing = False, gd_events = [] \<rparr>"

definition SIGNAL :: string where "SIGNAL = ''governance-watch''"
definition ZERO_ADDR :: string where "ZERO_ADDR = ''0x'' @ replicate 40 (CHR ''0'')"

definition modeFExitQueueing :: "string option \<Rightarrow> bool" where
  "modeFExitQueueing phase \<longleftrightarrow> phase \<noteq> None \<and> phase \<noteq> Some ''commit'' \<and> phase \<noteq> Some ''lapsed''"

text \<open>One observation per phase key: an alert on the current one.\<close>

definition phase_results :: "(string \<Rightarrow> string) \<Rightarrow> string \<Rightarrow> string option \<Rightarrow> gov_detail \<Rightarrow> gov_detail sig list" where
  "phase_results say vault phase detail =
     map (\<lambda>k. build_sig (if phase = Some k then StAlert else StOk) SIGNAL vault (Some k) (say k)
                (Some (say ''measured'')) (Some ''no active proposal'') detail) PHASES"

definition checkGovernanceWatch ::
  "(string \<Rightarrow> string) \<Rightarrow> 'e gov_reader \<Rightarrow> string \<Rightarrow> int \<Rightarrow> int \<Rightarrow> int \<Rightarrow> int option \<Rightarrow> 'e + gov_detail sig list" where
  "checkGovernanceWatch say reader vault fromBlock toBlock nowSec atBlock =
     (let pinned = Some (case atBlock of Some b \<Rightarrow> b | None \<Rightarrow> toBlock);
          broken = Inr [detectorBroken SIGNAL vault None (say ''blind'') no_detail] in
      case rd_governance reader vault pinned of
        Inl e \<Rightarrow> broken
      | Inr None \<Rightarrow> broken
      | Inr (Some governance) \<Rightarrow>
          if lc governance = ZERO_ADDR then broken
          else (case rd_activeProposalOf reader governance vault pinned of
            Inl e \<Rightarrow> broken
          | Inr active \<Rightarrow>
            let pid = (case active of None \<Rightarrow> 0 | Some n \<Rightarrow> n) in
            if pid = 0 then
              bindE (rd_vaultLogs reader governance ''Proposed'' vault fromBlock toBlock) (\<lambda>proposed.
              Inr (phase_results say vault None
                     (no_detail\<lparr>gd_pid := Some 0, gd_events := map eventRow proposed\<rparr>)))
            else
              bindE (rd_proposals reader governance pid pinned) (\<lambda>rawProposal.
              bindE (rd_configOf reader governance vault pinned) (\<lambda>rawCfg.
              bindE (rd_vaultLogs reader governance ''Proposed'' vault fromBlock toBlock) (\<lambda>proposed.
              bindE (rd_pidLogs reader governance ''Finalized'' pid fromBlock toBlock) (\<lambda>finalized.
              bindE (rd_pidLogs reader governance ''Executed'' pid fromBlock toBlock) (\<lambda>executed.
              bindE (rd_pidLogs reader governance ''ProposalExpired'' pid fromBlock toBlock) (\<lambda>expired.
              let p = decodeProposal rawProposal;
                  phase = phaseOf p nowSec;
                  events = sort_key er_blockNumber (map eventRow (proposed @ finalized @ executed @ expired))
              in Inr (phase_results say vault phase
                   \<lparr> gd_pid = Some pid, gd_phase = phase,
                     gd_timing = Some (timingOf p (decodeGovConfig rawCfg) nowSec), gd_proposal = Some p,
                     gd_modeFExitQueueing = modeFExitQueueing phase, gd_events = events \<rparr>)))))))))"

section \<open>The phase and the contract\<close>

fun status_code :: "sol_status \<Rightarrow> int" where
  "status_code SNone = 0" | "status_code SActive = 1" | "status_code SPassed = 2"
| "status_code SDefeated = 3" | "status_code SExecuted = 4" | "status_code SExpired = 5"

fun ptype_code :: "sol_ptype \<Rightarrow> int" where
  "ptype_code Rebalance = 0" | "ptype_code RuleChange = 1" | "ptype_code ChildAllocation = 2"

text \<open>The tuple \<open>proposals(pid)\<close> returns, in the order of the struct's fields.\<close>

definition tuple_of :: "string \<Rightarrow> string \<Rightarrow> int \<Rightarrow> string \<Rightarrow> int \<Rightarrow> sol_proposal \<Rightarrow> tuple_value list" where
  "tuple_of vault proposer createdAt actionHash against p =
     [TStr vault, TInt (ptype_code (sp_ptype p)), TStr proposer, TInt createdAt,
      TInt (sp_commitDeadline p), TInt (sp_revealDeadline p), TInt (sp_executableAt p), TInt (sp_expiresAt p),
      TInt (status_code (sp_status p)), TStr actionHash, TInt (sp_snapshotTotal p), TInt (sp_memberCount p),
      TInt (sp_forWeight p), TInt against, TInt (sp_revealedWeight p), TInt (sp_revealedVoterCount p)]"

lemma decode_tuple_of:
  "cp_status (decodeProposal (tuple_of v pr c h ag p)) = status_name (sp_status p)"
  "cp_ptype (decodeProposal (tuple_of v pr c h ag p)) = ptype_name (sp_ptype p)"
  "cp_commitDeadline (decodeProposal (tuple_of v pr c h ag p)) = sp_commitDeadline p"
  "cp_revealDeadline (decodeProposal (tuple_of v pr c h ag p)) = sp_revealDeadline p"
  "cp_executableAt (decodeProposal (tuple_of v pr c h ag p)) = sp_executableAt p"
  "cp_expiresAt (decodeProposal (tuple_of v pr c h ag p)) = sp_expiresAt p"
  by (cases "sp_status p"; cases "sp_ptype p";
      simp add: decodeProposal_def tuple_of_def at_num_def at_str_def named_def STATUSES_def PROPOSAL_TYPES_def)+

text \<open>
  The canary's phase is the contract's: decoded from the tuple the contract returns, the
  proposal is in the commit, reveal, tally, execution or lapsed phase exactly when the contract
  accepts a commit, a reveal, a finalize, an execute or a markExpired at that time, and the flag
  for queued exits is up exactly when the contract queues an exit (the execution window of a
  passed proposal never closes before it opens).
\<close>

theorem canary_phase_is_the_contracts:
  assumes "sp_status p = SPassed \<longrightarrow> sp_executableAt p \<le> sp_expiresAt p"
    and "sp_status p = SActive \<longrightarrow> sp_commitDeadline p \<le> sp_revealDeadline p"
    and "ph = phaseOf (decodeProposal (tuple_of v pr c h ag p)) now"
  shows "(ph = Some ''commit'' \<longleftrightarrow> sol_can_commit p now) \<and> (ph = Some ''reveal'' \<longleftrightarrow> sol_can_reveal p now)
    \<and> (ph = Some ''tally'' \<longleftrightarrow> sol_can_finalize p now) \<and> (ph = Some ''execution'' \<longleftrightarrow> sol_can_execute p now)
    \<and> (ph = Some ''lapsed'' \<longleftrightarrow> sol_can_expire p now)
    \<and> (modeFExitQueueing ph \<longleftrightarrow> sol_pending (Some p) now)"
  using assms(1,2) unfolding assms(3)
  by (cases "sp_status p")
     (auto simp: phaseOf_def decode_tuple_of sol_guards modeFExitQueueing_def sol_pending_def)

section \<open>A phase change reaches the operator\<close>

definition phase_id :: "string \<Rightarrow> string \<Rightarrow> string" where
  "phase_id vault k = signalId SIGNAL vault (Some k)"

lemma phase_id_inject: "k \<noteq> [] \<Longrightarrow> k' \<noteq> [] \<Longrightarrow> phase_id vault k = phase_id vault k' \<longleftrightarrow> k = k'"
  by (simp add: phase_id_def signalId_def)

definition level :: "string option \<Rightarrow> string \<Rightarrow> sig_status" where
  "level phase k = (if phase = Some k then StAlert else StOk)"

lemma observe_one_plain:
  fixes r :: "'d sig"
  assumes "r = build_sig st sg vault k m ms th d" "observe_one poll ts states r = (states', t)" "pending_ok states"
  shows "pending_ok states' \<and> status_of states' i = (if i = sg_id r then st else status_of states i)
    \<and> (case t of None \<Rightarrow> status_of states (sg_id r) = st
        | Some x \<Rightarrow> status_of states (sg_id r) \<noteq> st \<and> tn_id x = sg_id r \<and> tn_to x = st)"
proof (cases "map_of states (signalId sg vault k)")
  case None
  then show ?thesis using assms(2,3) unfolding assms(1)
    by (auto simp: observe_one_def status_of_def build_sig_def update_conv' first_sight_def
             intro!: pending_ok_update)
next
  case (Some prev)
  then have "0 \<le> tr_pendingCount prev" using assms(3) by (simp add: pending_ok_def)
  then show ?thesis using assms(2,3) Some unfolding assms(1)
    by (auto simp: observe_one_def status_of_def build_sig_def blind_def needed_def update_conv' first_sight_def Let_def
             intro!: pending_ok_update split: if_splits)
qed

lemma observe_keys:
  fixes d :: 'd
  assumes "distinct ks" "[] \<notin> set ks"
    and "observe poll ts states (map (\<lambda>k. build_sig (new k) SIGNAL vault (Some k) (m k) ms th d) ks) = (states', out)"
    and "pending_ok states"
  shows "pending_ok states' \<and> (\<forall>k \<in> set ks. status_of states' (phase_id vault k) = new k)
    \<and> (\<forall>i. i \<notin> phase_id vault ` set ks \<longrightarrow> status_of states' i = status_of states i)
    \<and> map (\<lambda>t. (tn_id t, tn_to t)) out
        = map (\<lambda>k. (phase_id vault k, new k)) (filter (\<lambda>k. status_of states (phase_id vault k) \<noteq> new k) ks)"
  using assms
proof (induction ks arbitrary: states out)
  case (Cons k ks)
  let ?r = "build_sig (new k) SIGNAL vault (Some k) (m k) ms th d"
  have idr: "sg_id ?r = phase_id vault k" by (simp add: build_sig_def phase_id_def)
  from Cons.prems(3) obtain states1 t out2 where
    one: "observe_one poll ts states ?r = (states1, t)"
    and rest: "observe poll ts states1 (map (\<lambda>k. build_sig (new k) SIGNAL vault (Some k) (m k) ms th d) ks) = (states', out2)"
    and out: "out = (case t of None \<Rightarrow> [] | Some x \<Rightarrow> [x]) @ out2"
    unfolding list.map by (rule observe_Cons_cases)
  have st1: "status_of states1 i = (if i = phase_id vault k then new k else status_of states i)" for i
    using observe_one_plain [OF refl one Cons.prems(4), of i] idr by simp
  have t: "case t of None \<Rightarrow> status_of states (phase_id vault k) = new k
        | Some x \<Rightarrow> status_of states (phase_id vault k) \<noteq> new k \<and> tn_id x = phase_id vault k \<and> tn_to x = new k"
    using observe_one_plain [OF refl one Cons.prems(4)] unfolding idr by blast
  have ok1: "pending_ok states1" using observe_one_plain [OF refl one Cons.prems(4)] by blast
  have ne: "phase_id vault k' \<noteq> phase_id vault k" if "k' \<in> set ks" for k'
    using phase_id_inject [of k' k vault] that Cons.prems(1,2) by auto
  have IH: "pending_ok states'" "\<forall>k \<in> set ks. status_of states' (phase_id vault k) = new k"
    "\<forall>i. i \<notin> phase_id vault ` set ks \<longrightarrow> status_of states' i = status_of states1 i"
    "map (\<lambda>t. (tn_id t, tn_to t)) out2
        = map (\<lambda>k. (phase_id vault k, new k)) (filter (\<lambda>k. status_of states1 (phase_id vault k) \<noteq> new k) ks)"
    using Cons.IH [OF _ _ rest ok1] Cons.prems(1,2) by simp_all
  have f: "filter (\<lambda>k. status_of states1 (phase_id vault k) \<noteq> new k) ks
         = filter (\<lambda>k. status_of states (phase_id vault k) \<noteq> new k) ks"
    by (rule filter_cong) (simp_all add: st1 ne)
  have head: "status_of states' (phase_id vault k) = new k"
    using IH(3) st1 ne by (cases "phase_id vault k \<in> phase_id vault ` set ks") (metis imageE, simp)
  have others: "\<forall>i. i \<notin> phase_id vault ` set (k # ks) \<longrightarrow> status_of states' i = status_of states i"
    using IH(3) st1 by auto
  have lines: "map (\<lambda>t. (tn_id t, tn_to t)) out
     = map (\<lambda>k. (phase_id vault k, new k)) (filter (\<lambda>k. status_of states (phase_id vault k) \<noteq> new k) (k # ks))"
    using IH(4) [unfolded f] t by (cases t) (simp_all add: out)
  from IH(1,2) head others lines show ?case by simp
qed simp

lemma observe_phase_results:
  assumes "observe poll ts states (phase_results say vault phase d) = (states', out)" "pending_ok states"
  shows "pending_ok states' \<and> (\<forall>k \<in> set PHASES. status_of states' (phase_id vault k) = level phase k)
    \<and> map (\<lambda>t. (tn_id t, tn_to t)) out
        = map (\<lambda>k. (phase_id vault k, level phase k))
            (filter (\<lambda>k. status_of states (phase_id vault k) \<noteq> level phase k) PHASES)"
  using observe_keys [of PHASES poll ts states "level phase" vault say "Some (say ''measured'')" "Some ''no active proposal''" d states' out]
    assms by (simp add: phase_results_def level_def PHASES_def)

definition sees :: "'e gov_reader \<Rightarrow> string \<Rightarrow> int \<Rightarrow> tuple_value list \<Rightarrow> bool" where
  "sees reader vault block t \<longleftrightarrow> (\<exists>g pid. rd_governance reader vault (Some block) = Inr (Some g) \<and> lc g \<noteq> ZERO_ADDR
     \<and> rd_activeProposalOf reader g vault (Some block) = Inr (Some pid) \<and> pid \<noteq> 0
     \<and> rd_proposals reader g pid (Some block) = Inr t)"

lemma check_sees:
  assumes "sees reader vault toBlock t" "checkGovernanceWatch say reader vault fromBlock toBlock nowSec None = Inr rs"
  obtains d where "rs = phase_results say vault (phaseOf (decodeProposal t) nowSec) d"
proof -
  from assms(1) obtain g pid where r: "rd_governance reader vault (Some toBlock) = Inr (Some g)" "lc g \<noteq> ZERO_ADDR"
    "rd_activeProposalOf reader g vault (Some toBlock) = Inr (Some pid)" "pid \<noteq> 0"
    "rd_proposals reader g pid (Some toBlock) = Inr t" by (auto simp: sees_def)
  show thesis
    using assms(2) that by (auto simp: checkGovernanceWatch_def r Let_def bindE_Inr)
qed

text \<open>
  No phase opens unannounced: two consecutive sweeps of a vault that see its proposal make the tracker write exactly one line per phase
  key whose turn it is, an alert for the phase that is now open and a recovery for the one that was,
  and none when the phase is the same. In particular the line for the reveal window is written
  even though the vault was already alerting for the commit phase.
\<close>

theorem phase_change_is_announced:
  assumes "sees reader1 vault to1 t1" "checkGovernanceWatch say reader1 vault from1 to1 now1 None = Inr rs1"
    and "sees reader2 vault to2 t2" "checkGovernanceWatch say reader2 vault from2 to2 now2 None = Inr rs2"
    and "observe poll1 ts1 states0 rs1 = (states1, out1)" "observe poll2 ts2 states1 rs2 = (states2, out2)"
    and "pending_ok states0" "a = phaseOf (decodeProposal t1) now1" "b = phaseOf (decodeProposal t2) now2"
  shows "map (\<lambda>t. (tn_id t, tn_to t)) out2
     = map (\<lambda>k. (phase_id vault k, level b k)) (filter (\<lambda>k. (a = Some k) \<noteq> (b = Some k)) PHASES)"
proof -
  obtain d1 where r1: "rs1 = phase_results say vault a d1"
    unfolding assms(8) by (rule check_sees [OF assms(1,2)])
  obtain d2 where r2: "rs2 = phase_results say vault b d2"
    unfolding assms(9) by (rule check_sees [OF assms(3,4)])
  have s1: "pending_ok states1" "\<forall>k \<in> set PHASES. status_of states1 (phase_id vault k) = level a k"
    using observe_phase_results [OF assms(5) [unfolded r1] assms(7)] by blast+
  have "map (\<lambda>t. (tn_id t, tn_to t)) out2 = map (\<lambda>k. (phase_id vault k, level b k))
            (filter (\<lambda>k. status_of states1 (phase_id vault k) \<noteq> level b k) PHASES)"
    using observe_phase_results [OF assms(6) [unfolded r2] s1(1)] by blast
  also have "filter (\<lambda>k. status_of states1 (phase_id vault k) \<noteq> level b k) PHASES
     = filter (\<lambda>k. (a = Some k) \<noteq> (b = Some k)) PHASES"
    by (rule filter_cong) (use s1(2) in \<open>auto simp: level_def\<close>)
  finally show ?thesis .
qed

text \<open>A reader that answers one proposal at every height, for the instances.\<close>

definition sample_reader :: "tuple_value list \<Rightarrow> unit gov_reader" where
  "sample_reader t =
     \<lparr> rd_governance = (\<lambda>_ _. Inr (Some ''0xg'')), rd_activeProposalOf = (\<lambda>_ _ _. Inr (Some 1)),
       rd_proposals = (\<lambda>_ _ _. Inr t), rd_configOf = (\<lambda>_ _ _. Inr []),
       rd_vaultLogs = (\<lambda>_ _ _ _ _. Inr []), rd_pidLogs = (\<lambda>_ _ _ _ _. Inr []) \<rparr>"

definition sample_tuple :: "tuple_value list" where
  "sample_tuple = tuple_of ''0xv'' ''0xp'' 50 ''0xh'' 0 onchain_proposal"

lemma sample_sees: "sees (sample_reader sample_tuple) ''0xv'' n sample_tuple"
  unfolding sees_def sample_reader_def by (rule exI [of _ "''0xg''"], rule exI [of _ 1]) code_simp

definition sample_sweep :: "int \<Rightarrow> gov_detail sig list" where
  "sample_sweep now = (case checkGovernanceWatch (\<lambda>k. k) (sample_reader sample_tuple) ''0xv'' 1 9 now None of
      Inr rs \<Rightarrow> rs | Inl e \<Rightarrow> [])"

lemma sample_sweep_ok:
  "checkGovernanceWatch (\<lambda>k. k) (sample_reader sample_tuple) ''0xv'' 1 9 now None = Inr (sample_sweep now)"
proof -
  have "\<not> isl (checkGovernanceWatch (\<lambda>k. k) (sample_reader sample_tuple) ''0xv'' 1 9 now None)"
    by (simp add: checkGovernanceWatch_def sample_reader_def lc_def ZERO_ADDR_def Let_def)
  then show ?thesis
    by (cases "checkGovernanceWatch (\<lambda>k. k) (sample_reader sample_tuple) ''0xv'' 1 9 now None")
       (simp_all add: sample_sweep_def)
qed

theorem canary_phase_is_the_contracts_witness:
  "modeFExitQueueing (phaseOf (decodeProposal sample_tuple) 150) \<and> sol_can_reveal onchain_proposal 150"
proof -
  have "phaseOf (decodeProposal sample_tuple) 150 = Some ''reveal''" by code_simp
  then show ?thesis
    using canary_phase_is_the_contracts [of onchain_proposal "Some ''reveal''" "''0xv''" "''0xp''" 50 "''0xh''" 0 150]
    by (simp add: sample_tuple_def modeFExitQueueing_def) (simp add: onchain_proposal_def)
qed

theorem phase_change_is_announced_witness:
  "map (\<lambda>t. (tn_id t, tn_to t))
     (snd (observe 2 ''u'' (fst (observe 1 ''t'' [] (sample_sweep 60))) (sample_sweep 150)))
   = [(phase_id ''0xv'' ''commit'', StOk), (phase_id ''0xv'' ''reveal'', StAlert)]"
proof -
  have ph: "phaseOf (decodeProposal sample_tuple) 60 = Some ''commit''"
    "phaseOf (decodeProposal sample_tuple) 150 = Some ''reveal''" by code_simp+
  have "pending_ok []" by (simp add: pending_ok_def)
  from phase_change_is_announced [OF sample_sees sample_sweep_ok sample_sees sample_sweep_ok
      prod.collapse [symmetric] prod.collapse [symmetric] this ph(1) [symmetric] ph(2) [symmetric]]
  show ?thesis by (simp add: PHASES_def level_def)
qed

end
