(* ===== verification/Exit_Preview.thy ===== *)
theory Exit_Preview
  imports Decimal
begin

text \<open>
  What an exit pays, \<open>apps/web/src/exit-preview.mjs\<close>, and the stacked fees, \<open>fees.mjs\<close>, with the
  arithmetic of \<open>VaultCore._settleExit\<close>, \<open>_exitFeeBps\<close> and \<open>SubVaultRegistry\<close> they mirror.

  A field is what \<open>toBig\<close> of \<open>format.mjs\<close> may be handed: a BigInt, an integer Number, a string, or
  anything else, which reads as null. The decimals of an asset are a natural number or absent.
\<close>

section \<open>Reading numbers\<close>

datatype js_raw = RBig int | RNum int | RStr string | RAbsent

fun toBig :: "js_raw \<Rightarrow> int option" where
  "toBig (RBig v) = Some v"
| "toBig (RNum n) = (if \<bar>n\<bar> \<le> 9007199254740991 then Some n else None)"
| "toBig (RStr v) =
     (let s = js_trim v; body = (if take 1 s = ''-'' then drop 1 s else s)
      in if body \<noteq> [] \<and> list_all decimal_char body then bigint_of_string s else None)"
| "toBig RAbsent = None"

definition big_or_zero :: "js_raw \<Rightarrow> int" where
  "big_or_zero r = (case toBig r of None \<Rightarrow> 0 | Some v \<Rightarrow> v)"

lemma big_or_zero_simps [simp]: "big_or_zero (RBig v) = v" "big_or_zero RAbsent = 0"
  by (simp_all add: big_or_zero_def)

definition FEE_BPS :: int where "FEE_BPS = 10000"
definition USDC_SCALAR :: int where "USDC_SCALAR = 10 ^ 12"
definition FEE_WAD :: int where "FEE_WAD = 10 ^ 18"
definition SHORTFALL_DUST_WAD :: int where "SHORTFALL_DUST_WAD = 1000000000000"

section \<open>The exit fee\<close>

record fee_terms =
  ft_exitFeeMaxBps :: js_raw
  ft_exitFeeDecayPeriodSec :: js_raw
  ft_tenureSec :: js_raw

definition exitFeeBps :: "fee_terms \<Rightarrow> bool \<Rightarrow> int" where
  "exitFeeBps f isSoleHolder =
     (if isSoleHolder then 0
      else let maxBps = big_or_zero (ft_exitFeeMaxBps f) in
        if maxBps \<le> 0 then 0
        else let period = big_or_zero (ft_exitFeeDecayPeriodSec f) in
          if period \<le> 0 then 0
          else let tenure = big_or_zero (ft_tenureSec f) in
            if tenure \<ge> period then 0
            else let t = (if tenure < 0 then 0 else tenure) in bdiv (maxBps * (period - t)) period)"

definition secondsUntilFeeBps :: "fee_terms \<Rightarrow> js_raw \<Rightarrow> int option" where
  "secondsUntilFeeBps f targetBps =
     (let maxBps = big_or_zero (ft_exitFeeMaxBps f);
          period = big_or_zero (ft_exitFeeDecayPeriodSec f);
          tenure = big_or_zero (ft_tenureSec f);
          target = big_or_zero targetBps in
      if maxBps \<le> 0 \<or> period \<le> 0 then None
      else if exitFeeBps f False \<le> target then None
      else let needed = period - bdiv (target * period) maxBps;
               delta = needed - tenure
           in if delta \<le> 0 then None else Some delta)"

text \<open>\<open>VaultCore._exitFeeBps\<close>, over a member's last deposit and the block's time.\<close>

definition sol_exitFeeBps :: "int \<Rightarrow> int \<Rightarrow> int \<Rightarrow> int \<Rightarrow> int" where
  "sol_exitFeeBps maxBps period lastDeposit now =
     (if maxBps = 0 then 0
      else let tenure = now - lastDeposit in
        if tenure \<ge> period then 0 else maxBps * (period - tenure) div period)"

abbreviation terms :: "int \<Rightarrow> int \<Rightarrow> int \<Rightarrow> fee_terms" where
  "terms maxBps period tenure \<equiv>
     \<lparr> ft_exitFeeMaxBps = RBig maxBps, ft_exitFeeDecayPeriodSec = RBig period, ft_tenureSec = RBig tenure \<rparr>"

lemma exitFeeBps_terms:
  assumes "0 \<le> maxBps" "0 \<le> t"
  shows "exitFeeBps (terms maxBps period t) False =
    (if maxBps = 0 \<or> period \<le> 0 \<or> period \<le> t then 0 else maxBps * (period - t) div period)"
  using assms by (simp add: exitFeeBps_def Let_def)

lemma exitFeeBps_bounds:
  assumes "0 \<le> maxBps" "0 \<le> t"
  shows "0 \<le> exitFeeBps (terms maxBps period t) sole \<and> exitFeeBps (terms maxBps period t) sole \<le> maxBps"
proof (cases sole)
  case False
  show ?thesis
  proof (cases "maxBps = 0 \<or> period \<le> 0 \<or> period \<le> t")
    case no: False
    then have "0 \<le> maxBps * (period - t) div period" using assms by (simp add: pos_imp_zdiv_nonneg_iff)
    moreover have "maxBps * (period - t) \<le> maxBps * period" using assms by (simp add: mult_left_mono)
    then have "maxBps * (period - t) div period \<le> maxBps * period div period"
      using no by (intro zdiv_mono1) auto
    ultimately show ?thesis using no False exitFeeBps_terms [OF assms] by simp
  qed (use False exitFeeBps_terms [OF assms] assms in simp)
qed (use assms in \<open>simp add: exitFeeBps_def\<close>)

lemma exitFeeBps_antimono:
  assumes "0 \<le> maxBps" "0 \<le> t" "t \<le> t'"
  shows "exitFeeBps (terms maxBps period t') False \<le> exitFeeBps (terms maxBps period t) False"
proof (cases "maxBps = 0 \<or> period \<le> 0 \<or> period \<le> t'")
  case True
  then have "exitFeeBps (terms maxBps period t') False = 0" using exitFeeBps_terms [of maxBps t' period] assms by simp
  then show ?thesis using exitFeeBps_bounds [OF assms(1,2)] by simp
next
  case False
  have "maxBps * (period - t') div period \<le> maxBps * (period - t) div period"
    using False assms by (intro zdiv_mono1 mult_left_mono) auto
  then show ?thesis
    using False assms exitFeeBps_terms [of maxBps t' period] exitFeeBps_terms [of maxBps t period] by simp
qed

text \<open>
  The exit fee shown is the one \<open>_exitFeeBps\<close> charges, never above its ceiling, never rising
  with tenure; and the wait it advertises is honest: after that many seconds (or any longer) the
  fee is at or below the target, and no wait is advertised exactly when the fee already is.
\<close>

theorem exit_fee_and_wait_are_honest:
  assumes "0 \<le> maxBps" and "0 \<le> now - lastDeposit" and "0 < period" and "0 \<le> target"
  defines "f \<equiv> (\<lambda>wait. exitFeeBps (terms maxBps period (now - lastDeposit + wait)) False)"
  shows "f 0 = sol_exitFeeBps maxBps period lastDeposit now \<and> 0 \<le> f 0 \<and> f 0 \<le> maxBps
    \<and> (case secondsUntilFeeBps (terms maxBps period (now - lastDeposit)) (RBig target) of
         None \<Rightarrow> f 0 \<le> target
       | Some n \<Rightarrow> f 0 > target \<and> 0 < n \<and> (\<forall>w \<ge> n. f w \<le> target))"
proof -
  define t where "t = now - lastDeposit"
  have t: "0 \<le> t" using assms(2) by (simp add: t_def)
  have f: "f w = exitFeeBps (terms maxBps period (t + w)) False" for w by (simp add: f_def t_def)
  have eq: "f 0 = sol_exitFeeBps maxBps period lastDeposit now"
    using exitFeeBps_terms [OF assms(1) t, of period] assms(3)
    by (simp add: f sol_exitFeeBps_def Let_def t_def [symmetric])
  have bounds: "0 \<le> f 0 \<and> f 0 \<le> maxBps" using exitFeeBps_bounds [OF assms(1) t, of period False] by (simp add: f)
  have wait: "case secondsUntilFeeBps (terms maxBps period t) (RBig target) of
         None \<Rightarrow> f 0 \<le> target
       | Some n \<Rightarrow> f 0 > target \<and> 0 < n \<and> (\<forall>w \<ge> n. f w \<le> target)"
  proof (cases "f 0 \<le> target")
    case True
    then have "secondsUntilFeeBps (terms maxBps period t) (RBig target) = None"
      by (simp add: secondsUntilFeeBps_def Let_def f)
    then show ?thesis using True by simp
  next
    case False
    then have M: "0 < maxBps" and P: "t < period"
      using exitFeeBps_terms [OF assms(1) t, of period] assms(1,4) by (auto simp: f split: if_splits)
    have fee: "f 0 = maxBps * (period - t) div period"
      using exitFeeBps_terms [OF assms(1) t, of period] M P assms(3) by (simp add: f)
    define q where "q = target * period div maxBps"
    have q: "0 \<le> q" "q * maxBps \<le> target * period"
      using M assms(3,4) by (simp_all add: q_def pos_imp_zdiv_nonneg_iff flip: le_zdiv_iff)
    have "target + 1 \<le> maxBps * (period - t) div period" using False fee by simp
    then have "(target + 1) * period \<le> maxBps * (period - t)" using assms(3) by (simp add: le_zdiv_iff)
    then have "target * period < maxBps * (period - t)" using assms(3) by (simp add: algebra_simps)
    then have "q * maxBps < (period - t) * maxBps" using q(2) by (simp add: mult.commute)
    then have delta: "0 < period - q - t" using M by (simp add: mult_less_cancel_right)
    have s: "secondsUntilFeeBps (terms maxBps period t) (RBig target) = Some (period - q - t)"
      using False M assms(3,4) delta by (simp add: secondsUntilFeeBps_def Let_def f q_def)
    have "f w \<le> target" if w: "period - q - t \<le> w" for w
    proof -
      have "f w \<le> exitFeeBps (terms maxBps period (period - q)) False"
        unfolding f by (rule exitFeeBps_antimono) (use assms(1) w t delta in auto)
      also have "\<dots> \<le> target"
      proof (cases "q = 0")
        case True
        then show ?thesis using exitFeeBps_terms [of maxBps "period - q" period] assms(1,3,4) by simp
      next
        case False
        have "maxBps * q div period \<le> target * period div period"
          using q(2) assms(3) by (intro zdiv_mono1) (simp_all add: mult.commute)
        then show ?thesis
          using exitFeeBps_terms [of maxBps "period - q" period] M t delta assms(3,4) by auto
      qed
      finally show ?thesis .
    qed
    then show ?thesis using s False delta by simp
  qed
  show ?thesis using eq bounds wait by (simp add: t_def)
qed

lemma exit_fee_and_wait_are_honest_witness:
  "exitFeeBps (terms 200 1000 500) False = 100 \<and> exitFeeBps (terms 200 1000 750) False \<le> 50"
proof -
  have "secondsUntilFeeBps (terms 200 1000 500) (RBig 50) = Some 250" by code_simp
  then show ?thesis
    using exit_fee_and_wait_are_honest [of 200 1500 1000 1000 50] by (force simp: sol_exitFeeBps_def)
qed

section \<open>The preview\<close>

record basket_asset =
  bk_symbol :: string
  bk_balance :: js_raw
  bk_decimals :: "nat option"
  bk_priceWad :: js_raw

record exit_input =
  xi_burnShares :: js_raw
  xi_memberShares :: js_raw
  xi_totalShares :: js_raw
  xi_idleUsdc :: js_raw
  xi_basket :: "basket_asset list"
  xi_childValueWad :: js_raw
  xi_costBasisUsdc :: js_raw
  xi_terms :: fee_terms

record slice =
  sl_symbol :: string
  sl_amount :: int
  sl_amountMin :: "int option"
  sl_decimals :: "nat option"
  sl_valueWad :: "int option"

record perf_fee =
  pf_gainUsdc :: int
  pf_maxUsdc :: int
  pf_maxFracWad :: int

record exit_preview =
  xp_feeBps :: int
  xp_keepBps :: int
  xp_isSoleHolder :: bool
  xp_isFullExit :: bool
  xp_usdcPay :: int
  xp_usdcPayMin :: "int option"
  xp_slices :: "slice list"
  xp_payoutValueWad :: "int option"
  xp_payoutValueMinWad :: "int option"
  xp_perfFee :: "perf_fee option"
  xp_feeValueWad :: "int option"
  xp_valueComplete :: bool
  xp_coversFromChildren :: bool

datatype exit_error = MissingAccounting | ZeroShares | NotHeld | NoSharesOutstanding

text \<open>\<open>x * burn / ts * keepBps / BPS\<close>, divided twice, and an asset's slice with its value.\<close>

definition pro_rata :: "int \<Rightarrow> int \<Rightarrow> int \<Rightarrow> int \<Rightarrow> int" where
  "pro_rata x burn ts keepBps = bdiv (bdiv (x * burn) ts * keepBps) FEE_BPS"

definition asset_value :: "basket_asset \<Rightarrow> int \<Rightarrow> int option" where
  "asset_value a amount = (case (toBig (bk_priceWad a), bk_decimals a) of
      (Some price, Some d) \<Rightarrow> Some (bdiv (amount * price) (10 ^ d))
    | _ \<Rightarrow> None)"

text \<open>The cash leg, capped at the idle cash.\<close>

definition cash_pay :: "int \<Rightarrow> int \<Rightarrow> int" where
  "cash_pay idle cashTargetWad =
     (let u = bdiv cashTargetWad USDC_SCALAR in if u > idle then idle else u)"

text \<open>The loop over the basket: the slices, the value so far, and whether every slice is priced.\<close>

fun slice_legs :: "int \<Rightarrow> int \<Rightarrow> int \<Rightarrow> basket_asset list \<Rightarrow> int \<Rightarrow> bool \<Rightarrow> slice list \<times> int \<times> bool" where
  "slice_legs burn ts keepBps [] payout complete = ([], payout, complete)"
| "slice_legs burn ts keepBps (a # as) payout complete = (case toBig (bk_balance a) of
      None \<Rightarrow> slice_legs burn ts keepBps as payout False
    | Some bal \<Rightarrow>
        (let amount = pro_rata bal burn ts keepBps;
             valueWad = asset_value a amount;
             s = \<lparr> sl_symbol = bk_symbol a, sl_amount = amount, sl_amountMin = None,
                   sl_decimals = bk_decimals a, sl_valueWad = valueWad \<rparr>;
             (ss, tot, c) = (case valueWad of
                 Some v \<Rightarrow> slice_legs burn ts keepBps as (payout + v) complete
               | None \<Rightarrow> slice_legs burn ts keepBps as payout (complete \<and> \<not> amount > 0))
         in (s # ss, tot, c)))"

text \<open>What is left of a leg when a fraction of it, in WAD, is withheld.\<close>

definition after_fee :: "int \<Rightarrow> int \<Rightarrow> int" where
  "after_fee leg fracWad = leg - bdiv (leg * fracWad) FEE_WAD"

definition perf_ceiling :: "int \<Rightarrow> int \<Rightarrow> int \<Rightarrow> int \<Rightarrow> perf_fee" where
  "perf_ceiling basis burn mine payoutValueWad =
     (let basisRemoved = bdiv (basis * burn) mine;
          payoutValueUsdc = bdiv payoutValueWad USDC_SCALAR;
          gain = (if payoutValueUsdc > basisRemoved then payoutValueUsdc - basisRemoved else 0);
          maxUsdc = bdiv gain 10
      in \<lparr> pf_gainUsdc = gain, pf_maxUsdc = maxUsdc,
           pf_maxFracWad = bdiv (maxUsdc * USDC_SCALAR * FEE_WAD) payoutValueWad \<rparr>)"

definition perf_range :: "int option \<Rightarrow> int \<Rightarrow> int \<Rightarrow> int \<Rightarrow> bool \<Rightarrow> perf_fee option" where
  "perf_range basis burn mine payoutValueWad known = (case basis of
      None \<Rightarrow> None
    | Some b \<Rightarrow> if known \<and> payoutValueWad > 0 then Some (perf_ceiling b burn mine payoutValueWad) else None)"

fun with_minimum :: "int \<Rightarrow> slice list \<Rightarrow> int \<Rightarrow> slice list \<times> int" where
  "with_minimum fracWad [] tot = ([], tot)"
| "with_minimum fracWad (s # ss) tot =
     (let m = after_fee (sl_amount s) fracWad;
          tot' = (case sl_valueWad s of
              Some v \<Rightarrow> if sl_amount s > 0 then tot + bdiv (v * m) (sl_amount s) else tot
            | None \<Rightarrow> tot);
          (ss', t) = with_minimum fracWad ss tot'
      in (s\<lparr>sl_amountMin := Some m\<rparr> # ss', t))"

fun gross_legs :: "int \<Rightarrow> int \<Rightarrow> basket_asset list \<Rightarrow> int" where
  "gross_legs burn ts [] = 0"
| "gross_legs burn ts (a # as) = (case toBig (bk_balance a) of
      None \<Rightarrow> 0
    | Some bal \<Rightarrow> (case asset_value a (bdiv (bal * burn) ts) of None \<Rightarrow> 0 | Some v \<Rightarrow> v)) + gross_legs burn ts as"

definition previewExit :: "exit_input \<Rightarrow> exit_error + exit_preview" where
  "previewExit p = (case (toBig (xi_burnShares p), toBig (xi_memberShares p), toBig (xi_totalShares p), toBig (xi_idleUsdc p)) of
      (Some burn, Some mine, Some ts, Some idle) \<Rightarrow>
        if burn \<le> 0 then Inl ZeroShares
        else if burn > mine then Inl NotHeld
        else if ts \<le> 0 then Inl NoSharesOutstanding
        else
          (let isSoleHolder = (mine = ts);
               feeBps = exitFeeBps (xi_terms p) isSoleHolder;
               keepBps = FEE_BPS - feeBps;
               childValWad = big_or_zero (xi_childValueWad p);
               cashTargetWad = pro_rata (idle * USDC_SCALAR + childValWad) burn ts keepBps;
               usdcPay = cash_pay idle cashTargetWad;
               shortfallWad = cashTargetWad - usdcPay * USDC_SCALAR;
               (slices, payoutValueWad, valueComplete) =
                 slice_legs burn ts keepBps (xi_basket p) (usdcPay * USDC_SCALAR) True;
               coversFromChildren = (shortfallWad > SHORTFALL_DUST_WAD);
               perfFee = perf_range (toBig (xi_costBasisUsdc p)) burn mine payoutValueWad
                   (valueComplete \<and> \<not> coversFromChildren);
               usdcPayMin = map_option (\<lambda>pf. after_fee usdcPay (pf_maxFracWad pf)) perfFee;
               minimum = map_option (\<lambda>pf. with_minimum (pf_maxFracWad pf) slices
                   (after_fee usdcPay (pf_maxFracWad pf) * USDC_SCALAR)) perfFee;
               feeValueWad = (if valueComplete \<and> keepBps > 0 \<and> \<not> coversFromChildren
                   then (let grossWad = bdiv ((idle * USDC_SCALAR + childValWad) * burn) ts + gross_legs burn ts (xi_basket p)
                         in Some (if grossWad > payoutValueWad then grossWad - payoutValueWad else 0))
                   else None)
           in Inr \<lparr> xp_feeBps = feeBps, xp_keepBps = keepBps, xp_isSoleHolder = isSoleHolder,
                xp_isFullExit = (burn = mine), xp_usdcPay = usdcPay, xp_usdcPayMin = usdcPayMin,
                xp_slices = (case minimum of None \<Rightarrow> slices | Some m \<Rightarrow> fst m),
                xp_payoutValueWad = (if valueComplete then Some payoutValueWad else None),
                xp_payoutValueMinWad = map_option snd minimum, xp_perfFee = perfFee,
                xp_feeValueWad = feeValueWad, xp_valueComplete = valueComplete,
                xp_coversFromChildren = coversFromChildren \<rparr>)
    | _ \<Rightarrow> Inl MissingAccounting)"

section \<open>The contract's arithmetic\<close>

definition sol_cashTarget :: "int \<Rightarrow> int \<Rightarrow> int \<Rightarrow> int \<Rightarrow> int \<Rightarrow> int" where
  "sol_cashTarget idle child burn keepBps ts = (idle * USDC_SCALAR + child) * (burn * keepBps) div (ts * FEE_BPS)"

definition sol_usdcPay :: "int \<Rightarrow> int \<Rightarrow> int \<Rightarrow> int \<Rightarrow> int \<Rightarrow> int" where
  "sol_usdcPay idle child burn keepBps ts = min (sol_cashTarget idle child burn keepBps ts div USDC_SCALAR) idle"

definition sol_slice :: "int \<Rightarrow> int \<Rightarrow> int \<Rightarrow> int \<Rightarrow> int" where
  "sol_slice bal burn keepBps ts = bal * (burn * keepBps) div (ts * FEE_BPS)"

definition sol_feeFracWad :: "int \<Rightarrow> int \<Rightarrow> int" where
  "sol_feeFracWad perfFee payoutValueWad =
     (if payoutValueWad = 0 then 0 else perfFee * USDC_SCALAR * FEE_WAD div payoutValueWad)"

text \<open>Dividing twice loses at most one unit against dividing once.\<close>

lemma twice_once:
  fixes n t k b :: int
  assumes "0 < t" "0 < b" "0 \<le> n" "0 \<le> k" "k \<le> b"
  shows "n div t * k div b \<le> n * k div (t * b) \<and> n * k div (t * b) \<le> n div t * k div b + 1"
proof -
  define q r where "q = n div t" and "r = n mod t"
  have n: "n = q * t + r" and r: "0 \<le> r" "r < t" using assms(1) by (simp_all add: q_def r_def)
  have tb: "0 < t * b" using assms by simp
  define y where "y = q * k div b"
  have "q * k = y * b + q * k mod b" "0 \<le> q * k mod b" "q * k mod b < b" using assms(2) by (simp_all add: y_def)
  then have y: "y * b \<le> q * k" "q * k \<le> (y + 1) * b" by (simp_all add: distrib_right)
  have rk: "r * k < t * b"
  proof (cases "k = 0")
    case False
    then have "r * k < t * k" using r assms(4) by simp
    also have "\<dots> \<le> t * b" using assms by simp
    finally show ?thesis .
  qed (use tb in simp)
  have nk: "n * k = q * k * t + r * k" by (simp add: n algebra_simps)
  have "y * (t * b) \<le> q * k * t" using mult_right_mono [OF y(1), of t] assms(1) by (simp add: algebra_simps)
  also have "\<dots> \<le> n * k" using nk r assms(4) by simp
  finally have lo: "y \<le> n * k div (t * b)" using tb by (simp add: le_zdiv_iff)
  have "q * k * t \<le> (y + 1) * b * t" using y(2) assms(1) by (simp add: mult_right_mono)
  then have "n * k < (y + 1) * (t * b) + t * b" using nk rk by (simp add: algebra_simps)
  then have "n * k < (y + 2) * (t * b)" by (simp add: algebra_simps)
  then have "n * k div (t * b) < y + 2" using le_zdiv_iff [OF tb, of "y + 2" "n * k"] by linarith
  then show ?thesis using lo by (simp add: y_def q_def)
qed

lemma pro_rata_near:
  assumes "0 < ts" "0 \<le> x" "0 \<le> burn" "0 \<le> keepBps" "keepBps \<le> FEE_BPS"
  shows "0 \<le> pro_rata x burn ts keepBps \<and> pro_rata x burn ts keepBps \<le> x * (burn * keepBps) div (ts * FEE_BPS)
    \<and> x * (burn * keepBps) div (ts * FEE_BPS) \<le> pro_rata x burn ts keepBps + 1"
proof -
  have B: "0 < FEE_BPS" by (simp add: FEE_BPS_def)
  have q: "0 \<le> x * burn div ts" using assms by (simp add: pos_imp_zdiv_nonneg_iff)
  then have "pro_rata x burn ts keepBps = x * burn div ts * keepBps div FEE_BPS"
    using assms B by (simp add: pro_rata_def)
  moreover have "0 \<le> x * burn div ts * keepBps div FEE_BPS" using q assms(4) B by (simp add: pos_imp_zdiv_nonneg_iff)
  ultimately show ?thesis
    using twice_once [OF assms(1) B _ assms(4,5), of "x * burn"] assms by (simp add: mult.assoc)
qed

fun balances :: "basket_asset list \<Rightarrow> int list" where
  "balances [] = []"
| "balances (a # as) = (case toBig (bk_balance a) of None \<Rightarrow> balances as | Some bal \<Rightarrow> bal # balances as)"

lemma slice_legs_amounts:
  "slice_legs burn ts keepBps as payout complete = (ss, tot, c) \<Longrightarrow>
     map sl_amount ss = map (\<lambda>bal. pro_rata bal burn ts keepBps) (balances as)"
  by (induction as arbitrary: payout complete ss tot c)
     (auto simp: Let_def split: option.splits prod.splits)

lemma with_minimum_slices:
  "with_minimum fracWad ss tot = (ss', t) \<Longrightarrow>
     ss' = map (\<lambda>s. s\<lparr>sl_amountMin := Some (after_fee (sl_amount s) fracWad)\<rparr>) ss"
  by (induction ss arbitrary: tot ss' t) (auto simp: Let_def split: prod.splits)

lemma previewExit_ok:
  assumes "previewExit p = Inr v"
  obtains burn mine ts idle ss payout complete where
    "toBig (xi_burnShares p) = Some burn" "toBig (xi_memberShares p) = Some mine"
    "toBig (xi_totalShares p) = Some ts" "toBig (xi_idleUsdc p) = Some idle"
    "0 < burn" "burn \<le> mine" "0 < ts"
    "xp_feeBps v = exitFeeBps (xi_terms p) (mine = ts)" "xp_keepBps v = FEE_BPS - xp_feeBps v"
    "xp_usdcPay v = cash_pay idle (pro_rata (idle * USDC_SCALAR + big_or_zero (xi_childValueWad p)) burn ts (xp_keepBps v))"
    "slice_legs burn ts (xp_keepBps v) (xi_basket p) (xp_usdcPay v * USDC_SCALAR) True = (ss, payout, complete)"
    "xp_perfFee v = None \<longrightarrow> xp_slices v = ss"
    "\<And>pf. xp_perfFee v = Some pf \<Longrightarrow> 0 < payout \<and> xp_payoutValueWad v = Some payout
       \<and> (\<exists>basis. toBig (xi_costBasisUsdc p) = Some basis \<and> pf = perf_ceiling basis burn mine payout)
       \<and> xp_usdcPayMin v = Some (after_fee (xp_usdcPay v) (pf_maxFracWad pf))
       \<and> xp_slices v = map (\<lambda>s. s\<lparr>sl_amountMin := Some (after_fee (sl_amount s) (pf_maxFracWad pf))\<rparr>) ss"
proof -
  obtain burn mine ts idle where r: "toBig (xi_burnShares p) = Some burn" "toBig (xi_memberShares p) = Some mine"
    "toBig (xi_totalShares p) = Some ts" "toBig (xi_idleUsdc p) = Some idle"
    using assms by (auto simp: previewExit_def split: option.splits)
  have g: "0 < burn" "burn \<le> mine" "0 < ts"
    using assms r by (auto simp: previewExit_def split: if_splits)
  define keep where "keep = FEE_BPS - exitFeeBps (xi_terms p) (mine = ts)"
  define target where "target = pro_rata (idle * USDC_SCALAR + big_or_zero (xi_childValueWad p)) burn ts keep"
  define pay where "pay = cash_pay idle target"
  obtain ss payout complete where sl: "slice_legs burn ts keep (xi_basket p) (pay * USDC_SCALAR) True = (ss, payout, complete)"
    by (metis prod_cases3)
  define pf where "pf = perf_range (toBig (xi_costBasisUsdc p)) burn mine payout
    (complete \<and> \<not> target - pay * USDC_SCALAR > SHORTFALL_DUST_WAD)"
  have v: "xp_feeBps v = exitFeeBps (xi_terms p) (mine = ts)" "xp_keepBps v = keep" "xp_usdcPay v = pay"
    "xp_perfFee v = pf" "xp_usdcPayMin v = map_option (\<lambda>f. after_fee pay (pf_maxFracWad f)) pf"
    "xp_payoutValueWad v = (if complete then Some payout else None)"
    "xp_slices v = (case pf of None \<Rightarrow> ss | Some f \<Rightarrow>
        fst (with_minimum (pf_maxFracWad f) ss (after_fee pay (pf_maxFracWad f) * USDC_SCALAR)))"
    using assms [unfolded previewExit_def Let_def] r g
    by (auto simp: sl pf_def [symmetric] pay_def [symmetric] target_def [symmetric] keep_def [symmetric] split: option.split)
  have pf: "complete \<and> payout > 0 \<and> (\<exists>basis. toBig (xi_costBasisUsdc p) = Some basis \<and> f = perf_ceiling basis burn mine payout)"
    if "pf = Some f" for f
    using that by (auto simp: pf_def perf_range_def split: option.splits if_splits)
  show thesis
  proof (rule that [OF r g v(1)])
    show "xp_keepBps v = FEE_BPS - xp_feeBps v" using v by (simp add: keep_def)
    show "xp_usdcPay v = cash_pay idle (pro_rata (idle * USDC_SCALAR + big_or_zero (xi_childValueWad p)) burn ts (xp_keepBps v))"
      using v by (simp add: pay_def target_def)
    show "slice_legs burn ts (xp_keepBps v) (xi_basket p) (xp_usdcPay v * USDC_SCALAR) True = (ss, payout, complete)"
      using sl v by simp
    show "xp_perfFee v = None \<longrightarrow> xp_slices v = ss" using v by simp
    show "0 < payout \<and> xp_payoutValueWad v = Some payout
       \<and> (\<exists>basis. toBig (xi_costBasisUsdc p) = Some basis \<and> f = perf_ceiling basis burn mine payout)
       \<and> xp_usdcPayMin v = Some (after_fee (xp_usdcPay v) (pf_maxFracWad f))
       \<and> xp_slices v = map (\<lambda>s. s\<lparr>sl_amountMin := Some (after_fee (sl_amount s) (pf_maxFracWad f))\<rparr>) ss"
      if f: "xp_perfFee v = Some f" for f
      using pf [of f] f v with_minimum_slices [OF prod.collapse [symmetric], of "pf_maxFracWad f" ss "after_fee pay (pf_maxFracWad f) * USDC_SCALAR"]
      by simp
  qed
qed

lemma div_near:
  fixes a b c :: int
  assumes "0 < c" "a \<le> b" "b \<le> a + 1"
  shows "a div c \<le> b div c \<and> b div c \<le> a div c + 1"
proof -
  have "b div c \<le> (a + 1 * c) div c" using assms by (intro zdiv_mono1) auto
  then show ?thesis using assms div_add_self2 [of c a] by (simp add: zdiv_mono1)
qed

lemma cash_pay_near:
  assumes "0 < ts" "0 \<le> idle" "0 \<le> child" "0 \<le> burn" "0 \<le> keepBps" "keepBps \<le> FEE_BPS"
  defines "pay \<equiv> cash_pay idle (pro_rata (idle * USDC_SCALAR + child) burn ts keepBps)"
  shows "0 \<le> pay \<and> pay \<le> sol_usdcPay idle child burn keepBps ts \<and> sol_usdcPay idle child burn keepBps ts \<le> pay + 1"
proof -
  let ?t = "pro_rata (idle * USDC_SCALAR + child) burn ts keepBps"
  let ?s = "sol_cashTarget idle child burn keepBps ts"
  have S: "0 < USDC_SCALAR" by (simp add: USDC_SCALAR_def)
  have near: "0 \<le> ?t" "?t \<le> ?s" "?s \<le> ?t + 1"
    using pro_rata_near [OF assms(1) _ assms(4-6), of "idle * USDC_SCALAR + child"] assms(2,3) S
    by (simp_all add: sol_cashTarget_def)
  have pay: "pay = min (?t div USDC_SCALAR) idle" using near(1) S by (simp add: pay_def cash_pay_def Let_def)
  show ?thesis
    using div_near [OF S near(2,3)] near(1) S assms(2)
    by (auto simp: pay sol_usdcPay_def pos_imp_zdiv_nonneg_iff min_def)
qed

lemma list_all2_amounts:
  "map sl_amount ss = map f bs \<Longrightarrow> \<forall>b \<in> set bs. P (f b) b \<Longrightarrow> list_all2 (\<lambda>s b. P (sl_amount s) b) ss bs"
  by (induction ss arbitrary: bs) (auto simp: list_all2_Cons1 Cons_eq_map_conv)


lemma after_fee_range:
  assumes "0 \<le> leg" "0 \<le> f" "f \<le> m" "m \<le> FEE_WAD"
  shows "0 \<le> after_fee leg m \<and> after_fee leg m \<le> leg - leg * f div FEE_WAD \<and> leg - leg * f div FEE_WAD \<le> leg"
proof -
  have W: "0 < FEE_WAD" by (simp add: FEE_WAD_def)
  have "leg * m div FEE_WAD \<le> leg * FEE_WAD div FEE_WAD"
    using assms W by (intro zdiv_mono1 mult_left_mono) auto
  moreover have "leg * f div FEE_WAD \<le> leg * m div FEE_WAD"
    using assms W by (intro zdiv_mono1 mult_left_mono) auto
  moreover have "0 \<le> leg * f div FEE_WAD" using assms W by (simp add: pos_imp_zdiv_nonneg_iff)
  ultimately show ?thesis using assms W by (simp add: after_fee_def)
qed

lemma perf_ceiling_frac:
  assumes "0 \<le> basis" "0 < burn" "0 < mine" "0 < payout" and "0 \<le> fee" "fee \<le> pf_gainUsdc (perf_ceiling basis burn mine payout) div 10"
  shows "0 \<le> sol_feeFracWad fee payout \<and> sol_feeFracWad fee payout \<le> pf_maxFracWad (perf_ceiling basis burn mine payout)
    \<and> pf_maxFracWad (perf_ceiling basis burn mine payout) \<le> FEE_WAD"
proof -
  define pf where "pf = perf_ceiling basis burn mine payout"
  have S: "0 < USDC_SCALAR" and W: "0 < FEE_WAD" by (simp_all add: USDC_SCALAR_def FEE_WAD_def)
  have removed: "0 \<le> basis * burn div mine" using assms by (simp add: pos_imp_zdiv_nonneg_iff)
  have gain: "0 \<le> pf_gainUsdc pf" "pf_gainUsdc pf \<le> payout div USDC_SCALAR"
    using assms S removed by (auto simp: pf_def perf_ceiling_def Let_def pos_imp_zdiv_nonneg_iff)
  have pm: "pf_maxUsdc pf = pf_gainUsdc pf div 10" "pf_maxFracWad pf = bdiv (pf_maxUsdc pf * USDC_SCALAR * FEE_WAD) payout"
    using gain(1) by (simp_all add: pf_def perf_ceiling_def Let_def)
  have nn: "0 \<le> pf_maxUsdc pf" using gain(1) pm(1) by simp
  have frac: "pf_maxFracWad pf = pf_maxUsdc pf * USDC_SCALAR * FEE_WAD div payout"
    using pm(2) nn S W assms(4) by simp
  have "pf_maxUsdc pf * USDC_SCALAR \<le> payout div USDC_SCALAR * USDC_SCALAR"
    using gain pm(1) S by (intro mult_right_mono) auto
  also have "\<dots> \<le> payout" using le_zdiv_iff [OF S, of "payout div USDC_SCALAR" payout] by simp
  finally have "pf_maxUsdc pf * USDC_SCALAR * FEE_WAD \<le> FEE_WAD * payout"
    using W by (simp add: mult.commute [of FEE_WAD])
  then have top: "pf_maxFracWad pf \<le> FEE_WAD"
    unfolding frac using zdiv_mono1 [of _ "FEE_WAD * payout" payout] assms(4) by fastforce
  have "fee * USDC_SCALAR * FEE_WAD \<le> pf_maxUsdc pf * USDC_SCALAR * FEE_WAD"
    using assms(6) pm(1) S W by (simp add: pf_def mult_right_mono)
  then have "sol_feeFracWad fee payout \<le> pf_maxFracWad pf"
    unfolding frac using assms(4) by (simp add: sol_feeFracWad_def zdiv_mono1)
  moreover have "0 \<le> sol_feeFracWad fee payout"
    using assms(4,5) S W by (simp add: sol_feeFracWad_def pos_imp_zdiv_nonneg_iff)
  ultimately show ?thesis using top by (simp add: pf_def)
qed

text \<open>
  The performance fee shown as a range is a range: whatever fee the contract's clamp of a tenth of
  the gain lets through, withheld the contract's way from the previewed legs, each leg lands
  between its shown minimum and its shown amount, and no minimum is negative.
\<close>

theorem exit_range_holds_every_clamped_fee:
  assumes "previewExit p = Inr v" "xp_perfFee v = Some pf" "xp_payoutValueWad v = Some payout"
    and "0 \<le> fee" "fee \<le> pf_gainUsdc pf div 10"
    and "\<forall>basis. toBig (xi_costBasisUsdc p) = Some basis \<longrightarrow> 0 \<le> basis"
    and "0 \<le> xp_usdcPay v" "\<forall>s \<in> set (xp_slices v). 0 \<le> sl_amount s"
  defines "paid \<equiv> (\<lambda>leg. leg - leg * sol_feeFracWad fee payout div FEE_WAD)"
  shows "(\<exists>m. xp_usdcPayMin v = Some m \<and> 0 \<le> m \<and> m \<le> paid (xp_usdcPay v) \<and> paid (xp_usdcPay v) \<le> xp_usdcPay v)
    \<and> (\<forall>s \<in> set (xp_slices v). \<exists>m. sl_amountMin s = Some m \<and> 0 \<le> m \<and> m \<le> paid (sl_amount s) \<and> paid (sl_amount s) \<le> sl_amount s)"
proof (rule conjI)
  obtain burn mine ss basis where ok: "0 < burn" "burn \<le> mine" "0 < payout" "toBig (xi_costBasisUsdc p) = Some basis"
    "pf = perf_ceiling basis burn mine payout" "xp_usdcPayMin v = Some (after_fee (xp_usdcPay v) (pf_maxFracWad pf))"
    "xp_slices v = map (\<lambda>s. s\<lparr>sl_amountMin := Some (after_fee (sl_amount s) (pf_maxFracWad pf))\<rparr>) ss"
  proof (rule previewExit_ok [OF assms(1)], goal_cases)
    case (1 burn mine ts idle ss payout')
    then have pf: "0 < payout'" "xp_payoutValueWad v = Some payout'"
      "\<exists>basis. toBig (xi_costBasisUsdc p) = Some basis \<and> pf = perf_ceiling basis burn mine payout'"
      "xp_usdcPayMin v = Some (after_fee (xp_usdcPay v) (pf_maxFracWad pf))"
      "xp_slices v = map (\<lambda>s. s\<lparr>sl_amountMin := Some (after_fee (sl_amount s) (pf_maxFracWad pf))\<rparr>) ss"
      using assms(2) by blast+
    then show ?case using 1(1) 1(6,7) assms(3) by auto
  qed
  have frac: "0 \<le> sol_feeFracWad fee payout" "sol_feeFracWad fee payout \<le> pf_maxFracWad pf" "pf_maxFracWad pf \<le> FEE_WAD"
    using perf_ceiling_frac [of basis burn mine payout fee] ok(1-5) assms(4-6) by auto
  show "\<exists>m. xp_usdcPayMin v = Some m \<and> 0 \<le> m \<and> m \<le> paid (xp_usdcPay v) \<and> paid (xp_usdcPay v) \<le> xp_usdcPay v"
    using after_fee_range [OF assms(7) frac] ok(6) by (auto simp: paid_def)
  show "\<forall>s \<in> set (xp_slices v). \<exists>m. sl_amountMin s = Some m \<and> 0 \<le> m \<and> m \<le> paid (sl_amount s) \<and> paid (sl_amount s) \<le> sl_amount s"
    using after_fee_range [OF _ frac] ok(7) assms(8) by (auto simp: paid_def)
qed

section \<open>A preview\<close>

definition sample_exit :: exit_input where
  "sample_exit = \<lparr> xi_burnShares = RBig 1, xi_memberShares = RBig 1, xi_totalShares = RBig 2, xi_idleUsdc = RBig 100000000,
     xi_basket = [\<lparr> bk_symbol = ''ETH'', bk_balance = RStr ''199'', bk_decimals = Some 0, bk_priceWad = RBig (10 ^ 18) \<rparr>],
     xi_childValueWad = RAbsent, xi_costBasisUsdc = RBig 1000000, xi_terms = terms 50 1000 0 \<rparr>"

definition sample_preview :: exit_preview where
  "sample_preview = (case previewExit sample_exit of Inr v \<Rightarrow> v | Inl _ \<Rightarrow> undefined)"

lemma sample_preview_runs: "previewExit sample_exit = Inr sample_preview"
proof -
  have "(case previewExit sample_exit of Inr _ \<Rightarrow> True | Inl _ \<Rightarrow> False)" by code_simp
  then show ?thesis by (auto simp: sample_preview_def split: sum.splits)
qed

lemma sample_balances: "balances (xi_basket sample_exit) = [199]"
  by code_simp

lemma sample_values:
  "xp_feeBps sample_preview = 50" "xp_usdcPay sample_preview = 49750000"
  "xp_perfFee sample_preview = Some (perf_ceiling 1000000 1 1 (49750000 * 10 ^ 12 + 98 * 10 ^ 18))"
  "xp_payoutValueWad sample_preview = Some (49750000 * 10 ^ 12 + 98 * 10 ^ 18)"
  "map sl_amount (xp_slices sample_preview) = [98]"
  by code_simp+


lemma exit_range_holds_every_clamped_fee_witness:
  "\<exists>m. xp_usdcPayMin sample_preview = Some m \<and> 0 \<le> m \<and> m \<le> 49750000"
proof -
  have gain: "pf_gainUsdc (perf_ceiling 1000000 1 1 (49750000 * 10 ^ 12 + 98 * 10 ^ 18)) div 10 = 14675000" by code_simp
  have amounts: "\<forall>s \<in> set (xp_slices sample_preview). 0 \<le> sl_amount s"
    using sample_values(5) by (cases "xp_slices sample_preview") auto
  have basis: "\<forall>basis. toBig (xi_costBasisUsdc sample_exit) = Some basis \<longrightarrow> 0 \<le> basis" by (simp add: sample_exit_def)
  have fee: "(0::int) \<le> 14675000"
    "14675000 \<le> pf_gainUsdc (perf_ceiling 1000000 1 1 (49750000 * 10 ^ 12 + 98 * 10 ^ 18)) div 10"
    unfolding gain by simp_all
  have pay: "0 \<le> xp_usdcPay sample_preview" by (simp add: sample_values(2))
  obtain m where "xp_usdcPayMin sample_preview = Some m" "0 \<le> m" "m \<le> xp_usdcPay sample_preview"
    using exit_range_holds_every_clamped_fee [OF sample_preview_runs sample_values(3,4) fee basis pay amounts, THEN conjunct1]
    by (elim exE conjE) (rule that, assumption+, linarith)
  then show ?thesis by (simp add: sample_values(2))
qed

text \<open>
  The rounding of the preview is not the contract's: for a vault with two shares and 199 units of
  an asset, burning one at a fee of 50 basis points shows a slice of 98, and the contract pays 99.
\<close>

theorem preview_rounds_twice:
  "(case previewExit sample_exit of
      Inr v \<Rightarrow> map sl_amount (xp_slices v) = [98] \<and> xp_keepBps v = 9950
    | Inl _ \<Rightarrow> False)
   \<and> sol_slice 199 1 9950 2 = 99"
  by code_simp

section \<open>Stacked fees\<close>

definition PERF_FEE_BPS :: int where "PERF_FEE_BPS = 1000"

fun perf_keep :: "nat \<Rightarrow> int" where
  "perf_keep 0 = 10000"
| "perf_keep (Suc n) = (perf_keep n * (10000 - PERF_FEE_BPS)) div 10000"

definition stackedPerfFeeBps :: "int \<Rightarrow> int" where
  "stackedPerfFeeBps levels = 10000 - perf_keep (nat levels)"

definition stackedExitFeeCapBps :: "int list \<Rightarrow> int" where
  "stackedExitFeeCapBps exitFeeMaxBpsByLevel = foldl (+) 0 exitFeeMaxBpsByLevel"

record effective_fees =
  ef_levels :: int
  ef_stackedPerfFeeBps :: int
  ef_stackedExitFeeCapBps :: int
  ef_perLevelPerfFeeBps :: int

definition effectiveFees :: "int \<Rightarrow> int list \<Rightarrow> effective_fees" where
  "effectiveFees depth byLevel =
     (let levels = depth + 1 in
      \<lparr> ef_levels = levels, ef_stackedPerfFeeBps = stackedPerfFeeBps levels,
        ef_stackedExitFeeCapBps = stackedExitFeeCapBps (take (nat levels) byLevel), ef_perLevelPerfFeeBps = PERF_FEE_BPS \<rparr>)"

text \<open>
  \<open>SubVaultRegistry\<close>: the loop over the depth, and the sum up the chain of parents, which ends at
  the root (the registry caps nesting, so a bound on the steps is enough).
\<close>

definition sol_stackedPerfFeeBps :: "nat \<Rightarrow> int" where
  "sol_stackedPerfFeeBps depth = 10000 - ((\<lambda>keep. keep * (10000 - PERF_FEE_BPS) div 10000) ^^ (depth + 1)) 10000"

fun sol_stackedExitFee :: "nat \<Rightarrow> (string \<Rightarrow> string option) \<Rightarrow> (string \<Rightarrow> int) \<Rightarrow> string \<Rightarrow> int" where
  "sol_stackedExitFee 0 parentOf fee v = 0"
| "sol_stackedExitFee (Suc n) parentOf fee v =
     fee v + (case parentOf v of None \<Rightarrow> 0 | Some u \<Rightarrow> sol_stackedExitFee n parentOf fee u)"

fun chain_up :: "nat \<Rightarrow> (string \<Rightarrow> string option) \<Rightarrow> string \<Rightarrow> string list" where
  "chain_up 0 parentOf v = []"
| "chain_up (Suc n) parentOf v = v # (case parentOf v of None \<Rightarrow> [] | Some u \<Rightarrow> chain_up n parentOf u)"

lemma foldl_plus: "foldl (+) a xs = a + sum_list (xs :: int list)"
  by (induction xs arbitrary: a) simp_all

lemma sol_stackedExitFee_chain: "sol_stackedExitFee n parentOf fee v = sum_list (map fee (chain_up n parentOf v))"
  by (induction n arbitrary: v) (auto split: option.split)

lemma perf_keep_funpow: "perf_keep n = ((\<lambda>keep. keep * (10000 - PERF_FEE_BPS) div 10000) ^^ n) 10000"
  by (induction n) simp_all

lemma perf_keep_step: "0 \<le> k \<Longrightarrow> 0 \<le> k * (10000 - PERF_FEE_BPS) div 10000 \<and> k * (10000 - PERF_FEE_BPS) div 10000 \<le> k"
  using zdiv_mono1 [of "k * 9000" "k * 10000" 10000] by (simp add: PERF_FEE_BPS_def pos_imp_zdiv_nonneg_iff)

lemma perf_keep_nonneg: "0 \<le> perf_keep n"
  using perf_keep_step by (induction n) simp_all

lemma perf_keep_antimono: "m \<le> n \<Longrightarrow> perf_keep n \<le> perf_keep m"
proof (induction n)
  case (Suc n)
  then show ?case using perf_keep_step [OF perf_keep_nonneg, of n] by (cases "m = Suc n") auto
qed simp

text \<open>
  The fees shown for a nested vault are the registry's, over the chain from the vault to its root,
  root first; the stacked performance fee stays within the whole and grows with the depth.
\<close>

theorem effective_fees_match_the_registry:
  fixes fee :: "string \<Rightarrow> int"
  assumes "length (chain_up n parentOf v) = Suc depth"
  defines "shown \<equiv> effectiveFees (int depth) (map fee (rev (chain_up n parentOf v)))"
  shows "ef_stackedPerfFeeBps shown = sol_stackedPerfFeeBps depth
    \<and> ef_stackedExitFeeCapBps shown = sol_stackedExitFee n parentOf fee v
    \<and> PERF_FEE_BPS \<le> ef_stackedPerfFeeBps shown \<and> ef_stackedPerfFeeBps shown \<le> 10000
    \<and> (\<forall>deeper \<ge> int depth. ef_stackedPerfFeeBps shown \<le> stackedPerfFeeBps (deeper + 1))"
proof -
  have n: "nat (int depth + 1) = Suc depth" by simp
  have perf: "ef_stackedPerfFeeBps shown = 10000 - perf_keep (Suc depth)"
    unfolding shown_def effectiveFees_def stackedPerfFeeBps_def Let_def n by simp
  have exit: "ef_stackedExitFeeCapBps shown = sum_list (map fee (chain_up n parentOf v))"
    unfolding shown_def effectiveFees_def stackedExitFeeCapBps_def Let_def n foldl_plus
    using assms(1) by (simp add: rev_map [symmetric] sum_list_rev)
  have one: "perf_keep (Suc depth) \<le> 9000" using perf_keep_antimono [of 1 "Suc depth"] by (simp add: PERF_FEE_BPS_def)
  have deeper: "perf_keep (nat (d + 1)) \<le> perf_keep (Suc depth)" if "int depth \<le> d" for d
    by (rule perf_keep_antimono) (use that in linarith)
  show ?thesis
    using one deeper perf_keep_nonneg [of "Suc depth"]
    by (simp only: perf exit sol_stackedExitFee_chain sol_stackedPerfFeeBps_def perf_keep_funpow [symmetric] stackedPerfFeeBps_def)
       (simp add: PERF_FEE_BPS_def)
qed

lemma effective_fees_match_the_registry_witness:
  "sol_stackedPerfFeeBps 1 = ef_stackedPerfFeeBps (effectiveFees 1 [100, 200]) \<and> ef_stackedExitFeeCapBps (effectiveFees 1 [100, 200]) = 300"
  using effective_fees_match_the_registry
    [of 3 "\<lambda>v. if v = ''child'' then Some ''root'' else None" "''child''" 1 "\<lambda>v. if v = ''child'' then 200 else 100"]
  by (simp add: numeral_3_eq_3)

end
