(* ===== verification/Deposit_Preview.thy ===== *)
theory Deposit_Preview
  imports Exit_Preview
begin

text \<open>
  What a deposit does, \<open>apps/web/src/deposit-preview.mjs\<close>: the capacity, the entry path, the
  indicative shares, and the blockers and consequences shown before signing. \<open>VaultCore._deposit\<close>
  and \<open>_mintShares\<close> are stated beside it as the specification. Titles and details are left out.
\<close>

record capacity_view =
  cp_capped :: bool
  cp_determinable :: bool
  cp_used :: "int option"
  cp_cap :: int
  cp_headroom :: "int option"
  cp_usedBps :: "int option"

definition capacity :: "js_raw \<Rightarrow> js_raw \<Rightarrow> js_raw \<Rightarrow> capacity_view" where
  "capacity navUsdc totalPendingUsdc capacityCapUsdc =
     (let cap = big_or_zero capacityCapUsdc in
      case (toBig navUsdc, toBig totalPendingUsdc) of
        (Some nav, Some pending) \<Rightarrow>
          (let used = nav + pending in
           if cap = 0 then \<lparr> cp_capped = False, cp_determinable = True, cp_used = Some used, cp_cap = 0,
                             cp_headroom = None, cp_usedBps = None \<rparr>
           else \<lparr> cp_capped = True, cp_determinable = True, cp_used = Some used, cp_cap = cap,
                  cp_headroom = Some (if cap > used then cap - used else 0),
                  cp_usedBps = Some (bdiv (used * 10000) cap) \<rparr>)
      | _ \<Rightarrow> \<lparr> cp_capped = cap > 0, cp_determinable = False, cp_used = None, cp_cap = cap,
               cp_headroom = None, cp_usedBps = None \<rparr>)"

datatype entry_path = Immediate | Window

definition entryPath :: "bool option \<Rightarrow> js_raw \<Rightarrow> entry_path" where
  "entryPath windowCleared sharesHeld =
     (if windowCleared = Some True \<or> big_or_zero sharesHeld > 0 then Immediate else Window)"

definition entryPathIsCertain :: "bool option \<Rightarrow> js_raw \<Rightarrow> bool" where
  "entryPathIsCertain windowCleared sharesHeld \<longleftrightarrow> windowCleared \<noteq> None \<or> big_or_zero sharesHeld > 0"

definition indicativeShares :: "js_raw \<Rightarrow> js_raw \<Rightarrow> js_raw \<Rightarrow> int option" where
  "indicativeShares amountUsdc totalShares navWad =
     (case toBig amountUsdc of
        None \<Rightarrow> None
      | Some amount \<Rightarrow>
          if amount \<le> 0 then None
          else (case toBig totalShares of
              None \<Rightarrow> None
            | Some ts \<Rightarrow>
                let amountWad = amount * USDC_SCALAR in
                if ts = 0 then Some amountWad
                else (case toBig navWad of
                    None \<Rightarrow> None
                  | Some nav \<Rightarrow> if nav \<le> 0 then None else Some (bdiv (amountWad * ts) nav))))"

datatype blocker =
    StaleOracle
  | ZeroAmount
  | BelowMinDeposit int
  | InsufficientBalance int
  | CapacityUnknown
  | CapacityExceeded "int option"
  | PendingExists

datatype consequence =
    ObservationWindow bool
  | ForwardPricedEntry entry_path
  | TenureReset int int

record deposit_input =
  di_amountUsdc :: js_raw
  di_minDepositUsdc :: js_raw
  di_navUsdc :: js_raw
  di_navWad :: js_raw
  di_totalPendingUsdc :: js_raw
  di_capacityCapUsdc :: js_raw
  di_totalShares :: js_raw
  di_walletUsdc :: js_raw
  di_frozen :: bool
  di_windowCleared :: "bool option"
  di_sharesHeld :: js_raw
  di_hasPendingDeposit :: bool
  di_tenure :: "fee_terms option"

record deposit_preview =
  dp_ok :: bool
  dp_path :: entry_path
  dp_pathIsCertain :: bool
  dp_blockers :: "blocker list"
  dp_consequences :: "consequence list"
  dp_capacity :: capacity_view
  dp_shares :: "int option"

definition amount_blockers :: "deposit_input \<Rightarrow> capacity_view \<Rightarrow> blocker list" where
  "amount_blockers p cap = (case toBig (di_amountUsdc p) of
      None \<Rightarrow> [ZeroAmount]
    | Some amount \<Rightarrow>
        if amount \<le> 0 then [ZeroAmount]
        else
          (let min = big_or_zero (di_minDepositUsdc p) in if amount < min then [BelowMinDeposit min] else [])
          @ (case toBig (di_walletUsdc p) of
               Some wallet \<Rightarrow> if amount > wallet then [InsufficientBalance wallet] else []
             | None \<Rightarrow> [])
          @ (if cp_capped cap \<and> \<not> cp_determinable cap then [CapacityUnknown]
             else if cp_capped cap \<and> (case cp_used cap of Some used \<Rightarrow> used + amount > cp_cap cap | None \<Rightarrow> False)
             then [CapacityExceeded (cp_headroom cap)] else []))"

definition tenure_reset :: "fee_terms option \<Rightarrow> consequence list" where
  "tenure_reset tenure = (case tenure of
      None \<Rightarrow> []
    | Some f \<Rightarrow>
        (let before = exitFeeBps f False; after = exitFeeBps (f\<lparr>ft_tenureSec := RBig 0\<rparr>) False
         in if after > before then [TenureReset before after] else []))"

definition previewDeposit :: "deposit_input \<Rightarrow> deposit_preview" where
  "previewDeposit p =
     (let cap = capacity (di_navUsdc p) (di_totalPendingUsdc p) (di_capacityCapUsdc p);
          path = entryPath (di_windowCleared p) (di_sharesHeld p);
          pathCertain = entryPathIsCertain (di_windowCleared p) (di_sharesHeld p);
          blockers = (if di_frozen p then [StaleOracle] else []) @ amount_blockers p cap
            @ (if path = Window \<and> di_hasPendingDeposit p then [PendingExists] else []);
          consequences = (if path = Window then [ObservationWindow pathCertain, ForwardPricedEntry Window]
            else [ForwardPricedEntry Immediate]) @ tenure_reset (di_tenure p)
      in \<lparr> dp_ok = (blockers = []), dp_path = path, dp_pathIsCertain = pathCertain, dp_blockers = blockers,
           dp_consequences = consequences, dp_capacity = cap,
           dp_shares = indicativeShares (di_amountUsdc p) (di_totalShares p) (di_navWad p) \<rparr>)"

section \<open>What the contract does\<close>

record sol_deposit_state =
  sd_minDepositUsdc :: int
  sd_capacityCapUsdc :: int
  sd_totalPendingUsdc :: int
  sd_totalShares :: int
  sd_navWad :: "int option"
  sd_windowCleared :: bool
  sd_sharesOf :: int
  sd_pendingOf :: int
  sd_transferable :: int

datatype sol_deposit_result =
    Reverts string
  | MintReverts
  | Minted int
  | Escrowed

text \<open>
  \<open>navWad()\<close> is \<open>None\<close> when the oracle is frozen; what can be pulled from the sender is given; a mint
  of no shares, or against a NAV of zero, reverts.
\<close>

definition sol_deposit :: "sol_deposit_state \<Rightarrow> int \<Rightarrow> sol_deposit_result" where
  "sol_deposit v amount =
     (if amount \<le> 0 then Reverts ''ZeroAmount''
      else if amount < sd_minDepositUsdc v then Reverts ''BelowMinDeposit''
      else (case sd_navWad v of
          None \<Rightarrow> Reverts ''StaleOracle''
        | Some nav \<Rightarrow>
            if sd_capacityCapUsdc v \<noteq> 0
               \<and> \<not> nav div USDC_SCALAR + sd_totalPendingUsdc v + amount \<le> sd_capacityCapUsdc v
            then Reverts ''CapacityExceeded''
            else if sd_transferable v < amount then Reverts ''InsufficientBalance''
            else if sd_windowCleared v \<or> sd_sharesOf v > 0 then
              (let amountWad = amount * USDC_SCALAR; ts = sd_totalShares v in
               if ts = 0 then Minted amountWad
               else if nav = 0 \<or> amountWad * ts div nav = 0 then MintReverts
               else Minted (amountWad * ts div nav))
            else if sd_pendingOf v \<noteq> 0 then Reverts ''PendingExists'' else Escrowed))"

fun blocker_code :: "blocker \<Rightarrow> string" where
  "blocker_code StaleOracle = ''StaleOracle''"
| "blocker_code ZeroAmount = ''ZeroAmount''"
| "blocker_code (BelowMinDeposit _) = ''BelowMinDeposit''"
| "blocker_code (InsufficientBalance _) = ''InsufficientBalance''"
| "blocker_code CapacityUnknown = ''CapacityUnknown''"
| "blocker_code (CapacityExceeded _) = ''CapacityExceeded''"
| "blocker_code PendingExists = ''PendingExists''"

text \<open>The preview was given the contract's state; a frozen vault has no NAV to give.\<close>

definition reads_state :: "deposit_input \<Rightarrow> sol_deposit_state \<Rightarrow> int \<Rightarrow> bool" where
  "reads_state p v amount \<longleftrightarrow>
     toBig (di_amountUsdc p) = Some amount \<and> toBig (di_minDepositUsdc p) = Some (sd_minDepositUsdc v)
     \<and> toBig (di_navUsdc p) = map_option (\<lambda>n. n div USDC_SCALAR) (sd_navWad v) \<and> toBig (di_navWad p) = sd_navWad v
     \<and> toBig (di_totalPendingUsdc p) = Some (sd_totalPendingUsdc v)
     \<and> toBig (di_capacityCapUsdc p) = Some (sd_capacityCapUsdc v)
     \<and> toBig (di_totalShares p) = Some (sd_totalShares v) \<and> toBig (di_walletUsdc p) = Some (sd_transferable v)
     \<and> di_frozen p = (sd_navWad v = None) \<and> di_windowCleared p = Some (sd_windowCleared v)
     \<and> toBig (di_sharesHeld p) = Some (sd_sharesOf v) \<and> di_hasPendingDeposit p = (sd_pendingOf v \<noteq> 0)"

lemma read_path:
  assumes "reads_state p v amount"
  shows "entryPath (di_windowCleared p) (di_sharesHeld p) = (if sd_windowCleared v \<or> sd_sharesOf v > 0 then Immediate else Window)"
  using assms by (simp add: reads_state_def entryPath_def big_or_zero_def)

lemma read_blockers:
  assumes "reads_state p v amount" "0 \<le> sd_capacityCapUsdc v"
  shows "amount_blockers p (capacity (di_navUsdc p) (di_totalPendingUsdc p) (di_capacityCapUsdc p)) =
    (if amount \<le> 0 then [ZeroAmount]
     else (if amount < sd_minDepositUsdc v then [BelowMinDeposit (sd_minDepositUsdc v)] else [])
       @ (if amount > sd_transferable v then [InsufficientBalance (sd_transferable v)] else [])
       @ (case sd_navWad v of
            None \<Rightarrow> if sd_capacityCapUsdc v > 0 then [CapacityUnknown] else []
          | Some nav \<Rightarrow> if sd_capacityCapUsdc v \<noteq> 0 \<and> nav div USDC_SCALAR + sd_totalPendingUsdc v + amount > sd_capacityCapUsdc v
              then [CapacityExceeded (cp_headroom (capacity (di_navUsdc p) (di_totalPendingUsdc p) (di_capacityCapUsdc p)))] else []))"
  using assms
  by (cases "sd_navWad v") (auto simp: reads_state_def amount_blockers_def capacity_def big_or_zero_def Let_def)


definition sample_vault_state :: sol_deposit_state where
  "sample_vault_state = \<lparr> sd_minDepositUsdc = 1000000, sd_capacityCapUsdc = 0, sd_totalPendingUsdc = 0, sd_totalShares = 4,
     sd_navWad = Some (2 * 10 ^ 18), sd_windowCleared = False, sd_sharesOf = 1, sd_pendingOf = 0, sd_transferable = 5000000 \<rparr>"

definition sample_deposit :: deposit_input where
  "sample_deposit = \<lparr> di_amountUsdc = RBig 3000000, di_minDepositUsdc = RBig 1000000, di_navUsdc = RBig 2000000,
     di_navWad = RBig (2 * 10 ^ 18), di_totalPendingUsdc = RBig 0, di_capacityCapUsdc = RBig 0, di_totalShares = RBig 4,
     di_walletUsdc = RBig 5000000, di_frozen = False, di_windowCleared = Some False, di_sharesHeld = RBig 1,
     di_hasPendingDeposit = False, di_tenure = None \<rparr>"


end
