(* ===== verification/Rebalance_Order.thy ===== *)
theory Rebalance_Order
  imports Decimal
begin

text \<open>
  The rebalance payload, \<open>packages/chain-config/src/rebalance-order.mjs\<close>: the slippage tolerance, the
  minimum output and the bytes \<open>Governance.execute\<close> decodes. BigInt values that may be null or
  missing are options; messages are constructors. The slippage check of
  \<open>VaultCore.executeRebalance\<close> and an ABI decoder that follows the offsets are the specification.
\<close>

section \<open>The tolerance\<close>

definition DERIVED_BUFFER_BPS :: int where "DERIVED_BUFFER_BPS = 25"
definition DERIVED_CAP_BPS :: int where "DERIVED_CAP_BPS = 100"

definition validateOverrideRange :: "int \<Rightarrow> int \<Rightarrow> bool" where
  "validateOverrideRange overrideBps ceilingBps = (\<not> (overrideBps < 1 \<or> overrideBps > ceilingBps))"

record derivation =
  dv_poolFeeBps :: int
  dv_measuredExecutionGapBps :: int
  dv_derivedSlipBps :: int

datatype derive_error = NoPrice | NoPoolFee | NoExpectedFill | BelowDerived derivation | AboveCap derivation

text \<open>The last two components of a result are \<open>chosenSlipBps\<close> and \<open>usedOverride\<close>.\<close>

definition deriveMaxSlippageBps ::
  "int option \<Rightarrow> int \<Rightarrow> int \<Rightarrow> int option \<Rightarrow> int option \<Rightarrow> int option \<Rightarrow> bool \<Rightarrow> int
   \<Rightarrow> derive_error + derivation \<times> int \<times> bool" where
  "deriveMaxSlippageBps poolFeeRawPpm valueInWad unitOut priceOutWad grossOut overrideBps allowBelowDerived bps =
     (case priceOutWad of
        None \<Rightarrow> Inl NoPrice
      | Some price \<Rightarrow> if price = 0 then Inl NoPrice else (case poolFeeRawPpm of
          None \<Rightarrow> Inl NoPoolFee
        | Some feePpm \<Rightarrow> (case grossOut of
            None \<Rightarrow> Inl NoExpectedFill
          | Some gross \<Rightarrow>
              (let poolFeeBps = bdiv (feePpm + 99) 100;
                   oracleFloorZeroSlip = bdiv (valueInWad * unitOut + price - 1) price;
                   gap = (if gross \<ge> oracleFloorZeroSlip then 0
                          else bdiv ((oracleFloorZeroSlip - gross) * bps + oracleFloorZeroSlip - 1) oracleFloorZeroSlip);
                   derived = poolFeeBps + gap + DERIVED_BUFFER_BPS;
                   base = \<lparr> dv_poolFeeBps = poolFeeBps, dv_measuredExecutionGapBps = gap, dv_derivedSlipBps = derived \<rparr>
               in (case overrideBps of
                   Some ov \<Rightarrow> if ov < derived \<and> \<not> allowBelowDerived then Inl (BelowDerived base)
                             else Inr (base, ov, True)
                 | None \<Rightarrow> if derived > DERIVED_CAP_BPS then Inl (AboveCap base) else Inr (base, derived, False))))))"

section \<open>Words\<close>

definition hex_digit :: "nat \<Rightarrow> char" where
  "hex_digit d = char_of (if d < 10 then 48 + d else 87 + d)"

fun show_hex :: "nat \<Rightarrow> string" where
  "show_hex n = (if n < 16 then [hex_digit n] else show_hex (n div 16) @ [hex_digit (n mod 16)])"

declare show_hex.simps [simp del]

text \<open>\<open>word\<close> of a BigInt; an address goes through \<open>BigInt\<close> first. \<open>pad32\<close> fills whole words.\<close>

definition abi_word :: "int \<Rightarrow> string" where
  "abi_word v = pad_start 64 (CHR ''0'')
     (if v < 0 then CHR ''-'' # show_hex (nat (- v)) else show_hex (nat v))"

definition pad32 :: "string \<Rightarrow> string" where
  "pad32 hex = (let rem = length hex mod 64 in if rem = 0 then hex else hex @ replicate (64 - rem) (CHR ''0''))"

definition EXACT_INPUT_SINGLE :: string where
  "EXACT_INPUT_SINGLE = ''0x04e45aaf''"

section \<open>The order\<close>

record order_input =
  oi_adapter :: string
  oi_usdc :: string
  oi_tokenOut :: string
  oi_amountIn :: int
  oi_unitOut :: int
  oi_priceOutWad :: "int option"
  oi_usdcScalar :: int
  oi_poolFeeRawPpm :: "int option"
  oi_grossOut :: "int option"
  oi_overrideBps :: "int option"
  oi_allowBelowDerived :: bool
  oi_floorBufferBps :: int
  oi_deadline :: int
  oi_BPS :: int

record rebalance_order =
  ro_chosenSlipBps :: int
  ro_bareFloor :: int
  ro_minAmountOut :: int
  ro_expectedOut :: int
  ro_headroomBps :: int
  ro_routeData :: string
  ro_payload :: string

datatype order_error =
    Underivable derive_error
  | BufferTooLarge int
  | Unaffordable int int
  | NotANumber

definition order_floor :: "int \<Rightarrow> int \<Rightarrow> int \<Rightarrow> int \<Rightarrow> int \<Rightarrow> int \<Rightarrow> int \<times> int" where
  "order_floor valueInWad unitOut price slip buffer bps =
     (let requiredValueWad = bdiv (valueInWad * (bps - slip) + bps - 1) bps;
          bareFloor = bdiv (requiredValueWad * unitOut + price - 1) price
      in (bareFloor, bdiv (bareFloor * (bps + buffer) + bps - 1) bps))"

definition route_data :: "int \<Rightarrow> int \<Rightarrow> int \<Rightarrow> int \<Rightarrow> int \<Rightarrow> int \<Rightarrow> string" where
  "route_data usdc tokenOut feePpm adapter amountIn minAmountOut =
     EXACT_INPUT_SINGLE @ concat (map abi_word [usdc, tokenOut, feePpm, adapter, amountIn, minAmountOut, 0])"

definition order_payload :: "int \<Rightarrow> int \<Rightarrow> int \<Rightarrow> int \<Rightarrow> int \<Rightarrow> int \<Rightarrow> int \<Rightarrow> string \<Rightarrow> string" where
  "order_payload adapter slip usdc tokenOut amountIn minAmountOut deadline routeData =
     (let orderBody = concat (map abi_word [usdc, tokenOut, amountIn, minAmountOut, deadline])
            @ abi_word 192 @ abi_word (bdiv (int (length routeData) - 2) 2) @ pad32 (drop 2 routeData)
      in ''0x'' @ abi_word adapter @ abi_word slip @ abi_word 96 @ abi_word 1 @ abi_word 32 @ orderBody)"

definition buildRebalanceOrder :: "order_input \<Rightarrow> order_error + rebalance_order" where
  "buildRebalanceOrder p =
     (let valueInWad = oi_amountIn p * oi_usdcScalar p; bps = oi_BPS p in
      case deriveMaxSlippageBps (oi_poolFeeRawPpm p) valueInWad (oi_unitOut p) (oi_priceOutWad p) (oi_grossOut p)
             (oi_overrideBps p) (oi_allowBelowDerived p) bps of
        Inl e \<Rightarrow> Inl (Underivable e)
      | Inr (d, chosenSlipBps, usedOverride) \<Rightarrow>
          if oi_floorBufferBps p \<ge> chosenSlipBps then Inl (BufferTooLarge chosenSlipBps)
          else (case (oi_priceOutWad p, oi_poolFeeRawPpm p, oi_grossOut p) of
            (Some price, Some feePpm, Some gross) \<Rightarrow>
              (let (bareFloor, minAmountOut) = order_floor valueInWad (oi_unitOut p) price chosenSlipBps (oi_floorBufferBps p) bps;
                   expectedOut = bdiv (gross * (1000000 - feePpm)) 1000000 in
               if expectedOut < minAmountOut then Inl (Unaffordable expectedOut minAmountOut)
               else (case (bigint_of_string (oi_usdc p), bigint_of_string (oi_tokenOut p), bigint_of_string (oi_adapter p)) of
                   (Some usdc, Some tokenOut, Some adapter) \<Rightarrow>
                     (let routeData = route_data usdc tokenOut feePpm adapter (oi_amountIn p) minAmountOut in
                      Inr \<lparr> ro_chosenSlipBps = chosenSlipBps, ro_bareFloor = bareFloor, ro_minAmountOut = minAmountOut,
                        ro_expectedOut = expectedOut,
                        ro_headroomBps = (if minAmountOut = 0 then 0 else bdiv ((expectedOut - minAmountOut) * bps) minAmountOut),
                        ro_routeData = routeData,
                        ro_payload = order_payload adapter chosenSlipBps usdc tokenOut (oi_amountIn p) minAmountOut
                          (oi_deadline p) routeData \<rparr>)
                 | _ \<Rightarrow> Inl NotANumber))
          | _ \<Rightarrow> Inl NotANumber))"

section \<open>The contract's bound\<close>

definition sol_assetValueWad :: "int \<Rightarrow> int \<Rightarrow> int \<Rightarrow> int" where
  "sol_assetValueWad amount price unit = amount * price div unit"

text \<open>The guards of \<open>executeRebalance\<close> on an order that spends USDC.\<close>

definition sol_order_ok :: "int \<Rightarrow> int \<Rightarrow> int \<Rightarrow> int \<Rightarrow> int \<Rightarrow> int \<Rightarrow> int \<Rightarrow> bool" where
  "sol_order_ok maxSlippageBps ceiling minAmountOut price unit amountIn usdcScalar \<longleftrightarrow>
     maxSlippageBps > 0 \<and> maxSlippageBps \<le> ceiling
     \<and> sol_assetValueWad minAmountOut price unit * 10000 \<ge> amountIn * usdcScalar * (10000 - maxSlippageBps)"

lemma div_ceil: "0 < b \<Longrightarrow> (a :: int) \<le> (a + b - 1) div b * b"
  using div_mult_mod_eq [of "a + b - 1" b] pos_mod_bound [of b "a + b - 1"] by linarith

lemma div_ceil_nonneg: "0 < b \<Longrightarrow> 0 \<le> (a :: int) \<Longrightarrow> 0 \<le> (a + b - 1) div b"
  by (simp add: pos_imp_zdiv_nonneg_iff)

lemma bdiv_ceil: "0 < b \<Longrightarrow> 0 \<le> a \<Longrightarrow> bdiv (a + b - 1) b = (a + b - 1) div b"
  by simp

lemma bdiv_ge_0: "0 \<le> a \<Longrightarrow> 0 \<le> b \<Longrightarrow> 0 \<le> bdiv a b"
  by (cases "b = 0") (simp_all add: pos_imp_zdiv_nonneg_iff)

lemma order_floor_bound:
  assumes "order_floor valueIn unit price slip buffer 10000 = (bareFloor, minOut)"
    and "0 \<le> valueIn" "0 < unit" "0 < price" "0 \<le> slip" "slip \<le> 10000" "0 \<le> buffer"
  shows "0 \<le> bareFloor \<and> bareFloor \<le> minOut \<and> valueIn * (10000 - slip) \<le> sol_assetValueWad minOut price unit * 10000"
proof -
  define required where "required = (valueIn * (10000 - slip) + 10000 - 1) div 10000"
  have v: "0 \<le> valueIn * (10000 - slip)" using assms by simp
  have r: "0 \<le> required" "valueIn * (10000 - slip) \<le> required * 10000"
    using div_ceil_nonneg [of 10000, OF _ v] div_ceil [of 10000 "valueIn * (10000 - slip)"] by (simp_all add: required_def)
  have ru: "0 \<le> required * unit" using r assms(3) by simp
  have bare: "bareFloor = (required * unit + price - 1) div price"
    using assms(1) bdiv_ceil [of 10000, OF _ v] bdiv_ceil [OF assms(4) ru]
    by (simp add: order_floor_def Let_def required_def)
  have b: "0 \<le> bareFloor" "required * unit \<le> bareFloor * price"
    unfolding bare using div_ceil_nonneg [OF assms(4) ru] div_ceil [OF assms(4)] by simp_all
  have bb: "0 \<le> bareFloor * (10000 + buffer)" using b assms(7) by simp
  have out: "minOut = (bareFloor * (10000 + buffer) + 10000 - 1) div 10000"
    using assms(1) bdiv_ceil [of 10000, OF _ v] bdiv_ceil [OF assms(4) ru] bdiv_ceil [of 10000, OF _ bb] bare
    by (simp add: order_floor_def Let_def required_def)
  have "bareFloor * 10000 \<le> bareFloor * (10000 + buffer)" using b(1) assms(7) by (intro mult_left_mono) auto
  also have "\<dots> \<le> minOut * 10000" unfolding out by (rule div_ceil) simp
  finally have le: "bareFloor \<le> minOut" by simp
  have "required * unit \<le> minOut * price" using b(2) mult_right_mono [OF le, of price] assms(4) by linarith
  then have "required \<le> sol_assetValueWad minOut price unit" using assms(3) by (simp add: sol_assetValueWad_def le_zdiv_iff)
  then show ?thesis using b(1) le r(2) by linarith
qed

lemma derive_ok:
  assumes "deriveMaxSlippageBps fee valueIn unit price gross ov allow bps = Inr (d, slip, used)"
  obtains f p g where "fee = Some f" "price = Some p" "p \<noteq> 0" "gross = Some g" "dv_poolFeeBps d = bdiv (f + 99) 100"
    "dv_derivedSlipBps d = dv_poolFeeBps d + dv_measuredExecutionGapBps d + DERIVED_BUFFER_BPS"
    "dv_measuredExecutionGapBps d = (let z = bdiv (valueIn * unit + p - 1) p in
       if g \<ge> z then 0 else bdiv ((z - g) * bps + z - 1) z)"
    "case ov of None \<Rightarrow> slip = dv_derivedSlipBps d \<and> slip \<le> DERIVED_CAP_BPS
     | Some x \<Rightarrow> slip = x \<and> (dv_derivedSlipBps d \<le> x \<or> allow)"
  using assms
  by (auto simp: deriveMaxSlippageBps_def Let_def not_less split: option.splits if_splits)

lemma build_ok:
  assumes "buildRebalanceOrder p = Inr r"
  obtains d used price fee gross bareFloor usdc tokenOut adapter where
    "deriveMaxSlippageBps (oi_poolFeeRawPpm p) (oi_amountIn p * oi_usdcScalar p) (oi_unitOut p) (oi_priceOutWad p)
       (oi_grossOut p) (oi_overrideBps p) (oi_allowBelowDerived p) (oi_BPS p) = Inr (d, ro_chosenSlipBps r, used)"
    "oi_priceOutWad p = Some price" "oi_poolFeeRawPpm p = Some fee" "oi_grossOut p = Some gross"
    "oi_floorBufferBps p < ro_chosenSlipBps r"
    "order_floor (oi_amountIn p * oi_usdcScalar p) (oi_unitOut p) price (ro_chosenSlipBps r) (oi_floorBufferBps p) (oi_BPS p)
       = (bareFloor, ro_minAmountOut r)"
    "ro_expectedOut r = bdiv (gross * (1000000 - fee)) 1000000" "ro_minAmountOut r \<le> ro_expectedOut r"
    "bigint_of_string (oi_usdc p) = Some usdc" "bigint_of_string (oi_tokenOut p) = Some tokenOut"
    "bigint_of_string (oi_adapter p) = Some adapter"
    "ro_routeData r = route_data usdc tokenOut fee adapter (oi_amountIn p) (ro_minAmountOut r)"
    "ro_payload r = order_payload adapter (ro_chosenSlipBps r) usdc tokenOut (oi_amountIn p) (ro_minAmountOut r)
       (oi_deadline p) (ro_routeData r)"
  using assms
  by (auto simp: buildRebalanceOrder_def Let_def not_le not_less split: sum.splits option.splits if_splits prod.splits)

text \<open>
  C31. An order that is emitted passes the contract: at the oracle price it was built against, with a
  tolerance the contract's ceiling allows, its minimum output meets the slippage bound the proposal
  carries; it asks for no more than the pool is expected to pay after its fee; and a tolerance
  nobody overrode lies between the buffer and the default cap.
\<close>

theorem order_meets_the_contract_bound:
  assumes "buildRebalanceOrder p = Inr r"
    and "oi_BPS p = 10000" "oi_priceOutWad p = Some price" "0 < price" "0 < oi_unitOut p"
    and "0 \<le> oi_amountIn p" "0 \<le> oi_usdcScalar p" "0 \<le> oi_floorBufferBps p"
    and "oi_poolFeeRawPpm p = Some fee" "0 \<le> fee"
    and "case oi_overrideBps p of None \<Rightarrow> DERIVED_CAP_BPS \<le> ceiling | Some ov \<Rightarrow> validateOverrideRange ov ceiling"
    and "ceiling \<le> 10000"
  shows "sol_order_ok (ro_chosenSlipBps r) ceiling (ro_minAmountOut r) price (oi_unitOut p) (oi_amountIn p) (oi_usdcScalar p)
    \<and> ro_minAmountOut r \<le> ro_expectedOut r
    \<and> (oi_overrideBps p = None \<longrightarrow> DERIVED_BUFFER_BPS \<le> ro_chosenSlipBps r \<and> ro_chosenSlipBps r \<le> DERIVED_CAP_BPS)"
proof -
  have v: "0 \<le> oi_amountIn p * oi_usdcScalar p" using assms(6,7) by simp
  obtain d used bareFloor where b:
    "deriveMaxSlippageBps (oi_poolFeeRawPpm p) (oi_amountIn p * oi_usdcScalar p) (oi_unitOut p) (oi_priceOutWad p)
       (oi_grossOut p) (oi_overrideBps p) (oi_allowBelowDerived p) (oi_BPS p) = Inr (d, ro_chosenSlipBps r, used)"
    "oi_floorBufferBps p < ro_chosenSlipBps r" "ro_minAmountOut r \<le> ro_expectedOut r"
    "order_floor (oi_amountIn p * oi_usdcScalar p) (oi_unitOut p) price (ro_chosenSlipBps r) (oi_floorBufferBps p) 10000
       = (bareFloor, ro_minAmountOut r)"
    by (rule build_ok [OF assms(1)]) (use assms(2,3) in auto)
  have derived: "oi_overrideBps p = None \<longrightarrow> DERIVED_BUFFER_BPS \<le> ro_chosenSlipBps r \<and> ro_chosenSlipBps r \<le> DERIVED_CAP_BPS"
  proof (rule derive_ok [OF b(1)], goal_cases)
    case (1 f q g)
    define z where "z = bdiv (oi_amountIn p * oi_usdcScalar p * oi_unitOut p + q - 1) q"
    have q: "q = price" "f = fee" using 1(1,2) assms(3,9) by simp_all
    have vu: "0 \<le> oi_amountIn p * oi_usdcScalar p * oi_unitOut p" using v assms(5) by simp
    have "0 \<le> z" unfolding z_def q(1) bdiv_ceil [OF assms(4) vu] by (rule div_ceil_nonneg [OF assms(4) vu])
    then have "0 \<le> bdiv ((z - g) * 10000 + z - 1) z" if g: "g < z"
    proof (rule bdiv_ge_0 [rotated])
      show "0 \<le> (z - g) * 10000 + z - 1" using g \<open>0 \<le> z\<close> by simp
    qed
    then have "0 \<le> dv_measuredExecutionGapBps d"
      using 1(7) assms(2) by (simp add: z_def [symmetric] Let_def not_le)
    moreover have "0 \<le> dv_poolFeeBps d" using 1(5) q assms(10) by simp
    ultimately show ?case using 1(6,8) by (auto split: option.splits)
  qed
  have slip: "0 < ro_chosenSlipBps r" "ro_chosenSlipBps r \<le> ceiling"
  proof -
    show "0 < ro_chosenSlipBps r" using b(2) assms(8) by simp
    show "ro_chosenSlipBps r \<le> ceiling"
      by (rule derive_ok [OF b(1)]) (use derived assms(11) in \<open>auto simp: validateOverrideRange_def split: option.splits\<close>)
  qed
  show ?thesis
    using order_floor_bound [OF b(4) v assms(5,4) _ _ assms(8)] slip assms(12) derived b(3)
    by (simp add: sol_order_ok_def)
qed

section \<open>The payload\<close>

lemma hex_digit_val: "d < 16 \<Longrightarrow> digit_val 16 (hex_digit d) = Some d"
  by (auto simp: digit_val_def hex_digit_def Let_def)

lemma parse_show_hex: "parse_radix 16 0 (show_hex n) = Some n"
proof (induction n rule: show_hex.induct)
  case (1 n)
  then show ?case
    by (subst show_hex.simps) (auto simp: parse_radix_append hex_digit_val)
qed

lemma parse_hex_zeros: "parse_radix 16 0 (replicate k (CHR ''0'') @ s) = parse_radix 16 0 s"
proof -
  have "digit_val 16 (CHR ''0'') = Some 0" by code_simp
  then show ?thesis by (induction k) simp_all
qed

lemma length_show_hex: "m < 16 ^ n \<Longrightarrow> 0 < n \<Longrightarrow> length (show_hex m) \<le> n"
proof (induction m arbitrary: n rule: show_hex.induct)
  case (1 m)
  show ?case
  proof (cases "m < 16")
    case True
    then show ?thesis using 1 by (subst show_hex.simps) simp
  next
    case False
    have "n \<noteq> 1" using False 1(2) by auto
    then obtain k where n: "n = Suc k" "0 < k" using 1(3) by (cases n) auto
    have "m div 16 < 16 ^ k" using 1(2) n(1) by (simp add: less_mult_imp_div_less mult.commute)
    then have "length (show_hex (m div 16)) \<le> k" using 1(1) False n(2) by simp
    then show ?thesis using False n(1) by (subst show_hex.simps) simp
  qed
qed

definition uint256 :: "int \<Rightarrow> bool" where
  "uint256 v \<longleftrightarrow> 0 \<le> v \<and> v < 2 ^ 256"

lemma abi_word_ok:
  assumes "uint256 v"
  shows "length (abi_word v) = 64 \<and> parse_radix 16 0 (abi_word v) = Some (nat v)"
proof -
  have "nat v < 16 ^ 64" using assms by (simp add: uint256_def nat_less_iff)
  then have "length (show_hex (nat v)) \<le> 64" by (rule length_show_hex) simp
  then show ?thesis
    using assms by (simp add: abi_word_def uint256_def length_pad_start parse_hex_zeros pad_start_def parse_show_hex)
qed

text \<open>
  Decoding what \<open>abi.decode(payload, (address, uint256, SwapOrder[]))\<close> reads: words at byte offsets,
  the array and every dynamic member through their offsets.
\<close>

definition word_at :: "string \<Rightarrow> nat \<Rightarrow> nat option" where
  "word_at hex off = (let w = take 64 (drop (2 * off) hex) in if length w = 64 then parse_radix 16 0 w else None)"

definition bytes_at :: "string \<Rightarrow> nat \<Rightarrow> string option" where
  "bytes_at hex off = (case word_at hex off of
      None \<Rightarrow> None
    | Some n \<Rightarrow> let b = take (2 * n) (drop (2 * (off + 32)) hex) in if length b = 2 * n then Some b else None)"

record swap_order =
  so_tokenIn :: nat
  so_tokenOut :: nat
  so_amountIn :: nat
  so_minAmountOut :: nat
  so_deadline :: nat
  so_routeData :: string

definition decode_order :: "string \<Rightarrow> nat \<Rightarrow> swap_order option" where
  "decode_order hex pos =
     (case (word_at hex pos, word_at hex (pos + 32), word_at hex (pos + 64), word_at hex (pos + 96), word_at hex (pos + 128),
            word_at hex (pos + 160)) of
        (Some a, Some b, Some c, Some d, Some e, Some off) \<Rightarrow>
          map_option (\<lambda>route. \<lparr> so_tokenIn = a, so_tokenOut = b, so_amountIn = c, so_minAmountOut = d, so_deadline = e,
            so_routeData = route \<rparr>) (bytes_at hex (pos + off))
      | _ \<Rightarrow> None)"

fun decode_orders :: "string \<Rightarrow> nat \<Rightarrow> nat \<Rightarrow> nat \<Rightarrow> swap_order list option" where
  "decode_orders hex base k 0 = Some []"
| "decode_orders hex base k (Suc n) = (case word_at hex (base + 32 * k) of
      None \<Rightarrow> None
    | Some off \<Rightarrow> (case (decode_order hex (base + off), decode_orders hex base (Suc k) n) of
        (Some x, Some xs) \<Rightarrow> Some (x # xs)
      | _ \<Rightarrow> None))"

definition abi_decode :: "string \<Rightarrow> (nat \<times> nat \<times> swap_order list) option" where
  "abi_decode payload =
     (let hex = drop 2 payload in
      case (word_at hex 0, word_at hex 32, word_at hex 64) of
        (Some adapter, Some slip, Some off) \<Rightarrow>
          (case word_at hex off of
             None \<Rightarrow> None
           | Some n \<Rightarrow> map_option (\<lambda>os. (adapter, slip, os)) (decode_orders hex (off + 32) 0 n))
      | _ \<Rightarrow> None)"

lemma drop_words:
  "\<forall>v \<in> set vs. uint256 v \<Longrightarrow> k \<le> length vs \<Longrightarrow>
     drop (64 * k) (concat (map abi_word vs) @ rest) = concat (map abi_word (drop k vs)) @ rest"
proof (induction vs arbitrary: k)
  case (Cons v vs)
  show ?case
  proof (cases k)
    case (Suc j)
    have "drop (64 * k) (abi_word v @ concat (map abi_word vs) @ rest) = drop (64 * j) (concat (map abi_word vs) @ rest)"
      using abi_word_ok [of v] Cons.prems(1) Suc by simp
    then show ?thesis using Cons Suc by simp
  qed simp
qed simp

lemma word_at_words:
  assumes "\<forall>v \<in> set vs. uint256 v" "k < length vs" "off = 32 * k"
  shows "word_at (concat (map abi_word vs) @ rest) off = Some (nat (vs ! k))"
proof -
  obtain w ws where d: "drop k vs = w # ws" "w = vs ! k" using assms(2) by (metis Cons_nth_drop_Suc)
  have "uint256 w" using assms(1,2) d(2) by simp
  then have w: "length (abi_word w) = 64" "parse_radix 16 0 (abi_word w) = Some (nat w)" using abi_word_ok by blast+
  have "drop (2 * off) (concat (map abi_word vs) @ rest) = abi_word w @ concat (map abi_word ws) @ rest"
    using drop_words [OF assms(1) less_imp_le [OF assms(2)], of rest] d(1) assms(3) by simp
  then show ?thesis using w d(2) by (simp add: word_at_def)
qed

lemma bytes_at_words:
  assumes "\<forall>v \<in> set vs. uint256 v" "off = 32 * k" "Suc k = length vs" "vs ! k = int n" "length body = 2 * n"
  shows "bytes_at (concat (map abi_word vs) @ body @ rest) off = Some body"
proof -
  have "drop (2 * (off + 32)) (concat (map abi_word vs) @ body @ rest) = body @ rest"
  proof -
    have "2 * (off + 32) = 64 * Suc k" using assms(2) by simp
    then show ?thesis using drop_words [OF assms(1), of "Suc k" "body @ rest"] assms(3) by (simp only:) simp
  qed
  then show ?thesis
    using word_at_words [OF assms(1) _ assms(2), of "body @ rest"] assms(3-5) by (simp add: bytes_at_def)
qed

lemma route_data_words:
  assumes "\<forall>v \<in> {usdc, tokenOut, fee, adapter, amountIn, minOut}. uint256 v"
  shows "take 10 (route_data usdc tokenOut fee adapter amountIn minOut) = EXACT_INPUT_SINGLE
    \<and> length (route_data usdc tokenOut fee adapter amountIn minOut) = 458
    \<and> (\<forall>k < 7. word_at (drop 10 (route_data usdc tokenOut fee adapter amountIn minOut)) (32 * k)
         = Some (nat ([usdc, tokenOut, fee, adapter, amountIn, minOut, 0] ! k)))"
proof -
  let ?vs = "[usdc, tokenOut, fee, adapter, amountIn, minOut, 0]"
  have u: "\<forall>v \<in> set ?vs. uint256 v" using assms by (simp add: uint256_def)
  have ten: "length EXACT_INPUT_SINGLE = 10" by (simp add: EXACT_INPUT_SINGLE_def)
  have "length (concat (map abi_word ?vs)) = 448" using u abi_word_ok by simp
  moreover have "word_at (concat (map abi_word ?vs)) (32 * k) = Some (nat (?vs ! k))" if "k < 7" for k
    using word_at_words [OF u, of k "32 * k" "[]"] that by simp
  ultimately show ?thesis using ten by (simp add: route_data_def del: concat.simps list.map)
qed

lemma order_payload_words:
  "order_payload adapter slip usdc tokenOut amountIn minOut deadline route =
     ''0x'' @ concat (map abi_word [adapter, slip, 96, 1, 32, usdc, tokenOut, amountIn, minOut, deadline, 192,
       bdiv (int (length route) - 2) 2]) @ pad32 (drop 2 route)"
  by (simp add: order_payload_def Let_def)

lemma order_payload_decodes:
  assumes "\<forall>v \<in> {adapter, slip, usdc, tokenOut, amountIn, minOut, deadline}. uint256 v" and "length route = 458"
  shows "abi_decode (order_payload adapter slip usdc tokenOut amountIn minOut deadline route) =
    Some (nat adapter, nat slip, [\<lparr> so_tokenIn = nat usdc, so_tokenOut = nat tokenOut, so_amountIn = nat amountIn,
      so_minAmountOut = nat minOut, so_deadline = nat deadline, so_routeData = drop 2 route \<rparr>])"
proof -
  let ?vs = "[adapter, slip, 96, 1, 32, usdc, tokenOut, amountIn, minOut, deadline, 192, 228]"
  define tail where "tail = replicate 56 (CHR ''0'')"
  have u: "\<forall>v \<in> set ?vs. uint256 v" using assms(1) by (simp add: uint256_def)
  have body: "pad32 (drop 2 route) = drop 2 route @ tail" using assms(2) by (simp add: pad32_def Let_def tail_def)
  define hex where "hex = concat (map abi_word ?vs) @ drop 2 route @ tail"
  have hex: "drop 2 (order_payload adapter slip usdc tokenOut amountIn minOut deadline route) = hex"
    unfolding order_payload_words hex_def body using assms(2) by simp
  have w: "word_at hex (32 * k) = Some (nat (?vs ! k))" if "k < 12" for k
    unfolding hex_def by (rule word_at_words [OF u]) (use that in simp_all)
  note ws = w [of 0] w [of 1] w [of 2] w [of 3] w [of 4] w [of 5] w [of 6] w [of 7] w [of 8] w [of 9] w [of 10]
  have b: "bytes_at hex 352 = Some (drop 2 route)"
    unfolding hex_def by (rule bytes_at_words [OF u, where k = 11 and n = 228]) (use assms(2) in simp_all)
  have o: "decode_order hex 160 = Some \<lparr> so_tokenIn = nat usdc, so_tokenOut = nat tokenOut, so_amountIn = nat amountIn,
      so_minAmountOut = nat minOut, so_deadline = nat deadline, so_routeData = drop 2 route \<rparr>"
    using ws b by (simp add: decode_order_def)
  show ?thesis using ws o by (simp add: abi_decode_def hex Let_def)
qed

text \<open>
  C32. The bytes say what was decided: decoded the way the contract decodes a Rebalance payload, an
  emitted order is one swap with the chosen tolerance (not the ceiling) as its bound, and the
  tokens, amount, minimum output and deadline it was built from; its route is a call of
  \<open>exactInputSingle\<close> with the same minimum, the pool's own fee and the adapter as recipient.
\<close>

theorem payload_decodes_to_the_order:
  assumes "buildRebalanceOrder p = Inr r"
    and "bigint_of_string (oi_usdc p) = Some usdc" "bigint_of_string (oi_tokenOut p) = Some tokenOut"
    and "bigint_of_string (oi_adapter p) = Some adapter" "oi_poolFeeRawPpm p = Some fee"
    and "\<forall>v \<in> {adapter, usdc, tokenOut, oi_amountIn p, fee, ro_chosenSlipBps r, ro_minAmountOut r, oi_deadline p}. uint256 v"
  shows "abi_decode (ro_payload r) = Some (nat adapter, nat (ro_chosenSlipBps r),
      [\<lparr> so_tokenIn = nat usdc, so_tokenOut = nat tokenOut, so_amountIn = nat (oi_amountIn p),
         so_minAmountOut = nat (ro_minAmountOut r), so_deadline = nat (oi_deadline p),
         so_routeData = drop 2 (ro_routeData r) \<rparr>])
    \<and> take 10 (ro_routeData r) = EXACT_INPUT_SINGLE
    \<and> (\<forall>k < 7. word_at (drop 10 (ro_routeData r)) (32 * k)
         = Some (nat ([usdc, tokenOut, fee, adapter, oi_amountIn p, ro_minAmountOut r, 0] ! k)))"
proof -
  have r: "ro_routeData r = route_data usdc tokenOut fee adapter (oi_amountIn p) (ro_minAmountOut r)"
    "ro_payload r = order_payload adapter (ro_chosenSlipBps r) usdc tokenOut (oi_amountIn p) (ro_minAmountOut r)
       (oi_deadline p) (ro_routeData r)"
    by (rule build_ok [OF assms(1)]; use assms(2-5) in simp)+
  have route: "take 10 (ro_routeData r) = EXACT_INPUT_SINGLE" "length (ro_routeData r) = 458"
    "\<forall>k < 7. word_at (drop 10 (ro_routeData r)) (32 * k)
         = Some (nat ([usdc, tokenOut, fee, adapter, oi_amountIn p, ro_minAmountOut r, 0] ! k))"
    unfolding r(1) using route_data_words [of usdc tokenOut fee adapter "oi_amountIn p" "ro_minAmountOut r"] assms(6) by blast+
  show ?thesis
    unfolding r(2) using order_payload_decodes [OF _ route(2)] assms(6) route(1,3) by simp
qed

section \<open>An order\<close>

definition sample_order_input :: order_input where
  "sample_order_input = \<lparr> oi_adapter = ''0xad'', oi_usdc = ''0x0c'', oi_tokenOut = ''0xe7'', oi_amountIn = 1000000,
     oi_unitOut = 10 ^ 18, oi_priceOutWad = Some (2000 * 10 ^ 18), oi_usdcScalar = 10 ^ 12, oi_poolFeeRawPpm = Some 500,
     oi_grossOut = Some 500000000000000, oi_overrideBps = None, oi_allowBelowDerived = False, oi_floorBufferBps = 5,
     oi_deadline = 1700000000, oi_BPS = 10000 \<rparr>"

lemma sample_order_reads:
  "bigint_of_string ''0x0c'' = Some 12" "bigint_of_string ''0xe7'' = Some 231" "bigint_of_string ''0xad'' = Some 173"
  by code_simp+

lemma sample_derivation:
  "deriveMaxSlippageBps (Some 500) (1000000 * 10 ^ 12) (10 ^ 18) (Some (2000 * 10 ^ 18)) (Some 500000000000000) None False 10000
     = Inr (\<lparr> dv_poolFeeBps = 5, dv_measuredExecutionGapBps = 0, dv_derivedSlipBps = 30 \<rparr>, 30, False)"
  "order_floor (1000000 * 10 ^ 12) (10 ^ 18) (2000 * 10 ^ 18) 30 5 10000 = (498500000000000, 498749250000000)"
  "bdiv (500000000000000 * (1000000 - 500)) 1000000 = 499750000000000"
  by code_simp+

lemma sample_order_built:
  obtains r where "buildRebalanceOrder sample_order_input = Inr r" "ro_chosenSlipBps r = 30" "ro_minAmountOut r = 498749250000000"
  using sample_derivation sample_order_reads
  by (simp add: buildRebalanceOrder_def sample_order_input_def Let_def)

lemma order_meets_the_contract_bound_witness:
  "sol_order_ok 30 300 498749250000000 (2000 * 10 ^ 18) (10 ^ 18) 1000000 (10 ^ 12)"
proof -
  obtain r where r: "buildRebalanceOrder sample_order_input = Inr r" "ro_chosenSlipBps r = 30" "ro_minAmountOut r = 498749250000000"
    by (rule sample_order_built)
  show ?thesis
    using order_meets_the_contract_bound [OF r(1), of "2000 * 10 ^ 18" 500 300]
    by (simp add: r(2,3) sample_order_input_def DERIVED_CAP_BPS_def)
qed

lemma payload_decodes_to_the_order_witness:
  "\<exists>r route. buildRebalanceOrder sample_order_input = Inr r
     \<and> abi_decode (ro_payload r) = Some (173, 30, [\<lparr> so_tokenIn = 12, so_tokenOut = 231, so_amountIn = 1000000,
     so_minAmountOut = 498749250000000, so_deadline = 1700000000, so_routeData = route \<rparr>])"
proof -
  obtain r where r: "buildRebalanceOrder sample_order_input = Inr r" "ro_chosenSlipBps r = 30" "ro_minAmountOut r = 498749250000000"
    by (rule sample_order_built)
  have reads: "bigint_of_string (oi_usdc sample_order_input) = Some 12" "bigint_of_string (oi_tokenOut sample_order_input) = Some 231"
    "bigint_of_string (oi_adapter sample_order_input) = Some 173" "oi_poolFeeRawPpm sample_order_input = Some 500"
    "oi_amountIn sample_order_input = 1000000" "oi_deadline sample_order_input = 1700000000"
    by (simp_all add: sample_order_input_def sample_order_reads)
  show ?thesis
    using payload_decodes_to_the_order [OF r(1) reads(1-4)] by (intro exI [of _ r]) (simp add: r reads uint256_def)
qed

end
