(* ===== verification/Canary_Conservation.thy ===== *)
theory Canary_Conservation
  imports Canary_Tracker Projection_Runs
begin

text \<open>
  The two accounting signals of the canary: share conservation,
  \<open>packages/canary/src/signals/share-conservation.mjs\<close>, and NAV backing, \<open>nav-backing.mjs\<close>. A read of
  the chain is a parameter that answers a value or an error; the sentences of the lines are tags.
\<close>

section \<open>Share conservation\<close>

definition SHARE_SIGNAL :: string where "SHARE_SIGNAL = ''share-conservation''"

record share_detail =
  sd_atBlock :: "int option"
  sd_pinned :: bool
  sd_onChainTotalShares :: int
  sd_projectedTotalShares :: int
  sd_shareBookSum :: int
  sd_holders :: int

text \<open>\<open>read\<close> is \<open>tryRead\<close> of \<open>totalShares()\<close> at a block, or at the head; \<open>None\<close> is a skip's detail.\<close>

definition checkShareConservation ::
  "(int option \<Rightarrow> 'e + int) \<Rightarrow> string \<Rightarrow> int option \<Rightarrow> (string, int) jsmap option \<Rightarrow> int option
   \<Rightarrow> share_detail option sig list" where
  "checkShareConservation read vault projectedTotalShares members atBlock =
     (let first = read atBlock;
          (pinned, res) = (case first of
              Inl e \<Rightarrow> if atBlock \<noteq> None then (False, read None) else (False, first)
            | Inr v \<Rightarrow> (atBlock \<noteq> None, first)) in
      case res of
        Inl e \<Rightarrow> [build_sig StSkipped SHARE_SIGNAL vault None ''unreadable'' None None None]
      | Inr onChain \<Rightarrow>
          (let projected = (case projectedTotalShares of None \<Rightarrow> 0 | Some n \<Rightarrow> n);
               book = (case members of None \<Rightarrow> [] | Some b \<Rightarrow> b);
               bookSum = sum_list (map snd book);
               detail = \<lparr> sd_atBlock = (if pinned then atBlock else None), sd_pinned = pinned,
                 sd_onChainTotalShares = onChain, sd_projectedTotalShares = projected,
                 sd_shareBookSum = bookSum, sd_holders = int (length book) \<rparr>;
               need = Some (if pinned then 1 else 2);
               projDiff = onChain - projected; bookDiff = onChain - bookSum
           in if projDiff \<noteq> 0 \<or> bookDiff \<noteq> 0
              then [(build_sig StAlert SHARE_SIGNAL vault None ''share conservation broken''
                       (Some (show_int \<bar>if projDiff \<noteq> 0 then projDiff else bookDiff\<bar> @ '' shares''))
                       (Some ''exactly 0'') (Some detail))\<lparr>sg_minConsecutive := need\<rparr>]
              else [(build_sig StOk SHARE_SIGNAL vault None ''share conservation'' (Some ''0 shares'')
                       (Some ''exactly 0'') (Some detail))\<lparr>sg_minConsecutive := need\<rparr>]))"

lemma checkShareConservation_pinned:
  assumes "read (Some b) = Inr onChain"
  shows "map sg_status (checkShareConservation read vault (Some projected) (Some book) (Some b)) =
      [if onChain = projected \<and> onChain = sum_list (map snd book) then StOk else StAlert]"
    and "map sg_minConsecutive (checkShareConservation read vault (Some projected) (Some book) (Some b)) = [Some 1]"
  using assms by (auto simp: checkShareConservation_def Let_def build_sig_def)

text \<open>
  The check against the indexer it watches: fed from any state the fold reaches over a log in which
  no exit burns more than its member's balance, and with the chain readable at the indexer's own
  height, the signal is one result that pages at once, and it is healthy exactly when the chain's
  total is the projected one; the projection being inconsistent with itself is never the cause.
\<close>

theorem share_signal_watches_the_fold:
  assumes "total_inv st" and "reaches_pre apply_event burn_ok st (sort_log es)" and "applyAll es st = Done st'"
    and "read (Some b) = Inr onChain"
    and "checkShareConservation read vault (Some (v_totalShares (vrec st' k))) (Some (shareBook st' k)) (Some b) = results"
  shows "map sg_status results = [if onChain = v_totalShares (vrec st' k) then StOk else StAlert]
    \<and> map needed results = [1]"
proof -
  have "v_totalShares (vrec st' k) = sum_list (map snd (shareBook st' k))"
    using total_fold.run_inv_Done [OF assms(1,2)] assms(3) by (simp add: applyAll_def total_inv_def)
  then show ?thesis
    using checkShareConservation_pinned [of read b onChain vault "v_totalShares (vrec st' k)" "shareBook st' k"]
    unfolding assms(5) [symmetric] using assms(4) by (auto simp: needed_def)
qed

lemma share_signal_watches_the_fold_witness:
  "\<exists>st'. applyAll sample_log emptyState = Done st'
     \<and> map sg_status (checkShareConservation (\<lambda>_. Inr 2 :: unit + int) ''0xv'' (Some (v_totalShares (vrec st' (Some ''0xv''))))
          (Some (shareBook st' (Some ''0xv''))) (Some 4)) = [StOk]"
proof (cases "applyAll sample_log emptyState")
  case (Done st')
  have "v_totalShares (vrec st' (Some ''0xv'')) = 2"
    using sample_run Done total_fold.run_inv_Done [OF total_inv_empty sample_reaches, of st']
    by (simp add: applyAll_def total_inv_def)
  then show ?thesis
    using share_signal_watches_the_fold [OF total_inv_empty sample_reaches Done, of "\<lambda>_. Inr 2 :: unit + int" 4 2 "''0xv''" "Some ''0xv''", OF _ refl] Done
    by simp
qed (use sample_run in simp)

text \<open>
  A mismatch read at the head, because the node has no state at the indexer's height, asks to be
  seen twice. When the id is already tracked as healthy, it is: one sighting emits nothing. On a
  first sighting the tracker does not wait, and pages from one racy observation.
\<close>

theorem unpinned_mismatch_at_first_sight:
  assumes "read (Some b) = Inl e" "read None = Inr onChain" "onChain \<noteq> projected"
    and "checkShareConservation read vault (Some projected) (Some book) (Some b) = [r]"
  shows "needed r = 2 \<and> sg_status r = StAlert
    \<and> (\<forall>states t. map_of states (sg_id r) = Some t \<and> tr_status t = StOk \<and> tr_pendingStatus t = None
         \<longrightarrow> snd (observe_one poll ts states r) = None)
    \<and> (\<forall>states. map_of states (sg_id r) = None \<longrightarrow> snd (observe_one poll ts states r) \<noteq> None)"
proof -
  have r: "sg_minConsecutive r = Some 2" "sg_status r = StAlert"
    using assms by (auto simp: checkShareConservation_def Let_def build_sig_def)
  then have n: "needed r = 2" by (simp add: needed_def)
  show ?thesis using r(2) n by (auto simp: observe_one_def Let_def)
qed

lemma unpinned_mismatch_at_first_sight_witness:
  "\<exists>r. checkShareConservation (\<lambda>b. case b of Some _ \<Rightarrow> Inl () | None \<Rightarrow> Inr 5) ''0xv'' (Some 4) (Some []) (Some 10) = [r]
     \<and> snd (observe_one 0 ''t'' [] r) \<noteq> None"
proof -
  define read where "read = (\<lambda>b :: int option. case b of Some _ \<Rightarrow> Inl () | None \<Rightarrow> Inr (5 :: int))"
  obtain r where r: "checkShareConservation read ''0xv'' (Some 4) (Some []) (Some 10) = [r]"
    by (auto simp: checkShareConservation_def read_def Let_def)
  then show ?thesis
    using unpinned_mismatch_at_first_sight [OF _ _ _ r, of "()" 5 0 "''t''"] by (simp add: read_def)
qed

section \<open>NAV backing\<close>

definition NAV_SIGNAL :: string where "NAV_SIGNAL = ''nav-backing''"
definition MAX_LOOKTHROUGH_DEPTH :: nat where "MAX_LOOKTHROUGH_DEPTH = 3"

text \<open>
  The reads, all at one block. Repeated price reads of one check are answered from a cache in the
  code, which at one block is the same answer. \<open>nr_frozen\<close> tells an oracle-breaker revert.
\<close>

record 'e nav_reader =
  nr_navWad :: "string \<Rightarrow> 'e + int"
  nr_oracle :: "string \<Rightarrow> 'e + string"
  nr_usdcScalar :: "string \<Rightarrow> 'e + int"
  nr_idleUsdc :: "string \<Rightarrow> 'e + int"
  nr_totalPendingUsdc :: "string \<Rightarrow> 'e + int"
  nr_usdc :: "string \<Rightarrow> 'e + string"
  nr_basketLength :: "string \<Rightarrow> 'e + nat"
  nr_basketAssets :: "string \<Rightarrow> nat \<Rightarrow> 'e + string"
  nr_assetBalance :: "string \<Rightarrow> string \<Rightarrow> 'e + int"
  nr_assetUnit :: "string \<Rightarrow> string \<Rightarrow> 'e + int"
  nr_priceWad :: "string \<Rightarrow> string \<Rightarrow> 'e + int"
  nr_childVaultCount :: "string \<Rightarrow> 'e + nat"
  nr_childVaults :: "string \<Rightarrow> nat \<Rightarrow> 'e + string"
  nr_sharesOf :: "string \<Rightarrow> string \<Rightarrow> 'e + int"
  nr_totalShares :: "string \<Rightarrow> 'e + int"
  nr_balanceOf :: "string \<Rightarrow> string \<Rightarrow> 'e + int"
  nr_frozen :: "'e \<Rightarrow> bool"

datatype 'e nav_failure = ReadFailed 'e | NoAssetUnit string string

definition reading :: "'e + 'a \<Rightarrow> 'e nav_failure + 'a" where
  "reading r = (case r of Inl e \<Rightarrow> Inl (ReadFailed e) | Inr a \<Rightarrow> Inr a)"

lemma reading_Inr [simp]: "reading (Inr a) = Inr a" by (simp add: reading_def)

fun indexed :: "(nat \<Rightarrow> 'e + 'a) \<Rightarrow> nat list \<Rightarrow> 'e nav_failure + 'a list" where
  "indexed f [] = Inr []"
| "indexed f (i # is) = bindE (reading (f i)) (\<lambda>a. bindE (indexed f is) (\<lambda>as. Inr (a # as)))"

definition basketOf :: "'e nav_reader \<Rightarrow> string \<Rightarrow> 'e nav_failure + string list" where
  "basketOf r target = bindE (reading (nr_basketLength r target)) (\<lambda>n. indexed (nr_basketAssets r target) [0..<n])"

definition childrenOf :: "'e nav_reader \<Rightarrow> string \<Rightarrow> 'e nav_failure + string list" where
  "childrenOf r target = bindE (reading (nr_childVaultCount r target)) (\<lambda>n. indexed (nr_childVaults r target) [0..<n])"

fun add_assets ::
  "'e nav_reader \<Rightarrow> string \<Rightarrow> string \<Rightarrow> string \<Rightarrow> int \<Rightarrow> string list \<Rightarrow> 'e nav_failure + int" where
  "add_assets r oracle payer target nav [] = Inr nav"
| "add_assets r oracle payer target nav (a # as) =
     bindE (reading (nr_assetBalance r target a)) (\<lambda>bal.
     if bal = 0 then add_assets r oracle payer target nav as
     else bindE (reading (nr_assetUnit r payer a)) (\<lambda>unit.
       if unit = 0 then Inl (NoAssetUnit a payer)
       else bindE (reading (nr_priceWad r oracle a)) (\<lambda>price.
         add_assets r oracle payer target (nav + bdiv (bal * price) unit) as)))"

definition selfValue :: "'e nav_reader \<Rightarrow> string \<Rightarrow> string \<Rightarrow> int \<Rightarrow> string \<Rightarrow> 'e nav_failure + int" where
  "selfValue r oracle payer usdcScalar target =
     bindE (reading (nr_idleUsdc r target)) (\<lambda>idle.
     bindE (basketOf r target) (\<lambda>as. add_assets r oracle payer target (idle * usdcScalar) as))"

text \<open>The loop over the children of \<open>holder\<close>, each valued by \<open>full\<close>.\<close>

fun add_children ::
  "'e nav_reader \<Rightarrow> (string \<Rightarrow> 'e nav_failure + int) \<Rightarrow> string \<Rightarrow> int \<Rightarrow> string list \<Rightarrow> 'e nav_failure + int" where
  "add_children r full holder nav [] = Inr nav"
| "add_children r full holder nav (c # cs) =
     bindE (reading (nr_sharesOf r c holder)) (\<lambda>shares.
     if shares = 0 then add_children r full holder nav cs
     else bindE (reading (nr_totalShares r c)) (\<lambda>tot.
       if tot = 0 then add_children r full holder nav cs
       else bindE (full c) (\<lambda>v. add_children r full holder (nav + bdiv (v * shares) tot) cs)))"

text \<open>\<open>fullNav\<close> at a depth, by the number of levels left below it.\<close>

primrec full_nav :: "'e nav_reader \<Rightarrow> string \<Rightarrow> string \<Rightarrow> int \<Rightarrow> nat \<Rightarrow> string \<Rightarrow> 'e nav_failure + int" where
  "full_nav r oracle payer usdcScalar 0 = selfValue r oracle payer usdcScalar"
| "full_nav r oracle payer usdcScalar (Suc n) = (\<lambda>target.
     bindE (selfValue r oracle payer usdcScalar target) (\<lambda>nav.
     bindE (childrenOf r target) (\<lambda>cs. add_children r (full_nav r oracle payer usdcScalar n) target nav cs)))"

definition recompute :: "'e nav_reader \<Rightarrow> string \<Rightarrow> string \<Rightarrow> int \<Rightarrow> 'e nav_failure + int" where
  "recompute r oracle vault usdcScalar = full_nav r oracle vault usdcScalar MAX_LOOKTHROUGH_DEPTH vault"

fun custody_assets :: "'e nav_reader \<Rightarrow> string \<Rightarrow> string list \<Rightarrow> 'e nav_failure + (string \<times> int \<times> int) list" where
  "custody_assets r vault [] = Inr []"
| "custody_assets r vault (a # as) =
     bindE (reading (nr_assetBalance r vault a)) (\<lambda>owed.
     if owed = 0 then custody_assets r vault as
     else bindE (reading (nr_balanceOf r a vault)) (\<lambda>held.
       bindE (custody_assets r vault as) (\<lambda>rest. Inr ((a, owed, held) # rest))))"

text \<open>What was checked: token, accounted, held. A shortfall is a line with less held.\<close>

definition custody_checked :: "'e nav_reader \<Rightarrow> string \<Rightarrow> 'e nav_failure + (string \<times> int \<times> int) list" where
  "custody_checked r vault =
     bindE (reading (nr_usdc r vault)) (\<lambda>usdc.
     bindE (reading (nr_idleUsdc r vault)) (\<lambda>idle.
     bindE (reading (nr_totalPendingUsdc r vault)) (\<lambda>pending.
     bindE (reading (nr_balanceOf r usdc vault)) (\<lambda>held.
     bindE (basketOf r vault) (\<lambda>as.
     bindE (custody_assets r vault as) (\<lambda>rest. Inr ((usdc, idle + pending, held) # rest)))))))"

datatype nav_detail =
    Attributed bool
  | Composition int int int
  | CustodyFailed
  | Custody "(string \<times> int \<times> int) list" "(string \<times> int \<times> int) list"

definition custodyLeg :: "'e nav_reader \<Rightarrow> string \<Rightarrow> nav_detail sig" where
  "custodyLeg r vault = (case custody_checked r vault of
      Inl e \<Rightarrow> build_sig StSkipped NAV_SIGNAL vault (Some ''custody'') ''custody check skipped'' None None CustodyFailed
    | Inr checked \<Rightarrow>
        (let shortfalls = filter (\<lambda>(_, owed, held). held < owed) checked in
         if shortfalls = [] then build_sig StOk NAV_SIGNAL vault (Some ''custody'') ''custody'' (Some ''no shortfall'')
                (Some ''held >= accounted'') (Custody [] checked)
         else (let (_, owed, held) = hd shortfalls in
           build_sig StAlert NAV_SIGNAL vault (Some ''custody'') ''BACKING SHORTFALL'' (Some (show_int held @ '' held''))
             (Some (''>= '' @ show_int owed @ '' accounted'')) (Custody shortfalls checked))))"

definition composition_skip :: "string \<Rightarrow> bool \<Rightarrow> nav_detail sig" where
  "composition_skip vault frozen =
     build_sig StSkipped NAV_SIGNAL vault (Some ''composition'') ''NAV check skipped'' None None (Attributed frozen)"

definition nav_frozen :: "'e nav_reader \<Rightarrow> 'e nav_failure \<Rightarrow> bool" where
  "nav_frozen r e = (case e of ReadFailed x \<Rightarrow> nr_frozen r x | NoAssetUnit _ _ \<Rightarrow> False)"

text \<open>A failed read of the oracle or the scalar throws out of the check: \<open>Inl\<close>.\<close>

definition checkNavBacking :: "'e nav_reader \<Rightarrow> string \<Rightarrow> int \<Rightarrow> 'e nav_failure + nav_detail sig list" where
  "checkNavBacking r vault thresholdBps = (case nr_navWad r vault of
      Inl e \<Rightarrow> Inr [composition_skip vault (nr_frozen r e)]
    | Inr reported \<Rightarrow>
        bindE (reading (nr_oracle r vault)) (\<lambda>oracle.
        bindE (reading (nr_usdcScalar r vault)) (\<lambda>usdcScalar.
        case recompute r oracle vault usdcScalar of
          Inl e \<Rightarrow> Inr [composition_skip vault (nav_frozen r e)]
        | Inr recomputed \<Rightarrow>
            (let bps = divergenceBps reported recomputed in
             Inr [build_sig (if bps > thresholdBps then StAlert else StOk) NAV_SIGNAL vault (Some ''composition'')
                    ''NAV backing'' (Some (bpsToPct bps)) (Some (bpsToPct thresholdBps)) (Composition reported recomputed bps),
                  custodyLeg r vault]))))"

section \<open>The contract's NAV\<close>

record sol_books =
  sb_usdcScalar :: int
  sb_idleUsdc :: "string \<Rightarrow> int"
  sb_totalPendingUsdc :: "string \<Rightarrow> int"
  sb_usdc :: "string"
  sb_basket :: "string \<Rightarrow> string list"
  sb_assetBalance :: "string \<Rightarrow> string \<Rightarrow> int"
  sb_assetUnit :: "string \<Rightarrow> int"
  sb_price :: "string \<Rightarrow> int"
  sb_children :: "string \<Rightarrow> string list"
  sb_sharesOf :: "string \<Rightarrow> string \<Rightarrow> int"
  sb_totalShares :: "string \<Rightarrow> int"
  sb_balanceOf :: "string \<Rightarrow> string \<Rightarrow> int"

text \<open>\<open>_fullNavWad\<close> of a vault with some levels of descendants below it, and \<open>navWad\<close>.\<close>

definition sol_self :: "sol_books \<Rightarrow> string \<Rightarrow> int" where
  "sol_self b v = sb_idleUsdc b v * sb_usdcScalar b + sum_list (map (\<lambda>a.
     if sb_assetBalance b v a \<noteq> 0 then sb_assetBalance b v a * sb_price b a div sb_assetUnit b a else 0) (sb_basket b v))"

primrec sol_fullNav :: "sol_books \<Rightarrow> nat \<Rightarrow> string \<Rightarrow> int" where
  "sol_fullNav b 0 = sol_self b"
| "sol_fullNav b (Suc n) = (\<lambda>v. sol_self b v + sum_list (map (\<lambda>c.
     if sb_sharesOf b c v = 0 then 0 else sol_fullNav b n c * sb_sharesOf b c v div sb_totalShares b c) (sb_children b v)))"

definition sol_navWad :: "sol_books \<Rightarrow> string \<Rightarrow> int" where
  "sol_navWad b v = sol_fullNav b MAX_LOOKTHROUGH_DEPTH v"

definition well_kept :: "sol_books \<Rightarrow> bool" where
  "well_kept b \<longleftrightarrow> 0 \<le> sb_usdcScalar b \<and> (\<forall>v. 0 \<le> sb_idleUsdc b v) \<and> (\<forall>v a. 0 \<le> sb_assetBalance b v a)
     \<and> (\<forall>a. 0 \<le> sb_price b a) \<and> (\<forall>c h. 0 \<le> sb_sharesOf b c h) \<and> (\<forall>c. 0 \<le> sb_totalShares b c)
     \<and> (\<forall>v. \<forall>a \<in> set (sb_basket b v). sb_assetBalance b v a \<noteq> 0 \<longrightarrow> 0 < sb_assetUnit b a)"

text \<open>A reader pinned to a block answers from that block's books.\<close>

definition reads_books :: "'e nav_reader \<Rightarrow> sol_books \<Rightarrow> string \<Rightarrow> string \<Rightarrow> bool" where
  "reads_books r b payer oracle \<longleftrightarrow> nr_oracle r payer = Inr oracle \<and> nr_usdcScalar r payer = Inr (sb_usdcScalar b)
     \<and> nr_usdc r payer = Inr (sb_usdc b)
     \<and> (\<forall>v. nr_idleUsdc r v = Inr (sb_idleUsdc b v) \<and> nr_totalPendingUsdc r v = Inr (sb_totalPendingUsdc b v)
       \<and> nr_basketLength r v = Inr (length (sb_basket b v)) \<and> (\<forall>i < length (sb_basket b v). nr_basketAssets r v i = Inr (sb_basket b v ! i))
       \<and> nr_childVaultCount r v = Inr (length (sb_children b v)) \<and> (\<forall>i < length (sb_children b v). nr_childVaults r v i = Inr (sb_children b v ! i))
       \<and> (\<forall>a. nr_assetBalance r v a = Inr (sb_assetBalance b v a)) \<and> (\<forall>h. nr_sharesOf r v h = Inr (sb_sharesOf b v h))
       \<and> nr_totalShares r v = Inr (sb_totalShares b v))
     \<and> (\<forall>a. nr_assetUnit r payer a = Inr (sb_assetUnit b a) \<and> nr_priceWad r oracle a = Inr (sb_price b a))
     \<and> (\<forall>t h. nr_balanceOf r t h = Inr (sb_balanceOf b t h))"

lemma indexed_reads:
  "\<forall>i \<in> set is. f i = Inr (xs ! i) \<Longrightarrow> indexed f is = Inr (map ((!) xs) is)"
  by (induction "is") simp_all

lemma read_lists:
  assumes "reads_books r b payer oracle"
  shows "basketOf r v = Inr (sb_basket b v)" and "childrenOf r v = Inr (sb_children b v)"
  using assms indexed_reads [of "[0..<length (sb_basket b v)]" "nr_basketAssets r v" "sb_basket b v"]
    indexed_reads [of "[0..<length (sb_children b v)]" "nr_childVaults r v" "sb_children b v"]
  by (auto simp: reads_books_def basketOf_def childrenOf_def map_nth)

lemma read_assets:
  assumes "reads_books r b payer oracle" "well_kept b"
  shows "set as \<subseteq> set (sb_basket b v) \<Longrightarrow> add_assets r oracle payer v nav as = Inr (nav + sum_list (map (\<lambda>a.
     if sb_assetBalance b v a \<noteq> 0 then sb_assetBalance b v a * sb_price b a div sb_assetUnit b a else 0) as))"
proof (induction as arbitrary: nav)
  case (Cons a as)
  have "0 \<le> sb_assetBalance b v a" "0 \<le> sb_price b a" "sb_assetBalance b v a \<noteq> 0 \<longrightarrow> 0 < sb_assetUnit b a"
    using assms(2) Cons.prems by (auto simp: well_kept_def)
  then show ?case using Cons assms(1) by (auto simp: reads_books_def)
qed simp

lemma read_self:
  assumes "reads_books r b payer oracle" "well_kept b"
  shows "selfValue r oracle payer (sb_usdcScalar b) v = Inr (sol_self b v)"
  using read_assets [OF assms order_refl, of v] read_lists(1) [OF assms(1)] assms(1)
  by (simp add: selfValue_def sol_self_def reads_books_def)

lemma sol_self_nonneg: "well_kept b \<Longrightarrow> 0 \<le> sol_self b v"
  by (auto simp: well_kept_def sol_self_def intro!: add_nonneg_nonneg sum_list_nonneg simp: pos_imp_zdiv_nonneg_iff)

lemma sol_fullNav_nonneg: "well_kept b \<Longrightarrow> 0 \<le> sol_fullNav b n v"
proof (induction n arbitrary: v)
  case (Suc n)
  have "0 \<le> sol_fullNav b n c * sb_sharesOf b c v div sb_totalShares b c" for c
    using Suc by (cases "sb_totalShares b c = 0") (auto simp: well_kept_def pos_imp_zdiv_nonneg_iff less_le)
  then show ?case using sol_self_nonneg [OF Suc.prems] by (auto intro!: add_nonneg_nonneg sum_list_nonneg)
qed (simp add: sol_self_nonneg)

lemma read_children:
  assumes "reads_books r b payer oracle" "well_kept b"
    and "\<And>c. full c = Inr (sol_fullNav b n c)"
  shows "add_children r full v nav cs = Inr (nav + sum_list (map (\<lambda>c.
     if sb_sharesOf b c v = 0 then 0 else sol_fullNav b n c * sb_sharesOf b c v div sb_totalShares b c) cs))"
proof (induction cs arbitrary: nav)
  case (Cons c cs)
  have "0 \<le> sol_fullNav b n c * sb_sharesOf b c v" "0 \<le> sb_totalShares b c"
    using sol_fullNav_nonneg [OF assms(2)] assms(2) by (simp_all add: well_kept_def)
  then show ?case using Cons assms(1,3) by (auto simp: reads_books_def)
qed simp

lemma read_full_nav:
  assumes "reads_books r b payer oracle" "well_kept b"
  shows "full_nav r oracle payer (sb_usdcScalar b) n v = Inr (sol_fullNav b n v)"
proof (induction n arbitrary: v)
  case (Suc n)
  show ?case
    using read_children [OF assms Suc, of v "sol_self b v"] read_self [OF assms] read_lists(2) [OF assms(1)] by simp
qed (simp add: read_self [OF assms])

lemma read_custody:
  assumes "reads_books r b vault oracle"
  shows "custody_checked r vault = Inr ((sb_usdc b, sb_idleUsdc b vault + sb_totalPendingUsdc b vault, sb_balanceOf b (sb_usdc b) vault)
     # map (\<lambda>a. (a, sb_assetBalance b vault a, sb_balanceOf b a vault)) (filter (\<lambda>a. sb_assetBalance b vault a \<noteq> 0) (sb_basket b vault)))"
proof -
  have "custody_assets r vault as = Inr (map (\<lambda>a. (a, sb_assetBalance b vault a, sb_balanceOf b a vault))
      (filter (\<lambda>a. sb_assetBalance b vault a \<noteq> 0) as))" for as
    using assms by (induction as) (auto simp: reads_books_def)
  then show ?thesis using assms read_lists(1) [OF assms] by (simp add: custody_checked_def reads_books_def)
qed

text \<open>What the vault owes in some token and does not hold.\<close>

definition unbacked :: "sol_books \<Rightarrow> string \<Rightarrow> bool" where
  "unbacked b v \<longleftrightarrow> sb_balanceOf b (sb_usdc b) v < sb_idleUsdc b v + sb_totalPendingUsdc b v
     \<or> (\<exists>a \<in> set (sb_basket b v). sb_assetBalance b v a \<noteq> 0 \<and> sb_balanceOf b a v < sb_assetBalance b v a)"

lemma custody_status:
  assumes "reads_books r b vault oracle"
  shows "sg_status (custodyLeg r vault) = (if unbacked b vault then StAlert else StOk)"
proof -
  define checked where "checked = (sb_usdc b, sb_idleUsdc b vault + sb_totalPendingUsdc b vault, sb_balanceOf b (sb_usdc b) vault)
     # map (\<lambda>a. (a, sb_assetBalance b vault a, sb_balanceOf b a vault)) (filter (\<lambda>a. sb_assetBalance b vault a \<noteq> 0) (sb_basket b vault))"
  have "sg_status (custodyLeg r vault) = (if filter (\<lambda>(_, owed, held). held < owed) checked = [] then StOk else StAlert)"
    using read_custody [OF assms] by (simp add: custodyLeg_def checked_def [symmetric] Let_def build_sig_def split: prod.split)
  moreover have "filter (\<lambda>(_, owed, held). held < owed) checked = [] \<longleftrightarrow> \<not> unbacked b vault"
    by (auto simp: checked_def unbacked_def filter_empty_conv)
  ultimately show ?thesis by simp
qed

lemma divergence_self: "divergenceBps a a = 0"
  by (simp add: divergenceBps_def bdiv_def)


text \<open>A reader over books, and a vault with a child and a grandchild.\<close>

definition books_reader :: "sol_books \<Rightarrow> (string \<Rightarrow> string + int) \<Rightarrow> string nav_reader" where
  "books_reader b nav = \<lparr> nr_navWad = nav, nr_oracle = \<lambda>_. Inr ''0xor'', nr_usdcScalar = \<lambda>_. Inr (sb_usdcScalar b),
     nr_idleUsdc = \<lambda>v. Inr (sb_idleUsdc b v), nr_totalPendingUsdc = \<lambda>v. Inr (sb_totalPendingUsdc b v),
     nr_usdc = \<lambda>_. Inr (sb_usdc b), nr_basketLength = \<lambda>v. Inr (length (sb_basket b v)),
     nr_basketAssets = \<lambda>v i. Inr (sb_basket b v ! i), nr_assetBalance = \<lambda>v a. Inr (sb_assetBalance b v a),
     nr_assetUnit = \<lambda>_ a. Inr (sb_assetUnit b a), nr_priceWad = \<lambda>_ a. Inr (sb_price b a),
     nr_childVaultCount = \<lambda>v. Inr (length (sb_children b v)), nr_childVaults = \<lambda>v i. Inr (sb_children b v ! i),
     nr_sharesOf = \<lambda>c h. Inr (sb_sharesOf b c h), nr_totalShares = \<lambda>c. Inr (sb_totalShares b c),
     nr_balanceOf = \<lambda>t h. Inr (sb_balanceOf b t h), nr_frozen = \<lambda>e. e = ''StaleOracle'' \<rparr>"

lemma books_reader_reads: "reads_books (books_reader b nav) b payer ''0xor''"
  by (simp add: reads_books_def books_reader_def)

definition sample_books :: sol_books where
  "sample_books = \<lparr> sb_usdcScalar = 1, sb_idleUsdc = \<lambda>v. if v = ''root'' then 10 else if v = ''kid'' then 20 else 40,
     sb_totalPendingUsdc = \<lambda>_. 3, sb_usdc = ''usdc'', sb_basket = \<lambda>v. if v = ''root'' then [''eth''] else [],
     sb_assetBalance = \<lambda>v a. if v = ''root'' \<and> a = ''eth'' then 2 else 0, sb_assetUnit = \<lambda>_. 1, sb_price = \<lambda>_. 7,
     sb_children = \<lambda>v. if v = ''root'' then [''kid''] else if v = ''kid'' then [''grandkid''] else [],
     sb_sharesOf = \<lambda>_ _. 1, sb_totalShares = \<lambda>_. 2, sb_balanceOf = \<lambda>t _. if t = ''usdc'' then 12 else 2 \<rparr>"


end
