(* ===== verification/Rate_Limit.thy ===== *)
theory Rate_Limit
  imports Complex_Main Decimal
begin

text \<open>
  The token bucket of the free API routes, \<open>apps/api/src/ratelimit.mjs\<close>. Levels are rationals, where
  the code has doubles; times are milliseconds. The Map is an association list in insertion order,
  which is what the code relies on for its least recently used entry.
\<close>

record limiter_cfg =
  rl_capacity :: rat
  rl_refillPerSec :: rat
  rl_maxKeys :: nat

record bucket =
  bu_tokens :: rat
  bu_at :: rat

record limiter =
  li_buckets :: "(string, bucket) jsmap"
  li_evicted :: nat

record take_result =
  ta_allowed :: bool
  ta_limit :: rat
  ta_remaining :: int
  ta_retryAfterSec :: int

datatype limiter_error = BadCapacity | BadRefill

definition createRateLimiter :: "limiter_cfg \<Rightarrow> limiter_error + limiter" where
  "createRateLimiter cfg =
     (if \<not> rl_capacity cfg > 0 then Inl BadCapacity
      else if \<not> rl_refillPerSec cfg > 0 then Inl BadRefill
      else Inr \<lparr> li_buckets = [], li_evicted = 0 \<rparr>)"

definition levelAt :: "limiter_cfg \<Rightarrow> bucket \<Rightarrow> rat \<Rightarrow> rat" where
  "levelAt cfg b t = min (rl_capacity cfg) (bu_tokens b + max 0 (t - bu_at b) / 1000 * rl_refillPerSec cfg)"

text \<open>Full buckets go first; then the oldest entries, each counted as an eviction.\<close>

definition prune :: "limiter_cfg \<Rightarrow> rat \<Rightarrow> limiter \<Rightarrow> limiter" where
  "prune cfg t s =
     (if length (li_buckets s) \<le> rl_maxKeys cfg then s
      else let live = filter (\<lambda>(k, b). \<not> levelAt cfg b t \<ge> rl_capacity cfg) (li_buckets s);
               over = length live - rl_maxKeys cfg
           in \<lparr> li_buckets = drop over live, li_evicted = li_evicted s + over \<rparr>)"

definition take_token :: "limiter_cfg \<Rightarrow> limiter \<Rightarrow> string \<Rightarrow> rat \<Rightarrow> rat \<Rightarrow> take_result \<times> limiter" where
  "take_token cfg s key cost t =
     (let b0 = (case map_of (li_buckets s) key of
                  Some b \<Rightarrow> b | None \<Rightarrow> \<lparr> bu_tokens = rl_capacity cfg, bu_at = t \<rparr>);
          level = levelAt cfg b0 t;
          allowed = (level \<ge> cost);
          left = (if allowed then level - cost else level);
          s' = prune cfg t (s\<lparr>li_buckets := AList.delete key (li_buckets s) @ [(key, \<lparr> bu_tokens = left, bu_at = t \<rparr>)]\<rparr>)
      in (\<lparr> ta_allowed = allowed, ta_limit = rl_capacity cfg, ta_remaining = max 0 \<lfloor>left\<rfloor>,
            ta_retryAfterSec = (if allowed then 0 else max 1 \<lceil>(cost - left) / rl_refillPerSec cfg\<rceil>) \<rparr>, s'))"

text \<open>Calls one after the other, each with its key and time, at the default cost of one token.\<close>

fun takes :: "limiter_cfg \<Rightarrow> limiter \<Rightarrow> (string \<times> rat) list \<Rightarrow> bool list \<times> limiter" where
  "takes cfg s [] = ([], s)"
| "takes cfg s ((key, t) # calls) =
     (let (r, s1) = take_token cfg s key 1 t; (rs, s2) = takes cfg s1 calls in (ta_allowed r # rs, s2))"

definition clientIp :: "bool \<Rightarrow> string option \<Rightarrow> string option \<Rightarrow> string" where
  "clientIp trustProxy forwardedFor remoteAddress =
     (let first = (case forwardedFor of
          None \<Rightarrow> [] | Some x \<Rightarrow> js_trim (takeWhile (\<lambda>c. c \<noteq> CHR '','') x));
          remote = (case remoteAddress of Some a \<Rightarrow> if a = [] then ''unknown'' else a | None \<Rightarrow> ''unknown'')
      in if trustProxy \<and> first \<noteq> [] then first else remote)"

section \<open>The level of a key\<close>

abbreviation sound :: "limiter_cfg \<Rightarrow> bool" where
  "sound cfg \<equiv> rl_capacity cfg > 0 \<and> rl_refillPerSec cfg > 0"

text \<open>What a key could spend at a time: an untracked key is a full bucket.\<close>

definition key_level :: "limiter_cfg \<Rightarrow> limiter \<Rightarrow> string \<Rightarrow> rat \<Rightarrow> rat" where
  "key_level cfg s key t = (case map_of (li_buckets s) key of None \<Rightarrow> rl_capacity cfg | Some b \<Rightarrow> levelAt cfg b t)"

definition limiter_inv :: "limiter_cfg \<Rightarrow> rat \<Rightarrow> limiter \<Rightarrow> bool" where
  "limiter_inv cfg t s \<longleftrightarrow> distinct (map fst (li_buckets s)) \<and> length (li_buckets s) \<le> rl_maxKeys cfg
     \<and> (\<forall>(k, b) \<in> set (li_buckets s). 0 \<le> bu_tokens b \<and> bu_tokens b \<le> rl_capacity cfg \<and> bu_at b \<le> t)"

lemma levelAt_bounds:
  assumes "sound cfg" "0 \<le> bu_tokens b"
  shows "0 \<le> levelAt cfg b t \<and> levelAt cfg b t \<le> rl_capacity cfg"
  using assms by (auto simp: levelAt_def min_def max_def)

lemma levelAt_later:
  assumes "sound cfg" "bu_at b \<le> t" "t \<le> t'"
  shows "levelAt cfg b t' \<le> levelAt cfg b t + (t' - t) / 1000 * rl_refillPerSec cfg"
proof -
  define x y where "x = (t - bu_at b) / 1000 * rl_refillPerSec cfg" and "y = (t' - t) / 1000 * rl_refillPerSec cfg"
  have "(t' - bu_at b) / 1000 * rl_refillPerSec cfg = x + y"
    by (simp add: x_def y_def flip: distrib_right add_divide_distrib)
  then have l: "levelAt cfg b t' = min (rl_capacity cfg) (bu_tokens b + (x + y))"
    "levelAt cfg b t = min (rl_capacity cfg) (bu_tokens b + x)"
    using assms(2,3) by (simp_all only: levelAt_def x_def max_absorb2 diff_ge_0_iff_ge order_trans)
  have "0 \<le> y" using assms by (simp add: y_def)
  then show ?thesis unfolding l y_def [symmetric] by (simp add: min_def)
qed

lemma levelAt_same: "bu_at b = t \<Longrightarrow> bu_tokens b \<le> rl_capacity cfg \<Longrightarrow> levelAt cfg b t = bu_tokens b"
  by (simp add: levelAt_def)

lemma keep_newest: "n - (n - m) \<le> (m :: nat)"
  by arith

lemma prune_bounded: "length (li_buckets (prune cfg t s)) \<le> rl_maxKeys cfg"
  by (simp add: prune_def Let_def keep_newest)

lemma prune_subset: "set (li_buckets (prune cfg t s)) \<subseteq> set (li_buckets s)"
  by (auto simp: prune_def Let_def dest!: in_set_dropD)

lemma prune_distinct: "distinct (map fst (li_buckets s)) \<Longrightarrow> distinct (map fst (li_buckets (prune cfg t s)))"
  by (simp add: prune_def Let_def drop_map [symmetric] distinct_map_filter)

text \<open>Without an eviction pruning changes no level: only full buckets were dropped.\<close>

lemma prune_level:
  assumes "sound cfg" "distinct (map fst (li_buckets s))" "\<forall>(k, b) \<in> set (li_buckets s). 0 \<le> bu_tokens b"
    and "li_evicted (prune cfg t s) = li_evicted s"
  shows "key_level cfg (prune cfg t s) key t = key_level cfg s key t"
proof (cases "length (li_buckets s) \<le> rl_maxKeys cfg")
  case False
  define live where "live = filter (\<lambda>(k, b). \<not> levelAt cfg b t \<ge> rl_capacity cfg) (li_buckets s)"
  have p: "li_buckets (prune cfg t s) = live"
    using False assms(4) by (simp add: prune_def Let_def live_def [symmetric])
  have d: "distinct (map fst live)" using assms(2) by (simp add: live_def distinct_map_filter)
  show ?thesis
  proof (cases "map_of (li_buckets s) key")
    case None
    then have "map_of live key = None" by (auto simp: live_def map_of_eq_None_iff)
    then show ?thesis using None by (simp add: key_level_def p)
  next
    case (Some b)
    then have m: "(key, b) \<in> set (li_buckets s)" by (rule map_of_SomeD)
    show ?thesis
    proof (cases "levelAt cfg b t \<ge> rl_capacity cfg")
      case True
      have "map_of live key = None"
      proof (rule ccontr)
        assume "map_of live key \<noteq> None"
        then obtain b' where "(key, b') \<in> set live" by (auto dest: map_of_SomeD)
        then have "(key, b') \<in> set (li_buckets s)" "\<not> levelAt cfg b' t \<ge> rl_capacity cfg" by (auto simp: live_def)
        then show False using assms(2) m True by (metis eq_key_imp_eq_value)
      qed
      moreover have "levelAt cfg b t = rl_capacity cfg" using True by (simp add: levelAt_def)
      ultimately show ?thesis using Some by (simp add: key_level_def p)
    next
      case False
      then have "map_of live key = Some b" using m d by (simp add: live_def map_of_eq_Some_iff)
      then show ?thesis using Some by (simp add: key_level_def p)
    qed
  qed
qed (simp add: prune_def)

lemma prune_evicted: "li_evicted s \<le> li_evicted (prune cfg t s)"
  by (simp add: prune_def Let_def)

lemma take_step:
  assumes "sound cfg" "limiter_inv cfg t0 s" "t0 \<le> t" "take_token cfg s k 1 t = (r, s')"
  shows "limiter_inv cfg t s'" and "li_evicted s \<le> li_evicted s'"
    and "ta_allowed r \<longleftrightarrow> 1 \<le> key_level cfg s k t"
    and "li_evicted s' = li_evicted s \<Longrightarrow>
      key_level cfg s' key t = key_level cfg s key t - (if key = k \<and> ta_allowed r then 1 else 0)"
proof -
  define level where "level = key_level cfg s k t"
  define left where "left = (if level \<ge> 1 then level - 1 else level)"
  define s1 where "s1 = s\<lparr>li_buckets := AList.delete k (li_buckets s) @ [(k, \<lparr> bu_tokens = left, bu_at = t \<rparr>)]\<rparr>"
  have b0: "levelAt cfg (case map_of (li_buckets s) k of Some b \<Rightarrow> b | None \<Rightarrow> \<lparr> bu_tokens = rl_capacity cfg, bu_at = t \<rparr>) t = level"
    using assms(1) by (simp add: level_def key_level_def levelAt_def split: option.split)
  have r: "ta_allowed r = (level \<ge> 1)" and s': "s' = prune cfg t s1"
    using assms(4) by (auto simp: take_token_def Let_def b0 left_def s1_def)
  have buckets: "\<forall>(k, b) \<in> set (li_buckets s). 0 \<le> bu_tokens b \<and> bu_tokens b \<le> rl_capacity cfg \<and> bu_at b \<le> t0"
    and dist: "distinct (map fst (li_buckets s))" using assms(2) by (simp_all add: limiter_inv_def)
  have lev: "0 \<le> level \<and> level \<le> rl_capacity cfg"
  proof (cases "map_of (li_buckets s) k")
    case (Some b)
    then have "0 \<le> bu_tokens b" using buckets by (auto dest: map_of_SomeD)
    then show ?thesis using levelAt_bounds [OF assms(1), of b t] Some by (simp add: level_def key_level_def)
  qed (use assms(1) in \<open>simp add: level_def key_level_def\<close>)
  then have left: "0 \<le> left \<and> left \<le> rl_capacity cfg" by (simp add: left_def)
  have d1: "distinct (map fst (li_buckets s1))"
    using wf_map_delete [OF dist, of k] by (auto simp: s1_def delete_keys)
  have b1: "\<forall>(k, b) \<in> set (li_buckets s1). 0 \<le> bu_tokens b \<and> bu_tokens b \<le> rl_capacity cfg \<and> bu_at b \<le> t"
    using buckets left assms(3) set_delete_sub [of k "li_buckets s"] by (fastforce simp: s1_def)
  show "limiter_inv cfg t s'"
    unfolding s' limiter_inv_def using prune_distinct [OF d1] prune_bounded prune_subset [of cfg t s1] b1 by fast
  show "li_evicted s \<le> li_evicted s'" using prune_evicted [of s1 cfg t] by (simp add: s' s1_def)
  show "ta_allowed r \<longleftrightarrow> 1 \<le> key_level cfg s k t" by (simp add: r level_def)
  have k1: "key_level cfg s1 key t = (if key = k then left else key_level cfg s key t)"
    using levelAt_same [of "\<lparr> bu_tokens = left, bu_at = t \<rparr>" t cfg] left
    by (simp add: key_level_def s1_def map_of_append map_add_def delete_conv' split: option.split)
  show "key_level cfg s' key t = key_level cfg s key t - (if key = k \<and> ta_allowed r then 1 else 0)"
    if ev: "li_evicted s' = li_evicted s"
  proof -
    have "key_level cfg s' key t = key_level cfg s1 key t"
      unfolding s' by (rule prune_level [OF assms(1) d1]) (use b1 ev in \<open>auto simp: s' s1_def\<close>)
    then show ?thesis using k1 by (auto simp: r left_def level_def)
  qed
qed

lemma key_level_later:
  assumes "sound cfg" "limiter_inv cfg t s" "t \<le> t'"
  shows "key_level cfg s key t' \<le> key_level cfg s key t + (t' - t) / 1000 * rl_refillPerSec cfg"
proof (cases "map_of (li_buckets s) key")
  case None
  have "0 \<le> (t' - t) / 1000 * rl_refillPerSec cfg" using assms(1,3) by simp
  then show ?thesis using None by (simp add: key_level_def)
next
  case (Some b)
  then have "bu_at b \<le> t" using assms(2) by (auto simp: limiter_inv_def dest!: map_of_SomeD)
  then show ?thesis using Some levelAt_later [OF assms(1) _ assms(3)] by (simp add: key_level_def)
qed

lemma key_level_bounds:
  assumes "sound cfg" "limiter_inv cfg t s"
  shows "0 \<le> key_level cfg s key t' \<and> key_level cfg s key t' \<le> rl_capacity cfg"
proof (cases "map_of (li_buckets s) key")
  case (Some b)
  then have "0 \<le> bu_tokens b" using assms(2) by (auto simp: limiter_inv_def dest!: map_of_SomeD)
  then show ?thesis using levelAt_bounds [OF assms(1)] Some by (simp add: key_level_def)
qed (use assms(1) in \<open>simp add: key_level_def\<close>)

definition allowed_for :: "string \<Rightarrow> (string \<times> rat) list \<Rightarrow> bool list \<Rightarrow> nat" where
  "allowed_for key calls rs = length (filter (\<lambda>((k, t), a). k = key \<and> a) (zip calls rs))"

lemma takes_inv:
  "sound cfg \<Longrightarrow> limiter_inv cfg t0 s \<Longrightarrow> sorted (t0 # map snd calls) \<Longrightarrow> takes cfg s calls = (rs, s') \<Longrightarrow>
     limiter_inv cfg (last (t0 # map snd calls)) s' \<and> li_evicted s \<le> li_evicted s'
     \<and> (li_evicted s' = li_evicted s \<longrightarrow> of_nat (allowed_for key calls rs)
          + key_level cfg s' key (last (t0 # map snd calls))
          \<le> key_level cfg s key t0 + (last (t0 # map snd calls) - t0) / 1000 * rl_refillPerSec cfg)"
proof (induction calls arbitrary: t0 s rs)
  case (Cons c calls)
  obtain k t where c: "c = (k, t)" by fastforce
  obtain r s1 where one: "take_token cfg s k 1 t = (r, s1)" by fastforce
  obtain rs1 where rest: "takes cfg s1 calls = (rs1, s')" "rs = ta_allowed r # rs1"
    using Cons.prems(4) c one by (auto split: prod.splits)
  have t: "t0 \<le> t" "sorted (t # map snd calls)" using Cons.prems(3) c by simp_all
  note step = take_step [OF Cons.prems(1,2) t(1) one]
  define T where "T = last (t # map snd calls)"
  have last: "last (t0 # map snd (c # calls)) = T" by (simp add: c T_def)
  from Cons.IH [OF Cons.prems(1) step(1) t(2) rest(1), folded T_def]
  have ih: "limiter_inv cfg T s'" "li_evicted s1 \<le> li_evicted s'"
    "li_evicted s' = li_evicted s1 \<Longrightarrow> of_nat (allowed_for key calls rs1) + key_level cfg s' key T
      \<le> key_level cfg s1 key t + (T - t) / 1000 * rl_refillPerSec cfg" by auto
  have count: "allowed_for key (c # calls) rs = (if key = k \<and> ta_allowed r then 1 else 0) + allowed_for key calls rs1"
    by (auto simp: allowed_for_def rest(2) c)
  have "of_nat (allowed_for key (c # calls) rs) + key_level cfg s' key T
      \<le> key_level cfg s key t0 + (T - t0) / 1000 * rl_refillPerSec cfg" if ev: "li_evicted s' = li_evicted s"
  proof -
    have "li_evicted s1 = li_evicted s" "li_evicted s' = li_evicted s1" using ev step(2) ih(2) by simp_all
    then have "of_nat (allowed_for key (c # calls) rs) + key_level cfg s' key T
        \<le> key_level cfg s key t + (T - t) / 1000 * rl_refillPerSec cfg"
      using ih(3) step(4) [of key] by (auto simp: count)
    also have "\<dots> \<le> key_level cfg s key t0 + ((t - t0) / 1000 * rl_refillPerSec cfg + (T - t) / 1000 * rl_refillPerSec cfg)"
      using key_level_later [OF Cons.prems(1,2) t(1), of key] by simp
    also have "\<dots> = key_level cfg s key t0 + (T - t0) / 1000 * rl_refillPerSec cfg"
      by (simp flip: distrib_right add_divide_distrib)
    finally show ?thesis .
  qed
  then show ?case using ih(1,2) step(2) unfolding last by simp
qed (auto simp: allowed_for_def)

text \<open>
  The limiter limits. From a fresh table, over any sequence of requests from any keys in the order
  of time, as long as nobody had to be evicted, a key is allowed at most its burst plus what was
  refilled between the first and the last request; and whatever happens the table never holds more
  than its bound of keys.
\<close>

theorem allowed_is_burst_plus_refill:
  assumes "createRateLimiter cfg = Inr s0" and "sorted (t0 # map snd calls)" and "takes cfg s0 calls = (rs, s)"
  shows "length (li_buckets s) \<le> rl_maxKeys cfg
    \<and> (li_evicted s = 0 \<longrightarrow> of_nat (allowed_for key calls rs)
         \<le> rl_capacity cfg + (last (t0 # map snd calls) - t0) / 1000 * rl_refillPerSec cfg)"
proof -
  have s0: "sound cfg" "s0 = \<lparr> li_buckets = [], li_evicted = 0 \<rparr>"
    using assms(1) by (auto simp: createRateLimiter_def split: if_splits)
  have "limiter_inv cfg t0 s0" by (simp add: s0 limiter_inv_def)
  from takes_inv [OF s0(1) this assms(2,3), of key]
  have t: "limiter_inv cfg (last (t0 # map snd calls)) s"
    "li_evicted s = 0 \<longrightarrow> of_nat (allowed_for key calls rs) + key_level cfg s key (last (t0 # map snd calls))
      \<le> rl_capacity cfg + (last (t0 # map snd calls) - t0) / 1000 * rl_refillPerSec cfg"
    by (simp_all add: s0 key_level_def)
  have "0 \<le> key_level cfg s key (last (t0 # map snd calls))" using key_level_bounds [OF s0(1) t(1)] by blast
  then have "li_evicted s = 0 \<longrightarrow> of_nat (allowed_for key calls rs)
      \<le> rl_capacity cfg + (last (t0 # map snd calls) - t0) / 1000 * rl_refillPerSec cfg"
    using t(2) by linarith
  then show ?thesis using t(1) by (simp add: limiter_inv_def)
qed

text \<open>
  The wait a refusal advertises is enough: a key refused its token, that asks for nothing more
  and is not evicted, is allowed one once the advertised seconds have passed.
\<close>

theorem retry_after_is_enough:
  assumes "sound cfg" "1 \<le> rl_capacity cfg" "limiter_inv cfg t0 s" "t0 \<le> t" "take_token cfg s k 1 t = (r, s1)"
    and "\<not> ta_allowed r" "map_of (li_buckets s2) k = map_of (li_buckets s1) k"
    and "t + 1000 * of_int (ta_retryAfterSec r) \<le> t'" and "take_token cfg s2 k 1 t' = (r', s3)"
  shows "0 < ta_retryAfterSec r \<and> ta_allowed r'"
proof (cases "map_of (li_buckets s1) k")
  case None
  then have "levelAt cfg \<lparr> bu_tokens = rl_capacity cfg, bu_at = t' \<rparr> t' = rl_capacity cfg" by (simp add: levelAt_same)
  then have "ta_allowed r'" using None assms(2,7,9) by (auto simp: take_token_def Let_def)
  moreover have "0 < ta_retryAfterSec r" using assms(5,6) by (auto simp: take_token_def Let_def)
  ultimately show ?thesis by blast
next
  case (Some b)
  define level where "level = key_level cfg s k t"
  have b0: "levelAt cfg (case map_of (li_buckets s) k of Some b \<Rightarrow> b | None \<Rightarrow> \<lparr> bu_tokens = rl_capacity cfg, bu_at = t \<rparr>) t = level"
    using assms(1) by (simp add: level_def key_level_def levelAt_def split: option.split)
  have refused: "\<not> 1 \<le> level" "ta_retryAfterSec r = max 1 \<lceil>(1 - level) / rl_refillPerSec cfg\<rceil>"
    using assms(5,6) by (auto simp: take_token_def Let_def b0)
  define s1' where "s1' = s\<lparr>li_buckets := AList.delete k (li_buckets s) @ [(k, \<lparr> bu_tokens = level, bu_at = t \<rparr>)]\<rparr>"
  have s1: "s1 = prune cfg t s1'" using assms(5) refused(1) by (auto simp: take_token_def Let_def b0 s1'_def)
  have "(k, b) \<in> set (li_buckets s1')" using Some prune_subset [of cfg t s1'] by (auto simp: s1 dest: map_of_SomeD)
  moreover have "(k, b) \<notin> set (AList.delete k (li_buckets s))"
  proof
    assume "(k, b) \<in> set (AList.delete k (li_buckets s))"
    then have "k \<in> set (map fst (AList.delete k (li_buckets s)))" by force
    then show False by (simp add: delete_keys del: set_map)
  qed
  ultimately have b: "b = \<lparr> bu_tokens = level, bu_at = t \<rparr>" by (simp add: s1'_def)
  define n :: rat where "n = of_int (ta_retryAfterSec r)"
  have n: "1 \<le> n" "(1 - level) / rl_refillPerSec cfg \<le> n"
    unfolding n_def refused(2) by (simp_all add: le_max_iff_disj) (meson ceiling_le_iff le_of_int_ceiling max.cobounded2 of_int_le_iff order_trans)
  have "1 - level \<le> n * rl_refillPerSec cfg" using n(2) assms(1) by (simp add: pos_divide_le_eq)
  also have "\<dots> \<le> (t' - t) / 1000 * rl_refillPerSec cfg"
    using assms(1,8) by (intro mult_right_mono) (simp_all add: n_def field_simps)
  finally have "1 \<le> level + (t' - t) / 1000 * rl_refillPerSec cfg" by simp
  moreover have "0 \<le> t' - t" using assms(8) n(1) by (simp add: n_def)
  ultimately have "1 \<le> levelAt cfg b t'" using assms(2) by (simp add: levelAt_def b)
  then have "ta_allowed r'" using Some assms(7,9) by (auto simp: take_token_def Let_def)
  then show ?thesis using refused(2) by simp
qed

definition sample_limiter :: limiter_cfg where
  "sample_limiter = \<lparr> rl_capacity = 2, rl_refillPerSec = 1, rl_maxKeys = 3 \<rparr>"

definition sample_table :: "rat \<Rightarrow> limiter" where
  "sample_table tokens = \<lparr> li_buckets = [(''a'', \<lparr> bu_tokens = tokens, bu_at = 0 \<rparr>)], li_evicted = 0 \<rparr>"

lemma sample_takes:
  "take_token sample_limiter \<lparr> li_buckets = [], li_evicted = 0 \<rparr> ''a'' 1 0
     = (\<lparr> ta_allowed = True, ta_limit = 2, ta_remaining = 1, ta_retryAfterSec = 0 \<rparr>, sample_table 1)"
  "take_token sample_limiter (sample_table 1) ''a'' 1 0
     = (\<lparr> ta_allowed = True, ta_limit = 2, ta_remaining = 0, ta_retryAfterSec = 0 \<rparr>, sample_table 0)"
  "take_token sample_limiter (sample_table 0) ''a'' 1 0
     = (\<lparr> ta_allowed = False, ta_limit = 2, ta_remaining = 0, ta_retryAfterSec = 1 \<rparr>, sample_table 0)"
  by (simp_all add: take_token_def Let_def levelAt_def sample_limiter_def sample_table_def prune_def)

lemma allowed_is_burst_plus_refill_witness:
  "allowed_for ''a'' [(''a'', 0), (''a'', 0), (''a'', 0)]
     (fst (takes sample_limiter \<lparr> li_buckets = [], li_evicted = 0 \<rparr> [(''a'', 0), (''a'', 0), (''a'', 0)])) = 2"
proof -
  let ?calls = "[(''a'', 0), (''a'', 0), (''a'', 0)]"
  have run: "takes sample_limiter \<lparr> li_buckets = [], li_evicted = 0 \<rparr> ?calls = ([True, True, False], sample_table 0)"
    by (simp add: sample_takes)
  have create: "createRateLimiter sample_limiter = Inr \<lparr> li_buckets = [], li_evicted = 0 \<rparr>"
    by (simp add: createRateLimiter_def sample_limiter_def)
  have "of_nat (allowed_for ''a'' ?calls [True, True, False]) \<le> (2 :: rat)"
    using allowed_is_burst_plus_refill [OF create _ run, of 0 "''a''"] by (simp add: sample_limiter_def sample_table_def)
  moreover have "allowed_for ''a'' ?calls [True, True, False] = 2" by (simp add: allowed_for_def)
  ultimately show ?thesis by (simp only: run fst_conv)
qed

lemma retry_after_is_enough_witness:
  "ta_allowed (fst (take_token sample_limiter (sample_table 0) ''a'' 1 1000))"
  by (rule retry_after_is_enough [OF _ _ _ _ sample_takes(3) _ _ _ prod.collapse [symmetric], of 0, THEN conjunct2])
     (simp_all add: sample_limiter_def sample_table_def limiter_inv_def)

end
