(* ===== verification/Operator_Power.thy ===== *)
theory Operator_Power
  imports Canary_Tracker
begin

text \<open>
  The dilution signal of the canary, \<open>packages/canary/src/signals/operator-power.mjs\<close>: an operator's
  share of each book against the gate that reads it, the two bars, the headroom left to dilute and
  the top-up that would rebuild it. The gates and the deposit of \<open>VaultCore.sol\<close> and \<open>Governance.sol\<close>
  are stated beside it. A read of the chain answers a value or an error; the sentences are tags.
\<close>

section \<open>Levels and legs\<close>

datatype power_level = LvOk | LvWarn | LvAlert

fun RANK :: "power_level \<Rightarrow> nat" where
  "RANK LvOk = 0"
| "RANK LvWarn = 1"
| "RANK LvAlert = 2"

lemma RANK_inject: "RANK a = RANK b \<Longrightarrow> a = b"
  by (cases a; cases b) simp_all

instantiation power_level :: linorder
begin

definition less_eq_power_level :: "power_level \<Rightarrow> power_level \<Rightarrow> bool" where
  "less_eq_power_level a b \<longleftrightarrow> RANK a \<le> RANK b"

definition less_power_level :: "power_level \<Rightarrow> power_level \<Rightarrow> bool" where
  "less_power_level a b \<longleftrightarrow> RANK a < RANK b"

instance
  by standard (auto simp: less_eq_power_level_def less_power_level_def intro: RANK_inject)

end

definition SIGNAL :: string where "SIGNAL = ''operator-power''"
definition BPS :: int where "BPS = 10000"
definition EARLY_WARNING_KEY :: string where "EARLY_WARNING_KEY = ''early-warning''"
definition CRITICAL_KEY :: string where "CRITICAL_KEY = ''critical''"

text \<open>\<open>isZero\<close> of a string: forty zeros behind the prefix, in either case.\<close>

definition isZero :: "string \<Rightarrow> bool" where
  "isZero a \<longleftrightarrow> a = ''0x'' @ replicate 40 CHR ''0'' \<or> a = ''0X'' @ replicate 40 CHR ''0''"

definition ceilDiv :: "int \<Rightarrow> int \<Rightarrow> int" where
  "ceilDiv a b = bdiv (a + b - 1) b"

datatype book = VotingEligible | RawBook

record threshold =
  th_name :: string
  th_bps :: int
  th_measuredBps :: int
  th_book :: book

record stake =
  sk_opShares :: int
  sk_totalShares :: int
  sk_eligibleOwn :: int
  sk_eligibleTotal :: int
  sk_navWad :: int
  sk_usdcScalar :: int
  sk_capped :: bool
  sk_capacityHeadroomUsdc :: "int option"
  sk_minDepositUsdc :: int
  sk_navAvailable :: bool

record leg =
  lg_name :: string
  lg_bps :: int
  lg_book :: book
  lg_measuredBps :: int
  lg_warnAtBps :: int
  lg_alertAtBps :: int
  lg_level :: power_level
  lg_marginBps :: int
  lg_depositHeadroomUsdc :: int
  lg_topUpDeficitUsdc :: int
  lg_requiredTopUpUsdc :: int
  lg_noTopUpPath :: bool

definition dilutionHeadroomUsdc :: "int \<Rightarrow> int \<Rightarrow> int \<Rightarrow> int \<Rightarrow> int \<Rightarrow> int \<Rightarrow> int" where
  "dilutionHeadroomUsdc own denom thresholdBps navWad usdcScalar rawTotalShares =
     (if thresholdBps \<le> 0 \<or> denom = 0 \<or> rawTotalShares = 0 \<or> usdcScalar = 0 \<or> navWad = 0 then 0
      else let sharesAtThreshold = bdiv (own * BPS) thresholdBps in
        if sharesAtThreshold \<le> denom then 0
        else let neededMinted = sharesAtThreshold - denom in
          bdiv (neededMinted * navWad) (usdcScalar * rawTotalShares))"

definition topUpDeficitUsdc :: "int \<Rightarrow> int \<Rightarrow> int \<Rightarrow> int \<Rightarrow> int \<Rightarrow> int \<Rightarrow> int" where
  "topUpDeficitUsdc own denom thresholdBps navWad usdcScalar rawTotalShares =
     (if thresholdBps \<le> 0 \<or> rawTotalShares = 0 \<or> usdcScalar = 0 \<or> navWad = 0 then 0
      else if own * BPS \<ge> thresholdBps * denom then 0
      else if thresholdBps \<ge> BPS then - 1
      else let neededMinted = ceilDiv (thresholdBps * denom - own * BPS) (BPS - thresholdBps) in
        ceilDiv (neededMinted * navWad) (usdcScalar * rawTotalShares))"

definition evaluateLeg :: "threshold \<Rightarrow> stake \<Rightarrow> leg" where
  "evaluateLeg t s =
     (let eligible = (th_book t = VotingEligible);
          own = (if eligible then sk_eligibleOwn s else sk_opShares s);
          denom = (if eligible then sk_eligibleTotal s else sk_totalShares s);
          warnAt = bdiv (th_bps t * 15) 10;
          alertAt = bdiv (th_bps t * 11) 10;
          level = (if th_measuredBps t \<le> alertAt then LvAlert else if th_measuredBps t \<le> warnAt then LvWarn else LvOk);
          headroomUsdc = dilutionHeadroomUsdc own denom (th_bps t) (sk_navWad s) (sk_usdcScalar s) (sk_totalShares s);
          deficitUsdc = topUpDeficitUsdc own denom (th_bps t) (sk_navWad s) (sk_usdcScalar s) (sk_totalShares s);
          unreachable = deficitUsdc < 0;
          requiredUsdc = (if unreachable then - 1
            else if deficitUsdc > sk_minDepositUsdc s then deficitUsdc else sk_minDepositUsdc s);
          noTopUpPath = (sk_navAvailable s \<and> (unreachable \<or> sk_capped s \<and>
            (case sk_capacityHeadroomUsdc s of None \<Rightarrow> False | Some h \<Rightarrow> requiredUsdc > h)))
      in \<lparr> lg_name = th_name t, lg_bps = th_bps t, lg_book = th_book t, lg_measuredBps = th_measuredBps t,
           lg_warnAtBps = warnAt, lg_alertAtBps = alertAt, lg_level = level,
           lg_marginBps = th_measuredBps t - th_bps t, lg_depositHeadroomUsdc = headroomUsdc,
           lg_topUpDeficitUsdc = deficitUsdc, lg_requiredTopUpUsdc = requiredUsdc,
           lg_noTopUpPath = noTopUpPath \<rparr>)"

definition tighter :: "leg \<Rightarrow> leg \<Rightarrow> leg" where
  "tighter best l =
     (let dm = lg_marginBps l - lg_marginBps best in
      if dm \<noteq> 0 then (if dm < 0 then l else best) else if lg_bps l > lg_bps best then l else best)"

definition pickWorstLeg :: "leg list \<Rightarrow> power_level \<Rightarrow> leg" where
  "pickWorstLeg legs worst =
     (let atWorst = filter (\<lambda>l. lg_level l = worst) legs;
          pool = (if atWorst \<noteq> [] then atWorst else legs)
      in foldl tighter (hd pool) (tl pool))"

definition worst_level :: "leg list \<Rightarrow> power_level" where
  "worst_level legs = foldl (\<lambda>w l. if RANK (lg_level l) > RANK w then lg_level l else w) LvOk legs"

section \<open>The reads\<close>

record 'e power_reader =
  po_totalShares :: "'e + int"
  po_sharesOf :: "string \<Rightarrow> 'e + int"
  po_nonCreatorMemberCount :: "'e + int"
  po_CREATOR_MIN_STAKE_BPS :: "'e + int"
  po_votingEligibleShares :: "string \<Rightarrow> 'e + int"
  po_totalVotingEligibleShares :: "'e + int"
  po_governance :: "'e + string"
  po_capacityCapUsdc :: "'e + int"
  po_minDepositUsdc :: "'e + int"
  po_navWad :: "'e + int"
  po_usdcScalar :: "'e + int"
  po_totalPendingUsdc :: "'e + int"
  po_vaultRegistered :: "string \<Rightarrow> string \<Rightarrow> 'e + bool"
  po_proposalThresholdBps :: "string \<Rightarrow> string \<Rightarrow> 'e + int option"

record share_book =
  sb_totalShares :: int
  sb_opShares :: int
  sb_nonCreatorMemberCount :: int
  sb_creatorMinStakeBps :: int
  sb_eligibleOwn :: int
  sb_eligibleTotal :: int

definition required_reads :: "'e power_reader \<Rightarrow> string \<Rightarrow> (string \<times> ('e + int)) list" where
  "required_reads r operator =
     [(''totalShares'', po_totalShares r), (''sharesOf'', po_sharesOf r operator),
      (''nonCreatorMemberCount'', po_nonCreatorMemberCount r),
      (''CREATOR_MIN_STAKE_BPS'', po_CREATOR_MIN_STAKE_BPS r),
      (''votingEligibleShares'', po_votingEligibleShares r operator),
      (''totalVotingEligibleShares'', po_totalVotingEligibleShares r)]"

definition read_share_book :: "'e power_reader \<Rightarrow> string \<Rightarrow> 'e + share_book" where
  "read_share_book r operator =
     bindE (po_totalShares r) (\<lambda>ts. bindE (po_sharesOf r operator) (\<lambda>own.
     bindE (po_nonCreatorMemberCount r) (\<lambda>nc. bindE (po_CREATOR_MIN_STAKE_BPS r) (\<lambda>mn.
     bindE (po_votingEligibleShares r operator) (\<lambda>eo. bindE (po_totalVotingEligibleShares r) (\<lambda>et.
       Inr \<lparr> sb_totalShares = ts, sb_opShares = own, sb_nonCreatorMemberCount = nc,
             sb_creatorMinStakeBps = mn, sb_eligibleOwn = eo, sb_eligibleTotal = et \<rparr>))))))"

record nav_context =
  nc_capacityCapUsdc :: int
  nc_minDepositUsdc :: int
  nc_navWad :: int
  nc_usdcScalar :: int
  nc_totalPendingUsdc :: int

definition read_nav_context :: "'e power_reader \<Rightarrow> 'e + nav_context" where
  "read_nav_context r =
     bindE (po_capacityCapUsdc r) (\<lambda>cap. bindE (po_minDepositUsdc r) (\<lambda>mn. bindE (po_navWad r) (\<lambda>nav.
     bindE (po_usdcScalar r) (\<lambda>sc. bindE (po_totalPendingUsdc r) (\<lambda>pend.
       Inr \<lparr> nc_capacityCapUsdc = cap, nc_minDepositUsdc = mn, nc_navWad = nav, nc_usdcScalar = sc,
             nc_totalPendingUsdc = pend \<rparr>)))))"

definition no_nav :: nav_context where
  "no_nav = \<lparr> nc_capacityCapUsdc = 0, nc_minDepositUsdc = 0, nc_navWad = 0, nc_usdcScalar = 0,
              nc_totalPendingUsdc = 0 \<rparr>"

definition navUsdc :: "nav_context \<Rightarrow> int" where
  "navUsdc n = (if nc_usdcScalar n > 0 then bdiv (nc_navWad n) (nc_usdcScalar n) else 0)"

definition committedUsdc :: "nav_context \<Rightarrow> int" where
  "committedUsdc n = navUsdc n + nc_totalPendingUsdc n"

definition stake_of :: "share_book \<Rightarrow> bool \<Rightarrow> nav_context \<Rightarrow> stake" where
  "stake_of b navAvailable n =
     (let capped = (navAvailable \<and> nc_capacityCapUsdc n \<noteq> 0) in
      \<lparr> sk_opShares = sb_opShares b, sk_totalShares = sb_totalShares b, sk_eligibleOwn = sb_eligibleOwn b,
        sk_eligibleTotal = sb_eligibleTotal b, sk_navWad = nc_navWad n, sk_usdcScalar = nc_usdcScalar n,
        sk_capped = capped,
        sk_capacityHeadroomUsdc = (if capped then Some (if nc_capacityCapUsdc n > committedUsdc n
            then nc_capacityCapUsdc n - committedUsdc n else 0) else None),
        sk_minDepositUsdc = nc_minDepositUsdc n, sk_navAvailable = navAvailable \<rparr>)"

text \<open>\<open>governanceLeg\<close>: the threshold of \<open>propose\<close>, or the note that says why there is none.\<close>

definition governanceLeg :: "'e power_reader \<Rightarrow> string \<Rightarrow> string + int" where
  "governanceLeg r vault = (case po_governance r of
      Inl e \<Rightarrow> Inl ''governance unreadable or zero''
    | Inr g \<Rightarrow>
        if isZero g then Inl ''governance unreadable or zero''
        else (case (po_vaultRegistered r g vault, po_proposalThresholdBps r g vault) of
            (Inr reg, Inr cfg) \<Rightarrow>
              if \<not> reg then Inl ''not registered''
              else let thr = (case cfg of None \<Rightarrow> 0 | Some n \<Rightarrow> n) in
                if thr = 0 then Inl ''proposalThresholdBps is 0'' else Inr thr
          | _ \<Rightarrow> Inl ''governance views unreadable''))"

definition operatorBps :: "share_book \<Rightarrow> int" where
  "operatorBps b = bdiv (sb_opShares b * BPS) (sb_totalShares b)"

definition eligibleBps :: "share_book \<Rightarrow> int" where
  "eligibleBps b = (if sb_eligibleTotal b = 0 then 0 else bdiv (sb_eligibleOwn b * BPS) (sb_eligibleTotal b))"

definition thresholds :: "'e power_reader \<Rightarrow> string \<Rightarrow> share_book \<Rightarrow> threshold list" where
  "thresholds r vault b =
     (case governanceLeg r vault of
        Inl note \<Rightarrow> []
      | Inr thr \<Rightarrow> [\<lparr> th_name = ''proposalThresholdBps'', th_bps = thr, th_measuredBps = eligibleBps b,
                     th_book = VotingEligible \<rparr>])
     @ (if sb_nonCreatorMemberCount b > 0 \<and> sb_creatorMinStakeBps b > 0
        then [\<lparr> th_name = ''creatorMinStakeBps'', th_bps = sb_creatorMinStakeBps b,
               th_measuredBps = operatorBps b, th_book = RawBook \<rparr>] else [])"

section \<open>The check\<close>

record measured_power =
  mp_level :: power_level
  mp_operatorBps :: int
  mp_eligibleBps :: int
  mp_book :: share_book
  mp_navAvailable :: bool
  mp_navUsdc :: int
  mp_nav :: nav_context
  mp_capacityHeadroomUsdc :: "int option"
  mp_atCapacity :: bool
  mp_noTopUpPath :: bool
  mp_thresholds :: "leg list"
  mp_thresholdsDiffer :: bool
  mp_govLegNote :: "string option"

datatype power_detail =
    Unreadable "string list" string
  | NoShares string
  | NoGate int int "string option" string
  | Measured measured_power string

definition bothKeys :: "(string \<Rightarrow> 'a) \<Rightarrow> 'a list" where
  "bothKeys mk = [mk EARLY_WARNING_KEY, mk CRITICAL_KEY]"

fun join_slash :: "string list \<Rightarrow> string" where
  "join_slash [] = []"
| "join_slash [w] = w"
| "join_slash (w # ws) = w @ '' / '' @ join_slash ws"

definition headroomClause :: "measured_power \<Rightarrow> leg \<Rightarrow> string" where
  "headroomClause d l =
     (if \<not> mp_navAvailable d then ''NAV unreadable''
      else if lg_depositHeadroomUsdc l \<noteq> 0 then ''headroom '' @ show_int (lg_depositHeadroomUsdc l)
      else ''no deposit headroom remains'')"

definition capClause :: "measured_power \<Rightarrow> leg \<Rightarrow> string" where
  "capClause d l =
     (if lg_noTopUpPath l
      then '' no top-up path: needs '' @ show_int (lg_topUpDeficitUsdc l) @ (if mp_atCapacity d then '' at cap'' else '' before cap'')
      else [])"

definition barResult ::
  "string \<Rightarrow> bool \<Rightarrow> power_level \<Rightarrow> leg \<Rightarrow> leg list \<Rightarrow> string \<Rightarrow> measured_power \<Rightarrow> power_detail sig" where
  "barResult bar breached worst worstLeg legs vault d =
     (let measured = Some (bpsToPct (lg_measuredBps worstLeg)) in
      if \<not> breached
      then build_sig StOk SIGNAL vault (Some bar)
             (if worst = LvOk then ''operator power healthy'' else ''operator power healthy, early warning breached'')
             measured (Some (join_slash (map (\<lambda>l. bpsToPct (lg_bps l)) legs))) (Measured d bar)
      else build_sig StAlert SIGNAL vault (Some bar)
             ((if worst = LvAlert then ''OPERATOR POWER CRITICAL: '' else ''OPERATOR POWER WARNING: '')
                @ headroomClause d worstLeg @ (if mp_thresholdsDiffer d then '' thresholds differ'' else [])
                @ capClause d worstLeg)
             measured (Some (bpsToPct (lg_bps worstLeg))) (Measured d bar))"

definition thresholds_differ :: "threshold list \<Rightarrow> bool" where
  "thresholds_differ ts = (case ts of [a, b] \<Rightarrow> th_bps a \<noteq> th_bps b | _ \<Rightarrow> False)"

definition measure_power :: "'e power_reader \<Rightarrow> string \<Rightarrow> share_book \<Rightarrow> power_detail sig list" where
  "measure_power r vault b =
     (let (navAvailable, n) = (case read_nav_context r of Inl e \<Rightarrow> (False, no_nav) | Inr n \<Rightarrow> (True, n));
          s = stake_of b navAvailable n;
          atCapacity = (sk_capped s \<and> committedUsdc n \<ge> nc_capacityCapUsdc n);
          note = (case governanceLeg r vault of Inl m \<Rightarrow> Some m | Inr thr \<Rightarrow> None);
          ts = thresholds r vault b
      in if ts = []
         then bothKeys (\<lambda>key. build_sig StSkipped SIGNAL vault (Some key) ''no binding threshold'' None None
                (NoGate (operatorBps b) (eligibleBps b) note key))
         else let legs = map (\<lambda>t. evaluateLeg t s) ts;
                  worst = worst_level legs;
                  worstLeg = pickWorstLeg legs worst;
                  d = \<lparr> mp_level = worst, mp_operatorBps = operatorBps b, mp_eligibleBps = eligibleBps b,
                        mp_book = b, mp_navAvailable = navAvailable, mp_navUsdc = navUsdc n, mp_nav = n,
                        mp_capacityHeadroomUsdc = sk_capacityHeadroomUsdc s, mp_atCapacity = atCapacity,
                        mp_noTopUpPath = lg_noTopUpPath worstLeg, mp_thresholds = legs,
                        mp_thresholdsDiffer = thresholds_differ ts, mp_govLegNote = note \<rparr>
           in [barResult EARLY_WARNING_KEY (RANK worst \<ge> RANK LvWarn) worst worstLeg legs vault d,
               barResult CRITICAL_KEY (worst = LvAlert) worst worstLeg legs vault d])"

definition checkOperatorPower :: "'e power_reader \<Rightarrow> string \<Rightarrow> string \<Rightarrow> power_detail sig list" where
  "checkOperatorPower r vault operator = (case read_share_book r operator of
      Inl e \<Rightarrow> bothKeys (\<lambda>key. detectorBroken SIGNAL vault (Some key) ''OPERATOR POWER DETECTOR BLIND''
                 (Unreadable (map fst (filter (\<lambda>(_, v). isl v) (required_reads r operator))) key))
    | Inr b \<Rightarrow>
        if sb_totalShares b = 0
        then bothKeys (\<lambda>key. build_sig StSkipped SIGNAL vault (Some key) ''totalShares is 0'' None None (NoShares key))
        else measure_power r vault b)"

section \<open>Both keys, on every path\<close>

lemma bothKeys_map [simp]: "map f (bothKeys mk) = [f (mk EARLY_WARNING_KEY), f (mk CRITICAL_KEY)]"
  by (simp add: bothKeys_def)

lemma power_keys [simp]: "EARLY_WARNING_KEY \<noteq> CRITICAL_KEY" "CRITICAL_KEY \<noteq> EARLY_WARNING_KEY"
    "EARLY_WARNING_KEY \<noteq> []" "CRITICAL_KEY \<noteq> []"
  by (simp_all add: EARLY_WARNING_KEY_def CRITICAL_KEY_def)

lemma barResult_shape [simp]:
  "sg_status (barResult bar br w wl ls vault d) = (if br then StAlert else StOk)"
  "sg_id (barResult bar br w wl ls vault d) = signalId SIGNAL vault (Some bar)"
  "sg_key (barResult bar br w wl ls vault d) = Some bar"
  "sg_minConsecutive (barResult bar br w wl ls vault d) = None"
  "sg_notApplicable (barResult bar br w wl ls vault d) = False"
  "sg_detectorBroken (barResult bar br w wl ls vault d) = False"
  by (simp_all add: barResult_def build_sig_def Let_def)

definition power_id :: "string \<Rightarrow> string \<Rightarrow> string" where
  "power_id vault key = signalId SIGNAL vault (Some key)"

lemma checkOperatorPower_ids:
  "map sg_id (checkOperatorPower r vault operator) = [power_id vault EARLY_WARNING_KEY, power_id vault CRITICAL_KEY]"
  by (simp add: checkOperatorPower_def measure_power_def power_id_def detectorBroken_def build_sig_def Let_def
      split: sum.split prod.split)

lemma checkOperatorPower_damping:
  "x \<in> set (checkOperatorPower r vault operator) \<Longrightarrow> needed x = 1 \<and> \<not> sg_notApplicable x"
  by (auto simp: checkOperatorPower_def measure_power_def bothKeys_def detectorBroken_def build_sig_def Let_def
      needed_def split: sum.splits prod.splits if_splits)

lemma power_ids_differ [simp]: "power_id v EARLY_WARNING_KEY \<noteq> power_id v CRITICAL_KEY"
    "power_id v CRITICAL_KEY \<noteq> power_id v EARLY_WARNING_KEY"
  by (simp_all add: power_id_def signalId_def EARLY_WARNING_KEY_def CRITICAL_KEY_def)

section \<open>The levels\<close>

lemma worst_level_foldl:
  "foldl (\<lambda>w l. if RANK (lg_level l) > RANK w then lg_level l else w) w legs = Max (insert w (lg_level ` set legs))"
proof (induction legs arbitrary: w)
  case (Cons l ls)
  have m: "(if RANK (lg_level l) > RANK w then lg_level l else w) = max w (lg_level l)"
    using RANK_inject [of w "lg_level l"] by (auto simp: max_def less_eq_power_level_def)
  show ?case unfolding foldl_Cons m Cons.IH
    by (cases "ls = []") (simp_all add: max.assoc insert_commute)
qed simp

lemma worst_level_Max: "worst_level legs = Max (insert LvOk (lg_level ` set legs))"
  unfolding worst_level_def by (rule worst_level_foldl)

lemma level_bot [simp]: "LvOk \<le> l" and level_top [simp]: "l \<le> LvAlert"
  by (cases l; simp add: less_eq_power_level_def)+

lemma worst_level_ge: "l \<in> set legs \<Longrightarrow> lg_level l \<le> worst_level legs"
  by (simp add: worst_level_Max)

lemma worst_level_alert: "worst_level legs = LvAlert \<longleftrightarrow> (\<exists>l \<in> set legs. lg_level l = LvAlert)"
proof
  assume "worst_level legs = LvAlert"
  then have "LvAlert \<in> insert LvOk (lg_level ` set legs)"
    using Max_in [of "insert LvOk (lg_level ` set legs)"] by (simp add: worst_level_Max)
  then show "\<exists>l \<in> set legs. lg_level l = LvAlert" by (auto intro: sym)
next
  assume "\<exists>l \<in> set legs. lg_level l = LvAlert"
  then obtain l where "l \<in> set legs" "lg_level l = LvAlert" by blast
  then have "LvAlert \<le> worst_level legs" using worst_level_ge [of l legs] by simp
  then show "worst_level legs = LvAlert" by (simp add: antisym)
qed

lemma worst_level_ok: "worst_level legs = LvOk \<longleftrightarrow> (\<forall>l \<in> set legs. lg_level l = LvOk)"
proof
  assume "worst_level legs = LvOk"
  then show "\<forall>l \<in> set legs. lg_level l = LvOk"
    using worst_level_ge [of _ legs] by (metis antisym level_bot)
next
  assume "\<forall>l \<in> set legs. lg_level l = LvOk"
  then have one: "insert LvOk (lg_level ` set legs) = {LvOk}" by auto
  show "worst_level legs = LvOk" unfolding worst_level_Max one by simp
qed

lemma RANK_warn [simp]: "Suc 0 \<le> RANK w \<longleftrightarrow> w \<noteq> LvOk"
  by (cases w) simp_all

lemma tighter_margin: "lg_marginBps (tighter a b) = min (lg_marginBps a) (lg_marginBps b)"
  by (auto simp: tighter_def Let_def)

lemma foldl_tighter:
  "foldl tighter a ls \<in> insert a (set ls) \<and> lg_marginBps (foldl tighter a ls) = Min (lg_marginBps ` insert a (set ls))"
proof (induction ls arbitrary: a)
  case (Cons l ls)
  have "tighter a l = a \<or> tighter a l = l" by (auto simp: tighter_def Let_def)
  moreover have "Min (lg_marginBps ` insert (tighter a l) (set ls)) = Min (lg_marginBps ` insert a (set (l # ls)))"
    by (cases "ls = []") (simp_all add: tighter_margin min.assoc)
  ultimately show ?case using Cons.IH [of "tighter a l"] by auto
qed simp

text \<open>The reported leg is at the worst level, and none at that level has a smaller margin.\<close>

lemma pickWorstLeg_least:
  assumes "legs \<noteq> []"
  shows "pickWorstLeg legs (worst_level legs) \<in> set legs
    \<and> lg_level (pickWorstLeg legs (worst_level legs)) = worst_level legs
    \<and> (\<forall>l \<in> set legs. lg_level l = worst_level legs
         \<longrightarrow> lg_marginBps (pickWorstLeg legs (worst_level legs)) \<le> lg_marginBps l)"
proof -
  let ?at = "filter (\<lambda>l. lg_level l = worst_level legs) legs"
  have "?at \<noteq> []"
  proof (cases "worst_level legs = LvOk")
    case True
    have "lg_level (hd legs) = LvOk" using worst_level_ge [of "hd legs" legs] assms True by (simp add: antisym)
    then show ?thesis using assms True by (auto simp: filter_empty_conv intro!: bexI [of _ "hd legs"])
  next
    case False
    then have "worst_level legs \<in> lg_level ` set legs"
      using Max_in [of "insert LvOk (lg_level ` set legs)"] by (simp add: worst_level_Max)
    then show ?thesis by (auto simp: filter_empty_conv)
  qed
  then obtain a ls where at: "?at = a # ls" by (cases ?at) auto
  have p: "pickWorstLeg legs (worst_level legs) = foldl tighter a ls" unfolding pickWorstLeg_def Let_def at by simp
  have s: "insert a (set ls) = {l \<in> set legs. lg_level l = worst_level legs}" using at by (metis list.simps(15) set_filter)
  have "foldl tighter a ls \<in> {l \<in> set legs. lg_level l = worst_level legs}"
    "lg_marginBps (foldl tighter a ls) = Min (lg_marginBps ` {l \<in> set legs. lg_level l = worst_level legs})"
    using foldl_tighter [of a ls] unfolding s by blast+
  then show ?thesis unfolding p by (auto intro: Min_le)
qed

definition gate_level :: "threshold \<Rightarrow> power_level" where
  "gate_level t =
     (if th_measuredBps t \<le> bdiv (th_bps t * 11) 10 then LvAlert
      else if th_measuredBps t \<le> bdiv (th_bps t * 15) 10 then LvWarn else LvOk)"

lemma evaluateLeg_level [simp]: "lg_level (evaluateLeg t s) = gate_level t"
  by (simp add: evaluateLeg_def gate_level_def Let_def)

lemma measure_power_statuses:
  assumes "thresholds r vault b \<noteq> []"
  shows "map (\<lambda>s. (sg_key s, sg_status s)) (measure_power r vault b) =
      [(Some EARLY_WARNING_KEY, if \<exists>t \<in> set (thresholds r vault b). gate_level t \<noteq> LvOk then StAlert else StOk),
       (Some CRITICAL_KEY, if \<exists>t \<in> set (thresholds r vault b). gate_level t = LvAlert then StAlert else StOk)]"
proof -
  obtain av n where nv: "(case read_nav_context r of Inl e \<Rightarrow> (False, no_nav) | Inr n \<Rightarrow> (True, n)) = (av, n)"
    by fastforce
  define legs where "legs = map (\<lambda>t. evaluateLeg t (stake_of b av n)) (thresholds r vault b)"
  have "(RANK (worst_level legs) \<ge> RANK LvWarn) = (\<exists>t \<in> set (thresholds r vault b). gate_level t \<noteq> LvOk)"
    by (simp add: worst_level_ok legs_def)
  moreover have "(worst_level legs = LvAlert) = (\<exists>t \<in> set (thresholds r vault b). gate_level t = LvAlert)"
    by (simp add: worst_level_alert legs_def)
  ultimately show ?thesis
    using assms by (simp add: measure_power_def nv Let_def legs_def [symmetric])
qed

section \<open>The gates of the contracts\<close>

text \<open>The stake tests of \<open>Governance.propose\<close> and of \<open>VaultCore._checkCreatorGate\<close> for a burn.\<close>

definition sol_propose_stake_ok :: "int \<Rightarrow> int \<Rightarrow> int \<Rightarrow> bool" where
  "sol_propose_stake_ok own tot thr \<longleftrightarrow> own > 0 \<and> own * 10000 \<ge> thr * tot"

definition sol_exit_gate_ok :: "int \<Rightarrow> int \<Rightarrow> int \<Rightarrow> int \<Rightarrow> bool" where
  "sol_exit_gate_ok own tot minBps burn \<longleftrightarrow> (own - burn) * 10000 \<ge> minBps * (tot - burn)"

lemma alert_bar: "0 \<le> thr \<Longrightarrow> m \<le> thr \<Longrightarrow> m \<le> bdiv (thr * 11) 10" for thr :: int
  by simp

lemma refused_fraction:
  assumes "0 \<le> own" "0 \<le> tot" "0 < thr" "\<not> sol_propose_stake_ok own tot thr"
  shows "(if tot = 0 then 0 else bdiv (own * BPS) tot) \<le> thr"
proof (cases "tot = 0")
  case False
  have "own * 10000 \<le> thr * tot" using assms mult_nonneg_nonneg [of thr tot] by (auto simp: sol_propose_stake_ok_def)
  then have "own * 10000 div tot \<le> thr * tot div tot" using assms False by (intro zdiv_mono1) auto
  then show ?thesis using assms False by (simp add: BPS_def)
qed (use assms in simp)

lemma frozen_fraction:
  assumes "0 \<le> own" "10000 \<le> tot" "0 < minBps" "\<not> sol_exit_gate_ok own tot minBps 1"
  shows "bdiv (own * BPS) tot \<le> minBps"
proof -
  have "own * 10000 \<le> (tot - 1) + minBps * tot" using assms by (simp add: sol_exit_gate_ok_def algebra_simps)
  then have "own * 10000 div tot \<le> ((tot - 1) + minBps * tot) div tot" using assms by (intro zdiv_mono1) auto
  also have "\<dots> = minBps" using assms by (simp add: div_pos_pos_trivial)
  finally show ?thesis using assms by (simp add: BPS_def)
qed

definition share_book_wf :: "share_book \<Rightarrow> bool" where
  "share_book_wf b \<longleftrightarrow> 10000 \<le> sb_totalShares b \<and> 0 \<le> sb_opShares b \<and> 0 \<le> sb_eligibleOwn b \<and> 0 \<le> sb_eligibleTotal b"

lemma gate_level_alertI: "0 < th_bps t \<Longrightarrow> th_measuredBps t \<le> th_bps t \<Longrightarrow> gate_level t = LvAlert"
  using alert_bar [of "th_bps t" "th_measuredBps t"] by (simp add: gate_level_def)

lemma measure_power_alerts:
  assumes "t \<in> set (thresholds r vault b)" "gate_level t = LvAlert"
  shows "map (\<lambda>s. (sg_key s, sg_status s)) (measure_power r vault b)
      = [(Some EARLY_WARNING_KEY, StAlert), (Some CRITICAL_KEY, StAlert)]"
proof -
  have "\<exists>t \<in> set (thresholds r vault b). gate_level t \<noteq> LvOk" "\<exists>t \<in> set (thresholds r vault b). gate_level t = LvAlert"
    "thresholds r vault b \<noteq> []" using assms by force+
  then show ?thesis by (simp add: measure_power_statuses)
qed


section \<open>Rebuilding the margin\<close>

text \<open>\<open>_mintShares\<close> and \<open>_deposit\<close> for an amount that arrives whole, at a NAV that can be read.\<close>

definition sol_minted :: "int \<Rightarrow> int \<Rightarrow> int \<Rightarrow> int \<Rightarrow> int" where
  "sol_minted navWad usdcScalar ts amountUsdc = amountUsdc * usdcScalar * ts div navWad"

definition sol_deposit_ok :: "nav_context \<Rightarrow> int \<Rightarrow> int \<Rightarrow> bool" where
  "sol_deposit_ok n ts amountUsdc \<longleftrightarrow>
     amountUsdc > 0 \<and> amountUsdc \<ge> nc_minDepositUsdc n
     \<and> (nc_capacityCapUsdc n \<noteq> 0 \<longrightarrow>
          nc_navWad n div nc_usdcScalar n + nc_totalPendingUsdc n + amountUsdc \<le> nc_capacityCapUsdc n)
     \<and> sol_minted (nc_navWad n) (nc_usdcScalar n) ts amountUsdc > 0"

definition own_of :: "share_book \<Rightarrow> book \<Rightarrow> int" where
  "own_of b k = (if k = VotingEligible then sb_eligibleOwn b else sb_opShares b)"

definition denom_of :: "share_book \<Rightarrow> book \<Rightarrow> int" where
  "denom_of b k = (if k = VotingEligible then sb_eligibleTotal b else sb_totalShares b)"

text \<open>The gate passes once the operator's own deposit of \<open>a\<close> has minted.\<close>

definition restores :: "share_book \<Rightarrow> book \<Rightarrow> int \<Rightarrow> nav_context \<Rightarrow> int \<Rightarrow> bool" where
  "restores b k thr n a \<longleftrightarrow>
     (let m = sol_minted (nc_navWad n) (nc_usdcScalar n) (sb_totalShares b) a in
      (own_of b k + m) * BPS \<ge> thr * (denom_of b k + m))"

lemma ceilDiv_le: "0 \<le> a \<Longrightarrow> 0 < b \<Longrightarrow> ceilDiv a b \<le> x \<longleftrightarrow> a \<le> x * b"
  using le_zdiv_iff [of b "x + 1" "a + b - 1"] by (auto simp: ceilDiv_def algebra_simps)

lemma ceilDiv_pos: "0 < a \<Longrightarrow> 0 < b \<Longrightarrow> 0 < ceilDiv a b"
  using ceilDiv_le [of a b 0] by auto

definition below_gate :: "share_book \<Rightarrow> nav_context \<Rightarrow> book \<Rightarrow> int \<Rightarrow> bool" where
  "below_gate b n k thr \<longleftrightarrow> 0 < sb_totalShares b \<and> 0 < nc_navWad n \<and> 0 < nc_usdcScalar n \<and> 0 < thr
     \<and> own_of b k * BPS < thr * denom_of b k"

definition deficit_of :: "share_book \<Rightarrow> nav_context \<Rightarrow> book \<Rightarrow> int \<Rightarrow> int" where
  "deficit_of b n k thr =
     topUpDeficitUsdc (own_of b k) (denom_of b k) thr (nc_navWad n) (nc_usdcScalar n) (sb_totalShares b)"

lemma sol_minted_nonneg: "0 \<le> sol_minted navWad sc ts a" if "0 < navWad" "0 < sc" "0 < ts" "0 \<le> a"
  using that by (simp add: sol_minted_def le_zdiv_iff)

lemma restores_iff:
  assumes "below_gate b n k thr" "thr < BPS"
  shows "restores b k thr n a \<longleftrightarrow> deficit_of b n k thr \<le> a"
proof -
  define need where "need = ceilDiv (thr * denom_of b k - own_of b k * BPS) (BPS - thr)"
  have np: "0 < need" unfolding need_def using assms by (intro ceilDiv_pos) (auto simp: below_gate_def)
  have "restores b k thr n a \<longleftrightarrow> need \<le> sol_minted (nc_navWad n) (nc_usdcScalar n) (sb_totalShares b) a"
    using assms by (simp add: restores_def need_def ceilDiv_le Let_def algebra_simps below_gate_def)
  also have "\<dots> \<longleftrightarrow> need * nc_navWad n \<le> a * (nc_usdcScalar n * sb_totalShares b)"
    using assms(1) by (simp add: sol_minted_def le_zdiv_iff mult.assoc below_gate_def)
  also have "\<dots> \<longleftrightarrow> ceilDiv (need * nc_navWad n) (nc_usdcScalar n * sb_totalShares b) \<le> a"
    using assms(1) np by (intro ceilDiv_le [symmetric]) (auto simp: below_gate_def)
  finally show ?thesis using assms by (simp add: deficit_of_def topUpDeficitUsdc_def need_def Let_def below_gate_def)
qed

lemma restores_zero: "below_gate b n k thr \<Longrightarrow> sol_minted (nc_navWad n) (nc_usdcScalar n) (sb_totalShares b) a = 0
    \<Longrightarrow> \<not> restores b k thr n a"
  by (simp add: below_gate_def restores_def)

lemma deficit_pos: "below_gate b n k thr \<Longrightarrow> thr < BPS \<Longrightarrow> 0 < deficit_of b n k thr"
  using restores_iff [of b n k thr 0] restores_zero [of b n k thr 0] by (simp add: sol_minted_def)

lemma deficit_unreachable:
  assumes "below_gate b n k thr" "BPS \<le> thr"
  shows "deficit_of b n k thr = - 1" and "0 \<le> a \<Longrightarrow> \<not> restores b k thr n a"
proof -
  show "deficit_of b n k thr = - 1" using assms by (simp add: below_gate_def deficit_of_def topUpDeficitUsdc_def)
  define m where "m = sol_minted (nc_navWad n) (nc_usdcScalar n) (sb_totalShares b) a"
  assume "0 \<le> a"
  then have "0 \<le> m" using assms(1) by (simp add: m_def below_gate_def sol_minted_nonneg)
  then have "BPS * m \<le> thr * m" using assms(2) by (rule mult_right_mono [rotated])
  then show "\<not> restores b k thr n a"
    using assms(1) by (simp add: restores_def m_def [symmetric] below_gate_def algebra_simps)
qed

text \<open>The deposits that are accepted and restore the gate are those from the required amount up to the cap.\<close>

lemma useful_deposits:
  assumes "below_gate b n k thr" "thr < BPS"
  shows "sol_deposit_ok n (sb_totalShares b) a \<and> restores b k thr n a
    \<longleftrightarrow> max (deficit_of b n k thr) (nc_minDepositUsdc n) \<le> a
       \<and> (nc_capacityCapUsdc n \<noteq> 0 \<longrightarrow> committedUsdc n + a \<le> nc_capacityCapUsdc n)"
proof -
  have pos: "0 < nc_navWad n" "0 < nc_usdcScalar n" "0 < sb_totalShares b" using assms(1) by (auto simp: below_gate_def)
  have c: "committedUsdc n = nc_navWad n div nc_usdcScalar n + nc_totalPendingUsdc n"
    using pos by (simp add: committedUsdc_def navUsdc_def)
  show ?thesis
  proof (cases "0 < a \<and> restores b k thr n a")
    case True
    then have "sol_minted (nc_navWad n) (nc_usdcScalar n) (sb_totalShares b) a > 0"
      using sol_minted_nonneg [OF pos, of a] restores_zero [OF assms(1), of a] by force
    then show ?thesis using True restores_iff [OF assms, of a] by (auto simp: sol_deposit_ok_def c)
  next
    case False
    then show ?thesis using deficit_pos [OF assms] restores_iff [OF assms, of a] by (auto simp: sol_deposit_ok_def)
  qed
qed

lemma leg_deficit:
  "lg_topUpDeficitUsdc (evaluateLeg t (stake_of b True n)) = deficit_of b n (th_book t) (th_bps t)"
  by (simp add: evaluateLeg_def deficit_of_def own_of_def denom_of_def stake_of_def Let_def)

lemma leg_required:
  assumes "evaluateLeg t (stake_of b True n) = l"
  shows "lg_requiredTopUpUsdc l = (if lg_topUpDeficitUsdc l < 0 then - 1 else max (lg_topUpDeficitUsdc l) (nc_minDepositUsdc n))"
    and "lg_noTopUpPath l \<longleftrightarrow> lg_topUpDeficitUsdc l < 0 \<or> nc_capacityCapUsdc n \<noteq> 0
      \<and> lg_requiredTopUpUsdc l > (if nc_capacityCapUsdc n > committedUsdc n then nc_capacityCapUsdc n - committedUsdc n else 0)"
  unfolding assms [symmetric] by (auto simp: evaluateLeg_def stake_of_def Let_def)

text \<open>
  For a leg below its gate, with a NAV that can be read, "no top-up path" is said exactly when no
  deposit the vault accepts would let the operator back over the gate; and when there is one, the
  required amount the leg names is accepted, is enough, and is the least that is.
\<close>

theorem top_up_path_is_exact:
  assumes "below_gate b n (th_book t) (th_bps t)" and "evaluateLeg t (stake_of b True n) = l"
  shows "(lg_noTopUpPath l \<longleftrightarrow> \<not> (\<exists>a. sol_deposit_ok n (sb_totalShares b) a \<and> restores b (th_book t) (th_bps t) n a))
    \<and> (lg_noTopUpPath l \<or> sol_deposit_ok n (sb_totalShares b) (lg_requiredTopUpUsdc l)
         \<and> restores b (th_book t) (th_bps t) n (lg_requiredTopUpUsdc l)
         \<and> (\<forall>a < lg_requiredTopUpUsdc l. \<not> (sol_deposit_ok n (sb_totalShares b) a \<and> restores b (th_book t) (th_bps t) n a)))"
proof (cases "th_bps t < BPS")
  case True
  have d: "lg_topUpDeficitUsdc l = deficit_of b n (th_book t) (th_bps t)" using leg_deficit [of t b n] assms(2) by simp
  define P where "P a \<longleftrightarrow> sol_deposit_ok n (sb_totalShares b) a \<and> restores b (th_book t) (th_bps t) n a" for a
  define M where "M = lg_requiredTopUpUsdc l"
  have M: "M = max (deficit_of b n (th_book t) (th_bps t)) (nc_minDepositUsdc n)"
    using leg_required(1) [OF assms(2)] deficit_pos [OF assms(1) True] d by (simp add: M_def)
  have no: "lg_noTopUpPath l \<longleftrightarrow> nc_capacityCapUsdc n \<noteq> 0 \<and> committedUsdc n + M > nc_capacityCapUsdc n"
    using leg_required(2) [OF assms(2)] deficit_pos [OF assms(1) True] d M by (auto simp: M_def)
  have P: "P a \<longleftrightarrow> M \<le> a \<and> (nc_capacityCapUsdc n \<noteq> 0 \<longrightarrow> committedUsdc n + a \<le> nc_capacityCapUsdc n)" for a
    unfolding P_def M using useful_deposits [OF assms(1) True, of a] by blast
  have "lg_noTopUpPath l \<longleftrightarrow> \<not> (\<exists>a. P a)"
  proof
    assume "\<not> (\<exists>a. P a)"
    then have "\<not> P M" by blast
    then show "lg_noTopUpPath l" using no P [of M] by auto
  next
    assume "lg_noTopUpPath l"
    then have "\<not> P a" for a using no P [of a] by auto
    then show "\<not> (\<exists>a. P a)" by blast
  qed
  moreover have "lg_noTopUpPath l \<or> P M \<and> (\<forall>a < M. \<not> P a)"
    using no P [of M] P by (metis linorder_not_less order_refl)
  ultimately show ?thesis unfolding P_def M_def by blast
next
  case False
  then have "lg_noTopUpPath l"
    using leg_required(2) [OF assms(2)] leg_deficit [of t b n] deficit_unreachable(1) [OF assms(1)] assms(2) by simp
  moreover have "\<not> (sol_deposit_ok n (sb_totalShares b) a \<and> restores b (th_book t) (th_bps t) n a)" for a
    using deficit_unreachable(2) [OF assms(1), of a] False by (auto simp: sol_deposit_ok_def)
  ultimately show ?thesis by blast
qed

section \<open>Headroom\<close>

text \<open>Deposits of others one after another, each priced at the NAV and the supply it finds.\<close>

fun sol_deposits :: "int \<Rightarrow> int \<Rightarrow> int \<Rightarrow> int list \<Rightarrow> int \<times> int" where
  "sol_deposits sc nav ts [] = (nav, ts)"
| "sol_deposits sc nav ts (a # as) = sol_deposits sc (nav + a * sc) (ts + sol_minted nav sc ts a) as"

lemma minted_le: "0 < nav \<Longrightarrow> sol_minted nav sc ts a * nav \<le> a * sc * ts"
  using le_zdiv_iff [of nav "sol_minted nav sc ts a" "a * sc * ts"] by (simp add: sol_minted_def)

text \<open>The price of a share never falls, so the shares minted stay below the first price's line.\<close>

lemma sol_deposits_price:
  assumes "0 < nav" "0 < ts" "0 < sc" "\<forall>a \<in> set as. 0 \<le> a" "sol_deposits sc nav ts as = (nav', ts')"
  shows "nav' = nav + sum_list as * sc \<and> ts \<le> ts' \<and> ts' * nav \<le> ts * nav'"
  using assms
proof (induction as arbitrary: nav ts)
  case (Cons a as)
  define nav1 ts1 where n1: "nav1 = nav + a * sc" "ts1 = ts + sol_minted nav sc ts a"
  have m: "0 \<le> sol_minted nav sc ts a" using Cons.prems by (simp add: sol_minted_nonneg)
  have "nav \<le> nav1" using Cons.prems by (simp add: n1)
  have IH: "nav' = nav1 + sum_list as * sc \<and> ts1 \<le> ts' \<and> ts' * nav1 \<le> ts1 * nav'"
    by (rule Cons.IH) (use Cons.prems m in \<open>simp_all add: n1 add_pos_nonneg\<close>)
  have "0 \<le> sum_list as" using Cons.prems(4) by (intro sum_list_nonneg) auto
  then have n0: "0 \<le> nav'" using IH \<open>nav \<le> nav1\<close> Cons.prems by simp
  have one: "ts1 * nav \<le> ts * nav1" using minted_le [of nav sc ts a] Cons.prems by (simp add: n1 algebra_simps)
  have "ts' * nav * nav1 \<le> ts1 * nav' * nav"
    using mult_right_mono [OF conjunct2 [OF conjunct2 [OF IH]], of nav] Cons.prems by (simp add: mult.commute mult.left_commute)
  also have "\<dots> \<le> ts * nav1 * nav'"
    using mult_right_mono [OF one n0] by (simp add: mult.commute mult.left_commute)
  finally have "ts' * nav * nav1 \<le> ts * nav' * nav1" by (simp add: mult.commute mult.left_commute)
  then have "ts' * nav \<le> ts * nav'" using \<open>nav \<le> nav1\<close> Cons.prems by (simp add: mult_le_cancel_right)
  then show ?case using IH m n1 by (auto simp: algebra_simps)
qed simp

text \<open>
  The headroom of a gate that still passes is where it shuts, to two base units of USDC: however
  the deposits of others are split, a sum within it leaves the gate open; and where a share unit
  costs no more than a USDC unit, one deposit of two more than it shuts the gate.
\<close>

theorem headroom_is_where_the_gate_shuts:
  assumes "0 < nav" "0 < ts" "0 < sc" "0 < thr" "0 < denom" and pass: "thr * denom \<le> own * BPS"
    and "dilutionHeadroomUsdc own denom thr nav sc ts = h"
  shows "(\<forall>as nav' ts'. (\<forall>a \<in> set as. 0 \<le> a) \<and> sum_list as \<le> h \<and> sol_deposits sc nav ts as = (nav', ts')
      \<longrightarrow> thr * (denom + (ts' - ts)) \<le> own * BPS)
    \<and> (nav \<le> sc * ts \<longrightarrow> own * BPS < thr * (denom + sol_minted nav sc ts (h + 2)))"
proof -
  define room where "room = own * BPS div thr - denom"
  have own: "0 \<le> own * BPS" using pass mult_pos_pos [OF assms(4,5)] by linarith
  have gate: "thr * (denom + m) \<le> own * BPS \<longleftrightarrow> m \<le> room" for m
    using le_zdiv_iff [OF assms(4), of "denom + m" "own * BPS"] by (simp add: room_def algebra_simps)
  have r0: "0 \<le> room" using gate [of 0] pass by simp
  have h: "h = room * nav div (sc * ts)"
    using assms own r0 by (auto simp: dilutionHeadroomUsdc_def room_def Let_def)
  have st: "0 < sc * ts" using assms by simp
  have hi: "h * (sc * ts) \<le> room * nav" using le_zdiv_iff [OF st, of h "room * nav"] h by simp
  have lo: "room * nav < (h + 1) * (sc * ts)" using le_zdiv_iff [OF st, of "h + 1" "room * nav"] h by simp
  have "ts' - ts \<le> room" if "\<forall>a \<in> set as. 0 \<le> a" "sum_list as \<le> h" "sol_deposits sc nav ts as = (nav', ts')" for as nav' ts'
  proof -
    have p: "nav' = nav + sum_list as * sc" "ts' * nav \<le> ts * nav'"
      using sol_deposits_price [OF assms(1-3) that(1,3)] by auto
    have "(ts' - ts) * nav \<le> sum_list as * (sc * ts)" using p(2) unfolding p(1) by (simp add: algebra_simps)
    also have "\<dots> \<le> room * nav" using mult_right_mono [OF that(2), of "sc * ts"] st hi by linarith
    finally show ?thesis using assms(1) by (simp add: mult_le_cancel_right)
  qed
  moreover have "room + 1 \<le> sol_minted nav sc ts (h + 2)" if "nav \<le> sc * ts"
  proof -
    have "(room + 1) * nav \<le> (h + 2) * sc * ts" using lo that by (simp add: algebra_simps)
    then show ?thesis using le_zdiv_iff [OF assms(1)] by (simp add: sol_minted_def)
  qed
  ultimately show ?thesis using gate by (meson linorder_not_le zle_add1_eq_le)
qed

section \<open>The two bars page twice\<close>

lemma observe_one_undamped:
  assumes "needed x = 1" "pending_ok states" "observe_one p t states x = (states', out)"
  shows "status_of states' (sg_id x) = sg_status x \<and> map_of states' (sg_id x) \<noteq> None
    \<and> (\<forall>i. i \<noteq> sg_id x \<longrightarrow> map_of states' i = map_of states i)"
  using assms
  by (auto simp: observe_one_def status_of_def update_conv' Let_def dest: pending_ok_get split: option.splits if_splits)

lemma observe_one_repeated:
  assumes "map_of states (sg_id x) \<noteq> None" "needed x = 1" "\<not> blind x" "pending_ok states"
  shows "snd (observe_one p t states x) =
      (if status_of states (sg_id x) = sg_status x then None
       else Some (emit_line t x (status_of states (sg_id x)) 0))"
proof -
  obtain y where y: "map_of states (sg_id x) = Some y" using assms(1) by blast
  have "\<not> tr_pendingCount y + 1 < 1" using pending_ok_get [OF assms(4) y] by simp
  then show ?thesis using assms y by (simp add: observe_one_def status_of_def Let_def)
qed

lemma alert_not_blind:
  "x \<in> set (checkOperatorPower r vault operator) \<Longrightarrow> sg_status x = StAlert \<Longrightarrow> \<not> blind x"
  by (auto simp: checkOperatorPower_def measure_power_def bothKeys_def detectorBroken_def build_sig_def Let_def
      blind_def split: sum.splits prod.splits if_splits)

text \<open>
  An operator diluted past the early bar in one sweep and past the critical bar in the next is
  told twice. Whatever the tracker knew before, the second sweep emits exactly one line, the
  critical key going from healthy to alert, while the early key, alerting already, is silent.
\<close>

theorem critical_bar_pages_on_its_own:
  assumes "map sg_status (checkOperatorPower r1 vault operator) = [StAlert, StOk]"
    and "map sg_status (checkOperatorPower r2 vault operator) = [StAlert, StAlert]"
    and "observe p1 t1 (fst (sweeps [] history)) (checkOperatorPower r1 vault operator) = (states1, out1)"
    and "observe p2 t2 states1 (checkOperatorPower r2 vault operator) = (states2, out2)"
  shows "map (\<lambda>t. (tn_id t, tn_from t, tn_to t)) out2 = [(power_id vault CRITICAL_KEY, StOk, StAlert)]"
proof -
  obtain e1 c1 where x1: "checkOperatorPower r1 vault operator = [e1, c1]" using assms(1) by auto
  obtain e2 c2 where x2: "checkOperatorPower r2 vault operator = [e2, c2]" using assms(2) by auto
  have ids: "sg_id e1 = power_id vault EARLY_WARNING_KEY" "sg_id c1 = power_id vault CRITICAL_KEY"
    "sg_id e2 = power_id vault EARLY_WARNING_KEY" "sg_id c2 = power_id vault CRITICAL_KEY"
    using checkOperatorPower_ids [of r1 vault operator] checkOperatorPower_ids [of r2 vault operator] x1 x2 by auto
  have nd: "needed e1 = 1" "needed c1 = 1" "needed e2 = 1" "needed c2 = 1"
    using checkOperatorPower_damping [of _ r1 vault operator] checkOperatorPower_damping [of _ r2 vault operator] x1 x2
    by auto
  have st: "sg_status e1 = StAlert" "sg_status c1 = StOk" "sg_status e2 = StAlert" "sg_status c2 = StAlert"
    using assms(1,2) x1 x2 by auto
  have nb: "\<not> blind e2" "\<not> blind c2"
    using alert_not_blind [of _ r2 vault operator] x2 st by auto
  obtain h0 ho where h: "sweeps [] history = (h0, ho)" by fastforce
  have p0: "pending_ok h0" using sweeps_pending [OF _ h] by (simp add: pending_ok_def)
  obtain sa ta where a: "observe_one p1 t1 h0 e1 = (sa, ta)" by fastforce
  obtain tb where b: "observe_one p1 t1 sa c1 = (states1, tb)"
    using assms(3) a x1 h by (cases "observe_one p1 t1 sa c1") auto
  have pa: "pending_ok sa" "pending_ok states1"
    using observe_one_pending [OF p0 a] observe_one_pending [OF _ b] by blast+
  have k: "status_of states1 (sg_id e2) = StAlert" "status_of states1 (sg_id c2) = StOk"
    "map_of states1 (sg_id e2) \<noteq> None" "map_of states1 (sg_id c2) \<noteq> None"
    using observe_one_undamped [OF nd(1) p0 a] observe_one_undamped [OF nd(2) pa(1) b] st ids
    by (auto simp: status_of_def)
  obtain sc tc where c: "observe_one p2 t2 states1 e2 = (sc, tc)" by fastforce
  have tc: "tc = None" using observe_one_repeated [OF k(3) nd(3) nb(1) pa(2), of p2 t2] k(1) st c by simp
  have o: "map_of sc (sg_id c2) = map_of states1 (sg_id c2)"
    using observe_one_undamped [OF nd(3) pa(2) c] ids by simp
  have pc: "pending_ok sc" using observe_one_pending [OF pa(2) c] .
  have "snd (observe_one p2 t2 sc c2) = Some (emit_line t2 c2 StOk 0)"
    using observe_one_repeated [OF _ nd(4) nb(2) pc, of p2 t2] k(2,4) st o by (simp add: status_of_def)
  then show ?thesis
    using assms(4) x2 c tc ids(4) st(4) by (auto split: prod.splits)
qed

section \<open>Concrete vaults\<close>

text \<open>
  The worked case of the file: a cap of 50,000 USDC, the operator's 2,000 against 47,600 of others,
  a gate at five percent; one share unit a USDC unit scaled to eighteen decimals.
\<close>

definition sample_power :: "int \<Rightarrow> int \<Rightarrow> unit power_reader" where
  "sample_power own others =
     \<lparr> po_totalShares = Inr ((own + others) * 10 ^ 18), po_sharesOf = (\<lambda>_. Inr (own * 10 ^ 18)),
       po_nonCreatorMemberCount = Inr 3, po_CREATOR_MIN_STAKE_BPS = Inr 500,
       po_votingEligibleShares = (\<lambda>_. Inr (own * 10 ^ 18)),
       po_totalVotingEligibleShares = Inr ((own + others) * 10 ^ 18), po_governance = Inr ''0xgov'',
       po_capacityCapUsdc = Inr (50000 * 10 ^ 6), po_minDepositUsdc = Inr (10 ^ 6),
       po_navWad = Inr ((own + others) * 10 ^ 18), po_usdcScalar = Inr (10 ^ 12), po_totalPendingUsdc = Inr 0,
       po_vaultRegistered = (\<lambda>_ _. Inr True), po_proposalThresholdBps = (\<lambda>_ _. Inr (Some 500)) \<rparr>"

definition sample_book :: "int \<Rightarrow> int \<Rightarrow> share_book" where
  "sample_book own others =
     \<lparr> sb_totalShares = (own + others) * 10 ^ 18, sb_opShares = own * 10 ^ 18, sb_nonCreatorMemberCount = 3,
       sb_creatorMinStakeBps = 500, sb_eligibleOwn = own * 10 ^ 18, sb_eligibleTotal = (own + others) * 10 ^ 18 \<rparr>"

definition sample_nav :: "int \<Rightarrow> int \<Rightarrow> nav_context" where
  "sample_nav own others =
     \<lparr> nc_capacityCapUsdc = 50000 * 10 ^ 6, nc_minDepositUsdc = 10 ^ 6, nc_navWad = (own + others) * 10 ^ 18,
       nc_usdcScalar = 10 ^ 12, nc_totalPendingUsdc = 0 \<rparr>"

lemma sample_power_book [simp]: "read_share_book (sample_power own others) operator = Inr (sample_book own others)"
  by (simp add: read_share_book_def sample_power_def sample_book_def)

lemma sample_power_gate [simp]: "governanceLeg (sample_power own others) vault = Inr 500"
  by (simp add: governanceLeg_def sample_power_def isZero_def numeral_eq_Suc)


definition sample_leg :: threshold where
  "sample_leg = \<lparr> th_name = ''proposalThresholdBps'', th_bps = 500, th_measuredBps = 403, th_book = VotingEligible \<rparr>"

theorem top_up_path_is_exact_witness:
  "\<not> (\<exists>a. sol_deposit_ok (sample_nav 2000 47600) (sb_totalShares (sample_book 2000 47600)) a
        \<and> restores (sample_book 2000 47600) VotingEligible 500 (sample_nav 2000 47600) a)
   \<and> lg_requiredTopUpUsdc (evaluateLeg sample_leg (stake_of (sample_book 2000 47600) True (sample_nav 2000 47600))) = 505263158"
proof -
  define l where "l = evaluateLeg sample_leg (stake_of (sample_book 2000 47600) True (sample_nav 2000 47600))"
  have "below_gate (sample_book 2000 47600) (sample_nav 2000 47600) (th_book sample_leg) (th_bps sample_leg)"
    by (simp add: below_gate_def sample_book_def sample_nav_def sample_leg_def own_of_def denom_of_def BPS_def)
  moreover have "lg_noTopUpPath l \<and> lg_requiredTopUpUsdc l = 505263158"
    by (simp add: l_def evaluateLeg_def stake_of_def sample_book_def sample_nav_def sample_leg_def topUpDeficitUsdc_def
        ceilDiv_def committedUsdc_def navUsdc_def BPS_def Let_def)
  ultimately show ?thesis
    using top_up_path_is_exact [OF _ l_def [symmetric]] by (simp add: l_def sample_leg_def)
qed

theorem headroom_is_where_the_gate_shuts_witness:
  "dilutionHeadroomUsdc (3000 * 10 ^ 18) (48000 * 10 ^ 18) 500 (48000 * 10 ^ 18) (10 ^ 12) (48000 * 10 ^ 18) = 12000 * 10 ^ 6
   \<and> 500 * (48000 * 10 ^ 18 + (snd (sol_deposits (10 ^ 12) (48000 * 10 ^ 18) (48000 * 10 ^ 18) [5000 * 10 ^ 6, 7000 * 10 ^ 6])
        - 48000 * 10 ^ 18)) \<le> 3000 * 10 ^ 18 * BPS"
proof -
  have h: "dilutionHeadroomUsdc (3000 * 10 ^ 18) (48000 * 10 ^ 18) 500 (48000 * 10 ^ 18) (10 ^ 12) (48000 * 10 ^ 18) = 12000 * 10 ^ 6"
    by (simp add: dilutionHeadroomUsdc_def BPS_def)
  then show ?thesis
    using headroom_is_where_the_gate_shuts [OF _ _ _ _ _ _ h] by (simp add: BPS_def sol_minted_def)
qed

theorem critical_bar_pages_on_its_own_witness:
  "map (\<lambda>t. (tn_id t, tn_from t, tn_to t))
     (snd (observe 2 ''b'' (fst (observe 1 ''a'' [] (checkOperatorPower (sample_power 3000 47000) ''0xv'' ''0xop'')))
        (checkOperatorPower (sample_power 2000 47600) ''0xv'' ''0xop'')))
     = [(power_id ''0xv'' CRITICAL_KEY, StOk, StAlert)]"
proof -
  have t: "thresholds (sample_power own others) ''0xv'' (sample_book own others)
      = [\<lparr> th_name = ''proposalThresholdBps'', th_bps = 500, th_measuredBps = eligibleBps (sample_book own others), th_book = VotingEligible \<rparr>,
         \<lparr> th_name = ''creatorMinStakeBps'', th_bps = 500, th_measuredBps = operatorBps (sample_book own others), th_book = RawBook \<rparr>]"
    for own others by (simp add: thresholds_def sample_book_def)
  have st: "map sg_status (checkOperatorPower (sample_power own others) ''0xv'' ''0xop'') =
      map snd (map (\<lambda>s. (sg_key s, sg_status s)) (measure_power (sample_power own others) ''0xv'' (sample_book own others)))"
    if "own + others \<noteq> 0" for own others
    using that by (simp add: checkOperatorPower_def comp_def) (simp add: sample_book_def)
  have "map sg_status (checkOperatorPower (sample_power 3000 47000) ''0xv'' ''0xop'') = [StAlert, StOk]"
    "map sg_status (checkOperatorPower (sample_power 2000 47600) ''0xv'' ''0xop'') = [StAlert, StAlert]"
    by (simp_all add: st measure_power_statuses t gate_level_def eligibleBps_def operatorBps_def)
       (simp_all add: sample_book_def BPS_def)
  moreover obtain s1 o1 where o1: "observe 1 ''a'' [] (checkOperatorPower (sample_power 3000 47000) ''0xv'' ''0xop'') = (s1, o1)"
    by fastforce
  moreover obtain s2 o2 where o2: "observe 2 ''b'' s1 (checkOperatorPower (sample_power 2000 47600) ''0xv'' ''0xop'') = (s2, o2)"
    by fastforce
  moreover have "observe 1 ''a'' (fst (sweeps [] ([] :: (int \<times> string \<times> unit sig list) list)))
      (checkOperatorPower (sample_power 3000 47000) ''0xv'' ''0xop'') = (s1, o1)" using o1 by simp
  ultimately show ?thesis
    using critical_bar_pages_on_its_own [of "sample_power 3000 47000" "''0xv''" "''0xop''" "sample_power 2000 47600"
        1 "''a''" "[] :: (int \<times> string \<times> unit sig list) list" s1 o1 2 "''b''" s2 o2] by simp
qed

end
