(* ===== verification/Canary_Exits.thy ===== *)
theory Canary_Exits
  imports Canary_Tracker Projection_Runs Rebalance_Order
begin

text \<open>
  Two signals of the canary about money that leaves a vault: the exit-liveness sentinel,
  \<open>packages/canary/src/signals/exit-liveness.mjs\<close> with the selectors of \<open>abis.mjs\<close>, and fee routing,
  \<open>fee-routing.mjs\<close>. Calls and log queries of the reader are parameters; the sentences are tags.
\<close>

section \<open>Exit liveness\<close>

definition EXIT_SIGNAL :: string where "EXIT_SIGNAL = ''exit-liveness''"

definition REQUEST_EXIT_SELECTOR :: string where "REQUEST_EXIT_SELECTOR = ''0x721c6513''"

definition EXIT_GATE_SELECTORS :: "(string \<times> string) list" where
  "EXIT_GATE_SELECTORS =
     [(''0x1f2a2005'', ''ZeroAmount''), (''0xf2698fc0'', ''ExitAlreadyQueued''),
      (''0x39996567'', ''InsufficientShares''), (''0xa428ab2d'', ''CreatorStakeGate''),
      (''0x07b1ee59'', ''ExitNeedsChildSettlement''), (''0xb5ac4fd1'', ''ChildSettlementPending''),
      (''0x9dc3430e'', ''PositionBelowFloor'')]"

definition EXIT_FROZEN_SELECTORS :: "(string \<times> string) list" where
  "EXIT_FROZEN_SELECTORS = [(''0xa2671f4b'', ''StaleOracle'')]"

definition EXIT_FAULT_SELECTORS :: "(string \<times> string) list" where
  "EXIT_FAULT_SELECTORS =
     [(''0xab143c06'', ''Reentrancy''), (''0xe752017c'', ''NoQueuedExit''), (''0x885cf1d7'', ''ExecutionStillPending''),
      (''0x08c379a0'', ''Error(string)''), (''0x4e487b71'', ''Panic(uint256)'')]"

text \<open>The hand-rolled calldata: the selector and one word.\<close>

definition encodeRequestExit :: "int \<Rightarrow> string" where
  "encodeRequestExit n = REQUEST_EXIT_SELECTOR @ abi_word n"

definition probe_rank :: "string option \<Rightarrow> string \<times> int \<Rightarrow> nat" where
  "probe_rank creator h = (if Some (lc (fst h)) = map_option lc creator then 1 else 0)"

text \<open>The comparator orders by rank, then by shares downwards; JavaScript's sort is stable.\<close>

definition pickProbeMember :: "(string, int) jsmap \<Rightarrow> string option \<Rightarrow> (string \<times> int) option" where
  "pickProbeMember book creator =
     (let holders = filter (\<lambda>h. snd h > 0) book in
      if holders = [] then None
      else Some (hd (sort_key (\<lambda>h. (probe_rank creator h, - snd h)) holders)))"

text \<open>What \<open>staticCall\<close> answers; a transport failure carries no data.\<close>

datatype call_result = CallOk | Reverted "string option" | Transport

record exit_detail =
  ed_probeMember :: "string option"
  ed_probeShares :: int
  ed_revertData :: "string option"
  ed_revertName :: "string option"

definition selector_of :: "string option \<Rightarrow> string option" where
  "selector_of data = (case data of None \<Rightarrow> None | Some d \<Rightarrow> if length d \<ge> 10 then Some (lc (take 10 d)) else None)"

definition named :: "(string \<times> string) list \<Rightarrow> string option \<Rightarrow> string option" where
  "named table sel = (case sel of None \<Rightarrow> None | Some s \<Rightarrow> map_of table s)"

definition classify_exit :: "string \<Rightarrow> exit_detail \<Rightarrow> call_result \<Rightarrow> exit_detail sig" where
  "classify_exit vault detail res = (case res of
      CallOk \<Rightarrow> build_sig StOk EXIT_SIGNAL vault None ''exits live'' (Some ''no revert'')
                 (Some ''no non-gate revert'') detail
    | Transport \<Rightarrow> detectorBroken EXIT_SIGNAL vault None ''exit-liveness sentinel BLIND'' detail
    | Reverted data \<Rightarrow>
        (let selector = selector_of data; d = detail\<lparr>ed_revertData := data\<rparr> in
         case named EXIT_GATE_SELECTORS selector of
           Some name \<Rightarrow> build_sig StOk EXIT_SIGNAL vault None ''exits live: a caller-position gate'' (Some name)
             (Some ''no non-gate revert'') (d\<lparr>ed_revertName := Some name\<rparr>)
         | None \<Rightarrow> (case named EXIT_FROZEN_SELECTORS selector of
             Some frozen \<Rightarrow> build_sig StSkipped EXIT_SIGNAL vault None ''exits frozen by the oracle breaker'' None None
               (d\<lparr>ed_revertName := Some ''StaleOracle''\<rparr>)
           | None \<Rightarrow>
               (let name = (case named EXIT_FAULT_SELECTORS selector of
                      Some f \<Rightarrow> f
                    | None \<Rightarrow> (case selector of Some s \<Rightarrow> ''unrecognized revert '' @ s
                                | None \<Rightarrow> ''EMPTY returndata (out-of-gas or returndata bomb)''))
                in build_sig StAlert EXIT_SIGNAL vault None ''EXIT LIVENESS BROKEN'' (Some name)
                     (Some ''no non-gate revert'') (d\<lparr>ed_revertName := Some name\<rparr>)))))"

text \<open>\<open>call\<close> is \<open>staticCall\<close> on the vault, by its caller and its calldata.\<close>

definition checkExitLiveness ::
  "(string \<Rightarrow> string \<Rightarrow> call_result) \<Rightarrow> string \<Rightarrow> (string, int) jsmap \<Rightarrow> string option \<Rightarrow> int \<Rightarrow> exit_detail sig list" where
  "checkExitLiveness call vault book creator probeShares =
     (case pickProbeMember book creator of
        None \<Rightarrow> [build_sig StSkipped EXIT_SIGNAL vault None ''no member to probe with'' None None
                  \<lparr> ed_probeMember = None, ed_probeShares = 0, ed_revertData = None, ed_revertName = None \<rparr>]
      | Some (member, held) \<Rightarrow>
          (let n = (if probeShares < held then probeShares else held);
               res = call member (encodeRequestExit n)
           in [classify_exit vault \<lparr> ed_probeMember = Some member, ed_probeShares = n, ed_revertData = None,
                                    ed_revertName = None \<rparr> res]))"

subsection \<open>Who is probed\<close>

lemma hd_sort_key:
  assumes "xs \<noteq> []"
  shows "hd (sort_key f xs) \<in> set xs \<and> (\<forall>x \<in> set xs. f (hd (sort_key f xs)) \<le> f x)"
proof -
  obtain y ys where s: "sort_key f xs = y # ys" using assms by (metis length_0_conv length_sort list.exhaust)
  have "set (y # ys) = set xs" using s by (metis set_sort)
  moreover have "sorted (map f (y # ys))" using s by (metis sorted_sort_key)
  ultimately show ?thesis using s by auto
qed

lemma pickProbeMember_None: "pickProbeMember b c = None \<longleftrightarrow> (\<forall>h \<in> set b. snd h \<le> 0)"
  by (auto simp: pickProbeMember_def Let_def filter_empty_conv not_less)

text \<open>The chosen member holds shares; it is the creator only if no one else does, and the largest of its rank.\<close>

lemma pickProbeMember_Some:
  assumes "pickProbeMember b c = Some (m, n)"
  shows "(m, n) \<in> set b" "0 < n"
    and "\<And>m' n'. (m', n') \<in> set b \<Longrightarrow> 0 < n' \<Longrightarrow> probe_rank c (m, n) \<le> probe_rank c (m', n')"
    and "\<And>m' n'. (m', n') \<in> set b \<Longrightarrow> probe_rank c (m', n') = probe_rank c (m, n) \<Longrightarrow> n' \<le> n"
proof -
  let ?hs = "filter (\<lambda>h. snd h > 0) b" and ?f = "\<lambda>h :: string \<times> int. (probe_rank c h, - snd h)"
  have ne: "?hs \<noteq> []" and h: "hd (sort_key ?f ?hs) = (m, n)"
    using assms by (auto simp: pickProbeMember_def Let_def split: if_splits)
  have mem: "(m, n) \<in> set ?hs" and least: "\<And>x. x \<in> set ?hs \<Longrightarrow> ?f (m, n) \<le> ?f x"
    using hd_sort_key [OF ne, of ?f] unfolding h by blast+
  show "(m, n) \<in> set b" "0 < n" using mem by auto
  show "probe_rank c (m, n) \<le> probe_rank c (m', n')" if "(m', n') \<in> set b" "0 < n'" for m' n'
    using least [of "(m', n')"] that by auto
  show "n' \<le> n" if "(m', n') \<in> set b" "probe_rank c (m', n') = probe_rank c (m, n)" for m' n'
    using least [of "(m', n')"] that \<open>0 < n\<close> by (cases "0 < n'") auto
qed

lemma some_holder: "0 < sum_list (map snd b) \<Longrightarrow> \<exists>h \<in> set b. (0 :: int) < snd h"
  by (induction b) force+

definition gate_revert :: "string option \<Rightarrow> bool" where
  "gate_revert data \<longleftrightarrow> named EXIT_GATE_SELECTORS (selector_of data) \<noteq> None"

definition frozen_revert :: "string option \<Rightarrow> bool" where
  "frozen_revert data \<longleftrightarrow> named EXIT_FROZEN_SELECTORS (selector_of data) \<noteq> None"

lemma classify_exit_status:
  "sg_status (classify_exit vault d res) = (case res of
      CallOk \<Rightarrow> StOk
    | Transport \<Rightarrow> StSkipped
    | Reverted data \<Rightarrow> if gate_revert data then StOk else if frozen_revert data then StSkipped else StAlert)"
  "blind (classify_exit vault d res) \<longleftrightarrow> res = Transport"
  by (auto simp: classify_exit_def gate_revert_def frozen_revert_def detectorBroken_def build_sig_def blind_def Let_def
      split: call_result.splits option.splits)

lemma frozen_not_gate: "frozen_revert data \<Longrightarrow> \<not> gate_revert data"
  by (auto simp: frozen_revert_def gate_revert_def named_def EXIT_FROZEN_SELECTORS_def EXIT_GATE_SELECTORS_def
      split: option.splits if_splits)

text \<open>
  C35. The sentinel never loses its caller while anyone can be trapped. On the book the indexer folds
  from any log in which no exit burns more than its member holds, a vault with shares outstanding is
  probed: with the calldata of a request for one share, as a member who holds it, and not as the
  creator unless no one else holds any. The result alerts exactly when that call reverts with
  anything but a gate of the caller's position or the oracle breaker, empty data included.
\<close>

theorem outstanding_shares_are_probed:
  assumes "total_inv st" and "reaches_pre apply_event burn_ok st (sort_log es)" and "applyAll es st = Done st'"
    and "0 < v_totalShares (vrec st' k)"
  shows "\<exists>m n data x. (m, n) \<in> set (shareBook st' k) \<and> 0 < n
    \<and> (Some (lc m) = map_option lc creator \<longrightarrow>
         (\<forall>(m', n') \<in> set (shareBook st' k). n' \<le> 0 \<or> Some (lc m') = map_option lc creator))
    \<and> take 10 data = REQUEST_EXIT_SELECTOR \<and> length data = 74 \<and> word_at (drop 10 data) 0 = Some 1
    \<and> checkExitLiveness call vault (shareBook st' k) creator 1 = [x]
    \<and> (sg_status x = StAlert \<longleftrightarrow> (\<exists>d. call m data = Reverted d \<and> \<not> gate_revert d \<and> \<not> frozen_revert d))
    \<and> (sg_status x = StOk \<longleftrightarrow> call m data = CallOk \<or> (\<exists>d. call m data = Reverted d \<and> gate_revert d))
    \<and> (blind x \<longleftrightarrow> call m data = Transport)"
proof -
  have "v_totalShares (vrec st' k) = sum_list (map snd (shareBook st' k))"
    using total_fold.run_inv_Done [OF assms(1,2)] assms(3) by (simp add: applyAll_def total_inv_def)
  then have "\<not> (\<forall>h \<in> set (shareBook st' k). snd h \<le> 0)" using some_holder assms(4) by (metis not_less)
  then obtain m n where p: "pickProbeMember (shareBook st' k) creator = Some (m, n)"
    using pickProbeMember_None [of "shareBook st' k" creator] by (cases "pickProbeMember (shareBook st' k) creator") auto
  define data where "data = encodeRequestExit 1"
  have w: "length (abi_word 1) = 64 \<and> parse_radix 16 0 (abi_word 1) = Some (nat 1)"
    by (rule abi_word_ok) (simp add: uint256_def)
  have d: "take 10 data = REQUEST_EXIT_SELECTOR \<and> length data = 74 \<and> word_at (drop 10 data) 0 = Some 1"
    using w by (simp add: data_def encodeRequestExit_def REQUEST_EXIT_SELECTOR_def word_at_def Let_def)
  have one: "(if 1 < n then 1 else n) = 1" using pickProbeMember_Some(2) [OF p] by auto
  define x where "x = classify_exit vault \<lparr> ed_probeMember = Some m, ed_probeShares = 1, ed_revertData = None,
      ed_revertName = None \<rparr> (call m data)"
  have x: "checkExitLiveness call vault (shareBook st' k) creator 1 = [x]"
    by (simp add: checkExitLiveness_def p one x_def data_def Let_def)
  have rank: "Some (lc m) = map_option lc creator \<longrightarrow>
      (\<forall>(m', n') \<in> set (shareBook st' k). n' \<le> 0 \<or> Some (lc m') = map_option lc creator)"
  proof (intro impI ballI)
    fix h assume c: "Some (lc m) = map_option lc creator" and h: "h \<in> set (shareBook st' k)"
    obtain m' n' where h': "h = (m', n')" by (cases h)
    show "case h of (m', n') \<Rightarrow> n' \<le> 0 \<or> Some (lc m') = map_option lc creator"
      using pickProbeMember_Some(3) [OF p, of m' n'] c h unfolding h'
      by (cases "0 < n'") (auto simp: probe_rank_def split: if_splits)
  qed
  show ?thesis
    using pickProbeMember_Some(1,2) [OF p] d x rank
    by (intro exI [of _ m] exI [of _ n] exI [of _ data] exI [of _ x])
       (auto simp: x_def classify_exit_status frozen_not_gate split: call_result.splits if_splits)
qed

definition sample_call :: "string \<Rightarrow> string \<Rightarrow> call_result" where
  "sample_call m data = Reverted None"

lemma outstanding_shares_are_probed_witness:
  "\<exists>st' m. applyAll sample_log emptyState = Done st' \<and> m \<in> fst ` set (shareBook st' (Some ''0xv''))
     \<and> map sg_status (checkExitLiveness sample_call ''0xv'' (shareBook st' (Some ''0xv'')) None 1) = [StAlert]"
proof (cases "applyAll sample_log emptyState")
  case (Done st')
  have t: "v_totalShares (vrec st' (Some ''0xv'')) = 2"
    using sample_run Done total_fold.run_inv_Done [OF total_inv_empty sample_reaches, of st']
    by (simp add: applyAll_def total_inv_def)
  have a: "\<exists>d. sample_call m data = Reverted d \<and> \<not> gate_revert d \<and> \<not> frozen_revert d" for m data
    by (simp add: sample_call_def gate_revert_def frozen_revert_def selector_of_def named_def)
  have "\<exists>m n x. (m, n) \<in> set (shareBook st' (Some ''0xv''))
      \<and> checkExitLiveness sample_call ''0xv'' (shareBook st' (Some ''0xv'')) None 1 = [x] \<and> sg_status x = StAlert"
    using outstanding_shares_are_probed [OF total_inv_empty sample_reaches Done, of "Some ''0xv''" None sample_call "''0xv''"]
      t a by (metis zero_less_numeral)
  then show ?thesis using Done by force
qed (use sample_run in simp)

section \<open>Fee routing\<close>

definition FEE_SIGNAL :: string where "FEE_SIGNAL = ''fee-routing''"

record transfer_log =
  tl_to :: string
  tl_value :: int
  tl_blockNumber :: int
  tl_txHash :: "string option"

record settle_log =
  se_member :: string
  se_blockNumber :: int

record 'e fee_reader =
  fr_operatorOf :: "string \<Rightarrow> string \<Rightarrow> 'e + int"
  fr_operatorAddressOf :: "string \<Rightarrow> int \<Rightarrow> 'e + string"
  fr_outflows :: "string \<Rightarrow> int \<Rightarrow> int \<Rightarrow> transfer_log list"
  fr_exits :: "int \<Rightarrow> int \<Rightarrow> settle_log list"
  fr_cancels :: "int \<Rightarrow> int \<Rightarrow> settle_log list"

record fee_detail =
  fd_operatorAddresses :: "string list"
  fd_excused :: "int option"
  fd_transfers :: "transfer_log list"
  fd_total :: int

definition no_fee_detail :: fee_detail where
  "no_fee_detail = \<lparr> fd_operatorAddresses = [], fd_excused = None, fd_transfers = [], fd_total = 0 \<rparr>"

text \<open>The addresses no fee may reach directly, or the error of the registry.\<close>

definition prohibited_set :: "'e fee_reader \<Rightarrow> string \<Rightarrow> string option \<Rightarrow> string list \<Rightarrow> 'e + string jsset" where
  "prohibited_set r vault operatorRegistry extraOperators =
     (let base = set_of_list (filter (\<lambda>a. a \<noteq> []) (map lc extraOperators)) in
      case operatorRegistry of
        None \<Rightarrow> Inr base
      | Some reg \<Rightarrow> (case fr_operatorOf r reg vault of
            Inl e \<Rightarrow> Inl e
          | Inr opId \<Rightarrow>
              if opId = 0 then Inr base
              else (case fr_operatorAddressOf r reg opId of
                  Inl e \<Rightarrow> Inr base
                | Inr a \<Rightarrow> Inr (if a \<noteq> [] then jadd (lc a) base else base))))"

definition settled_keys :: "'e fee_reader \<Rightarrow> int \<Rightarrow> int \<Rightarrow> (int \<times> string) list" where
  "settled_keys r fromBlock toBlock =
     map (\<lambda>l. (se_blockNumber l, lc (se_member l))) (fr_exits r fromBlock toBlock @ fr_cancels r fromBlock toBlock)"

definition fee_ok :: "string \<Rightarrow> string \<Rightarrow> string \<Rightarrow> fee_detail \<Rightarrow> fee_detail sig" where
  "fee_ok vault message measured d =
     build_sig StOk FEE_SIGNAL vault None message (Some measured) (Some ''0 direct operator transfers'') d"

definition checkFeeRouting ::
  "'e fee_reader \<Rightarrow> string \<Rightarrow> string \<Rightarrow> string option \<Rightarrow> string list \<Rightarrow> int \<Rightarrow> int \<Rightarrow> fee_detail sig list" where
  "checkFeeRouting r vault usdc operatorRegistry extraOperators fromBlock toBlock =
     (case prohibited_set r vault operatorRegistry extraOperators of
        Inl e \<Rightarrow> [build_sig StSkipped FEE_SIGNAL vault None ''operatorOf() is unreadable'' None None no_fee_detail]
      | Inr prohibited \<Rightarrow>
          if prohibited = [] then [fee_ok vault ''no registered operator address'' ''0 prohibited destinations'' no_fee_detail]
          else
            let outflows = fr_outflows r usdc fromBlock toBlock;
                toOperator = filter (\<lambda>l. lc (tl_to l) \<in> set prohibited) outflows;
                window = no_fee_detail\<lparr>fd_operatorAddresses := prohibited\<rparr>
            in if toOperator = [] then [fee_ok vault ''none to an operator address'' ''0 direct operator transfers'' window]
               else
                 let settled = settled_keys r fromBlock toBlock;
                     leaks = filter (\<lambda>l. (tl_blockNumber l, lc (tl_to l)) \<notin> set settled) toOperator;
                     excused = int (length toOperator) - int (length leaks)
                 in if leaks = []
                    then [fee_ok vault ''all matched to a settlement'' ''0 direct operator transfers''
                            (window\<lparr>fd_excused := Some excused\<rparr>)]
                    else let total = sum_list (map tl_value leaks) in
                      [build_sig StAlert FEE_SIGNAL vault None ''FEE ROUTING VIOLATION''
                         (Some (show_int (int (length leaks)) @ '' transfer(s), '' @ show_int total @ '' USDC base units''))
                         (Some ''0 direct operator transfers'')
                         (window\<lparr>fd_excused := Some excused, fd_transfers := leaks, fd_total := total\<rparr>)])"

text \<open>A transfer the threat model prohibits: to an operator, with nothing settled for it in its block.\<close>

definition fee_leak :: "'e fee_reader \<Rightarrow> string jsset \<Rightarrow> int \<Rightarrow> int \<Rightarrow> transfer_log \<Rightarrow> bool" where
  "fee_leak r ops fromBlock toBlock l \<longleftrightarrow> lc (tl_to l) \<in> set ops
     \<and> \<not> (\<exists>s \<in> set (fr_exits r fromBlock toBlock @ fr_cancels r fromBlock toBlock).
            se_blockNumber s = tl_blockNumber l \<and> lc (se_member s) = lc (tl_to l))"

lemma leak_filter:
  "(lc (tl_to l) \<in> set p \<and> (tl_blockNumber l, lc (tl_to l)) \<notin> set (settled_keys r f t)) = fee_leak r p f t l"
  by (auto simp: fee_leak_def settled_keys_def image_iff)

text \<open>
  The routing check against the rule it enforces: with the registry readable, it is healthy exactly
  when no transfer out of the vault in the window is a leak, and otherwise it is one alert that
  lists every leaking transfer, in order, and their sum; what it excuses is the rest of the transfers
  to operators.
\<close>

theorem routing_alert_lists_every_leak:
  assumes "prohibited_set r vault registry extra = Inr ops"
    and "filter (fee_leak r ops f t) (fr_outflows r usdc f t) = leaks"
  shows "\<exists>x. checkFeeRouting r vault usdc registry extra f t = [x]
    \<and> sg_status x = (if leaks = [] then StOk else StAlert)
    \<and> fd_transfers (sg_detail x) = leaks \<and> fd_total (sg_detail x) = sum_list (map tl_value leaks)
    \<and> (leaks = [] \<or> fd_excused (sg_detail x)
         = Some (int (length (filter (\<lambda>l. lc (tl_to l) \<in> set ops) (fr_outflows r usdc f t))) - int (length leaks)))"
proof -
  let ?op = "filter (\<lambda>l. lc (tl_to l) \<in> set ops) (fr_outflows r usdc f t)"
  have l: "filter (\<lambda>l. (tl_blockNumber l, lc (tl_to l)) \<notin> set (settled_keys r f t)) ?op = leaks"
    unfolding filter_filter leak_filter assms(2) ..
  have none: "ops = [] \<Longrightarrow> leaks = []" "?op = [] \<Longrightarrow> leaks = []"
    using l by (auto simp del: filter_filter)
  show ?thesis
  proof (cases "ops = [] \<or> ?op = []")
    case True
    then show ?thesis using none assms(1)
      by (auto simp: checkFeeRouting_def fee_ok_def build_sig_def no_fee_detail_def Let_def)
  next
    case False
    then show ?thesis using assms(1) l
      by (simp add: checkFeeRouting_def fee_ok_def build_sig_def no_fee_detail_def Let_def del: filter_filter)
  qed
qed

text \<open>
  The one read whose failure the check does not report: a vault whose operator is registered, but
  whose operator's address the node would not tell, is reported healthy, as a vault with no operator
  is, whatever was transferred to whom.
\<close>

theorem unreadable_operator_reads_healthy:
  assumes "fr_operatorOf r reg vault = Inr opId" "opId \<noteq> 0" "fr_operatorAddressOf r reg opId = Inl e"
  shows "map sg_status (checkFeeRouting r vault usdc (Some reg) [] f t) = [StOk]"
  using assms by (simp add: checkFeeRouting_def prohibited_set_def fee_ok_def build_sig_def set_of_list_def)

definition sample_fees :: "(unit + string) \<Rightarrow> unit fee_reader" where
  "sample_fees a =
     \<lparr> fr_operatorOf = (\<lambda>_ _. Inr 7), fr_operatorAddressOf = (\<lambda>_ _. a),
       fr_outflows = (\<lambda>_ _ _. [\<lparr> tl_to = ''0xAb'', tl_value = 5, tl_blockNumber = 10, tl_txHash = None \<rparr>,
                              \<lparr> tl_to = ''0xab'', tl_value = 9, tl_blockNumber = 11, tl_txHash = None \<rparr>]),
       fr_exits = (\<lambda>_ _. [\<lparr> se_member = ''0xab'', se_blockNumber = 10 \<rparr>]), fr_cancels = (\<lambda>_ _. []) \<rparr>"

lemma routing_alert_lists_every_leak_witness:
  "\<exists>x. checkFeeRouting (sample_fees (Inr ''0xAB'')) ''0xv'' ''0xusdc'' (Some ''0xreg'') [] 0 20 = [x]
     \<and> sg_status x = StAlert \<and> map tl_value (fd_transfers (sg_detail x)) = [9]"
proof -
  have lcs: "lc ''0xAB'' = ''0xab''" "lc ''0xAb'' = ''0xab''" "lc ''0xab'' = ''0xab''" by code_simp+
  have p: "prohibited_set (sample_fees (Inr ''0xAB'')) ''0xv'' (Some ''0xreg'') [] = Inr [''0xab'']"
    by (simp add: prohibited_set_def sample_fees_def set_of_list_def jadd_def lcs)
  have "filter (fee_leak (sample_fees (Inr ''0xAB'')) [''0xab''] 0 20) (fr_outflows (sample_fees (Inr ''0xAB'')) ''0xusdc'' 0 20)
      = [\<lparr> tl_to = ''0xab'', tl_value = 9, tl_blockNumber = 11, tl_txHash = None \<rparr>]"
    by (simp add: fee_leak_def sample_fees_def lcs)
  then show ?thesis using routing_alert_lists_every_leak [OF p] by fastforce
qed

lemma unreadable_operator_reads_healthy_witness:
  "map sg_status (checkFeeRouting (sample_fees (Inl ())) ''0xv'' ''0xusdc'' (Some ''0xreg'') [] 0 20) = [StOk]"
  by (rule unreadable_operator_reads_healthy [of _ _ _ 7 "()"]) (simp_all add: sample_fees_def)

end
