(* ===== verification/Canary_Oracle.thy ===== *)
theory Canary_Oracle
  imports Complex_Main Canary_Tracker
begin

text \<open>
  The oracle signals of the canary: the live oracle, \<open>packages/canary/src/signals/oracle-health.mjs\<close>, the
  retired aggregator, \<open>oracle-freshness.mjs\<close>, and the USDC reference, \<open>depeg-reference.mjs\<close>. A read is
  answered, reverts, or never reaches the chain. \<open>ChainlinkOracle.priceWad\<close> and
  \<open>OracleAggregator.priceWad\<close> are stated beside them. Causes are constructors; other sentences are tags.
\<close>

section \<open>Reads\<close>

datatype 'a rd = Ok 'a | Rev "string option" | Unreach

record round =
  rn_answer :: int
  rn_startedAt :: int
  rn_updatedAt :: int

record feed_config =
  fc_feed :: string
  fc_heartbeat :: int
  fc_scale :: int
  fc_minPriceWad :: int
  fc_maxPriceWad :: int

record oracle_reader =
  or_sequencerUptimeFeed :: "string rd"
  or_GRACE_PERIOD :: "int rd"
  or_usdc :: "string rd"
  or_feedOf :: "string \<Rightarrow> feed_config rd"
  or_priceWad :: "string \<Rightarrow> int rd"
  or_latestRoundData :: "string \<Rightarrow> round rd"
  or_assetConfig :: "string \<Rightarrow> (string list \<times> int \<times> int) rd"
  or_latestPrice :: "string \<Rightarrow> (int \<times> int) rd"
  or_decimals :: "string \<Rightarrow> int rd"

definition ORACLE_SIGNAL :: string where "ORACLE_SIGNAL = ''oracle-freshness''"
definition STALE_ORACLE :: string where "STALE_ORACLE = ''0xa2671f4b''"
definition DEFAULT_GRACE_PERIOD :: int where "DEFAULT_GRACE_PERIOD = 3600"
definition WARN_SAFETY_CADENCES :: int where "WARN_SAFETY_CADENCES = 2"
definition MAX_DERIVED_WARN_PCT :: int where "MAX_DERIVED_WARN_PCT = 90"

definition zero_addr :: "string \<Rightarrow> bool" where
  "zero_addr a \<longleftrightarrow> a = ''0x'' @ replicate 40 CHR ''0'' \<or> a = ''0X'' @ replicate 40 CHR ''0''"

section \<open>The early-warning bar\<close>

datatype bar_source = Manual | Derived | Off

record warn_bar =
  wb_source :: bar_source
  wb_pct :: "rat option"
  wb_warnAtSec :: "int option"
  wb_reason :: "string option"

definition deriveWarnAt :: "int \<Rightarrow> int option \<Rightarrow> int option \<times> rat option \<times> string option" where
  "deriveWarnAt heartbeat cadenceSec =
     (if \<not> heartbeat > 0 then (None, None, Some ''no heartbeat configured'')
      else case cadenceSec of
          None \<Rightarrow> (None, None, Some ''feed cadence unknown'')
        | Some c \<Rightarrow>
            if \<not> c > 0 then (None, None, Some ''feed cadence unknown'')
            else let warnAtSec = WARN_SAFETY_CADENCES * c;
                     rawPct = of_int (100 * warnAtSec) / of_int heartbeat :: rat;
                     pct = of_int \<lfloor>rawPct * 10 + 1 / 2\<rfloor> / 10
                 in if rawPct > of_int MAX_DERIVED_WARN_PCT
                    then (None, Some pct, Some ''heartbeat not wider than the cadence'')
                    else (Some warnAtSec, Some pct, None))"

definition resolveWarnBar :: "int \<Rightarrow> string \<Rightarrow> rat option \<Rightarrow> (string \<Rightarrow> int option) \<Rightarrow> warn_bar" where
  "resolveWarnBar heartbeat asset stalenessWarnPct cadenceByAsset =
     (case stalenessWarnPct of
        Some pct \<Rightarrow>
          let warnAtSec = (if pct > 0 \<and> heartbeat > 0 then Some \<lfloor>of_int heartbeat * pct / 100\<rfloor> else None) in
          \<lparr> wb_source = Manual, wb_pct = Some pct, wb_warnAtSec = warnAtSec,
            wb_reason = (if warnAtSec = None then Some ''ORACLE_STALENESS_WARN_PCT is set to 0'' else None) \<rparr>
      | None \<Rightarrow>
          (case deriveWarnAt heartbeat (cadenceByAsset (lc asset)) of
             (None, pct, reason) \<Rightarrow> \<lparr> wb_source = Off, wb_pct = pct, wb_warnAtSec = None, wb_reason = reason \<rparr>
           | (Some w, pct, reason) \<Rightarrow>
               \<lparr> wb_source = Derived, wb_pct = pct, wb_warnAtSec = Some w, wb_reason = None \<rparr>))"

section \<open>Causes\<close>

datatype cause =
    SequencerReverts
  | SequencerDown
  | SequencerUnusable
  | SequencerGrace
  | Unlisted
  | FeedReverts
  | NonPositive int
  | UnsetRound
  | FutureRound int
  | PastHeartbeat int
  | OutOfBand int

record oracle_detail =
  od_ageSec :: "int option"
  od_priceWadReverts :: bool
  od_cause :: "cause option"
  od_attributionGap :: bool
  od_warnAtSec :: "int option"
  od_warnBarSource :: "bar_source option"
  od_resumesAtSec :: "int option"

definition od_none :: oracle_detail where
  "od_none = \<lparr> od_ageSec = None, od_priceWadReverts = False, od_cause = None, od_attributionGap = False,
               od_warnAtSec = None, od_warnBarSource = None, od_resumesAtSec = None \<rparr>"

text \<open>\<open>describe\<close>: the first check of \<open>priceWad\<close> that would revert, and the age of the answer.\<close>

definition describe :: "feed_config \<Rightarrow> round rd \<Rightarrow> int \<Rightarrow> cause option \<times> int option" where
  "describe cfg rnd nowSec =
     (if zero_addr (fc_feed cfg) then (Some Unlisted, None)
      else case rnd of
          Unreach \<Rightarrow> (None, None)
        | Rev e \<Rightarrow> (Some FeedReverts, None)
        | Ok rd \<Rightarrow>
            let age = nowSec - rn_updatedAt rd in
            if rn_answer rd \<le> 0 then (Some (NonPositive (rn_answer rd)), Some age)
            else if rn_updatedAt rd = 0 then (Some UnsetRound, Some age)
            else if rn_updatedAt rd > nowSec then (Some (FutureRound (rn_updatedAt rd)), Some age)
            else if fc_heartbeat cfg > 0 \<and> age > fc_heartbeat cfg then (Some (PastHeartbeat age), Some age)
            else let priceWad = rn_answer rd * fc_scale cfg in
              if fc_maxPriceWad cfg \<noteq> 0 \<and> (priceWad < fc_minPriceWad cfg \<or> priceWad > fc_maxPriceWad cfg)
              then (Some (OutOfBand priceWad), Some age)
              else (None, Some age))"

section \<open>The sequencer leg\<close>

definition seq_alert :: "string \<Rightarrow> string \<Rightarrow> oracle_detail \<Rightarrow> oracle_detail sig" where
  "seq_alert vault message d = build_sig StAlert ORACLE_SIGNAL vault (Some ''sequencer'') message None None d"

definition sequencerLeg :: "oracle_reader \<Rightarrow> string \<Rightarrow> string \<Rightarrow> int \<Rightarrow> int \<Rightarrow> cause option \<times> oracle_detail sig" where
  "sequencerLeg r vault sequencerFeed nowSec grace =
     (if zero_addr sequencerFeed
      then (None, notApplicable ORACLE_SIGNAL vault (Some ''sequencer'') ''sequencer check inactive'' od_none)
      else case or_latestRoundData r sequencerFeed of
          Unreach \<Rightarrow> (None, detectorBroken ORACLE_SIGNAL vault (Some ''sequencer'') ''SEQUENCER GATE DETECTOR BLIND'' od_none)
        | Rev e \<Rightarrow> (Some SequencerReverts, seq_alert vault ''SEQUENCER UPTIME FEED UNREADABLE'' od_none)
        | Ok rd \<Rightarrow>
            if rn_answer rd \<noteq> 0 then (Some SequencerDown, seq_alert vault ''BASE SEQUENCER DOWN'' od_none)
            else if rn_startedAt rd = 0 \<or> rn_startedAt rd > nowSec
            then (Some SequencerUnusable, seq_alert vault ''SEQUENCER UPTIME ROUND UNUSABLE'' od_none)
            else let upFor = nowSec - rn_startedAt rd in
              if upFor \<le> grace
              then (Some SequencerGrace, seq_alert vault ''SEQUENCER GRACE PERIOD''
                      (od_none\<lparr>od_resumesAtSec := Some (rn_startedAt rd + grace + 1)\<rparr>))
              else (None, build_sig StOk ORACLE_SIGNAL vault (Some ''sequencer'') ''sequencer up''
                      (Some (''up '' @ show_int upFor @ ''s'')) (Some (''> '' @ show_int grace @ ''s since startedAt'')) od_none))"

section \<open>One basket asset\<close>

definition frozen_message :: "string option \<Rightarrow> cause option \<Rightarrow> string" where
  "frozen_message revertData c =
     ''ORACLE FROZEN: reverts '' @ (if map_option (\<lambda>d. lc (take 10 d)) revertData = Some STALE_ORACLE then ''StaleOracle''
        else ''with '' @ (case revertData of Some d \<Rightarrow> d | None \<Rightarrow> ''no data''))
     @ (if c = None then '', attribution missing'' else [])"

definition healthy_line :: "string \<Rightarrow> string \<Rightarrow> feed_config \<Rightarrow> int option \<Rightarrow> oracle_detail \<Rightarrow> oracle_detail sig" where
  "healthy_line vault asset cfg ageSec d =
     build_sig StOk ORACLE_SIGNAL vault (Some asset) ''oracle healthy''
       (Some (case ageSec of Some age \<Rightarrow> ''age '' @ show_int age @ ''s'' | None \<Rightarrow> ''priceWad returns''))
       (Some (if fc_heartbeat cfg > 0 then ''<= '' @ show_int (fc_heartbeat cfg) @ ''s heartbeat'' else ''priceWad returns'')) d"

definition assetLeg ::
  "oracle_reader \<Rightarrow> string \<Rightarrow> string \<Rightarrow> int \<Rightarrow> string option \<Rightarrow> cause option \<Rightarrow> rat option \<Rightarrow> (string \<Rightarrow> int option)
   \<Rightarrow> oracle_detail sig" where
  "assetLeg r vault asset nowSec pinned sequencerCause stalenessWarnPct cadenceByAsset =
     (case or_feedOf r asset of
        Rev e \<Rightarrow> detectorBroken ORACLE_SIGNAL vault (Some asset) ''feedOf() reverts'' od_none
      | Unreach \<Rightarrow> detectorBroken ORACLE_SIGNAL vault (Some asset) ''feedOf() could not be read'' od_none
      | Ok cfg \<Rightarrow>
          if (case pinned of Some p \<Rightarrow> lc asset = lc p | None \<Rightarrow> False)
          then build_sig StOk ORACLE_SIGNAL vault (Some asset) ''pinned USDC leg'' (Some ''pinned 1e18'') (Some ''pinned'') od_none
          else
            let rnd = (if zero_addr (fc_feed cfg) then Rev None else or_latestRoundData r (fc_feed cfg));
                (fcause, ageSec) = describe cfg rnd nowSec;
                detail = od_none\<lparr>od_ageSec := ageSec\<rparr>
            in (case or_priceWad r asset of
                Unreach \<Rightarrow> detectorBroken ORACLE_SIGNAL vault (Some asset) ''priceWad() could not be read'' detail
              | Rev revertData \<Rightarrow>
                  let c = (case sequencerCause of Some s \<Rightarrow> Some s | None \<Rightarrow> fcause) in
                  build_sig StAlert ORACLE_SIGNAL vault (Some asset) (frozen_message revertData c)
                    (Some ''priceWad reverts'') (Some ''priceWad returns'')
                    (detail\<lparr>od_priceWadReverts := True, od_cause := c, od_attributionGap := (c = None)\<rparr>)
              | Ok price \<Rightarrow>
                  let bar = resolveWarnBar (fc_heartbeat cfg) asset stalenessWarnPct cadenceByAsset;
                      d = detail\<lparr>od_warnAtSec := wb_warnAtSec bar, od_warnBarSource := Some (wb_source bar)\<rparr>
                  in (case (wb_warnAtSec bar, ageSec) of
                      (Some w, Some age) \<Rightarrow>
                        if age \<ge> w
                        then build_sig StAlert ORACLE_SIGNAL vault (Some asset) ''oracle answer AGEING''
                               (Some (''age '' @ show_int age @ ''s'')) (Some (''< '' @ show_int w @ ''s'')) d
                        else healthy_line vault asset cfg ageSec d
                    | _ \<Rightarrow> healthy_line vault asset cfg ageSec d)))"

definition checkChainlinkOracle ::
  "oracle_reader \<Rightarrow> string \<Rightarrow> string list \<Rightarrow> int \<Rightarrow> string \<Rightarrow> rat option \<Rightarrow> (string \<Rightarrow> int option) \<Rightarrow> oracle_detail sig list" where
  "checkChainlinkOracle r vault assets nowSec sequencerFeed stalenessWarnPct cadenceByAsset =
     (let grace = (case or_GRACE_PERIOD r of Ok g \<Rightarrow> g | _ \<Rightarrow> DEFAULT_GRACE_PERIOD);
          (sequencerCause, s) = sequencerLeg r vault sequencerFeed nowSec grace;
          pinned = (case or_usdc r of Ok u \<Rightarrow> if zero_addr u then None else Some u | _ \<Rightarrow> None)
      in s # map (\<lambda>a. assetLeg r vault a nowSec pinned sequencerCause stalenessWarnPct cadenceByAsset) assets)"

section \<open>The live oracle\<close>

text \<open>
  What the chain holds, and \<open>ChainlinkOracle\<close> over it: \<open>None\<close> is a revert of \<open>StaleOracle\<close>. An
  address a feed lives at reverts or answers its round.
\<close>

record chainlink_world =
  cw_sequencerUptimeFeed :: string
  cw_usdc :: string
  cw_feedOf :: "string \<Rightarrow> feed_config"
  cw_round :: "string \<Rightarrow> round option"
  cw_now :: int

definition sol_sequencer_up :: "chainlink_world \<Rightarrow> bool" where
  "sol_sequencer_up w \<longleftrightarrow> zero_addr (cw_sequencerUptimeFeed w)
     \<or> (case cw_round w (cw_sequencerUptimeFeed w) of
          None \<Rightarrow> False
        | Some rd \<Rightarrow> rn_answer rd = 0 \<and> \<not> (rn_startedAt rd = 0 \<or> rn_startedAt rd > cw_now w)
            \<and> \<not> cw_now w - rn_startedAt rd \<le> 3600)"

definition sol_price :: "chainlink_world \<Rightarrow> string \<Rightarrow> int option" where
  "sol_price w asset =
     (if \<not> sol_sequencer_up w then None
      else if \<not> zero_addr (cw_usdc w) \<and> lc asset = lc (cw_usdc w) then Some (10 ^ 18)
      else let cfg = cw_feedOf w asset in
        if zero_addr (fc_feed cfg) then None
        else (case cw_round w (fc_feed cfg) of
            None \<Rightarrow> None
          | Some rd \<Rightarrow>
              let minUpdated = (if cw_now w > fc_heartbeat cfg then cw_now w - fc_heartbeat cfg else 0);
                  p = rn_answer rd * fc_scale cfg
              in if rn_answer rd \<le> 0 \<or> rn_updatedAt rd = 0 \<or> rn_updatedAt rd > cw_now w \<or> rn_updatedAt rd < minUpdated
                    \<or> fc_maxPriceWad cfg \<noteq> 0 \<and> (p < fc_minPriceWad cfg \<or> p > fc_maxPriceWad cfg)
                 then None else Some p))"

definition rd_of :: "'a option \<Rightarrow> 'a rd" where
  "rd_of x = (case x of Some v \<Rightarrow> Ok v | None \<Rightarrow> Rev (Some STALE_ORACLE))"

text \<open>A reader whose calls all reach this chain, in one state.\<close>

definition reads_world :: "oracle_reader \<Rightarrow> chainlink_world \<Rightarrow> bool" where
  "reads_world r w \<longleftrightarrow> or_sequencerUptimeFeed r = Ok (cw_sequencerUptimeFeed w) \<and> or_GRACE_PERIOD r = Ok 3600
     \<and> or_usdc r = Ok (cw_usdc w)
     \<and> (\<forall>a. or_feedOf r a = Ok (cw_feedOf w a) \<and> or_priceWad r a = rd_of (sol_price w a)
            \<and> or_latestRoundData r a = rd_of (cw_round w a))"

lemma sequencerLeg_cause:
  assumes "reads_world r w"
  shows "(fst (sequencerLeg r vault (cw_sequencerUptimeFeed w) (cw_now w) 3600) = None) = sol_sequencer_up w"
    and "sg_status (snd (sequencerLeg r vault (cw_sequencerUptimeFeed w) (cw_now w) 3600)) =
      (if sol_sequencer_up w then StOk else StAlert)"
  using assms
  by (auto simp: sequencerLeg_def sol_sequencer_up_def reads_world_def rd_of_def seq_alert_def notApplicable_def
      build_sig_def Let_def split: option.splits)

definition is_pin :: "chainlink_world \<Rightarrow> string \<Rightarrow> bool" where
  "is_pin w a \<longleftrightarrow> \<not> zero_addr (cw_usdc w) \<and> lc a = lc (cw_usdc w)"

text \<open>With a positive heartbeat and stamps that are not negative, the attribution finds the check that reverts.\<close>

lemma describe_cause:
  assumes "reads_world r w" "sol_sequencer_up w" "\<not> is_pin w a" "cw_feedOf w a = cfg" "0 < fc_heartbeat cfg"
    and "\<And>rd. cw_round w (fc_feed cfg) = Some rd \<Longrightarrow> 0 \<le> rn_updatedAt rd"
  shows "(fst (describe cfg (if zero_addr (fc_feed cfg) then Rev None else or_latestRoundData r (fc_feed cfg)) (cw_now w)) = None)
    = (sol_price w a \<noteq> None)"
proof (cases "zero_addr (fc_feed cfg)")
  case True
  then show ?thesis using assms(2-4) by (simp add: describe_def sol_price_def is_pin_def Let_def)
next
  case False
  show ?thesis
  proof (cases "cw_round w (fc_feed cfg)")
    case None
    then show ?thesis using assms(1-4) False
      by (simp add: describe_def sol_price_def is_pin_def Let_def reads_world_def rd_of_def)
  next
    case (Some rd)
    have u: "0 \<le> rn_updatedAt rd" using assms(6) Some .
    have "(rn_updatedAt rd < (if cw_now w > fc_heartbeat cfg then cw_now w - fc_heartbeat cfg else 0))
        = (cw_now w - rn_updatedAt rd > fc_heartbeat cfg)" if "rn_updatedAt rd \<le> cw_now w"
      using u that by auto
    then show ?thesis using assms(1-5) False Some
      by (auto simp: describe_def sol_price_def is_pin_def Let_def reads_world_def rd_of_def)
  qed
qed

lemma assetLeg_cases:
  assumes "or_feedOf r a = Ok cfg" "case pinned of Some p \<Rightarrow> lc a \<noteq> lc p | None \<Rightarrow> True"
    and "describe cfg (if zero_addr (fc_feed cfg) then Rev None else or_latestRoundData r (fc_feed cfg)) now = (fc, age)"
    and "assetLeg r vault a now pinned sc warn cad = x"
  shows "or_priceWad r a = Unreach \<Longrightarrow> blind x \<and> \<not> od_priceWadReverts (sg_detail x) \<and> od_cause (sg_detail x) = None"
    and "or_priceWad r a = Rev e \<Longrightarrow> sg_status x = StAlert \<and> od_priceWadReverts (sg_detail x)
      \<and> od_cause (sg_detail x) = (if sc = None then fc else sc) \<and> od_attributionGap (sg_detail x) = (od_cause (sg_detail x) = None)"
    and "or_priceWad r a = Ok p \<Longrightarrow> od_cause (sg_detail x) = None \<and> \<not> od_priceWadReverts (sg_detail x)
      \<and> \<not> od_attributionGap (sg_detail x)
      \<and> sg_status x = (case (wb_warnAtSec (resolveWarnBar (fc_heartbeat cfg) a warn cad), age) of
            (Some w, Some n) \<Rightarrow> if n \<ge> w then StAlert else StOk | _ \<Rightarrow> StOk)"
  using assms(1-3) unfolding assms(4) [symmetric]
  by (auto simp: assetLeg_def detectorBroken_def build_sig_def healthy_line_def blind_def od_none_def Let_def
      split: option.splits prod.splits)

definition sequencer_cause :: "cause \<Rightarrow> bool" where
  "sequencer_cause c \<longleftrightarrow> c \<in> {SequencerReverts, SequencerDown, SequencerUnusable, SequencerGrace}"

lemma sequencerLeg_is_sequencer: "fst (sequencerLeg r vault f now g) = Some c \<Longrightarrow> sequencer_cause c"
  by (auto simp: sequencerLeg_def sequencer_cause_def Let_def split: rd.splits if_splits)

lemma describe_not_sequencer: "fst (describe cfg rnd now) = Some c \<Longrightarrow> \<not> sequencer_cause c"
  by (auto simp: describe_def sequencer_cause_def Let_def split: rd.splits if_splits)


text \<open>
  A busy network never pages a freeze. Whatever the reader answers, a result says that \<open>priceWad\<close>
  reverts only if the reader saw it revert; if the call did not get there the result is blind.
\<close>

theorem unreachable_is_never_frozen:
  assumes "i < length assets"
    and "checkChainlinkOracle r vault assets now seqFeed warn cad ! Suc i = x"
  shows "(od_priceWadReverts (sg_detail x) \<longrightarrow> (\<exists>e. or_priceWad r (assets ! i) = Rev e))
    \<and> (or_priceWad r (assets ! i) = Unreach \<longrightarrow> blind x \<or> sg_measured x = Some ''pinned 1e18'')
    \<and> (od_cause (sg_detail x) \<noteq> None \<longrightarrow> od_priceWadReverts (sg_detail x))"
proof -
  define a where "a = assets ! i"
  define pinned where "pinned = (case or_usdc r of Ok u \<Rightarrow> if zero_addr u then None else Some u | _ \<Rightarrow> None)"
  obtain sc s where sq: "sequencerLeg r vault seqFeed now (case or_GRACE_PERIOD r of Ok g \<Rightarrow> g | _ \<Rightarrow> DEFAULT_GRACE_PERIOD) = (sc, s)"
    by fastforce
  have x: "assetLeg r vault a now pinned sc warn cad = x"
    using assms sq by (simp add: checkChainlinkOracle_def pinned_def a_def)
  consider (cfg) cfg where "or_feedOf r a = Ok cfg" "case pinned of Some p \<Rightarrow> lc a \<noteq> lc p | None \<Rightarrow> True"
    | (pin) cfg where "or_feedOf r a = Ok cfg" "case pinned of Some p \<Rightarrow> lc a = lc p | None \<Rightarrow> False"
    | (none) "\<forall>cfg. or_feedOf r a \<noteq> Ok cfg"
    by (cases "or_feedOf r a"; cases pinned) auto
  then show ?thesis
  proof cases
    case cfg
    obtain fc age where ds: "describe cfg (if zero_addr (fc_feed cfg) then Rev None else or_latestRoundData r (fc_feed cfg)) now = (fc, age)"
      by fastforce
    show ?thesis using assetLeg_cases [OF cfg ds x] unfolding a_def by (cases "or_priceWad r (assets ! i)") auto
  next
    case pin
    then have "sg_measured x = Some ''pinned 1e18''" "sg_detail x = od_none"
      unfolding x [symmetric] by (simp_all add: assetLeg_def build_sig_def)
    then show ?thesis by (simp add: od_none_def)
  next
    case none
    then have "blind x" "sg_detail x = od_none"
      unfolding x [symmetric] by (auto simp: assetLeg_def detectorBroken_def build_sig_def blind_def split: rd.splits)
    then show ?thesis by (simp add: od_none_def)
  qed
qed

text \<open>
  The moment the sequencer alert names is the first at which the gate opens: while the restart is
  the last transition of the uptime feed, pricing is refused before it and allowed from it on.
\<close>

theorem grace_alert_names_the_resumption:
  assumes "reads_world r w"
    and "od_resumesAtSec (sg_detail (snd (sequencerLeg r vault (cw_sequencerUptimeFeed w) (cw_now w) 3600))) = Some t"
  shows "cw_now w < t \<and> (\<forall>now' \<ge> cw_now w. sol_sequencer_up (w\<lparr>cw_now := now'\<rparr>) \<longleftrightarrow> t \<le> now')"
proof -
  obtain rd where rd: "or_latestRoundData r (cw_sequencerUptimeFeed w) = Ok rd" "\<not> zero_addr (cw_sequencerUptimeFeed w)"
    "rn_answer rd = 0" "rn_startedAt rd \<noteq> 0" "rn_startedAt rd \<le> cw_now w" "cw_now w - rn_startedAt rd \<le> 3600"
    "t = rn_startedAt rd + 3601"
    using assms(2)
    by (auto simp: sequencerLeg_def seq_alert_def notApplicable_def detectorBroken_def build_sig_def od_none_def
        Let_def not_less split: rd.splits if_splits)
  have "or_latestRoundData r (cw_sequencerUptimeFeed w) = rd_of (cw_round w (cw_sequencerUptimeFeed w))"
    using assms(1) by (simp add: reads_world_def)
  then have "cw_round w (cw_sequencerUptimeFeed w) = Some rd" using rd(1) by (simp add: rd_of_def split: option.splits)
  then show ?thesis using rd(2-7) by (auto simp: sol_sequencer_up_def)
qed

text \<open>
  The derived bar exists exactly when twice the cadence is at most nine tenths of the heartbeat, and
  is that: so it never alerts on a feed younger than two cadences, and every age that freezes the
  asset has alerted before.
\<close>

theorem derived_bar_is_between_cadence_and_freeze:
  "(\<exists>pct. deriveWarnAt heartbeat (Some c) = (Some w, pct, None))
     \<longleftrightarrow> 0 < heartbeat \<and> 0 < c \<and> w = 2 * c \<and> 20 * c \<le> 9 * heartbeat"
proof -
  have "(of_int (100 * (2 * c)) / of_int heartbeat \<le> (90 :: rat)) = (20 * c \<le> 9 * heartbeat)" if "0 < heartbeat"
  proof -
    have "(of_int (100 * (2 * c)) / of_int heartbeat \<le> (90 :: rat)) = (of_int (100 * (2 * c)) \<le> (of_int (90 * heartbeat) :: rat))"
      using that by (simp add: divide_le_eq)
    also have "\<dots> = (100 * (2 * c) \<le> 90 * heartbeat)" by (rule of_int_le_iff)
    finally show ?thesis by simp
  qed
  then show ?thesis
    by (auto simp: deriveWarnAt_def WARN_SAFETY_CADENCES_def MAX_DERIVED_WARN_PCT_def Let_def not_less split: if_splits)
qed

section \<open>The retired aggregator\<close>

datatype bucket = Fresh | Stale | Unreadable

definition source_bucket :: "int \<Rightarrow> (int \<times> int) rd \<Rightarrow> bucket" where
  "source_bucket minUpdated res = (case res of
      Unreach \<Rightarrow> Unreadable
    | Rev e \<Rightarrow> Stale
    | Ok (priceWad, updatedAt) \<Rightarrow> if priceWad > 0 \<and> updatedAt \<ge> minUpdated then Fresh else Stale)"

record margin_detail =
  md_fresh :: int
  md_total :: int
  md_quorum :: int
  md_margin :: int
  md_unreadable :: int

definition count_bucket :: "bucket \<Rightarrow> bucket list \<Rightarrow> int" where
  "count_bucket b bs = int (length (filter (\<lambda>x. x = b) bs))"

definition check_aggregator_asset ::
  "oracle_reader \<Rightarrow> string \<Rightarrow> int \<Rightarrow> int \<Rightarrow> string \<Rightarrow> margin_detail option sig" where
  "check_aggregator_asset r vault nowSec minMargin asset =
     (case or_assetConfig r asset of
        Ok (sources, maxStaleness, quorum) \<Rightarrow>
          if sources = []
          then build_sig StAlert ORACLE_SIGNAL vault (Some asset) ''oracle has NO sources'' (Some ''0 sources'') (Some ''>= 3 sources'') None
          else
            let minUpdated = (if nowSec > maxStaleness then nowSec - maxStaleness else 0);
                buckets = map (\<lambda>s. source_bucket minUpdated (or_latestPrice r s)) sources;
                fresh = count_bucket Fresh buckets; unreadable = count_bucket Unreadable buckets;
                margin = fresh - quorum;
                d = Some \<lparr> md_fresh = fresh, md_total = int (length sources), md_quorum = quorum, md_margin = margin,
                       md_unreadable = unreadable \<rparr>
            in if unreadable > 0 \<and> fresh + unreadable \<ge> quorum \<and> margin \<le> minMargin
               then (detectorBroken ORACLE_SIGNAL vault (Some asset) ''ORACLE FRESHNESS DETECTOR BLIND'' d)
                 \<lparr>sg_measured := Some (show_int fresh @ '' confirmed fresh, '' @ show_int unreadable @ '' unreadable''),
                  sg_threshold := Some (''>= '' @ show_int quorum @ '' (quorum)'')\<rparr>
               else if margin < 0
               then build_sig StAlert ORACLE_SIGNAL vault (Some asset) ''oracle breaker TRIPPED'' (Some (show_int fresh @ '' fresh''))
                      (Some (''>= '' @ show_int quorum @ '' (quorum)'')) d
               else if margin \<le> minMargin
               then build_sig StAlert ORACLE_SIGNAL vault (Some asset) ''oracle freshness margin'' (Some (''margin '' @ show_int margin))
                      (Some (''> '' @ show_int minMargin)) d
               else build_sig StOk ORACLE_SIGNAL vault (Some asset) ''oracle margin'' (Some (''margin '' @ show_int margin))
                      (Some (''> '' @ show_int minMargin)) d
      | _ \<Rightarrow> build_sig StSkipped ORACLE_SIGNAL vault (Some asset) ''oracle config unreadable'' None None None)"

definition checkOracleFreshness ::
  "oracle_reader \<Rightarrow> string \<Rightarrow> string list \<Rightarrow> int \<Rightarrow> int \<Rightarrow> margin_detail option sig list" where
  "checkOracleFreshness r vault assets nowSec minMargin = map (check_aggregator_asset r vault nowSec minMargin) assets"

text \<open>
  \<open>OracleAggregator.priceWad\<close> over what its sources really say: \<open>None\<close> for one that reverts or answers
  malformed data. It prices with a quorum of fresh sources, and never with fewer than three.
\<close>

definition fresh_sources :: "int \<Rightarrow> int \<Rightarrow> (string \<Rightarrow> (int \<times> int) option) \<Rightarrow> string list \<Rightarrow> string list" where
  "fresh_sources now maxStaleness actual sources =
     filter (\<lambda>s. case actual s of None \<Rightarrow> False
                 | Some (p, u) \<Rightarrow> p > 0 \<and> u \<ge> (if now > maxStaleness then now - maxStaleness else 0)) sources"

definition sol_aggregator_prices :: "int \<Rightarrow> int \<Rightarrow> int \<Rightarrow> (string \<Rightarrow> (int \<times> int) option) \<Rightarrow> string list \<Rightarrow> bool" where
  "sol_aggregator_prices now maxStaleness quorum actual sources \<longleftrightarrow>
     sources \<noteq> [] \<and> (let k = int (length (fresh_sources now maxStaleness actual sources)) in k \<ge> quorum \<and> k \<ge> 3)"

text \<open>What the sources may really say, when some could not be read.\<close>

definition sources_agree :: "oracle_reader \<Rightarrow> (string \<Rightarrow> (int \<times> int) option) \<Rightarrow> bool" where
  "sources_agree r actual \<longleftrightarrow> (\<forall>s. case or_latestPrice r s of
      Ok v \<Rightarrow> actual s = Some v | Rev e \<Rightarrow> actual s = None | Unreach \<Rightarrow> True)"

lemma count_bucket_nonneg: "0 \<le> count_bucket b xs"
  by (simp add: count_bucket_def)

lemma count_bucket_bounds:
  "(\<And>s. f s = Fresh \<Longrightarrow> P s) \<Longrightarrow> count_bucket Fresh (map f xs) \<le> int (length (filter P xs))"
  "(\<And>s. P s \<Longrightarrow> f s = Fresh \<or> f s = Unreadable)
     \<Longrightarrow> int (length (filter P xs)) \<le> count_bucket Fresh (map f xs) + count_bucket Unreadable (map f xs)"
  by (induction xs) (auto simp: count_bucket_def)

lemma source_bucket_agrees:
  assumes "sources_agree r actual"
  shows "source_bucket m (or_latestPrice r s) = Fresh \<Longrightarrow> (case actual s of None \<Rightarrow> False | Some (p, u) \<Rightarrow> p > 0 \<and> u \<ge> m)"
    and "(case actual s of None \<Rightarrow> False | Some (p, u) \<Rightarrow> p > 0 \<and> u \<ge> m)
      \<Longrightarrow> source_bucket m (or_latestPrice r s) = Fresh \<or> source_bucket m (or_latestPrice r s) = Unreadable"
  using assms [unfolded sources_agree_def, rule_format, of s]
  by (auto simp: source_bucket_def split: rd.splits option.splits prod.splits if_splits)

lemma count_bucket_filter:
  assumes "sources_agree r actual"
  shows "count_bucket Fresh (map (\<lambda>s. source_bucket (if now > ms then now - ms else 0) (or_latestPrice r s)) sources)
      \<le> int (length (fresh_sources now ms actual sources))"
    and "int (length (fresh_sources now ms actual sources))
      \<le> count_bucket Fresh (map (\<lambda>s. source_bucket (if now > ms then now - ms else 0) (or_latestPrice r s)) sources)
        + count_bucket Unreadable (map (\<lambda>s. source_bucket (if now > ms then now - ms else 0) (or_latestPrice r s)) sources)"
  unfolding fresh_sources_def
  by (rule count_bucket_bounds, rule source_bucket_agrees [OF assms], assumption)+

lemma length_filter_lost:
  assumes "distinct xs"
  shows "length (filter P xs) \<le> length (filter (\<lambda>x. x \<notin> set lost \<and> P x) xs) + length lost"
proof -
  have "set (filter P xs) \<subseteq> set (filter (\<lambda>x. x \<notin> set lost \<and> P x) xs) \<union> set lost" by auto
  then have "card (set (filter P xs)) \<le> card (set (filter (\<lambda>x. x \<notin> set lost \<and> P x) xs) \<union> set lost)"
    by (intro card_mono) auto
  also have "\<dots> \<le> card (set (filter (\<lambda>x. x \<notin> set lost \<and> P x) xs)) + card (set lost)" by (rule card_Un_le)
  also have "\<dots> \<le> length (filter (\<lambda>x. x \<notin> set lost \<and> P x) xs) + length lost"
    by (intro add_mono card_length)
  finally show ?thesis using distinct_card [OF distinct_filter [OF assms, of P]] by linarith
qed

text \<open>
  The verdicts on the aggregator hold whatever the sources that could not be read would have said.
  With a quorum the contract's constructor accepts, over distinct sources: "tripped" is said only if
  the contract refuses to price, and "ok" only if it prices, and still prices after the loss of any
  one source more than the configured margin.
\<close>

theorem aggregator_verdicts_are_sound:
  assumes "or_assetConfig r asset = Ok (sources, ms, quorum)" and "3 \<le> quorum" and "distinct sources" and "0 \<le> minMargin"
    and "sources_agree r actual" and "check_aggregator_asset r vault now minMargin asset = x"
  shows "(sg_message x = ''oracle breaker TRIPPED'' \<longrightarrow> \<not> sol_aggregator_prices now ms quorum actual sources)
    \<and> (sg_status x = StOk \<longrightarrow> (\<forall>lost. int (length lost) \<le> minMargin + 1
         \<longrightarrow> sol_aggregator_prices now ms quorum (\<lambda>s. if s \<in> set lost then None else actual s) sources))"
proof -
  let ?b = "map (\<lambda>s. source_bucket (if now > ms then now - ms else 0) (or_latestPrice r s)) sources"
  define fr where "fr = count_bucket Fresh ?b"
  define un where "un = count_bucket Unreadable ?b"
  define k where "k = int (length (fresh_sources now ms actual sources))"
  have b: "fr \<le> k" "k \<le> fr + un" unfolding fr_def un_def k_def by (rule count_bucket_filter [OF assms(5)])+
  have "0 \<le> un" unfolding un_def by (rule count_bucket_nonneg)
  have trip: "sg_message x = ''oracle breaker TRIPPED'' \<Longrightarrow> fr < quorum \<and> (un = 0 \<or> fr + un < quorum)"
    using assms(1,4) count_bucket_nonneg [of Unreadable ?b] unfolding assms(6) [symmetric] fr_def un_def
    by (auto simp: check_aggregator_asset_def detectorBroken_def build_sig_def Let_def not_less split: if_splits)
  have okk: "sg_status x = StOk \<Longrightarrow> sources \<noteq> [] \<and> fr - quorum > minMargin"
    using assms(1) unfolding assms(6) [symmetric] fr_def
    by (auto simp: check_aggregator_asset_def detectorBroken_def build_sig_def Let_def split: if_splits)
  have "\<not> sol_aggregator_prices now ms quorum actual sources" if "sg_message x = ''oracle breaker TRIPPED''"
    using trip [OF that] b \<open>0 \<le> un\<close> by (auto simp: sol_aggregator_prices_def Let_def k_def)
  moreover have "sol_aggregator_prices now ms quorum (\<lambda>s. if s \<in> set lost then None else actual s) sources"
    if "sg_status x = StOk" "int (length lost) \<le> minMargin + 1" for lost
  proof -
    let ?P = "\<lambda>s. case actual s of None \<Rightarrow> False | Some (p, u) \<Rightarrow> p > 0 \<and> u \<ge> (if now > ms then now - ms else 0)"
    have "fresh_sources now ms (\<lambda>s. if s \<in> set lost then None else actual s) sources = filter (\<lambda>s. s \<notin> set lost \<and> ?P s) sources"
      unfolding fresh_sources_def by (rule filter_cong) auto
    moreover have "k \<le> int (length (filter (\<lambda>s. s \<notin> set lost \<and> ?P s) sources)) + int (length lost)"
      using length_filter_lost [OF assms(3), of ?P lost] unfolding k_def fresh_sources_def by linarith
    ultimately show ?thesis using okk [OF that(1)] that(2) b(1) assms(2) by (simp add: sol_aggregator_prices_def)
  qed
  ultimately show ?thesis by blast
qed

text \<open>
  The margin of an aggregator whose quorum is two, as deployed before the contract asked for three
  fresh sources: with three fresh it is reported healthy at the default margin, while the loss of any
  one of them already stops the pricing.
\<close>

theorem quorum_two_hides_the_last_margin:
  assumes "or_assetConfig r asset = Ok ([s1, s2, s3], ms, 2)" and "sources_agree r actual"
    and "distinct [s1, s2, s3]" and "\<forall>s \<in> {s1, s2, s3}. source_bucket (if now > ms then now - ms else 0) (or_latestPrice r s) = Fresh"
  shows "sg_status (check_aggregator_asset r vault now 0 asset) = StOk
    \<and> sol_aggregator_prices now ms 2 actual [s1, s2, s3]
    \<and> (\<forall>s \<in> {s1, s2, s3}. \<not> sol_aggregator_prices now ms 2 (actual(s := None)) [s1, s2, s3])"
proof -
  have f: "case actual s of None \<Rightarrow> False | Some (p, u) \<Rightarrow> p > 0 \<and> u \<ge> (if now > ms then now - ms else 0)"
    if "s \<in> {s1, s2, s3}" for s
    using source_bucket_agrees(1) [OF assms(2)] assms(4) that by blast
  have "fresh_sources now ms actual [s1, s2, s3] = [s1, s2, s3]"
    unfolding fresh_sources_def filter_id_conv by (intro ballI f) simp
  moreover have "length (fresh_sources now ms (actual(s := None)) [s1, s2, s3]) < length [s1, s2, s3]"
    if "s \<in> {s1, s2, s3}" for s
    unfolding fresh_sources_def by (rule length_filter_less [of s]) (use that in auto)
  moreover have "map (\<lambda>s. source_bucket (if now > ms then now - ms else 0) (or_latestPrice r s)) [s1, s2, s3] = [Fresh, Fresh, Fresh]"
    using assms(4) by simp
  then have "sg_status (check_aggregator_asset r vault now 0 asset) = StOk"
    unfolding check_aggregator_asset_def assms(1) Let_def rd.case prod.case by (simp add: count_bucket_def build_sig_def)
  ultimately show ?thesis by (fastforce simp: sol_aggregator_prices_def Let_def)
qed

section \<open>Which oracle is deployed\<close>

datatype oracle_signals =
    Live "oracle_detail sig list"
  | Retired "margin_detail option sig list"
  | Blind "bool sig"

definition is_ok :: "'a rd \<Rightarrow> bool" where "is_ok x = (case x of Ok _ \<Rightarrow> True | _ \<Rightarrow> False)"

text \<open>\<open>checkOracleSignals\<close>; the detail of a blind result says whether a probe was lost on the way.\<close>

definition checkOracleSignals ::
  "oracle_reader \<Rightarrow> string \<Rightarrow> string list \<Rightarrow> int \<Rightarrow> int \<Rightarrow> rat option \<Rightarrow> (string \<Rightarrow> int option) \<Rightarrow> oracle_signals" where
  "checkOracleSignals r vault assets nowSec minMargin stalenessWarnPct cadenceByAsset =
     (if assets = [] then Live []
      else case or_sequencerUptimeFeed r of
          Ok f \<Rightarrow> Live (checkChainlinkOracle r vault assets nowSec f stalenessWarnPct cadenceByAsset)
        | seq \<Rightarrow>
            if is_ok (or_assetConfig r (hd assets)) then Retired (checkOracleFreshness r vault assets nowSec minMargin)
            else let unreachable = (seq = Unreach \<or> or_assetConfig r (hd assets) = Unreach) in
              Blind (detectorBroken ORACLE_SIGNAL vault (Some ''flavor'') ''ORACLE DETECTOR BLIND'' unreachable))"

section \<open>The USDC reference\<close>

definition DEPEG_SIGNAL :: string where "DEPEG_SIGNAL = ''depeg-reference''"
definition LOWER_BOUND_WAD :: int where "LOWER_BOUND_WAD = 995 * 10 ^ 15"
definition UPPER_BOUND_WAD :: int where "UPPER_BOUND_WAD = 1005 * 10 ^ 15"
definition UNREADABLE_SWEEPS :: int where "UNREADABLE_SWEEPS = 3"
definition DEFAULT_MAX_AGE_SEC :: int where "DEFAULT_MAX_AGE_SEC = 90000"

definition scaleForDecimals :: "int \<Rightarrow> int option" where
  "scaleForDecimals d = (if d < 0 \<or> d > 18 then None else Some (10 ^ nat (18 - d)))"

definition formatUsd :: "int \<Rightarrow> string" where
  "formatUsd priceWad =
     (let cents = (if priceWad < 0 then - bdiv (- priceWad * 10000) (10 ^ 18) else bdiv (priceWad * 10000) (10 ^ 18));
          a = (if cents < 0 then - cents else cents)
      in CHR ''$'' # (if cents < 0 then ''-'' else []) @ show_int (bdiv a 10000) @ ''.''
           @ pad_start 4 (CHR ''0'') (show_int (bmod a 10000)))"

record depeg_detail =
  dg_answer :: "int option"
  dg_priceWad :: "int option"
  dg_ageSec :: "int option"

definition dg_none :: depeg_detail where "dg_none = \<lparr> dg_answer = None, dg_priceWad = None, dg_ageSec = None \<rparr>"

definition depeg_blind :: "string \<Rightarrow> string \<Rightarrow> depeg_detail \<Rightarrow> depeg_detail sig" where
  "depeg_blind vault message d = detectorBroken DEPEG_SIGNAL vault None message d"

definition checkDepegReference ::
  "oracle_reader \<Rightarrow> string \<Rightarrow> string option \<Rightarrow> int option \<Rightarrow> int \<Rightarrow> depeg_detail sig list" where
  "checkDepegReference r vault feed nowSec maxAgeSec =
     (if feed = None \<or> feed = Some []
      then [build_sig StSkipped DEPEG_SIGNAL vault None ''depeg reference not configured'' None None dg_none]
      else case (or_latestRoundData r (the feed), or_decimals r (the feed)) of
          (Ok rnd, Ok decimals) \<Rightarrow>
            (case scaleForDecimals decimals of
               None \<Rightarrow> [(depeg_blind vault ''no WAD scale for these decimals'' dg_none)\<lparr>sg_minConsecutive := Some UNREADABLE_SWEEPS\<rparr>]
             | Some scale \<Rightarrow>
                 let answer = rn_answer rnd; priceWad = answer * scale;
                     ageSec = map_option (\<lambda>now. now - rn_updatedAt rnd) nowSec;
                     d = \<lparr> dg_answer = Some answer, dg_priceWad = Some priceWad, dg_ageSec = ageSec \<rparr>;
                     band = Some ''0.995 .. 1.005''
                 in if answer \<le> 0 then [depeg_blind vault ''a non-positive answer'' d]
                    else if (case ageSec of Some a \<Rightarrow> a > maxAgeSec | None \<Rightarrow> False)
                    then [(depeg_blind vault ''USDC DEPEG REFERENCE STALE'' d)\<lparr>sg_measured := map_option (\<lambda>a. show_int a @ ''s'') ageSec,
                            sg_threshold := Some (show_int maxAgeSec @ ''s'')\<rparr>]
                    else if priceWad < LOWER_BOUND_WAD \<or> priceWad > UPPER_BOUND_WAD
                    then [build_sig StAlert DEPEG_SIGNAL vault None ''USDC DEPEG REFERENCE OUT OF BAND'' (Some (formatUsd priceWad)) band d]
                    else [build_sig StOk DEPEG_SIGNAL vault None ''depeg reference in band'' (Some (formatUsd priceWad)) band d])
        | _ \<Rightarrow> [(depeg_blind vault ''the reference feed did not answer'' dg_none)\<lparr>sg_minConsecutive := Some UNREADABLE_SWEEPS\<rparr>])"

text \<open>An answer that says something: positive, in decimals a WAD can hold, and no older than the bound.\<close>

definition usable_reading :: "oracle_reader \<Rightarrow> string \<Rightarrow> int \<Rightarrow> int \<Rightarrow> (int \<times> nat) option" where
  "usable_reading r feed now maxAge = (case (or_latestRoundData r feed, or_decimals r feed) of
      (Ok rnd, Ok d) \<Rightarrow> if 0 \<le> d \<and> d \<le> 18 \<and> 0 < rn_answer rnd \<and> now - rn_updatedAt rnd \<le> maxAge
                       then Some (rn_answer rnd, nat d) else None
    | _ \<Rightarrow> None)"

lemma scaled_bounds:
  assumes "d \<le> 18"
  shows "(a * 10 ^ (18 - d) < k * 10 ^ 15) = (1000 * a < k * 10 ^ d)" (is "?L = ?R")
    and "(k * 10 ^ 15 < a * 10 ^ (18 - d)) = (k * 10 ^ d < 1000 * (a :: int))"
proof -
  have e: "10 ^ (18 - d) * 10 ^ d = (10 ^ 18 :: int)" using assms by (simp add: power_add [symmetric])
  have l: "a * 10 ^ (18 - d) * 10 ^ d = 1000 * a * 10 ^ 15" using e by (simp add: mult.assoc)
  have "(a * 10 ^ (18 - d) < k * 10 ^ 15) = (a * 10 ^ (18 - d) * 10 ^ d < k * 10 ^ 15 * 10 ^ d)"
    by (rule mult_less_cancel_right_pos [symmetric]) simp
  also have "\<dots> = (1000 * a * 10 ^ 15 < k * 10 ^ d * 10 ^ 15)" unfolding l by (simp add: mult_ac)
  also have "\<dots> = (1000 * a < k * 10 ^ d)" by (rule mult_less_cancel_right_pos) simp
  finally show "(a * 10 ^ (18 - d) < k * 10 ^ 15) = (1000 * a < k * 10 ^ d)" .
  have "(k * 10 ^ 15 < a * 10 ^ (18 - d)) = (k * 10 ^ 15 * 10 ^ d < a * 10 ^ (18 - d) * 10 ^ d)"
    by (rule mult_less_cancel_right_pos [symmetric]) simp
  also have "\<dots> = (k * 10 ^ d * 10 ^ 15 < 1000 * a * 10 ^ 15)" unfolding l by (simp add: mult_ac)
  also have "\<dots> = (k * 10 ^ d < 1000 * a)" by (rule mult_less_cancel_right_pos) simp
  finally show "(k * 10 ^ 15 < a * 10 ^ (18 - d)) = (k * 10 ^ d < 1000 * a)" .
qed

text \<open>
  The depeg verdict does not depend on the decimals the feed reports in, and a fault of the feed is
  never evidence: on a usable reading the result is healthy exactly within half a percent of one
  dollar, both ends included, and an alert outside; on any other it is blind.
\<close>

theorem depeg_verdict_is_exact:
  assumes "feed \<noteq> []" and "checkDepegReference r vault (Some feed) (Some now) maxAge = [x]"
  shows "(case usable_reading r feed now maxAge of
      None \<Rightarrow> blind x
    | Some (a, d) \<Rightarrow> sg_status x = (if 995 * 10 ^ d \<le> 1000 * a \<and> 1000 * a \<le> 1005 * 10 ^ d then StOk else StAlert))"
proof -
  have s: "nat (18 - d) = 18 - nat d" if "0 \<le> d" "d \<le> 18" for d :: int using that by (simp add: nat_diff_distrib)
  show ?thesis
  proof (cases "usable_reading r feed now maxAge")
    case None
    then have "blind x"
      using assms
      by (auto simp: usable_reading_def checkDepegReference_def depeg_blind_def detectorBroken_def build_sig_def blind_def
          scaleForDecimals_def Let_def split: rd.splits if_splits)
    then show ?thesis using None by simp
  next
    case (Some p)
    then obtain rnd d where r: "or_latestRoundData r feed = Ok rnd" "or_decimals r feed = Ok d" "0 \<le> d" "d \<le> 18"
      "0 < rn_answer rnd" "now - rn_updatedAt rnd \<le> maxAge" "p = (rn_answer rnd, nat d)"
      by (auto simp: usable_reading_def split: rd.splits if_splits)
    have n: "nat d \<le> 18" using r(4) by simp
    have "sg_status x = (if rn_answer rnd * 10 ^ (18 - nat d) < 995 * 10 ^ 15 \<or> 1005 * 10 ^ 15 < rn_answer rnd * 10 ^ (18 - nat d)
        then StAlert else StOk)"
      using assms r(1-6) s [OF r(3,4)]
      by (auto simp: checkDepegReference_def scaleForDecimals_def LOWER_BOUND_WAD_def UPPER_BOUND_WAD_def build_sig_def Let_def)
    then show ?thesis unfolding scaled_bounds [OF n] using Some r(7) by (auto simp: not_less)
  qed
qed

section \<open>Concrete readers\<close>

definition sample_zero :: string where "sample_zero = ''0x'' @ replicate 40 CHR ''0''"

definition sample_world :: "int \<Rightarrow> chainlink_world" where
  "sample_world t =
     \<lparr> cw_sequencerUptimeFeed = ''0xseq'', cw_usdc = sample_zero,
       cw_feedOf = (\<lambda>_. \<lparr> fc_feed = ''0xfeed'', fc_heartbeat = 3600, fc_scale = 10 ^ 10, fc_minPriceWad = 0, fc_maxPriceWad = 0 \<rparr>),
       cw_round = (\<lambda>f. if f = ''0xseq'' then Some \<lparr> rn_answer = 0, rn_startedAt = 1000, rn_updatedAt = 1000 \<rparr>
         else Some \<lparr> rn_answer = 5, rn_startedAt = 9000, rn_updatedAt = 9000 \<rparr>),
       cw_now = t \<rparr>"

definition sample_oracle :: "chainlink_world \<Rightarrow> oracle_reader" where
  "sample_oracle w =
     \<lparr> or_sequencerUptimeFeed = Ok (cw_sequencerUptimeFeed w), or_GRACE_PERIOD = Ok 3600, or_usdc = Ok (cw_usdc w),
       or_feedOf = (\<lambda>a. Ok (cw_feedOf w a)), or_priceWad = (\<lambda>a. rd_of (sol_price w a)),
       or_latestRoundData = (\<lambda>a. rd_of (cw_round w a)),
       or_assetConfig = (\<lambda>_. Ok ([''0xa'', ''0xb'', ''0xc''], 600, 2)), or_latestPrice = (\<lambda>_. Ok (7, 9000)),
       or_decimals = (\<lambda>_. Ok 8) \<rparr>"

lemma sample_reads: "reads_world (sample_oracle w) w"
  by (simp add: reads_world_def sample_oracle_def)


definition sample_silent :: oracle_reader where
  "sample_silent = (sample_oracle (sample_world 10000))\<lparr>or_priceWad := (\<lambda>_. Unreach)\<rparr>"

lemma unreachable_is_never_frozen_witness:
  "\<not> od_priceWadReverts (sg_detail (checkChainlinkOracle sample_silent ''0xv'' [''0xa''] 10000 ''0xseq'' None (\<lambda>_. None) ! 1))"
  using unreachable_is_never_frozen [of 0 "[''0xa'']" sample_silent "''0xv''" 10000 "''0xseq''" None "\<lambda>_. None", OF _ refl]
  by (auto simp: sample_silent_def)

lemma grace_alert_names_the_resumption_witness:
  "sol_sequencer_up (sample_world 4601) \<and> \<not> sol_sequencer_up (sample_world 4600)"
proof -
  have z: "\<not> zero_addr ''0xseq''" by (simp add: zero_addr_def numeral_eq_Suc)
  have t: "od_resumesAtSec (sg_detail (snd (sequencerLeg (sample_oracle (sample_world 2000)) ''0xv''
      (cw_sequencerUptimeFeed (sample_world 2000)) (cw_now (sample_world 2000)) 3600))) = Some 4601"
    by (simp add: sequencerLeg_def sample_oracle_def sample_world_def rd_of_def seq_alert_def build_sig_def od_none_def z)
  have w: "(sample_world 2000)\<lparr>cw_now := n\<rparr> = sample_world n" for n by (simp add: sample_world_def)
  show ?thesis using grace_alert_names_the_resumption [OF sample_reads t] unfolding w by (simp add: sample_world_def)
qed

lemma aggregator_verdicts_are_sound_witness:
  "sol_aggregator_prices 9100 600 3 (\<lambda>s. if s = ''0xd'' then None else Some (7, 9000)) [''0xa'', ''0xb'', ''0xc'', ''0xd'']"
proof -
  define r where "r = (sample_oracle (sample_world 9100))\<lparr>or_assetConfig := (\<lambda>_. Ok ([''0xa'', ''0xb'', ''0xc'', ''0xd''], 600, 3))\<rparr>"
  have a: "or_assetConfig r ''0x1'' = Ok ([''0xa'', ''0xb'', ''0xc'', ''0xd''], 600, 3)" by (simp add: r_def)
  have ag: "sources_agree r (\<lambda>_. Some (7, 9000))" by (simp add: sources_agree_def r_def sample_oracle_def)
  have "sg_status (check_aggregator_asset r ''0xv'' 9100 0 ''0x1'') = StOk"
    by (simp add: check_aggregator_asset_def a r_def sample_oracle_def source_bucket_def count_bucket_def build_sig_def)
  then have "\<forall>lost. int (length lost) \<le> 0 + 1
      \<longrightarrow> sol_aggregator_prices 9100 600 3 (\<lambda>s. if s \<in> set lost then None else Some (7, 9000)) [''0xa'', ''0xb'', ''0xc'', ''0xd'']"
    using aggregator_verdicts_are_sound [OF a _ _ _ ag refl, of 0 "''0xv''" 9100] by simp
  from this [rule_format, of "[''0xd'']"] show ?thesis by simp
qed

lemma quorum_two_hides_the_last_margin_witness:
  "sg_status (check_aggregator_asset (sample_oracle (sample_world 9100)) ''0xv'' 9100 0 ''0x1'') = StOk
   \<and> \<not> sol_aggregator_prices 9100 600 2 ((\<lambda>_. Some (7, 9000))(''0xa'' := None)) [''0xa'', ''0xb'', ''0xc'']"
  using quorum_two_hides_the_last_margin [of "sample_oracle (sample_world 9100)" "''0x1''" "''0xa''" "''0xb''" "''0xc''" 600 "\<lambda>_. Some (7, 9000)" 9100 "''0xv''"]
  by (simp add: sample_oracle_def sources_agree_def source_bucket_def)

lemma depeg_verdict_is_exact_witness:
  "\<exists>x. checkDepegReference ((sample_oracle (sample_world 9100))\<lparr>or_latestRoundData := (\<lambda>_. Ok \<lparr> rn_answer = 99499999, rn_startedAt = 0, rn_updatedAt = 9000 \<rparr>)\<rparr>)
      ''0xv'' (Some ''0xfeed'') (Some 9100) 90000 = [x] \<and> sg_status x = StAlert"
proof -
  define r where "r = (sample_oracle (sample_world 9100))\<lparr>or_latestRoundData := (\<lambda>_. Ok \<lparr> rn_answer = 99499999, rn_startedAt = 0, rn_updatedAt = 9000 \<rparr>)\<rparr>"
  obtain x where x: "checkDepegReference r ''0xv'' (Some ''0xfeed'') (Some 9100) 90000 = [x]"
    by (auto simp: checkDepegReference_def r_def sample_oracle_def scaleForDecimals_def LOWER_BOUND_WAD_def UPPER_BOUND_WAD_def Let_def)
  have "usable_reading r ''0xfeed'' 9100 90000 = Some (99499999, 8)"
    by (simp add: usable_reading_def r_def sample_oracle_def)
  then show ?thesis using depeg_verdict_is_exact [OF _ x] x by (simp add: r_def)
qed

end
