(* ===== verification/Canary_Feeds.thy ===== *)
theory Canary_Feeds
  imports Canary_Oracle
begin

text \<open>
  The identity of the feeds behind the live oracle, \<open>packages/canary/src/signals/feed-identity.mjs\<close>: the
  denomination and the cached scale against what the proxy says now, the swap notice against the
  remembered identity, and the fold of a sweep into what is remembered. The sentences are tags.
\<close>

section \<open>Reads and remembered identities\<close>

record feed_reader =
  fi_sequencerUptimeFeed :: "string rd"
  fi_assetConfig :: "string \<Rightarrow> unit rd"
  fi_feedOf :: "string \<Rightarrow> (string \<times> int) rd"
  fi_description :: "string \<Rightarrow> string rd"
  fi_decimals :: "string \<Rightarrow> int rd"
  fi_aggregator :: "string \<Rightarrow> string rd"
  fi_phaseId :: "string \<Rightarrow> string rd"

record identity =
  id_feed :: "string option"
  id_aggregator :: "string option"
  id_phaseId :: "string option"

type_synonym pins = "(string, identity) jsmap"

definition no_identity :: identity where
  "no_identity = \<lparr> id_feed = None, id_aggregator = None, id_phaseId = None \<rparr>"

datatype harm = Denomination | Decimals

record feed_detail =
  fe_asset :: "string option"
  fe_observed :: "identity option"
  fe_harm :: "harm option"
  fe_swapped :: bool
  fe_harmClean :: bool
  fe_expectedScale :: "int option"

definition FEED_SIGNAL :: string where "FEED_SIGNAL = ''feed-identity''"
definition SWAP_KEY_SUFFIX :: string where "SWAP_KEY_SUFFIX = '':swap''"

text \<open>\<open>isUsdQuoted\<close>: the last three characters, and a separator before them.\<close>

definition isUsdQuoted :: "string \<Rightarrow> bool" where
  "isUsdQuoted description =
     (if length description < 4 then False
      else if drop (length description - 3) description \<noteq> ''USD'' then False
      else let sep = description ! (length description - 4) in sep = CHR '' '' \<or> sep = CHR ''/'')"

definition scaleToDecimals :: "int \<Rightarrow> nat option" where
  "scaleToDecimals scale = find (\<lambda>d. 10 ^ (18 - d) = scale) [0..<19]"

text \<open>How wrong the price is: the factor, and whether it is too high.\<close>

definition ratio :: "int \<Rightarrow> int \<Rightarrow> (int \<times> bool) option" where
  "ratio expected cached =
     (if cached = 0 \<or> expected = 0 then None
      else if cached > expected then Some (bdiv cached expected, True)
      else if expected > cached then Some (bdiv expected cached, False)
      else None)"

datatype swap = PhaseMoved | AggregatorMoved | FeedMoved

definition present :: "string option \<Rightarrow> bool" where
  "present s \<longleftrightarrow> (case s of None \<Rightarrow> False | Some x \<Rightarrow> x \<noteq> [])"

definition eqAddr :: "string option \<Rightarrow> string option \<Rightarrow> bool" where
  "eqAddr a b \<longleftrightarrow> (case (a, b) of (Some x, Some y) \<Rightarrow> lc x = lc y | _ \<Rightarrow> False)"

definition convictSwap :: "identity option \<Rightarrow> identity \<Rightarrow> swap option" where
  "convictSwap pin observed = (case pin of
      None \<Rightarrow> None
    | Some p \<Rightarrow>
        if id_phaseId p \<noteq> None \<and> id_phaseId observed \<noteq> None \<and> id_phaseId p \<noteq> id_phaseId observed then Some PhaseMoved
        else if present (id_aggregator p) \<and> present (id_aggregator observed) \<and> \<not> eqAddr (id_aggregator p) (id_aggregator observed)
        then Some AggregatorMoved
        else if present (id_feed p) \<and> present (id_feed observed) \<and> \<not> eqAddr (id_feed p) (id_feed observed)
        then Some FeedMoved else None)"

section \<open>One asset\<close>

definition ok_value :: "'a rd \<Rightarrow> 'a option" where
  "ok_value x = (case x of Ok v \<Rightarrow> Some v | _ \<Rightarrow> None)"

definition feed_none :: "string \<Rightarrow> feed_detail" where
  "feed_none asset = \<lparr> fe_asset = Some asset, fe_observed = None, fe_harm = None, fe_swapped = False,
     fe_harmClean = False, fe_expectedScale = None \<rparr>"

definition feed_blind :: "string \<Rightarrow> string \<Rightarrow> string \<Rightarrow> feed_detail \<Rightarrow> feed_detail sig" where
  "feed_blind vault key message d =
     (detectorBroken FEED_SIGNAL vault (Some key) message d)\<lparr>sg_minConsecutive := Some UNREADABLE_SWEEPS\<rparr>"

definition harmFinding ::
  "string \<Rightarrow> string \<Rightarrow> string rd \<Rightarrow> int rd \<Rightarrow> int \<Rightarrow> feed_detail \<Rightarrow> feed_detail sig" where
  "harmFinding vault asset desc dec scale d = (case (desc, dec) of
      (Ok description, Ok liveDecimals) \<Rightarrow>
        if \<not> isUsdQuoted description
        then build_sig StAlert FEED_SIGNAL vault (Some asset) ''FEED DENOMINATION DRIFT'' (Some description)
               (Some ''a description ending in USD as a whole word'') (d\<lparr>fe_harm := Some Denomination\<rparr>)
        else (let expectedScale = scaleForDecimals liveDecimals in
          if expectedScale \<noteq> Some scale
          then build_sig StAlert FEED_SIGNAL vault (Some asset)
                 (''FEED DECIMALS DRIFT'' @ (case expectedScale of None \<Rightarrow> '' no cacheable scale''
                    | Some e \<Rightarrow> (case ratio e scale of None \<Rightarrow> []
                        | Some (n, high) \<Rightarrow> '' '' @ show_int n @ (if high then ''x too HIGH'' else ''x too LOW''))))
                 (Some (''decimals '' @ show_int liveDecimals))
                 (Some (''the cached scale '' @ show_int scale @ '' (decimals ''
                    @ (case scaleToDecimals scale of Some n \<Rightarrow> show_int (int n) | None \<Rightarrow> ''?'') @ '')''))
                 (d\<lparr>fe_expectedScale := expectedScale, fe_harm := Some Decimals\<rparr>)
          else build_sig StOk FEED_SIGNAL vault (Some asset) ''feed identity unchanged'' (Some (''decimals '' @ show_int liveDecimals))
                 (Some (''the cached scale '' @ show_int scale)) d)
    | _ \<Rightarrow> feed_blind vault asset ''neither the denomination nor the cached-scale check could run'' d)"

definition harm_clean :: "string rd \<Rightarrow> int rd \<Rightarrow> int \<Rightarrow> bool" where
  "harm_clean desc dec scale \<longleftrightarrow> (case (desc, dec) of
      (Ok description, Ok liveDecimals) \<Rightarrow> isUsdQuoted description \<and> scaleForDecimals liveDecimals = Some scale
    | _ \<Rightarrow> False)"

definition show_id :: "string option \<Rightarrow> string \<Rightarrow> string" where
  "show_id x dflt = (case x of Some s \<Rightarrow> s | None \<Rightarrow> dflt)"

definition swapNotice ::
  "string \<Rightarrow> string \<Rightarrow> identity option \<Rightarrow> identity \<Rightarrow> string rd \<Rightarrow> string rd \<Rightarrow> bool \<Rightarrow> feed_detail \<Rightarrow> feed_detail sig" where
  "swapNotice vault asset pin observed agg phase harmClean d =
     (let key = asset @ SWAP_KEY_SUFFIX in
      if \<not> is_ok agg \<and> \<not> is_ok phase then feed_blind vault key ''an aggregator swap cannot be observed'' d
      else case convictSwap pin observed of
          Some s \<Rightarrow> build_sig StAlert FEED_SIGNAL vault (Some key) ''AGGREGATOR SWAPPED''
            (Some (''aggregator '' @ show_id (id_aggregator observed) ''unreadable'' @ '' / phaseId '' @ show_id (id_phaseId observed) ''unreadable''))
            (Some (''aggregator '' @ show_id (Option.bind pin id_aggregator) ''unpinned'' @ '' / phaseId ''
               @ show_id (Option.bind pin id_phaseId) ''unpinned''))
            (d\<lparr>fe_swapped := True, fe_harmClean := harmClean\<rparr>)
        | None \<Rightarrow> build_sig StOk FEED_SIGNAL vault (Some key)
            (if pin \<noteq> None then ''no aggregator swap'' else ''feed identity PINNED'') None None d)"

definition observe_identity :: "feed_reader \<Rightarrow> string \<Rightarrow> identity" where
  "observe_identity r feed =
     \<lparr> id_feed = Some feed, id_aggregator = ok_value (fi_aggregator r feed), id_phaseId = ok_value (fi_phaseId r feed) \<rparr>"

definition assetIdentity :: "feed_reader \<Rightarrow> string \<Rightarrow> string \<Rightarrow> pins \<Rightarrow> feed_detail sig list" where
  "assetIdentity r vault asset pins =
     (let pin = map_of pins (signalId FEED_SIGNAL vault (Some asset)); swapKey = asset @ SWAP_KEY_SUFFIX in
      case fi_feedOf r asset of
        Ok (feed, scale) \<Rightarrow>
          if zero_addr feed
          then [build_sig StSkipped FEED_SIGNAL vault (Some asset) ''feedOf() lists no feed'' None None (feed_none asset),
                build_sig StSkipped FEED_SIGNAL vault (Some swapKey) ''no aggregator swap check'' None None (feed_none asset)]
          else
            let desc = fi_description r feed; dec = fi_decimals r feed; agg = fi_aggregator r feed; phase = fi_phaseId r feed;
                observed = observe_identity r feed;
                d = (feed_none asset)\<lparr>fe_observed := Some observed\<rparr>
            in [harmFinding vault asset desc dec scale d,
                swapNotice vault asset pin observed agg phase (harm_clean desc dec scale) d]
      | _ \<Rightarrow> [feed_blind vault asset ''feedOf() unreadable'' (feed_none asset),
              feed_blind vault swapKey ''feedOf() unreadable'' (feed_none asset)])"

text \<open>The flavor probe first: a confirmed retired aggregator is the one case of silence.\<close>

definition checkFeedIdentity :: "feed_reader \<Rightarrow> string \<Rightarrow> string list \<Rightarrow> pins \<Rightarrow> feed_detail sig list" where
  "checkFeedIdentity r vault assets pins =
     (if assets = [] then []
      else case fi_sequencerUptimeFeed r of
          Ok _ \<Rightarrow> concat (map (\<lambda>a. assetIdentity r vault a pins) assets)
        | seq \<Rightarrow>
            if is_ok (fi_assetConfig r (hd assets)) \<and> seq \<noteq> Unreach then []
            else [feed_blind vault ''flavor'' (if seq = Unreach \<or> fi_assetConfig r (hd assets) = Unreach
                    then ''the oracle could not be probed'' else ''the oracle answers neither'')
                    ((feed_none [])\<lparr>fe_asset := None\<rparr>)])"

section \<open>What is remembered\<close>

definition merge_identity :: "identity \<Rightarrow> identity \<Rightarrow> identity" where
  "merge_identity old obs =
     (let pick = (\<lambda>f. if f obs \<noteq> None then f obs else f old) in
      \<lparr> id_feed = pick id_feed, id_aggregator = pick id_aggregator, id_phaseId = pick id_phaseId \<rparr>)"

definition pin_id :: "feed_detail sig \<Rightarrow> string" where
  "pin_id r = (if present (fe_asset (sg_detail r)) then signalId FEED_SIGNAL (sg_vault r) (fe_asset (sg_detail r)) else sg_id r)"

definition apply_observation :: "pins \<Rightarrow> feed_detail sig \<Rightarrow> pins" where
  "apply_observation pins r =
     (if sg_signal r \<noteq> FEED_SIGNAL then pins
      else case fe_observed (sg_detail r) of
          None \<Rightarrow> pins
        | Some obs \<Rightarrow>
            let merged = merge_identity (jget_or no_identity pins (pin_id r)) obs in
            if merged = no_identity then pins else AList.update (pin_id r) merged pins)"

definition applyIdentityObservations :: "pins \<Rightarrow> feed_detail sig list \<Rightarrow> pins" where
  "applyIdentityObservations pins results = foldl apply_observation pins results"

section \<open>Harm\<close>

lemma pow_split: "d \<le> 18 \<Longrightarrow> 10 ^ (18 - d) * 10 ^ d = (10 ^ 18 :: int)"
  by (simp add: power_add [symmetric])

text \<open>
  The harm line is about the price the vault is served. Where the live oracle prices an asset from
  the feed that was read, and the feed's decimals are ones a WAD can hold, the line is healthy exactly
  when the feed still quotes USD and the price is its answer in those decimals; a decimals alert says
  that the price is not.
\<close>

theorem harm_line_is_a_wrong_price:
  assumes "fi_feedOf r a = Ok (fc_feed (cw_feedOf w a), fc_scale (cw_feedOf w a))"
    and "\<not> is_pin w a" and "sol_price w a = Some p" and "cw_round w (fc_feed (cw_feedOf w a)) = Some rnd"
    and "fi_description r (fc_feed (cw_feedOf w a)) = Ok description"
    and "fi_decimals r (fc_feed (cw_feedOf w a)) = Ok (int d)" and "d \<le> 18"
    and "assetIdentity r vault a pins = [x, y]"
  shows "(sg_status x = StOk \<longleftrightarrow> isUsdQuoted description \<and> p * 10 ^ d = rn_answer rnd * 10 ^ 18)
    \<and> (fe_harm (sg_detail x) = Some Decimals \<longleftrightarrow> isUsdQuoted description \<and> p * 10 ^ d \<noteq> rn_answer rnd * 10 ^ 18)
    \<and> (fe_harm (sg_detail x) = None \<longleftrightarrow> sg_status x = StOk)"
proof -
  define cfg where "cfg = cw_feedOf w a"
  have up: "sol_sequencer_up w" "\<not> zero_addr (fc_feed cfg)" "p = rn_answer rnd * fc_scale cfg" "0 < rn_answer rnd"
    using assms(2-4) by (auto simp: sol_price_def is_pin_def Let_def cfg_def split: if_splits)
  have s: "scaleForDecimals (int d) = Some (10 ^ (18 - d))"
    using assms(7) by (simp add: scaleForDecimals_def nat_diff_distrib)
  have "(p * 10 ^ d = rn_answer rnd * 10 ^ 18) = (fc_scale cfg * 10 ^ d = 10 ^ (18 - d) * 10 ^ d)"
    unfolding pow_split [OF assms(7)] up(3) using up(4) by (simp add: mult.assoc)
  also have "\<dots> = (10 ^ (18 - d) = fc_scale cfg)" by auto
  finally have eq: "(p * 10 ^ d = rn_answer rnd * 10 ^ 18) = (10 ^ (18 - d) = fc_scale cfg)" .
  have x: "x = harmFinding vault a (Ok description) (Ok (int d)) (fc_scale cfg)
      ((feed_none a)\<lparr>fe_observed := Some (observe_identity r (fc_feed cfg))\<rparr>)"
    using assms(1,5,6,8) up(2) by (simp add: assetIdentity_def cfg_def Let_def)
  show ?thesis unfolding eq x by (simp add: harmFinding_def s build_sig_def feed_none_def Let_def)
qed

section \<open>The swap notice\<close>

lemma merge_identity_fields:
  "id_feed (merge_identity p o') = (if id_feed o' \<noteq> None then id_feed o' else id_feed p)"
  "id_aggregator (merge_identity p o') = (if id_aggregator o' \<noteq> None then id_aggregator o' else id_aggregator p)"
  "id_phaseId (merge_identity p o') = (if id_phaseId o' \<noteq> None then id_phaseId o' else id_phaseId p)"
  by (simp_all add: merge_identity_def Let_def)

lemma merge_idem: "merge_identity (merge_identity p o') o' = merge_identity p o'"
  by (simp add: merge_identity_def Let_def)

lemma merged_not_convicted: "convictSwap (Some (merge_identity p o')) o' = None"
  by (auto simp: convictSwap_def merge_identity_fields present_def eqAddr_def split: option.splits)

text \<open>A sweep with one and the same observation under an id leaves its merge there.\<close>

lemma apply_observation_get:
  "map_of (apply_observation pins r) i =
     (case fe_observed (sg_detail r) of
        Some o' \<Rightarrow> if sg_signal r = FEED_SIGNAL \<and> pin_id r = i \<and> merge_identity (jget_or no_identity pins i) o' \<noteq> no_identity
                  then Some (merge_identity (jget_or no_identity pins i) o') else map_of pins i
      | None \<Rightarrow> map_of pins i)"
  by (auto simp: apply_observation_def update_conv' Let_def split: option.splits)

lemma observations_keep_merge:
  assumes "\<forall>r \<in> set rs. pin_id r = i \<longrightarrow> fe_observed (sg_detail r) \<in> {None, Some o'}"
    and "map_of pins i = Some (merge_identity p o')"
  shows "map_of (applyIdentityObservations pins rs) i = Some (merge_identity p o')"
  using assms
proof (induction rs arbitrary: pins)
  case (Cons r rs)
  have "map_of (apply_observation pins r) i = Some (merge_identity p o')"
    using Cons.prems by (auto simp: apply_observation_get jget_or_def merge_idem split: option.splits)
  then show ?case using Cons by (simp add: applyIdentityObservations_def)
qed (simp add: applyIdentityObservations_def)

lemma observations_reach_merge:
  assumes "\<forall>r \<in> set rs. pin_id r = i \<longrightarrow> fe_observed (sg_detail r) \<in> {None, Some o'}"
    and "\<exists>r \<in> set rs. pin_id r = i \<and> sg_signal r = FEED_SIGNAL \<and> fe_observed (sg_detail r) = Some o'" and "id_feed o' \<noteq> None"
  shows "\<exists>p. map_of (applyIdentityObservations pins rs) i = Some (merge_identity p o')"
  using assms
proof (induction rs arbitrary: pins)
  case (Cons r rs)
  show ?case
  proof (cases "pin_id r = i \<and> sg_signal r = FEED_SIGNAL \<and> fe_observed (sg_detail r) = Some o'")
    case True
    have "merge_identity (jget_or no_identity pins i) o' \<noteq> no_identity"
      using Cons.prems(3) merge_identity_fields(1) [of "jget_or no_identity pins i" o'] by (auto simp: no_identity_def)
    then have "map_of (apply_observation pins r) i = Some (merge_identity (jget_or no_identity pins i) o')"
      using True by (simp add: apply_observation_get)
    then show ?thesis
      using observations_keep_merge [of rs i o' "apply_observation pins r"] Cons.prems(1)
      by (auto simp: applyIdentityObservations_def)
  next
    case False
    then show ?thesis
      using Cons.IH [of "apply_observation pins r"] Cons.prems by (auto simp: applyIdentityObservations_def)
  qed
qed simp

lemma build_sig_fields:
  "sg_signal (build_sig st sg v k m ms th d) = sg" "sg_vault (build_sig st sg v k m ms th d) = v"
  "sg_detail (build_sig st sg v k m ms th d) = d" "sg_status (build_sig st sg v k m ms th d) = st"
  by (simp_all add: build_sig_def)

lemma feed_blind_fields:
  "sg_signal (feed_blind v k m d) = FEED_SIGNAL" "sg_vault (feed_blind v k m d) = v" "sg_detail (feed_blind v k m d) = d"
  "sg_status (feed_blind v k m d) = StSkipped"
  by (simp_all add: feed_blind_def detectorBroken_def build_sig_def)

lemma harmFinding_fields:
  "sg_signal (harmFinding v a desc dec sc d) = FEED_SIGNAL \<and> sg_vault (harmFinding v a desc dec sc d) = v
   \<and> fe_asset (sg_detail (harmFinding v a desc dec sc d)) = fe_asset d
   \<and> fe_observed (sg_detail (harmFinding v a desc dec sc d)) = fe_observed d
   \<and> fe_swapped (sg_detail (harmFinding v a desc dec sc d)) = fe_swapped d"
  by (cases desc; cases dec) (simp_all add: harmFinding_def build_sig_fields feed_blind_fields Let_def)

lemma swapNotice_fields:
  "sg_signal (swapNotice v a pin obs ag ph hc d) = FEED_SIGNAL \<and> sg_vault (swapNotice v a pin obs ag ph hc d) = v
   \<and> fe_asset (sg_detail (swapNotice v a pin obs ag ph hc d)) = fe_asset d
   \<and> fe_observed (sg_detail (swapNotice v a pin obs ag ph hc d)) = fe_observed d"
  by (cases "convictSwap pin obs") (simp_all add: swapNotice_def build_sig_fields feed_blind_fields Let_def)

lemma swapNotice_quiet:
  "convictSwap pin obs = None \<Longrightarrow> fe_swapped (sg_detail (swapNotice v a pin obs ag ph hc d)) = fe_swapped d"
  by (simp add: swapNotice_def build_sig_fields feed_blind_fields Let_def)

lemma assetIdentity_cases:
  obtains (unread) x y where "assetIdentity r vault a pins = [x, y]" "\<forall>z \<in> {x, y}. sg_signal z = FEED_SIGNAL \<and> sg_vault z = vault
      \<and> sg_detail z = feed_none a \<and> sg_status z = StSkipped"
  | (read) feed scale where "fi_feedOf r a = Ok (feed, scale)" "\<not> zero_addr feed"
      "assetIdentity r vault a pins =
         [harmFinding vault a (fi_description r feed) (fi_decimals r feed) scale ((feed_none a)\<lparr>fe_observed := Some (observe_identity r feed)\<rparr>),
          swapNotice vault a (map_of pins (signalId FEED_SIGNAL vault (Some a))) (observe_identity r feed) (fi_aggregator r feed)
            (fi_phaseId r feed) (harm_clean (fi_description r feed) (fi_decimals r feed) scale)
            ((feed_none a)\<lparr>fe_observed := Some (observe_identity r feed)\<rparr>)]"
proof (cases "fi_feedOf r a")
  case (Ok p)
  obtain feed scale where p: "p = (feed, scale)" by (cases p)
  show ?thesis
  proof (cases "zero_addr feed")
    case True
    then show ?thesis using Ok p that(1) by (simp add: assetIdentity_def build_sig_fields Let_def)
  next
    case False
    then show ?thesis using Ok p that(2) by (simp add: assetIdentity_def Let_def)
  qed
qed (use that(1) in \<open>simp_all add: assetIdentity_def feed_blind_fields Let_def\<close>)

lemma assetIdentity_shape:
  assumes "x \<in> set (assetIdentity r vault a pins)"
  shows "sg_signal x = FEED_SIGNAL \<and> sg_vault x = vault \<and> fe_asset (sg_detail x) = Some a
    \<and> (fe_observed (sg_detail x) = None
      \<or> (\<exists>feed scale. fi_feedOf r a = Ok (feed, scale) \<and> fe_observed (sg_detail x) = Some (observe_identity r feed)))"
  by (cases rule: assetIdentity_cases [of r vault a pins])
     (use assms in \<open>auto simp: harmFinding_fields swapNotice_fields feed_none_def\<close>)

lemma pin_id_asset: "a \<noteq> [] \<Longrightarrow> x \<in> set (assetIdentity r vault a pins) \<Longrightarrow> pin_id x = signalId FEED_SIGNAL vault (Some a)"
  using assetIdentity_shape [of x r vault a pins] by (simp add: pin_id_def present_def)

lemma signalId_inject: "a \<noteq> [] \<Longrightarrow> b \<noteq> [] \<Longrightarrow> signalId s v (Some a) = signalId s v (Some b) \<longleftrightarrow> a = b"
  by (simp add: signalId_def)

text \<open>
  A swap is announced by one sweep. For any baskets and any remembered identities, once the runner
  has folded in what a sweep saw, a sweep that sees the same feeds convicts no asset: no result of it
  says "swapped", whatever the harm lines say.
\<close>

theorem swap_notice_clears_itself:
  assumes "[] \<notin> set assets" and "checkFeedIdentity r vault assets pins = first"
    and "x \<in> set (checkFeedIdentity r vault assets (applyIdentityObservations pins first))"
  shows "\<not> fe_swapped (sg_detail x)"
proof (cases "fi_sequencerUptimeFeed r")
  case (Ok f)
  have ne: "assets \<noteq> []" using assms(3) by (auto simp: checkFeedIdentity_def)
  define pins' where "pins' = applyIdentityObservations pins first"
  have first: "first = concat (map (\<lambda>a. assetIdentity r vault a pins) assets)"
    using assms(2) Ok ne by (simp add: checkFeedIdentity_def)
  obtain a where a: "a \<in> set assets" "x \<in> set (assetIdentity r vault a pins')"
    using assms(3) Ok ne by (auto simp: checkFeedIdentity_def pins'_def)
  have an: "a \<noteq> []" using a(1) assms(1) by auto
  show ?thesis
  proof (cases rule: assetIdentity_cases [of r vault a pins'])
    case (unread x' y')
    then show ?thesis using a(2) by (auto simp: feed_none_def)
  next
    case (read feed scale)
    define o' where "o' = observe_identity r feed"
    let ?i = "signalId FEED_SIGNAL vault (Some a)"
    have same: "\<forall>z \<in> set first. pin_id z = ?i \<longrightarrow> fe_observed (sg_detail z) \<in> {None, Some o'}"
    proof (intro ballI impI)
      fix z assume z: "z \<in> set first" "pin_id z = ?i"
      obtain b where b: "b \<in> set assets" "z \<in> set (assetIdentity r vault b pins)" using z(1) first by auto
      have "b \<noteq> []" using b(1) assms(1) by auto
      then have "b = a" using pin_id_asset [OF _ b(2)] z(2) an by (simp add: signalId_inject)
      then show "fe_observed (sg_detail z) \<in> {None, Some o'}"
        using assetIdentity_shape [OF b(2)] read(1) by (auto simp: o'_def)
    qed
    define fs where "fs = assetIdentity r vault a pins"
    have fs: "assetIdentity r vault a pins = fs" "fs \<noteq> []" "fe_observed (sg_detail (hd fs)) = Some o'"
      using read(1,2) by (simp_all add: fs_def assetIdentity_def harmFinding_fields o'_def Let_def)
    have "hd fs \<in> set (assetIdentity r vault a pins)" using fs by simp
    then have "\<exists>z \<in> set first. pin_id z = ?i \<and> sg_signal z = FEED_SIGNAL \<and> fe_observed (sg_detail z) = Some o'"
      using first a(1) fs(3) pin_id_asset [OF an, of "hd fs" r vault pins] assetIdentity_shape [of "hd fs" r vault a pins]
      by (intro bexI [of _ "hd fs"]) auto
    then obtain p where "map_of pins' ?i = Some (merge_identity p o')"
      using observations_reach_merge [OF same] by (auto simp: pins'_def o'_def observe_identity_def)
    then show ?thesis
      using a(2) read(3) by (auto simp: harmFinding_fields swapNotice_quiet merged_not_convicted o'_def [symmetric]
          feed_none_def)
  qed
next
  case (Rev e)
  then show ?thesis using assms(3)
    by (auto simp: checkFeedIdentity_def feed_blind_fields feed_none_def split: if_splits)
next
  case Unreach
  then show ?thesis using assms(3)
    by (auto simp: checkFeedIdentity_def feed_blind_fields feed_none_def split: if_splits)
qed

text \<open>
  One swap can still be announced twice, when the two words that show it are not read in the same
  sweep. Sees the new aggregator first, with the phase unreadable, and the phase two sweeps later, with
  nothing changed on the chain in between, and the notice alerts, clears, and alerts again.
\<close>

theorem partial_reads_announce_one_swap_twice:
  assumes "map_of pins (signalId FEED_SIGNAL vault (Some a)) = Some \<lparr> id_feed = Some feed, id_aggregator = Some old, id_phaseId = Some ph \<rparr>"
    and "a \<noteq> []" "feed \<noteq> []" "old \<noteq> []" "new \<noteq> []" "lc old \<noteq> lc new" "ph \<noteq> ph'" "\<not> zero_addr feed"
    and "fi_feedOf r a = Ok (feed, scale)" "fi_aggregator r feed = Ok new" "fi_phaseId r feed = Unreach"
    and "fi_feedOf r' a = Ok (feed, scale)" "fi_aggregator r' feed = Ok new" "fi_phaseId r' feed = Ok ph'"
    and "applyIdentityObservations pins (assetIdentity r vault a pins) = pins1"
    and "applyIdentityObservations pins1 (assetIdentity r vault a pins1) = pins2"
  shows "map (\<lambda>xs. sg_status (xs ! 1)) [assetIdentity r vault a pins, assetIdentity r vault a pins1, assetIdentity r' vault a pins2]
    = [StAlert, StOk, StAlert]"
proof -
  define o1 where "o1 = \<lparr> id_feed = Some feed, id_aggregator = Some new, id_phaseId = None \<rparr>"
  define m where "m = \<lparr> id_feed = Some feed, id_aggregator = Some new, id_phaseId = Some ph \<rparr>"
  let ?i = "signalId FEED_SIGNAL vault (Some a)"
  have obs: "observe_identity r feed = o1" using assms(10,11) by (simp add: observe_identity_def ok_value_def o1_def)
  have fold: "map_of (applyIdentityObservations ps (assetIdentity r vault a ps)) ?i = Some (merge_identity p o1)"
    if "map_of ps ?i = Some p" for ps p
  proof -
    have mm: "merge_identity p o1 \<noteq> no_identity" "merge_identity (merge_identity p o1) o1 \<noteq> no_identity"
      by (simp_all add: merge_identity_def o1_def no_identity_def)
    obtain x y where xy: "assetIdentity r vault a ps = [x, y]"
      "fe_observed (sg_detail x) = Some o1" "fe_observed (sg_detail y) = Some o1"
      using assms(8,9) obs by (simp add: assetIdentity_def harmFinding_fields swapNotice_fields Let_def)
    have "pin_id x = ?i" "pin_id y = ?i" "sg_signal x = FEED_SIGNAL" "sg_signal y = FEED_SIGNAL"
      using pin_id_asset [OF assms(2)] assetIdentity_shape xy(1) by (metis list.set_intros)+
    then show ?thesis
      using xy that mm by (simp add: applyIdentityObservations_def apply_observation_get jget_or_def merge_idem)
  qed
  have p1: "map_of pins1 ?i = Some m" using fold [OF assms(1)] assms(15) by (simp add: merge_identity_def o1_def m_def)
  have p2: "map_of pins2 ?i = Some m" using fold [OF p1] assms(16) by (simp add: merge_identity_def o1_def m_def)
  show ?thesis using assms(1-14) p1 p2
    by (simp add: assetIdentity_def swapNotice_def convictSwap_def observe_identity_def ok_value_def is_ok_def present_def
        eqAddr_def m_def build_sig_fields Let_def)
qed

section \<open>Concrete feeds\<close>

definition sample_feeds :: "string rd \<Rightarrow> int \<Rightarrow> feed_reader" where
  "sample_feeds phase dec =
     \<lparr> fi_sequencerUptimeFeed = Ok ''0xseq'', fi_assetConfig = (\<lambda>_. Rev None), fi_feedOf = (\<lambda>_. Ok (''0xfeed'', 10 ^ 10)),
       fi_description = (\<lambda>_. Ok ''ETH / USD''), fi_decimals = (\<lambda>_. Ok dec), fi_aggregator = (\<lambda>_. Ok ''0xb''), fi_phaseId = (\<lambda>_. phase) \<rparr>"

lemma sample_usd: "isUsdQuoted ''ETH / USD''"
  by (simp add: isUsdQuoted_def)

lemma harm_line_is_a_wrong_price_witness:
  "\<exists>x y. assetIdentity (sample_feeds (Ok ''2'') 18) ''0xv'' ''0xa'' [] = [x, y] \<and> fe_harm (sg_detail x) = Some Decimals"
proof -
  define w where "w = (sample_world 10000)\<lparr>cw_sequencerUptimeFeed := sample_zero\<rparr>"
  have f: "cw_feedOf w ''0xa'' = \<lparr> fc_feed = ''0xfeed'', fc_heartbeat = 3600, fc_scale = 10 ^ 10, fc_minPriceWad = 0, fc_maxPriceWad = 0 \<rparr>"
    "cw_round w ''0xfeed'' = Some \<lparr> rn_answer = 5, rn_startedAt = 9000, rn_updatedAt = 9000 \<rparr>"
    by (simp_all add: w_def sample_world_def)
  have nz: "\<not> zero_addr ''0xfeed''" by (simp add: zero_addr_def numeral_eq_Suc)
  have p: "sol_price w ''0xa'' = Some (5 * 10 ^ 10)"
    using nz by (simp add: sol_price_def sol_sequencer_up_def w_def sample_world_def zero_addr_def sample_zero_def)
  obtain x y where xy: "assetIdentity (sample_feeds (Ok ''2'') 18) ''0xv'' ''0xa'' [] = [x, y]"
    using nz by (simp add: assetIdentity_def sample_feeds_def Let_def)
  have "fe_harm (sg_detail x) = Some Decimals \<longleftrightarrow> isUsdQuoted ''ETH / USD'' \<and> 5 * 10 ^ 10 * 10 ^ 18 \<noteq> (5 * 10 ^ 18 :: int)"
    using harm_line_is_a_wrong_price [OF _ _ p _ _ _ _ xy, of _ _ 18] f
    by (simp add: sample_feeds_def is_pin_def w_def sample_world_def zero_addr_def sample_zero_def)
  then show ?thesis using xy sample_usd by simp
qed

definition sample_pins :: pins where
  "sample_pins = [(signalId FEED_SIGNAL ''0xv'' (Some ''0xa''), \<lparr> id_feed = Some ''0xfeed'', id_aggregator = Some ''0xc'', id_phaseId = Some ''1'' \<rparr>)]"

lemma swap_notice_clears_itself_witness:
  "\<not> list_ex (\<lambda>x. fe_swapped (sg_detail x)) (checkFeedIdentity (sample_feeds (Ok ''2'') 8) ''0xv'' [''0xa'']
      (applyIdentityObservations sample_pins (checkFeedIdentity (sample_feeds (Ok ''2'') 8) ''0xv'' [''0xa''] sample_pins)))"
  unfolding list_ex_iff using swap_notice_clears_itself [OF _ refl, of "[''0xa'']"] by auto

lemma partial_reads_announce_one_swap_twice_witness:
  "sg_status (assetIdentity (sample_feeds Unreach 8) ''0xv'' ''0xa'' sample_pins ! 1) = StAlert"
proof -
  have "lc ''0xc'' \<noteq> lc ''0xb''" by code_simp
  moreover have "\<not> zero_addr ''0xfeed''" by (simp add: zero_addr_def numeral_eq_Suc)
  ultimately show ?thesis
    using partial_reads_announce_one_swap_twice [of sample_pins "''0xv''" "''0xa''" "''0xfeed''" "''0xc''" "''1''" "''0xb''" "''2''"
        "sample_feeds Unreach 8" "10 ^ 10" "sample_feeds (Ok ''2'') 8", OF _ _ _ _ _ _ _ _ _ _ _ _ _ _ refl refl]
    by (simp add: sample_pins_def sample_feeds_def)
qed

end
