(* ===== verification/Leader_Json.thy ===== *)
theory Leader_Json
  imports "HOL-Library.List_Lexorder" "HOL-Library.Char_ord" Decimal
begin

text \<open>
  The canonical JSON of the activity leaderboard (\<open>packages/activity-leaderboard/src/canonical.mjs\<close>): the text a
  board is hashed and published as. The library behind it is that the text determines the value.
\<close>

section \<open>Canonical JSON\<close>

text \<open>\<open>Number.isSafeInteger\<close>.\<close>

definition safe_integer :: "int \<Rightarrow> bool" where
  "safe_integer n \<longleftrightarrow> \<bar>n\<bar> \<le> 2 ^ 53 - 1"

text \<open>A JavaScript value; \<open>COther\<close> stands for the kinds the encoder refuses (undefined, a fraction, a function).\<close>

datatype cjson =
    CNull
  | CBool bool
  | CInt int
  | CBig int
  | CString string
  | CArray "cjson list"
  | CObject "(string \<times> cjson) list"
  | COther

fun gather :: "'a option list \<Rightarrow> 'a list option" where
  "gather [] = Some []"
| "gather (x # xs) = (case (x, gather xs) of (Some a, Some as) \<Rightarrow> Some (a # as) | _ \<Rightarrow> None)"

definition hex_digit :: "nat \<Rightarrow> char" where
  "hex_digit d = (if d < 10 then char_of (48 + d) else char_of (87 + d))"

text \<open>\<open>JSON.stringify\<close> of one character of a string.\<close>

definition esc :: "char \<Rightarrow> string" where
  "esc c = (let n = of_char c :: nat in
     if n = 34 then [CHR 0x5C, CHR 0x22] else if n = 92 then [CHR 0x5C, CHR 0x5C]
     else if n = 8 then [CHR 0x5C, CHR ''b''] else if n = 9 then [CHR 0x5C, CHR ''t'']
     else if n = 10 then [CHR 0x5C, CHR ''n''] else if n = 12 then [CHR 0x5C, CHR ''f'']
     else if n = 13 then [CHR 0x5C, CHR ''r'']
     else if n < 32 then [CHR 0x5C, CHR ''u'', CHR ''0'', CHR ''0'', hex_digit (n div 16), hex_digit (n mod 16)]
     else [c])"

definition quote :: "string \<Rightarrow> string" where
  "quote s = CHR 0x22 # concat (map esc s) @ [CHR 0x22]"

fun join :: "string list \<Rightarrow> string" where
  "join [] = []"
| "join [x] = x"
| "join (x # y # ys) = x @ CHR '','' # join (y # ys)"

primrec canonicalJson :: "cjson \<Rightarrow> string option" where
  "canonicalJson CNull = Some ''null''"
| "canonicalJson (CBool b) = Some (if b then ''true'' else ''false'')"
| "canonicalJson (CInt n) = (if safe_integer n then Some (show_int n) else None)"
| "canonicalJson (CBig n) = Some (quote (show_int n))"
| "canonicalJson (CString s) = Some (quote s)"
| "canonicalJson (CArray vs) = map_option (\<lambda>ss. CHR ''['' # join ss @ '']'') (gather (map canonicalJson vs))"
| "canonicalJson (CObject kvs) =
     map_option (\<lambda>ss. CHR ''{'' # join ss @ ''}'')
       (gather (map (\<lambda>(k, v). map_option (\<lambda>s. quote k @ CHR '':'' # s) v)
          (sort_key fst (map (map_prod id canonicalJson) kvs))))"
| "canonicalJson COther = None"

section \<open>One text, one value\<close>

text \<open>What the text cannot tell apart: the order of keys, and a BigInt from its decimal string.\<close>

primrec normal :: "cjson \<Rightarrow> cjson" where
  "normal CNull = CNull"
| "normal (CBool b) = CBool b"
| "normal (CInt n) = CInt n"
| "normal (CBig n) = CString (show_int n)"
| "normal (CString s) = CString s"
| "normal (CArray vs) = CArray (map normal vs)"
| "normal (CObject kvs) = CObject (sort_key fst (map (map_prod id normal) kvs))"
| "normal COther = COther"

text \<open>Reading one escaped character back.\<close>

definition unhex :: "char \<Rightarrow> nat" where
  "unhex c = (let n = of_char c in if n < 58 then n - 48 else n - 87)"

fun unesc :: "string \<Rightarrow> char \<times> string" where
  "unesc (c # cs) =
     (if c = CHR 0x5C then (case cs of
         d # ds \<Rightarrow>
           if d = CHR ''u'' then (char_of (16 * unhex (ds ! 2) + unhex (ds ! 3)), drop 4 ds)
           else (if d = CHR ''b'' then char_of (8 :: nat) else if d = CHR ''t'' then char_of (9 :: nat) else if d = CHR ''n'' then char_of (10 :: nat)
             else if d = CHR ''f'' then char_of (12 :: nat) else if d = CHR ''r'' then char_of (13 :: nat) else d, ds)
       | [] \<Rightarrow> (c, []))
      else (c, cs))"
| "unesc [] = (CHR 0x00, [])"

lemma unhex_hex_digit: "d < 16 \<Longrightarrow> unhex (hex_digit d) = d"
  by (simp add: unhex_def hex_digit_def)

lemma esc_char_of:
  "(n :: nat) < 256 \<Longrightarrow> esc (char_of n) =
     (if n = 34 then [CHR 0x5C, CHR 0x22] else if n = 92 then [CHR 0x5C, CHR 0x5C]
     else if n = 8 then [CHR 0x5C, CHR ''b''] else if n = 9 then [CHR 0x5C, CHR ''t'']
     else if n = 10 then [CHR 0x5C, CHR ''n''] else if n = 12 then [CHR 0x5C, CHR ''f'']
     else if n = 13 then [CHR 0x5C, CHR ''r'']
     else if n < 32 then [CHR 0x5C, CHR ''u'', CHR ''0'', CHR ''0'', hex_digit (n div 16), hex_digit (n mod 16)]
     else [char_of n])"
  by (simp add: esc_def Let_def)

lemma unesc_u: "unesc (CHR 0x5C # CHR ''u'' # a # b # d # e # r) = (char_of (16 * unhex d + unhex e), r)"
  by simp

lemma unesc_plain: "c \<noteq> CHR 0x5C \<Longrightarrow> unesc (c # r) = (c, r)"
  by simp

lemma char_of_inject: "n < 256 \<Longrightarrow> m < 256 \<Longrightarrow> char_of n = (char_of m :: char) \<longleftrightarrow> n = (m :: nat)"
  by (metis mod_less of_char_of)

lemma char_literals:
  "char_of (8 :: nat) = CHR 0x08" "char_of (9 :: nat) = CHR 0x09" "char_of (10 :: nat) = CHR 0x0A"
  "char_of (12 :: nat) = CHR 0x0C" "char_of (13 :: nat) = CHR 0x0D" "char_of (34 :: nat) = CHR 0x22"
  "char_of (92 :: nat) = CHR 0x5C"
  by code_simp+

lemma unesc_esc_small: "(n :: nat) < 32 \<Longrightarrow> n \<notin> {8, 9, 10, 12, 13} \<Longrightarrow> unesc (esc (char_of n) @ r) = (char_of n, r)"
proof -
  assume a: "n < 32" "n \<notin> {8, 9, 10, 12, 13}"
  then have e: "esc (char_of n) = [CHR 0x5C, CHR ''u'', CHR ''0'', CHR ''0'', hex_digit (n div 16), hex_digit (n mod 16)]"
    by (subst esc_char_of) auto
  have "n div 16 < 16" using a by auto
  then have h: "unhex (hex_digit (n div 16)) = n div 16" "unhex (hex_digit (n mod 16)) = n mod 16"
    by (simp_all add: unhex_hex_digit)
  show ?thesis by (simp only: e append_Cons append_Nil unesc_u h) simp
qed

lemma unesc_esc: "unesc (esc c @ r) = (c, r)"
proof -
  obtain n :: nat where c: "c = char_of n" and n: "n < 256" using that [of "of_char c"] by simp
  consider (e) "n \<in> {8, 9, 10, 12, 13, 34, 92}" | (s) "n < 32 \<and> n \<notin> {8, 9, 10, 12, 13}" | (p) "32 \<le> n \<and> n \<noteq> 34 \<and> n \<noteq> 92"
    by fastforce
  then show ?thesis
  proof cases
    case e then show ?thesis by (auto simp: c char_literals esc_def)
  next
    case s then show ?thesis using unesc_esc_small by (auto simp: c)
  next
    case p
    then have "esc c = [c]" using n by (simp add: c esc_char_of)
    moreover have "c \<noteq> CHR 0x5C" unfolding c char_literals (7) [symmetric] using p n by (subst char_of_inject) auto
    ultimately show ?thesis by (simp add: unesc_plain)
  qed
qed

lemma esc_inject: "esc c @ r = esc c' @ r' \<Longrightarrow> c = c' \<and> r = r'"
  by (metis prod.inject unesc_esc)

lemma esc_head: "esc c @ r \<noteq> CHR 0x22 # r'"
proof
  assume h: "esc c @ r = CHR 0x22 # r'"
  then have "unesc (CHR 0x22 # r') = (c, r)" using unesc_esc [of c r] by (rule subst)
  then have "c = CHR 0x22" by simp
  then show False using h by (simp add: esc_def)
qed

lemma quote_inject: "quote s @ r = quote s' @ r' \<Longrightarrow> s = s' \<and> r = r'"
proof -
  have "concat (map esc s) @ CHR 0x22 # r = concat (map esc s') @ CHR 0x22 # r' \<Longrightarrow> s = s' \<and> r = r'"
  proof (induction s arbitrary: s')
    case Nil
    then show ?case using esc_head [of _ _ r] by (cases s') (auto simp: eq_commute [of "CHR 0x22 # r"])
  next
    case (Cons a s)
    show ?case
    proof (cases s')
      case Nil
      then show ?thesis using Cons.prems esc_head by auto
    next
      case (Cons b t)
      then show ?thesis using Cons.prems Cons.IH [of t] esc_inject [of a "concat (map esc s) @ CHR 0x22 # r" b] by auto
    qed
  qed
  then show "quote s @ r = quote s' @ r' \<Longrightarrow> s = s' \<and> r = r'" by (simp add: quote_def)
qed

lemma quote_append_eq: "quote s @ r = quote s' @ r' \<longleftrightarrow> s = s' \<and> r = r'"
  using quote_inject by blast

text \<open>A text that follows a value starts with a delimiter.\<close>

definition delimited :: "string \<Rightarrow> bool" where
  "delimited r \<longleftrightarrow> r = [] \<or> hd r \<in> {CHR '','', CHR '']'', CHR ''}''}"

lemma delimited_simps [simp]: "delimited []" "delimited (c # r) \<longleftrightarrow> c \<in> {CHR '','', CHR '']'', CHR ''}''}"
  by (simp_all add: delimited_def)

lemma show_int_chars: "c \<in> set (show_int n) \<Longrightarrow> decimal_char c \<or> c = CHR ''-''"
  using show_nat_decimal by (auto simp: show_int_def split: if_splits)

lemma show_int_nonempty [simp]: "show_int n \<noteq> []"
  by (simp add: show_int_def)

lemma delimiters_not_decimal:
  "c \<in> {CHR '','', CHR '']'', CHR ''}'', CHR ''n'', CHR ''t'', CHR ''f'', CHR 0x22, CHR ''['', CHR ''{''} \<Longrightarrow> \<not> decimal_char c \<and> c \<noteq> CHR ''-''"
  by auto

lemma show_int_delimited: "delimited r \<Longrightarrow> takeWhile (\<lambda>c. decimal_char c \<or> c = CHR ''-'') (show_int n @ r) = show_int n"
proof -
  assume d: "delimited r"
  then have "takeWhile (\<lambda>c. decimal_char c \<or> c = CHR ''-'') r = []"
    using delimiters_not_decimal by (cases r) auto
  then show ?thesis by (subst takeWhile_append2) (use show_int_chars in auto)
qed

lemma show_int_prefix_free: "show_int n @ r = show_int m @ r' \<Longrightarrow> delimited r \<Longrightarrow> delimited r' \<Longrightarrow> n = m \<and> r = r'"
  using show_int_delimited [of r n] show_int_delimited [of r' m] by auto

lemma gather_map_Some [simp]: "gather (map Some ys) = Some ys"
  by (induction ys) simp_all

lemma gather_Some: "gather xs = Some ys \<longleftrightarrow> xs = map Some ys"
proof
  show "gather xs = Some ys \<Longrightarrow> xs = map Some ys"
    by (induction xs arbitrary: ys) (auto split: option.splits)
qed simp

lemma gather_map_Cons:
  "gather (map f (x # xs)) = Some ss \<longleftrightarrow> (\<exists>t ts. ss = t # ts \<and> f x = Some t \<and> gather (map f xs) = Some ts)"
  by (auto split: option.splits)

lemma gather_map_Nil: "gather (map f []) = Some ss \<longleftrightarrow> ss = []"
  by auto

lemmas gather_map = gather_map_Cons gather_map_Nil

definition comma_tail :: "string list \<Rightarrow> string" where
  "comma_tail ss = concat (map ((#) CHR '','') ss)"

lemma comma_tail_simps [simp]: "comma_tail [] = []" "comma_tail (s # ss) = CHR '','' # s @ comma_tail ss"
  by (simp_all add: comma_tail_def)

lemma join_tail: "join (s # ss) = s @ comma_tail ss"
  by (induction ss arbitrary: s) simp_all

lemma delimited_tail: "e \<in> {CHR '']'', CHR ''}''} \<Longrightarrow> delimited (comma_tail ss @ e # r)"
  by (cases ss) auto

text \<open>
  One encoder of elements whose texts can be cut off at a delimiter: a list of such texts, joined by commas and
  closed by a bracket, has one reading too.
\<close>

locale readable =
  fixes enc :: "'a \<Rightarrow> string option" and nrm :: "'a \<Rightarrow> 'b" and good :: "'a \<Rightarrow> bool"
  assumes one_reading: "good x \<Longrightarrow> enc x = Some s \<Longrightarrow> enc y = Some t \<Longrightarrow> s @ r = t @ r' \<Longrightarrow> delimited r \<Longrightarrow> delimited r'
      \<Longrightarrow> nrm x = nrm y \<and> r = r'"
    and starts: "enc x = Some s \<Longrightarrow> s \<noteq> [] \<and> hd s \<notin> {CHR '','', CHR '']'', CHR ''}''}"
begin

lemma comma_tail_inject:
  "\<forall>x \<in> set xs. good x \<Longrightarrow> gather (map enc xs) = Some ss \<Longrightarrow> gather (map enc ys) = Some ts
    \<Longrightarrow> comma_tail ss @ e # r = comma_tail ts @ e # r' \<Longrightarrow> e \<in> {CHR '']'', CHR ''}''} \<Longrightarrow> map nrm xs = map nrm ys \<and> r = r'"
proof (induction xs arbitrary: ss ys ts)
  case Nil
  then show ?case by (cases ys) (auto simp: gather_map simp del: list.map)
next
  case (Cons x xs)
  then obtain s ss' where s: "ss = s # ss'" "enc x = Some s" "gather (map enc xs) = Some ss'"
    by (auto simp: gather_map simp del: list.map)
  with Cons.prems obtain y ys' t ts' where t: "ys = y # ys'" "ts = t # ts'" "enc y = Some t" "gather (map enc ys') = Some ts'"
    by (cases ys) (auto simp: gather_map simp del: list.map)
  have "s @ (comma_tail ss' @ e # r) = t @ (comma_tail ts' @ e # r')" using Cons.prems s t by simp
  from one_reading [OF _ s(2) t(3) this] have "nrm x = nrm y \<and> comma_tail ss' @ e # r = comma_tail ts' @ e # r'"
    using Cons.prems delimited_tail by simp
  then show ?case using Cons.IH [OF _ s(3) t(4)] Cons.prems t(1) by simp
qed

lemma join_inject:
  assumes "\<forall>x \<in> set xs. good x" "gather (map enc xs) = Some ss" "gather (map enc ys) = Some ts"
    and "join ss @ e # r = join ts @ e # r'" "e \<in> {CHR '']'', CHR ''}''}"
  shows "map nrm xs = map nrm ys \<and> r = r'"
proof (cases ss)
  case Nil
  then show ?thesis
  proof (cases ts)
    case (Cons t ts')
    then obtain y where "enc y = Some t" using assms(3) by (cases ys) (auto simp: gather_map simp del: list.map)
    then show ?thesis using assms Nil Cons starts [of y t] by (cases t) (auto simp: join_tail)
  qed (use assms in \<open>simp add: gather_Some\<close>)
next
  case (Cons s ss')
  show ?thesis
  proof (cases ts)
    case Nil
    obtain x where "enc x = Some s" using assms(2) Cons by (cases xs) (auto simp: gather_map simp del: list.map)
    then show ?thesis using assms Nil Cons starts [of x s] by (cases s) (auto simp: join_tail)
  next
    case (Cons t ts')
    then show ?thesis using comma_tail_inject [OF assms(1-3), of e r r'] assms \<open>ss = s # ss'\<close> by (simp add: join_tail)
  qed
qed

end

section \<open>The kinds of value, by their first character\<close>

primrec value_kind :: "cjson \<Rightarrow> nat" where
  "value_kind CNull = 0"
| "value_kind (CBool b) = (if b then 1 else 2)"
| "value_kind (CInt n) = 3"
| "value_kind (CBig n) = 4"
| "value_kind (CString s) = 4"
| "value_kind (CArray vs) = 5"
| "value_kind (CObject kvs) = 6"
| "value_kind COther = 7"

definition kind_of_char :: "char \<Rightarrow> nat" where
  "kind_of_char c =
     (if c = CHR ''n'' then 0 else if c = CHR ''t'' then 1 else if c = CHR ''f'' then 2 else if c = CHR 0x22 then 4
      else if c = CHR ''['' then 5 else if c = CHR ''{'' then 6 else 3)"

lemma show_int_head: "kind_of_char (hd (show_int n)) = 3 \<and> hd (show_int n) \<notin> {CHR '','', CHR '']'', CHR ''}''}"
proof -
  have "hd (show_int n) \<in> set (show_int n)" by simp
  then have "decimal_char (hd (show_int n)) \<or> hd (show_int n) = CHR ''-''" by (rule show_int_chars)
  then have "hd (show_int n) \<notin> {CHR '','', CHR '']'', CHR ''}'', CHR ''n'', CHR ''t'', CHR ''f'', CHR 0x22, CHR ''['', CHR ''{''}"
    using delimiters_not_decimal by blast
  then show ?thesis by (auto simp: kind_of_char_def)
qed

lemma value_head:
  "canonicalJson v = Some s \<Longrightarrow> s \<noteq> [] \<and> kind_of_char (hd s) = value_kind v \<and> hd s \<notin> {CHR '','', CHR '']'', CHR ''}''}"
proof (cases v)
  case (CInt n)
  then show "canonicalJson v = Some s \<Longrightarrow> ?thesis" using show_int_head [of n] by (auto split: if_splits)
qed (auto simp: kind_of_char_def quote_def split: if_splits)

lemma same_kind: "canonicalJson v = Some s \<Longrightarrow> canonicalJson w = Some t \<Longrightarrow> s @ r = t @ r' \<Longrightarrow> value_kind v = value_kind w"
  using value_head [of v s] value_head [of w t] by (metis hd_append2)

text \<open>Sorting the keys commutes with encoding and with normalising the members.\<close>

lemma insort_members: "insort_key fst (map_prod id f x) (map (map_prod id f) ys) = map (map_prod id f) (insort_key fst x ys)"
  by (induction ys) auto

lemma sort_members: "sort_key fst (map (map_prod id f) xs) = map (map_prod id f) (sort_key fst xs)"
  by (induction xs) (simp, simp only: list.map sort_key_simps insort_members)

definition member_text :: "string \<times> cjson \<Rightarrow> string option" where
  "member_text = (\<lambda>(k, v). map_option (\<lambda>s. quote k @ CHR '':'' # s) (canonicalJson v))"

lemma canonical_object:
  "canonicalJson (CObject kvs) = map_option (\<lambda>ss. CHR ''{'' # join ss @ ''}'') (gather (map member_text (sort_key fst kvs)))"
  by (simp add: sort_members member_text_def comp_def case_prod_unfold)

definition readable_value :: "cjson \<Rightarrow> bool" where
  "readable_value v \<longleftrightarrow> (\<forall>w s t r r'. canonicalJson v = Some s \<longrightarrow> canonicalJson w = Some t \<longrightarrow> s @ r = t @ r' \<longrightarrow> delimited r
     \<longrightarrow> delimited r' \<longrightarrow> normal v = normal w \<and> r = r')"

lemma readable_valueI:
  "(\<And>w s t r r'. canonicalJson v = Some s \<Longrightarrow> canonicalJson w = Some t \<Longrightarrow> value_kind v = value_kind w \<Longrightarrow> s @ r = t @ r' \<Longrightarrow> delimited r
     \<Longrightarrow> delimited r' \<Longrightarrow> normal v = normal w \<and> r = r') \<Longrightarrow> readable_value v"
  unfolding readable_value_def by (intro allI impI) (meson same_kind)

interpretation vals: readable canonicalJson normal readable_value
  by unfold_locales (unfold readable_value_def, blast, use value_head in blast)

interpretation mems: readable member_text "map_prod id normal" "\<lambda>kv. readable_value (snd kv)"
proof
  fix x y :: "string \<times> cjson" and s t r r'
  assume g: "readable_value (snd x)" and x: "member_text x = Some s" and y: "member_text y = Some t"
    and e: "s @ r = t @ r'" and d: "delimited r" "delimited r'"
  from x y obtain u v where u: "canonicalJson (snd x) = Some u" "s = quote (fst x) @ CHR '':'' # u"
    and v: "canonicalJson (snd y) = Some v" "t = quote (fst y) @ CHR '':'' # v"
    by (auto simp: member_text_def case_prod_unfold)
  have "quote (fst x) @ (CHR '':'' # u @ r) = quote (fst y) @ (CHR '':'' # v @ r')" using e u v by simp
  from quote_inject [OF this] have k: "fst x = fst y" and e: "u @ r = v @ r'" by simp_all
  have "normal (snd x) = normal (snd y) \<and> r = r'"
    using g [unfolded readable_value_def, rule_format, OF u(1) v(1) e d] .
  with k show "map_prod id normal x = map_prod id normal y \<and> r = r'" by (simp add: prod_eq_iff)
qed (auto simp: member_text_def quote_def)

lemma value_kind_cases:
  "value_kind w = 0 \<longleftrightarrow> w = CNull" "value_kind w = Suc 0 \<longleftrightarrow> w = CBool True" "value_kind w = 2 \<longleftrightarrow> w = CBool False"
  "value_kind w = 3 \<longleftrightarrow> (\<exists>n. w = CInt n)" "value_kind w = 4 \<longleftrightarrow> (\<exists>n. w = CBig n) \<or> (\<exists>s. w = CString s)"
  "value_kind w = 5 \<longleftrightarrow> (\<exists>vs. w = CArray vs)" "value_kind w = 6 \<longleftrightarrow> (\<exists>kvs. w = CObject kvs)"
  by (cases w; simp)+

lemma every_value_readable: "readable_value v"
proof (induction v)
  case CNull
  show ?case by (rule readable_valueI) (auto simp: value_kind_cases eq_commute [of 0])
next
  case (CBool b)
  show ?case by (rule readable_valueI) (auto simp: value_kind_cases eq_commute [of "Suc 0"] eq_commute [of 2] split: if_splits)
next
  case (CInt n)
  show ?case
    by (rule readable_valueI) (auto simp: value_kind_cases eq_commute [of 3] dest: show_int_prefix_free split: if_splits)
next
  case (CBig n)
  show ?case by (rule readable_valueI) (auto simp: value_kind_cases eq_commute [of 4] quote_append_eq)
next
  case (CString x)
  show ?case by (rule readable_valueI) (auto simp: value_kind_cases eq_commute [of 4] quote_append_eq)
next
  case (CArray vs)
  show ?case
  proof (rule readable_valueI)
    fix w s t r r'
    assume a: "canonicalJson (CArray vs) = Some s" "canonicalJson w = Some t" "value_kind (CArray vs) = value_kind w" "s @ r = t @ r'"
    then obtain ws where w: "w = CArray ws" by (auto simp: value_kind_cases eq_commute [of 5])
    with a obtain ss ts where "gather (map canonicalJson vs) = Some ss" "gather (map canonicalJson ws) = Some ts"
      "join ss @ CHR '']'' # r = join ts @ CHR '']'' # r'" by auto
    then show "normal (CArray vs) = normal w \<and> r = r'"
      using vals.join_inject [of vs ss ws ts "CHR '']''" r r'] CArray w by simp
  qed
next
  case (CObject kvs)
  show ?case
  proof (rule readable_valueI)
    fix w s t r r'
    assume a: "canonicalJson (CObject kvs) = Some s" "canonicalJson w = Some t" "value_kind (CObject kvs) = value_kind w" "s @ r = t @ r'"
    then obtain ws where w: "w = CObject ws" by (auto simp: value_kind_cases eq_commute [of 6])
    have k: "\<forall>kv \<in> set (sort_key fst kvs). readable_value (snd kv)" using CObject by (auto intro: snds.intros)
    from a(1,2,4) obtain ss ts where "gather (map member_text (sort_key fst kvs)) = Some ss"
      "gather (map member_text (sort_key fst ws)) = Some ts" "join ss @ CHR ''}'' # r = join ts @ CHR ''}'' # r'"
      unfolding w canonical_object by auto
    from mems.join_inject [OF k this] show "normal (CObject kvs) = normal w \<and> r = r'"
      by (simp add: w sort_members)
  qed
qed (simp add: readable_value_def)

text \<open>Two values with one canonical text are the same value, up to the order of their keys and to writing a
  big integer as its decimal string: a board cannot be changed and keep its text.\<close>

theorem canonical_text_has_one_reading:
  assumes "canonicalJson v = Some s" "canonicalJson w = Some s"
  shows "normal v = normal w"
  using every_value_readable [of v] assms unfolding readable_value_def by (metis delimited_simps(1))

theorem canonical_text_has_one_reading_witness:
  "normal (CObject [(''b'', CBig 7), (''a'', CArray [CNull, CInt 1])])
    = normal (CObject [(''a'', CArray [CNull, CInt 1]), (''b'', CString ''7'')])"
proof -
  have "canonicalJson (CObject [(''b'', CBig 7), (''a'', CArray [CNull, CInt 1])])
      = canonicalJson (CObject [(''a'', CArray [CNull, CInt 1]), (''b'', CString ''7'')])" by code_simp
  moreover have "canonicalJson (CObject [(''b'', CBig 7), (''a'', CArray [CNull, CInt 1])]) \<noteq> None" by code_simp
  ultimately show ?thesis using canonical_text_has_one_reading by (metis not_None_eq)
qed

text \<open>Encoding fails on exactly the values with an unsafe integer or another value_kind somewhere inside.\<close>

primrec encodable :: "cjson \<Rightarrow> bool" where
  "encodable CNull = True"
| "encodable (CBool b) = True"
| "encodable (CInt n) = safe_integer n"
| "encodable (CBig n) = True"
| "encodable (CString s) = True"
| "encodable (CArray vs) = list_all id (map encodable vs)"
| "encodable (CObject kvs) = list_all snd (map (map_prod id encodable) kvs)"
| "encodable COther = False"

lemma gather_total: "gather xs = None \<longleftrightarrow> None \<in> set xs"
  by (induction xs) (auto split: option.splits)

lemma canonicalJson_None: "canonicalJson v = None \<longleftrightarrow> \<not> encodable v"
proof (induction v)
  case (CArray vs)
  have "canonicalJson (CArray vs) = None \<longleftrightarrow> (\<exists>v \<in> set vs. canonicalJson v = None)"
    by (auto simp: gather_total image_iff eq_commute [of None])
  then show ?case using CArray by (simp add: list_all_iff)
next
  case (CObject kvs)
  have k: "canonicalJson v = None \<longleftrightarrow> \<not> encodable v" if "(k, v) \<in> set kvs" for k v
    using CObject [OF that] by (simp add: snds.simps)
  have "canonicalJson (CObject kvs) = None \<longleftrightarrow> (\<exists>(k, v) \<in> set kvs. canonicalJson v = None)"
    unfolding canonical_object by (auto simp: gather_total image_iff member_text_def eq_commute [of None] split: prod.splits)
  also have "\<dots> \<longleftrightarrow> (\<exists>(k, v) \<in> set kvs. \<not> encodable v)" using k by blast
  also have "\<dots> \<longleftrightarrow> \<not> encodable (CObject kvs)" by (force simp: list_all_iff)
  finally show ?case .
qed auto

end
