(* ===== verification/Leader_Board.thy ===== *)
theory Leader_Board
  imports Leader_Json
begin

text \<open>
  The board of the activity leaderboard (\<open>packages/activity-leaderboard/src\<close>): \<open>team.mjs\<close> and \<open>board.mjs\<close>. Ranks,
  totals and global rows are computed on records and written out as JSON values; the hash is a parameter.
\<close>

section \<open>Team-operated addresses\<close>

datatype board_error =
    NoAddressesArray
  | NotAnAddress string string
  | NoCodeHash string int
  | CannotEncode

type_synonym team = "(string, string list) jsmap"

text \<open>An entry of the seeded document may lack its address; the three lists are walked one after another.\<close>

fun team_add :: "string \<Rightarrow> team \<Rightarrow> string option list \<Rightarrow> board_error + team" where
  "team_add reason m [] = Inr m"
| "team_add reason m (a # as) = (case a of
      None \<Rightarrow> Inl (NotAnAddress reason ''undefined'')
    | Some s \<Rightarrow>
        if \<not> is_address s then Inl (NotAnAddress reason s)
        else team_add reason (AList.update (lc s) (jadd reason (jget_or [] m (lc s))) m) as)"

definition buildTeamSet :: "string option list option \<Rightarrow> string list \<Rightarrow> string list \<Rightarrow> board_error + team" where
  "buildTeamSet seeded creators deployers = (case seeded of
      None \<Rightarrow> Inl NoAddressesArray
    | Some addresses \<Rightarrow>
        bindE (team_add ''seeded'' [] addresses) (\<lambda>m1.
        bindE (team_add ''creator'' m1 (map Some creators)) (\<lambda>m2.
        bindE (team_add ''deployer'' m2 (map Some deployers)) (\<lambda>m3.
          Inr (map (\<lambda>(k, v). (k, sort v)) m3)))))"

section \<open>Rows and ranks\<close>

definition SCHEMA :: string where "SCHEMA = ''activity-leaderboard/1''"
definition FORMULA_VERSION :: string where "FORMULA_VERSION = ''usdc-days-1''"
definition SECONDS_PER_DAY :: int where "SECONDS_PER_DAY = 86400"
definition USDC_DAYS_DECIMALS :: nat where "USDC_DAYS_DECIMALS = 6"

definition usdcDaysString :: "int \<Rightarrow> string" where
  "usdcDaysString usdcSeconds =
     (let micro = bdiv usdcSeconds SECONDS_PER_DAY;
          s = pad_start (USDC_DAYS_DECIMALS + 1) (CHR ''0'') (show_int micro);
          k = length s - USDC_DAYS_DECIMALS
      in take k s @ ''.'' @ drop k s)"

record measured =
  me_address :: string
  me_secs :: int
  me_team :: bool
  me_reasons :: "string list"
  me_extra :: "(int list \<times> int list) option"

record board_row =
  br_extra :: "(int list \<times> int list) option"
  br_address :: string
  br_rank :: "nat option"
  br_team :: bool
  br_reasons :: "string list"
  br_days :: string
  br_secs :: int

definition rank_cmp :: "measured \<Rightarrow> measured \<Rightarrow> int" where
  "rank_cmp a b =
     (if me_secs a = me_secs b then (if me_address a < me_address b then -1 else 1)
      else if me_secs a > me_secs b then -1 else 1)"

definition address_cmp :: "measured \<Rightarrow> measured \<Rightarrow> int" where
  "address_cmp a b = (if me_address a < me_address b then -1 else if me_address a > me_address b then 1 else 0)"

definition rankRows :: "measured list \<Rightarrow> board_row list" where
  "rankRows rows =
     (let ranked = js_sort rank_cmp (filter (\<lambda>r. \<not> me_team r) rows);
          rankOf = map_of (rev (map (\<lambda>(i, r). (me_address r, i + 1)) (enumerate 0 ranked)))
      in map (\<lambda>r. \<lparr> br_extra = me_extra r, br_address = me_address r, br_rank = rankOf (me_address r), br_team = me_team r,
            br_reasons = me_reasons r, br_days = usdcDaysString (me_secs r), br_secs = me_secs r \<rparr>)
          (js_sort address_cmp rows))"

record side_total =
  st_addresses :: int
  st_secs :: int

definition totalsOf :: "board_row list \<Rightarrow> side_total \<times> side_total" where
  "totalsOf rows = foldl (\<lambda>(team, others) r.
      let count = \<lambda>t. t\<lparr>st_addresses := st_addresses t + 1, st_secs := st_secs t + br_secs r\<rparr>
      in if br_team r then (count team, others) else (team, count others))
    (\<lparr> st_addresses = 0, st_secs = 0 \<rparr>, \<lparr> st_addresses = 0, st_secs = 0 \<rparr>) rows"

section \<open>The global rows\<close>

record chain_input =
  ci_chainId :: int
  ci_name :: string
  ci_vaults :: "string list"
  ci_fromBlock :: int
  ci_toBlock :: int
  ci_toBlockHash :: string
  ci_integratedUntil :: int
  ci_secs :: "(string, int) jsmap"
  ci_hashes :: "(string, string) jsmap"

record part =
  pt_chain :: int
  pt_secs :: int
  pt_hash :: string

fun add_parts :: "chain_input \<Rightarrow> (string, part list) jsmap \<Rightarrow> (string \<times> int) list \<Rightarrow> board_error + (string, part list) jsmap" where
  "add_parts c byAddr [] = Inr byAddr"
| "add_parts c byAddr ((addr, secs) # rest) = (case map_of (ci_hashes c) addr of
      None \<Rightarrow> Inl (NoCodeHash addr (ci_chainId c))
    | Some codeHash \<Rightarrow>
        add_parts c (AList.update addr (jget_or [] byAddr addr
          @ [\<lparr> pt_chain = ci_chainId c, pt_secs = secs, pt_hash = codeHash \<rparr>]) byAddr) rest)"

fun by_address :: "(string, part list) jsmap \<Rightarrow> chain_input list \<Rightarrow> board_error + (string, part list) jsmap" where
  "by_address byAddr [] = Inr byAddr"
| "by_address byAddr (c # cs) = bindE (add_parts c byAddr (ci_secs c)) (\<lambda>m. by_address m cs)"

definition part_cmp :: "part \<Rightarrow> part \<Rightarrow> int" where
  "part_cmp a b =
     (if pt_secs a = pt_secs b then pt_chain a - pt_chain b else if pt_secs a > pt_secs b then -1 else 1)"

definition global_row :: "team \<Rightarrow> string \<times> part list \<Rightarrow> measured" where
  "global_row team = (\<lambda>(address, parts).
     let ref = hd (js_sort part_cmp parts);
         counted = filter (\<lambda>p. pt_hash p = pt_hash ref) parts;
         excluded = filter (\<lambda>p. pt_hash p \<noteq> pt_hash ref) parts
     in \<lparr> me_address = address, me_secs = foldl (\<lambda>s p. s + pt_secs p) 0 counted,
          me_team = (map_of team address \<noteq> None), me_reasons = jget_or [] team address,
          me_extra = Some (sort (map pt_chain counted), sort (map pt_chain excluded)) \<rparr>)"

definition globalRows :: "chain_input list \<Rightarrow> team \<Rightarrow> board_error + measured list" where
  "globalRows cs team = bindE (by_address [] cs) (\<lambda>m. Inr (map (global_row team) m))"

section \<open>The board\<close>

record epoch_info =
  ep_number :: int
  ep_start :: int
  ep_end :: int
  ep_status :: string

definition row_json :: "board_row \<Rightarrow> cjson" where
  "row_json r = CObject
     ((case br_extra r of None \<Rightarrow> [] | Some (counted, excluded) \<Rightarrow>
         [(''chainsCounted'', CArray (map CInt counted)), (''chainsExcluded'', CArray (map CInt excluded))])
      @ [(''address'', CString (br_address r)),
         (''rank'', case br_rank r of None \<Rightarrow> CNull | Some n \<Rightarrow> CInt (int n)),
         (''teamOperated'', CBool (br_team r)), (''teamReasons'', CArray (map CString (br_reasons r))),
         (''usdcDays'', CString (br_days r)), (''usdcSeconds'', CBig (br_secs r))])"

definition total_json :: "side_total \<Rightarrow> cjson" where
  "total_json t = CObject [(''addresses'', CInt (st_addresses t)), (''usdcDays'', CString (usdcDaysString (st_secs t))),
     (''usdcSeconds'', CBig (st_secs t))]"

definition totals_json :: "board_row list \<Rightarrow> cjson" where
  "totals_json rows = (let (team, others) = totalsOf rows in
     CObject [(''teamOperated'', total_json team), (''others'', total_json others)])"

definition chain_rows :: "team \<Rightarrow> chain_input \<Rightarrow> board_row list" where
  "chain_rows team c = rankRows (map (\<lambda>(address, secs).
     \<lparr> me_address = address, me_secs = secs, me_team = (map_of team address \<noteq> None), me_reasons = jget_or [] team address,
       me_extra = None \<rparr>) (ci_secs c))"

definition chain_json :: "team \<Rightarrow> chain_input \<Rightarrow> cjson" where
  "chain_json team c = (let rows = chain_rows team c in CObject
     [(''chainId'', CInt (ci_chainId c)), (''name'', CString (ci_name c)),
      (''vaults'', CArray (map CString (sort (map lc (ci_vaults c))))),
      (''fromBlock'', CInt (ci_fromBlock c)), (''toBlock'', CInt (ci_toBlock c)), (''toBlockHash'', CString (ci_toBlockHash c)),
      (''integratedUntil'', CInt (ci_integratedUntil c)),
      (''rows'', CArray (map row_json rows)), (''totals'', totals_json rows)])"

definition board_body :: "epoch_info \<Rightarrow> string \<Rightarrow> string \<Rightarrow> team \<Rightarrow> chain_input list \<Rightarrow> measured list \<Rightarrow> (string \<times> cjson) list" where
  "board_body epoch codeCommit seededSha team orderedChains gMeasured =
     (let gRows = rankRows gMeasured in
      [(''schema'', CString SCHEMA), (''formulaVersion'', CString FORMULA_VERSION),
       (''epoch'', CObject [(''number'', CInt (ep_number epoch)), (''start'', CInt (ep_start epoch)), (''end'', CInt (ep_end epoch)),
          (''status'', CString (ep_status epoch))]),
       (''codeCommit'', CString codeCommit), (''seededAddressesSha256'', CString seededSha),
       (''chains'', CArray (map (chain_json team) orderedChains)),
       (''global'', CObject [(''rows'', CArray (map row_json gRows)), (''totals'', totals_json gRows)])])"

definition buildBoard ::
  "(string \<Rightarrow> string) \<Rightarrow> epoch_info \<Rightarrow> string \<Rightarrow> string \<Rightarrow> team \<Rightarrow> chain_input list \<Rightarrow> board_error + (string \<times> cjson) list" where
  "buildBoard sha256Hex epoch codeCommit seededSha team cs =
     (let orderedChains = js_sort (\<lambda>a b. ci_chainId a - ci_chainId b) cs in
      bindE (globalRows orderedChains team) (\<lambda>g.
        let body = board_body epoch codeCommit seededSha team orderedChains g in
        case canonicalJson (CObject body) of
          None \<Rightarrow> Inl CannotEncode
        | Some t \<Rightarrow> Inr (body @ [(''contentSha256'', CString (sha256Hex t))])))"

definition verifyBoard :: "(string \<Rightarrow> string) \<Rightarrow> (string \<times> cjson) list \<Rightarrow> bool option" where
  "verifyBoard sha256Hex board =
     (let body = filter (\<lambda>kv. fst kv \<noteq> ''contentSha256'') board in
      case map_of board ''contentSha256'' of
        Some (CString h) \<Rightarrow> map_option (\<lambda>t. sha256Hex t = h) (canonicalJson (CObject body))
      | _ \<Rightarrow> Some False)"

definition boardFileText :: "(string \<times> cjson) list \<Rightarrow> string option" where
  "boardFileText board = map_option (\<lambda>t. t @ [CHR 0x0A]) (canonicalJson (CObject board))"

section \<open>Ranks\<close>

text \<open>Row \<open>a\<close> comes ahead of row \<open>b\<close>.\<close>

definition ahead :: "measured \<Rightarrow> measured \<Rightarrow> bool" where
  "ahead a b \<longleftrightarrow> me_secs b < me_secs a \<or> me_secs a = me_secs b \<and> me_address a < me_address b"

lemma sorted_position:
  assumes "sorted_wrt lt xs" "\<And>a b. lt a b \<Longrightarrow> \<not> lt b a" "i < length xs"
  shows "{y \<in> set xs. lt y (xs ! i)} = set (take i xs)"
proof
  show "set (take i xs) \<subseteq> {y \<in> set xs. lt y (xs ! i)}"
  proof
    fix y assume "y \<in> set (take i xs)"
    then obtain j where "j < i" "y = xs ! j" using assms(3) by (auto simp: in_set_conv_nth)
    then show "y \<in> {y \<in> set xs. lt y (xs ! i)}" using assms(1,3) by (auto intro: sorted_wrt_nth_less)
  qed
  show "{y \<in> set xs. lt y (xs ! i)} \<subseteq> set (take i xs)"
  proof
    fix y assume "y \<in> {y \<in> set xs. lt y (xs ! i)}"
    then obtain j where j: "j < length xs" "y = xs ! j" "lt (xs ! j) (xs ! i)" by (auto simp: in_set_conv_nth)
    then have "\<not> lt (xs ! i) (xs ! j)" "j \<noteq> i" using assms(2) by blast+
    then have "j < i" using assms(1,3) j(1) by (metis linorder_neqE_nat sorted_wrt_nth_less)
    then show "y \<in> set (take i xs)" using j by (auto simp: in_set_conv_nth)
  qed
qed

lemma ranked_order:
  assumes "distinct (map me_address rows)"
  shows "sorted_wrt ahead (js_sort rank_cmp rows)"
proof -
  let ?R = "\<lambda>a b. me_secs b < me_secs a \<or> me_secs a = me_secs b \<and> me_address a \<le> me_address b"
  have "sorted_wrt ?R (js_sort rank_cmp rows)"
    by (rule js_sort_sorted) (auto simp: rank_cmp_def intro!: transpI split: if_splits)
  moreover have "distinct (map me_address (js_sort rank_cmp rows))"
    using assms by (metis mset_js_sort mset_map mset_eq_imp_distinct_iff)
  ultimately have "sorted_wrt (\<lambda>a b. ?R a b \<and> me_address a \<noteq> me_address b) (js_sort rank_cmp rows)"
    by (auto simp: sorted_wrt_iff_nth_less distinct_conv_nth)
  then show ?thesis by (rule sorted_wrt_mono_rel [rotated]) (auto simp: ahead_def)
qed

lemma rank_lookup:
  assumes "distinct (map me_address xs)" "i < length xs"
  shows "map_of (rev (map (\<lambda>(i, r). (me_address r, i + 1)) (enumerate 0 xs))) (me_address (xs ! i)) = Some (i + 1)"
proof -
  let ?ys = "map (\<lambda>(i, r). (me_address r, i + 1)) (enumerate 0 xs)"
  have "map fst ?ys = map me_address (map snd (enumerate 0 xs))"
    by (simp only: map_map comp_def case_prod_unfold fst_conv)
  also have "\<dots> = map me_address xs" by (simp only: map_snd_enumerate)
  finally have "map fst ?ys = map me_address xs" .
  then have "distinct (map fst (rev ?ys))" using assms(1) by (simp add: rev_map [symmetric])
  moreover have "(me_address (xs ! i), i + 1) \<in> set (rev ?ys)"
    using assms(2) by (auto simp: in_set_enumerate_eq image_iff intro!: bexI [of _ "(i, xs ! i)"])
  ultimately show ?thesis by (rule map_of_is_SomeI)
qed

lemma rank_lookup_none:
  "a \<notin> me_address ` set xs \<Longrightarrow> map_of (rev (map (\<lambda>(i, r). (me_address r, i + 1)) (enumerate 0 xs))) a = None"
  by (auto simp: map_of_eq_None_iff in_set_enumerate_eq)

lemma address_order: "distinct (map me_address rows) \<Longrightarrow> map me_address (js_sort address_cmp rows) = sort (map me_address rows)"
proof (rule sorted_distinct_set_unique)
  assume d: "distinct (map me_address rows)"
  have "sorted_wrt (\<lambda>a b. me_address a \<le> me_address b) (js_sort address_cmp rows)"
    by (rule js_sort_sorted) (auto simp: address_cmp_def intro!: transpI split: if_splits)
  then show "sorted (map me_address (js_sort address_cmp rows))" by (simp add: sorted_wrt_map)
  show "distinct (map me_address (js_sort address_cmp rows))" using d by (metis mset_js_sort mset_map mset_eq_imp_distinct_iff)
qed simp_all

text \<open>The rows of a board are its members in address order, and a rank is what it says: team-operated rows
  have none, every other row has one more than the number of such rows ahead of it, by USDC-seconds and then
  by address, so the order the rows arrive in does not matter.\<close>

theorem rank_counts_the_rows_ahead:
  assumes "distinct (map me_address rows)"
  shows "map br_address (rankRows rows) = sort (map me_address rows)
    \<and> (\<forall>r \<in> set rows. \<exists>b \<in> set (rankRows rows). br_address b = me_address r \<and> br_secs b = me_secs r \<and> br_team b = me_team r
        \<and> br_rank b = (if me_team r then None else Some (1 + card {q \<in> set rows. \<not> me_team q \<and> ahead q r})))"
proof -
  let ?ranked = "js_sort rank_cmp (filter (\<lambda>r. \<not> me_team r) rows)"
  let ?rankOf = "map_of (rev (map (\<lambda>(i, r). (me_address r, i + 1)) (enumerate 0 ?ranked)))"
  have d: "distinct (map me_address (filter (\<lambda>r. \<not> me_team r) rows))" using assms by (rule distinct_map_filter)
  then have dr: "distinct (map me_address ?ranked)" by (metis mset_js_sort mset_map mset_eq_imp_distinct_iff)
  have "?rankOf (me_address r) = (if me_team r then None else Some (1 + card {q \<in> set rows. \<not> me_team q \<and> ahead q r}))"
    if r: "r \<in> set rows" for r
  proof (cases "me_team r")
    case True
    then have "me_address r \<notin> me_address ` set ?ranked"
      using r assms by (auto simp: distinct_map inj_on_def)
    from rank_lookup_none [OF this] show ?thesis using True by (simp only: if_True)
  next
    case False
    then have "r \<in> set ?ranked" using r by simp
    then obtain i where i: "i < length ?ranked" "r = ?ranked ! i" by (metis in_set_conv_nth)
    have "{q \<in> set ?ranked. ahead q (?ranked ! i)} = set (take i ?ranked)"
      by (rule sorted_position [OF ranked_order [OF d] _ i(1)]) (auto simp: ahead_def)
    moreover have "{q \<in> set rows. \<not> me_team q \<and> ahead q r} = {q \<in> set ?ranked. ahead q (?ranked ! i)}"
      unfolding i(2) [symmetric] by auto
    ultimately have "{q \<in> set rows. \<not> me_team q \<and> ahead q r} = set (take i ?ranked)" by simp
    moreover have "distinct (take i ?ranked)" using dr by (simp add: distinct_map)
    ultimately have "card {q \<in> set rows. \<not> me_team q \<and> ahead q r} = i" using i(1) by (simp add: distinct_card)
    then show ?thesis using False rank_lookup [OF dr i(1)] unfolding i(2) [symmetric] by (simp only: if_False) simp
  qed
  then show ?thesis
    using address_order [OF assms] by (auto simp: rankRows_def Let_def comp_def)
qed

lemma rank_counts_the_rows_ahead_witness:
  "let row = \<lambda>a n t. \<lparr> me_address = a, me_secs = n, me_team = t, me_reasons = [], me_extra = None \<rparr>;
       rows = [row ''0xb'' 5 False, row ''0xa'' 5 False, row ''0xc'' 9 True]
   in map br_address (rankRows rows) = [''0xa'', ''0xb'', ''0xc''] \<and> map br_rank (rankRows rows) = [Some 1, Some 2, None]"
proof -
  let ?row = "\<lambda>a n t. \<lparr> me_address = a, me_secs = n, me_team = t, me_reasons = [], me_extra = None \<rparr>"
  let ?rows = "[?row ''0xb'' 5 False, ?row ''0xa'' 5 False, ?row ''0xc'' 9 True]"
  have "map br_address (rankRows ?rows) = sort (map me_address ?rows)" using rank_counts_the_rows_ahead [of ?rows] by simp
  moreover have "sort (map me_address ?rows) = [''0xa'', ''0xb'', ''0xc'']" by code_simp
  moreover have "map br_rank (rankRows ?rows) = [Some 1, Some 2, None]" by code_simp
  ultimately show ?thesis by (simp add: Let_def)
qed

section \<open>Totals and days\<close>

lemma totalsOf_eq:
  "totalsOf rows =
     (\<lparr> st_addresses = int (length (filter br_team rows)), st_secs = sum_list (map br_secs (filter br_team rows)) \<rparr>,
      \<lparr> st_addresses = int (length (filter (\<lambda>r. \<not> br_team r) rows)), st_secs = sum_list (map br_secs (filter (\<lambda>r. \<not> br_team r) rows)) \<rparr>)"
proof -
  have "foldl (\<lambda>(team, others) r.
      let count = \<lambda>t. t\<lparr>st_addresses := st_addresses t + 1, st_secs := st_secs t + br_secs r\<rparr>
      in if br_team r then (count team, others) else (team, count others)) (t, u) rows =
    (\<lparr> st_addresses = st_addresses t + int (length (filter br_team rows)), st_secs = st_secs t + sum_list (map br_secs (filter br_team rows)) \<rparr>,
     \<lparr> st_addresses = st_addresses u + int (length (filter (\<lambda>r. \<not> br_team r) rows)),
       st_secs = st_secs u + sum_list (map br_secs (filter (\<lambda>r. \<not> br_team r) rows)) \<rparr>)" for t u
    by (induction rows arbitrary: t u) (simp_all add: Let_def)
  then show ?thesis by (simp add: totalsOf_def)
qed

lemma sum_partition:
  "sum_list (map f (filter P xs)) + sum_list (map f (filter (\<lambda>x. \<not> P x) xs)) = (sum_list (map f xs) :: int)"
  by (induction xs) simp_all

lemma rankRows_secs: "mset (map br_secs (rankRows rows)) = mset (map me_secs rows)"
  by (simp add: rankRows_def Let_def comp_def)

text \<open>The two totals of a board partition it: every row is in exactly one, none is lost in ranking, and together
  they are all the USDC-seconds that were measured.\<close>

theorem two_totals_cover_the_board:
  "(case totalsOf (rankRows rows) of (team, others) \<Rightarrow>
      st_addresses team + st_addresses others = int (length rows) \<and> st_secs team + st_secs others = sum_list (map me_secs rows)
      \<and> st_secs team = sum_list (map me_secs (filter me_team rows)))"
proof -
  let ?b = "rankRows rows"
  have len: "length ?b = length rows" by (simp add: rankRows_def Let_def)
  have "sum_list (map br_secs ?b) = sum_list (map me_secs rows)"
    using rankRows_secs [of rows] by (metis sum_mset_sum_list)
  moreover have "mset (map br_secs (filter br_team ?b)) = mset (map me_secs (filter me_team rows))"
  proof -
    have "map br_secs (filter br_team ?b) = map me_secs (filter me_team (js_sort address_cmp rows))"
      by (simp add: rankRows_def Let_def filter_map comp_def)
    then show ?thesis by (metis mset_filter mset_js_sort mset_map)
  qed
  then have "sum_list (map br_secs (filter br_team ?b)) = sum_list (map me_secs (filter me_team rows))"
    by (metis sum_mset_sum_list)
  moreover have "sum_list (map br_secs (filter br_team ?b)) + sum_list (map br_secs (filter (\<lambda>r. \<not> br_team r) ?b)) = sum_list (map br_secs ?b)"
    by (rule sum_partition)
  ultimately show ?thesis using sum_length_filter_compl [of br_team ?b] len by (simp add: totalsOf_eq)
qed

text \<open>The days string of a total is exact: its digits, without the point, are the USDC-seconds in millionths of a
  USDC-day, rounded down, and there are six of them after the point.\<close>

theorem usdcDays_reads_back:
  assumes "0 \<le> n"
  shows "\<exists>whole frac. usdcDaysString n = whole @ ''.'' @ frac \<and> length frac = 6 \<and> whole \<noteq> []
    \<and> parse_digits 10 (whole @ frac) = Some (nat (n div 86400))"
proof -
  let ?s = "pad_start 7 (CHR ''0'') (show_nat (nat (n div 86400)))"
  let ?k = "length ?s - 6"
  have m: "bdiv n 86400 = n div 86400" using assms by simp
  have si: "show_int (n div 86400) = show_nat (nat (n div 86400))" using assms by (simp add: show_int_def div_neg_pos_less0)
  have l: "length ?s \<ge> 7" by (simp add: pad_start_def)
  have "usdcDaysString n = take ?k ?s @ ''.'' @ drop ?k ?s"
    by (simp add: usdcDaysString_def SECONDS_PER_DAY_def USDC_DAYS_DECIMALS_def Let_def m si)
  moreover have "length (drop ?k ?s) = 6" "take ?k ?s \<noteq> []" using l by auto
  moreover have "parse_digits 10 (take ?k ?s @ drop ?k ?s) = Some (nat (n div 86400))"
    using l by (auto simp: parse_digits_def)
  ultimately show ?thesis by blast
qed

lemma usdcDays_reads_back_witness:
  "usdcDaysString 259200 = ''0.000003'' \<and> (\<exists>w f. usdcDaysString 259200 = w @ ''.'' @ f \<and> length f = 6)"
proof
  show "usdcDaysString 259200 = ''0.000003''" by code_simp
  show "\<exists>w f. usdcDaysString 259200 = w @ ''.'' @ f \<and> length f = 6" using usdcDays_reads_back [of 259200] by auto
qed

section \<open>The hash\<close>

lemma filter_members: "filter (\<lambda>kv. P (fst kv)) (map (map_prod id f) xs) = map (map_prod id f) (filter (\<lambda>kv. P (fst kv)) xs)"
  by (induction xs) auto

lemma sort_filter: "filter P (sort_key f xs) = sort_key f (filter P xs)"
  by (simp add: filter_sort)

lemma canonical_normal: "canonicalJson (normal v) = canonicalJson v"
proof (induction v)
  case (CArray vs)
  have "map (canonicalJson \<circ> normal) vs = map canonicalJson vs" using CArray by simp
  then show ?case by (simp only: normal.simps canonicalJson.simps map_map)
next
  case (CObject kvs)
  have "map (map_prod id canonicalJson) (map (map_prod id normal) kvs) = map (map_prod id canonicalJson) kvs"
    using CObject by (auto simp: snds.simps)
  then have "map (map_prod id canonicalJson) (sort_key fst (map (map_prod id normal) kvs)) = map (map_prod id canonicalJson) (sort_key fst kvs)"
    by (metis sort_members)
  moreover have "sort_key fst (sort_key fst kvs) = sort_key fst kvs" by (rule sort_key_id_if_sorted) simp
  ultimately have "sort_key fst (map (map_prod id canonicalJson) (sort_key fst (map (map_prod id normal) kvs)))
      = sort_key fst (map (map_prod id canonicalJson) kvs)"
    by (simp only: sort_members)
  then show ?case by (simp only: normal.simps canonicalJson.simps)
qed auto

section \<open>Global rows\<close>

text \<open>What a chain contributes to an address: nothing, or its one part.\<close>

definition chain_part :: "chain_input \<Rightarrow> string \<Rightarrow> part list" where
  "chain_part c a = (case map_of (ci_secs c) a of
      None \<Rightarrow> []
    | Some s \<Rightarrow> [\<lparr> pt_chain = ci_chainId c, pt_secs = s, pt_hash = the (map_of (ci_hashes c) a) \<rparr>])"

definition parts_of :: "chain_input list \<Rightarrow> string \<Rightarrow> part list" where
  "parts_of cs a = concat (map (\<lambda>c. chain_part c a) cs)"

lemma add_parts_ok:
  assumes "add_parts c m xs = Inr m'" "distinct (map fst xs)"
  shows "jget_or [] m' a = jget_or [] m a @ (case map_of xs a of
        None \<Rightarrow> [] | Some s \<Rightarrow> [\<lparr> pt_chain = ci_chainId c, pt_secs = s, pt_hash = the (map_of (ci_hashes c) a) \<rparr>])
    \<and> fst ` set m' = fst ` set m \<union> fst ` set xs \<and> (wf_map m \<longrightarrow> wf_map m')"
  using assms
proof (induction xs arbitrary: m)
  case (Cons x xs)
  obtain b s where x: "x = (b, s)" by (cases x)
  with Cons.prems(1) obtain h where h: "map_of (ci_hashes c) b = Some h" by (auto split: option.splits)
  have "map_of xs b = None" using Cons.prems(2) x by (simp add: map_of_eq_None_iff)
  then show ?case using Cons.IH [of "AList.update b (jget_or [] m b @ [\<lparr> pt_chain = ci_chainId c, pt_secs = s, pt_hash = h \<rparr>]) m"] Cons.prems x h
    by (auto simp: dom_update)
qed simp

lemma by_address_ok:
  assumes "by_address m cs = Inr m'" "\<forall>c \<in> set cs. wf_map (ci_secs c)"
  shows "jget_or [] m' a = jget_or [] m a @ parts_of cs a \<and> fst ` set m' = fst ` set m \<union> (\<Union>c \<in> set cs. fst ` set (ci_secs c))
    \<and> (wf_map m \<longrightarrow> wf_map m')"
  using assms
proof (induction cs arbitrary: m)
  case (Cons c cs)
  from Cons.prems(1) obtain m1 where m1: "add_parts c m (ci_secs c) = Inr m1" "by_address m1 cs = Inr m'" by (auto simp: bindE_Inr)
  show ?case using add_parts_ok [OF m1(1), of a] Cons.IH [OF m1(2)] Cons.prems(2) by (auto simp: parts_of_def chain_part_def)
qed (simp add: parts_of_def)

lemma add_parts_fails: "add_parts c m xs = Inl e \<Longrightarrow> \<exists>a \<in> fst ` set xs. map_of (ci_hashes c) a = None \<and> e = NoCodeHash a (ci_chainId c)"
  by (induction xs arbitrary: m) (simp, fastforce split: option.splits)

lemma add_parts_succeeds: "add_parts c m xs = Inr m' \<Longrightarrow> a \<in> fst ` set xs \<Longrightarrow> map_of (ci_hashes c) a \<noteq> None"
proof (induction xs arbitrary: m)
  case (Cons x xs)
  obtain b s where x: "x = (b, s)" by (cases x)
  with Cons.prems(1) obtain h m1 where "map_of (ci_hashes c) b = Some h" "add_parts c m1 xs = Inr m'" by (auto split: option.splits)
  with Cons.IH [of m1] Cons.prems(2) x show ?case by (cases "a = b") auto
qed simp

lemma by_address_fails:
  "by_address m cs = Inl e \<Longrightarrow> \<exists>c \<in> set cs. \<exists>a \<in> fst ` set (ci_secs c). map_of (ci_hashes c) a = None \<and> e = NoCodeHash a (ci_chainId c)"
  by (induction cs arbitrary: m) (auto simp: bindE_def dest: add_parts_fails split: sum.splits)

lemma by_address_succeeds:
  "by_address m cs = Inr m' \<Longrightarrow> c \<in> set cs \<Longrightarrow> a \<in> fst ` set (ci_secs c) \<Longrightarrow> map_of (ci_hashes c) a \<noteq> None"
  by (induction cs arbitrary: m) (auto simp: bindE_Inr dest: add_parts_succeeds)

lemma reference_part:
  assumes "parts \<noteq> []"
  shows "hd (js_sort part_cmp parts) \<in> set parts \<and> (\<forall>p \<in> set parts. pt_secs p < pt_secs (hd (js_sort part_cmp parts))
    \<or> pt_secs p = pt_secs (hd (js_sort part_cmp parts)) \<and> pt_chain (hd (js_sort part_cmp parts)) \<le> pt_chain p)"
proof -
  let ?R = "\<lambda>a b. pt_secs b < pt_secs a \<or> pt_secs b = pt_secs a \<and> pt_chain a \<le> pt_chain b"
  have s: "sorted_wrt ?R (js_sort part_cmp parts)"
  proof (rule js_sort_sorted)
    show "transp ?R" by (rule transpI) linarith
  qed (simp_all add: part_cmp_def split: if_splits, linarith+)
  have ne: "js_sort part_cmp parts \<noteq> []" using assms by (metis length_0_conv length_js_sort)
  then obtain r rest where r: "js_sort part_cmp parts = r # rest" by (cases "js_sort part_cmp parts") auto
  then have "set parts = set (r # rest)" by (metis set_js_sort)
  then show ?thesis using s r by auto
qed

lemma foldl_secs: "foldl (\<lambda>s p. s + pt_secs p) n ps = n + sum_list (map pt_secs ps)"
  by (induction ps arbitrary: n) simp_all

text \<open>A global row counts one party. There is one row per address, and its USDC-seconds are the sum over the
  chains whose code hash is that of the chain where the address measured most (ties to the lowest chain id);
  chains with another code are named as excluded, so a row is at most the address's total and at least its
  largest chain.\<close>

theorem global_row_counts_one_party:
  assumes "globalRows cs team = Inr rows" "\<forall>c \<in> set cs. wf_map (ci_secs c)" "r \<in> set rows"
  shows "distinct (map me_address rows)
    \<and> (\<exists>ref \<in> set (parts_of cs (me_address r)).
        (\<forall>p \<in> set (parts_of cs (me_address r)). pt_secs p < pt_secs ref \<or> pt_secs p = pt_secs ref \<and> pt_chain ref \<le> pt_chain p)
      \<and> me_secs r = (\<Sum>p \<leftarrow> parts_of cs (me_address r). if pt_hash p = pt_hash ref then pt_secs p else 0)
      \<and> (\<exists>counted excluded. me_extra r = Some (counted, excluded)
          \<and> set counted = pt_chain ` {p \<in> set (parts_of cs (me_address r)). pt_hash p = pt_hash ref}
          \<and> set excluded = pt_chain ` {p \<in> set (parts_of cs (me_address r)). pt_hash p \<noteq> pt_hash ref}))"
proof -
  from assms(1) obtain m where m: "by_address [] cs = Inr m" "rows = map (global_row team) m" by (auto simp: globalRows_def bindE_Inr)
  have wf: "wf_map m" and keys: "fst ` set m = (\<Union>c \<in> set cs. fst ` set (ci_secs c))"
    using by_address_ok [OF m(1) assms(2)] by auto
  from assms(3) m(2) obtain a parts where e: "(a, parts) \<in> set m" "r = global_row team (a, parts)" by auto
  have a: "me_address r = a" by (simp add: e(2) global_row_def Let_def)
  have p: "parts = parts_of cs a" using by_address_ok [OF m(1) assms(2), of a] e(1) wf by (simp add: jget_or_def)
  have "a \<in> fst ` set m" using e(1) by force
  then obtain c where "c \<in> set cs" "a \<in> fst ` set (ci_secs c)" using keys by auto
  then have "chain_part c a \<noteq> []" by (auto simp: chain_part_def map_of_eq_None_iff split: option.splits)
  then have ne: "parts \<noteq> []" using \<open>c \<in> set cs\<close> by (auto simp: p parts_of_def)
  let ?ref = "hd (js_sort part_cmp parts)"
  have "map me_address rows = map fst m" by (simp add: m(2) global_row_def Let_def case_prod_unfold comp_def)
  moreover have "me_secs r = (\<Sum>p \<leftarrow> parts. if pt_hash p = pt_hash ?ref then pt_secs p else 0)"
    by (simp add: e(2) global_row_def Let_def foldl_secs sum_list_map_filter')
  moreover have "me_extra r = Some (sort (map pt_chain (filter (\<lambda>p. pt_hash p = pt_hash ?ref) parts)),
      sort (map pt_chain (filter (\<lambda>p. pt_hash p \<noteq> pt_hash ?ref) parts)))"
    by (simp add: e(2) global_row_def Let_def)
  ultimately show ?thesis
    using reference_part [OF ne] wf unfolding a p [symmetric] by (intro conjI bexI [of _ ?ref]) auto
qed

lemma global_row_counts_one_party_witness:
  "\<exists>rows. globalRows [
      \<lparr> ci_chainId = 1, ci_name = [], ci_vaults = [], ci_fromBlock = 0, ci_toBlock = 0, ci_toBlockHash = [], ci_integratedUntil = 0,
        ci_secs = [(''0xa'', 5)], ci_hashes = [(''0xa'', ''h'')] \<rparr>,
      \<lparr> ci_chainId = 2, ci_name = [], ci_vaults = [], ci_fromBlock = 0, ci_toBlock = 0, ci_toBlockHash = [], ci_integratedUntil = 0,
        ci_secs = [(''0xa'', 7)], ci_hashes = [(''0xa'', ''k'')] \<rparr>] [] = Inr rows
     \<and> map me_secs rows = [7] \<and> distinct (map me_address rows)"
proof -
  let ?cs = "[
      \<lparr> ci_chainId = 1, ci_name = [], ci_vaults = [], ci_fromBlock = 0, ci_toBlock = 0, ci_toBlockHash = [], ci_integratedUntil = 0,
        ci_secs = [(''0xa'', 5)], ci_hashes = [(''0xa'', ''h'')] \<rparr>,
      \<lparr> ci_chainId = 2, ci_name = [], ci_vaults = [], ci_fromBlock = 0, ci_toBlock = 0, ci_toBlockHash = [], ci_integratedUntil = 0,
        ci_secs = [(''0xa'', 7)], ci_hashes = [(''0xa'', ''k'')] \<rparr>]"
  obtain rows where rows: "globalRows ?cs [] = Inr rows" "map me_secs rows = [7]"
  proof -
    have "globalRows ?cs [] = Inr (map (global_row []) [(''0xa'', [\<lparr> pt_chain = 1, pt_secs = 5, pt_hash = ''h'' \<rparr>, \<lparr> pt_chain = 2, pt_secs = 7, pt_hash = ''k'' \<rparr>])])"
      by (simp add: globalRows_def jget_or_def)
    moreover have "map me_secs (map (global_row []) [(''0xa'', [\<lparr> pt_chain = 1, pt_secs = 5, pt_hash = ''h'' \<rparr>, \<lparr> pt_chain = 2, pt_secs = 7, pt_hash = ''k'' \<rparr>])]) = [7]"
      by (simp add: global_row_def js_sort_def part_cmp_def Let_def)
    ultimately show ?thesis by (rule that)
  qed
  then obtain r where "r \<in> set rows" by (cases rows) auto
  with global_row_counts_one_party [OF rows(1)] rows show ?thesis by auto
qed

text \<open>The code-hash rule cannot be skipped: the global rows exist exactly when every chain supplied a code hash
  for every address it measured, and the failure names such an address and chain.\<close>

theorem globalRows_error:
  "(\<forall>rows. globalRows cs team \<noteq> Inr rows) = (\<exists>c \<in> set cs. \<exists>a \<in> fst ` set (ci_secs c). map_of (ci_hashes c) a = None)
   \<and> (\<forall>e. globalRows cs team = Inl e \<longrightarrow> (\<exists>c \<in> set cs. \<exists>a \<in> fst ` set (ci_secs c).
        map_of (ci_hashes c) a = None \<and> e = NoCodeHash a (ci_chainId c)))"
proof (cases "by_address [] cs")
  case (Inl e)
  then show ?thesis using by_address_fails [OF Inl] by (auto simp: globalRows_def)
next
  case (Inr m)
  then show ?thesis using by_address_succeeds [OF Inr] by (auto simp: globalRows_def)
qed

definition board_content :: "(string \<times> cjson) list \<Rightarrow> (string \<times> cjson) list" where
  "board_content board = filter (\<lambda>kv. fst kv \<noteq> ''contentSha256'') board"

lemma verifyBoard_iff:
  "verifyBoard sha board = Some True \<longleftrightarrow>
     (\<exists>t. canonicalJson (CObject (board_content board)) = Some t \<and> map_of board ''contentSha256'' = Some (CString (sha t)))"
  by (auto simp: verifyBoard_def board_content_def Let_def simp del: canonicalJson.simps split: option.splits cjson.splits)

lemma normal_content:
  "canonicalJson (CObject (board_content (sort_key fst (map (map_prod id normal) kvs)))) = canonicalJson (CObject (board_content kvs))"
proof -
  have "board_content (sort_key fst (map (map_prod id normal) kvs)) = sort_key fst (map (map_prod id normal) (board_content kvs))"
    by (simp only: board_content_def sort_filter filter_members [of "\<lambda>k. k \<noteq> ''contentSha256''"])
  then have "CObject (board_content (sort_key fst (map (map_prod id normal) kvs))) = normal (CObject (board_content kvs))" by simp
  then show ?thesis by (simp only: canonical_normal)
qed

lemma board_body_keys: "''contentSha256'' \<notin> fst ` set (board_body e c s team cs g)"
  by (simp add: board_body_def Let_def)

lemma buildBoard_shape:
  assumes "buildBoard sha e c s team cs = Inr board"
  shows "\<exists>t. canonicalJson (CObject (board_content board)) = Some t \<and> map_of board ''contentSha256'' = Some (CString (sha t))"
proof -
  obtain os g t where t: "canonicalJson (CObject (board_body e c s team os g)) = Some t"
    "board = board_body e c s team os g @ [(''contentSha256'', CString (sha t))]"
    using assms by (auto simp: buildBoard_def bindE_Inr Let_def simp del: canonicalJson.simps split: option.splits)
  have "board_content board = board_body e c s team os g"
    using board_body_keys [of e c s team os g] unfolding t(2) board_content_def by (force simp: filter_id_conv)
  moreover have "map_of board ''contentSha256'' = Some (CString (sha t))"
    using board_body_keys [of e c s team os g] unfolding t(2) by (simp add: map_add_def map_of_eq_None_iff [symmetric])
  ultimately show ?thesis using t(1) by auto
qed

lemma map_of_filter_key: "map_of (filter (\<lambda>kv. fst kv = k) xs) k = map_of xs k"
  by (induction xs) auto

text \<open>A board that was built verifies, and so does what a reader gets back from its file: parsing the canonical
  text gives the keys in sorted order and the big integers as strings, and the recomputed hash is the same.\<close>

theorem built_board_verifies:
  assumes "buildBoard sha e c s team cs = Inr board" and "normal (CObject board) = CObject parsed"
  shows "verifyBoard sha board = Some True \<and> verifyBoard sha parsed = Some True"
proof -
  obtain t where t: "canonicalJson (CObject (board_content board)) = Some t" "map_of board ''contentSha256'' = Some (CString (sha t))"
    using buildBoard_shape [OF assms(1)] by blast
  have p: "parsed = sort_key fst (map (map_prod id normal) board)" using assms(2) by simp
  have m: "map_of (map (map_prod id normal) board) ''contentSha256'' = Some (CString (sha t))"
    using t(2) by (induction board) (auto split: if_splits)
  have "(filter (\<lambda>kv. fst kv = k) (sort_key fst xs)) = filter (\<lambda>kv. fst kv = k) xs" for k :: string and xs :: "(string \<times> cjson) list"
    by (simp add: filter_sort) (rule sort_key_id_if_sorted, induction xs, auto)
  then have "map_of parsed ''contentSha256'' = Some (CString (sha t))"
    using m unfolding p by (metis map_of_filter_key)
  then show ?thesis using t normal_content [of board] unfolding verifyBoard_iff p by (simp del: canonicalJson.simps)
qed

lemma built_board_verifies_witness:
  "\<exists>board parsed. buildBoard (\<lambda>t. rev t) \<lparr> ep_number = 0, ep_start = 0, ep_end = 604800, ep_status = ''closed'' \<rparr> ''c'' ''s'' [] [] = Inr board
    \<and> normal (CObject board) = CObject parsed \<and> verifyBoard (\<lambda>t. rev t) parsed = Some True"
proof -
  let ?e = "\<lparr> ep_number = 0, ep_start = 0, ep_end = 604800, ep_status = ''closed'' \<rparr>"
  have "encodable (CObject (board_body ?e ''c'' ''s'' [] [] []))"
    by (simp add: board_body_def Let_def rankRows_def js_sort_def totals_json_def totalsOf_def total_json_def safe_integer_def)
  then obtain t where "canonicalJson (CObject (board_body ?e ''c'' ''s'' [] [] [])) = Some t" using canonicalJson_None by blast
  then obtain board where b: "buildBoard (\<lambda>t. rev t) ?e ''c'' ''s'' [] [] = Inr board"
    by (simp add: buildBoard_def js_sort_def globalRows_def Let_def del: canonicalJson.simps)
  obtain parsed where p: "normal (CObject board) = CObject parsed" by simp
  from built_board_verifies [OF b p] b p show ?thesis by blast
qed

text \<open>C19. A verified board cannot be altered under its hash: if two boards verify, record the same hash, and the hash
  keeps their two texts apart, they have the same content, key by key and value by value.\<close>

theorem verified_board_is_tamper_evident:
  assumes "verifyBoard sha a = Some True" "verifyBoard sha b = Some True"
    and "map_of a ''contentSha256'' = map_of b ''contentSha256''"
    and "\<And>t u. canonicalJson (CObject (board_content a)) = Some t \<Longrightarrow> canonicalJson (CObject (board_content b)) = Some u
        \<Longrightarrow> sha t = sha u \<Longrightarrow> t = u"
  shows "normal (CObject (board_content a)) = normal (CObject (board_content b))"
proof -
  obtain t where t: "canonicalJson (CObject (board_content a)) = Some t" "map_of a ''contentSha256'' = Some (CString (sha t))"
    using assms(1) unfolding verifyBoard_iff by blast
  obtain u where u: "canonicalJson (CObject (board_content b)) = Some u" "map_of b ''contentSha256'' = Some (CString (sha u))"
    using assms(2) unfolding verifyBoard_iff by blast
  have "sha t = sha u" using t(2) u(2) assms(3) by simp
  then have "t = u" by (rule assms(4) [OF t(1) u(1)])
  from every_value_readable [of "CObject (board_content a)", unfolded readable_value_def, rule_format, OF t(1) u(1), of "[]" "[]"] this
  show ?thesis by simp
qed

lemma verified_board_is_tamper_evident_witness:
  "normal (CObject (board_content [(''n'', CBig 4), (''a'', CNull), (''contentSha256'', CString ''X'')]))
    = normal (CObject (board_content [(''a'', CNull), (''n'', CString ''4''), (''contentSha256'', CString ''X'')]))"
proof -
  let ?a = "[(''n'', CBig 4), (''a'', CNull), (''contentSha256'', CString ''X'')]"
  let ?b = "[(''a'', CNull), (''n'', CString ''4''), (''contentSha256'', CString ''X'')]"
  let ?t = "the (canonicalJson (CObject (board_content ?a)))"
  let ?sha = "\<lambda>t. if t = ?t then ''X'' else ''Y''"
  have t: "canonicalJson (CObject (board_content ?a)) = Some ?t" "canonicalJson (CObject (board_content ?b)) = Some ?t" by code_simp+
  have "verifyBoard ?sha ?a = Some True" "verifyBoard ?sha ?b = Some True" using t by (auto simp: verifyBoard_iff simp del: canonicalJson.simps)
  then show ?thesis by (rule verified_board_is_tamper_evident) (use t in auto)
qed

section \<open>Team membership\<close>

lemma team_add_ok:
  "team_add reason m as = Inr m' \<Longrightarrow>
     (\<forall>a. set (jget_or [] m' a) = set (jget_or [] m a) \<union> (if Some a \<in> map_option lc ` set as then {reason} else {}))
     \<and> fst ` set m' = fst ` set m \<union> {a. Some a \<in> map_option lc ` set as}
     \<and> ((\<forall>a. distinct (jget_or [] m a)) \<longrightarrow> (\<forall>a. distinct (jget_or [] m' a)))
     \<and> (\<forall>a \<in> set as. \<exists>s. a = Some s \<and> is_address s) \<and> (wf_map m \<longrightarrow> wf_map m')"
proof (induction as arbitrary: m)
  case (Cons x as)
  from Cons.prems obtain s where s: "x = Some s" "is_address s"
    "team_add reason (AList.update (lc s) (jadd reason (jget_or [] m (lc s))) m) as = Inr m'"
    by (auto split: option.splits if_splits)
  from Cons.IH [OF s(3)] s(1,2) show ?case by (auto simp: dom_update split: if_splits)
qed auto

definition roles :: "string option list \<Rightarrow> string list \<Rightarrow> string list \<Rightarrow> string \<Rightarrow> string list" where
  "roles seeded creators deployers a =
     (if a \<in> lc ` set creators then [''creator''] else []) @ (if a \<in> lc ` set deployers then [''deployer''] else [])
     @ (if Some a \<in> map_option lc ` set seeded then [''seeded''] else [])"

lemma role_order: "''creator'' < ''deployer''" "''creator'' < ''seeded''" "''deployer'' < ''seeded''"
  by code_simp+

lemma roles_sorted: "sorted (roles s c d a) \<and> distinct (roles s c d a)"
  using role_order by (auto simp: roles_def less_imp_le)

text \<open>Who counts as the team. The set is built only from addresses, whatever their letter case, and it holds
  exactly the seeded wallets, the vaults' creators and the chains' deployers, each with its reasons in order; one
  malformed entry builds no set at all.\<close>

theorem team_set_is_exact:
  assumes "buildTeamSet seeded creators deployers = Inr m"
  shows "\<exists>list. seeded = Some list \<and> (\<forall>x \<in> set list. \<exists>s. x = Some s \<and> is_address s) \<and> (\<forall>s \<in> set (creators @ deployers). is_address s)
    \<and> map_of m a = (if roles list creators deployers a = [] then None else Some (roles list creators deployers a))"
proof -
  obtain list m1 m2 m3 where l: "seeded = Some list" and m1: "team_add ''seeded'' [] list = Inr m1"
    and m2: "team_add ''creator'' m1 (map Some creators) = Inr m2" and m3: "team_add ''deployer'' m2 (map Some deployers) = Inr m3"
    and m: "m = map (\<lambda>(k, v). (k, sort v)) m3"
    using assms by (auto simp: buildTeamSet_def bindE_Inr split: option.splits)
  note t = team_add_ok [OF m1] team_add_ok [OF m2] team_add_ok [OF m3]
  have s: "set (jget_or [] m3 a) = set (roles list creators deployers a)"
    using t by (auto simp: roles_def image_iff)
  have some: "a \<in> fst ` set m3 \<longleftrightarrow> roles list creators deployers a \<noteq> []"
    using t by (simp add: roles_def image_iff)
  have d: "distinct (jget_or [] m3 a)" using t by simp
  have "sort (jget_or [] m3 a) = roles list creators deployers a"
    by (rule sorted_distinct_set_unique) (use s d roles_sorted in simp_all)
  then have "map_of m a = (if roles list creators deployers a = [] then None else Some (roles list creators deployers a))"
    using some map_of_eq_None_iff [of m3 a] by (auto simp: m map_of_map jget_or_def split: option.splits)
  then show ?thesis using l t by auto
qed

lemma team_set_is_exact_witness:
  "let a = ''0x'' @ replicate 40 (CHR ''a'')
   in \<exists>m. buildTeamSet (Some [Some a]) [a] [] = Inr m \<and> map_of m a = Some [''creator'', ''seeded'']"
proof -
  let ?a = "''0x'' @ replicate 40 (CHR ''a'')"
  have a: "is_address ?a" by (simp add: is_address_def hex_string_def hex_char_def numeral_eq_Suc)
  then obtain m where m: "buildTeamSet (Some [Some ?a]) [?a] [] = Inr m"
    by (simp add: buildTeamSet_def jget_or_def del: append_Cons append_Nil)
  have "lc ?a = ?a" by (simp add: lc_def lower_char_def numeral_eq_Suc)
  then have "roles [Some ?a] [?a] [] ?a = [''creator'', ''seeded'']" by (simp add: roles_def image_iff del: append_Cons append_Nil)
  with team_set_is_exact [OF m, of ?a] m show ?thesis unfolding Let_def by auto
qed

end
