(* ===== verification/Leader_Ledger.thy ===== *)
theory Leader_Ledger
  imports Leader_Json
begin

text \<open>
  The reducer of the activity leaderboard (\<open>packages/activity-leaderboard/src\<close>): \<open>epoch.mjs\<close>,
  \<open>ledger.mjs\<close> and \<open>consistency.mjs\<close>. Deposits and exits go in, the integral of every member's cost
  basis over a window comes out. The books the contract keeps (\<open>VaultCore._mintShares\<close>,
  \<open>VaultCore._settleExit\<close>) are stated beside it as \<open>sol_\<close> definitions.
\<close>

section \<open>Epochs\<close>

definition EPOCH_SECONDS :: int where "EPOCH_SECONDS = 604800"
definition SETTLE_SECONDS :: int where "SETTLE_SECONDS = 86400"

definition assertInt :: "int \<Rightarrow> string \<Rightarrow> string + unit" where
  "assertInt v what = (if \<not> safe_integer v \<or> v < 0 then Inl what else Inr ())"

definition epochBounds :: "int \<Rightarrow> int \<Rightarrow> string + int \<times> int" where
  "epochBounds anchor n =
     bindE (assertInt anchor ''anchor'') (\<lambda>_. bindE (assertInt n ''epoch number'') (\<lambda>_.
       let start = anchor + n * EPOCH_SECONDS in Inr (start, start + EPOCH_SECONDS)))"

definition epochOf :: "int \<Rightarrow> int \<Rightarrow> string + int" where
  "epochOf anchor ts =
     bindE (assertInt anchor ''anchor'') (\<lambda>_. bindE (assertInt ts ''timestamp'') (\<lambda>_.
       if ts < anchor then Inl ''before the anchor'' else Inr ((ts - anchor) div EPOCH_SECONDS)))"

section \<open>The ledger\<close>

text \<open>An event as the reducer sees it: the optional fields of its two types, or some other type.\<close>

datatype ledger_change = Deposit "int option" "int option" | Exit "int option" | OtherType string

record ledger_event =
  lg_change :: ledger_change
  lg_vault :: string
  lg_member :: string
  lg_block :: int
  lg_log :: int
  lg_time :: int

record position_state =
  ps_vault :: string
  ps_member :: string
  ps_shares :: int
  ps_basis :: int
  ps_lastTs :: int

datatype ledger_error =
    BadWindow int int
  | SharedLog int int
  | TimeBackwards int int
  | DepositFields
  | BalanceNotRaised int
  | ExitFields
  | BurnsTooMuch int
  | UnknownType string

definition ledger_pos :: "ledger_event \<Rightarrow> int \<times> int" where
  "ledger_pos e = (lg_block e, lg_log e)"

definition ordered :: "ledger_event list \<Rightarrow> ledger_event list" where
  "ordered events = sort_key ledger_pos events"

interpretation ledger_order: chain_order ledger_pos ordered
  by unfold_locales (simp_all add: ordered_def)

definition position_key :: "string \<Rightarrow> string \<Rightarrow> string" where
  "position_key vault member = vault @ ''|'' @ member"

text \<open>\<open>integrateTo\<close>: basis times the overlap of [from, to) with the window, for one position.\<close>

definition integrateTo ::
  "int \<Rightarrow> int \<Rightarrow> position_state \<Rightarrow> int \<Rightarrow> (string, int) jsmap \<Rightarrow> position_state \<times> (string, int) jsmap" where
  "integrateTo windowStart windowEnd pos t acc =
     (let lo = max (ps_lastTs pos) windowStart; hi = min t windowEnd in
      (pos\<lparr>ps_lastTs := t\<rparr>,
       if hi > lo \<and> ps_basis pos > 0
       then AList.update (ps_member pos) (jget_or 0 acc (ps_member pos) + ps_basis pos * (hi - lo)) acc else acc))"

definition apply_change :: "ledger_event \<Rightarrow> position_state \<Rightarrow> ledger_error + position_state" where
  "apply_change e pos = (case lg_change e of
      Deposit amount after \<Rightarrow>
        (case (amount, after) of
          (Some a, Some s) \<Rightarrow>
            if s \<le> ps_shares pos then Inl (BalanceNotRaised (lg_block e))
            else Inr (pos\<lparr>ps_shares := s, ps_basis := ps_basis pos + a\<rparr>)
        | _ \<Rightarrow> Inl DepositFields)
    | Exit burned \<Rightarrow>
        (case burned of
          None \<Rightarrow> Inl ExitFields
        | Some b \<Rightarrow>
            if b \<le> 0 \<or> b > ps_shares pos then Inl (BurnsTooMuch (lg_block e))
            else let removed = bdiv (ps_basis pos * b) (ps_shares pos) in
              Inr (pos\<lparr>ps_basis := ps_basis pos - removed, ps_shares := ps_shares pos - b\<rparr>))
    | OtherType t \<Rightarrow> Inl (UnknownType t))"

type_synonym ledger_state = "(string, position_state) jsmap \<times> (string, int) jsmap"

definition order_check :: "ledger_event option \<Rightarrow> ledger_event \<Rightarrow> ledger_error + unit" where
  "order_check prev e = (case prev of
      None \<Rightarrow> Inr ()
    | Some p \<Rightarrow>
        if lg_block p = lg_block e \<and> lg_log p = lg_log e then Inl (SharedLog (lg_block e) (lg_log e))
        else if lg_time e < lg_time p then Inl (TimeBackwards (lg_block p) (lg_block e)) else Inr ())"

definition ledger_step :: "int \<Rightarrow> int \<Rightarrow> ledger_state \<Rightarrow> ledger_event \<Rightarrow> ledger_error + ledger_state" where
  "ledger_step windowStart windowEnd s e =
     (let (state, acc) = s;
          key = position_key (lg_vault e) (lg_member e);
          pos = (case map_of state key of
              Some p \<Rightarrow> p
            | None \<Rightarrow> \<lparr> ps_vault = lg_vault e, ps_member = lg_member e, ps_shares = 0, ps_basis = 0, ps_lastTs = lg_time e \<rparr>);
          (pos1, acc1) = integrateTo windowStart windowEnd pos (lg_time e) acc
      in bindE (apply_change e pos1) (\<lambda>pos2. Inr (AList.update key pos2 state, acc1)))"

fun ledger_run :: "int \<Rightarrow> int \<Rightarrow> ledger_event option \<Rightarrow> ledger_state \<Rightarrow> ledger_event list \<Rightarrow> ledger_error + ledger_state" where
  "ledger_run ws we prev s [] = Inr s"
| "ledger_run ws we prev s (e # es) =
     bindE (order_check prev e) (\<lambda>_. bindE (ledger_step ws we s e) (\<lambda>s'. ledger_run ws we (Some e) s' es))"

fun close_positions :: "int \<Rightarrow> int \<Rightarrow> (string, position_state) jsmap \<Rightarrow> (string, int) jsmap \<Rightarrow> (string, int) jsmap" where
  "close_positions ws we [] acc = acc"
| "close_positions ws we ((k, p) # st) acc = close_positions ws we st (snd (integrateTo ws we p we acc))"

record position =
  po_vault :: string
  po_member :: string
  po_shares :: int
  po_basis :: int

definition reduce :: "ledger_event list \<Rightarrow> int \<Rightarrow> int \<Rightarrow> ledger_error + (string, int) jsmap \<times> (string, position) jsmap" where
  "reduce events windowStart windowEnd =
     (if \<not> safe_integer windowStart \<or> \<not> safe_integer windowEnd \<or> windowEnd < windowStart
      then Inl (BadWindow windowStart windowEnd)
      else bindE (ledger_run windowStart windowEnd None ([], []) (ordered events)) (\<lambda>(state, acc).
        Inr (filter (\<lambda>(m, v). v \<noteq> 0) (close_positions windowStart windowEnd state acc),
             map (\<lambda>(k, p). (k, \<lparr> po_vault = ps_vault p, po_member = ps_member p, po_shares = ps_shares p, po_basis = ps_basis p \<rparr>)) state)))"

section \<open>The books of the contract\<close>

text \<open>
  What \<open>VaultCore\<close> holds for one member of one vault after the changes so far: shares and cost basis,
  \<open>_mintShares\<close> adding the amount, \<open>_settleExit\<close> removing its floored share of the basis.
\<close>

fun sol_change :: "int \<times> int \<Rightarrow> ledger_change \<Rightarrow> int \<times> int" where
  "sol_change (sh, ba) (Deposit (Some a) (Some s)) = (s, ba + a)"
| "sol_change (sh, ba) (Exit (Some b)) = (sh - b, ba - ba * b div sh)"
| "sol_change s c = s"

definition events_of :: "ledger_event list \<Rightarrow> string \<Rightarrow> string \<Rightarrow> ledger_event list" where
  "events_of es v m = filter (\<lambda>e. lg_vault e = v \<and> lg_member e = m) es"

definition book :: "ledger_event list \<Rightarrow> string \<Rightarrow> string \<Rightarrow> int \<times> int" where
  "book es v m = foldl sol_change (0, 0) (map lg_change (events_of es v m))"

text \<open>The basis in force at second \<open>s\<close>, and the member's USDC-seconds of the window.\<close>

definition basis_at :: "ledger_event list \<Rightarrow> string \<Rightarrow> string \<Rightarrow> int \<Rightarrow> int" where
  "basis_at es v m s = snd (book (filter (\<lambda>e. lg_time e \<le> s) es) v m)"

definition cost_seconds :: "ledger_event list \<Rightarrow> string \<Rightarrow> int \<Rightarrow> int \<Rightarrow> int" where
  "cost_seconds es m a b = (\<Sum>v \<in> lg_vault ` set es. \<Sum>s \<in> {a..<b}. basis_at es v m s)"

definition proper_event :: "ledger_event \<Rightarrow> bool" where
  "proper_event e \<longleftrightarrow> CHR ''|'' \<notin> set (lg_vault e) \<and> (\<forall>a s. lg_change e = Deposit (Some a) s \<longrightarrow> 0 \<le> a)"

lemma position_key_inject:
  "CHR ''|'' \<notin> set v \<Longrightarrow> CHR ''|'' \<notin> set v' \<Longrightarrow> position_key v m = position_key v' m' \<longleftrightarrow> v = v' \<and> m = m'"
proof (induction v arbitrary: v')
  case Nil
  then show ?case by (cases v') (auto simp: position_key_def)
next
  case (Cons c v)
  then show ?case by (cases v') (auto simp: position_key_def)
qed

lemma events_of_snoc:
  "events_of (es @ [e]) v m = (if lg_vault e = v \<and> lg_member e = m then events_of es v m @ [e] else events_of es v m)"
  by (simp add: events_of_def)

lemma book_snoc:
  "book (es @ [e]) v m = (if lg_vault e = v \<and> lg_member e = m then sol_change (book es v m) (lg_change e) else book es v m)"
  by (simp add: book_def events_of_snoc)

lemma book_none: "events_of es v m = [] \<Longrightarrow> book es v m = (0, 0)"
  by (simp add: book_def)

lemma events_of_filter: "events_of (filter P es) v m = filter P (events_of es v m)"
  by (simp add: events_of_def conj_commute)

lemma basis_at_none: "events_of es v m = [] \<Longrightarrow> basis_at es v m s = 0"
  by (simp add: basis_at_def book_def events_of_filter)

lemma basis_at_late:
  assumes "\<forall>e \<in> set (events_of es v m). lg_time e \<le> s"
  shows "basis_at es v m s = snd (book es v m)"
  using assms by (simp add: basis_at_def book_def events_of_filter cong: filter_cong)

lemma basis_at_snoc:
  assumes "\<forall>d \<in> set es. lg_time d \<le> lg_time e"
  shows "basis_at (es @ [e]) v m s = (if lg_time e \<le> s then snd (book (es @ [e]) v m) else basis_at es v m s)"
proof (cases "lg_time e \<le> s")
  case True
  then have "\<forall>d \<in> set (events_of (es @ [e]) v m). lg_time d \<le> s" using assms by (auto simp: events_of_def)
  then show ?thesis using True by (simp add: basis_at_late)
qed (simp add: basis_at_def)

text \<open>Where the reducer stands after the events so far.\<close>

definition last_time :: "ledger_event list \<Rightarrow> string \<Rightarrow> string \<Rightarrow> int" where
  "last_time es v m = lg_time (last (events_of es v m))"

definition ledger_at :: "ledger_event list \<Rightarrow> string \<Rightarrow> string \<Rightarrow> position_state" where
  "ledger_at es v m = \<lparr> ps_vault = v, ps_member = m, ps_shares = fst (book es v m), ps_basis = snd (book es v m), ps_lastTs = last_time es v m \<rparr>"

definition counted :: "int \<Rightarrow> int \<Rightarrow> ledger_event list \<Rightarrow> string \<Rightarrow> string \<Rightarrow> int" where
  "counted ws we es v m = (\<Sum>s \<in> {ws..<min (last_time es v m) we}. basis_at es v m s)"

definition ledger_inv :: "int \<Rightarrow> int \<Rightarrow> string set \<Rightarrow> ledger_event list \<Rightarrow> ledger_state \<Rightarrow> bool" where
  "ledger_inv ws we V es s \<longleftrightarrow>
     (\<forall>v \<in> V. \<forall>m. map_of (fst s) (position_key v m) = (if events_of es v m = [] then None else Some (ledger_at es v m)))
     \<and> (\<forall>k \<in> fst ` set (fst s). \<exists>v \<in> V. \<exists>m. k = position_key v m) \<and> wf_map (fst s)
     \<and> (\<forall>m. jget_or 0 (snd s) m = (\<Sum>v \<in> V. counted ws we es v m))
     \<and> (\<forall>v m. 0 \<le> fst (book es v m) \<and> 0 \<le> snd (book es v m))"

lemma split_window:
  assumes "L \<le> (t :: int)"
  shows "(\<Sum>s \<in> {ws..<min t we}. f s) = (\<Sum>s \<in> {ws..<min L we}. f s) + (\<Sum>s \<in> {max L ws..<min t we}. (f s :: int))"
proof -
  have "{ws..<min t we} = {ws..<min L we} \<union> {max L ws..<min t we}" using assms by auto
  moreover have "{ws..<min L we} \<inter> {max L ws..<min t we} = {}" by auto
  ultimately show ?thesis by (simp add: sum.union_disjoint)
qed

text \<open>The contribution \<open>integrateTo\<close> adds is the basis summed over the seconds it covers.\<close>

definition overlap :: "int \<Rightarrow> int \<Rightarrow> int \<Rightarrow> int \<Rightarrow> int \<Rightarrow> int" where
  "overlap ws we b L t = (\<Sum>s \<in> {max L ws..<min t we}. b)"

lemma overlap_eq: "0 \<le> b \<Longrightarrow> overlap ws we b L t = (if min t we > max L ws \<and> b > 0 then b * (min t we - max L ws) else 0)"
  by (auto simp: overlap_def)

lemma integrateTo_get:
  assumes "0 \<le> ps_basis pos"
  shows "jget_or 0 (snd (integrateTo ws we pos t acc)) m =
     jget_or 0 acc m + (if ps_member pos = m then overlap ws we (ps_basis pos) (ps_lastTs pos) t else 0)"
  using assms by (simp add: integrateTo_def overlap_eq Let_def)

lemma integrateTo_pos [simp]: "fst (integrateTo ws we pos t acc) = pos\<lparr>ps_lastTs := t\<rparr>"
  by (simp add: integrateTo_def Let_def)

lemma apply_change_book:
  assumes "apply_change e pos = Inr pos'" and "0 \<le> ps_shares pos" "0 \<le> ps_basis pos" and "proper_event e"
  shows "(ps_shares pos', ps_basis pos') = sol_change (ps_shares pos, ps_basis pos) (lg_change e)
    \<and> 0 \<le> ps_shares pos' \<and> 0 \<le> ps_basis pos'
    \<and> ps_vault pos' = ps_vault pos \<and> ps_member pos' = ps_member pos \<and> ps_lastTs pos' = ps_lastTs pos"
proof (cases "lg_change e")
  case (Deposit a s)
  then show ?thesis using assms by (auto simp: apply_change_def proper_event_def split: option.splits if_splits)
next
  case (Exit b)
  then obtain n where n: "b = Some n" "0 < n" "n \<le> ps_shares pos"
    "pos' = pos\<lparr>ps_basis := ps_basis pos - bdiv (ps_basis pos * n) (ps_shares pos), ps_shares := ps_shares pos - n\<rparr>"
    using assms(1) by (auto simp: apply_change_def Let_def split: option.splits if_splits)
  have "ps_basis pos * n div ps_shares pos \<le> ps_basis pos * ps_shares pos div ps_shares pos"
    by (rule zdiv_mono1) (use n assms(3) in \<open>auto intro: mult_left_mono\<close>)
  then have "ps_basis pos * n div ps_shares pos \<le> ps_basis pos" using n by simp
  then show ?thesis using Exit n assms(2,3) by simp
qed (use assms(1) in \<open>simp add: apply_change_def\<close>)

lemma last_time_ge: "events_of es v m \<noteq> [] \<Longrightarrow> sorted (map lg_time es) \<Longrightarrow> d \<in> set (events_of es v m) \<Longrightarrow> lg_time d \<le> last_time es v m"
proof -
  assume a: "events_of es v m \<noteq> []" "sorted (map lg_time es)" "d \<in> set (events_of es v m)"
  have "sorted (map lg_time (events_of es v m))" using a(2) by (simp add: events_of_def sorted_filter)
  moreover obtain xs y where xs: "events_of es v m = xs @ [y]" using a(1) by (metis append_butlast_last_id)
  ultimately show ?thesis using a(3) by (auto simp: last_time_def sorted_append)
qed

lemma counted_none: "events_of es v m = [] \<Longrightarrow> counted ws we es v m = 0"
  by (simp add: counted_def basis_at_none)

lemma last_time_in: "events_of es v m \<noteq> [] \<Longrightarrow> \<exists>d \<in> set es. lg_time d = last_time es v m"
  using last_in_set [of "events_of es v m"] by (auto simp: last_time_def events_of_def)

text \<open>Moving a member's clock on to \<open>t\<close> counts the seconds in between at the basis in force.\<close>

lemma counted_snoc:
  assumes "sorted (map lg_time es)" "\<forall>d \<in> set es. lg_time d \<le> lg_time e" "0 \<le> snd (book es v m)"
  shows "counted ws we (es @ [e]) v m =
    (if lg_vault e = v \<and> lg_member e = m
     then counted ws we es v m + (if events_of es v m = [] then 0 else overlap ws we (snd (book es v m)) (last_time es v m) (lg_time e))
     else counted ws we es v m)"
proof (cases "lg_vault e = v \<and> lg_member e = m")
  case False
  have "basis_at (es @ [e]) v m s = basis_at es v m s" for s
    using False by (auto simp: basis_at_def book_def events_of_def)
  then show ?thesis using False by (auto simp: counted_def last_time_def events_of_snoc)
next
  case True
  define t where "t = lg_time e"
  have L: "last_time (es @ [e]) v m = t" using True by (simp add: last_time_def events_of_snoc t_def)
  have new: "counted ws we (es @ [e]) v m = (\<Sum>s \<in> {ws..<min t we}. basis_at es v m s)"
    unfolding counted_def L by (rule sum.cong) (use assms(2) in \<open>auto simp: basis_at_snoc t_def\<close>)
  show ?thesis
  proof (cases "events_of es v m = []")
    case False
    have le: "last_time es v m \<le> t" using last_time_in [OF False] assms(2) by (auto simp: t_def)
    have "(\<Sum>s \<in> {max (last_time es v m) ws..<min t we}. basis_at es v m s) = overlap ws we (snd (book es v m)) (last_time es v m) t"
      unfolding overlap_def
    proof (rule sum.cong)
      fix s assume "s \<in> {max (last_time es v m) ws..<min t we}"
      then have "\<forall>d \<in> set (events_of es v m). lg_time d \<le> s" using last_time_ge [OF False assms(1)] by fastforce
      then show "basis_at es v m s = snd (book es v m)" by (rule basis_at_late)
    qed simp
    then show ?thesis using True False new split_window [OF le, of "basis_at es v m" ws we]
      by (simp add: counted_def t_def)
  qed (use True new in \<open>simp add: basis_at_none counted_none\<close>)
qed

lemma ledger_step_eq:
  assumes "(case map_of (fst s) (position_key (lg_vault e) (lg_member e)) of Some p \<Rightarrow> p
      | None \<Rightarrow> \<lparr> ps_vault = lg_vault e, ps_member = lg_member e, ps_shares = 0, ps_basis = 0, ps_lastTs = lg_time e \<rparr>) = pos"
  shows "ledger_step ws we s e = bindE (apply_change e (pos\<lparr>ps_lastTs := lg_time e\<rparr>)) (\<lambda>pos2.
     Inr (AList.update (position_key (lg_vault e) (lg_member e)) pos2 (fst s), snd (integrateTo ws we pos (lg_time e) (snd s))))"
  using assms by (auto simp: ledger_step_def Let_def split_beta)

lemma ledger_step_inv:
  assumes inv: "ledger_inv ws we V es s" and "finite V" "lg_vault e \<in> V" "\<forall>v \<in> V. CHR ''|'' \<notin> set v"
    and e: "proper_event e" and "sorted (map lg_time es)" "\<forall>d \<in> set es. lg_time d \<le> lg_time e"
    and step: "ledger_step ws we s e = Inr s'"
  shows "ledger_inv ws we V (es @ [e]) s'"
proof -
  define v m where "v = lg_vault e" and "m = lg_member e"
  define pos where "pos = (if events_of es v m = [] then (\<lparr> ps_vault = v, ps_member = m, ps_shares = 0, ps_basis = 0, ps_lastTs = lg_time e \<rparr>)
      else ledger_at es v m)"
  have V: "v \<in> V" using assms(3) by (simp add: v_def)
  have got: "(case map_of (fst s) (position_key v m) of Some p \<Rightarrow> p
      | None \<Rightarrow> \<lparr> ps_vault = v, ps_member = m, ps_shares = 0, ps_basis = 0, ps_lastTs = lg_time e \<rparr>) = pos"
    using inv V by (simp add: ledger_inv_def pos_def)
  have posf: "ps_vault pos = v" "ps_member pos = m" "ps_shares pos = fst (book es v m)" "ps_basis pos = snd (book es v m)"
    "ps_lastTs pos = (if events_of es v m = [] then lg_time e else last_time es v m)"
    by (simp_all add: pos_def ledger_at_def book_none)
  have nn: "0 \<le> ps_shares pos" "0 \<le> ps_basis pos" using inv posf by (simp_all add: ledger_inv_def)
  define pos1 where "pos1 = pos\<lparr>ps_lastTs := lg_time e\<rparr>"
  obtain pos2 where p2: "apply_change e pos1 = Inr pos2"
    and s': "s' = (AList.update (position_key v m) pos2 (fst s), snd (integrateTo ws we pos (lg_time e) (snd s)))"
    using step by (auto simp: ledger_step_eq [OF got [unfolded v_def m_def]] bindE_Inr v_def m_def pos1_def)
  have b2: "(ps_shares pos2, ps_basis pos2) = sol_change (book es v m) (lg_change e)"
    "0 \<le> ps_shares pos2" "0 \<le> ps_basis pos2" "ps_vault pos2 = v" "ps_member pos2 = m" "ps_lastTs pos2 = lg_time e"
    using apply_change_book [OF p2 _ _ e] nn posf by (simp_all add: pos1_def)
  have b2b: "ps_shares pos2 = fst (book (es @ [e]) v m)" "ps_basis pos2 = snd (book (es @ [e]) v m)"
    using b2(1) by (simp_all add: book_snoc v_def m_def) (metis fst_conv snd_conv)+
  have at: "pos2 = ledger_at (es @ [e]) v m"
    using b2 b2b by (cases pos2) (simp add: ledger_at_def v_def m_def last_time_def events_of_snoc)
  have other: "ledger_at (es @ [e]) v' m' = ledger_at es v' m'" "events_of (es @ [e]) v' m' = events_of es v' m'"
    if "\<not> (v' = v \<and> m' = m)" for v' m'
    using that by (auto simp: ledger_at_def book_snoc last_time_def events_of_snoc v_def m_def)
  have st: "map_of (fst s') (position_key v' m') =
      (if events_of (es @ [e]) v' m' = [] then None else Some (ledger_at (es @ [e]) v' m'))" if "v' \<in> V" for v' m'
  proof (cases "v' = v \<and> m' = m")
    case True
    then show ?thesis by (simp add: s' update_conv' at events_of_snoc v_def m_def)
  next
    case False
    then have "position_key v' m' \<noteq> position_key v m" using position_key_inject that V assms(4) by blast
    then show ?thesis using inv that False by (simp add: s' update_conv' other ledger_inv_def)
  qed
  have acc: "jget_or 0 (snd s') m' = (\<Sum>v' \<in> V. counted ws we (es @ [e]) v' m')" for m'
  proof -
    let ?d = "if events_of es v m = [] then 0 else overlap ws we (snd (book es v m)) (last_time es v m) (lg_time e)"
    have "(\<Sum>v' \<in> V. counted ws we (es @ [e]) v' m') = (\<Sum>v' \<in> V. counted ws we es v' m' + (if v' = v then if m' = m then ?d else 0 else 0))"
      using inv by (intro sum.cong) (auto simp: counted_snoc [OF assms(6,7)] ledger_inv_def v_def m_def)
    also have "\<dots> = jget_or 0 (snd s) m' + (if m' = m then ?d else 0)"
      using inv V assms(2) by (simp add: sum.distrib ledger_inv_def)
    also have "\<dots> = jget_or 0 (snd s') m'"
      using integrateTo_get [OF nn(2)] posf by (auto simp: s' overlap_def)
    finally show ?thesis by simp
  qed
  have nb: "0 \<le> fst (book (es @ [e]) v' m') \<and> 0 \<le> snd (book (es @ [e]) v' m')" for v' m'
    using inv b2 b2b by (cases "v' = v \<and> m' = m") (auto simp: book_snoc v_def m_def ledger_inv_def)
  have keys: "\<forall>k \<in> fst ` set (fst s'). \<exists>v \<in> V. \<exists>m. k = position_key v m"
  proof
    fix k assume "k \<in> fst ` set (fst s')"
    then have "k = position_key v m \<or> k \<in> fst ` set (fst s)" by (simp add: s' dom_update)
    then show "\<exists>v \<in> V. \<exists>m. k = position_key v m" using inv V unfolding ledger_inv_def by blast
  qed
  show ?thesis using st acc nb keys inv by (simp add: ledger_inv_def s')
qed

section \<open>A whole log\<close>

lemma order_check_Inr:
  "order_check prev e = Inr () \<longleftrightarrow> (case prev of None \<Rightarrow> True | Some p \<Rightarrow> ledger_pos p \<noteq> ledger_pos e \<and> lg_time p \<le> lg_time e)"
  by (auto simp: order_check_def ledger_pos_def split: option.splits)

lemma ledger_inv_init: "ledger_inv ws we V [] ([], [])"
  by (simp add: ledger_inv_def events_of_def book_def counted_none)

definition follows :: "ledger_event list \<Rightarrow> ledger_event option \<Rightarrow> bool" where
  "follows pre prev \<longleftrightarrow> (if pre = [] then prev = None else prev = Some (last pre))"

lemma ledger_run_inv:
  assumes "ledger_run ws we prev s es = Inr s'" and "ledger_inv ws we V pre s" and "follows pre prev" and "sorted (map lg_time pre)"
    and "finite V" and "\<forall>v \<in> V. CHR ''|'' \<notin> set v" and "\<forall>e \<in> set es. proper_event e \<and> lg_vault e \<in> V"
  shows "ledger_inv ws we V (pre @ es) s' \<and> sorted (map lg_time (pre @ es))"
  using assms(1-4,7)
proof (induction es arbitrary: pre prev s)
  case (Cons e es)
  obtain s1 where o: "order_check prev e = Inr ()" and s1: "ledger_step ws we s e = Inr s1"
    and rest: "ledger_run ws we (Some e) s1 es = Inr s'"
    using Cons.prems(1) by (auto simp: bindE_Inr)
  have late: "\<forall>d \<in> set pre. lg_time d \<le> lg_time e"
  proof
    fix d assume d: "d \<in> set pre"
    then obtain ys y where y: "pre = ys @ [y]" by (metis append_butlast_last_id empty_iff empty_set)
    have "lg_time d \<le> lg_time y" using d Cons.prems(4) y by (auto simp: sorted_append)
    also have "lg_time y \<le> lg_time e" using o Cons.prems(3) y by (simp add: order_check_Inr follows_def)
    finally show "lg_time d \<le> lg_time e" .
  qed
  have "ledger_inv ws we V (pre @ [e]) s1"
    by (rule ledger_step_inv [OF Cons.prems(2) assms(5) _ assms(6) _ Cons.prems(4) late s1]) (use Cons.prems(5) in auto)
  moreover have "sorted (map lg_time (pre @ [e]))" using Cons.prems(4) late by (simp add: sorted_append)
  ultimately show ?case using Cons.IH [OF rest, of "pre @ [e]"] Cons.prems(5) by (simp add: follows_def)
qed simp

lemma ledger_run_distinct:
  assumes "ledger_run ws we prev s es = Inr s'" and "sorted (map ledger_pos es)"
    and "\<forall>p. prev = Some p \<longrightarrow> (\<forall>e \<in> set es. ledger_pos p \<le> ledger_pos e)"
  shows "distinct (map ledger_pos es) \<and> (\<forall>p. prev = Some p \<longrightarrow> (\<forall>e \<in> set es. ledger_pos p < ledger_pos e))"
  using assms
proof (induction es arbitrary: prev s)
  case (Cons e es)
  obtain s1 where o: "order_check prev e = Inr ()" and rest: "ledger_run ws we (Some e) s1 es = Inr s'"
    using Cons.prems(1) by (auto simp: bindE_Inr)
  have IH: "distinct (map ledger_pos es)" "\<forall>d \<in> set es. ledger_pos e < ledger_pos d"
    using Cons.IH [OF rest] Cons.prems(2) by auto
  have "ledger_pos p < ledger_pos e" if "prev = Some p" for p
    using o Cons.prems(3) that by (auto simp: order_check_Inr order_less_le)
  then show ?case using IH by fastforce
qed simp

lemma ledger_run_wf_acc:
  "ledger_run ws we prev s es = Inr s' \<Longrightarrow> wf_map (snd s) \<Longrightarrow> wf_map (snd s')"
proof (induction es arbitrary: prev s)
  case (Cons e es)
  obtain s1 where s1: "ledger_step ws we s e = Inr s1" and rest: "ledger_run ws we (Some e) s1 es = Inr s'"
    using Cons.prems(1) by (auto simp: bindE_Inr)
  have "wf_map (snd s1)"
    using s1 Cons.prems(2)
    by (auto simp: ledger_step_def integrateTo_def bindE_Inr Let_def split: prod.splits option.splits if_splits)
  then show ?case using Cons.IH [OF rest] by simp
qed simp

lemma close_wf: "wf_map acc \<Longrightarrow> wf_map (close_positions ws we st acc)"
  by (induction ws we st acc rule: close_positions.induct) (simp_all add: integrateTo_def Let_def)

lemma close_get:
  assumes "\<forall>(k, p) \<in> set st. 0 \<le> ps_basis p"
  shows "jget_or 0 (close_positions ws we st acc) m =
    jget_or 0 acc m + (\<Sum>(k, p) \<leftarrow> st. if ps_member p = m then overlap ws we (ps_basis p) (ps_lastTs p) we else 0)"
  using assms by (induction ws we st acc rule: close_positions.induct) (auto simp: integrateTo_get)

lemma map_of_filter_value: "wf_map m \<Longrightarrow> map_of (filter (\<lambda>(k, v). P v) m) k = (case map_of m k of Some v \<Rightarrow> if P v then Some v else None | None \<Rightarrow> None)"
proof (induction m)
  case (Cons x m)
  obtain a b where x: "x = (a, b)" by (cases x)
  have "map_of (filter (\<lambda>(k, v). P v) m) a = None" using Cons.prems x by (auto simp: map_of_eq_None_iff)
  then show ?case using Cons x by (cases "k = a") auto
qed simp

text \<open>The positions at the end, summed for one member over the vaults.\<close>

lemma close_sum:
  assumes inv: "ledger_inv ws we V es (st, acc)" and "finite V" and V: "\<forall>v \<in> V. CHR ''|'' \<notin> set v"
  shows "(\<Sum>(k, p) \<leftarrow> st. if ps_member p = m then overlap ws we (ps_basis p) (ps_lastTs p) we else 0)
    = (\<Sum>v \<in> V. if events_of es v m = [] then 0 else overlap ws we (snd (book es v m)) (last_time es v m) we)"
proof -
  let ?f = "\<lambda>(k, p). if ps_member p = m then overlap ws we (ps_basis p) (ps_lastTs p) we else 0"
  let ?S = "{v \<in> V. events_of es v m \<noteq> []}"
  let ?h = "\<lambda>v. (position_key v m, ledger_at es v m)"
  have wf: "wf_map st" and keys: "\<forall>k \<in> fst ` set st. \<exists>v \<in> V. \<exists>m. k = position_key v m"
    using inv by (simp_all add: ledger_inv_def)
  have get: "map_of st (position_key v m') = (if events_of es v m' = [] then None else Some (ledger_at es v m'))" if "v \<in> V" for v m'
    using inv that by (simp add: ledger_inv_def)
  have "(\<Sum>x \<leftarrow> st. ?f x) = (\<Sum>x \<in> set st. ?f x)" using wf by (simp add: sum_list_distinct_conv_sum_set distinct_map)
  also have "\<dots> = (\<Sum>x \<in> ?h ` ?S. ?f x)"
  proof (rule sum.mono_neutral_right)
    show "?h ` ?S \<subseteq> set st" using get by (auto intro!: map_of_SomeD)
    show "\<forall>x \<in> set st - ?h ` ?S. ?f x = 0"
    proof
      fix x assume x: "x \<in> set st - ?h ` ?S"
      obtain k p where kp: "x = (k, p)" by (cases x)
      have "fst (k, p) \<in> fst ` set st" using x kp by (intro imageI) simp
      then obtain v m' where v: "v \<in> V" "k = position_key v m'" using keys by auto
      have "map_of st k = Some p" using x kp wf by simp
      then have "events_of es v m' \<noteq> []" "p = ledger_at es v m'" using get [OF v(1), of m'] v(2) by (auto split: if_splits)
      then show "?f x = 0" using x kp v by (auto simp: ledger_at_def)
    qed
  qed simp
  also have "\<dots> = (\<Sum>v \<in> ?S. ?f (?h v))"
    by (rule sum.reindex_cong [of ?h]) (use V position_key_inject in \<open>auto simp: inj_on_def\<close>)
  also have "\<dots> = (\<Sum>v \<in> V. if events_of es v m = [] then 0 else overlap ws we (snd (book es v m)) (last_time es v m) we)"
    by (rule sum.mono_neutral_cong_left) (use assms(2) in \<open>auto simp: ledger_at_def\<close>)
  finally show ?thesis .
qed

lemma counted_whole:
  assumes "sorted (map lg_time es)" "events_of es v m \<noteq> []"
  shows "counted ws we es v m + overlap ws we (snd (book es v m)) (last_time es v m) we = (\<Sum>s \<in> {ws..<we}. basis_at es v m s)"
proof -
  have "overlap ws we (snd (book es v m)) (last_time es v m) we = (\<Sum>s \<in> {max (last_time es v m) ws..<min we we}. basis_at es v m s)"
    unfolding overlap_def
  proof (rule sum.cong)
    fix s assume "s \<in> {max (last_time es v m) ws..<min we we}"
    then have "\<forall>d \<in> set (events_of es v m). lg_time d \<le> s" using last_time_ge [OF assms(2,1)] by fastforce
    then show "snd (book es v m) = basis_at es v m s" by (simp add: basis_at_late)
  qed simp
  then show ?thesis
    using split_window [of "last_time es v m" "max (last_time es v m) we" "basis_at es v m" ws we]
    by (cases "last_time es v m \<le> we") (simp_all add: counted_def max_def min_def)
qed

section \<open>What the reducer computes\<close>

lemma ledger_inv_get:
  "ledger_inv ws we V es (st, acc) \<Longrightarrow> v \<in> V
    \<Longrightarrow> map_of st (position_key v m) = (if events_of es v m = [] then None else Some (ledger_at es v m))"
  by (simp add: ledger_inv_def)

lemma ledger_inv_key:
  assumes "ledger_inv ws we V es (st, acc)" and "k \<in> fst ` set st"
  obtains v m where "v \<in> V" "k = position_key v m"
proof -
  have "\<forall>k \<in> fst ` set st. \<exists>v \<in> V. \<exists>m. k = position_key v m" using assms(1) unfolding ledger_inv_def by simp
  then show thesis using assms(2) that by blast
qed

lemma ledger_inv_entry:
  assumes "ledger_inv ws we V es (st, acc)" and "(k, p) \<in> set st"
  obtains v m where "v \<in> V" "k = position_key v m" "p = ledger_at es v m" "events_of es v m \<noteq> []"
proof -
  have "fst (k, p) \<in> fst ` set st" using assms(2) by (rule imageI)
  then have k: "k \<in> fst ` set st" by simp
  obtain v m where v: "v \<in> V" "k = position_key v m" using ledger_inv_key [OF assms(1) k] .
  have "map_of st k = Some p" using assms by (simp add: ledger_inv_def)
  moreover have "map_of st k = (if events_of es v m = [] then None else Some (ledger_at es v m))"
    using assms(1) v by (simp add: ledger_inv_def)
  ultimately show thesis using that v by (simp split: if_splits)
qed

lemma sum_window: "a \<le> b \<Longrightarrow> b \<le> c \<Longrightarrow> (\<Sum>s \<in> {a..<c}. f s) = (\<Sum>s \<in> {a..<b}. f s) + (\<Sum>s \<in> {b..<(c :: int)}. (f s :: int))"
  by (subst sum.union_disjoint [symmetric]) (auto simp: ivl_disj_un)

lemma jget_or_filter: "wf_map m \<Longrightarrow> jget_or 0 (filter (\<lambda>(k, v). v \<noteq> 0) m) k = (jget_or 0 m k :: int)"
  by (simp add: jget_or_def map_of_filter_value split: option.splits)

lemma reduce_ok:
  assumes "reduce events a b = Inr (secs, positions)" and "\<forall>e \<in> set events. proper_event e"
  obtains st acc where "ledger_run a b None ([], []) (ordered events) = Inr (st, acc)"
    and "ledger_inv a b (lg_vault ` set (ordered events)) (ordered events) (st, acc)" "sorted (map lg_time (ordered events))"
    and "secs = filter (\<lambda>(m, v). v \<noteq> 0) (close_positions a b st acc)" "wf_map acc" "a \<le> b"
    and "positions = map (\<lambda>(k, p). (k, \<lparr> po_vault = ps_vault p, po_member = ps_member p, po_shares = ps_shares p, po_basis = ps_basis p \<rparr>)) st"
proof -
  obtain st acc where run: "ledger_run a b None ([], []) (ordered events) = Inr (st, acc)"
    and r: "secs = filter (\<lambda>(m, v). v \<noteq> 0) (close_positions a b st acc)"
      "positions = map (\<lambda>(k, p). (k, \<lparr> po_vault = ps_vault p, po_member = ps_member p, po_shares = ps_shares p, po_basis = ps_basis p \<rparr>)) st"
      "a \<le> b"
    using assms(1) by (auto simp: reduce_def bindE_Inr split: if_splits)
  have pr: "\<forall>e \<in> set (ordered events). proper_event e" using assms(2) by (simp add: ledger_order.order_set)
  have "ledger_inv a b (lg_vault ` set (ordered events)) ([] @ ordered events) (st, acc) \<and> sorted (map lg_time ([] @ ordered events))"
    by (rule ledger_run_inv [OF run ledger_inv_init]) (use pr in \<open>auto simp: follows_def proper_event_def\<close>)
  moreover have "wf_map acc" using ledger_run_wf_acc [OF run] by simp
  ultimately show ?thesis using that run r by simp
qed

lemma ledger_result:
  assumes "reduce events a b = Inr (secs, positions)" and "\<forall>e \<in> set events. proper_event e"
  shows "jget_or 0 secs m = cost_seconds (ordered events) m a b"
    and "CHR ''|'' \<notin> set v \<Longrightarrow> map_of positions (position_key v m) =
      (if events_of (ordered events) v m = [] then None
       else Some \<lparr> po_vault = v, po_member = m, po_shares = fst (book (ordered events) v m), po_basis = snd (book (ordered events) v m) \<rparr>)"
proof -
  let ?es = "ordered events" and ?V = "lg_vault ` set (ordered events)"
  obtain st acc where s: "ledger_inv a b ?V ?es (st, acc)" "sorted (map lg_time ?es)" "wf_map acc"
    "secs = filter (\<lambda>(m, v). v \<noteq> 0) (close_positions a b st acc)"
    "positions = map (\<lambda>(k, p). (k, \<lparr> po_vault = ps_vault p, po_member = ps_member p, po_shares = ps_shares p, po_basis = ps_basis p \<rparr>)) st"
    by (rule reduce_ok [OF assms])
  have V: "\<forall>v \<in> ?V. CHR ''|'' \<notin> set v" using assms(2) by (auto simp: ledger_order.order_set proper_event_def)
  have "0 \<le> ps_basis p" if "(k, p) \<in> set st" for k p
    by (rule ledger_inv_entry [OF s(1) that]) (use s(1) in \<open>simp add: ledger_at_def ledger_inv_def\<close>)
  then have nn: "\<forall>(k, p) \<in> set st. 0 \<le> ps_basis p" by auto
  have "jget_or 0 secs m = (\<Sum>v \<in> ?V. counted a b ?es v m)
      + (\<Sum>v \<in> ?V. if events_of ?es v m = [] then 0 else overlap a b (snd (book ?es v m)) (last_time ?es v m) b)"
    using s(1) close_wf [OF s(3)] by (simp add: s(4) jget_or_filter close_get [OF nn] close_sum [OF s(1) _ V] ledger_inv_def)
  also have "\<dots> = (\<Sum>v \<in> ?V. \<Sum>t \<in> {a..<b}. basis_at ?es v m t)"
    unfolding sum.distrib [symmetric]
    by (rule sum.cong) (auto simp: counted_whole [OF s(2)] counted_none basis_at_none)
  finally show "jget_or 0 secs m = cost_seconds ?es m a b" by (simp add: cost_seconds_def)
  assume v: "CHR ''|'' \<notin> set v"
  show "map_of positions (position_key v m) =
      (if events_of ?es v m = [] then None
       else Some \<lparr> po_vault = v, po_member = m, po_shares = fst (book ?es v m), po_basis = snd (book ?es v m) \<rparr>)"
  proof (cases "v \<in> ?V")
    case True
    then show ?thesis by (simp add: s(5) map_of_map ledger_inv_get [OF s(1) True] ledger_at_def)
  next
    case False
    then have e: "events_of ?es v m = []" by (auto simp: events_of_def filter_empty_conv)
    have "position_key v m \<notin> fst ` set st"
    proof
      assume "position_key v m \<in> fst ` set st"
      then show False by (rule ledger_inv_key [OF s(1)]) (use position_key_inject [OF v] V False in blast)
    qed
    then have "map_of st (position_key v m) = None" by (simp add: map_of_eq_None_iff)
    then show ?thesis using e by (simp add: s(5) map_of_map)
  qed
qed

text \<open>
  C18. The leaderboard measures what it says. Whatever order the logs of a chain arrive in, if the
  reducer returns, a member's figure is the sum over every second of the window, and over every vault, of
  the cost basis in force at that second; and the positions it hands to the head check are the shares and
  cost bases the contract's own rules give after the whole log.
\<close>

theorem ledger_measures_cost_seconds:
  assumes "reduce events a b = Inr (secs, positions)" and "\<forall>e \<in> set events. proper_event e" and "CHR ''|'' \<notin> set v"
  shows "jget_or 0 secs m = cost_seconds (ordered events) m a b
    \<and> map_of positions (position_key v m) =
      (if events_of (ordered events) v m = [] then None
       else Some \<lparr> po_vault = v, po_member = m, po_shares = fst (book (ordered events) v m), po_basis = snd (book (ordered events) v m) \<rparr>)"
  using ledger_result [OF assms(1,2)] assms(3) by blast

lemma ledger_step_window:
  assumes "ledger_step ws we (st, acc) e = Inr (st', acc1)"
  shows "\<exists>acc2. ledger_step ws' we' (st, acc') e = Inr (st', acc2)"
  using assms by (simp add: ledger_step_eq [OF refl] bindE_Inr) metis

lemma ledger_run_window:
  "ledger_run ws we prev (st, acc) es = Inr (st', acc1) \<Longrightarrow> \<exists>acc2. ledger_run ws' we' prev (st, acc') es = Inr (st', acc2)"
proof (induction es arbitrary: prev st acc acc')
  case (Cons e es)
  obtain st1 acc3 where o: "order_check prev e = Inr ()" and s: "ledger_step ws we (st, acc) e = Inr (st1, acc3)"
    and r: "ledger_run ws we (Some e) (st1, acc3) es = Inr (st', acc1)"
    using Cons.prems by (auto simp: bindE_Inr)
  obtain acc4 where "ledger_step ws' we' (st, acc') e = Inr (st1, acc4)" using ledger_step_window [OF s] by blast
  then show ?case using o Cons.IH [OF r, of acc4] by simp
qed simp

text \<open>
  Epochs add up. If a log reduces over a window, it reduces over the two parts of any split of it, to
  the same positions, and every member's figure over the whole is the sum of the figures over the parts:
  no second is counted twice and none is lost at the boundary of two epochs.
\<close>

theorem adjacent_windows_add_up:
  assumes "reduce events a c = Inr (whole, positions)" and "\<forall>e \<in> set events. proper_event e"
    and "a \<le> b" "b \<le> c" "safe_integer b"
  shows "\<exists>early late. reduce events a b = Inr (early, positions) \<and> reduce events b c = Inr (late, positions)
    \<and> (\<forall>m. jget_or 0 whole m = jget_or 0 early m + jget_or 0 late m)"
proof -
  obtain st acc where run: "ledger_run a c None ([], []) (ordered events) = Inr (st, acc)" and w: "safe_integer a" "safe_integer c"
    and pos: "positions = map (\<lambda>(k, p). (k, \<lparr> po_vault = ps_vault p, po_member = ps_member p, po_shares = ps_shares p, po_basis = ps_basis p \<rparr>)) st"
    using assms(1) by (auto simp: reduce_def bindE_Inr split: if_splits)
  obtain acc1 where r1: "ledger_run a b None ([], []) (ordered events) = Inr (st, acc1)" using ledger_run_window [OF run] by blast
  obtain acc2 where r2: "ledger_run b c None ([], []) (ordered events) = Inr (st, acc2)" using ledger_run_window [OF run] by blast
  have "\<exists>early. reduce events a b = Inr (early, positions)" "\<exists>late. reduce events b c = Inr (late, positions)"
    using r1 r2 w assms(3-5) by (simp_all add: reduce_def pos)
  then obtain early late where r: "reduce events a b = Inr (early, positions)" "reduce events b c = Inr (late, positions)" by blast
  have "jget_or 0 whole m = jget_or 0 early m + jget_or 0 late m" for m
    using ledger_result(1) [OF assms(1,2)] ledger_result(1) [OF r(1) assms(2)] ledger_result(1) [OF r(2) assms(2)]
    by (simp add: cost_seconds_def sum_window [OF assms(3,4)] sum.distrib)
  then show ?thesis using r by blast
qed

text \<open>
  The order of the logs cannot change a digit. Chunked, paged or shuffled in any way, the same logs
  reduce to the same figures and the same positions, in the same order.
\<close>

theorem log_order_is_irrelevant:
  assumes "reduce events a b = Inr r" and "mset logs = mset events"
  shows "reduce logs a b = Inr r"
proof -
  obtain s where "ledger_run a b None ([], []) (ordered events) = Inr s"
    using assms(1) by (auto simp: reduce_def bindE_Inr split: if_splits)
  then have "distinct (map ledger_pos (ordered events))"
    using ledger_run_distinct ledger_order.order_sorted by blast
  then have "inj_on ledger_pos (set events)" by (simp add: distinct_map ledger_order.order_set)
  then have "ordered events = ordered logs" by (rule ledger_order.order_independent [OF assms(2) [symmetric]])
  then have "reduce logs a b = reduce events a b" by (simp only: reduce_def)
  then show ?thesis using assms(1) by simp
qed

section \<open>The head check\<close>

datatype head_mismatch = TotalDiffers string int int | PositionDiffers string string
datatype head_error = NoVaults | UnconfiguredVault string | ReadFailed string | Mismatches "head_mismatch list"

fun ledger_shares :: "(string, int) jsmap \<Rightarrow> (string, position) jsmap \<Rightarrow> head_error + (string, int) jsmap" where
  "ledger_shares m [] = Inr m"
| "ledger_shares m ((k, p) # ps) = (case map_of m (po_vault p) of
      None \<Rightarrow> Inl (UnconfiguredVault (po_vault p))
    | Some n \<Rightarrow> ledger_shares (AList.update (po_vault p) (n + po_shares p) m) ps)"

fun check_totals :: "(string \<Rightarrow> string + int) \<Rightarrow> (string \<times> int) list \<Rightarrow> head_error + head_mismatch list" where
  "check_totals readTotalShares [] = Inr []"
| "check_totals readTotalShares ((vault, n) # rest) = (case readTotalShares vault of
      Inl e \<Rightarrow> Inl (ReadFailed e)
    | Inr onChain \<Rightarrow> bindE (check_totals readTotalShares rest) (\<lambda>ms.
        Inr (if onChain \<noteq> n then TotalDiffers vault n onChain # ms else ms)))"

fun check_positions :: "(string \<Rightarrow> string \<Rightarrow> string + int \<times> int) \<Rightarrow> (string \<times> position) list \<Rightarrow> head_error + head_mismatch list" where
  "check_positions readPosition [] = Inr []"
| "check_positions readPosition ((key, pos) # rest) = (case readPosition (po_vault pos) (po_member pos) of
      Inl e \<Rightarrow> Inl (ReadFailed e)
    | Inr onChain \<Rightarrow> bindE (check_positions readPosition rest) (\<lambda>ms.
        Inr (if fst onChain \<noteq> po_shares pos \<or> snd onChain \<noteq> po_basis pos
             then PositionDiffers (po_vault pos) (po_member pos) # ms else ms)))"

text \<open>\<open>assertHeadState\<close>: how many positions and vaults were checked, or why nothing may be published.\<close>

definition assertHeadState ::
  "string list \<Rightarrow> (string, position) jsmap \<Rightarrow> (string \<Rightarrow> string \<Rightarrow> string + int \<times> int) \<Rightarrow> (string \<Rightarrow> string + int)
   \<Rightarrow> head_error + nat \<times> nat" where
  "assertHeadState vaults positions readPosition readTotalShares =
     (if vaults = [] then Inl NoVaults
      else bindE (ledger_shares (foldl (\<lambda>m v. AList.update (lc v) 0 m) [] vaults) positions) (\<lambda>shares.
        bindE (check_totals readTotalShares (sort_key fst shares)) (\<lambda>m1.
        bindE (check_positions readPosition (sort_key fst positions)) (\<lambda>m2.
          if m1 @ m2 \<noteq> [] then Inl (Mismatches (m1 @ m2)) else Inr (length positions, length shares)))))"

definition assertSameChainView ::
  "string + string \<Rightarrow> string + string \<Rightarrow> (string \<Rightarrow> string + int) \<Rightarrow> (string \<Rightarrow> string + int) \<Rightarrow> string list \<Rightarrow> head_error + unit" where
  "assertSameChainView hashA hashB totalA totalB vaults =
     (case (hashA, hashB) of
        (Inr a, Inr b) \<Rightarrow>
          if \<exists>v \<in> set vaults. \<exists>e. totalA v = Inl e \<or> totalB v = Inl e then Inl (ReadFailed ''totalShares'')
          else let ms = (if a \<noteq> b then [TotalDiffers ''block hash'' 0 0] else [])
                   @ concat (map (\<lambda>v. case (totalA v, totalB v) of
                       (Inr x, Inr y) \<Rightarrow> if x \<noteq> y then [TotalDiffers (lc v) x y] else [] | _ \<Rightarrow> []) vaults)
               in if ms \<noteq> [] then Inl (Mismatches ms) else Inr ()
      | _ \<Rightarrow> Inl (ReadFailed ''block''))"

lemma zeroed_vaults: "map_of (foldl (\<lambda>m v. AList.update (lc v) 0 m) m0 vaults) v = (if v \<in> lc ` set vaults then Some (0 :: int) else map_of m0 v)"
  by (induction vaults arbitrary: m0) (auto simp: update_conv')

lemma ledger_shares_ok:
  "ledger_shares m ps = Inr sh \<Longrightarrow>
     map_of sh v = map_option (\<lambda>n. n + (\<Sum>(k, p) \<leftarrow> ps. if po_vault p = v then po_shares p else 0)) (map_of m v)
     \<and> (\<forall>(k, p) \<in> set ps. map_of m (po_vault p) \<noteq> None)"
proof (induction m ps rule: ledger_shares.induct)
  case (2 m k p ps)
  obtain n where n: "map_of m (po_vault p) = Some n" "ledger_shares (AList.update (po_vault p) (n + po_shares p) m) ps = Inr sh"
    using 2(2) by (auto split: option.splits)
  have "\<forall>(k, q) \<in> set ps. map_of (AList.update (po_vault p) (n + po_shares p) m) (po_vault q) \<noteq> None"
    using 2(1) [OF n] by blast
  then have "\<forall>(k, q) \<in> set ps. map_of m (po_vault q) \<noteq> None"
    using n(1) by (auto simp: update_conv' split: if_splits)
  then show ?case using 2(1) [OF n] n(1) by (cases "map_of m v") (auto simp: update_conv' split: if_splits)
qed (simp add: option.map_ident)

lemma check_totals_ok: "check_totals rt xs = Inr [] \<longleftrightarrow> (\<forall>(v, n) \<in> set xs. rt v = Inr n)"
  by (induction xs) (auto simp: bindE_Inr split: sum.splits if_splits)

lemma check_positions_ok: "check_positions rp xs = Inr [] \<longleftrightarrow> (\<forall>(k, p) \<in> set xs. rp (po_vault p) (po_member p) = Inr (po_shares p, po_basis p))"
  by (induction xs) (auto simp: bindE_Inr split: sum.splits if_splits)

lemma assertHeadState_ok:
  "assertHeadState vaults positions rp rt = Inr n \<longleftrightarrow>
     vaults \<noteq> [] \<and> (\<exists>sh. ledger_shares (foldl (\<lambda>m v. AList.update (lc v) 0 m) [] vaults) positions = Inr sh
       \<and> (\<forall>(v, k) \<in> set sh. rt v = Inr k) \<and> n = (length positions, length sh))
     \<and> (\<forall>(k, p) \<in> set positions. rp (po_vault p) (po_member p) = Inr (po_shares p, po_basis p))"
proof -
  have t: "check_totals rt (sort_key fst sh) = Inr [] \<longleftrightarrow> (\<forall>(v, k) \<in> set sh. rt v = Inr k)" for sh :: "(string \<times> int) list"
    by (simp add: check_totals_ok)
  have p: "check_positions rp (sort_key fst positions) = Inr [] \<longleftrightarrow> (\<forall>(k, p) \<in> set positions. rp (po_vault p) (po_member p) = Inr (po_shares p, po_basis p))"
    by (simp add: check_positions_ok)
  show ?thesis unfolding assertHeadState_def by (auto simp: bindE_Inr t [symmetric] p [symmetric] split: if_splits)
qed

text \<open>
  What a chain can hold: shares and bases are natural numbers, a member without shares has no basis, and
  \<open>totalShares\<close> is the sum over the holders (mint and burn change both together).
\<close>

record chain_books =
  cb_book :: "string \<Rightarrow> string \<Rightarrow> int \<times> int"
  cb_total :: "string \<Rightarrow> int"

definition chain_ok :: "chain_books \<Rightarrow> bool" where
  "chain_ok w \<longleftrightarrow> (\<forall>v m. 0 \<le> fst (cb_book w v m) \<and> (fst (cb_book w v m) = 0 \<longrightarrow> snd (cb_book w v m) = 0))
     \<and> (\<forall>v. finite {m. fst (cb_book w v m) \<noteq> 0} \<and> cb_total w v = (\<Sum>m \<in> {m. fst (cb_book w v m) \<noteq> 0}. fst (cb_book w v m)))"

lemma no_other_holder:
  assumes "finite M" "finite {m. f m \<noteq> 0}" "\<forall>m. 0 \<le> f m" "(\<Sum>m \<in> M. f m) = (\<Sum>m \<in> {m. f m \<noteq> (0 :: int)}. f m)" "m \<notin> M"
  shows "f m = 0"
proof (rule ccontr)
  assume m: "f m \<noteq> 0"
  have "(\<Sum>m \<in> M. f m) = (\<Sum>m \<in> M \<inter> {m. f m \<noteq> 0}. f m)"
    using assms(1) by (intro sum.mono_neutral_right) auto
  also have "\<dots> \<le> (\<Sum>m \<in> {m. f m \<noteq> 0} - {m}. f m)"
    using assms(2,3,5) by (intro sum_mono2) auto
  also have "\<dots> = (\<Sum>m \<in> {m. f m \<noteq> 0}. f m) - f m" using assms(2) m by (simp add: sum_diff1)
  finally show False using assms(3,4) m by (smt (verit))
qed

lemma reduce_entry:
  assumes "reduce events a b = Inr (secs, positions)" and "\<forall>e \<in> set events. proper_event e"
  shows "wf_map positions"
    and "(k, p) \<in> set positions \<Longrightarrow> \<exists>v m. CHR ''|'' \<notin> set v \<and> k = position_key v m \<and> events_of (ordered events) v m \<noteq> []
      \<and> p = \<lparr> po_vault = v, po_member = m, po_shares = fst (book (ordered events) v m), po_basis = snd (book (ordered events) v m) \<rparr>"
proof -
  let ?es = "ordered events" and ?V = "lg_vault ` set (ordered events)"
  obtain st acc where s: "ledger_inv a b ?V ?es (st, acc)"
    "positions = map (\<lambda>(k, p). (k, \<lparr> po_vault = ps_vault p, po_member = ps_member p, po_shares = ps_shares p, po_basis = ps_basis p \<rparr>)) st"
    by (rule reduce_ok [OF assms])
  have V: "\<forall>v \<in> ?V. CHR ''|'' \<notin> set v" using assms(2) by (auto simp: ledger_order.order_set proper_event_def)
  show "wf_map positions" using s(1) by (simp add: s(2) ledger_inv_def comp_def split_beta)
  assume "(k, p) \<in> set positions"
  then obtain q where q: "(k, q) \<in> set st" and p: "p = \<lparr> po_vault = ps_vault q, po_member = ps_member q, po_shares = ps_shares q, po_basis = ps_basis q \<rparr>"
    by (auto simp: s(2))
  from q show "\<exists>v m. CHR ''|'' \<notin> set v \<and> k = position_key v m \<and> events_of ?es v m \<noteq> []
      \<and> p = \<lparr> po_vault = v, po_member = m, po_shares = fst (book ?es v m), po_basis = snd (book ?es v m) \<rparr>"
    by (rule ledger_inv_entry [OF s(1)]) (use V p in \<open>auto simp: ledger_at_def\<close>)
qed

text \<open>The ledger's sum for one vault is a sum over the members it knows there.\<close>

definition known_members :: "ledger_event list \<Rightarrow> string \<Rightarrow> string set" where
  "known_members es v = {m. events_of es v m \<noteq> []}"

lemma finite_known [simp]: "finite (known_members es v)"
proof (rule finite_subset)
  show "known_members es v \<subseteq> lg_member ` set es" by (auto simp: known_members_def events_of_def filter_empty_conv)
qed simp

lemma ledger_vault_sum:
  assumes "reduce events a b = Inr (secs, positions)" and "\<forall>e \<in> set events. proper_event e" and "CHR ''|'' \<notin> set v"
  shows "(\<Sum>(k, p) \<leftarrow> positions. if po_vault p = v then po_shares p else 0)
    = (\<Sum>m \<in> known_members (ordered events) v. fst (book (ordered events) v m))"
proof -
  let ?es = "ordered events" and ?f = "\<lambda>(k, p). if po_vault p = v then po_shares p else 0"
  let ?h = "\<lambda>m. (position_key v m, \<lparr> po_vault = v, po_member = m, po_shares = fst (book (ordered events) v m), po_basis = snd (book (ordered events) v m) \<rparr>)"
  have "(\<Sum>x \<leftarrow> positions. ?f x) = (\<Sum>x \<in> set positions. ?f x)"
    using reduce_entry(1) [OF assms(1,2)] by (simp add: sum_list_distinct_conv_sum_set distinct_map)
  also have "\<dots> = (\<Sum>x \<in> ?h ` known_members ?es v. ?f x)"
  proof (rule sum.mono_neutral_right)
    have "?h m \<in> set positions" if "m \<in> known_members ?es v" for m
      using ledger_result(2) [OF assms, of m] that by (intro map_of_SomeD) (simp add: known_members_def)
    then show "?h ` known_members ?es v \<subseteq> set positions" by blast
    show "\<forall>x \<in> set positions - ?h ` known_members ?es v. ?f x = 0"
    proof
      fix x assume x: "x \<in> set positions - ?h ` known_members ?es v"
      obtain k p where kp: "x = (k, p)" by (cases x)
      obtain v' m where "k = position_key v' m" "events_of ?es v' m \<noteq> []"
        "p = \<lparr> po_vault = v', po_member = m, po_shares = fst (book ?es v' m), po_basis = snd (book ?es v' m) \<rparr>"
        using reduce_entry(2) [OF assms(1,2)] x kp by blast
      then show "?f x = 0" using x kp by (auto simp: known_members_def)
    qed
  qed simp
  also have "\<dots> = (\<Sum>m \<in> known_members ?es v. ?f (?h m))"
    by (rule sum.reindex_cong [of ?h]) (auto simp: inj_on_def)
  finally show ?thesis by simp
qed

text \<open>
  Nothing is published past a missing log. If the head check passes against a chain whose
  \<open>totalShares\<close> is the sum of its holders, then for every configured vault and every address at all, known
  to the ledger or not, the ledger's shares and cost basis are the chain's: a holder whose logs were all
  missed would have failed the check.
\<close>

theorem head_check_sees_every_holder:
  assumes "reduce events a b = Inr (secs, positions)" and "\<forall>e \<in> set events. proper_event e"
    and "assertHeadState vaults positions (\<lambda>v m. Inr (cb_book w v m)) (\<lambda>v. Inr (cb_total w v)) = Inr n"
    and "chain_ok w" and "v \<in> lc ` set vaults" and "CHR ''|'' \<notin> set v"
  shows "cb_book w v m = book (ordered events) v m"
proof -
  let ?es = "ordered events"
  obtain sh where sh: "ledger_shares (foldl (\<lambda>m v. AList.update (lc v) 0 m) [] vaults) positions = Inr sh"
    and t: "\<forall>(v, k) \<in> set sh. cb_total w v = k"
    and p: "\<forall>(k, p) \<in> set positions. cb_book w (po_vault p) (po_member p) = (po_shares p, po_basis p)"
    using assms(3) unfolding assertHeadState_ok by auto
  have "map_of sh v = Some (\<Sum>m \<in> known_members ?es v. fst (book ?es v m))"
    using ledger_shares_ok [OF sh, of v] assms(5) ledger_vault_sum [OF assms(1,2,6)] by (auto simp: zeroed_vaults)
  then have total: "cb_total w v = (\<Sum>m \<in> known_members ?es v. fst (book ?es v m))" using t by (auto dest: map_of_SomeD)
  have known: "cb_book w v m = book ?es v m" if "m \<in> known_members ?es v" for m
  proof -
    have "map_of positions (position_key v m) = Some \<lparr> po_vault = v, po_member = m, po_shares = fst (book ?es v m), po_basis = snd (book ?es v m) \<rparr>"
      using ledger_result(2) [OF assms(1,2,6), of m] that by (simp add: known_members_def)
    then show ?thesis using p by (auto dest!: map_of_SomeD)
  qed
  show ?thesis
  proof (cases "m \<in> known_members ?es v")
    case False
    have "fst (cb_book w v m) = 0"
    proof (rule no_other_holder [where M = "known_members ?es v"])
      show "(\<Sum>m \<in> known_members ?es v. fst (cb_book w v m)) = (\<Sum>m \<in> {m. fst (cb_book w v m) \<noteq> 0}. fst (cb_book w v m))"
        using total known assms(4) by (simp add: chain_ok_def)
    qed (use False assms(4) in \<open>simp_all add: chain_ok_def\<close>)
    then have "cb_book w v m = (0, 0)" using assms(4) by (simp add: chain_ok_def prod_eq_iff)
    moreover have "book ?es v m = (0, 0)" using False by (simp add: known_members_def book_none)
    ultimately show ?thesis by simp
  qed (rule known)
qed

section \<open>The logs of the contract\<close>

text \<open>
  The two places \<open>VaultCore\<close> changes a member's shares: \<open>_mintShares\<close>, which requires a positive mint
  and whose callers emit the balance after it, and \<open>_settleExit\<close>. A history is a list of them with the
  place and time of their logs.
\<close>

datatype sol_call = Minted int int | Settled int

record sol_op =
  so_call :: sol_call
  so_vault :: string
  so_member :: string
  so_block :: int
  so_log :: int
  so_time :: int

definition sol_empty :: chain_books where
  "sol_empty = \<lparr> cb_book = (\<lambda>v m. (0, 0)), cb_total = (\<lambda>v. 0) \<rparr>"

definition sol_emit :: "chain_books \<Rightarrow> sol_op \<Rightarrow> (chain_books \<times> ledger_event) option" where
  "sol_emit w c =
     (let v = so_vault c; m = so_member c; (sh, ba) = cb_book w v m;
          log = (\<lambda>ch. \<lparr> lg_change = ch, lg_vault = v, lg_member = m, lg_block = so_block c, lg_log = so_log c, lg_time = so_time c \<rparr>);
          w' = (\<lambda>b d. \<lparr> cb_book = (cb_book w)(v := (cb_book w v)(m := b)), cb_total = (cb_total w)(v := cb_total w v + d) \<rparr>)
      in case so_call c of
        Minted amount minted \<Rightarrow>
          if minted > 0 \<and> amount \<ge> 0 then Some (w' (sh + minted, ba + amount) minted, log (Deposit (Some amount) (Some (sh + minted)))) else None
      | Settled burned \<Rightarrow>
          if 0 < burned \<and> burned \<le> sh then Some (w' (sh - burned, ba - ba * burned div sh) (- burned), log (Exit (Some burned))) else None)"

fun sol_history :: "chain_books \<Rightarrow> sol_op list \<Rightarrow> (chain_books \<times> ledger_event list) option" where
  "sol_history w [] = Some (w, [])"
| "sol_history w (c # cs) = Option.bind (sol_emit w c) (\<lambda>(w1, e). Option.bind (sol_history w1 cs) (\<lambda>(w2, es). Some (w2, e # es)))"

definition chain_order_ok :: "ledger_event list \<Rightarrow> bool" where
  "chain_order_ok es \<longleftrightarrow> sorted_wrt (\<lambda>d e. ledger_pos d < ledger_pos e \<and> lg_time d \<le> lg_time e) es"

lemma sol_emit_log:
  assumes "sol_emit w c = Some (w', e)" and "CHR ''|'' \<notin> set (lg_vault e)"
  shows "proper_event e \<and> cb_book w' (lg_vault e) (lg_member e) = sol_change (cb_book w (lg_vault e) (lg_member e)) (lg_change e)
    \<and> ((v, m) \<noteq> (lg_vault e, lg_member e) \<longrightarrow> cb_book w' v m = cb_book w v m)
    \<and> cb_total w' v - cb_total w v = (if v = lg_vault e then fst (cb_book w' v (lg_member e)) - fst (cb_book w v (lg_member e)) else 0)
    \<and> (\<forall>pos. (ps_shares pos, ps_basis pos) = cb_book w (lg_vault e) (lg_member e) \<longrightarrow> (\<exists>pos'. apply_change e pos = Inr pos'))"
  using assms
  by (cases "so_call c") (auto simp: sol_emit_def proper_event_def apply_change_def Let_def split: prod.splits if_splits)

lemma sol_history_books:
  assumes "sol_history w cs = Some (w', es)" and "\<forall>e \<in> set es. CHR ''|'' \<notin> set (lg_vault e)"
    and "\<forall>v m. cb_book w v m = book pre v m"
    and "\<forall>v. cb_total w v = (\<Sum>m \<in> known_members pre v. fst (book pre v m))"
  shows "(\<forall>v m. cb_book w' v m = book (pre @ es) v m) \<and> (\<forall>e \<in> set es. proper_event e)
    \<and> (\<forall>v. cb_total w' v = (\<Sum>m \<in> known_members (pre @ es) v. fst (book (pre @ es) v m)))"
  using assms
proof (induction cs arbitrary: w es pre)
  case (Cons c cs)
  obtain w1 e es' where e: "sol_emit w c = Some (w1, e)" and rest: "sol_history w1 cs = Some (w', es')" and es: "es = e # es'"
    using Cons.prems(1) by (auto simp: bind_eq_Some_conv)
  have bar: "CHR ''|'' \<notin> set (lg_vault e)" using Cons.prems(2) es by simp
  note em = sol_emit_log [OF e bar]
  have b1: "cb_book w1 v m = book (pre @ [e]) v m" for v m
    using em [of v m] Cons.prems(3) by (auto simp: book_snoc)
  have "cb_total w1 v = (\<Sum>m \<in> known_members (pre @ [e]) v. fst (book (pre @ [e]) v m))" for v
  proof (cases "v = lg_vault e")
    case True
    have k: "known_members (pre @ [e]) v = insert (lg_member e) (known_members pre v)"
      using True by (auto simp: known_members_def events_of_snoc)
    have known: "fst (book pre v m) = 0" if "m \<notin> known_members pre v" for m
      using that by (simp add: known_members_def book_none)
    have old: "cb_total w v = (\<Sum>m \<in> insert (lg_member e) (known_members pre v). fst (book pre v m))"
    proof -
      have "(\<Sum>m \<in> known_members pre v. fst (book pre v m)) = (\<Sum>m \<in> insert (lg_member e) (known_members pre v). fst (book pre v m))"
        by (rule sum.mono_neutral_left) (use known in auto)
      then show ?thesis using Cons.prems(4) by simp
    qed
    have "(\<Sum>m \<in> insert (lg_member e) (known_members pre v). fst (book (pre @ [e]) v m))
        = fst (book (pre @ [e]) v (lg_member e)) + (\<Sum>m \<in> known_members pre v - {lg_member e}. fst (book pre v m))"
      by (simp add: sum.insert_remove book_snoc cong: sum.cong) (rule sum.cong; auto)
    also have "\<dots> = cb_total w v + (fst (book (pre @ [e]) v (lg_member e)) - fst (book pre v (lg_member e)))"
      using old by (simp add: sum.insert_remove)
    finally have "(\<Sum>m \<in> known_members (pre @ [e]) v. fst (book (pre @ [e]) v m))
        = cb_total w v + (fst (book (pre @ [e]) v (lg_member e)) - fst (book pre v (lg_member e)))" unfolding k .
    moreover have "cb_total w1 v - cb_total w v = fst (cb_book w1 v (lg_member e)) - fst (cb_book w v (lg_member e))"
      using em [of v "lg_member e"] True by simp
    ultimately show ?thesis using b1 Cons.prems(3) by simp
  next
    case False
    then have "known_members (pre @ [e]) v = known_members pre v" by (auto simp: known_members_def events_of_snoc)
    then show ?thesis using em [of v] False Cons.prems(4) by (auto simp: book_snoc)
  qed
  then have "(\<forall>v m. cb_book w' v m = book ((pre @ [e]) @ es') v m) \<and> (\<forall>e \<in> set es'. proper_event e)
      \<and> (\<forall>v. cb_total w' v = (\<Sum>m \<in> known_members ((pre @ [e]) @ es') v. fst (book ((pre @ [e]) @ es') v m)))"
    using b1 Cons.prems(2) es by (intro Cons.IH [OF rest]) auto
  then show ?case using em es by auto
qed simp

lemma sol_history_runs:
  assumes "sol_history w cs = Some (w', es)" and "\<forall>e \<in> set es. CHR ''|'' \<notin> set (lg_vault e) \<and> lg_vault e \<in> V"
    and "\<forall>v m. cb_book w v m = book pre v m" and "ledger_inv ws we V pre s" and "follows pre prev"
    and "chain_order_ok (pre @ es)" and "finite V" "\<forall>v \<in> V. CHR ''|'' \<notin> set v"
  shows "\<exists>s'. ledger_run ws we prev s es = Inr s'"
  using assms(1-6)
proof (induction cs arbitrary: w es pre prev s)
  case (Cons c cs)
  obtain w1 e es' where e: "sol_emit w c = Some (w1, e)" and rest: "sol_history w1 cs = Some (w', es')" and es: "es = e # es'"
    using Cons.prems(1) by (auto simp: bind_eq_Some_conv)
  have bar: "CHR ''|'' \<notin> set (lg_vault e)" "lg_vault e \<in> V" using Cons.prems(2) es by simp_all
  note em = sol_emit_log [OF e bar(1)]
  have late: "\<forall>d \<in> set pre. lg_time d \<le> lg_time e" and times: "sorted (map lg_time pre)"
    using Cons.prems(6) by (auto simp: es chain_order_ok_def sorted_wrt_append sorted_wrt_map elim: sorted_wrt_mono_rel [rotated])
  have "order_check prev e = Inr ()"
    using Cons.prems(5,6) unfolding order_check_Inr
    by (cases "pre = []") (auto simp: follows_def es chain_order_ok_def sorted_wrt_append dest!: bspec [OF _ last_in_set])
  moreover obtain s1 where s1: "ledger_step ws we s e = Inr s1"
  proof -
    define pos where "pos = (case map_of (fst s) (position_key (lg_vault e) (lg_member e)) of Some p \<Rightarrow> p
      | None \<Rightarrow> \<lparr> ps_vault = lg_vault e, ps_member = lg_member e, ps_shares = 0, ps_basis = 0, ps_lastTs = lg_time e \<rparr>)"
    have "(ps_shares pos, ps_basis pos) = cb_book w (lg_vault e) (lg_member e)"
      using Cons.prems(3,4) bar(2) by (auto simp: pos_def ledger_inv_def ledger_at_def book_none)
    then obtain pos' where "apply_change e (pos\<lparr>ps_lastTs := lg_time e\<rparr>) = Inr pos'" using em by fastforce
    then show thesis using that ledger_step_eq [OF pos_def [symmetric], of ws we] by simp
  qed
  moreover have "\<exists>s'. ledger_run ws we (Some e) s1 es' = Inr s'"
  proof (rule Cons.IH [OF rest])
    show "ledger_inv ws we V (pre @ [e]) s1"
      using ledger_step_inv [OF Cons.prems(4) assms(7) bar(2) assms(8) _ times late s1] em by blast
    show "\<forall>v m. cb_book w1 v m = book (pre @ [e]) v m" using em Cons.prems(3) by (auto simp: book_snoc)
  qed (use Cons.prems es in \<open>auto simp: follows_def\<close>)
  ultimately show ?case by (auto simp: es)
qed simp

lemma ledger_shares_total:
  "\<forall>(k, p) \<in> set ps. map_of m (po_vault p) \<noteq> None \<Longrightarrow> wf_map m \<Longrightarrow> \<exists>sh. ledger_shares m ps = Inr sh \<and> wf_map sh"
proof (induction m ps rule: ledger_shares.induct)
  case (2 m k p ps)
  then obtain n where n: "map_of m (po_vault p) = Some n" by auto
  have "\<forall>(k, q) \<in> set ps. map_of (AList.update (po_vault p) (n + po_shares p) m) (po_vault q) \<noteq> None"
    using 2(2) by (auto simp: update_conv')
  then show ?case using 2(1) [OF n] 2(3) n by simp
qed simp

lemma wf_zeroed: "wf_map m0 \<Longrightarrow> wf_map (foldl (\<lambda>m v. AList.update (lc v) 0 m) m0 vaults)"
  by (induction vaults arbitrary: m0) simp_all

lemma sol_empty_book: "\<forall>v m. cb_book sol_empty v m = book [] v m"
  by (simp add: sol_empty_def book_def events_of_def)

lemma sol_history_from_empty:
  assumes "sol_history sol_empty cs = Some (w, logs)" and "\<forall>e \<in> set logs. CHR ''|'' \<notin> set (lg_vault e)"
  shows "\<forall>v m. cb_book w v m = book logs v m" "\<forall>e \<in> set logs. proper_event e"
    "\<forall>v. cb_total w v = (\<Sum>m \<in> known_members logs v. fst (book logs v m))"
proof -
  have t: "\<forall>v. cb_total sol_empty v = (\<Sum>m \<in> known_members [] v. fst (book [] v m))"
    by (simp add: sol_empty_def book_def events_of_def known_members_def)
  note h = sol_history_books [OF assms sol_empty_book t, unfolded append_Nil]
  show "\<forall>v m. cb_book w v m = book logs v m" "\<forall>e \<in> set logs. proper_event e"
    "\<forall>v. cb_total w v = (\<Sum>m \<in> known_members logs v. fst (book logs v m))"
    using h by blast+
qed

lemma chain_order_ok_ordered:
  assumes "chain_order_ok logs" "mset events = mset logs"
  shows "ordered events = logs"
proof -
  have "sorted_wrt (<) (map ledger_pos logs)"
    using assms(1) unfolding chain_order_ok_def sorted_wrt_map by (rule sorted_wrt_mono_rel [rotated]) simp
  then have "distinct (map ledger_pos logs)" "sorted (map ledger_pos logs)" by (simp_all add: strict_sorted_iff)
  then have "inj_on ledger_pos (set logs)" "ordered logs = logs"
    by (simp_all add: distinct_map ledger_order.order_id)
  moreover have "set events = set logs" using assms(2) by (rule mset_eq_setD)
  ultimately show ?thesis using ledger_order.order_independent [OF assms(2)] by simp
qed

text \<open>
  A complete log is never refused. Let the contract mint and burn in any order, at any times: if all
  the logs it emitted are read, in any order, the reducer accepts them and the head check against the
  chain passes, so a run that throws has missed or misread a log.
\<close>

theorem complete_log_passes_the_head_check:
  assumes "sol_history sol_empty cs = Some (w, logs)" and "chain_order_ok logs" and "mset events = mset logs"
    and "\<forall>e \<in> set logs. lg_vault e \<in> lc ` set vaults" and "\<forall>v \<in> set vaults. CHR ''|'' \<notin> set (lc v)" and "vaults \<noteq> []"
    and "safe_integer a" "safe_integer b" "a \<le> b"
  shows "\<exists>secs positions n. reduce events a b = Inr (secs, positions)
    \<and> assertHeadState vaults positions (\<lambda>v m. Inr (cb_book w v m)) (\<lambda>v. Inr (cb_total w v)) = Inr n"
proof -
  have es: "ordered events = logs" by (rule chain_order_ok_ordered [OF assms(2,3)])
  have bar: "\<forall>e \<in> set logs. CHR ''|'' \<notin> set (lg_vault e)" using assms(4,5) by fastforce
  note hist = sol_history_from_empty [OF assms(1) bar]
  have "\<exists>s'. ledger_run a b None ([], []) logs = Inr s'"
    by (rule sol_history_runs [OF assms(1) _ sol_empty_book ledger_inv_init [of a b "lg_vault ` set logs"]])
       (use assms(2) bar in \<open>auto simp: follows_def\<close>)
  then obtain secs positions where r: "reduce events a b = Inr (secs, positions)"
    using assms(7-9) by (auto simp: reduce_def es)
  have pr: "\<forall>e \<in> set events. proper_event e" using hist(2) assms(3) mset_eq_setD by blast
  note entry = reduce_entry(2) [OF r pr, unfolded es]
  let ?m = "foldl (\<lambda>m v. AList.update (lc v) (0 :: int) m) [] vaults"
  have "map_of ?m (po_vault p) \<noteq> None" if "(k, p) \<in> set positions" for k p
  proof -
    have "po_vault p \<in> lg_vault ` set logs" using entry [OF that] by (auto simp: events_of_def filter_empty_conv)
    then have "po_vault p \<in> lc ` set vaults" using assms(4) by auto
    then show ?thesis by (simp add: zeroed_vaults)
  qed
  then have dom: "\<forall>(k, p) \<in> set positions. map_of ?m (po_vault p) \<noteq> None" by blast
  have wf: "wf_map ?m" by (rule wf_zeroed) simp
  obtain sh where sh: "ledger_shares ?m positions = Inr sh" "wf_map sh"
    using ledger_shares_total [OF dom wf] by blast
  have "cb_total w v = n" if "(v, n) \<in> set sh" for v n
  proof -
    have n: "map_of sh v = Some n" using that sh(2) by simp
    then have v: "v \<in> lc ` set vaults" using ledger_shares_ok [OF sh(1), of v] by (auto simp: zeroed_vaults split: if_splits)
    then have "n = (\<Sum>(k, p) \<leftarrow> positions. if po_vault p = v then po_shares p else 0)"
      using ledger_shares_ok [OF sh(1), of v] n by (simp add: zeroed_vaults)
    also have "\<dots> = (\<Sum>m \<in> known_members logs v. fst (book logs v m))"
      using ledger_vault_sum [OF r pr, of v] v assms(5) by (auto simp: es)
    finally show ?thesis using hist(3) by simp
  qed
  moreover have "cb_book w (po_vault p) (po_member p) = (po_shares p, po_basis p)" if "(k, p) \<in> set positions" for k p
    using entry [OF that] hist(1) by auto
  ultimately have "\<exists>n. assertHeadState vaults positions (\<lambda>v m. Inr (cb_book w v m)) (\<lambda>v. Inr (cb_total w v)) = Inr n"
    using sh(1) assms(6) unfolding assertHeadState_ok by auto
  then show ?thesis using r by blast
qed

text \<open>What the contract's own steps leave is such a chain.\<close>

lemma sol_history_nonneg:
  assumes "sol_history w cs = Some (w', es)"
    and "\<forall>v m. 0 \<le> fst (cb_book w v m) \<and> 0 \<le> snd (cb_book w v m) \<and> (fst (cb_book w v m) = 0 \<longrightarrow> snd (cb_book w v m) = 0)"
  shows "\<forall>v m. 0 \<le> fst (cb_book w' v m) \<and> 0 \<le> snd (cb_book w' v m) \<and> (fst (cb_book w' v m) = 0 \<longrightarrow> snd (cb_book w' v m) = 0)"
  using assms
proof (induction cs arbitrary: w es)
  case (Cons c cs)
  obtain w1 e es' where e: "sol_emit w c = Some (w1, e)" and rest: "sol_history w1 cs = Some (w', es')"
    using Cons.prems(1) by (auto simp: bind_eq_Some_conv)
  obtain sh ba where b: "cb_book w (so_vault c) (so_member c) = (sh, ba)" by fastforce
  have nn: "0 \<le> sh" "0 \<le> ba" "sh = 0 \<longrightarrow> ba = 0" using Cons.prems(2) b by (metis fst_conv snd_conv)+
  have "ba * n div sh \<le> ba" if "0 < n" "n \<le> sh" for n
  proof -
    have "ba * n div sh \<le> ba * sh div sh" by (rule zdiv_mono1) (use that nn in \<open>auto intro: mult_left_mono\<close>)
    then show ?thesis using that by simp
  qed
  then have "\<forall>v m. 0 \<le> fst (cb_book w1 v m) \<and> 0 \<le> snd (cb_book w1 v m) \<and> (fst (cb_book w1 v m) = 0 \<longrightarrow> snd (cb_book w1 v m) = 0)"
    using e b nn Cons.prems(2) by (cases "so_call c") (auto simp: sol_emit_def Let_def split: if_splits)
  then show ?case by (rule Cons.IH [OF rest])
qed simp

lemma sol_history_chain_ok:
  assumes "sol_history sol_empty cs = Some (w, logs)" and "\<forall>e \<in> set logs. CHR ''|'' \<notin> set (lg_vault e)"
  shows "chain_ok w"
proof -
  have n: "\<forall>v m. 0 \<le> fst (cb_book w v m) \<and> 0 \<le> snd (cb_book w v m) \<and> (fst (cb_book w v m) = 0 \<longrightarrow> snd (cb_book w v m) = 0)"
    by (rule sol_history_nonneg [OF assms(1)]) (simp add: sol_empty_def)
  note h = sol_history_from_empty [OF assms]
  have sub: "{m. fst (cb_book w v m) \<noteq> 0} \<subseteq> known_members logs v" for v
    using h(1) by (auto simp: known_members_def book_none)
  have "cb_total w v = (\<Sum>m \<in> {m. fst (cb_book w v m) \<noteq> 0}. fst (cb_book w v m))" for v
    using h(1,3) sub [of v] by (simp, intro sum.mono_neutral_right) auto
  then show ?thesis using n sub finite_subset [OF sub finite_known] by (auto simp: chain_ok_def)
qed

section \<open>A concrete vault\<close>

definition sample_ops :: "sol_op list" where
  "sample_ops =
     [ \<lparr> so_call = Minted 100 100, so_vault = ''0xv'', so_member = ''0xa'', so_block = 1, so_log = 0, so_time = 10 \<rparr>,
       \<lparr> so_call = Minted 50 50, so_vault = ''0xv'', so_member = ''0xb'', so_block = 1, so_log = 1, so_time = 10 \<rparr>,
       \<lparr> so_call = Settled 40, so_vault = ''0xv'', so_member = ''0xa'', so_block = 2, so_log = 0, so_time = 20 \<rparr> ]"

definition sample_ledger :: "ledger_event list" where
  "sample_ledger =
     [ \<lparr> lg_change = Deposit (Some 100) (Some 100), lg_vault = ''0xv'', lg_member = ''0xa'', lg_block = 1, lg_log = 0, lg_time = 10 \<rparr>,
       \<lparr> lg_change = Deposit (Some 50) (Some 50), lg_vault = ''0xv'', lg_member = ''0xb'', lg_block = 1, lg_log = 1, lg_time = 10 \<rparr>,
       \<lparr> lg_change = Exit (Some 40), lg_vault = ''0xv'', lg_member = ''0xa'', lg_block = 2, lg_log = 0, lg_time = 20 \<rparr> ]"

lemma sample_history: "\<exists>w. sol_history sol_empty sample_ops = Some (w, sample_ledger)"
  by (simp add: sample_ops_def sample_ledger_def sol_emit_def sol_empty_def Let_def)

lemma sample_order: "chain_order_ok sample_ledger"
  by (simp add: chain_order_ok_def sample_ledger_def ledger_pos_def)

lemma sample_proper: "e \<in> set sample_ledger \<Longrightarrow> proper_event e"
  by (auto simp: sample_ledger_def proper_event_def)

lemma sample_reduces: "\<exists>positions. reduce sample_ledger 0 30 = Inr ([(''0xa'', 1600), (''0xb'', 1000)], positions)"
  using chain_order_ok_ordered [OF sample_order refl]
  by (simp add: reduce_def safe_integer_def)
     (simp add: sample_ledger_def ledger_step_def order_check_def apply_change_def integrateTo_def position_key_def jget_or_def)

lemma ledger_measures_cost_seconds_witness:
  "cost_seconds sample_ledger ''0xa'' 0 30 = 1600"
proof -
  obtain positions where r: "reduce sample_ledger 0 30 = Inr ([(''0xa'', 1600), (''0xb'', 1000)], positions)"
    using sample_reduces by blast
  show ?thesis
    using ledger_measures_cost_seconds [OF r, of "''0xv''" "''0xa''"] sample_proper chain_order_ok_ordered [OF sample_order refl]
    by (simp add: jget_or_def)
qed

lemma adjacent_windows_add_up_witness:
  "\<exists>early late positions. reduce sample_ledger 0 15 = Inr (early, positions) \<and> reduce sample_ledger 15 30 = Inr (late, positions)
    \<and> jget_or 0 early ''0xa'' + jget_or 0 late ''0xa'' = 1600"
proof -
  obtain positions where r: "reduce sample_ledger 0 30 = Inr ([(''0xa'', 1600), (''0xb'', 1000)], positions)"
    using sample_reduces by blast
  obtain early late where s: "reduce sample_ledger 0 15 = Inr (early, positions)" "reduce sample_ledger 15 30 = Inr (late, positions)"
    "\<forall>m. jget_or 0 [(''0xa'', 1600), (''0xb'', 1000)] m = jget_or 0 early m + jget_or 0 late m"
    using adjacent_windows_add_up [OF r, of 15] sample_proper by (auto simp: safe_integer_def)
  have "jget_or 0 early ''0xa'' + jget_or 0 late ''0xa'' = 1600"
    using s(3) [rule_format, of "''0xa''"] by (simp add: jget_or_def)
  then show ?thesis using s by blast
qed

lemma log_order_is_irrelevant_witness:
  "\<exists>positions. reduce (rev sample_ledger) 0 30 = Inr ([(''0xa'', 1600), (''0xb'', 1000)], positions)"
  using sample_reduces log_order_is_irrelevant [of sample_ledger 0 30 _ "rev sample_ledger"] by (metis mset_rev)

lemma complete_log_passes_the_head_check_witness:
  "\<exists>(w :: chain_books) secs positions n. reduce (rev sample_ledger) 0 30 = Inr (secs, positions)
    \<and> assertHeadState [''0xV''] positions (\<lambda>v m. Inr (cb_book w v m)) (\<lambda>v. Inr (cb_total w v)) = Inr n"
proof -
  obtain w where w: "sol_history sol_empty sample_ops = Some (w, sample_ledger)" using sample_history by blast
  have l: "lc ''0xV'' = ''0xv''" by code_simp
  have c: "\<forall>e \<in> set sample_ledger. lg_vault e \<in> lc ` set [''0xV'']" by (simp add: sample_ledger_def l)
  have "\<exists>secs positions n. reduce (rev sample_ledger) 0 30 = Inr (secs, positions)
    \<and> assertHeadState [''0xV''] positions (\<lambda>v m. Inr (cb_book w v m)) (\<lambda>v. Inr (cb_total w v)) = Inr n"
    by (rule complete_log_passes_the_head_check [OF w sample_order _ c]) (simp_all add: l safe_integer_def)
  then show ?thesis by (rule exI [of _ w])
qed

lemma head_check_sees_every_holder_witness:
  "\<exists>w. sol_history sol_empty sample_ops = Some (w, sample_ledger) \<and> cb_book w ''0xv'' ''0xa'' = book sample_ledger ''0xv'' ''0xa''"
proof -
  obtain w where w: "sol_history sol_empty sample_ops = Some (w, sample_ledger)" using sample_history by blast
  have l: "lc ''0xV'' = ''0xv''" by code_simp
  have "\<forall>e \<in> set sample_ledger. lg_vault e \<in> lc ` set [''0xV'']" by (simp add: sample_ledger_def l)
  then obtain secs positions n where r: "reduce sample_ledger 0 30 = Inr (secs, positions)"
    "assertHeadState [''0xV''] positions (\<lambda>v m. Inr (cb_book w v m)) (\<lambda>v. Inr (cb_total w v)) = Inr n"
    using complete_log_passes_the_head_check [OF w sample_order refl, of "[''0xV'']" 0 30] by (auto simp: l safe_integer_def)
  have bar: "\<forall>e \<in> set sample_ledger. CHR ''|'' \<notin> set (lg_vault e)" by (simp add: sample_ledger_def)
  have "cb_book w ''0xv'' ''0xa'' = book (ordered sample_ledger) ''0xv'' ''0xa''"
    by (rule head_check_sees_every_holder [OF r(1) _ r(2) sol_history_chain_ok [OF w bar]]) (use sample_proper l in auto)
  then show ?thesis using w chain_order_ok_ordered [OF sample_order refl] by auto
qed

end
