(* ===== verification/Leader_Source.thy ===== *)
theory Leader_Source
  imports Leader_Ledger
begin

text \<open>
  The chain source of the activity leaderboard, \<open>packages/activity-leaderboard/src/source.mjs\<close>: retries,
  blocks and their cache, the search for the last block of an epoch, and the paging of the vaults' logs.
  The endpoint is a parameter: what \<open>getBlock\<close>, \<open>getLogs\<close> and \<open>getBlockNumber\<close> answer, or the error.
\<close>

section \<open>Retries\<close>

text \<open>
  \<open>retrying\<close>: the answer of attempt \<open>attempt\<close>, an error retried only when it is about load, with the
  waits in between. \<open>answers n\<close> is what the \<open>n\<close>th attempt would give.
\<close>

function retrying :: "int \<Rightarrow> ('e \<Rightarrow> bool) \<Rightarrow> (int \<Rightarrow> 'e + 'a) \<Rightarrow> int \<Rightarrow> ('e + 'a) \<times> int list" where
  "retrying maxTries transient answers attempt = (case answers attempt of
      Inr v \<Rightarrow> (Inr v, [])
    | Inl e \<Rightarrow>
        if attempt \<ge> maxTries \<or> \<not> transient e then (Inl e, [])
        else let (r, waits) = retrying maxTries transient answers (attempt + 1) in
          (r, min 30000 (500 * 2 ^ nat (attempt - 1)) # waits))"
  by pat_completeness auto
termination by (relation "measure (\<lambda>(m, t, a, n). nat (m - n))") auto

declare retrying.simps [simp del]

section \<open>Blocks\<close>

record block_info =
  bi_number :: int
  bi_hash :: string
  bi_timestamp :: int

type_synonym get_block = "int \<Rightarrow> string + int option \<times> string option \<times> int"
type_synonym blocks = "(int, block_info) jsmap"

definition blockInfo :: "get_block \<Rightarrow> blocks \<Rightarrow> int \<Rightarrow> (string + block_info) \<times> blocks" where
  "blockInfo getBlock blocks n = (case map_of blocks n of
      Some hit \<Rightarrow> (Inr hit, blocks)
    | None \<Rightarrow> (case getBlock n of
        Inl e \<Rightarrow> (Inl e, blocks)
      | Inr (number, hash, ts) \<Rightarrow> (case (number, hash) of
          (Some k, Some h) \<Rightarrow>
            if k \<noteq> n then (Inl ''asked for another block'', blocks)
            else let info = \<lparr> bi_number = k, bi_hash = h, bi_timestamp = ts \<rparr> in (Inr info, AList.update n info blocks)
        | _ \<Rightarrow> (Inl ''block not returned'', blocks))))"

definition confirmedHead :: "get_block \<Rightarrow> blocks \<Rightarrow> string + int \<Rightarrow> int \<Rightarrow> (string + block_info) \<times> blocks" where
  "confirmedHead getBlock blocks getBlockNumber confirmations = (case getBlockNumber of
      Inl e \<Rightarrow> (Inl e, blocks)
    | Inr latest \<Rightarrow> blockInfo getBlock blocks (max 0 (latest - confirmations)))"

text \<open>The loop of \<open>lastBlockBefore\<close>, between a block before \<open>ts\<close> and one that is not.\<close>

function search_before :: "get_block \<Rightarrow> int \<Rightarrow> blocks \<Rightarrow> int \<Rightarrow> int \<Rightarrow> (string + block_info) \<times> blocks" where
  "search_before getBlock ts blocks lo ceil =
     (if ceil - lo > 1
      then let mid = (lo + ceil) div 2 in
        (case blockInfo getBlock blocks mid of
           (Inl e, blocks1) \<Rightarrow> (Inl e, blocks1)
         | (Inr b, blocks1) \<Rightarrow>
             if bi_timestamp b < ts then search_before getBlock ts blocks1 mid ceil
             else search_before getBlock ts blocks1 lo mid)
      else blockInfo getBlock blocks lo)"
  by pat_completeness auto
termination by (relation "measure (\<lambda>(g, ts, bs, lo, ceil). nat (ceil - lo))") auto

declare search_before.simps [simp del]

definition lastBlockBefore :: "get_block \<Rightarrow> blocks \<Rightarrow> int \<Rightarrow> int \<Rightarrow> (string + block_info) \<times> blocks" where
  "lastBlockBefore getBlock blocks ts hi =
     (case blockInfo getBlock blocks hi of
        (Inl e, blocks1) \<Rightarrow> (Inl e, blocks1)
      | (Inr h, blocks1) \<Rightarrow>
          if bi_timestamp h < ts then blockInfo getBlock blocks1 hi
          else (case blockInfo getBlock blocks1 0 of
              (Inl e, blocks2) \<Rightarrow> (Inl e, blocks2)
            | (Inr z, blocks2) \<Rightarrow>
                if bi_timestamp z \<ge> ts then (Inl ''no block before'', blocks2)
                else search_before getBlock ts blocks2 0 hi))"

section \<open>Logs\<close>

datatype raw_event =
    DepositActivated string int int
  | ExitSettled string int
  | UnexpectedEvent string

record raw_log =
  rl_address :: string
  rl_block :: int
  rl_log :: int
  rl_event :: raw_event

type_synonym get_logs = "string \<Rightarrow> int \<Rightarrow> int \<Rightarrow> string + raw_log list"
type_synonym seen_logs = "(int \<times> int, string \<times> raw_log) jsmap"

text \<open>The windows of one vault; \<open>windowBlocks\<close> is at least 1, or the reader is not built.\<close>

function pages :: "int \<Rightarrow> int \<Rightarrow> int \<Rightarrow> (int \<times> int) list" where
  "pages windowBlocks toBlock from =
     (if from \<le> toBlock \<and> windowBlocks \<ge> 1
      then (from, min (from + windowBlocks - 1) toBlock) # pages windowBlocks toBlock (from + windowBlocks)
      else [])"
  by pat_completeness auto
termination by (relation "measure (\<lambda>(w, t, f). nat (t + 1 - f))") auto

declare pages.simps [simp del]

text \<open>\<open>seen\<close> is keyed by the block and log index; the code joins the two numbers with a colon.\<close>

fun note_logs :: "string \<Rightarrow> int \<Rightarrow> int \<Rightarrow> seen_logs \<Rightarrow> raw_log list \<Rightarrow> string + seen_logs" where
  "note_logs vault from til seen [] = Inr seen"
| "note_logs vault from til seen (l # ls) =
     (if lc (rl_address l) \<noteq> vault then Inl ''log from another address''
      else if rl_block l < from \<or> rl_block l > til then Inl ''log outside the window''
      else note_logs vault from til (AList.update (rl_block l, rl_log l) (vault, l) seen) ls)"

fun read_pages :: "get_logs \<Rightarrow> string \<Rightarrow> seen_logs \<Rightarrow> (int \<times> int) list \<Rightarrow> string + seen_logs" where
  "read_pages getLogs vault seen [] = Inr seen"
| "read_pages getLogs vault seen ((from, til) # ws) =
     bindE (getLogs vault from til) (\<lambda>logs. bindE (note_logs vault from til seen logs) (\<lambda>seen1.
       read_pages getLogs vault seen1 ws))"

fun read_vaults :: "get_logs \<Rightarrow> int \<Rightarrow> int \<Rightarrow> seen_logs \<Rightarrow> (string \<times> int) list \<Rightarrow> string + seen_logs" where
  "read_vaults getLogs windowBlocks toBlock seen [] = Inr seen"
| "read_vaults getLogs windowBlocks toBlock seen ((address, fromBlock) # vs) =
     (if \<not> is_address address then Inl ''bad vault address''
      else bindE (read_pages getLogs (lc address) seen (pages windowBlocks toBlock fromBlock)) (\<lambda>seen1.
        read_vaults getLogs windowBlocks toBlock seen1 vs))"

fun read_blocks :: "get_block \<Rightarrow> blocks \<Rightarrow> int list \<Rightarrow> string + blocks" where
  "read_blocks getBlock blocks [] = Inr blocks"
| "read_blocks getBlock blocks (n # ns) = (case blockInfo getBlock blocks n of
      (Inl e, blocks1) \<Rightarrow> Inl e
    | (Inr b, blocks1) \<Rightarrow> read_blocks getBlock blocks1 ns)"

definition timestamp_of :: "blocks \<Rightarrow> int \<Rightarrow> int" where
  "timestamp_of blocks n = (case map_of blocks n of Some b \<Rightarrow> bi_timestamp b | None \<Rightarrow> 0)"

definition to_event :: "blocks \<Rightarrow> string \<times> raw_log \<Rightarrow> string + ledger_event" where
  "to_event blocks = (\<lambda>(vault, l).
     let base = (\<lambda>ch member. \<lparr> lg_change = ch, lg_vault = vault, lg_member = lc member, lg_block = rl_block l, lg_log = rl_log l,
       lg_time = timestamp_of blocks (rl_block l) \<rparr>) in
     case rl_event l of
       DepositActivated member amount after \<Rightarrow> Inr (base (Deposit (Some amount) (Some after)) member)
     | ExitSettled member burned \<Rightarrow> Inr (base (Exit (Some burned)) member)
     | UnexpectedEvent n \<Rightarrow> Inl ''unexpected event'')"

fun to_events :: "blocks \<Rightarrow> (string \<times> raw_log) list \<Rightarrow> string + ledger_event list" where
  "to_events blocks [] = Inr []"
| "to_events blocks (x # xs) = bindE (to_event blocks x) (\<lambda>e. bindE (to_events blocks xs) (\<lambda>es. Inr (e # es)))"

text \<open>
  \<open>vaultEvents\<close>. The eight workers that fill the block cache are run one after another: each writes only
  its own block, and every block is looked up once.
\<close>

definition vaultEvents ::
  "get_block \<Rightarrow> get_logs \<Rightarrow> int \<Rightarrow> blocks \<Rightarrow> (string \<times> int) list \<Rightarrow> int \<Rightarrow> string + ledger_event list \<times> blocks" where
  "vaultEvents getBlock getLogs windowBlocks blocks vaults toBlock =
     bindE (read_vaults getLogs windowBlocks toBlock [] vaults) (\<lambda>seen.
       let entries = map snd seen in
       bindE (read_blocks getBlock blocks (set_of_list (map (\<lambda>(v, l). rl_block l) entries))) (\<lambda>blocks1.
       bindE (to_events blocks1 entries) (\<lambda>es. Inr (ordered es, blocks1))))"

section \<open>Retries end\<close>

lemma retrying_from:
  assumes "retrying maxTries transient answers n = (r, waits)" and "1 \<le> n"
  shows "r = answers (n + int (length waits)) \<and> int (length waits) \<le> max 0 (maxTries - n)
    \<and> (\<forall>k < length waits. \<exists>e. answers (n + int k) = Inl e \<and> transient e \<and> 0 < waits ! k \<and> waits ! k \<le> 30000)
    \<and> (\<forall>e. r = Inl e \<longrightarrow> transient e \<longrightarrow> maxTries \<le> n + int (length waits))"
  using assms
proof (induction maxTries transient answers n arbitrary: r waits rule: retrying.induct)
  case (1 maxTries transient answers n)
  show ?case
  proof (cases "\<exists>e. answers n = Inl e \<and> \<not> n \<ge> maxTries \<and> transient e")
    case True
    then obtain e where e: "answers n = Inl e" "\<not> n \<ge> maxTries" "transient e" by blast
    obtain r1 w1 where r1: "retrying maxTries transient answers (n + 1) = (r1, w1)" by fastforce
    have rw: "r = r1" "waits = min 30000 (500 * 2 ^ nat (n - 1)) # w1"
      using 1(2) e r1 by (simp_all add: retrying.simps [of maxTries transient answers n])
    have IH: "r1 = answers (n + 1 + int (length w1)) \<and> int (length w1) \<le> max 0 (maxTries - (n + 1))
      \<and> (\<forall>k < length w1. \<exists>e. answers (n + 1 + int k) = Inl e \<and> transient e \<and> 0 < w1 ! k \<and> w1 ! k \<le> 30000)
      \<and> (\<forall>e. r1 = Inl e \<longrightarrow> transient e \<longrightarrow> maxTries \<le> n + 1 + int (length w1))"
      using 1(1) [OF e(1) _ r1] e 1(3) by auto
    have "\<exists>e. answers (n + int k) = Inl e \<and> transient e \<and> 0 < waits ! k \<and> waits ! k \<le> 30000" if "k < length waits" for k
    proof (cases k)
      case (Suc j)
      have "n + int k = n + 1 + int j" "waits ! k = w1 ! j" "j < length w1" using Suc rw that by simp_all
      then show ?thesis using IH by metis
    qed (use e rw in simp)
    then show ?thesis using IH e rw by (auto simp: algebra_simps)
  next
    case False
    then show ?thesis using 1(2)
      by (auto simp: retrying.simps [of maxTries transient answers n] split: sum.splits if_splits)
  qed
qed

section \<open>The last block before an epoch ends\<close>

lemma blockInfo_cache:
  "length (snd (blockInfo g bs n)) \<le> Suc (length bs)"
  "map_of bs n \<noteq> None \<Longrightarrow> snd (blockInfo g bs n) = bs"
  "fst (blockInfo g bs n) = Inr b \<Longrightarrow> map_of (snd (blockInfo g bs n)) n = Some b"
  by (auto simp: blockInfo_def length_update Let_def update_conv' split: option.splits sum.splits)

lemma blockInfo_keeps: "map_of bs m \<noteq> None \<Longrightarrow> map_of (snd (blockInfo g bs n)) m = map_of bs m"
  by (auto simp: blockInfo_def update_conv' Let_def split: option.splits sum.splits)

text \<open>Each turn of the loop halves the distance and reads at most one block.\<close>

lemma search_reads:
  assumes "ceil - lo \<le> 2 ^ k" "map_of bs lo \<noteq> None"
  shows "length (snd (search_before g ts bs lo ceil)) \<le> length bs + k"
  using assms
proof (induction g ts bs lo ceil arbitrary: k rule: search_before.induct)
  case (1 g ts bs lo ceil)
  show ?case
  proof (cases "ceil - lo > 1")
    case False
    then show ?thesis using blockInfo_cache(2) [OF 1(4)] by (simp add: search_before.simps)
  next
    case True
    define mid where "mid = (lo + ceil) div 2"
    obtain j where k: "k = Suc j" using True 1(3) by (cases k) auto
    have half: "mid - lo \<le> 2 ^ j" "ceil - mid \<le> 2 ^ j" using 1(3) k by (auto simp: mid_def)
    obtain x bs1 where b: "blockInfo g bs mid = (x, bs1)" by fastforce
    have len: "length bs1 \<le> Suc (length bs)" using blockInfo_cache(1) [of g bs mid] b by simp
    show ?thesis
    proof (cases x)
      case (Inl e)
      then show ?thesis using True b len k by (simp add: search_before.simps [of g ts bs lo ceil] mid_def [symmetric])
    next
      case (Inr y)
      have lo1: "map_of bs1 lo \<noteq> None" using blockInfo_keeps [OF 1(4)] b 1(4) by (metis snd_conv)
      have mid1: "map_of bs1 mid \<noteq> None" using blockInfo_cache(3) [of g bs mid y] b Inr by simp
      show ?thesis
      proof (cases "bi_timestamp y < ts")
        case True': True
        have "length (snd (search_before g ts bs1 mid ceil)) \<le> length bs1 + j"
          using 1(1) [OF True mid_def b [symmetric, unfolded Inr] _ True' half(2) mid1] by simp
        then show ?thesis using True True' b Inr len k by (simp add: search_before.simps [of g ts bs lo ceil] mid_def [symmetric])
      next
        case False
        have "length (snd (search_before g ts bs1 lo mid)) \<le> length bs1 + j"
          using 1(2) [OF True mid_def b [symmetric, unfolded Inr] _ False half(1) lo1] by simp
        then show ?thesis using True False b Inr len k by (simp add: search_before.simps [of g ts bs lo ceil] mid_def [symmetric])
      qed
    qed
  qed
qed

text \<open>An endpoint that answers for its chain, and a cache filled by it.\<close>

definition tells :: "get_block \<Rightarrow> (int \<Rightarrow> string) \<Rightarrow> (int \<Rightarrow> int) \<Rightarrow> bool" where
  "tells g hash time \<longleftrightarrow> (\<forall>n. g n = Inr (Some n, Some (hash n), time n))"

definition chain_block :: "(int \<Rightarrow> string) \<Rightarrow> (int \<Rightarrow> int) \<Rightarrow> int \<Rightarrow> block_info" where
  "chain_block hash time n = \<lparr> bi_number = n, bi_hash = hash n, bi_timestamp = time n \<rparr>"

definition cache_ok :: "blocks \<Rightarrow> (int \<Rightarrow> string) \<Rightarrow> (int \<Rightarrow> int) \<Rightarrow> bool" where
  "cache_ok bs hash time \<longleftrightarrow> (\<forall>n b. map_of bs n = Some b \<longrightarrow> b = chain_block hash time n)"

lemma blockInfo_tells:
  assumes "tells g hash time" "cache_ok bs hash time"
  shows "\<exists>bs1. blockInfo g bs n = (Inr (chain_block hash time n), bs1) \<and> cache_ok bs1 hash time"
  using assms by (auto simp: blockInfo_def tells_def cache_ok_def chain_block_def update_conv' Let_def split: option.splits)

lemma search_finds:
  assumes "tells g hash time" "cache_ok bs hash time" "time lo < ts" "ts \<le> time ceil" "lo < ceil"
  shows "\<exists>n bs1. search_before g ts bs lo ceil = (Inr (chain_block hash time n), bs1)
    \<and> lo \<le> n \<and> n < ceil \<and> time n < ts \<and> ts \<le> time (n + 1) \<and> cache_ok bs1 hash time"
  using assms
proof (induction g ts bs lo ceil rule: search_before.induct)
  case (1 g ts bs lo ceil)
  show ?case
  proof (cases "ceil - lo > 1")
    case False
    then have "ceil = lo + 1" using 1(7) by simp
    then show ?thesis using blockInfo_tells [OF 1(3,4), of lo] 1(5,6) False by (auto simp: search_before.simps)
  next
    case True
    define mid where "mid = (lo + ceil) div 2"
    have m: "lo < mid" "mid < ceil" using True by (auto simp: mid_def)
    obtain bs1 where b: "blockInfo g bs mid = (Inr (chain_block hash time mid), bs1)" and c: "cache_ok bs1 hash time"
      using blockInfo_tells [OF 1(3,4)] by blast
    show ?thesis
    proof (cases "time mid < ts")
      case True': True
      have "\<exists>n bs2. search_before g ts bs1 mid ceil = (Inr (chain_block hash time n), bs2)
        \<and> mid \<le> n \<and> n < ceil \<and> time n < ts \<and> ts \<le> time (n + 1) \<and> cache_ok bs2 hash time"
        using 1(1) [OF True mid_def b [symmetric] refl] True' c 1(3,6) m by (simp add: chain_block_def)
      then show ?thesis using True True' b m by (auto simp: search_before.simps [of g ts bs lo ceil] mid_def [symmetric] chain_block_def)
    next
      case False
      have "\<exists>n bs2. search_before g ts bs1 lo mid = (Inr (chain_block hash time n), bs2)
        \<and> lo \<le> n \<and> n < mid \<and> time n < ts \<and> ts \<le> time (n + 1) \<and> cache_ok bs2 hash time"
        using 1(2) [OF True mid_def b [symmetric] refl] False c 1(3,5) m by (simp add: chain_block_def)
      then show ?thesis using True False b m by (auto simp: search_before.simps [of g ts bs lo ceil] mid_def [symmetric] chain_block_def)
    qed
  qed
qed

text \<open>
  A read is tried a bounded number of times. \<open>retrying\<close> gives the answer of its last attempt, makes at
  most \<open>maxTries\<close> of them (at least one), goes on only past errors about load, and waits at most thirty
  seconds before each new attempt.
\<close>

theorem retrying_is_bounded:
  assumes "retrying maxTries transient answers 1 = (r, waits)"
  shows "r = answers (1 + int (length waits)) \<and> 1 + int (length waits) \<le> max 1 maxTries
    \<and> (\<forall>k < length waits. \<exists>e. answers (1 + int k) = Inl e \<and> transient e \<and> 0 < waits ! k \<and> waits ! k \<le> 30000)
    \<and> (\<forall>e. r = Inl e \<longrightarrow> transient e \<longrightarrow> maxTries \<le> 1 + int (length waits))"
  using retrying_from [OF assms] by auto

text \<open>
  The block an epoch ends at is found, in logarithmically many reads. Whatever the endpoint answers,
  \<open>lastBlockBefore\<close> comes back after at most \<open>k + 2\<close> reads of a chain of \<open>2 ^ k\<close> blocks; and when it
  answers for a chain whose timestamps never go down, what comes back is the last block before \<open>ts\<close>:
  every later block up to the head is at or after it.
\<close>

theorem last_block_before_is_found:
  assumes "0 \<le> hi" "hi \<le> 2 ^ k"
  shows "length (snd (lastBlockBefore g bs ts hi)) \<le> length bs + k + 2
    \<and> (tells g hash time \<and> cache_ok bs hash time \<and> time 0 < ts \<and> (\<forall>i j. 0 \<le> i \<longrightarrow> i \<le> j \<longrightarrow> j \<le> hi \<longrightarrow> time i \<le> time j)
       \<longrightarrow> (\<exists>n. fst (lastBlockBefore g bs ts hi) = Inr (chain_block hash time n) \<and> 0 \<le> n \<and> n \<le> hi \<and> time n < ts
          \<and> (\<forall>j. n < j \<longrightarrow> j \<le> hi \<longrightarrow> ts \<le> time j)))"
proof -
  obtain x bs1 where h: "blockInfo g bs hi = (x, bs1)" by fastforce
  obtain z bs2 where o: "blockInfo g bs1 0 = (z, bs2)" by fastforce
  have l: "length bs1 \<le> Suc (length bs)" "length bs2 \<le> Suc (length bs1)"
    using blockInfo_cache(1) [of g bs hi] blockInfo_cache(1) [of g bs1 0] h o by simp_all
  have hit: "length (snd (blockInfo g bs1 hi)) = length bs1" if "x = Inr y" for y
    using blockInfo_cache(2) [of bs1 hi g] blockInfo_cache(3) [of g bs hi y] h that by simp
  have "length (snd (search_before g ts bs2 0 hi)) \<le> length bs2 + k" if "z = Inr y" for y
    using search_reads [of hi 0 k bs2 g ts] blockInfo_cache(3) [of g bs1 0 y] o that assms(2) by simp
  then have "length (snd (lastBlockBefore g bs ts hi)) \<le> length bs + k + 2"
    using l hit by (auto simp: lastBlockBefore_def h o split: sum.splits)
  moreover have "\<exists>n. fst (lastBlockBefore g bs ts hi) = Inr (chain_block hash time n) \<and> 0 \<le> n \<and> n \<le> hi \<and> time n < ts
      \<and> (\<forall>j. n < j \<longrightarrow> j \<le> hi \<longrightarrow> ts \<le> time j)"
    if t: "tells g hash time" and c: "cache_ok bs hash time" and z: "time 0 < ts"
      and mono: "\<forall>i j. 0 \<le> i \<longrightarrow> i \<le> j \<longrightarrow> j \<le> hi \<longrightarrow> time i \<le> time j"
  proof -
    have b1: "x = Inr (chain_block hash time hi)" "cache_ok bs1 hash time" using blockInfo_tells [OF t c, of hi] h by auto
    have b2: "z = Inr (chain_block hash time 0)" "cache_ok bs2 hash time" using blockInfo_tells [OF t b1(2), of 0] o by auto
    show ?thesis
    proof (cases "time hi < ts")
      case True
      then show ?thesis using blockInfo_tells [OF t b1(2), of hi] h b1(1) assms(1)
        by (auto simp: lastBlockBefore_def chain_block_def)
    next
      case False
      then have lt: "0 < hi" using z assms(1) by (cases "hi = 0") auto
      obtain n bs3 where n: "search_before g ts bs2 0 hi = (Inr (chain_block hash time n), bs3)" "0 \<le> n" "n < hi" "time n < ts" "ts \<le> time (n + 1)"
        using search_finds [OF t b2(2) z _ lt] False by auto
      have "ts \<le> time j" if "n < j" "j \<le> hi" for j
        using mono [rule_format, of "n + 1" j] n that by simp
      moreover have "fst (lastBlockBefore g bs ts hi) = Inr (chain_block hash time n)"
        using False z by (simp add: lastBlockBefore_def h o b1(1) b2(1) n(1) chain_block_def)
      ultimately show ?thesis using n by auto
    qed
  qed
  ultimately show ?thesis by blast
qed

section \<open>The windows\<close>

lemma pages_bounds:
  assumes "(a, b) \<in> set (pages w t f)"
  shows "f \<le> a \<and> a \<le> b \<and> b \<le> t \<and> b - a < w"
  using assms
proof (induction w t f rule: pages.induct)
  case (1 w t f)
  then show ?case by (subst (asm) (2) pages.simps) (fastforce split: if_splits)
qed

lemma pages_sorted: "sorted_wrt (\<lambda>x y. snd x < fst y) (pages w t f)"
proof (induction w t f rule: pages.induct)
  case (1 w t f)
  show ?case
  proof (cases "f \<le> t \<and> w \<ge> 1")
    case True
    have "min (f + w - 1) t < fst y" if "y \<in> set (pages w t (f + w))" for y
      using pages_bounds [of "fst y" "snd y" w t "f + w"] that by simp
    then show ?thesis using True 1 by (subst pages.simps) simp
  next
    case False
    then have "pages w t f = []" by (subst pages.simps) auto
    then show ?thesis by simp
  qed
qed

text \<open>Every block of the range is in a window.\<close>

lemma pages_cover:
  assumes "w \<ge> 1" "f \<le> n" "n \<le> t"
  shows "\<exists>(a, b) \<in> set (pages w t f). a \<le> n \<and> n \<le> b"
  using assms
proof (induction w t f rule: pages.induct)
  case (1 w t f)
  show ?case
  proof (cases "n < f + w")
    case True
    then show ?thesis using 1 by (subst pages.simps) auto
  next
    case False
    then have "\<exists>(a, b) \<in> set (pages w t (f + w)). a \<le> n \<and> n \<le> b" using 1 by simp
    then show ?thesis using 1 by (subst pages.simps) auto
  qed
qed

section \<open>What the paging returns\<close>

definition log_key :: "raw_log \<Rightarrow> int \<times> int" where
  "log_key l = (rl_block l, rl_log l)"

definition asked_for :: "(string \<times> int) list \<Rightarrow> int \<Rightarrow> raw_log \<Rightarrow> bool" where
  "asked_for vaults toBlock l \<longleftrightarrow>
     (\<exists>(a, f) \<in> set vaults. is_address a \<and> lc (rl_address l) = lc a \<and> f \<le> rl_block l \<and> rl_block l \<le> toBlock)"

definition seen_ok :: "(raw_log \<Rightarrow> bool) \<Rightarrow> seen_logs \<Rightarrow> bool" where
  "seen_ok P seen \<longleftrightarrow> wf_map seen \<and> (\<forall>(k, v, l) \<in> set seen. k = log_key l \<and> v = lc (rl_address l) \<and> P l)"

lemma seen_ok_update:
  assumes "seen_ok P seen" "P l"
  shows "seen_ok P (AList.update (log_key l) (lc (rl_address l), l) seen)"
  using assms set_update_sub [of "log_key l" "(lc (rl_address l), l)" seen] by (fastforce simp: seen_ok_def)

lemma note_logs_ok:
  assumes "note_logs vault f t seen ls = Inr seen'" "seen_ok P seen"
    and "\<And>l :: raw_log. l \<in> set ls \<Longrightarrow> lc (rl_address l) = vault \<Longrightarrow> f \<le> rl_block l \<Longrightarrow> rl_block l \<le> t \<Longrightarrow> P l"
  shows "seen_ok P seen'"
  using assms
proof (induction ls arbitrary: seen)
  case (Cons l ls)
  then show ?case using seen_ok_update [of P seen l] by (auto simp: log_key_def split: if_splits)
qed simp

lemma read_pages_ok:
  assumes "read_pages g vault seen ws = Inr seen'" "seen_ok P seen"
    and "\<And>(l :: raw_log) a b. (a, b) \<in> set ws \<Longrightarrow> lc (rl_address l) = vault \<Longrightarrow> a \<le> rl_block l \<Longrightarrow> rl_block l \<le> b \<Longrightarrow> P l"
  shows "seen_ok P seen'"
  using assms
proof (induction g vault seen ws rule: read_pages.induct)
  case (2 g vault seen f t ws)
  obtain ls s1 where ls: "g vault f t = Inr ls" "note_logs vault f t seen ls = Inr s1" "read_pages g vault s1 ws = Inr seen'"
    using 2(2) by (auto simp: bindE_Inr)
  have "seen_ok P s1" by (rule note_logs_ok [OF ls(2) 2(3)]) (use 2(4) in auto)
  then show ?case using 2(1) [OF ls(3)] 2(4) by auto
qed simp

lemma read_vaults_ok:
  assumes "read_vaults g w t seen vs = Inr seen'" "seen_ok P seen" and "\<And>l. asked_for vs t l \<Longrightarrow> P l"
  shows "seen_ok P seen'"
  using assms
proof (induction g w t seen vs rule: read_vaults.induct)
  case (2 g w t seen a f vs)
  obtain s1 where ad: "is_address a" and s1: "read_pages g (lc a) seen (pages w t f) = Inr s1" "read_vaults g w t s1 vs = Inr seen'"
    using 2(2) by (auto simp: bindE_Inr split: if_splits)
  have "seen_ok P s1"
  proof (rule read_pages_ok [OF s1(1) 2(3)])
    fix l :: raw_log and b c assume "(b, c) \<in> set (pages w t f)" "lc (rl_address l) = lc a" "b \<le> rl_block l" "rl_block l \<le> c"
    then show "P l" using pages_bounds [of b c w t f] ad by (intro 2(4)) (auto simp: asked_for_def)
  qed
  then show ?case using 2(1) [OF _ s1(2)] ad 2(4) by (auto simp: asked_for_def)
qed simp

definition event_of :: "(int \<Rightarrow> int) \<Rightarrow> raw_log \<Rightarrow> ledger_event" where
  "event_of time l = \<lparr> lg_change = (case rl_event l of DepositActivated m a s \<Rightarrow> Deposit (Some a) (Some s) | ExitSettled m b \<Rightarrow> Exit (Some b)
       | UnexpectedEvent n \<Rightarrow> OtherType n),
     lg_vault = lc (rl_address l), lg_member = (case rl_event l of DepositActivated m a s \<Rightarrow> lc m | ExitSettled m b \<Rightarrow> lc m | UnexpectedEvent n \<Rightarrow> []),
     lg_block = rl_block l, lg_log = rl_log l, lg_time = time (rl_block l) \<rparr>"

definition expected :: "raw_log \<Rightarrow> bool" where
  "expected l \<longleftrightarrow> (case rl_event l of UnexpectedEvent n \<Rightarrow> False | _ \<Rightarrow> True)"

lemma to_events_iff:
  assumes "\<forall>(v, l) \<in> set xs. v = lc (rl_address l)"
  shows "to_events bs xs = Inr es \<longleftrightarrow> (\<forall>(v, l) \<in> set xs. expected l) \<and> es = map (\<lambda>(v, l). event_of (timestamp_of bs) l) xs"
  using assms
proof (induction xs arbitrary: es)
  case (Cons x xs)
  obtain v l where x: "x = (v, l)" by (cases x)
  have "to_event bs x = Inr e \<longleftrightarrow> expected l \<and> e = event_of (timestamp_of bs) l" for e
    using Cons.prems x by (cases "rl_event l") (auto simp: to_event_def event_of_def expected_def Let_def)
  then show ?case using Cons x by (auto simp: bindE_Inr)
qed auto

text \<open>An event of the type the reducer folds.\<close>

definition typed_event :: "ledger_event \<Rightarrow> bool" where
  "typed_event e \<longleftrightarrow> ((\<exists>a s. lg_change e = Deposit (Some a) (Some s)) \<or> (\<exists>b. lg_change e = Exit (Some b)))
     \<and> CHR ''|'' \<notin> set (lg_vault e) \<and> lc (lg_vault e) = lg_vault e \<and> lc (lg_member e) = lg_member e"

lemma address_no_bar: "is_address a \<Longrightarrow> CHR ''|'' \<notin> set (lc a)"
proof
  assume a: "is_address a" and "CHR ''|'' \<in> set (lc a)"
  then obtain c where c: "c \<in> set a" "lower_char c = CHR ''|''" by (auto simp: lc_def)
  have "c \<in> set (take 2 a) \<union> set (drop 2 a)" using c(1) by (metis append_take_drop_id set_append)
  then have "c \<in> set ''0x'' \<or> hex_char c" using a by (auto simp: is_address_def hex_string_def list_all_iff)
  then have "(of_char c :: nat) \<le> 120" by (auto simp: hex_char_def Let_def)
  then have "(of_char (lower_char c) :: nat) \<le> 122" by (auto simp: lower_char_def Let_def)
  then show False using c(2) by simp
qed

lemma vaultEvents_entries:
  assumes "vaultEvents g gl w bs vaults toBlock = Inr (es, bs')"
  obtains seen where "seen_ok (asked_for vaults toBlock) seen" "es = ordered (map (\<lambda>(k, v, l). event_of (timestamp_of bs') l) seen)"
    "\<forall>(k, v, l) \<in> set seen. expected l" "read_vaults gl w toBlock [] vaults = Inr seen"
    "read_blocks g bs (set_of_list (map (\<lambda>(k, v, l). rl_block l) seen)) = Inr bs'"
proof -
  obtain seen es0 where s: "read_vaults gl w toBlock [] vaults = Inr seen"
    "read_blocks g bs (set_of_list (map (\<lambda>(v, l). rl_block l) (map snd seen))) = Inr bs'"
    "to_events bs' (map snd seen) = Inr es0" "es = ordered es0"
    using assms by (auto simp: vaultEvents_def bindE_Inr Let_def)
  have ok: "seen_ok (asked_for vaults toBlock) seen" by (rule read_vaults_ok [OF s(1)]) (simp_all add: seen_ok_def)
  have "\<forall>(v, l) \<in> set (map snd seen). v = lc (rl_address l)" using ok by (auto simp: seen_ok_def)
  from to_events_iff [OF this, of bs' es0] s(3)
  have x: "\<forall>(v, l) \<in> set (map snd seen). expected l" "es0 = map (\<lambda>(v, l). event_of (timestamp_of bs') l) (map snd seen)"
    by simp_all
  have m: "map (\<lambda>(v, l). h l) (map snd seen) = map (\<lambda>(k, v, l). h l) seen" for h :: "raw_log \<Rightarrow> 'x"
    by (simp add: comp_def split_beta)
  show thesis
  proof (rule that [OF ok _ _ s(1)])
    show "es = ordered (map (\<lambda>(k, v, l). event_of (timestamp_of bs') l) seen)" using s(4) x(2) by (simp only: m)
    show "read_blocks g bs (set_of_list (map (\<lambda>(k, v, l). rl_block l) seen)) = Inr bs'" using s(2) by (simp only: m)
  qed (use x(1) in auto)
qed

lemma vaultEvents_typed:
  assumes "vaultEvents g gl w bs vaults toBlock = Inr (es, bs')"
  shows "sorted (map ledger_pos es)" "distinct (map ledger_pos es)"
    and "e \<in> set es \<Longrightarrow> typed_event e \<and> (\<exists>(a, f) \<in> set vaults. lg_vault e = lc a \<and> f \<le> lg_block e \<and> lg_block e \<le> toBlock)"
proof -
  obtain seen where s: "seen_ok (asked_for vaults toBlock) seen" "es = ordered (map (\<lambda>(k, v, l). event_of (timestamp_of bs') l) seen)"
    "\<forall>(k, v, l) \<in> set seen. expected l"
    by (rule vaultEvents_entries [OF assms])
  show "sorted (map ledger_pos es)" by (simp add: s(2) ledger_order.order_sorted)
  have eq: "map ledger_pos (map (\<lambda>(k, v, l). event_of (timestamp_of bs') l) seen) = map fst seen"
    using s(1) by (auto simp: seen_ok_def ledger_pos_def event_of_def log_key_def)
  have "distinct (map ledger_pos (map (\<lambda>(k, v, l). event_of (timestamp_of bs') l) seen))" unfolding eq using s(1) by (simp add: seen_ok_def)
  moreover have "mset (map ledger_pos es) = mset (map ledger_pos (map (\<lambda>(k, v, l). event_of (timestamp_of bs') l) seen))"
    unfolding s(2) mset_map by (simp add: ledger_order.order_mset)
  ultimately show "distinct (map ledger_pos es)" using mset_eq_imp_distinct_iff by blast
  assume "e \<in> set es"
  then obtain k v l where l: "(k, v, l) \<in> set seen" "e = event_of (timestamp_of bs') l" by (auto simp: s(2) ledger_order.order_set)
  then have "asked_for vaults toBlock l" "expected l" using s(1,3) by (auto simp: seen_ok_def)
  then show "typed_event e \<and> (\<exists>(a, f) \<in> set vaults. lg_vault e = lc a \<and> f \<le> lg_block e \<and> lg_block e \<le> toBlock)"
    using address_no_bar by (auto simp: l(2) typed_event_def event_of_def asked_for_def expected_def split: raw_event.splits)
qed

lemma ledger_run_typed:
  assumes "ledger_run ws we prev s es = Inl err" and "\<forall>e \<in> set es. typed_event e"
    and "distinct (map ledger_pos (case prev of Some p \<Rightarrow> p # es | None \<Rightarrow> es))"
  shows "(\<exists>x y. err = TimeBackwards x y) \<or> (\<exists>n. err = BalanceNotRaised n \<or> err = BurnsTooMuch n)"
  using assms
proof (induction es arbitrary: prev s)
  case (Cons e es)
  consider "order_check prev e = Inl err" | "order_check prev e = Inr ()" "ledger_step ws we s e = Inl err"
    | s1 where "ledger_run ws we (Some e) s1 es = Inl err"
    using Cons.prems(1) by (auto simp: bindE_def split: sum.splits)
  then show ?case
  proof cases
    case 1
    then show ?thesis using Cons.prems(3) by (auto simp: order_check_def ledger_pos_def split: option.splits if_splits)
  next
    case 2
    then obtain pos where "apply_change e pos = Inl err"
      by (auto simp: ledger_step_def Let_def bindE_def split: prod.splits sum.splits)
    then show ?thesis using Cons.prems(2) by (auto simp: apply_change_def typed_event_def Let_def split: if_splits)
  next
    case 3
    then show ?thesis using Cons.IH [OF 3] Cons.prems(2,3) by (auto split: option.splits)
  qed
qed simp

text \<open>
  What is paged is what the reducer takes. Whatever the endpoint answers, if \<open>vaultEvents\<close> returns then
  its events are in order with no two at one place, each is a deposit or an exit with all its fields, in
  lower case, from a configured vault and within the range asked for; so of the errors of the reducer
  only those about the figures are left: a clock going back, a balance not raised, a burn of too much.
\<close>

theorem paged_events_are_well_typed:
  assumes "vaultEvents g gl w bs vaults toBlock = Inr (es, bs')"
  shows "sorted (map ledger_pos es) \<and> distinct (map ledger_pos es)
    \<and> (\<forall>e \<in> set es. typed_event e \<and> (\<exists>(a, f) \<in> set vaults. lg_vault e = lc a \<and> f \<le> lg_block e \<and> lg_block e \<le> toBlock))
    \<and> (\<forall>err. safe_integer a \<and> safe_integer b \<and> a \<le> b \<longrightarrow> reduce es a b = Inl err
        \<longrightarrow> (\<exists>x y. err = TimeBackwards x y) \<or> (\<exists>n. err = BalanceNotRaised n \<or> err = BurnsTooMuch n))"
proof -
  note t = vaultEvents_typed [OF assms]
  have o: "ordered es = es" using t(1,2) by (intro ledger_order.order_id) (simp_all add: distinct_map)
  have "(\<exists>x y. err = TimeBackwards x y) \<or> (\<exists>n. err = BalanceNotRaised n \<or> err = BurnsTooMuch n)"
    if "safe_integer a \<and> safe_integer b \<and> a \<le> b" "reduce es a b = Inl err" for err
  proof (rule ledger_run_typed [of a b None "([], [])" es err])
    show "ledger_run a b None ([], []) es = Inl err"
      using that by (auto simp: reduce_def o bindE_def split: sum.splits)
  qed (use t in auto)
  then show ?thesis using t by blast
qed

section \<open>Every log is read\<close>

text \<open>An endpoint that answers \<open>eth_getLogs\<close> from the chain's logs, each at a place of its own.\<close>

definition serves :: "get_logs \<Rightarrow> raw_log list \<Rightarrow> bool" where
  "serves gl chain \<longleftrightarrow> inj_on log_key (set chain) \<and>
     (\<forall>v a b. gl v a b = Inr (filter (\<lambda>l. lc (rl_address l) = v \<and> a \<le> rl_block l \<and> rl_block l \<le> b) chain))"

lemma note_logs_serves:
  assumes "\<forall>l \<in> set ls. lc (rl_address l) = vault \<and> f \<le> rl_block l \<and> rl_block l \<le> t"
  shows "\<exists>seen'. note_logs vault f t seen ls = Inr seen' \<and> fst ` set seen' = fst ` set seen \<union> log_key ` set ls"
  using assms
proof (induction ls arbitrary: seen)
  case (Cons l ls)
  obtain s1 where "note_logs vault f t (AList.update (log_key l) (vault, l) seen) ls = Inr s1"
    "fst ` set s1 = fst ` set (AList.update (log_key l) (vault, l) seen) \<union> log_key ` set ls"
    using Cons.IH [of "AList.update (log_key l) (vault, l) seen"] Cons.prems by auto
  then show ?case using Cons.prems by (simp add: log_key_def dom_update)
qed simp

lemma read_pages_serves:
  assumes "serves gl chain"
  shows "\<exists>seen'. read_pages gl vault seen ws = Inr seen'
    \<and> fst ` set seen' = fst ` set seen \<union> log_key ` {l \<in> set chain. lc (rl_address l) = vault \<and> (\<exists>(a, b) \<in> set ws. a \<le> rl_block l \<and> rl_block l \<le> b)}"
proof (induction ws arbitrary: seen)
  case (Cons w ws)
  obtain f t where w: "w = (f, t)" by (cases w)
  let ?ls = "filter (\<lambda>l. lc (rl_address l) = vault \<and> f \<le> rl_block l \<and> rl_block l \<le> t) chain"
  obtain s1 where s1: "note_logs vault f t seen ?ls = Inr s1" "fst ` set s1 = fst ` set seen \<union> log_key ` set ?ls"
    using note_logs_serves [of ?ls vault f t seen] by auto
  obtain s2 where "read_pages gl vault s1 ws = Inr s2"
    "fst ` set s2 = fst ` set s1 \<union> log_key ` {l \<in> set chain. lc (rl_address l) = vault \<and> (\<exists>(a, b) \<in> set ws. a \<le> rl_block l \<and> rl_block l \<le> b)}"
    using Cons.IH by blast
  moreover have "{l \<in> set chain. lc (rl_address l) = vault \<and> (\<exists>(a, b) \<in> set (w # ws). a \<le> rl_block l \<and> rl_block l \<le> b)}
      = set ?ls \<union> {l \<in> set chain. lc (rl_address l) = vault \<and> (\<exists>(a, b) \<in> set ws. a \<le> rl_block l \<and> rl_block l \<le> b)}"
    by (auto simp: w)
  moreover have "gl vault f t = Inr ?ls" using assms by (simp add: serves_def)
  ultimately show ?case using s1 by (simp add: w image_Un Un_assoc)
qed simp

lemma read_vaults_serves:
  assumes "serves gl chain" "w \<ge> 1" "\<forall>(a, f) \<in> set vs. is_address a"
  shows "\<exists>seen'. read_vaults gl w t seen vs = Inr seen' \<and> fst ` set seen' = fst ` set seen \<union> log_key ` {l \<in> set chain. asked_for vs t l}"
  using assms(3)
proof (induction vs arbitrary: seen)
  case (Cons v vs)
  obtain a f where v: "v = (a, f)" by (cases v)
  have range: "(\<exists>(b, c) \<in> set (pages w t f). b \<le> n \<and> n \<le> c) \<longleftrightarrow> f \<le> n \<and> n \<le> t" for n
    using pages_cover [OF assms(2)] pages_bounds by fastforce
  obtain s1 where s1: "read_pages gl (lc a) seen (pages w t f) = Inr s1"
    "fst ` set s1 = fst ` set seen \<union> log_key ` {l \<in> set chain. lc (rl_address l) = lc a \<and> f \<le> rl_block l \<and> rl_block l \<le> t}"
    using read_pages_serves [OF assms(1), of "lc a" seen "pages w t f"] unfolding range by blast
  obtain s2 where "read_vaults gl w t s1 vs = Inr s2" "fst ` set s2 = fst ` set s1 \<union> log_key ` {l \<in> set chain. asked_for vs t l}"
    using Cons.IH [of s1] Cons.prems by auto
  moreover have "{l \<in> set chain. asked_for (v # vs) t l}
      = {l \<in> set chain. lc (rl_address l) = lc a \<and> f \<le> rl_block l \<and> rl_block l \<le> t} \<union> {l \<in> set chain. asked_for vs t l}"
    using Cons.prems by (auto simp: v asked_for_def)
  ultimately show ?case using s1 Cons.prems by (simp add: v image_Un Un_assoc)
qed (simp add: asked_for_def)

lemma read_blocks_tells:
  assumes "tells g hash time" "cache_ok bs hash time"
  shows "\<exists>bs'. read_blocks g bs ns = Inr bs' \<and> cache_ok bs' hash time \<and> (\<forall>n. n \<in> set ns \<or> map_of bs n \<noteq> None \<longrightarrow> map_of bs' n = Some (chain_block hash time n))"
  using assms(2)
proof (induction ns arbitrary: bs)
  case Nil
  then show ?case by (fastforce simp: cache_ok_def)
next
  case (Cons n ns)
  obtain b1 where b1: "blockInfo g bs n = (Inr (chain_block hash time n), b1)" "cache_ok b1 hash time"
    using blockInfo_tells [OF assms(1) Cons.prems] by blast
  obtain bs' where bs': "read_blocks g b1 ns = Inr bs'" "cache_ok bs' hash time"
    "\<forall>m. m \<in> set ns \<or> map_of b1 m \<noteq> None \<longrightarrow> map_of bs' m = Some (chain_block hash time m)"
    using Cons.IH [OF b1(2)] by blast
  have "map_of b1 n \<noteq> None" using blockInfo_cache(3) [of g bs n] b1(1) by simp
  moreover have "map_of b1 m \<noteq> None" if "map_of bs m \<noteq> None" for m
    using blockInfo_keeps [OF that, of g n] b1(1) that by simp
  ultimately have "\<forall>m. m \<in> set (n # ns) \<or> map_of bs m \<noteq> None \<longrightarrow> map_of bs' m = Some (chain_block hash time m)"
    using bs'(3) by auto
  then show ?case using b1(1) bs' by simp
qed

lemma note_logs_chain:
  "note_logs vault f t seen ls = Inr seen' \<Longrightarrow> seen_ok (\<lambda>l. l \<in> L) seen \<Longrightarrow> set ls \<subseteq> L \<Longrightarrow> seen_ok (\<lambda>l. l \<in> L) seen'"
  by (rule note_logs_ok) auto

definition answers_within :: "get_logs \<Rightarrow> raw_log set \<Rightarrow> bool" where
  "answers_within gl L \<longleftrightarrow> (\<forall>v a b ls. gl v a b = Inr ls \<longrightarrow> set ls \<subseteq> L)"

lemma serves_answers: "serves gl chain \<Longrightarrow> answers_within gl (set chain)"
  by (auto simp: serves_def answers_within_def)

lemma read_pages_chain:
  "answers_within gl L \<Longrightarrow> read_pages gl vault seen ws = Inr seen' \<Longrightarrow> seen_ok (\<lambda>l. l \<in> L) seen \<Longrightarrow> seen_ok (\<lambda>l. l \<in> L) seen'"
proof (induction gl vault seen ws rule: read_pages.induct)
  case (2 g vault seen f t ws)
  obtain ls s1 where ls: "g vault f t = Inr ls" "note_logs vault f t seen ls = Inr s1" "read_pages g vault s1 ws = Inr seen'"
    using 2(3) by (auto simp: bindE_Inr)
  have "set ls \<subseteq> L" using ls(1) 2(2) by (simp add: answers_within_def)
  then show ?case using 2(1) [OF 2(2) ls(3)] note_logs_chain [OF ls(2) 2(4)] by blast
qed simp

lemma read_vaults_chain:
  "answers_within gl L \<Longrightarrow> read_vaults gl w t seen vs = Inr seen' \<Longrightarrow> seen_ok (\<lambda>l. l \<in> L) seen
    \<Longrightarrow> seen_ok (\<lambda>l. l \<in> L) seen' \<and> (\<forall>(a, f) \<in> set vs. is_address a)"
proof (induction gl w t seen vs rule: read_vaults.induct)
  case (2 g w t seen a f vs)
  obtain s1 where ad: "is_address a" and s1: "read_pages g (lc a) seen (pages w t f) = Inr s1" "read_vaults g w t s1 vs = Inr seen'"
    using 2(3) by (auto simp: bindE_Inr split: if_splits)
  show ?case using 2(1) [OF _ 2(2) s1(2)] read_pages_chain [OF 2(2) s1(1) 2(4)] ad by auto
qed simp

text \<open>Every event comes from a log the endpoint answered with.\<close>

lemma vaultEvents_from:
  assumes "vaultEvents g gl w bs vaults toBlock = Inr (es, bs')" "answers_within gl L"
  shows "\<forall>e \<in> set es. \<exists>l \<in> L. e = event_of (timestamp_of bs') l" and "\<forall>(a, f) \<in> set vaults. is_address a"
proof -
  obtain seen where s: "es = ordered (map (\<lambda>(k, v, l). event_of (timestamp_of bs') l) seen)"
    "read_vaults gl w toBlock [] vaults = Inr seen"
    by (rule vaultEvents_entries [OF assms(1)])
  have "seen_ok (\<lambda>l. l \<in> L) seen \<and> (\<forall>(a, f) \<in> set vaults. is_address a)"
    by (rule read_vaults_chain [OF assms(2) s(2)]) (simp add: seen_ok_def)
  then show "\<forall>e \<in> set es. \<exists>l \<in> L. e = event_of (timestamp_of bs') l" "\<forall>(a, f) \<in> set vaults. is_address a"
    by (auto simp: s(1) ledger_order.order_set seen_ok_def)
qed

text \<open>
  C39. Nothing is missed and nothing is read twice. From an endpoint that serves its chain, with any window
  size, \<open>vaultEvents\<close> returns exactly the deposits and exits of the configured vaults from their first
  blocks to the head, each once, stamped with the time of its block.
\<close>

theorem every_log_is_read_once:
  assumes "serves gl chain" and "tells g hash time" and "cache_ok bs hash time" and "w \<ge> 1"
    and "\<forall>(a, f) \<in> set vaults. is_address a" and "\<forall>l \<in> set chain. asked_for vaults toBlock l \<longrightarrow> expected l"
  shows "\<exists>es bs'. vaultEvents g gl w bs vaults toBlock = Inr (es, bs') \<and> distinct es
    \<and> set es = event_of time ` {l \<in> set chain. asked_for vaults toBlock l}"
proof -
  obtain seen where r: "read_vaults gl w toBlock [] vaults = Inr seen"
    and keys: "fst ` set seen = log_key ` {l \<in> set chain. asked_for vaults toBlock l}"
    using read_vaults_serves [OF assms(1,4,5), of toBlock "[]"] by auto
  have ok: "seen_ok (\<lambda>l. asked_for vaults toBlock l) seen" by (rule read_vaults_ok [OF r]) (simp_all add: seen_ok_def)
  have onchain: "seen_ok (\<lambda>l. l \<in> set chain) seen"
    using read_vaults_chain [OF serves_answers [OF assms(1)] r] by (simp add: seen_ok_def)
  have logs: "(\<lambda>(k, v, l). l) ` set seen = {l \<in> set chain. asked_for vaults toBlock l}"
  proof
    show "(\<lambda>(k, v, l). l) ` set seen \<subseteq> {l \<in> set chain. asked_for vaults toBlock l}"
      using ok onchain by (auto simp: seen_ok_def)
    show "{l \<in> set chain. asked_for vaults toBlock l} \<subseteq> (\<lambda>(k, v, l). l) ` set seen"
    proof
      fix l assume l: "l \<in> {l \<in> set chain. asked_for vaults toBlock l}"
      then have "log_key l \<in> fst ` set seen" using keys by auto
      then obtain v l' where e: "(log_key l, v, l') \<in> set seen" by auto
      then have "log_key l = log_key l'" "l' \<in> set chain" using onchain by (auto simp: seen_ok_def)
      then have "l' = l" using assms(1) l by (auto simp: serves_def inj_on_def)
      then show "l \<in> (\<lambda>(k, v, l). l) ` set seen" using e by force
    qed
  qed
  have exp: "\<forall>(v, l) \<in> set (map snd seen). expected l" using ok onchain assms(6) by (auto simp: seen_ok_def)
  let ?ns = "set_of_list (map (\<lambda>(v, l). rl_block l) (map snd seen))"
  obtain bs' where b: "read_blocks g bs ?ns = Inr bs'" "\<forall>n. n \<in> set ?ns \<longrightarrow> map_of bs' n = Some (chain_block hash time n)"
    using read_blocks_tells [OF assms(2,3), of ?ns] by blast
  have v: "\<forall>(v, l) \<in> set (map snd seen). v = lc (rl_address l)" using ok by (auto simp: seen_ok_def)
  have t: "timestamp_of bs' (rl_block l) = time (rl_block l)" if "(k, v, l) \<in> set seen" for k v l
  proof -
    have "(\<lambda>(v, l). rl_block l) (snd (k, v, l)) \<in> set (map (\<lambda>(v, l). rl_block l) (map snd seen))"
      using that unfolding set_map by (intro imageI)
    then have "rl_block l \<in> set ?ns" by simp
    then show ?thesis using b(2) by (simp add: timestamp_of_def chain_block_def)
  qed
  let ?es = "map (\<lambda>(v, l). event_of (timestamp_of bs') l) (map snd seen)"
  have run: "vaultEvents g gl w bs vaults toBlock = Inr (ordered ?es, bs')"
    using r b(1) to_events_iff [OF v, of bs' ?es] exp by (simp add: vaultEvents_def Let_def)
  have "distinct (ordered ?es)" using vaultEvents_typed(2) [OF run] by (simp add: distinct_map)
  moreover have "?es = map (\<lambda>(k, v, l). event_of time l) seen" using t by (auto simp: event_of_def)
  then have "set (ordered ?es) = event_of time ` (\<lambda>(k, v, l). l) ` set seen"
    by (simp add: ledger_order.order_set image_image split_beta)
  ultimately show ?thesis using run logs by auto
qed

section \<open>A concrete endpoint\<close>

lemma retrying_is_bounded_witness:
  "\<exists>waits. retrying 8 (\<lambda>e. e = ''429'') (\<lambda>n. if n < 3 then Inl ''429'' else Inr n) 1 = (Inr 3, waits) \<and> length waits = 2"
proof -
  obtain r waits where r: "retrying 8 (\<lambda>e. e = ''429'') (\<lambda>n. if n < 3 then Inl ''429'' else Inr n) 1 = (r, waits)" by fastforce
  note b = retrying_is_bounded [OF r]
  have "\<not> length waits < 2" using b by (cases "r") (auto split: if_splits)
  moreover have "\<not> 2 < length waits" using b by (auto dest: spec [of _ 2])
  ultimately have "length waits = 2" by simp
  then show ?thesis using r b by auto
qed

definition sample_address :: string where
  "sample_address = ''0x'' @ replicate 40 CHR ''a''"

definition sample_chain :: "raw_log list" where
  "sample_chain =
     [ \<lparr> rl_address = sample_address, rl_block = 7, rl_log = 1, rl_event = ExitSettled ''0xB'' 40 \<rparr>,
       \<lparr> rl_address = sample_address, rl_block = 3, rl_log = 0, rl_event = DepositActivated ''0xB'' 100 100 \<rparr> ]"

definition sample_logs :: get_logs where
  "sample_logs v a b = Inr (filter (\<lambda>l. lc (rl_address l) = v \<and> a \<le> rl_block l \<and> rl_block l \<le> b) sample_chain)"

definition sample_block :: get_block where
  "sample_block n = Inr (Some n, Some ''0xh'', 10 * n)"

lemma sample_endpoint: "serves sample_logs sample_chain" "tells sample_block (\<lambda>_. ''0xh'') (\<lambda>n. 10 * n)"
  by (simp_all add: serves_def sample_logs_def sample_chain_def log_key_def tells_def sample_block_def)

lemma sample_is_address: "is_address sample_address"
  by (simp add: is_address_def sample_address_def hex_string_def hex_char_def numeral_eq_Suc)

lemma last_block_before_is_found_witness:
  "fst (lastBlockBefore sample_block [] 45 16) = Inr (chain_block (\<lambda>_. ''0xh'') (\<lambda>n. 10 * n) 4)"
proof -
  obtain n where n: "fst (lastBlockBefore sample_block [] 45 16) = Inr (chain_block (\<lambda>_. ''0xh'') (\<lambda>n. 10 * n) n)"
    "n \<le> 16" "10 * n < 45" "\<forall>j. n < j \<longrightarrow> j \<le> 16 \<longrightarrow> 45 \<le> 10 * j"
    using last_block_before_is_found [of 16 4 sample_block "[]" 45 "\<lambda>_. ''0xh''" "\<lambda>n. 10 * n"] sample_endpoint(2)
    by (auto simp: cache_ok_def)
  have "n = 4" using n(3) n(4) [rule_format, of "n + 1"] by simp
  then show ?thesis using n(1) by simp
qed

lemma every_log_is_read_once_witness:
  "\<exists>es bs'. vaultEvents sample_block sample_logs 2 [] [(sample_address, 1)] 9 = Inr (es, bs') \<and> length es = 2"
proof -
  have asked: "{l \<in> set sample_chain. asked_for [(sample_address, 1)] 9 l} = set sample_chain"
    by (auto simp: sample_chain_def asked_for_def sample_is_address)
  obtain es bs' where v: "vaultEvents sample_block sample_logs 2 [] [(sample_address, 1)] 9 = Inr (es, bs')" "distinct es"
    "set es = event_of (\<lambda>n. 10 * n) ` set sample_chain"
  proof -
    have exp: "\<forall>l \<in> set sample_chain. asked_for [(sample_address, 1)] 9 l \<longrightarrow> expected l"
      by (simp add: sample_chain_def expected_def)
    show thesis
      using every_log_is_read_once [OF sample_endpoint _ _ _ exp, of "[]" 2] sample_is_address that
      unfolding asked by (auto simp: cache_ok_def)
  qed
  have "length es = card (event_of (\<lambda>n. 10 * n) ` set sample_chain)" using v(2,3) by (metis distinct_card)
  also have "\<dots> = 2" by (simp add: sample_chain_def event_of_def)
  finally show ?thesis using v(1) by blast
qed

lemma paged_events_are_well_typed_witness:
  "\<exists>e bs'. vaultEvents sample_block (\<lambda>v a b. Inr (if a = 3 then [hd (tl sample_chain)] else [])) 1 [] [(sample_address, 1)] 4 = Inr ([e], bs')
    \<and> typed_event e"
proof -
  have l: "lc sample_address = sample_address" by (simp add: sample_address_def lc_def lower_char_def)
  have p: "pages 1 4 1 = [(1, 1), (2, 2), (3, 3), (4, 4)]" by (simp add: pages.simps)
  obtain e bs' where v: "vaultEvents sample_block (\<lambda>v a b. Inr (if a = 3 then [hd (tl sample_chain)] else [])) 1 [] [(sample_address, 1)] 4 = Inr ([e], bs')"
    by (simp add: vaultEvents_def sample_is_address p l sample_chain_def set_of_list_def jadd_def blockInfo_def sample_block_def to_event_def
        ordered_def Let_def)
  show ?thesis using paged_events_are_well_typed [OF v, of 0 1] v by auto
qed

end
