(* ===== verification/Leader_Run.thy ===== *)
theory Leader_Run
  imports Leader_Board Leader_Source
begin

text \<open>
  One epoch of the activity leaderboard, end to end (\<open>packages/activity-leaderboard/src/run.mjs\<close>), over endpoints:
  the chain is pinned, the logs are read and folded, the fold is compared with the chain's own books, and only
  then is a board formed. \<open>filesFor\<close> of \<open>publish.mjs\<close> closes it.
\<close>

section \<open>Readers\<close>

text \<open>
  What \<open>createChainReader\<close> reads from: the client's calls and the paging options. The contract reads take the
  block they are made at.
\<close>

record endpoint =
  en_bound :: "string + unit"
  en_blockNumber :: "string + int"
  en_getBlock :: get_block
  en_getLogs :: get_logs
  en_position :: "string \<Rightarrow> string \<Rightarrow> int \<Rightarrow> string + int \<times> int"
  en_total :: "string \<Rightarrow> int \<Rightarrow> string + int"
  en_creator :: "string \<Rightarrow> string + string"
  en_code :: "string \<Rightarrow> string + string option"
  en_window :: int
  en_confirmations :: int

record run_chain_config =
  rc_chainId :: int
  rc_name :: string
  rc_vaults :: "(string \<times> int) list"
  rc_deployers :: "string list"
  rc_reader :: endpoint
  rc_cross :: "endpoint option"

datatype run_error =
    NoChains
  | ChainWithoutVaults string
  | BadEpoch string
  | EndpointFailed string
  | EndpointBehind string
  | LedgerFailed ledger_error
  | HeadCheckFailed head_error
  | BoardFailed board_error

definition failing :: "('e \<Rightarrow> 'f) \<Rightarrow> 'e + 'a \<Rightarrow> 'f + 'a" where
  "failing f r = (case r of Inl e \<Rightarrow> Inl (f e) | Inr a \<Rightarrow> Inr a)"

lemma failing_Inr [simp]: "failing f r = Inr a \<longleftrightarrow> r = Inr a"
  by (simp add: failing_def split: sum.splits)

lemma failing_simps [simp]: "failing f (Inl e) = Inl (f e)" "failing f (Inr a) = Inr a"
  by (simp_all add: failing_def)

definition creatorOf :: "endpoint \<Rightarrow> string \<Rightarrow> string + string" where
  "creatorOf en vault = bindE (en_creator en vault) (\<lambda>a. Inr (lc a))"

definition codeHash :: "(string \<Rightarrow> string) \<Rightarrow> endpoint \<Rightarrow> string \<Rightarrow> string + string" where
  "codeHash keccak256 en address =
     bindE (en_code en address) (\<lambda>code. Inr (keccak256 (case code of None \<Rightarrow> ''0x'' | Some c \<Rightarrow> c)))"

fun read_all :: "('a \<Rightarrow> 'e + 'b) \<Rightarrow> 'a list \<Rightarrow> 'e + 'b list" where
  "read_all f [] = Inr []"
| "read_all f (x # xs) = bindE (f x) (\<lambda>y. bindE (read_all f xs) (\<lambda>ys. Inr (y # ys)))"

section \<open>The run\<close>

text \<open>The first loop: every endpoint is pinned to its chain before the first read.\<close>

fun bind_chains :: "run_chain_config list \<Rightarrow> string + string list \<times> string list" where
  "bind_chains [] = Inr ([], [])"
| "bind_chains (c # cs) =
     bindE (en_bound (rc_reader c)) (\<lambda>_.
     bindE (case rc_cross c of None \<Rightarrow> Inr () | Some x \<Rightarrow> en_bound x) (\<lambda>_.
     bindE (read_all (\<lambda>v. creatorOf (rc_reader c) (fst v)) (rc_vaults c)) (\<lambda>creators.
     bindE (bind_chains cs) (\<lambda>(restCreators, restDeployers).
       Inr (creators @ restCreators, rc_deployers c @ restDeployers)))))"

record diagnostic =
  dg_chain :: string
  dg_headBlock :: int
  dg_eventsRead :: nat
  dg_positionsChecked :: nat
  dg_vaultsChecked :: nat
  dg_secondEndpoint :: bool

text \<open>The block the epoch is cut at and the second it is integrated to.\<close>

definition cutAt :: "endpoint \<Rightarrow> string \<Rightarrow> bool \<Rightarrow> int \<Rightarrow> int \<Rightarrow> block_info \<Rightarrow> blocks \<Rightarrow> run_error + block_info \<times> int \<times> blocks" where
  "cutAt en name closed start till head blocks =
     (if closed
      then if bi_timestamp head < till then Inl (EndpointBehind name)
        else (case lastBlockBefore (en_getBlock en) blocks till (bi_number head) of
            (Inl e, b) \<Rightarrow> Inl (EndpointFailed e)
          | (Inr toBlock, b) \<Rightarrow> Inr (toBlock, till, b))
      else Inr (head, max start (min till (bi_timestamp head)), blocks))"

text \<open>The body of the second loop, for one chain. Both readers start with an empty block cache.\<close>

definition run_chain :: "(string \<Rightarrow> string) \<Rightarrow> bool \<Rightarrow> int \<Rightarrow> int \<Rightarrow> run_chain_config \<Rightarrow> run_error + chain_input \<times> diagnostic" where
  "run_chain keccak256 closed start till c =
     (let en = rc_reader c; getBlock = en_getBlock en;
          (h, blocks0) = confirmedHead getBlock [] (en_blockNumber en) (en_confirmations en) in
      bindE (failing EndpointFailed h) (\<lambda>head.
      bindE (failing EndpointFailed (vaultEvents getBlock (en_getLogs en) (en_window en) blocks0 (rc_vaults c) (bi_number head)))
        (\<lambda>(events, blocks1).
      bindE (cutAt en (rc_name c) closed start till head blocks1) (\<lambda>(toBlock, windowEnd, blocks2).
      bindE (failing LedgerFailed (reduce events start windowEnd)) (\<lambda>(usdcSeconds, positions).
      let vaultAddresses = map (\<lambda>v. lc (fst v)) (rc_vaults c); blk = bi_number head in
      bindE (failing HeadCheckFailed (assertHeadState vaultAddresses positions (\<lambda>v m. en_position en v m blk) (\<lambda>v. en_total en v blk)))
        (\<lambda>(checked, vaultsChecked).
      bindE (case rc_cross c of
          None \<Rightarrow> Inr ()
        | Some x \<Rightarrow> failing HeadCheckFailed (assertSameChainView
            (bindE (fst (blockInfo getBlock blocks2 blk)) (\<lambda>b. Inr (bi_hash b)))
            (bindE (fst (blockInfo (en_getBlock x) [] blk)) (\<lambda>b. Inr (bi_hash b)))
            (\<lambda>v. en_total en v blk) (\<lambda>v. en_total x v blk) vaultAddresses)) (\<lambda>_.
      bindE (failing EndpointFailed (read_all (\<lambda>a. bindE (codeHash keccak256 en a) (\<lambda>k. Inr (a, k))) (sort (map fst usdcSeconds))))
        (\<lambda>codeHashes.
      Inr (\<lparr> ci_chainId = rc_chainId c, ci_name = rc_name c, ci_vaults = map fst (rc_vaults c),
             ci_fromBlock = Min (set (map snd (rc_vaults c))), ci_toBlock = bi_number toBlock, ci_toBlockHash = bi_hash toBlock,
             ci_integratedUntil = windowEnd, ci_secs = usdcSeconds, ci_hashes = codeHashes \<rparr>,
           \<lparr> dg_chain = rc_name c, dg_headBlock = bi_number head, dg_eventsRead = length events, dg_positionsChecked = checked,
             dg_vaultsChecked = vaultsChecked, dg_secondEndpoint = (rc_cross c \<noteq> None) \<rparr>)))))))))"

definition runEpoch ::
  "(string \<Rightarrow> string) \<Rightarrow> (string \<Rightarrow> string) \<Rightarrow> run_chain_config list \<Rightarrow> int \<Rightarrow> int \<Rightarrow> int \<Rightarrow> string option list option \<Rightarrow> string \<Rightarrow> string
   \<Rightarrow> run_error + (string \<times> cjson) list \<times> diagnostic list" where
  "runEpoch sha256Hex keccak256 cs anchor epochNumber nowSec seededDoc seededSha codeCommit =
     (if cs = [] then Inl NoChains
      else case find (\<lambda>c. rc_vaults c = []) cs of
        Some c \<Rightarrow> Inl (ChainWithoutVaults (rc_name c))
      | None \<Rightarrow>
          bindE (failing BadEpoch (epochBounds anchor epochNumber)) (\<lambda>(start, till).
          let closed = nowSec \<ge> till + SETTLE_SECONDS in
          bindE (failing EndpointFailed (bind_chains cs)) (\<lambda>(creators, deployers).
          bindE (failing BoardFailed (buildTeamSet seededDoc creators deployers)) (\<lambda>team.
          bindE (read_all (run_chain keccak256 closed start till) cs) (\<lambda>results.
          bindE (failing BoardFailed (buildBoard sha256Hex
              \<lparr> ep_number = epochNumber, ep_start = start, ep_end = till, ep_status = (if closed then ''closed'' else ''provisional'') \<rparr>
              codeCommit seededSha team (map fst results))) (\<lambda>board.
            Inr (board, map snd results)))))))"

definition filesFor :: "int \<Rightarrow> string \<Rightarrow> (string \<times> cjson) list \<Rightarrow> (string \<times> string) list option" where
  "filesFor epochNumber status board = map_option (\<lambda>text.
     (''latest.json'', text) # (if status = ''closed'' then [(''epochs/'' @ pad_start 4 (CHR ''0'') (show_int epochNumber) @ ''.json'', text)] else []))
     (boardFileText board)"

section \<open>What a run has checked\<close>

text \<open>The endpoint answers the contract reads at block \<open>b\<close> from the books \<open>w\<close>.\<close>

definition answers_books :: "endpoint \<Rightarrow> int \<Rightarrow> chain_books \<Rightarrow> bool" where
  "answers_books en b w \<longleftrightarrow> (\<forall>v m. en_position en v m b = Inr (cb_book w v m)) \<and> (\<forall>v. en_total en v b = Inr (cb_total w v))"

definition unsigned_log :: "raw_log \<Rightarrow> bool" where
  "unsigned_log l \<longleftrightarrow> (\<forall>m a s. rl_event l = DepositActivated m a s \<longrightarrow> 0 \<le> a)"

text \<open>The amounts of a log are unsigned: the endpoint decodes \<open>uint256\<close> fields.\<close>

definition unsigned_logs :: "get_logs \<Rightarrow> bool" where
  "unsigned_logs gl \<longleftrightarrow> answers_within gl {l. unsigned_log l}"

lemma run_chain_steps:
  assumes "run_chain k closed s t c = Inr (ci, dg)"
  obtains head b0 events b1 til b2 secs positions n where
    "confirmedHead (en_getBlock (rc_reader c)) [] (en_blockNumber (rc_reader c)) (en_confirmations (rc_reader c)) = (Inr head, b0)"
    "vaultEvents (en_getBlock (rc_reader c)) (en_getLogs (rc_reader c)) (en_window (rc_reader c)) b0 (rc_vaults c) (bi_number head) = Inr (events, b1)"
    "cutAt (rc_reader c) (rc_name c) closed s t head b1 = Inr (til, ci_integratedUntil ci, b2)"
    "reduce events s (ci_integratedUntil ci) = Inr (secs, positions)"
    "assertHeadState (map (\<lambda>v. lc (fst v)) (rc_vaults c)) positions (\<lambda>v m. en_position (rc_reader c) v m (bi_number head))
       (\<lambda>v. en_total (rc_reader c) v (bi_number head)) = Inr (dg_positionsChecked dg, n)"
    "n = dg_vaultsChecked dg" "ci_secs ci = secs" "dg_eventsRead dg = length events" "dg_headBlock dg = bi_number head"
    "ci_toBlock ci = bi_number til" "ci_toBlockHash ci = bi_hash til" "map fst (ci_hashes ci) = sort (map fst secs)"
    "ci_chainId ci = rc_chainId c"
proof -
  obtain h b0 where h: "confirmedHead (en_getBlock (rc_reader c)) [] (en_blockNumber (rc_reader c)) (en_confirmations (rc_reader c)) = (h, b0)"
    by fastforce
  have keys: "read_all (\<lambda>a. bindE (f a) (\<lambda>k. Inr (a, k))) xs = Inr ys \<Longrightarrow> map fst ys = xs" for f :: "string \<Rightarrow> string + string" and xs ys
    by (induction xs arbitrary: ys) (auto simp: bindE_Inr)
  show thesis
    using assms that keys unfolding run_chain_def Let_def h
    by (auto simp: bindE_Inr)
qed

lemma vaultEvents_proper:
  assumes "vaultEvents g gl w bs vaults toBlock = Inr (es, bs')" "unsigned_logs gl" "e \<in> set es"
  shows "proper_event e \<and> (\<exists>(a, f) \<in> set vaults. lg_vault e = lc a \<and> f \<le> lg_block e \<and> lg_block e \<le> toBlock)"
proof -
  obtain l where l: "unsigned_log l" "e = event_of (timestamp_of bs') l"
    using vaultEvents_from(1) [OF assms(1) assms(2) [unfolded unsigned_logs_def]] assms(3) by blast
  have t: "typed_event e" "\<exists>(a, f) \<in> set vaults. lg_vault e = lc a \<and> f \<le> lg_block e \<and> lg_block e \<le> toBlock"
    using vaultEvents_typed(3) [OF assms(1,3)] by blast+
  have "0 \<le> x" if "lg_change e = Deposit (Some x) y" for x y
    using l that by (auto simp: event_of_def unsigned_log_def split: raw_event.splits)
  then show ?thesis using t by (simp add: proper_event_def typed_event_def)
qed

lemma run_chain_accounts:
  assumes "run_chain k closed s t c = Inr (ci, dg)" and "unsigned_logs (en_getLogs (rc_reader c))"
    and "answers_books (rc_reader c) (dg_headBlock dg) w" and "chain_ok w"
  shows "\<exists>logs. length logs = dg_eventsRead dg
    \<and> (\<forall>e \<in> set logs. lg_vault e \<in> lc ` fst ` set (rc_vaults c) \<and> lg_block e \<le> dg_headBlock dg)
    \<and> (\<forall>(a, f) \<in> set (rc_vaults c). \<forall>m. cb_book w (lc a) m = book logs (lc a) m)
    \<and> (\<forall>m. jget_or 0 (ci_secs ci) m = cost_seconds logs m s (ci_integratedUntil ci))"
proof (rule run_chain_steps [OF assms(1)])
  fix head b0 events b1 til b2 secs positions n
  assume r:
    "vaultEvents (en_getBlock (rc_reader c)) (en_getLogs (rc_reader c)) (en_window (rc_reader c)) b0 (rc_vaults c) (bi_number head) = Inr (events, b1)"
    "reduce events s (ci_integratedUntil ci) = Inr (secs, positions)"
    "assertHeadState (map (\<lambda>v. lc (fst v)) (rc_vaults c)) positions (\<lambda>v m. en_position (rc_reader c) v m (bi_number head))
       (\<lambda>v. en_total (rc_reader c) v (bi_number head)) = Inr (dg_positionsChecked dg, n)"
    "ci_secs ci = secs" "dg_eventsRead dg = length events" "dg_headBlock dg = bi_number head"
  note p = vaultEvents_proper [OF r(1) assms(2)]
  have pe: "\<forall>e \<in> set events. proper_event e" using p by blast
  have ad: "\<forall>(a, f) \<in> set (rc_vaults c). is_address a"
    by (rule vaultEvents_from(2) [OF r(1) assms(2) [unfolded unsigned_logs_def]])
  have check: "assertHeadState (map (\<lambda>v. lc (fst v)) (rc_vaults c)) positions (\<lambda>v m. Inr (cb_book w v m)) (\<lambda>v. Inr (cb_total w v))
      = Inr (dg_positionsChecked dg, n)"
    using r(3) assms(3) by (simp add: answers_books_def r(6))
  have "cb_book w (lc a) m = book (ordered events) (lc a) m" if "(a, f) \<in> set (rc_vaults c)" for a f m
  proof (rule head_check_sees_every_holder [OF r(2) pe check assms(4)])
    show "lc a \<in> lc ` set (map (\<lambda>v. lc (fst v)) (rc_vaults c))"
      using imageI [OF imageI [OF that, of "\<lambda>v. lc (fst v)"], of lc] by simp
    show "CHR ''|'' \<notin> set (lc a)" using ad that address_no_bar by auto
  qed
  moreover have "jget_or 0 (ci_secs ci) m = cost_seconds (ordered events) m s (ci_integratedUntil ci)" for m
    using ledger_measures_cost_seconds [OF r(2) pe, of "[]" m] by (simp add: r(4))
  moreover have "length (ordered events) = dg_eventsRead dg" using r(5) by (simp add: ordered_def)
  moreover have "lg_vault e \<in> lc ` fst ` set (rc_vaults c) \<and> lg_block e \<le> dg_headBlock dg" if "e \<in> set (ordered events)" for e
    using p [of e] that by (force simp: ledger_order.order_set r(6))
  ultimately show ?thesis by (intro exI [of _ "ordered events"]) blast
qed

text \<open>A chain that a run reports was measured whole. Whatever the endpoint answers for logs, if the run of a chain
  returns, then at its confirmed head the books of every configured vault are, member by member, what the logs it
  read add up to, holders without a log included; and every USDC-seconds figure is the basis of those books
  integrated second by second from the epoch's start to the reported end.\<close>

theorem run_measures_every_holder:
  assumes "run_chain k closed s t c = Inr (ci, dg)" and "unsigned_logs (en_getLogs (rc_reader c))"
    and "answers_books (rc_reader c) (dg_headBlock dg) w" and "chain_ok w"
  shows "\<exists>logs. length logs = dg_eventsRead dg
    \<and> (\<forall>e \<in> set logs. lg_vault e \<in> lc ` fst ` set (rc_vaults c) \<and> lg_block e \<le> dg_headBlock dg)
    \<and> (\<forall>(a, f) \<in> set (rc_vaults c). \<forall>m. cb_book w (lc a) m = book logs (lc a) m)
    \<and> (\<forall>m. jget_or 0 (ci_secs ci) m = cost_seconds logs m s (ci_integratedUntil ci))"
  by (rule run_chain_accounts [OF assms])

section \<open>Where an epoch is cut\<close>

lemma confirmedHead_tells:
  assumes "tells g hash time" "confirmedHead g [] (Inr latest) n = (h, b0)"
  shows "h = Inr (chain_block hash time (max 0 (latest - n))) \<and> cache_ok b0 hash time"
proof -
  have "cache_ok [] hash time" by (simp add: cache_ok_def)
  then show ?thesis using blockInfo_tells [OF assms(1), of "[]" "max 0 (latest - n)"] assms(2) by (auto simp: confirmedHead_def)
qed

lemma vaultEvents_cache:
  assumes "tells g hash time" "cache_ok bs hash time" "vaultEvents g gl w bs vaults toBlock = Inr (es, bs')"
  shows "cache_ok bs' hash time"
proof -
  obtain ns where "read_blocks g bs ns = Inr bs'" by (rule vaultEvents_entries [OF assms(3)])
  then show ?thesis using read_blocks_tells [OF assms(1,2), of ns] by auto
qed

definition clock :: "(int \<Rightarrow> int) \<Rightarrow> int \<Rightarrow> bool" where
  "clock time hi \<longleftrightarrow> (\<forall>i j. 0 \<le> i \<longrightarrow> i \<le> j \<longrightarrow> j \<le> hi \<longrightarrow> time i \<le> time j)"

lemma lastBlockBefore_clock:
  assumes "tells g hash time" "cache_ok bs hash time" "0 \<le> hi" "time 0 < t" "clock time hi"
  shows "\<exists>n. fst (lastBlockBefore g bs t hi) = Inr (chain_block hash time n) \<and> 0 \<le> n \<and> n \<le> hi \<and> time n < t
    \<and> (\<forall>j. n < j \<longrightarrow> j \<le> hi \<longrightarrow> t \<le> time j) \<and> cache_ok (snd (lastBlockBefore g bs t hi)) hash time"
proof (cases "time hi < t")
  case True
  then show ?thesis using assms blockInfo_tells [OF assms(1,2), of hi]
    by (auto simp: lastBlockBefore_def chain_block_def clock_def dest: blockInfo_tells [OF assms(1), of _ hi])
next
  case False
  obtain b1 where b1: "blockInfo g bs hi = (Inr (chain_block hash time hi), b1)" "cache_ok b1 hash time"
    using blockInfo_tells [OF assms(1,2)] by blast
  obtain b2 where b2: "blockInfo g b1 0 = (Inr (chain_block hash time 0), b2)" "cache_ok b2 hash time"
    using blockInfo_tells [OF assms(1) b1(2)] by blast
  have "0 < hi" using False assms(3,4) by (cases "hi = 0") auto
  with search_finds [OF assms(1) b2(2) assms(4), of hi] False obtain n b3 where n:
    "search_before g t b2 0 hi = (Inr (chain_block hash time n), b3)" "0 \<le> n" "n < hi" "time n < t" "t \<le> time (n + 1)"
    "cache_ok b3 hash time" by auto
  have "t \<le> time j" if "n < j" "j \<le> hi" for j
  proof -
    have "time (n + 1) \<le> time j" using assms(5) n(2) that unfolding clock_def by force
    then show ?thesis using n(5) by simp
  qed
  then show ?thesis using n b1(1) b2(1) False assms(4) by (auto simp: lastBlockBefore_def chain_block_def)
qed

text \<open>Where a run stops counting. A closed epoch is integrated exactly to its end and reported at the last block
  before it, and only once the confirmed head has passed the end; an open one is integrated no further than the
  head's clock or its own end, and reported at the head.\<close>

theorem epoch_is_cut_at_its_end:
  assumes "run_chain k closed s t c = Inr (ci, dg)" and "tells (en_getBlock (rc_reader c)) hash time"
    and "clock time (dg_headBlock dg)" and "time 0 < t" and "s \<le> t"
  shows "if closed
    then ci_integratedUntil ci = t \<and> t \<le> time (dg_headBlock dg) \<and> ci_toBlockHash ci = hash (ci_toBlock ci)
      \<and> 0 \<le> ci_toBlock ci \<and> ci_toBlock ci \<le> dg_headBlock dg \<and> time (ci_toBlock ci) < t
      \<and> (\<forall>j. ci_toBlock ci < j \<longrightarrow> j \<le> dg_headBlock dg \<longrightarrow> t \<le> time j)
    else ci_toBlock ci = dg_headBlock dg \<and> s \<le> ci_integratedUntil ci \<and> ci_integratedUntil ci \<le> t
      \<and> ci_integratedUntil ci \<le> max s (time (dg_headBlock dg))"
proof (rule run_chain_steps [OF assms(1)])
  fix head b0 events b1 til b2 secs positions n
  assume r: "confirmedHead (en_getBlock (rc_reader c)) [] (en_blockNumber (rc_reader c)) (en_confirmations (rc_reader c)) = (Inr head, b0)"
    "vaultEvents (en_getBlock (rc_reader c)) (en_getLogs (rc_reader c)) (en_window (rc_reader c)) b0 (rc_vaults c) (bi_number head) = Inr (events, b1)"
    "cutAt (rc_reader c) (rc_name c) closed s t head b1 = Inr (til, ci_integratedUntil ci, b2)"
    "dg_headBlock dg = bi_number head" "ci_toBlock ci = bi_number til" "ci_toBlockHash ci = bi_hash til"
  obtain latest where l: "en_blockNumber (rc_reader c) = Inr latest" using r(1) by (cases "en_blockNumber (rc_reader c)") (auto simp: confirmedHead_def)
  define hd where "hd = max 0 (latest - en_confirmations (rc_reader c))"
  have head: "head = chain_block hash time hd" "cache_ok b0 hash time"
    using confirmedHead_tells [OF assms(2), of latest] r(1) unfolding l hd_def by auto
  have b1: "cache_ok b1 hash time" by (rule vaultEvents_cache [OF assms(2) head(2) r(2)])
  have h: "bi_number head = hd" "bi_timestamp head = time hd" "0 \<le> hd" by (simp_all add: head(1) chain_block_def hd_def)
  show ?thesis
  proof (cases closed)
    case True
    have "clock time hd" using assms(3) r(4) h by simp
    from lastBlockBefore_clock [OF assms(2) b1 h(3) assms(4) this] obtain n where
      n: "fst (lastBlockBefore (en_getBlock (rc_reader c)) b1 t hd) = Inr (chain_block hash time n)" "0 \<le> n" "n \<le> hd" "time n < t"
      "\<forall>j. n < j \<longrightarrow> j \<le> hd \<longrightarrow> t \<le> time j" by blast
    have "til = chain_block hash time n \<and> ci_integratedUntil ci = t \<and> t \<le> time hd"
      using r(3) n(1) True h by (auto simp: cutAt_def split: if_splits sum.splits prod.splits)
    then show ?thesis using True r(4-6) n h by (simp add: chain_block_def)
  next
    case False
    then show ?thesis using r(3-5) assms(5) h by (auto simp: cutAt_def)
  qed
qed

section \<open>An honest endpoint is measured\<close>

definition confirmed :: "endpoint \<Rightarrow> int \<Rightarrow> int" where
  "confirmed en latest = max 0 (latest - en_confirmations en)"

text \<open>
  An endpoint that tells its chain's blocks and logs and the contract's own books at the confirmed head; a second
  one that tells the same block hash and totals.
\<close>

definition honest :: "endpoint \<Rightarrow> (int \<Rightarrow> string) \<Rightarrow> (int \<Rightarrow> int) \<Rightarrow> raw_log list \<Rightarrow> int \<Rightarrow> chain_books \<Rightarrow> bool" where
  "honest en hash time chain latest w \<longleftrightarrow>
     en_blockNumber en = Inr latest \<and> tells (en_getBlock en) hash time \<and> serves (en_getLogs en) chain \<and> 1 \<le> en_window en
     \<and> answers_books en (confirmed en latest) w \<and> (\<forall>a. \<exists>code. en_code en a = Inr code)"

definition agrees :: "endpoint \<Rightarrow> (int \<Rightarrow> string) \<Rightarrow> (int \<Rightarrow> int) \<Rightarrow> int \<Rightarrow> chain_books \<Rightarrow> bool" where
  "agrees x hash time b w \<longleftrightarrow> tells (en_getBlock x) hash time \<and> (\<forall>v. en_total x v b = Inr (cb_total w v))"

lemma read_all_total: "(\<And>x. x \<in> set xs \<Longrightarrow> \<exists>y. f x = Inr y) \<Longrightarrow> \<exists>ys. read_all f xs = Inr ys"
  by (induction xs) fastforce+

lemma same_view: "assertSameChainView (Inr h) (Inr h) (\<lambda>v. Inr (f v)) (\<lambda>v. Inr (f v)) vs = Inr ()"
  by (simp add: assertSameChainView_def)

lemma honest_chain_returns:
  assumes "honest (rc_reader c) hash time chain latest w"
    and "rc_cross c = None \<or> (\<exists>x. rc_cross c = Some x \<and> agrees x hash time (confirmed (rc_reader c) latest) w)"
    and "rc_vaults c \<noteq> []" and "\<forall>(a, f) \<in> set (rc_vaults c). is_address a"
    and "sol_history sol_empty ops = Some (w, logs)" and "chain_order_ok logs"
    and "set logs = event_of time ` {l \<in> set chain. asked_for (rc_vaults c) (confirmed (rc_reader c) latest) l}"
    and "\<forall>l \<in> set chain. asked_for (rc_vaults c) (confirmed (rc_reader c) latest) l \<longrightarrow> expected l"
    and "safe_integer s" "safe_integer t" "s \<le> t"
    and "closed \<longrightarrow> t \<le> time (confirmed (rc_reader c) latest) \<and> time 0 < t" and "clock time (confirmed (rc_reader c) latest)"
  shows "\<exists>ci dg. run_chain k closed s t c = Inr (ci, dg) \<and> dg_eventsRead dg = length logs \<and> dg_headBlock dg = confirmed (rc_reader c) latest"
proof -
  let ?en = "rc_reader c" let ?h = "confirmed (rc_reader c) latest"
  let ?g = "en_getBlock ?en" let ?vs = "map (\<lambda>v. lc (fst v)) (rc_vaults c)"
  have en: "en_blockNumber ?en = Inr latest" "tells ?g hash time" "serves (en_getLogs ?en) chain" "1 \<le> en_window ?en"
    "answers_books ?en ?h w" "\<forall>a. \<exists>code. en_code ?en a = Inr code" using assms(1) by (simp_all add: honest_def)
  obtain hx b0 where ch: "confirmedHead ?g [] (en_blockNumber ?en) (en_confirmations ?en) = (hx, b0)" by fastforce
  have hx: "hx = Inr (chain_block hash time ?h)" and b0: "cache_ok b0 hash time"
    using confirmedHead_tells [OF en(2), of latest] ch by (auto simp: en(1) confirmed_def)
  obtain events b1 where ev: "vaultEvents ?g (en_getLogs ?en) (en_window ?en) b0 (rc_vaults c) ?h = Inr (events, b1)"
    and de: "distinct events" and se: "set events = set logs"
    using every_log_is_read_once [OF en(3) en(2) b0 en(4) assms(4,8)] assms(7) by auto
  have dl: "distinct logs"
    using assms(6) by (auto simp: chain_order_ok_def distinct_conv_nth sorted_wrt_iff_nth_less) (metis linorder_neqE_nat order_less_irrefl)
  have ms: "mset events = mset logs" using de dl se by (simp add: set_eq_iff_mset_eq_distinct)
  have b1: "cache_ok b1 hash time" by (rule vaultEvents_cache [OF en(2) b0 ev])
  have hn: "bi_number (chain_block hash time ?h) = ?h" "bi_timestamp (chain_block hash time ?h) = time ?h" "0 \<le> ?h"
    by (simp_all add: chain_block_def confirmed_def)
  obtain til e b2 where cu: "cutAt ?en (rc_name c) closed s t (chain_block hash time ?h) b1 = Inr (til, e, b2)"
    and e: "s \<le> e" "e \<le> t" and b2: "cache_ok b2 hash time"
  proof (cases closed)
    case True
    obtain n where "fst (lastBlockBefore ?g b1 t ?h) = Inr (chain_block hash time n)" "cache_ok (snd (lastBlockBefore ?g b1 t ?h)) hash time"
      using lastBlockBefore_clock [OF en(2) b1 hn(3) _ assms(13)] assms(12) True by blast
    then show thesis using that assms(11,12) True hn by (cases "lastBlockBefore ?g b1 t ?h") (auto simp: cutAt_def)
  next
    case False
    then show thesis using that b1 assms(11) hn by (auto simp: cutAt_def)
  qed
  have se: "safe_integer e" using e assms(9,10) by (auto simp: safe_integer_def)
  have lv: "\<forall>x \<in> set logs. lg_vault x \<in> lc ` set ?vs"
  proof
    fix x assume "x \<in> set logs"
    then have "x \<in> set events" using \<open>set events = set logs\<close> by simp
    from vaultEvents_typed(3) [OF ev this] obtain a f where "(a, f) \<in> set (rc_vaults c)" "lg_vault x = lc a" by blast
    then show "lg_vault x \<in> lc ` set ?vs" using imageI [OF imageI [of "(a, f)" _ "\<lambda>v. lc (fst v)"], of _ lc] by simp
  qed
  have bar: "\<forall>v \<in> set ?vs. CHR ''|'' \<notin> set (lc v)" using assms(4) address_no_bar by auto
  obtain secs positions n m where red: "reduce events s e = Inr (secs, positions)"
    and hc: "assertHeadState ?vs positions (\<lambda>v m. Inr (cb_book w v m)) (\<lambda>v. Inr (cb_total w v)) = Inr (n, m)"
    using complete_log_passes_the_head_check [OF assms(5,6) ms lv bar _ assms(9) se e(1)] assms(3) by auto
  have hc': "assertHeadState ?vs positions (\<lambda>v m. en_position ?en v m ?h) (\<lambda>v. en_total ?en v ?h) = Inr (n, m)"
    using hc en(5) by (simp add: answers_books_def)
  have "\<exists>ys. read_all (\<lambda>a. bindE (codeHash k ?en a) (\<lambda>k. Inr (a, k))) (sort (map fst secs)) = Inr ys"
  proof (rule read_all_total)
    fix a
    obtain code where "en_code ?en a = Inr code" using en(6) by blast
    then show "\<exists>y. bindE (codeHash k ?en a) (\<lambda>k. Inr (a, k)) = Inr y" by (simp add: codeHash_def)
  qed
  then obtain hashes where co: "read_all (\<lambda>a. bindE (codeHash k ?en a) (\<lambda>k. Inr (a, k))) (sort (map fst secs)) = Inr hashes" by blast
  have cross: "(case rc_cross c of None \<Rightarrow> Inr () | Some x \<Rightarrow> failing HeadCheckFailed (assertSameChainView
            (bindE (fst (blockInfo ?g b2 ?h)) (\<lambda>b. Inr (bi_hash b))) (bindE (fst (blockInfo (en_getBlock x) [] ?h)) (\<lambda>b. Inr (bi_hash b)))
            (\<lambda>v. en_total ?en v ?h) (\<lambda>v. en_total x v ?h) ?vs)) = Inr ()"
  proof (cases "rc_cross c")
    case (Some x)
    then have x: "tells (en_getBlock x) hash time" "\<forall>v. en_total x v ?h = Inr (cb_total w v)" using assms(2) by (auto simp: agrees_def)
    have "cache_ok [] hash time" by (simp add: cache_ok_def)
    then have "fst (blockInfo (en_getBlock x) [] ?h) = Inr (chain_block hash time ?h)" using blockInfo_tells [OF x(1), of "[]" ?h] by auto
    moreover have "fst (blockInfo ?g b2 ?h) = Inr (chain_block hash time ?h)" using blockInfo_tells [OF en(2) b2, of ?h] by auto
    ultimately show ?thesis using Some x(2) en(5) same_view by (simp add: answers_books_def)
  qed simp
  have "length events = length logs" using ms by (rule mset_eq_length)
  then show ?thesis
    unfolding run_chain_def Let_def ch hx prod.case failing_simps bindE_simps hn(1) ev cu red hc' co cross by simp
qed

text \<open>C17. An honest chain is measured. Take any history of deposits and exits that the contract accepted, its logs in
  chain order and served by the endpoint whatever the paging: the run of that chain returns, whether the epoch
  is open or closed, with or without a second endpoint.\<close>

theorem honest_chain_is_measured:
  assumes "honest (rc_reader c) hash time chain latest w"
    and "rc_cross c = None \<or> (\<exists>x. rc_cross c = Some x \<and> agrees x hash time (confirmed (rc_reader c) latest) w)"
    and "rc_vaults c \<noteq> []" and "\<forall>(a, f) \<in> set (rc_vaults c). is_address a"
    and "sol_history sol_empty ops = Some (w, logs)" and "chain_order_ok logs"
    and "set logs = event_of time ` {l \<in> set chain. asked_for (rc_vaults c) (confirmed (rc_reader c) latest) l}"
    and "\<forall>l \<in> set chain. asked_for (rc_vaults c) (confirmed (rc_reader c) latest) l \<longrightarrow> expected l"
    and "safe_integer s" "safe_integer t" "s \<le> t"
    and "closed \<longrightarrow> t \<le> time (confirmed (rc_reader c) latest) \<and> time 0 < t" and "clock time (confirmed (rc_reader c) latest)"
  shows "\<exists>ci dg. run_chain k closed s t c = Inr (ci, dg) \<and> dg_eventsRead dg = length logs"
  using honest_chain_returns [OF assms] by blast

section \<open>A concrete chain\<close>

definition sample_history :: "sol_op list" where
  "sample_history =
     [ \<lparr> so_call = Minted 100 100, so_vault = sample_address, so_member = ''0xb'', so_block = 3, so_log = 0, so_time = 30 \<rparr>,
       \<lparr> so_call = Settled 40, so_vault = sample_address, so_member = ''0xb'', so_block = 7, so_log = 1, so_time = 70 \<rparr> ]"

definition sample_books :: chain_books where
  "sample_books = fst (the (sol_history sol_empty sample_history))"

definition sample_reader :: endpoint where
  "sample_reader = \<lparr> en_bound = Inr (), en_blockNumber = Inr 20, en_getBlock = sample_block, en_getLogs = sample_logs,
     en_position = (\<lambda>v m b. Inr (cb_book sample_books v m)), en_total = (\<lambda>v b. Inr (cb_total sample_books v)),
     en_creator = (\<lambda>v. Inr sample_address), en_code = (\<lambda>a. Inr None), en_window = 5, en_confirmations = 0 \<rparr>"

definition sample_config :: run_chain_config where
  "sample_config = \<lparr> rc_chainId = 5042, rc_name = ''arc'', rc_vaults = [(sample_address, 1)], rc_deployers = [], rc_reader = sample_reader,
     rc_cross = Some sample_reader \<rparr>"

lemma sample_honest: "honest sample_reader (\<lambda>_. ''0xh'') (\<lambda>n. 10 * n) sample_chain 20 sample_books" "confirmed sample_reader 20 = 20"
  using sample_endpoint by (simp_all add: honest_def confirmed_def sample_reader_def answers_books_def)

lemma sample_history_logs:
  "sol_history sol_empty sample_history = Some (sample_books, map (event_of (\<lambda>n. 10 * n)) (rev sample_chain))"
proof -
  have l: "lc sample_address = sample_address" by (simp add: sample_address_def lc_def lower_char_def)
  have l2: "lc ''0xB'' = ''0xb''" by code_simp
  have "\<exists>w. sol_history sol_empty sample_history = Some (w, map (event_of (\<lambda>n. 10 * n)) (rev sample_chain))"
    by (simp add: sample_history_def sol_emit_def sol_empty_def sample_chain_def event_of_def l l2 Let_def)
  then show ?thesis by (auto simp: sample_books_def)
qed

lemma sample_asked: "{l \<in> set sample_chain. asked_for [(sample_address, 1)] 20 l} = set sample_chain"
  by (auto simp: sample_chain_def asked_for_def sample_is_address)

lemma sample_chain_run: "\<exists>ci dg. run_chain (\<lambda>c. c) True 0 200 sample_config = Inr (ci, dg) \<and> dg_eventsRead dg = 2 \<and> dg_headBlock dg = 20"
proof -
  have "\<exists>ci dg. run_chain (\<lambda>c. c) True 0 200 sample_config = Inr (ci, dg)
     \<and> dg_eventsRead dg = length (map (event_of (\<lambda>n. 10 * n)) (rev sample_chain)) \<and> dg_headBlock dg = confirmed (rc_reader sample_config) 20"
  proof (rule honest_chain_returns [where hash = "\<lambda>_. ''0xh''" and time = "\<lambda>n. 10 * n", OF _ _ _ _ sample_history_logs])
    show "honest (rc_reader sample_config) (\<lambda>_. ''0xh'') (\<lambda>n. 10 * n) sample_chain 20 sample_books"
      using sample_honest by (simp add: sample_config_def)
    show "rc_cross sample_config = None \<or> (\<exists>x. rc_cross sample_config = Some x
        \<and> agrees x (\<lambda>_. ''0xh'') (\<lambda>n. 10 * n) (confirmed (rc_reader sample_config) 20) sample_books)"
      using sample_endpoint(2) by (simp add: sample_config_def agrees_def sample_reader_def)
    show "chain_order_ok (map (event_of (\<lambda>n. 10 * n)) (rev sample_chain))"
      by (simp add: chain_order_ok_def sample_chain_def event_of_def ledger_pos_def)
    show "set (map (event_of (\<lambda>n. 10 * n)) (rev sample_chain))
        = event_of (\<lambda>n. 10 * n) ` {l \<in> set sample_chain. asked_for (rc_vaults sample_config) (confirmed (rc_reader sample_config) 20) l}"
      using sample_honest(2) by (simp add: sample_config_def sample_asked)
  qed (use sample_is_address sample_honest(2) in \<open>simp_all add: sample_config_def sample_chain_def expected_def safe_integer_def clock_def\<close>)
  then show ?thesis using sample_honest(2) by (simp add: sample_config_def sample_chain_def numeral_2_eq_2)
qed

lemma sample_unsigned: "unsigned_logs (en_getLogs (rc_reader sample_config))"
  by (auto simp: unsigned_logs_def answers_within_def sample_config_def sample_reader_def sample_logs_def sample_chain_def unsigned_log_def)

lemma sample_chain_ok: "chain_ok sample_books"
proof (rule sol_history_chain_ok [OF sample_history_logs])
  have "lc sample_address = sample_address" by (simp add: sample_address_def lc_def lower_char_def)
  then show "\<forall>e \<in> set (map (event_of (\<lambda>n. 10 * n)) (rev sample_chain)). CHR ''|'' \<notin> set (lg_vault e)"
    using address_no_bar [OF sample_is_address] by (simp add: sample_chain_def event_of_def)
qed

lemma run_measures_every_holder_witness:
  "\<exists>ci dg logs. run_chain (\<lambda>c. c) True 0 200 sample_config = Inr (ci, dg) \<and> length logs = 2
     \<and> cb_book sample_books (lc sample_address) ''0xb'' = book logs (lc sample_address) ''0xb''"
proof -
  obtain ci dg where r: "run_chain (\<lambda>c. c) True 0 200 sample_config = Inr (ci, dg)" "dg_eventsRead dg = 2" using sample_chain_run by blast
  have "answers_books (rc_reader sample_config) (dg_headBlock dg) sample_books"
    by (simp add: answers_books_def sample_config_def sample_reader_def)
  from run_measures_every_holder [OF r(1) sample_unsigned this sample_chain_ok] r show ?thesis
    by (auto simp: sample_config_def)
qed

lemma epoch_is_cut_at_its_end_witness:
  "\<exists>ci dg. run_chain (\<lambda>c. c) True 0 200 sample_config = Inr (ci, dg) \<and> ci_integratedUntil ci = 200 \<and> ci_toBlock ci = 19"
proof -
  obtain ci dg where r: "run_chain (\<lambda>c. c) True 0 200 sample_config = Inr (ci, dg)" "dg_headBlock dg = 20" using sample_chain_run by blast
  have "tells (en_getBlock (rc_reader sample_config)) (\<lambda>_. ''0xh'') (\<lambda>n. 10 * n)"
    using sample_endpoint(2) by (simp add: sample_config_def sample_reader_def)
  from epoch_is_cut_at_its_end [OF r(1) this] r(2)
  have e: "ci_integratedUntil ci = 200" "10 * ci_toBlock ci < 200" "\<forall>j. ci_toBlock ci < j \<longrightarrow> j \<le> 20 \<longrightarrow> 200 \<le> 10 * j"
    by (simp_all add: clock_def)
  have "ci_toBlock ci = 19" using e(2) e(3) [rule_format, of "ci_toBlock ci + 1"] by simp
  then show ?thesis using r(1) e(1) by blast
qed

lemma honest_chain_is_measured_witness:
  "\<exists>ci dg. run_chain (\<lambda>c. c) False 0 100 sample_config = Inr (ci, dg) \<and> dg_eventsRead dg = 2"
proof -
  have "\<exists>ci dg. run_chain (\<lambda>c. c) False 0 100 sample_config = Inr (ci, dg)
     \<and> dg_eventsRead dg = length (map (event_of (\<lambda>n. 10 * n)) (rev sample_chain))"
  proof (rule honest_chain_is_measured [where hash = "\<lambda>_. ''0xh''" and time = "\<lambda>n. 10 * n" and latest = 20, OF _ _ _ _ sample_history_logs])
    show "honest (rc_reader sample_config) (\<lambda>_. ''0xh'') (\<lambda>n. 10 * n) sample_chain 20 sample_books"
      using sample_honest by (simp add: sample_config_def)
    show "rc_cross sample_config = None \<or> (\<exists>x. rc_cross sample_config = Some x
        \<and> agrees x (\<lambda>_. ''0xh'') (\<lambda>n. 10 * n) (confirmed (rc_reader sample_config) 20) sample_books)"
      using sample_endpoint(2) by (simp add: sample_config_def agrees_def sample_reader_def)
    show "chain_order_ok (map (event_of (\<lambda>n. 10 * n)) (rev sample_chain))"
      by (simp add: chain_order_ok_def sample_chain_def event_of_def ledger_pos_def)
    show "set (map (event_of (\<lambda>n. 10 * n)) (rev sample_chain))
        = event_of (\<lambda>n. 10 * n) ` {l \<in> set sample_chain. asked_for (rc_vaults sample_config) (confirmed (rc_reader sample_config) 20) l}"
      using sample_honest(2) by (simp add: sample_config_def sample_asked)
  qed (use sample_is_address sample_honest(2) in \<open>simp_all add: sample_config_def sample_chain_def expected_def safe_integer_def clock_def\<close>)
  then show ?thesis by (simp add: sample_chain_def numeral_2_eq_2)
qed

section \<open>The published board\<close>

lemma read_all_Inr: "read_all f xs = Inr ys \<longleftrightarrow> list_all2 (\<lambda>x y. f x = Inr y) xs ys"
proof (induction xs arbitrary: ys)
  case (Cons x xs)
  then show ?case by (cases ys) (auto simp: bindE_Inr)
qed (auto simp: list_all2_Nil)

lemma buildBoard_chains:
  assumes "buildBoard sha e c s team cs = Inr board"
  shows "\<exists>entries. map_of board ''chains'' = Some (CArray entries) \<and> set entries = chain_json team ` set cs"
  using assms by (auto simp: buildBoard_def board_body_def bindE_Inr Let_def simp del: canonicalJson.simps split: option.splits)



end
