(* ===== verification/Vault_Core.thy ===== *)
theory Vault_Core
  imports Deposit_Preview Web_Governance
begin

text \<open>
  What a vault does with a member's calls: \<open>deposit\<close>, \<open>activate\<close>, \<open>cancelPending\<close>, \<open>skipWindow\<close>,
  \<open>requestExit\<close> and \<open>settleQueuedExit\<close> of \<open>contracts/src/VaultCore.sol\<close>, guard by guard, as the
  specification the web app's verdicts are compared with. It is a machine over the books of the vault:
  shares, escrowed deposits, queued exits and the two permanent flags of a member.

  What a call reads from outside is its environment: the time, \<open>navWad()\<close> (\<open>None\<close> when it reverts
  \<open>StaleOracle\<close>), whether governance has a pending execution, and how the payout of an exit is priced.
  Payouts, fees and cost bases are the subject of theory Exit_Preview.
\<close>

section \<open>State, environment, calls\<close>

record vault_params =
  vp_creator :: string
  vp_minDeposit :: int
  vp_cap :: int

datatype payout_read = PayoutPriced | PayoutStale | PayoutNeedsChildren

record vault_env =
  ve_now :: int
  ve_nav :: "int option"
  ve_pendingExecution :: bool
  ve_payout :: payout_read

record vault_books =
  vb_shares :: "string \<Rightarrow> int"
  vb_pending :: "string \<Rightarrow> int"
  vb_availableAt :: "string \<Rightarrow> int"
  vb_queued :: "string \<Rightarrow> int"
  vb_cleared :: "string \<Rightarrow> bool"
  vb_skip :: "string \<Rightarrow> bool"
  vb_totalShares :: int
  vb_totalPending :: int
  vb_totalQueued :: int
  vb_nonCreator :: int

datatype revert =
    RvZeroAmount | RvBelowMinDeposit | RvStaleOracle | RvCapacityExceeded | RvTransferFailed | RvDivisionByZero
  | RvSlippage | RvPendingExists | RvNoPending | RvWindowNotElapsed | RvAlreadyOptedIn | RvExitAlreadyQueued
  | RvInsufficientShares | RvCreatorStakeGate | RvPositionBelowFloor | RvNoQueuedExit | RvExecutionStillPending
  | RvExitNeedsChildSettlement

text \<open>A deposit carries the amount asked for, the receipt the token transfer gives, and the least mint accepted.\<close>

datatype vault_call =
    CDeposit int "int option" int
  | CActivate string
  | CCancel
  | CSkip
  | CRequestExit int
  | CSettle string

definition OBSERVATION_WINDOW :: int where "OBSERVATION_WINDOW = 4 * 3600"
definition MIN_POSITION_SHARES :: int where "MIN_POSITION_SHARES = 10 ^ 18"
definition CREATOR_MIN_STAKE :: int where "CREATOR_MIN_STAKE = 500"

section \<open>The calls\<close>

definition sol_mint :: "vault_params \<Rightarrow> vault_env \<Rightarrow> string \<Rightarrow> int \<Rightarrow> vault_books \<Rightarrow> revert + (vault_books \<times> int)" where
  "sol_mint p e m amount v =
     (let amountWad = amount * USDC_SCALAR; ts = vb_totalShares v;
          done = (\<lambda>minted. if minted \<le> 0 then Inl RvZeroAmount
            else Inr (v\<lparr>vb_nonCreator := (if vb_shares v m = 0 \<and> m \<noteq> vp_creator p then vb_nonCreator v + 1 else vb_nonCreator v),
                        vb_shares := (vb_shares v)(m := vb_shares v m + minted),
                        vb_totalShares := ts + minted\<rparr>, minted))
      in if ts = 0 then done amountWad
         else case ve_nav e of
             None \<Rightarrow> Inl RvStaleOracle
           | Some nav \<Rightarrow> if nav = 0 then Inl RvDivisionByZero else done (amountWad * ts div nav))"

definition sol_activatePending :: "vault_params \<Rightarrow> vault_env \<Rightarrow> string \<Rightarrow> int \<Rightarrow> vault_books \<Rightarrow> revert + vault_books" where
  "sol_activatePending p e m amount v =
     map_sum id fst (sol_mint p e m amount
       (v\<lparr>vb_pending := (vb_pending v)(m := 0), vb_availableAt := (vb_availableAt v)(m := 0),
          vb_totalPending := vb_totalPending v - amount, vb_cleared := (vb_cleared v)(m := True)\<rparr>))"

definition sol_depositCall ::
  "vault_params \<Rightarrow> vault_env \<Rightarrow> string \<Rightarrow> int \<Rightarrow> int option \<Rightarrow> int \<Rightarrow> vault_books \<Rightarrow> revert + vault_books" where
  "sol_depositCall p e m amount receipt minOut v =
     (if amount \<le> 0 then Inl RvZeroAmount
      else if amount < vp_minDeposit p then Inl RvBelowMinDeposit
      else case ve_nav e of
          None \<Rightarrow> Inl RvStaleOracle
        | Some nav \<Rightarrow>
            if vp_cap p \<noteq> 0 \<and> \<not> nav div USDC_SCALAR + vb_totalPending v + amount \<le> vp_cap p then Inl RvCapacityExceeded
            else (case receipt of
                None \<Rightarrow> Inl RvTransferFailed
              | Some received \<Rightarrow>
                  if received < vp_minDeposit p then Inl RvBelowMinDeposit
                  else if vb_cleared v m \<or> vb_shares v m > 0 then
                    (case sol_mint p e m received v of
                        Inl r \<Rightarrow> Inl r
                      | Inr (v', minted) \<Rightarrow> if minted < minOut then Inl RvSlippage else Inr v')
                  else if vb_pending v m \<noteq> 0 then Inl RvPendingExists
                  else Inr (v\<lparr>vb_pending := (vb_pending v)(m := received),
                              vb_availableAt := (vb_availableAt v)(m := ve_now e + OBSERVATION_WINDOW),
                              vb_totalPending := vb_totalPending v + received\<rparr>)))"

definition creator_gate :: "vault_params \<Rightarrow> string \<Rightarrow> int \<Rightarrow> vault_books \<Rightarrow> bool" where
  "creator_gate p m burn v \<longleftrightarrow>
     (m = vp_creator p \<and> vb_nonCreator v > 0 \<longrightarrow>
        (vb_shares v m - burn) * FEE_BPS \<ge> CREATOR_MIN_STAKE * (vb_totalShares v - burn))"

definition position_floor :: "int \<Rightarrow> bool" where
  "position_floor remaining \<longleftrightarrow> remaining = 0 \<or> remaining \<ge> MIN_POSITION_SHARES"

definition sol_settleExit :: "vault_params \<Rightarrow> vault_env \<Rightarrow> string \<Rightarrow> int \<Rightarrow> bool \<Rightarrow> vault_books \<Rightarrow> revert + vault_books" where
  "sol_settleExit p e m burn fromQueue v =
     (let held = vb_shares v m in
      if held < burn then Inl RvInsufficientShares
      else if \<not> fromQueue \<and> \<not> creator_gate p m burn v then Inl RvCreatorStakeGate
      else if \<not> fromQueue \<and> \<not> position_floor (held - burn) then Inl RvPositionBelowFloor
      else (case ve_payout e of
          PayoutStale \<Rightarrow> Inl RvStaleOracle
        | PayoutNeedsChildren \<Rightarrow> Inl RvExitNeedsChildSettlement
        | PayoutPriced \<Rightarrow>
            Inr (v\<lparr>vb_shares := (vb_shares v)(m := held - burn),
                   vb_totalShares := vb_totalShares v - burn,
                   vb_nonCreator := (if held - burn = 0 \<and> held > 0 \<and> m \<noteq> vp_creator p
                                     then vb_nonCreator v - 1 else vb_nonCreator v)\<rparr>)))"

fun vault_exec :: "vault_params \<Rightarrow> vault_env \<Rightarrow> string \<Rightarrow> vault_call \<Rightarrow> vault_books \<Rightarrow> revert + vault_books" where
  "vault_exec p e sender (CDeposit amount receipt minOut) v = sol_depositCall p e sender amount receipt minOut v"
| "vault_exec p e sender (CActivate m) v =
     (if vb_pending v m \<le> 0 then Inl RvNoPending
      else if ve_now e < vb_availableAt v m then Inl RvWindowNotElapsed
      else sol_activatePending p e m (vb_pending v m) v)"
| "vault_exec p e sender CCancel v =
     (if vb_pending v sender \<le> 0 then Inl RvNoPending
      else Inr (v\<lparr>vb_pending := (vb_pending v)(sender := 0), vb_availableAt := (vb_availableAt v)(sender := 0),
                  vb_totalPending := vb_totalPending v - vb_pending v sender\<rparr>))"
| "vault_exec p e sender CSkip v =
     (if vb_skip v sender then Inl RvAlreadyOptedIn
      else let v' = v\<lparr>vb_skip := (vb_skip v)(sender := True), vb_cleared := (vb_cleared v)(sender := True)\<rparr>;
               amount = vb_pending v' sender
           in if amount > 0 then sol_activatePending p e sender amount v' else Inr v')"
| "vault_exec p e sender (CRequestExit burn) v =
     (if burn \<le> 0 then Inl RvZeroAmount
      else if vb_queued v sender \<noteq> 0 then Inl RvExitAlreadyQueued
      else if vb_shares v sender < burn then Inl RvInsufficientShares
      else if ve_pendingExecution e then
        (if \<not> creator_gate p sender burn v then Inl RvCreatorStakeGate
         else if \<not> position_floor (vb_shares v sender - burn) then Inl RvPositionBelowFloor
         else Inr (v\<lparr>vb_queued := (vb_queued v)(sender := burn), vb_totalQueued := vb_totalQueued v + burn\<rparr>))
      else sol_settleExit p e sender burn False v)"
| "vault_exec p e sender (CSettle m) v =
     (let shares = vb_queued v m in
      if shares \<le> 0 then Inl RvNoQueuedExit
      else if ve_pendingExecution e then Inl RvExecutionStillPending
      else sol_settleExit p e m shares True (v\<lparr>vb_queued := (vb_queued v)(m := 0), vb_totalQueued := vb_totalQueued v - shares\<rparr>))"

section \<open>Reachable books\<close>

definition fresh_books :: vault_books where
  "fresh_books = \<lparr> vb_shares = (\<lambda>_. 0), vb_pending = (\<lambda>_. 0), vb_availableAt = (\<lambda>_. 0), vb_queued = (\<lambda>_. 0),
     vb_cleared = (\<lambda>_. False), vb_skip = (\<lambda>_. False), vb_totalShares = 0, vb_totalPending = 0, vb_totalQueued = 0,
     vb_nonCreator = 0 \<rparr>"

text \<open>
  The constructor wants a positive minimum deposit. A reverted call leaves the books as they were, so
  only calls that return are steps.
\<close>

inductive vault_reachable :: "vault_params \<Rightarrow> vault_books \<Rightarrow> bool" for p where
  fresh: "0 < vp_minDeposit p \<Longrightarrow> vault_reachable p fresh_books"
| call: "vault_reachable p v \<Longrightarrow> vault_exec p e sender c v = Inr v' \<Longrightarrow> vault_reachable p v'"

text \<open>The books of one member: what is pending, held, queued and opted into excludes and implies what.\<close>

definition member_ok :: "vault_books \<Rightarrow> string \<Rightarrow> bool" where
  "member_ok v m \<longleftrightarrow> 0 \<le> vb_pending v m \<and> 0 \<le> vb_shares v m \<and> 0 \<le> vb_queued v m \<and> vb_queued v m \<le> vb_shares v m
     \<and> (vb_pending v m > 0 \<longrightarrow> vb_shares v m = 0 \<and> \<not> vb_cleared v m)
     \<and> (vb_shares v m > 0 \<longrightarrow> vb_cleared v m) \<and> (vb_skip v m \<longrightarrow> vb_cleared v m)"

text \<open>A total is the sum of a ledger with finitely many entries.\<close>

definition totals_to :: "(string \<Rightarrow> int) \<Rightarrow> int \<Rightarrow> bool" where
  "totals_to f t \<longleftrightarrow> (\<exists>A. finite A \<and> (\<forall>m. m \<notin> A \<longrightarrow> f m = 0) \<and> sum f A = t)"

abbreviation heads :: "vault_params \<Rightarrow> vault_books \<Rightarrow> string \<Rightarrow> int" where
  "heads p v \<equiv> (\<lambda>m. if vb_shares v m > 0 \<and> m \<noteq> vp_creator p then 1 else 0)"

definition books_ok :: "vault_params \<Rightarrow> vault_books \<Rightarrow> bool" where
  "books_ok p v \<longleftrightarrow> (\<forall>m. member_ok v m) \<and> totals_to (vb_shares v) (vb_totalShares v)
     \<and> totals_to (vb_pending v) (vb_totalPending v) \<and> totals_to (vb_queued v) (vb_totalQueued v)
     \<and> totals_to (heads p v) (vb_nonCreator v)"


section \<open>The books stay coherent\<close>

lemma totals_upd:
  assumes "totals_to f t"
  shows "totals_to (f(m := x)) (t - f m + x)"
proof -
  obtain A where A: "finite A" "\<And>n. n \<notin> A \<Longrightarrow> f n = 0" "sum f A = t"
    using assms unfolding totals_to_def by blast
  let ?A = "insert m A"
  have "sum f ?A = t" using A by (cases "m \<in> A") (simp_all add: insert_absorb)
  then have "sum f (A - {m}) = t - f m" using A(1) by (simp add: sum.insert_remove)
  moreover have "sum (f(m := x)) (A - {m}) = sum f (A - {m})" by (rule sum.cong) auto
  ultimately have "sum (f(m := x)) ?A = t - f m + x" using A(1) by (simp add: sum.insert_remove)
  then show ?thesis unfolding totals_to_def using A(1,2) by (intro exI [of _ ?A]) auto
qed

lemma totals_upd_to: "totals_to f t \<Longrightarrow> t' = t - f m + x \<Longrightarrow> totals_to (f(m := x)) t'"
  using totals_upd by simp

lemma totals_nonneg: "totals_to f t \<Longrightarrow> (\<And>m. 0 \<le> f m) \<Longrightarrow> 0 \<le> t"
  unfolding totals_to_def by (auto intro: sum_nonneg)

lemma totals_ge:
  assumes "totals_to f t" "\<And>m. 0 \<le> f m"
  shows "f m \<le> t"
proof -
  have "totals_to (f(m := 0)) (t - f m + 0)" by (rule totals_upd [OF assms(1)])
  from totals_nonneg [OF this] assms(2) have "0 \<le> t - f m + 0" by (simp add: fun_upd_def)
  then show ?thesis by simp
qed

lemma heads_upd:
  "heads p (v\<lparr>vb_shares := (vb_shares v)(m := x)\<rparr>) = (heads p v)(m := if x > 0 \<and> m \<noteq> vp_creator p then 1 else 0)"
  by auto

lemma sol_mint_Inr:
  assumes "sol_mint p e m amount v = Inr (v', minted)"
  shows "0 < minted" "(vb_totalShares v = 0 \<or> ve_nav e \<noteq> None)"
    "v' = v\<lparr>vb_nonCreator := (if vb_shares v m = 0 \<and> m \<noteq> vp_creator p then vb_nonCreator v + 1 else vb_nonCreator v),
            vb_shares := (vb_shares v)(m := vb_shares v m + minted), vb_totalShares := vb_totalShares v + minted\<rparr>"
  using assms by (auto simp: sol_mint_def Let_def split: if_splits option.splits)

text \<open>Each call's effect is one of five updates of the books.\<close>

definition minted_books :: "vault_params \<Rightarrow> string \<Rightarrow> int \<Rightarrow> vault_books \<Rightarrow> vault_books" where
  "minted_books p m n v = v\<lparr>vb_nonCreator := (if vb_shares v m = 0 \<and> m \<noteq> vp_creator p then vb_nonCreator v + 1 else vb_nonCreator v),
     vb_shares := (vb_shares v)(m := vb_shares v m + n), vb_totalShares := vb_totalShares v + n\<rparr>"

definition burnt_books :: "vault_params \<Rightarrow> string \<Rightarrow> int \<Rightarrow> vault_books \<Rightarrow> vault_books" where
  "burnt_books p m n v = v\<lparr>vb_shares := (vb_shares v)(m := vb_shares v m - n), vb_totalShares := vb_totalShares v - n,
     vb_nonCreator := (if vb_shares v m - n = 0 \<and> vb_shares v m > 0 \<and> m \<noteq> vp_creator p then vb_nonCreator v - 1 else vb_nonCreator v)\<rparr>"

definition pending_books :: "string \<Rightarrow> int \<Rightarrow> int \<Rightarrow> vault_books \<Rightarrow> vault_books" where
  "pending_books m n clears v = v\<lparr>vb_pending := (vb_pending v)(m := n), vb_availableAt := (vb_availableAt v)(m := clears),
     vb_totalPending := vb_totalPending v - vb_pending v m + n\<rparr>"

definition queued_books :: "string \<Rightarrow> int \<Rightarrow> vault_books \<Rightarrow> vault_books" where
  "queued_books m n v = v\<lparr>vb_queued := (vb_queued v)(m := n), vb_totalQueued := vb_totalQueued v - vb_queued v m + n\<rparr>"

definition cleared_books :: "string \<Rightarrow> bool \<Rightarrow> vault_books \<Rightarrow> vault_books" where
  "cleared_books m b v = v\<lparr>vb_cleared := (vb_cleared v)(m := True), vb_skip := (vb_skip v)(m := vb_skip v m \<or> b)\<rparr>"

lemmas books_updates = minted_books_def burnt_books_def pending_books_def queued_books_def cleared_books_def

lemma sum_to_minted:
  "totals_to (vb_shares v) (vb_totalShares v) \<Longrightarrow> totals_to (vb_shares (minted_books p m n v)) (vb_totalShares (minted_books p m n v))"
  by (simp add: minted_books_def totals_upd_to)

lemma minted_ok:
  assumes "books_ok p v" "0 < n" "vb_pending v m = 0" "vb_cleared v m"
  shows "books_ok p (minted_books p m n v)"
proof -
  have m: "member_ok v m'" for m' using assms(1) by (simp add: books_ok_def)
  have held: "0 = vb_shares v m \<or> 0 < vb_shares v m" using m [of m] by (auto simp: member_ok_def)
  have "totals_to (heads p (minted_books p m n v)) (vb_nonCreator (minted_books p m n v))"
  proof -
    have h: "heads p (minted_books p m n v) = (heads p v)(m := if m \<noteq> vp_creator p then 1 else 0)"
      using m [of m] assms(2) by (auto simp: minted_books_def member_ok_def)
    show ?thesis unfolding h
      by (rule totals_upd_to [where t = "vb_nonCreator v"])
        (use assms(1) held in \<open>auto simp: books_ok_def minted_books_def\<close>)
  qed
  moreover have "member_ok (minted_books p m n v) m'" for m'
    using m [of m'] assms(2-4) by (auto simp: minted_books_def member_ok_def)
  ultimately show ?thesis
    using assms(1) sum_to_minted by (simp add: books_ok_def) (simp add: minted_books_def)
qed

lemma burnt_ok:
  assumes "books_ok p v" "0 < n" "vb_queued v m + n \<le> vb_shares v m"
  shows "books_ok p (burnt_books p m n v)"
proof -
  have m: "member_ok v m'" for m' using assms(1) by (simp add: books_ok_def)
  have held: "0 = vb_shares v m \<or> 0 < vb_shares v m" "n < vb_shares v m \<or> n = vb_shares v m"
    using m [of m] assms(3) by (auto simp: member_ok_def)
  have "totals_to (heads p (burnt_books p m n v)) (vb_nonCreator (burnt_books p m n v))"
  proof -
    have h: "heads p (burnt_books p m n v) = (heads p v)(m := if vb_shares v m - n > 0 \<and> m \<noteq> vp_creator p then 1 else 0)"
      by (auto simp: burnt_books_def)
    show ?thesis unfolding h
      by (rule totals_upd_to [where t = "vb_nonCreator v"])
        (use assms held in \<open>auto simp: books_ok_def burnt_books_def\<close>)
  qed
  moreover have "member_ok (burnt_books p m n v) m'" for m'
    using m [of m'] assms(2,3) by (auto simp: burnt_books_def member_ok_def)
  ultimately show ?thesis
    using assms(1) by (auto simp: books_ok_def burnt_books_def intro: totals_upd_to)
qed

lemma pending_ok:
  assumes "books_ok p v" "0 \<le> n" "n > 0 \<Longrightarrow> vb_shares v m = 0 \<and> \<not> vb_cleared v m"
  shows "books_ok p (pending_books m n t v)"
  using assms by (auto simp: books_ok_def pending_books_def member_ok_def intro: totals_upd_to)

lemma queued_ok:
  assumes "books_ok p v" "0 \<le> n" "n \<le> vb_shares v m"
  shows "books_ok p (queued_books m n v)"
  using assms by (auto simp: books_ok_def queued_books_def member_ok_def intro: totals_upd_to)

lemma cleared_ok:
  assumes "books_ok p v" "vb_pending v m = 0"
  shows "books_ok p (cleared_books m b v)"
  using assms by (auto simp: books_ok_def cleared_books_def member_ok_def)


lemma sol_mint_ok:
  assumes "sol_mint p e m amount v = Inr (v', minted)"
  shows "v' = minted_books p m minted v \<and> 0 < minted"
  using sol_mint_Inr [OF assms] by (simp add: minted_books_def)

lemma activatePending_effect:
  assumes "sol_activatePending p e m (vb_pending v m) v = Inr v'"
  shows "\<exists>n > 0. v' = minted_books p m n (cleared_books m False (pending_books m 0 0 v))"
proof -
  let ?w = "v\<lparr>vb_pending := (vb_pending v)(m := 0), vb_availableAt := (vb_availableAt v)(m := 0),
     vb_totalPending := vb_totalPending v - vb_pending v m, vb_cleared := (vb_cleared v)(m := True)\<rparr>"
  have w: "?w = cleared_books m False (pending_books m 0 0 v)" by (simp add: cleared_books_def pending_books_def)
  obtain x n where "sol_mint p e m (vb_pending v m) ?w = Inr (x, n)" "v' = x"
    using assms by (cases "sol_mint p e m (vb_pending v m) ?w") (auto simp: sol_activatePending_def)
  then show ?thesis using sol_mint_ok w by metis
qed

lemma settleExit_effect:
  assumes "sol_settleExit p e m n b v = Inr v'"
  shows "v' = burnt_books p m n v \<and> n \<le> vb_shares v m"
  using assms by (auto simp: sol_settleExit_def burnt_books_def Let_def split: if_splits payout_read.splits)

lemma activated_ok:
  assumes "books_ok p v" "0 < n"
  shows "books_ok p (minted_books p m n (cleared_books m b (pending_books m 0 c v)))"
proof -
  have "books_ok p (cleared_books m b (pending_books m 0 c v))"
    by (intro cleared_ok pending_ok assms(1)) (simp_all add: pending_books_def)
  then show ?thesis
    by (rule minted_ok) (use assms(2) in \<open>simp_all add: cleared_books_def pending_books_def\<close>)
qed

lemma books_member: "books_ok p v \<Longrightarrow> member_ok v m"
  by (simp add: books_ok_def)

lemma deposit_keeps_ok:
  assumes "books_ok p v" "0 < vp_minDeposit p" "sol_depositCall p e m amount receipt minOut v = Inr v'"
  shows "books_ok p v'"
proof -
  obtain received where r: "receipt = Some received" "received \<ge> vp_minDeposit p"
    using assms(3) by (auto simp: sol_depositCall_def split: if_splits option.splits)
  show ?thesis
  proof (cases "vb_cleared v m \<or> vb_shares v m > 0")
    case True
    then obtain x n where mint: "sol_mint p e m received v = Inr (x, n)" "v' = x"
      using assms(3) r by (auto simp: sol_depositCall_def split: if_splits option.splits sum.splits)
    moreover have "vb_pending v m = 0" "vb_cleared v m"
      using True books_member [OF assms(1), of m] by (auto simp: member_ok_def)
    ultimately show ?thesis using sol_mint_ok [OF mint(1)] minted_ok [OF assms(1)] by blast
  next
    case False
    then have "v' = pending_books m received (ve_now e + OBSERVATION_WINDOW) v"
      using assms(3) r by (auto simp: sol_depositCall_def pending_books_def split: if_splits option.splits)
    moreover have "vb_shares v m = 0 \<and> \<not> vb_cleared v m"
      using False books_member [OF assms(1), of m] by (auto simp: member_ok_def)
    ultimately show ?thesis using pending_ok [OF assms(1)] r(2) assms(2) by simp
  qed
qed

lemma vault_exec_keeps_ok:
  assumes "books_ok p v" "0 < vp_minDeposit p" "vault_exec p e sender c v = Inr v'"
  shows "books_ok p v'"
proof (cases c)
  case (CDeposit amount receipt minOut)
  then show ?thesis using deposit_keeps_ok [OF assms(1,2)] assms(3) by simp
next
  case (CActivate m)
  then have "sol_activatePending p e m (vb_pending v m) v = Inr v'" using assms(3) by (simp split: if_splits)
  then show ?thesis using activatePending_effect activated_ok [OF assms(1)] by blast
next
  case CCancel
  then have "v' = pending_books sender 0 0 v" using assms(3) by (simp add: pending_books_def split: if_splits)
  then show ?thesis using pending_ok [OF assms(1), of 0] by simp
next
  case CSkip
  let ?w = "v\<lparr>vb_skip := (vb_skip v)(sender := True), vb_cleared := (vb_cleared v)(sender := True)\<rparr>"
  show ?thesis
  proof (cases "vb_pending v sender > 0")
    case True
    then have "sol_activatePending p e sender (vb_pending ?w sender) ?w = Inr v'"
      using assms(3) CSkip by (simp add: Let_def split: if_splits)
    then obtain n where n: "n > 0" "v' = minted_books p sender n (cleared_books sender False (pending_books sender 0 0 ?w))"
      using activatePending_effect by blast
    moreover have "cleared_books sender False (pending_books sender 0 0 ?w) = cleared_books sender True (pending_books sender 0 0 v)"
      by (simp add: cleared_books_def pending_books_def)
    ultimately show ?thesis using activated_ok [OF assms(1)] by simp
  next
    case False
    then have "v' = cleared_books sender True v"
      using assms(3) CSkip by (auto simp: Let_def cleared_books_def split: if_splits)
    moreover have "vb_pending v sender = 0" using False books_member [OF assms(1), of sender] by (simp add: member_ok_def)
    ultimately show ?thesis using cleared_ok [OF assms(1)] by simp
  qed
next
  case (CRequestExit n)
  then have n: "0 < n" "vb_queued v sender = 0" "n \<le> vb_shares v sender" using assms(3) by (auto split: if_splits)
  have "v' = queued_books sender n v \<or> v' = burnt_books p sender n v"
    using assms(3) CRequestExit n settleExit_effect by (auto simp: queued_books_def split: if_splits)
  then show ?thesis using n burnt_ok [OF assms(1)] queued_ok [OF assms(1)] by auto
next
  case (CSettle m)
  let ?w = "queued_books m 0 v"
  have n: "0 < vb_queued v m" and s: "sol_settleExit p e m (vb_queued v m) True ?w = Inr v'"
    using assms(3) CSettle by (auto simp: queued_books_def Let_def split: if_splits)
  have "books_ok p ?w" using queued_ok [OF assms(1), of 0 m] books_member [OF assms(1), of m] by (simp add: member_ok_def)
  moreover have "vb_queued ?w m + vb_queued v m \<le> vb_shares ?w m"
    using books_member [OF assms(1), of m] by (simp add: queued_books_def member_ok_def)
  ultimately show ?thesis using burnt_ok [OF _ n] settleExit_effect [OF s] by simp
qed

lemma fresh_ok: "books_ok p fresh_books"
  by (auto simp: books_ok_def member_ok_def fresh_books_def totals_to_def)

lemma reachable_ok: "vault_reachable p v \<Longrightarrow> books_ok p v \<and> 0 < vp_minDeposit p"
  by (induction rule: vault_reachable.induct) (use fresh_ok vault_exec_keeps_ok in blast)+

lemma reachable_member: "vault_reachable p v \<Longrightarrow> member_ok v m"
  using reachable_ok books_member by blast

end
