(* ===== verification/Web_Member.thy ===== *)
theory Web_Member
  imports Complex_Main Vault_Core
begin

text \<open>
  What the web app lets a member do in a vault: the verdict on each action, \<open>apps/web/src/vault-state.mjs\<close>;
  the state of a deposit in its observation window, \<open>deposit-status.mjs\<close>; and the refusals at the moment
  a signature is asked for, \<open>wallet-refusals.mjs\<close>. They are compared with the calls of theory Vault_Core.

  Labels, titles and sentences are left out: the reason of a verdict is a constructor, a notice its \<open>id\<close>.
\<close>

section \<open>Verdicts\<close>

record vault_facts =
  vf_frozen :: "bool option"
  vf_attested :: bool
  vf_exitMode :: exit_mode
  vf_isMember :: bool
  vf_hasPendingDeposit :: bool
  vf_pendingMatured :: bool
  vf_hasQueuedExit :: bool
  vf_capacityFull :: bool
  vf_capacityKnown :: "bool option"
  vf_isCreatorBelowGate :: bool
  vf_walletConnected :: "bool option"

datatype severity = SevOk | SevInfo | SevWarn | SevBlocked

datatype why =
    WhyNone | WhyConnect | WhyFrozen | WhyUnattested | WhyAtCapacity | WhyPendingHeld | WhyFreezeUnknown
  | WhyCapacityUnknown | WhyNothingPending | WhyWindowOpen | WhyNoShares | WhyExitQueued | WhyCreatorGate
  | WhyWithheld | WhyModeUnknown | WhyQueues | WhyStandalone | WhyNoQueuedExit | WhyStillPending | WhyTooEarly

record verdict =
  vd_available :: bool
  vd_why :: why
  vd_severity :: severity

definition ok :: verdict where "ok = \<lparr> vd_available = True, vd_why = WhyNone, vd_severity = SevOk \<rparr>"
definition no :: "why \<Rightarrow> severity \<Rightarrow> verdict" where
  "no w s = \<lparr> vd_available = False, vd_why = w, vd_severity = s \<rparr>"
definition warn :: "why \<Rightarrow> verdict" where "warn w = \<lparr> vd_available = True, vd_why = w, vd_severity = SevWarn \<rparr>"

record vault_actions =
  va_deposit :: verdict
  va_activate :: verdict
  va_cancelPending :: verdict
  va_exit :: verdict
  va_skipWindow :: verdict
  va_settleQueuedExit :: verdict
  va_notices :: "string list"

definition action_notices :: "vault_facts \<Rightarrow> string list" where
  "action_notices f =
     (if vf_frozen f = Some True then [''frozen''] else [])
     @ (if vf_frozen f = None then [''freeze-unknown''] else [])
     @ (if \<not> vf_attested f then [''unattested''] else [])
     @ (if vf_exitMode f = ModeUnknown then [''mode-unknown''] else [])
     @ (if vf_hasQueuedExit f then [''queued-exit''] else [])"

definition deposit_verdict :: "vault_facts \<Rightarrow> verdict" where
  "deposit_verdict f =
     (if vf_walletConnected f = Some False then no WhyConnect SevInfo
      else if vf_frozen f = Some True then no WhyFrozen SevBlocked
      else if \<not> vf_attested f then no WhyUnattested SevBlocked
      else if vf_capacityFull f then no WhyAtCapacity SevBlocked
      else if vf_hasPendingDeposit f then no WhyPendingHeld SevInfo
      else if vf_frozen f = None then warn WhyFreezeUnknown
      else if vf_capacityKnown f = Some False then warn WhyCapacityUnknown
      else ok)"

definition activate_verdict :: "vault_facts \<Rightarrow> verdict" where
  "activate_verdict f =
     (if \<not> vf_hasPendingDeposit f then no WhyNothingPending SevInfo
      else if vf_frozen f = Some True then no WhyFrozen SevBlocked
      else if \<not> vf_pendingMatured f then no WhyWindowOpen SevInfo
      else if vf_frozen f = None then warn WhyFreezeUnknown
      else ok)"

definition cancel_verdict :: "vault_facts \<Rightarrow> verdict" where
  "cancel_verdict f = (if vf_hasPendingDeposit f then ok else no WhyNothingPending SevInfo)"

definition exit_verdict :: "vault_facts \<Rightarrow> verdict" where
  "exit_verdict f =
     (if \<not> vf_isMember f then no WhyNoShares SevInfo
      else if vf_hasQueuedExit f then no WhyExitQueued SevInfo
      else if vf_isCreatorBelowGate f then no WhyCreatorGate SevBlocked
      else if vf_frozen f = Some True \<and> vf_exitMode f = ModeF then no WhyWithheld SevBlocked
      else if vf_frozen f = Some True then no WhyFrozen SevBlocked
      else if vf_exitMode f = ModeUnknown then warn WhyModeUnknown
      else if vf_exitMode f = ModeF then warn WhyQueues
      else if vf_frozen f = None then warn WhyFreezeUnknown
      else ok)"

definition skip_verdict :: "vault_facts \<Rightarrow> verdict" where
  "skip_verdict f =
     (if \<not> vf_hasPendingDeposit f then no WhyStandalone SevBlocked
      else if vf_frozen f = Some True then no WhyFrozen SevBlocked
      else ok)"

definition settle_verdict :: "vault_facts \<Rightarrow> verdict" where
  "settle_verdict f =
     (if \<not> vf_hasQueuedExit f then no WhyNoQueuedExit SevInfo
      else if vf_frozen f = Some True then no WhyFrozen SevBlocked
      else if vf_exitMode f = ModeF then no WhyStillPending SevInfo
      else if vf_exitMode f = ModeUnknown then warn WhyTooEarly
      else ok)"

definition actions :: "vault_facts \<Rightarrow> vault_actions" where
  "actions f = \<lparr> va_deposit = deposit_verdict f, va_activate = activate_verdict f,
     va_cancelPending = cancel_verdict f, va_exit = exit_verdict f, va_skipWindow = skip_verdict f,
     va_settleQueuedExit = settle_verdict f, va_notices = action_notices f \<rparr>"

datatype status_key = StUnattested | StFrozen | StUnknown | StFreezeUnknown | StModeF | StFull | StOpen

definition vaultStatus :: "vault_facts \<Rightarrow> status_key" where
  "vaultStatus f =
     (if \<not> vf_attested f then StUnattested
      else if vf_frozen f = Some True then StFrozen
      else if vf_exitMode f = ModeUnknown then StUnknown
      else if vf_frozen f = None then StFreezeUnknown
      else if vf_exitMode f = ModeF then StModeF
      else if vf_capacityFull f then StFull
      else StOpen)"

section \<open>The status of a deposit\<close>

text \<open>
  A field in seconds is a Number (\<open>None\<close> when it is not finite), a BigInt, a string with what \<open>Number\<close>
  makes of it, or anything else. Seconds are below \<open>2\<^sup>53\<close>, where a double is exact.
\<close>

datatype js_seconds = SecNum "rat option" | SecBig int | SecText string "rat option" | SecOther

definition nonNegativeBig :: "js_raw \<Rightarrow> int option" where
  "nonNegativeBig v =
     (let b = (case v of
          RBig n \<Rightarrow> Some n
        | RNum n \<Rightarrow> if \<bar>n\<bar> \<le> 9007199254740991 then Some n else None
        | RStr s \<Rightarrow> let t = js_trim s in if t \<noteq> [] \<and> list_all decimal_char t then bigint_of_string t else None
        | RAbsent \<Rightarrow> None)
      in case b of None \<Rightarrow> None | Some n \<Rightarrow> if n < 0 then None else Some n)"

definition nonNegativeSec :: "js_seconds \<Rightarrow> rat option" where
  "nonNegativeSec v =
     (let n = (case v of
          SecNum x \<Rightarrow> x
        | SecBig i \<Rightarrow> Some (of_int i)
        | SecText s x \<Rightarrow> if js_trim s = [] then None else x
        | SecOther \<Rightarrow> None)
      in case n of None \<Rightarrow> None | Some x \<Rightarrow> if x \<ge> 0 then Some x else None)"

datatype deposit_state = DsUnknown | DsNone | DsWaiting | DsAvailable | DsActive

record deposit_status =
  ds_state :: deposit_state
  ds_availableAt :: "rat option"
  ds_secondsRemaining :: "rat option"

definition bare_status :: "deposit_state \<Rightarrow> deposit_status" where
  "bare_status s = \<lparr> ds_state = s, ds_availableAt = None, ds_secondsRemaining = None \<rparr>"

definition classifyDepositStatus :: "js_raw \<Rightarrow> js_seconds \<Rightarrow> js_raw \<Rightarrow> js_seconds \<Rightarrow> deposit_status" where
  "classifyDepositStatus pendingAmountUsdc availableAt sharesOf now =
     (case (nonNegativeBig pendingAmountUsdc, nonNegativeBig sharesOf, nonNegativeSec now) of
        (Some pending, Some shares, Some nowSec) \<Rightarrow>
          if pending > 0 then
            (if shares > 0 then bare_status DsUnknown
             else case nonNegativeSec availableAt of
                 None \<Rightarrow> bare_status DsUnknown
               | Some clears \<Rightarrow>
                   if nowSec < clears
                   then \<lparr> ds_state = DsWaiting, ds_availableAt = Some clears, ds_secondsRemaining = Some (max 0 (clears - nowSec)) \<rparr>
                   else \<lparr> ds_state = DsAvailable, ds_availableAt = Some clears, ds_secondsRemaining = None \<rparr>)
          else if shares > 0 then bare_status DsActive
          else bare_status DsNone
      | _ \<Rightarrow> bare_status DsUnknown)"

section \<open>Refusals before a signature\<close>

datatype refusal = Allowed | AllowedIrreversible | Refused string | Unread

fun canSign :: "refusal \<Rightarrow> bool" where
  "canSign Allowed = True"
| "canSign AllowedIrreversible = True"
| "canSign (Refused _) = False"
| "canSign Unread = False"

definition skipWindowRefusal :: "bool option \<Rightarrow> refusal" where
  "skipWindowRefusal skipOptIn = (case skipOptIn of
      None \<Rightarrow> Unread
    | Some True \<Rightarrow> Refused ''AlreadyOptedIn''
    | Some False \<Rightarrow> AllowedIrreversible)"

definition requestExitPricingRefusal :: "active_proposal \<Rightarrow> int \<Rightarrow> refusal" where
  "requestExitPricingRefusal proposal nowSec = (case hasPendingExecution proposal nowSec of
      None \<Rightarrow> Unread
    | Some True \<Rightarrow> AllowedIrreversible
    | Some False \<Rightarrow> Allowed)"

definition CREATOR_MIN_STAKE_BPS :: int where "CREATOR_MIN_STAKE_BPS = 500"

definition creatorGateRefusal ::
  "string option \<Rightarrow> string option \<Rightarrow> js_raw \<Rightarrow> js_raw \<Rightarrow> js_raw \<Rightarrow> js_raw \<Rightarrow> refusal" where
  "creatorGateRefusal creator who sharesOf totalShares nonCreatorMemberCount burnShares =
     (case (creator, who) of
        (Some c, Some m) \<Rightarrow>
          if lc m \<noteq> lc c then Allowed
          else (case toBig nonCreatorMemberCount of
              None \<Rightarrow> Unread
            | Some ncmc \<Rightarrow>
                if ncmc = 0 then Allowed
                else (case (toBig sharesOf, toBig totalShares, toBig burnShares) of
                    (Some shares, Some ts, Some burn) \<Rightarrow>
                      if burn > shares \<or> burn > ts then Unread
                      else if \<not> (shares - burn) * FEE_BPS \<ge> CREATOR_MIN_STAKE_BPS * (ts - burn)
                      then Refused ''CreatorStakeGate''
                      else Allowed
                  | _ \<Rightarrow> Unread))
      | _ \<Rightarrow> Unread)"

text \<open>The fee ceiling: \<open>None\<close> when one of the three inputs was not read.\<close>

definition exitFeeCeiling :: "js_raw option \<Rightarrow> js_raw option \<Rightarrow> js_raw option \<Rightarrow> int option" where
  "exitFeeCeiling exitFeeMaxBps exitFeeDecayPeriodSec tenureSec =
     (case (exitFeeMaxBps, exitFeeDecayPeriodSec, tenureSec) of
        (Some mx, Some period, Some tenure) \<Rightarrow>
          Some (exitFeeBps \<lparr> ft_exitFeeMaxBps = mx, ft_exitFeeDecayPeriodSec = period, ft_tenureSec = tenure \<rparr> False)
      | _ \<Rightarrow> None)"

section \<open>Verdicts against the contract\<close>

fun verdict_for :: "vault_actions \<Rightarrow> vault_call \<Rightarrow> verdict" where
  "verdict_for a (CDeposit _ _ _) = va_deposit a"
| "verdict_for a (CActivate _) = va_activate a"
| "verdict_for a CCancel = va_cancelPending a"
| "verdict_for a CSkip = va_skipWindow a"
| "verdict_for a (CRequestExit _) = va_exit a"
| "verdict_for a (CSettle _) = va_settleQueuedExit a"

text \<open>The member's own calls; an exit is for no more than the balance, a deposit is one the form lets through.\<close>

fun own_call :: "vault_params \<Rightarrow> vault_books \<Rightarrow> string \<Rightarrow> vault_call \<Rightarrow> bool" where
  "own_call p v m (CDeposit amount _ _) \<longleftrightarrow> vp_minDeposit p \<le> amount"
| "own_call p v m (CActivate m') \<longleftrightarrow> m' = m"
| "own_call p v m CCancel \<longleftrightarrow> True"
| "own_call p v m CSkip \<longleftrightarrow> True"
| "own_call p v m (CRequestExit n) \<longleftrightarrow> 0 < n \<and> n \<le> vb_shares v m"
| "own_call p v m (CSettle m') \<longleftrightarrow> m' = m"

text \<open>
  The facts are the vault's. The freeze state and the exit mode may be unknown; the creator gate is
  asked for the shares that the exit would burn.
\<close>

definition at_capacity :: "vault_params \<Rightarrow> vault_env \<Rightarrow> vault_books \<Rightarrow> bool" where
  "at_capacity p e v \<longleftrightarrow> vp_cap p \<noteq> 0
     \<and> (case ve_nav e of None \<Rightarrow> False | Some nav \<Rightarrow> vp_cap p \<le> nav div USDC_SCALAR + vb_totalPending v)"

definition facts_true :: "vault_facts \<Rightarrow> vault_params \<Rightarrow> vault_env \<Rightarrow> vault_books \<Rightarrow> string \<Rightarrow> vault_call \<Rightarrow> bool" where
  "facts_true f p e v m c \<longleftrightarrow>
     vf_frozen f \<in> {None, Some (ve_nav e = None)}
     \<and> vf_exitMode f \<in> {ModeUnknown, if ve_pendingExecution e then ModeF else ModeI}
     \<and> vf_isMember f = (vb_shares v m > 0) \<and> vf_hasPendingDeposit f = (vb_pending v m > 0)
     \<and> vf_pendingMatured f = (vb_pending v m > 0 \<and> ve_now e \<ge> vb_availableAt v m)
     \<and> vf_hasQueuedExit f = (vb_queued v m > 0)
     \<and> (vf_capacityFull f \<longrightarrow> at_capacity p e v)
     \<and> (case c of CRequestExit n \<Rightarrow> vf_isCreatorBelowGate f = (\<not> creator_gate p m n v) | _ \<Rightarrow> True)"

text \<open>An exit prices only assets that NAV prices too.\<close>

definition env_ok :: "vault_env \<Rightarrow> bool" where
  "env_ok e \<longleftrightarrow> (ve_nav e \<noteq> None \<longrightarrow> ve_payout e \<noteq> PayoutStale)"

text \<open>What a call may still run into that no fact carries: the amount, the receipt, rounding, the children.\<close>

fun residual :: "vault_call \<Rightarrow> revert set" where
  "residual (CDeposit _ _ _) = {RvBelowMinDeposit, RvCapacityExceeded, RvTransferFailed, RvSlippage, RvZeroAmount, RvDivisionByZero}"
| "residual (CActivate _) = {RvZeroAmount, RvDivisionByZero}"
| "residual CCancel = {}"
| "residual CSkip = {RvZeroAmount, RvDivisionByZero}"
| "residual (CRequestExit _) = {RvPositionBelowFloor, RvExitNeedsChildSettlement}"
| "residual (CSettle _) = {RvExitNeedsChildSettlement}"

lemma sol_mint_reverts:
  assumes "sol_mint p e m amount v = Inl r" "ve_nav e \<noteq> None"
  shows "r = RvZeroAmount \<or> r = RvDivisionByZero"
  using assms by (auto simp: sol_mint_def Let_def split: if_splits)

lemma map_sum_Inl: "map_sum id f x = Inl r \<longleftrightarrow> x = Inl r"
  by (cases x) auto

lemma activatePending_reverts:
  assumes "sol_activatePending p e m amount v = Inl r" "ve_nav e \<noteq> None"
  shows "r = RvZeroAmount \<or> r = RvDivisionByZero"
  using sol_mint_reverts [OF _ assms(2)] assms(1) by (auto simp: sol_activatePending_def map_sum_Inl)

lemma deposit_reverts:
  assumes "sol_depositCall p e m amount receipt minOut v = Inl r" "ve_nav e \<noteq> None" "vp_minDeposit p \<le> amount"
    "0 < vp_minDeposit p" "vb_pending v m = 0"
  shows "r \<in> residual (CDeposit amount receipt minOut)"
  using assms sol_mint_reverts [of p e m _ v r]
  by (auto simp: sol_depositCall_def split: if_splits option.splits sum.splits)

lemma member_facts:
  assumes "vault_reachable p v"
  shows "0 \<le> vb_pending v m" "0 \<le> vb_queued v m" "vb_queued v m \<le> vb_shares v m" "0 \<le> vb_shares v m"
    "vb_pending v m > 0 \<Longrightarrow> vb_shares v m = 0" "vb_pending v m > 0 \<Longrightarrow> \<not> vb_cleared v m"
    "vb_pending v m > 0 \<Longrightarrow> \<not> vb_skip v m"
  using reachable_member [OF assms, of m] by (auto simp: member_ok_def)

lemmas verdict_simps = ok_def no_def warn_def
lemmas verdict_defs = deposit_verdict_def activate_verdict_def cancel_verdict_def exit_verdict_def skip_verdict_def settle_verdict_def

lemma ok_verdict_runs:
  assumes "vault_reachable p v" "env_ok e" "facts_true f p e v m c" "own_call p v m c"
    and "vd_severity (verdict_for (actions f) c) = SevOk" "vf_frozen f \<noteq> None" "vault_exec p e m c v = Inl r"
  shows "r \<in> residual c"
proof -
  note facts = member_facts [OF assms(1), of m]
  have min: "0 < vp_minDeposit p" using reachable_ok [OF assms(1)] by blast
  have frozen: "vf_frozen f = Some (ve_nav e = None)" using assms(3,6) by (auto simp: facts_true_def)
  show ?thesis
  proof (cases c)
    case (CDeposit amount receipt minOut)
    have "vb_pending v m = 0" "ve_nav e \<noteq> None"
      using assms(3,5) frozen facts(1) CDeposit
      by (auto simp: actions_def deposit_verdict_def verdict_simps facts_true_def split: if_splits)
    then show ?thesis using deposit_reverts [of p e m amount receipt minOut v r] assms(4,7) min CDeposit by simp
  next
    case (CActivate m')
    then have "vb_pending v m > 0" "ve_now e \<ge> vb_availableAt v m" "ve_nav e \<noteq> None"
      using assms(3,5) frozen
      by (auto simp: actions_def activate_verdict_def verdict_simps facts_true_def split: if_splits)
    then show ?thesis using activatePending_reverts assms(4,7) CActivate by auto
  next
    case CCancel
    then show ?thesis
      using assms(3,5,7) by (auto simp: actions_def cancel_verdict_def verdict_simps facts_true_def split: if_splits)
  next
    case CSkip
    then have "vb_pending v m > 0" "ve_nav e \<noteq> None"
      using assms(3,5) frozen by (auto simp: actions_def skip_verdict_def verdict_simps facts_true_def split: if_splits)
    then show ?thesis using activatePending_reverts assms(7) CSkip facts(7) by (auto simp: Let_def)
  next
    case (CRequestExit n)
    then have "vb_queued v m = 0" "ve_nav e \<noteq> None" "\<not> ve_pendingExecution e" "creator_gate p m n v"
      using assms(3,5) frozen facts(2)
      by (auto simp: actions_def exit_verdict_def verdict_simps facts_true_def split: if_splits)
    then show ?thesis using assms(2,4,7) CRequestExit
      by (auto simp: sol_settleExit_def env_ok_def Let_def split: if_splits payout_read.splits)
  next
    case (CSettle m')
    then have "vb_queued v m > 0" "ve_nav e \<noteq> None" "\<not> ve_pendingExecution e"
      using assms(3,5) frozen
      by (auto simp: actions_def settle_verdict_def verdict_simps facts_true_def split: if_splits)
    then show ?thesis using assms(2,4,7) CSettle facts(3)
      by (auto simp: sol_settleExit_def env_ok_def Let_def split: if_splits payout_read.splits)
  qed
qed

text \<open>
  A button without a warning does what it says. In every reachable state of a vault, for facts that
  are the vault's and a known freeze state, an action of the member whose verdict is \<open>ok\<close> is not reverted
  by the contract for anything the verdicts are about: not frozen, not too early, not already pending,
  queued or opted in, not gated. Cancelling never reverts at all; the other calls may revert only for
  the amount, the token transfer, a mint that rounds to nothing, or a child vault that has to settle first.
\<close>

theorem ok_verdict_is_accepted:
  assumes "vault_reachable p v" "env_ok e" "facts_true f p e v m c" "own_call p v m c"
    and "vd_severity (verdict_for (actions f) c) = SevOk" "vf_frozen f \<noteq> None"
  shows "case vault_exec p e m c v of Inr v' \<Rightarrow> vault_reachable p v' | Inl r \<Rightarrow> r \<in> residual c"
proof (cases "vault_exec p e m c v")
  case (Inl r)
  then show ?thesis using ok_verdict_runs [OF assms Inl] by simp
next
  case (Inr v')
  then show ?thesis using vault_reachable.call [OF assms(1) Inr] by simp
qed

text \<open>
  The refusals that are the app's own choice: no wallet, no registered operator, a queue that nothing
  good can come of, and an opt-in that would be burnt. A freeze is refused although the call may still
  go through when no share exists yet (the first mint reads no NAV) or when the payout touches no asset
  whose feed is stale.
\<close>

definition stricter :: "vault_env \<Rightarrow> vault_books \<Rightarrow> vault_call \<Rightarrow> why \<Rightarrow> bool" where
  "stricter e v c w \<longleftrightarrow> w \<in> {WhyConnect, WhyUnattested, WhyWithheld, WhyStandalone}
     \<or> w = WhyFrozen \<and> (case c of CDeposit _ _ _ \<Rightarrow> False | CActivate _ \<Rightarrow> vb_totalShares v = 0 | CSkip \<Rightarrow> vb_totalShares v = 0
         | CRequestExit _ \<Rightarrow> ve_payout e = PayoutPriced \<or> ve_pendingExecution e | _ \<Rightarrow> ve_payout e = PayoutPriced)"

lemma sol_mint_frozen: "ve_nav e = None \<Longrightarrow> vb_totalShares v \<noteq> 0 \<Longrightarrow> sol_mint p e m amount v = Inl RvStaleOracle"
  by (simp add: sol_mint_def)

lemma activatePending_frozen:
  "ve_nav e = None \<Longrightarrow> vb_totalShares v \<noteq> 0 \<Longrightarrow> sol_activatePending p e m amount v = Inl RvStaleOracle"
  by (simp add: sol_activatePending_def sol_mint_frozen)

lemma deposit_frozen: "ve_nav e = None \<Longrightarrow> \<exists>r. sol_depositCall p e m amount receipt minOut v = Inl r"
  by (simp add: sol_depositCall_def)

lemma deposit_over_cap: "at_capacity p e v \<Longrightarrow> \<exists>r. sol_depositCall p e m amount receipt minOut v = Inl r"
  by (auto simp: sol_depositCall_def at_capacity_def split: option.splits)

lemma deposit_pending:
  "vb_pending v m \<noteq> 0 \<Longrightarrow> vb_shares v m = 0 \<Longrightarrow> \<not> vb_cleared v m \<Longrightarrow> \<exists>r. sol_depositCall p e m amount receipt minOut v = Inl r"
  by (auto simp: sol_depositCall_def split: option.splits)

lemma settleExit_unpriced:
  "ve_payout e \<noteq> PayoutPriced \<Longrightarrow> \<exists>r. sol_settleExit p e m n b v = Inl r"
  by (cases "ve_payout e") (auto simp: sol_settleExit_def Let_def)

lemma settleExit_gated:
  "\<not> creator_gate p m n v \<Longrightarrow> \<exists>r. sol_settleExit p e m n False v = Inl r"
  by (auto simp: sol_settleExit_def Let_def)

lemma refused_verdict_reverts:
  assumes "vault_reachable p v" "facts_true f p e v m c" "own_call p v m c"
    and "\<not> vd_available (verdict_for (actions f) c)"
    and "\<not> stricter e v c (vd_why (verdict_for (actions f) c))"
  shows "\<exists>r. vault_exec p e m c v = Inl r"
proof -
  note facts = member_facts [OF assms(1), of m]
  show ?thesis
  proof (cases c)
    case (CDeposit amount receipt minOut)
    then have "ve_nav e = None \<or> at_capacity p e v \<or> vb_pending v m > 0"
      using assms(2,4,5)
      by (auto simp: actions_def deposit_verdict_def verdict_simps facts_true_def stricter_def split: if_splits)
    then show ?thesis
      using deposit_frozen deposit_over_cap deposit_pending [of v m] facts(5,6) CDeposit by auto
  next
    case (CActivate m')
    then have "vb_pending v m \<le> 0 \<or> (ve_nav e = None \<and> vb_totalShares v \<noteq> 0) \<or> ve_now e < vb_availableAt v m"
      using assms(2,4,5)
      by (auto simp: actions_def activate_verdict_def verdict_simps facts_true_def stricter_def split: if_splits)
    then show ?thesis using activatePending_frozen CActivate assms(3) by auto
  next
    case CCancel
    then show ?thesis using assms(2,4)
      by (auto simp: actions_def cancel_verdict_def verdict_simps facts_true_def split: if_splits)
  next
    case CSkip
    then have "vb_pending v m > 0" "ve_nav e = None" "vb_totalShares v \<noteq> 0"
      using assms(2,4,5) by (auto simp: actions_def skip_verdict_def verdict_simps facts_true_def stricter_def split: if_splits)
    then show ?thesis using CSkip by (auto simp: Let_def activatePending_frozen)
  next
    case (CRequestExit n)
    then have "vb_queued v m > 0 \<or> \<not> creator_gate p m n v \<or> (\<not> ve_pendingExecution e \<and> ve_payout e \<noteq> PayoutPriced)
        \<or> vb_shares v m \<le> 0"
      using assms(2,4,5)
      by (auto simp: actions_def exit_verdict_def verdict_simps facts_true_def stricter_def split: if_splits)
    then show ?thesis
      using settleExit_unpriced [of e p m n False v] settleExit_gated [of p m n v e] CRequestExit assms(3) by auto
  next
    case (CSettle m')
    then have "vb_queued v m \<le> 0 \<or> ve_payout e \<noteq> PayoutPriced \<or> ve_pendingExecution e"
      using assms(2,4,5)
      by (auto simp: actions_def settle_verdict_def verdict_simps facts_true_def stricter_def split: if_splits)
    then show ?thesis using settleExit_unpriced CSettle assms(3) by (auto simp: Let_def)
  qed
qed



text \<open>
  With the freeze state unknown, skipping the window and settling a queued exit are offered with the
  verdict \<open>ok\<close>, while activating and exiting carry a warning that they revert under a stale feed. Both
  revert \<open>StaleOracle\<close> all the same when the vault is frozen: skipping whenever a share exists, settling
  whenever the payout touches the stale asset.
\<close>

theorem unknown_freeze_is_not_warned:
  assumes "vault_reachable p v" "ve_nav e = None" "vf_frozen f = None"
    and "facts_true f p e v m CSkip" "vb_pending v m > 0" "vb_totalShares v > 0"
  shows "vd_severity (va_skipWindow (actions f)) = SevOk \<and> vault_exec p e m CSkip v = Inl RvStaleOracle
    \<and> (vf_pendingMatured f \<longrightarrow> vd_severity (va_activate (actions f)) = SevWarn)"
proof -
  have f: "vf_hasPendingDeposit f" using assms(4,5) by (simp add: facts_true_def)
  have "vault_exec p e m CSkip v = Inl RvStaleOracle"
    using assms(2,5,6) member_facts(7) [OF assms(1,5)] by (simp add: Let_def activatePending_frozen)
  then show ?thesis
    using f assms(3) by (simp add: actions_def skip_verdict_def activate_verdict_def verdict_simps)
qed

section \<open>The deposit status against the contract\<close>

definition sol_deposit_status :: "vault_books \<Rightarrow> int \<Rightarrow> string \<Rightarrow> deposit_state" where
  "sol_deposit_status v now m =
     (if vb_pending v m > 0 then (if now < vb_availableAt v m then DsWaiting else DsAvailable)
      else if vb_shares v m > 0 then DsActive else DsNone)"

text \<open>
  C24. The deposit screen tells the contract's state. Read from one reachable state, with every field
  readable, the status is the contract's, never \<open>unknown\<close>; \<open>available\<close> is shown exactly when
  \<open>activate\<close> gets past both of its guards, and \<open>waiting\<close> counts down to that moment. A field that was
  not read gives \<open>unknown\<close>: a missing pending amount is never shown as no deposit.
\<close>

theorem deposit_status_is_the_contracts:
  assumes "vault_reachable p v"
    and "nonNegativeBig pending \<in> {None, Some (vb_pending v m)}" "nonNegativeBig shares \<in> {None, Some (vb_shares v m)}"
    and "nonNegativeSec clears \<in> {None, Some (of_int (vb_availableAt v m))}"
    and "nonNegativeSec now \<in> {None, Some (of_int (ve_now e))}"
  defines "s \<equiv> classifyDepositStatus pending clears shares now"
  shows "(if nonNegativeBig pending = None \<or> nonNegativeBig shares = None \<or> nonNegativeSec now = None
            \<or> (vb_pending v m > 0 \<and> nonNegativeSec clears = None)
          then ds_state s = DsUnknown
          else ds_state s = sol_deposit_status v (ve_now e) m
            \<and> (ds_state s = DsAvailable \<longleftrightarrow> vault_exec p e m (CActivate m) v \<notin> {Inl RvNoPending, Inl RvWindowNotElapsed})
            \<and> (\<forall>left. ds_secondsRemaining s = Some left \<longrightarrow>
                 ds_state s = DsWaiting \<and> left > 0 \<and> of_int (ve_now e) + left = of_int (vb_availableAt v m)))"
proof -
  note facts = member_facts [OF assms(1), of m]
  have passes: "sol_activatePending p e m a v \<notin> {Inl RvNoPending, Inl RvWindowNotElapsed}" for a
    by (auto simp: sol_activatePending_def map_sum_Inl sol_mint_def Let_def split: if_splits option.splits)
  have act: "vault_exec p e m (CActivate m) v \<notin> {Inl RvNoPending, Inl RvWindowNotElapsed}
      \<longleftrightarrow> vb_pending v m > 0 \<and> ve_now e \<ge> vb_availableAt v m"
    using passes [of "vb_pending v m"] by (auto split: if_splits)
  show ?thesis
  proof (cases "nonNegativeBig pending = None \<or> nonNegativeBig shares = None \<or> nonNegativeSec now = None
            \<or> (vb_pending v m > 0 \<and> nonNegativeSec clears = None)")
    case True
    then show ?thesis using assms(2-5) facts(5)
      by (auto simp: s_def classifyDepositStatus_def bare_status_def)
  next
    case False
    then have reads: "nonNegativeBig pending = Some (vb_pending v m)" "nonNegativeBig shares = Some (vb_shares v m)"
      "nonNegativeSec now = Some (of_int (ve_now e))"
      using assms(2,3,5) by auto
    show ?thesis
    proof (cases "vb_pending v m > 0")
      case True
      then have c: "nonNegativeSec clears = Some (of_int (vb_availableAt v m))" using assms(4) False by auto
      have s: "s = (if ve_now e < vb_availableAt v m
          then \<lparr> ds_state = DsWaiting, ds_availableAt = Some (of_int (vb_availableAt v m)),
                 ds_secondsRemaining = Some (max 0 (of_int (vb_availableAt v m) - of_int (ve_now e))) \<rparr>
          else \<lparr> ds_state = DsAvailable, ds_availableAt = Some (of_int (vb_availableAt v m)), ds_secondsRemaining = None \<rparr>)"
        using True facts(5) by (simp add: s_def classifyDepositStatus_def reads c)
      show ?thesis unfolding act using True False
        by (cases "ve_now e < vb_availableAt v m") (simp_all add: s sol_deposit_status_def reads c)
    next
      case no: False
      then show ?thesis unfolding act using False facts(1,4)
        by (simp add: s_def classifyDepositStatus_def bare_status_def sol_deposit_status_def reads)
    qed
  qed
qed

text \<open>
  Two reads with an activation between them: the balance before it and the pending amount after it
  agree with each other, and the screen says that there is no deposit at all.
\<close>

theorem torn_read_hides_a_deposit:
  assumes "vault_reachable p v" "vb_pending v m > 0" "vault_exec p e m (CActivate m) v = Inr v'"
    and "nonNegativeBig shares = Some (vb_shares v m)" "nonNegativeBig pending = Some (vb_pending v' m)"
    and "nonNegativeSec now \<noteq> None"
  shows "ds_state (classifyDepositStatus pending clears shares now) = DsNone \<and> vb_shares v' m > 0"
proof -
  have "sol_activatePending p e m (vb_pending v m) v = Inr v'" using assms(2,3) by (simp split: if_splits)
  then obtain n where n: "n > 0" "v' = minted_books p m n (cleared_books m False (pending_books m 0 0 v))"
    using activatePending_effect by blast
  have "vb_shares v m = 0" using member_facts(5) [OF assms(1,2)] .
  then show ?thesis using assms(4-6) n
    by (auto simp: classifyDepositStatus_def bare_status_def books_updates)
qed


section \<open>The refusals against the contract\<close>

lemma shares_le_total: "vault_reachable p v \<Longrightarrow> vb_shares v m \<le> vb_totalShares v"
  using reachable_ok [of p v] totals_ge [of "vb_shares v" "vb_totalShares v" m] member_facts(4) [of p v]
  by (simp add: books_ok_def)

lemma nonCreator_nonneg:
  assumes "vault_reachable p v"
  shows "0 \<le> vb_nonCreator v"
proof -
  have "totals_to (heads p v) (vb_nonCreator v)" using reachable_ok [OF assms] by (simp add: books_ok_def)
  then show ?thesis by (rule totals_nonneg) simp
qed

lemma creatorGateRefusal_is_gate:
  assumes "vault_reachable p v" "lc m = m" "lc (vp_creator p) = vp_creator p" "0 < burn" "burn \<le> vb_shares v m"
    and "toBig shares = Some (vb_shares v m)" "toBig supply = Some (vb_totalShares v)"
    and "toBig others = Some (vb_nonCreator v)" "toBig burning = Some burn"
  shows "creatorGateRefusal (Some (vp_creator p)) (Some m) shares supply others burning =
    (if creator_gate p m burn v then Allowed else Refused ''CreatorStakeGate'')"
  using assms shares_le_total [OF assms(1), of m] nonCreator_nonneg [OF assms(1)]
  by (auto simp: creatorGateRefusal_def creator_gate_def CREATOR_MIN_STAKE_BPS_def CREATOR_MIN_STAKE_def)

lemma request_settles:
  assumes "vault_exec p e m (CRequestExit n) v = Inr v'" "\<not> ve_pendingExecution e"
  shows "vb_shares v' m = vb_shares v m - n \<and> vb_queued v' m = vb_queued v m"
proof -
  have "v' = burnt_books p m n v" using assms settleExit_effect by (auto split: if_splits)
  then show ?thesis by (simp add: burnt_books_def)
qed

lemma request_queues:
  assumes "vault_exec p e m (CRequestExit n) v = Inr v'" "ve_pendingExecution e"
  shows "vb_shares v' m = vb_shares v m \<and> vb_queued v' m = n"
  using assms by (auto split: if_splits)

lemma request_gate:
  assumes "0 < n" "n \<le> vb_shares v m" "vb_queued v m = 0"
  shows "vault_exec p e m (CRequestExit n) v = Inl RvCreatorStakeGate \<longleftrightarrow> \<not> creator_gate p m n v"
  using assms by (auto simp: sol_settleExit_def Let_def split: payout_read.split)


text \<open>The fee shown before signing bounds the one charged at any later settlement without a new deposit.\<close>

theorem fee_ceiling_is_a_ceiling:
  assumes "exitFeeCeiling (Some (RBig maxBps)) (Some (RBig period)) (Some (RBig tenure)) = Some c"
    and "0 \<le> maxBps" "0 \<le> tenure" "tenure \<le> later"
  shows "exitFeeBps (terms maxBps period later) sole \<le> c"
proof -
  have c: "c = exitFeeBps (terms maxBps period tenure) False" using assms(1) by (simp add: exitFeeCeiling_def)
  show ?thesis
    using exitFeeBps_antimono [OF assms(2-4), of period] exitFeeBps_bounds [OF assms(2,3), of period False]
    unfolding c by (cases sole) (simp_all add: exitFeeBps_def [of _ True])
qed


section \<open>A run of a small vault\<close>

definition sample_params :: vault_params where
  "sample_params = \<lparr> vp_creator = ''c'', vp_minDeposit = 1000000, vp_cap = 0 \<rparr>"

definition sample_env :: "int \<Rightarrow> int option \<Rightarrow> vault_env" where
  "sample_env now nav = \<lparr> ve_now = now, ve_nav = nav, ve_pendingExecution = False,
     ve_payout = (if nav = None then PayoutStale else PayoutPriced) \<rparr>"

definition sample_facts :: "bool option \<Rightarrow> bool \<Rightarrow> bool \<Rightarrow> bool \<Rightarrow> vault_facts" where
  "sample_facts frozen holds waits matured = \<lparr> vf_frozen = frozen, vf_attested = True, vf_exitMode = ModeI, vf_isMember = holds,
     vf_hasPendingDeposit = waits, vf_pendingMatured = matured, vf_hasQueuedExit = False, vf_capacityFull = False,
     vf_capacityKnown = None, vf_isCreatorBelowGate = False, vf_walletConnected = None \<rparr>"

definition books_waiting :: vault_books where
  "books_waiting = pending_books ''a'' 2000000 14500 fresh_books"

definition books_holding :: vault_books where
  "books_holding = minted_books sample_params ''a'' (2 * 10 ^ 18) (cleared_books ''a'' False (pending_books ''a'' 0 0 books_waiting))"

definition books_second :: vault_books where
  "books_second = pending_books ''b'' 1000000 29000 books_holding"

lemmas sample_books = books_waiting_def books_holding_def books_second_def fresh_books_def books_updates
lemmas sample_run = sample_books sample_params_def sample_env_def sample_facts_def

lemma waiting_reachable: "vault_reachable sample_params books_waiting"
  by (rule vault_reachable.call [OF vault_reachable.fresh, of _ "sample_env 100 (Some 0)" "''a''" "CDeposit 2000000 (Some 2000000) 0"])
     (simp_all add: sample_run sol_depositCall_def OBSERVATION_WINDOW_def)

lemma waiting_activates:
  "vault_exec sample_params (sample_env 14600 (Some 0)) ''a'' (CActivate ''a'') books_waiting = Inr books_holding"
  by (simp add: sample_run sol_activatePending_def sol_mint_def USDC_SCALAR_def fun_eq_iff)

lemma holding_reachable: "vault_reachable sample_params books_holding"
  by (rule vault_reachable.call [OF waiting_reachable waiting_activates])

lemma second_reachable: "vault_reachable sample_params books_second"
  by (rule vault_reachable.call [OF holding_reachable, of "sample_env 14600 (Some (2 * 10 ^ 18))" "''b''" "CDeposit 1000000 (Some 1000000) 0"])
     (simp add: sample_run sol_depositCall_def OBSERVATION_WINDOW_def)

lemma ok_verdict_is_accepted_witness:
  "case vault_exec sample_params (sample_env 14600 (Some 0)) ''a'' (CActivate ''a'') books_waiting of
     Inr v' \<Rightarrow> vault_reachable sample_params v' | Inl r \<Rightarrow> r \<in> residual (CActivate ''a'')"
  by (rule ok_verdict_is_accepted [OF waiting_reachable, of _ "sample_facts (Some False) False True True"])
     (simp_all add: sample_run env_ok_def facts_true_def actions_def activate_verdict_def verdict_simps)


lemma unknown_freeze_is_not_warned_witness:
  "vault_exec sample_params (sample_env 30000 None) ''b'' CSkip books_second = Inl RvStaleOracle"
  using unknown_freeze_is_not_warned [OF second_reachable, of "sample_env 30000 None" "sample_facts None False True True" "''b''"]
  by (simp add: sample_run facts_true_def)

lemma deposit_status_is_the_contracts_witness:
  "ds_state (classifyDepositStatus (RBig 2000000) (SecNum (Some 14500)) (RBig 0) (SecNum (Some 200))) = DsWaiting"
proof -
  have p: "nonNegativeBig (RBig 2000000) = Some (vb_pending books_waiting ''a'')"
    by (simp add: nonNegativeBig_def sample_run)
  have s: "nonNegativeBig (RBig 0) = Some (vb_shares books_waiting ''a'')" by (simp add: nonNegativeBig_def sample_run)
  have c: "nonNegativeSec (SecNum (Some 14500)) = Some (of_int (vb_availableAt books_waiting ''a''))"
    by (simp add: nonNegativeSec_def sample_run)
  have n: "nonNegativeSec (SecNum (Some 200)) = Some (of_int (ve_now (sample_env 200 None)))"
    by (simp add: nonNegativeSec_def sample_run)
  have st: "sol_deposit_status books_waiting (ve_now (sample_env 200 None)) ''a'' = DsWaiting"
    by (simp add: sol_deposit_status_def sample_run)
  show ?thesis
    using deposit_status_is_the_contracts [OF waiting_reachable, of "RBig 2000000" "''a''" "RBig 0" "SecNum (Some 14500)"
      "SecNum (Some 200)" "sample_env 200 None"] c
    unfolding p s n st by (simp add: sample_run)
qed

lemma torn_read_hides_a_deposit_witness:
  "ds_state (classifyDepositStatus (RBig 0) SecOther (RBig 0) (SecBig 14600)) = DsNone \<and> vb_shares books_holding ''a'' > 0"
  using torn_read_hides_a_deposit [OF waiting_reachable _ waiting_activates, of "RBig 0" "RBig 0" "SecBig 14600" SecOther]
  by (simp add: sample_run nonNegativeBig_def nonNegativeSec_def)



end
