(* ===== verification/Web_View.thy ===== *)
theory Web_View
  imports Web_Member
begin

text \<open>
  A vault as one page shows it, \<open>apps/web/src/vault-view.mjs\<close>: the health of its price feeds and the
  freeze derived from it, the member's position and voting stake, and the facts the verdicts of theory
  Web_Member are taken from. Whole seconds are integers; a timestamp that is not a finite number is \<open>None\<close>.
\<close>

section \<open>The feeds\<close>

text \<open>The balance is \<open>None\<close> when the entry has no such field.\<close>

record basket_asset =
  ba_symbol :: string
  ba_balance :: "js_raw option"
  ba_oracleUpdatedAt :: "int option"
  ba_maxStalenessSec :: "int option"

datatype feed_state = Unheld | FeedUnknown | Stale | Ageing | Fresh

record feed_health =
  fh_symbol :: string
  fh_state :: feed_state
  fh_ageSec :: "int option"
  fh_boundSec :: "int option"
  fh_overBySec :: "int option"

record oracle_health =
  oh_assets :: "feed_health list"
  oh_frozen :: bool
  oh_determinable :: bool
  oh_culprits :: "string list"

definition feed_health_of :: "int \<Rightarrow> basket_asset \<Rightarrow> feed_health" where
  "feed_health_of nowSec a =
     (let bare = (\<lambda>s. \<lparr> fh_symbol = ba_symbol a, fh_state = s, fh_ageSec = None, fh_boundSec = None, fh_overBySec = None \<rparr>) in
      if (case ba_balance a of Some b \<Rightarrow> toBig b = Some 0 | None \<Rightarrow> False) then bare Unheld
      else (case (ba_oracleUpdatedAt a, ba_maxStalenessSec a) of
          (Some updated, Some bound) \<Rightarrow>
            let age = max 0 (nowSec - updated) in
            if age > bound then \<lparr> fh_symbol = ba_symbol a, fh_state = Stale, fh_ageSec = Some age,
                                  fh_boundSec = Some bound, fh_overBySec = Some (age - bound) \<rparr>
            else \<lparr> fh_symbol = ba_symbol a, fh_state = (if age * 10 > bound * 8 then Ageing else Fresh),
                   fh_ageSec = Some age, fh_boundSec = Some bound, fh_overBySec = None \<rparr>
        | _ \<Rightarrow> bare FeedUnknown))"

definition oracleHealth :: "basket_asset list \<Rightarrow> int \<Rightarrow> oracle_health" where
  "oracleHealth basket nowSec =
     (let assets = map (feed_health_of nowSec) basket;
          stale = filter (\<lambda>a. fh_state a = Stale) assets;
          unknown = filter (\<lambda>a. fh_state a = FeedUnknown) assets
      in \<lparr> oh_assets = assets, oh_frozen = (length stale > 0), oh_determinable = (length unknown = 0),
           oh_culprits = map fh_symbol stale \<rparr>)"

section \<open>The position\<close>

datatype voting_reason = VotesParent | VotesQueued | VotesFull

record voting =
  vt_shares :: int
  vt_lockedShares :: int
  vt_eligibleShares :: int
  vt_isParentVault :: bool
  vt_reason :: voting_reason

definition votingEligibility :: "int \<Rightarrow> int \<Rightarrow> bool \<Rightarrow> voting" where
  "votingEligibility shares queuedExitShares isParentVault =
     (if isParentVault
      then \<lparr> vt_shares = shares, vt_lockedShares = 0, vt_eligibleShares = 0, vt_isParentVault = True, vt_reason = VotesParent \<rparr>
      else let locked = (if queuedExitShares > shares then shares else queuedExitShares) in
        \<lparr> vt_shares = shares, vt_lockedShares = locked, vt_eligibleShares = shares - locked, vt_isParentVault = False,
          vt_reason = (if locked > 0 then VotesQueued else VotesFull) \<rparr>)"

record vault_record =
  vr_address :: string
  vr_frozen :: "bool option"
  vr_attested :: bool
  vr_basket :: "basket_asset list"
  vr_navWad :: js_raw
  vr_totalShares :: js_raw
  vr_totalPendingUsdc :: js_raw
  vr_capacityCapUsdc :: js_raw
  vr_parent :: "string option"
  vr_exitFeeMaxBps :: js_raw
  vr_exitFeeDecayPeriodSec :: js_raw
  vr_proposal :: active_proposal
  vr_depth :: int
  vr_exitFeeMaxBpsByLevel :: "int list"

record holding =
  hd_vault :: string
  hd_shares :: js_raw
  hd_costBasisUsdc :: js_raw
  hd_queuedExitShares :: js_raw
  hd_lastDepositTime :: "int option"

record pending_entry =
  pe_vault :: string
  pe_availableAt :: "int option"

record wallet =
  wl_address :: "string option"
  wl_positions :: "holding list"
  wl_pending :: "pending_entry list"

record member_position =
  mp_shares :: int
  mp_valueUsdc :: "int option"
  mp_costBasisUsdc :: "int option"
  mp_pnlUsdc :: "int option"
  mp_tenureSec :: int
  mp_feeBpsNow :: int
  mp_isSoleHolder :: bool
  mp_queuedExitShares :: int
  mp_voting :: voting

definition eqAddr :: "string option \<Rightarrow> string option \<Rightarrow> bool" where
  "eqAddr a b \<longleftrightarrow> lc (case a of None \<Rightarrow> [] | Some x \<Rightarrow> x) = lc (case b of None \<Rightarrow> [] | Some x \<Rightarrow> x)"

definition position :: "vault_record \<Rightarrow> holding option \<Rightarrow> int \<Rightarrow> string option \<Rightarrow> member_position option" where
  "position vault h nowSec viewerAddress = (case h of
      None \<Rightarrow> None
    | Some h \<Rightarrow>
        let shares = big_or_zero (hd_shares h);
            totalShares = big_or_zero (vr_totalShares vault);
            navWad = toBig (vr_navWad vault);
            basis = toBig (hd_costBasisUsdc h);
            valueUsdc = (case navWad of
                None \<Rightarrow> None
              | Some nav \<Rightarrow> if vr_frozen vault = Some False \<and> totalShares > 0
                  then Some (bdiv (bdiv (nav * shares) totalShares) USDC_SCALAR) else None);
            tenureSec = max 0 (nowSec - (case hd_lastDepositTime h of None \<Rightarrow> nowSec | Some t \<Rightarrow> t));
            isSoleHolder = (totalShares > 0 \<and> shares = totalShares);
            queuedExitShares = big_or_zero (hd_queuedExitShares h)
        in Some \<lparr> mp_shares = shares, mp_valueUsdc = valueUsdc, mp_costBasisUsdc = basis,
             mp_pnlUsdc = (case (valueUsdc, basis) of (Some x, Some b) \<Rightarrow> Some (x - b) | _ \<Rightarrow> None),
             mp_tenureSec = tenureSec,
             mp_feeBpsNow = exitFeeBps \<lparr> ft_exitFeeMaxBps = vr_exitFeeMaxBps vault,
               ft_exitFeeDecayPeriodSec = vr_exitFeeDecayPeriodSec vault, ft_tenureSec = RNum tenureSec \<rparr> isSoleHolder,
             mp_isSoleHolder = isSoleHolder, mp_queuedExitShares = queuedExitShares,
             mp_voting = votingEligibility shares queuedExitShares
               (vr_parent vault \<noteq> None \<and> eqAddr viewerAddress (vr_parent vault)) \<rparr>)"

section \<open>The view\<close>

record vault_view =
  vw_holding :: "holding option"
  vw_pendingDeposit :: "pending_entry option"
  vw_position :: "member_position option"
  vw_oracle :: oracle_health
  vw_frozen :: "bool option"
  vw_capacity :: capacity_view
  vw_mode :: exit_mode
  vw_facts :: vault_facts
  vw_status :: status_key
  vw_actions :: vault_actions
  vw_levels :: int
  vw_stackedPerfFeeBps :: int
  vw_stackedExitFeeCapBps :: int

definition derived_frozen :: "vault_record \<Rightarrow> oracle_health \<Rightarrow> bool option" where
  "derived_frozen vault oracle =
     (if vr_frozen vault = Some True \<or> oh_frozen oracle then Some True
      else if vr_frozen vault = None \<or> \<not> oh_determinable oracle then None
      else Some False)"

definition view_facts ::
  "vault_record \<Rightarrow> wallet option \<Rightarrow> int \<Rightarrow> bool option \<Rightarrow> member_position option \<Rightarrow> pending_entry option \<Rightarrow> capacity_view \<Rightarrow> vault_facts" where
  "view_facts vault w nowSec frozen pos pending cap =
     \<lparr> vf_frozen = frozen, vf_attested = vr_attested vault, vf_exitMode = resolveExitMode (vr_proposal vault) nowSec,
       vf_isMember = (case pos of Some x \<Rightarrow> mp_shares x > 0 | None \<Rightarrow> False),
       vf_hasPendingDeposit = (pending \<noteq> None),
       vf_pendingMatured = (case pending of
           Some x \<Rightarrow> (case pe_availableAt x of Some t \<Rightarrow> nowSec \<ge> t | None \<Rightarrow> False)
         | None \<Rightarrow> False),
       vf_hasQueuedExit = (case pos of Some x \<Rightarrow> mp_queuedExitShares x > 0 | None \<Rightarrow> False),
       vf_capacityFull = (cp_capped cap \<and> cp_determinable cap \<and> cp_headroom cap = Some 0),
       vf_capacityKnown = Some (cp_determinable cap),
       vf_isCreatorBelowGate = False,
       vf_walletConnected = Some (w \<noteq> None) \<rparr>"

definition vaultView :: "vault_record \<Rightarrow> wallet option \<Rightarrow> int \<Rightarrow> vault_view" where
  "vaultView vault w nowSec =
     (let h = (case w of None \<Rightarrow> None | Some x \<Rightarrow> find (\<lambda>p. eqAddr (Some (hd_vault p)) (Some (vr_address vault))) (wl_positions x));
          pending = (case w of None \<Rightarrow> None | Some x \<Rightarrow> find (\<lambda>p. eqAddr (Some (pe_vault p)) (Some (vr_address vault))) (wl_pending x));
          oracle = oracleHealth (vr_basket vault) nowSec;
          frozen = derived_frozen vault oracle;
          navWadRaw = toBig (vr_navWad vault);
          cap = capacity (case navWadRaw of None \<Rightarrow> RAbsent | Some nav \<Rightarrow> RBig (bdiv nav USDC_SCALAR))
                  (vr_totalPendingUsdc vault) (vr_capacityCapUsdc vault);
          pos = position (vault\<lparr>vr_frozen := frozen\<rparr>) h nowSec (case w of None \<Rightarrow> None | Some x \<Rightarrow> wl_address x);
          facts = view_facts vault w nowSec frozen pos pending cap;
          levels = vr_depth vault + 1
      in \<lparr> vw_holding = h, vw_pendingDeposit = pending, vw_position = pos, vw_oracle = oracle, vw_frozen = frozen,
           vw_capacity = cap, vw_mode = resolveExitMode (vr_proposal vault) nowSec, vw_facts = facts,
           vw_status = vaultStatus facts, vw_actions = actions facts, vw_levels = levels,
           vw_stackedPerfFeeBps = stackedPerfFeeBps levels,
           vw_stackedExitFeeCapBps = stackedExitFeeCapBps (take (nat levels) (vr_exitFeeMaxBpsByLevel vault)) \<rparr>)"

section \<open>The view against the contract\<close>

text \<open>What the vault holds of an asset, and the feed behind it.\<close>

record vault_asset =
  vs_balance :: int
  vs_updatedAt :: int
  vs_maxStaleness :: int

text \<open>\<open>navWad\<close> prices every asset with a balance; one stale feed among them reverts it.\<close>

definition sol_frozen :: "vault_asset list \<Rightarrow> int \<Rightarrow> bool" where
  "sol_frozen assets now \<longleftrightarrow> (\<exists>a \<in> set assets. vs_balance a \<noteq> 0 \<and> now - vs_updatedAt a > vs_maxStaleness a)"

text \<open>An entry carries some of the asset's fields; the ones it carries are the chain's.\<close>

definition asset_reads :: "basket_asset \<Rightarrow> vault_asset \<Rightarrow> bool" where
  "asset_reads b a \<longleftrightarrow> (case ba_balance b of None \<Rightarrow> True | Some x \<Rightarrow> toBig x \<in> {None, Some (vs_balance a)})
     \<and> ba_oracleUpdatedAt b \<in> {None, Some (vs_updatedAt a)} \<and> ba_maxStalenessSec b \<in> {None, Some (vs_maxStaleness a)}"

definition balance_read :: "basket_asset \<Rightarrow> bool" where
  "balance_read b \<longleftrightarrow> (case ba_balance b of None \<Rightarrow> False | Some x \<Rightarrow> toBig x \<noteq> None)"

definition sol_votingEligibleShares :: "string option \<Rightarrow> vault_books \<Rightarrow> string \<Rightarrow> int" where
  "sol_votingEligibleShares parent v m = (if parent = Some m then 0 else vb_shares v m - vb_queued v m)"

lemma feed_stale:
  assumes "asset_reads b a" "vs_updatedAt a \<le> now" "balance_read b"
  shows "fh_state (feed_health_of now b) = Stale \<Longrightarrow> vs_balance a \<noteq> 0 \<and> now - vs_updatedAt a > vs_maxStaleness a"
    and "vs_balance a \<noteq> 0 \<Longrightarrow> now - vs_updatedAt a > vs_maxStaleness a \<Longrightarrow> fh_state (feed_health_of now b) \<in> {Stale, FeedUnknown}"
  using assms by (auto simp: feed_health_of_def asset_reads_def balance_read_def Let_def split: option.splits if_splits)

lemma feed_not_missed:
  assumes "asset_reads b a" "vs_updatedAt a \<le> now" "vs_balance a \<noteq> 0" "now - vs_updatedAt a > vs_maxStaleness a"
  shows "fh_state (feed_health_of now b) \<in> {Stale, FeedUnknown}"
  using assms by (auto simp: feed_health_of_def asset_reads_def Let_def split: option.splits if_splits)

lemma list_all2_of_left: "list_all2 P xs ys \<Longrightarrow> x \<in> set xs \<Longrightarrow> \<exists>y \<in> set ys. P x y"
  by (auto simp: list_all2_conv_all_nth in_set_conv_nth) (metis nth_mem)

lemma list_all2_of_right: "list_all2 P xs ys \<Longrightarrow> y \<in> set ys \<Longrightarrow> \<exists>x \<in> set xs. P x y"
  by (auto simp: list_all2_conv_all_nth in_set_conv_nth) (metis nth_mem)

lemma oracle_frozen: "oh_frozen (oracleHealth basket now) \<longleftrightarrow> (\<exists>b \<in> set basket. fh_state (feed_health_of now b) = Stale)"
  by (auto simp: oracleHealth_def Let_def filter_empty_conv)

lemma oracle_determinable: "oh_determinable (oracleHealth basket now) \<longleftrightarrow> (\<forall>b \<in> set basket. fh_state (feed_health_of now b) \<noteq> FeedUnknown)"
  by (auto simp: oracleHealth_def Let_def filter_empty_conv)

lemma vaultView_fields:
  "vw_frozen (vaultView r w now) = derived_frozen r (oracleHealth (vr_basket r) now)"
  "vw_oracle (vaultView r w now) = oracleHealth (vr_basket r) now"
  "vw_actions (vaultView r w now) = actions (vw_facts (vaultView r w now))"
  "vf_frozen (vw_facts (vaultView r w now)) = vw_frozen (vaultView r w now)"
  by (simp_all add: vaultView_def Let_def view_facts_def)

lemma frozen_not_missed:
  assumes "list_all2 asset_reads (vr_basket r) assets" "\<And>a. a \<in> set assets \<Longrightarrow> vs_updatedAt a \<le> now"
    and "derived_frozen r (oracleHealth (vr_basket r) now) = Some False"
  shows "\<not> sol_frozen assets now"
proof
  assume "sol_frozen assets now"
  then obtain a where a: "a \<in> set assets" "vs_balance a \<noteq> 0" "now - vs_updatedAt a > vs_maxStaleness a"
    by (auto simp: sol_frozen_def)
  obtain b where b: "b \<in> set (vr_basket r)" "asset_reads b a" using list_all2_of_right [OF assms(1) a(1)] by blast
  show False
    using feed_not_missed [OF b(2) assms(2) [OF a(1)] a(2,3)] b(1) assms(3)
    by (auto simp: derived_frozen_def oracle_frozen oracle_determinable split: if_splits)
qed

lemma frozen_exact:
  assumes "list_all2 asset_reads (vr_basket r) assets" "\<And>a. a \<in> set assets \<Longrightarrow> vs_updatedAt a \<le> now"
    and "list_all balance_read (vr_basket r)" "vr_frozen r \<in> {None, Some (sol_frozen assets now)}"
  shows "derived_frozen r (oracleHealth (vr_basket r) now) \<in> {None, Some (sol_frozen assets now)}"
proof -
  have "sol_frozen assets now" if stale: "oh_frozen (oracleHealth (vr_basket r) now)"
  proof -
    obtain b where b: "b \<in> set (vr_basket r)" "fh_state (feed_health_of now b) = Stale" using stale by (auto simp: oracle_frozen)
    obtain a where a: "a \<in> set assets" "asset_reads b a" using list_all2_of_left [OF assms(1) b(1)] by blast
    show ?thesis
      using feed_stale(1) [OF a(2) assms(2) [OF a(1)] _ b(2)] assms(3) a(1) b(1) by (auto simp: sol_frozen_def list_all_iff)
  qed
  moreover have "derived_frozen r (oracleHealth (vr_basket r) now) = Some False \<Longrightarrow> \<not> sol_frozen assets now"
    using frozen_not_missed [OF assms(1,2)] by blast
  ultimately show ?thesis using assms(4) by (auto simp: derived_frozen_def split: if_splits)
qed



text \<open>The record and the wallet are readings of the vault's state, at the time of the block.\<close>

definition wallet_reads :: "vault_record \<Rightarrow> wallet \<Rightarrow> vault_books \<Rightarrow> string \<Rightarrow> bool" where
  "wallet_reads r x v m \<longleftrightarrow>
     (case find (\<lambda>h. eqAddr (Some (hd_vault h)) (Some (vr_address r))) (wl_positions x) of
        None \<Rightarrow> vb_shares v m = 0
      | Some h \<Rightarrow> toBig (hd_shares h) = Some (vb_shares v m) \<and> toBig (hd_queuedExitShares h) = Some (vb_queued v m))
     \<and> (case find (\<lambda>q. eqAddr (Some (pe_vault q)) (Some (vr_address r))) (wl_pending x) of
        None \<Rightarrow> vb_pending v m = 0
      | Some q \<Rightarrow> vb_pending v m > 0 \<and> pe_availableAt q = Some (vb_availableAt v m))"

definition record_reads :: "vault_record \<Rightarrow> vault_params \<Rightarrow> vault_env \<Rightarrow> vault_books \<Rightarrow> vault_asset list \<Rightarrow> bool" where
  "record_reads r p e v assets \<longleftrightarrow>
     list_all2 asset_reads (vr_basket r) assets \<and> list_all balance_read (vr_basket r)
     \<and> (\<forall>a \<in> set assets. vs_updatedAt a \<le> ve_now e) \<and> (ve_nav e = None \<longleftrightarrow> sol_frozen assets (ve_now e))
     \<and> vr_frozen r \<in> {None, Some (ve_nav e = None)}
     \<and> toBig (vr_navWad r) = ve_nav e \<and> (case ve_nav e of None \<Rightarrow> True | Some nav \<Rightarrow> 0 \<le> nav)
     \<and> toBig (vr_totalPendingUsdc r) = Some (vb_totalPending v) \<and> toBig (vr_capacityCapUsdc r) = Some (vp_cap p)
     \<and> (case vr_proposal r of
          ProposalUnknown \<Rightarrow> True
        | NoProposal \<Rightarrow> \<not> ve_pendingExecution e
        | Proposal w \<Rightarrow> \<exists>sp. carries w sp \<and> sol_pending (Some sp) (ve_now e) = ve_pendingExecution e)"

lemma view_mode:
  assumes "record_reads r p e v assets"
  shows "resolveExitMode (vr_proposal r) (ve_now e) \<in> {ModeUnknown, if ve_pendingExecution e then ModeF else ModeI}"
proof (cases "vr_proposal r")
  case (Proposal w)
  then obtain sp where sp: "carries w sp" "sol_pending (Some sp) (ve_now e) = ve_pendingExecution e"
    using assms by (auto simp: record_reads_def)
  show ?thesis using resolveExitMode_matches_contract [OF sp(1) refl, of "ve_now e"] sp(2) Proposal
    by (cases "resolveExitMode (Proposal w) (ve_now e)") auto
qed (use assms in \<open>auto simp: record_reads_def resolveExitMode_def hasPendingExecution_def\<close>)

lemma bdiv_pos: "0 \<le> a \<Longrightarrow> 0 < b \<Longrightarrow> bdiv a b = a div b"
  by simp

lemma view_capacity:
  assumes "record_reads r p e v assets"
    and "cap = capacity (case toBig (vr_navWad r) of None \<Rightarrow> RAbsent | Some nav \<Rightarrow> RBig (bdiv nav USDC_SCALAR))
           (vr_totalPendingUsdc r) (vr_capacityCapUsdc r)"
    and "cp_capped cap" "cp_determinable cap" "cp_headroom cap = Some 0"
  shows "at_capacity p e v"
  using assms
  by (cases "ve_nav e")
     (auto simp: capacity_def record_reads_def at_capacity_def big_or_zero_def Let_def USDC_SCALAR_def split: if_splits)

lemma view_facts_true:
  assumes "record_reads r p e v assets" "wallet_reads r x v m" "vault_reachable p v"
    and "\<And>n. c = CRequestExit n \<Longrightarrow> creator_gate p m n v"
  shows "facts_true (vw_facts (vaultView r (Some x) (ve_now e))) p e v m c"
proof -
  let ?view = "vaultView r (Some x) (ve_now e)"
  let ?f = "vw_facts ?view"
  have frozen: "vf_frozen ?f \<in> {None, Some (ve_nav e = None)}"
    unfolding vaultView_fields
    using frozen_exact [of r assets "ve_now e"] assms(1) by (auto simp: record_reads_def)
  have mode: "vf_exitMode ?f \<in> {ModeUnknown, if ve_pendingExecution e then ModeF else ModeI}"
    using view_mode [OF assms(1)] by (simp add: vaultView_def view_facts_def Let_def)
  have held: "vf_isMember ?f = (vb_shares v m > 0)" "vf_hasQueuedExit ?f = (vb_queued v m > 0)"
    using assms(2) member_facts(2,3) [OF assms(3), of m]
    by (auto simp: vaultView_def view_facts_def position_def wallet_reads_def big_or_zero_def Let_def split: option.splits)
  have pending: "vf_hasPendingDeposit ?f = (vb_pending v m > 0)"
    "vf_pendingMatured ?f = (vb_pending v m > 0 \<and> ve_now e \<ge> vb_availableAt v m)"
    using assms(2) by (auto simp: vaultView_def view_facts_def wallet_reads_def Let_def split: option.splits)
  have full: "vf_capacityFull ?f \<longrightarrow> at_capacity p e v"
    using view_capacity [OF assms(1) refl] by (simp add: vaultView_def view_facts_def Let_def)
  have gate: "case c of CRequestExit n \<Rightarrow> vf_isCreatorBelowGate ?f = (\<not> creator_gate p m n v) | _ \<Rightarrow> True"
    using assms(4) by (auto simp: vaultView_def view_facts_def Let_def split: vault_call.split)
  show ?thesis unfolding facts_true_def using frozen mode held pending full gate by blast
qed


text \<open>
  The page never looks at the creator gate: a creator whose exit the contract reverts with
  \<open>CreatorStakeGate\<close>, whatever it asks for, is offered the exit as \<open>ok\<close> when it settles now.
\<close>

theorem page_ignores_the_creator_gate:
  assumes "vault_reachable p v" "record_reads r p e v assets" "wallet_reads r x v m"
    and "own_call p v m (CRequestExit n)" "vb_queued v m = 0" "\<not> creator_gate p m n v"
  defines "view \<equiv> vaultView r (Some x) (ve_now e)"
  assumes "vw_frozen view = Some False" "vw_mode view = ModeI"
  shows "va_exit (vw_actions view) = ok \<and> vault_exec p e m (CRequestExit n) v = Inl RvCreatorStakeGate"
proof -
  let ?f = "vw_facts view"
  have f: "facts_true ?f p e v m CCancel"
    unfolding view_def by (rule view_facts_true [OF assms(2,3,1)]) simp
  have "\<not> vf_isCreatorBelowGate ?f" "vf_exitMode ?f = ModeI" "vf_frozen ?f = Some False"
    using assms(8,9) by (simp_all add: view_def vaultView_def view_facts_def Let_def)
  then have "exit_verdict ?f = ok"
    using f assms(4,5) by (simp add: exit_verdict_def facts_true_def)
  moreover have "vault_exec p e m (CRequestExit n) v = Inl RvCreatorStakeGate"
    using request_gate [of n v m p e] assms(4-6) by (simp del: vault_exec.simps)
  ultimately show ?thesis by (simp add: view_def vaultView_fields actions_def)
qed

text \<open>
  The voting stake shown is \<open>votingEligibleShares\<close>, and on a state of the contract the clamp that
  guards against more queued than held never bites.
\<close>

theorem voting_stake_is_the_contracts:
  assumes "vault_reachable p v" "lc m = m"
    and "toBig (hd_shares h) = Some (vb_shares v m)" "toBig (hd_queuedExitShares h) = Some (vb_queued v m)"
    and "vr_parent r = None \<or> (\<exists>q. vr_parent r = Some q \<and> lc q = q)"
    and "position r (Some h) now (Some m) = Some pos"
  shows "vt_eligibleShares (mp_voting pos) = sol_votingEligibleShares (vr_parent r) v m
    \<and> vt_lockedShares (mp_voting pos) = (if vr_parent r = Some m then 0 else vb_queued v m)"
  using assms member_facts(3) [OF assms(1), of m]
  by (auto simp: position_def votingEligibility_def sol_votingEligibleShares_def eqAddr_def big_or_zero_def Let_def)


section \<open>A page over the small vault\<close>

definition sample_page :: "int \<Rightarrow> int \<Rightarrow> int \<Rightarrow> vault_record" where
  "sample_page nav supply pending = \<lparr> vr_address = ''0xv'', vr_frozen = Some False, vr_attested = True,
     vr_basket = [\<lparr> ba_symbol = ''BTC'', ba_balance = Some (RBig 0), ba_oracleUpdatedAt = Some 1000, ba_maxStalenessSec = Some 60 \<rparr>],
     vr_navWad = RBig nav, vr_totalShares = RBig supply, vr_totalPendingUsdc = RBig pending, vr_capacityCapUsdc = RBig 0,
     vr_parent = None, vr_exitFeeMaxBps = RBig 100, vr_exitFeeDecayPeriodSec = RBig 1000, vr_proposal = NoProposal,
     vr_depth = 0, vr_exitFeeMaxBpsByLevel = [100] \<rparr>"

definition sample_wallet :: "string \<Rightarrow> holding list \<Rightarrow> pending_entry list \<Rightarrow> wallet" where
  "sample_wallet m hs ps = \<lparr> wl_address = Some m, wl_positions = hs, wl_pending = ps \<rparr>"

definition sample_assets :: "vault_asset list" where
  "sample_assets = [\<lparr> vs_balance = 0, vs_updatedAt = 1000, vs_maxStaleness = 60 \<rparr>]"

definition creator_holding :: holding where
  "creator_holding = \<lparr> hd_vault = ''0xv'', hd_shares = RBig (2 * 10 ^ 18), hd_costBasisUsdc = RAbsent,
     hd_queuedExitShares = RBig 0, hd_lastDepositTime = None \<rparr>"

lemmas sample_view = sample_page_def sample_wallet_def sample_assets_def creator_holding_def

definition creator_waiting :: vault_books where
  "creator_waiting = pending_books ''c'' 2000000 29000 books_holding"

definition creator_in :: vault_books where
  "creator_in = minted_books sample_params ''c'' (2 * 10 ^ 18) (cleared_books ''c'' False (pending_books ''c'' 0 0 creator_waiting))"

lemma creator_waiting_reachable: "vault_reachable sample_params creator_waiting"
  by (rule vault_reachable.call [OF holding_reachable, of "sample_env 14600 (Some (2 * 10 ^ 18))" "''c''" "CDeposit 2000000 (Some 2000000) 0"])
     (simp add: creator_waiting_def sample_run sol_depositCall_def OBSERVATION_WINDOW_def)

lemma creator_in_reachable: "vault_reachable sample_params creator_in"
  by (rule vault_reachable.call [OF creator_waiting_reachable, of "sample_env 29000 (Some (2 * 10 ^ 18))" "''c''" "CActivate ''c''"])
     (simp add: creator_in_def creator_waiting_def sample_run sol_activatePending_def sol_mint_def USDC_SCALAR_def fun_eq_iff)


lemma sample_record_reads:
  "5000 \<le> now \<Longrightarrow> vb_totalPending v = pending \<Longrightarrow> 0 \<le> nav \<Longrightarrow>
   record_reads (sample_page nav supply pending) sample_params (sample_env now (Some nav)) v sample_assets"
  by (simp add: record_reads_def sample_view sample_env_def sample_params_def asset_reads_def balance_read_def sol_frozen_def)


lemma page_ignores_the_creator_gate_witness:
  "vault_exec sample_params (sample_env 30000 (Some (4 * 10 ^ 18))) ''c'' (CRequestExit (2 * 10 ^ 18)) creator_in = Inl RvCreatorStakeGate"
proof -
  let ?r = "sample_page (4 * 10 ^ 18) (4 * 10 ^ 18) 0" and ?e = "sample_env 30000 (Some (4 * 10 ^ 18))"
  let ?w = "sample_wallet ''c'' [creator_holding] []"
  note creator = creator_in_def creator_waiting_def sample_run
  have reads: "record_reads ?r sample_params ?e creator_in sample_assets"
    by (rule sample_record_reads) (simp_all add: creator)
  have w: "wallet_reads ?r ?w creator_in ''c''"
    by (simp add: wallet_reads_def sample_view creator eqAddr_def)
  have gate: "own_call sample_params creator_in ''c'' (CRequestExit (2 * 10 ^ 18))" "vb_queued creator_in ''c'' = 0"
    "\<not> creator_gate sample_params ''c'' (2 * 10 ^ 18) creator_in"
    by (simp_all add: creator creator_gate_def FEE_BPS_def CREATOR_MIN_STAKE_def)
  have view: "vw_frozen (vaultView ?r (Some ?w) (ve_now ?e)) = Some False" "vw_mode (vaultView ?r (Some ?w) (ve_now ?e)) = ModeI"
    by (simp_all add: vaultView_def derived_frozen_def oracle_frozen oracle_determinable sample_view feed_health_of_def Let_def
      resolveExitMode_def hasPendingExecution_def)
  show ?thesis
    using page_ignores_the_creator_gate [OF creator_in_reachable reads w gate view] by blast
qed

end
