(* ===== verification/Web_Reader.thy ===== *)
theory Web_Reader
  imports Web_View
begin

text \<open>
  A vault read from the chain, \<open>apps/web/src/chain-reader.mjs\<close>: which calls each round makes (\<open>plan\<dots>\<close>) and
  what the answers mean (\<open>assemble\<dots>\<close>). The transport between the two is the caller's. A decoded answer of
  unknown shape is a \<open>js_any\<close>; an answer whose type the code relies on is that type. Deadlines are below
  \<open>2\<^sup>53\<close>, where \<open>Number\<close> is exact.
\<close>

section \<open>The planned calls\<close>

datatype call_arg = ArgAddress string | ArgNumber int

record planned_call =
  pc_address :: string
  pc_abi :: string
  pc_fn :: string
  pc_args :: "call_arg list"

definition planned :: "string \<Rightarrow> string \<Rightarrow> string \<Rightarrow> call_arg list \<Rightarrow> planned_call" where
  "planned address abi fn args = \<lparr> pc_address = address, pc_abi = abi, pc_fn = fn, pc_args = args \<rparr>"

definition planCore :: "string \<Rightarrow> planned_call list" where
  "planCore vault =
     [planned vault ''VAULT_VIEWS'' ''navWad'' [], planned vault ''VAULT_VIEWS'' ''totalShares'' [],
      planned vault ''VAULT_VIEWS'' ''idleUsdc'' [], planned vault ''VAULT_VIEWS'' ''usdcScalar'' [],
      planned vault ''VAULT_VIEWS'' ''totalPendingUsdc'' [], planned vault ''VAULT_VIEWS'' ''basketLength'' [],
      planned vault ''VAULT_VIEWS'' ''childVaultCount'' [], planned vault ''VAULT_VIEWS'' ''oracle'' [],
      planned vault ''VAULT_VIEWS'' ''governance'' [], planned vault ''VAULT_VIEWS'' ''creator'' [],
      planned vault ''VAULT_VIEWS'' ''operatorRegistry'' [], planned vault ''VAULT_VIEWS'' ''holderCount'' [],
      planned vault ''VAULT_VIEWS'' ''nonCreatorMemberCount'' []]"

definition planBasketAssets :: "string \<Rightarrow> int \<Rightarrow> planned_call list" where
  "planBasketAssets vault basketLength =
     map (\<lambda>i. planned vault ''VAULT_VIEWS'' ''basketAssets'' [ArgNumber i]) [0..basketLength - 1]"

definition planProposalId :: "string \<Rightarrow> string \<Rightarrow> planned_call list" where
  "planProposalId governance vault =
     [planned governance ''GOVERNANCE_VIEWS'' ''activeProposalOf'' [ArgAddress vault],
      planned governance ''GOVERNANCE_VIEWS'' ''configOf'' [ArgAddress vault]]"

definition planLegs :: "string \<Rightarrow> string \<Rightarrow> string list \<Rightarrow> planned_call list" where
  "planLegs vault oracle assets = concat (map (\<lambda>a.
     [planned vault ''VAULT_VIEWS'' ''assetUnit'' [ArgAddress a], planned vault ''VAULT_VIEWS'' ''assetBalance'' [ArgAddress a],
      planned oracle ''CHAINLINK_ORACLE_VIEWS'' ''priceWad'' [ArgAddress a],
      planned oracle ''CHAINLINK_ORACLE_VIEWS'' ''feedOf'' [ArgAddress a]]) assets)"

definition planProposal :: "string \<Rightarrow> int \<Rightarrow> planned_call list" where
  "planProposal governance pid =
     [planned governance ''GOVERNANCE_VIEWS'' ''proposals'' [ArgNumber pid],
      planned governance ''GOVERNANCE_VIEWS'' ''delegatedForWeight'' [ArgNumber pid]]"

definition planLegSafety :: "string \<Rightarrow> string list \<Rightarrow> planned_call list" where
  "planLegSafety vault assets = concat (map (\<lambda>a.
     [planned a ''TOKEN_SAFETY_VIEWS'' ''paused'' [], planned a ''TOKEN_SAFETY_VIEWS'' ''isBlacklisted'' [ArgAddress vault]]) assets)"

definition planFeeds :: "string list \<Rightarrow> planned_call list" where
  "planFeeds feeds = map (\<lambda>f. planned f ''AGGREGATOR_V3_VIEWS'' ''latestRoundData'' []) feeds"

definition planClaimableEscrow :: "string \<Rightarrow> string option \<Rightarrow> string list \<Rightarrow> planned_call list" where
  "planClaimableEscrow vault who assets = (case who of
      None \<Rightarrow> []
    | Some m \<Rightarrow> if m = [] then [] else map (\<lambda>a. planned vault ''VAULT_VIEWS'' ''claimable'' [ArgAddress m, ArgAddress a]) assets)"

definition planFactoryAllVaults :: "string \<Rightarrow> nat \<Rightarrow> planned_call list" where
  "planFactoryAllVaults factory n =
     map (\<lambda>i. planned factory ''VAULT_FACTORY_VIEWS'' ''allVaults'' [ArgNumber (int i)]) [0..<n]"

definition planPosition :: "string \<Rightarrow> string \<Rightarrow> planned_call list" where
  "planPosition vault who = map (\<lambda>f. planned vault ''VAULT_VIEWS'' f [ArgAddress who]) [''sharesOf'', ''queuedExitShares'', ''costBasisUsdc'']"

definition planVoteCommit :: "string \<Rightarrow> int \<Rightarrow> string \<Rightarrow> planned_call list" where
  "planVoteCommit governance pid who =
     map (\<lambda>f. planned governance ''GOVERNANCE_VIEWS'' f [ArgNumber pid, ArgAddress who]) [''commitOf'', ''revealedOf'', ''revealedSupportOf'']"

definition planWiringLockCore :: "string \<Rightarrow> string \<Rightarrow> planned_call list" where
  "planWiringLockCore operatorRegistry governance =
     [planned operatorRegistry ''OPERATOR_REGISTRY_VIEWS'' ''factory'' [], planned operatorRegistry ''OPERATOR_REGISTRY_VIEWS'' ''feeEngine'' [],
      planned governance ''GOVERNANCE_VIEWS'' ''subVaultRegistry'' []]"

definition planWiringLockSubVaultFactory :: "string \<Rightarrow> planned_call list" where
  "planWiringLockSubVaultFactory subVaultRegistry = [planned subVaultRegistry ''SUBVAULT_REGISTRY_VIEWS'' ''factory'' []]"

definition planAllowSubVaults :: "string \<Rightarrow> planned_call list" where
  "planAllowSubVaults factory = [planned factory ''VAULT_FACTORY_VIEWS'' ''allowSubVaults'' []]"

definition planFactoryVaultCount :: "string \<Rightarrow> planned_call list" where
  "planFactoryVaultCount factory = [planned factory ''VAULT_FACTORY_VIEWS'' ''vaultCount'' []]"

section \<open>Answers\<close>

datatype js_any = AnyBool bool | AnyBig int | AnyText string | AnyOther

definition isNonZeroAddressHex :: "js_any \<Rightarrow> bool" where
  "isNonZeroAddressHex v = (case v of AnyText s \<Rightarrow> is_address s \<and> lc s \<noteq> ''0x'' @ replicate 40 (CHR ''0'') | _ \<Rightarrow> False)"

record wiring_reads =
  wr_operatorFactory :: "js_any \<times> int option"
  wr_operatorFeeEngine :: "js_any \<times> int option"
  wr_govSubVaultRegistry :: "js_any \<times> int option"
  wr_subVaultRegistryFactory :: "js_any \<times> int option"

record wiring_lock =
  wk_operatorFactory :: "string \<times> int option"
  wk_operatorFeeEngine :: "string \<times> int option"
  wk_govSubVaultRegistry :: "string \<times> int option"
  wk_subVaultRegistryFactory :: "string \<times> int option"

text \<open>One latch with the time it was read: its address when it is an exact nonzero one.\<close>

definition latch :: "js_any \<times> int option \<Rightarrow> (string \<times> int option) option" where
  "latch r = (case r of (AnyText s, t) \<Rightarrow> if isNonZeroAddressHex (AnyText s) then Some (s, t) else None | _ \<Rightarrow> None)"

definition assembleWiringLock :: "wiring_reads \<Rightarrow> wiring_lock option" where
  "assembleWiringLock r = (case (latch (wr_operatorFactory r), latch (wr_operatorFeeEngine r),
                                 latch (wr_govSubVaultRegistry r), latch (wr_subVaultRegistryFactory r)) of
      (Some a, Some b, Some c, Some d) \<Rightarrow>
        Some \<lparr> wk_operatorFactory = a, wk_operatorFeeEngine = b, wk_govSubVaultRegistry = c, wk_subVaultRegistryFactory = d \<rparr>
    | _ \<Rightarrow> None)"

lemma wiring_lock_is_all_or_nothing:
  "assembleWiringLock r \<noteq> None \<longleftrightarrow>
     isNonZeroAddressHex (fst (wr_operatorFactory r)) \<and> isNonZeroAddressHex (fst (wr_operatorFeeEngine r)) \<and>
     isNonZeroAddressHex (fst (wr_govSubVaultRegistry r)) \<and> isNonZeroAddressHex (fst (wr_subVaultRegistryFactory r))"
proof -
  have latch: "latch x \<noteq> None \<longleftrightarrow> isNonZeroAddressHex (fst x)" for x
    by (auto simp: latch_def isNonZeroAddressHex_def split: prod.splits js_any.splits)
  show ?thesis
    using latch[of "wr_operatorFactory r"] latch[of "wr_operatorFeeEngine r"]
      latch[of "wr_govSubVaultRegistry r"] latch[of "wr_subVaultRegistryFactory r"]
    by (auto simp: assembleWiringLock_def split: option.splits)
qed

definition assembleAllowSubVaults :: "js_any \<Rightarrow> bool option" where
  "assembleAllowSubVaults v = (case v of AnyBool b \<Rightarrow> Some b | _ \<Rightarrow> None)"

fun assembleClaimableEscrow ::
  "(string \<times> js_any \<times> int option) list \<Rightarrow> (string \<times> int \<times> int option) list \<times> (string \<times> int option) list" where
  "assembleClaimableEscrow [] = ([], [])"
| "assembleClaimableEscrow ((asset, v, readAt) # entries) =
     (let (claimable, unread) = assembleClaimableEscrow entries in
      case v of
        AnyBig n \<Rightarrow> if n > 0 then ((asset, n, readAt) # claimable, unread) else (claimable, unread)
      | _ \<Rightarrow> (claimable, (asset, readAt) # unread))"

datatype manifest = Verified | NotFound | ManifestUnknown

fun resolve_vaults :: "js_any list \<Rightarrow> string list option" where
  "resolve_vaults [] = Some []"
| "resolve_vaults (v # vs) = (case v of
      AnyText s \<Rightarrow> if is_address s then map_option (\<lambda>xs. lc s # xs) (resolve_vaults vs) else None
    | _ \<Rightarrow> None)"

definition assembleManifestCheck :: "string \<Rightarrow> js_any \<Rightarrow> js_any list \<Rightarrow> manifest" where
  "assembleManifestCheck vaultAddress countValue allVaultsValues = (case countValue of
      AnyBig n \<Rightarrow>
        if int (length allVaultsValues) \<noteq> n then ManifestUnknown
        else (case resolve_vaults allVaultsValues of
            None \<Rightarrow> ManifestUnknown
          | Some resolved \<Rightarrow> if lc vaultAddress \<in> set resolved then Verified else NotFound)
    | _ \<Rightarrow> ManifestUnknown)"

section \<open>The basket\<close>

definition navPerShareWad :: "int \<Rightarrow> int \<Rightarrow> int" where
  "navPerShareWad navWad totalShares = (if totalShares = 0 then 0 else bdiv (navWad * 10 ^ 18) totalShares)"

record leg =
  lg_address :: "string option"
  lg_symbol :: string
  lg_decimals :: int
  lg_assetUnit :: int
  lg_balance :: int
  lg_priceWad :: int
  lg_feed :: string
  lg_oracleUpdatedAt :: int
  lg_maxStalenessSec :: int
  lg_weightBps :: int
  lg_valueWad :: int

definition legValueWad :: "leg \<Rightarrow> int" where
  "legValueWad l = (if lg_assetUnit l = 0 then 0 else bdiv (lg_balance l * lg_priceWad l) (lg_assetUnit l))"

definition weightsBps :: "leg list \<Rightarrow> int \<Rightarrow> int list" where
  "weightsBps legs navWad = (if navWad = 0 then map (\<lambda>_. 0) legs else map (\<lambda>l. bdiv (lg_valueWad l * 10000) navWad) legs)"

record leg_reads =
  lr_address :: "string option"
  lr_symbol :: "string option"
  lr_decimals :: "int option"
  lr_assetUnit :: int
  lr_balance :: int
  lr_priceWad :: int
  lr_feed :: string
  lr_heartbeat :: int
  lr_oracleUpdatedAt :: int

definition assembleLeg :: "leg_reads \<Rightarrow> leg" where
  "assembleLeg r =
     (let l = \<lparr> lg_address = lr_address r, lg_symbol = (case lr_symbol r of None \<Rightarrow> [] | Some s \<Rightarrow> s),
                lg_decimals = (case lr_decimals r of None \<Rightarrow> 0 | Some d \<Rightarrow> d), lg_assetUnit = lr_assetUnit r,
                lg_balance = lr_balance r, lg_priceWad = lr_priceWad r, lg_feed = lr_feed r,
                lg_oracleUpdatedAt = lr_oracleUpdatedAt r, lg_maxStalenessSec = lr_heartbeat r, lg_weightBps = 0, lg_valueWad = 0 \<rparr>
      in l\<lparr>lg_valueWad := legValueWad l\<rparr>)"

datatype paused_state = PausedActive | Paused | PausedUnknown
datatype blacklist_state = Clear | Blacklisted | BlacklistUnknown

record leg_safety =
  sf_address :: "string option"
  sf_paused :: paused_state
  sf_pausedReadAt :: "int option"
  sf_blacklisted :: blacklist_state
  sf_blacklistedReadAt :: "int option"

definition lcAddr :: "string option \<Rightarrow> string" where
  "lcAddr a = (case a of Some s \<Rightarrow> lc s | None \<Rightarrow> [])"

definition LEG_SAFETY_UNREAD :: leg_safety where
  "LEG_SAFETY_UNREAD = \<lparr> sf_address = None, sf_paused = PausedUnknown, sf_pausedReadAt = None,
     sf_blacklisted = BlacklistUnknown, sf_blacklistedReadAt = None \<rparr>"

definition assembleLegSafety :: "string option \<Rightarrow> js_any \<Rightarrow> int option \<Rightarrow> js_any \<Rightarrow> int option \<Rightarrow> leg_safety" where
  "assembleLegSafety address pausedValue pausedReadAt blacklistedValue blacklistedReadAt =
     \<lparr> sf_address = address,
       sf_paused = (case pausedValue of AnyBool True \<Rightarrow> Paused | AnyBool False \<Rightarrow> PausedActive | _ \<Rightarrow> PausedUnknown),
       sf_pausedReadAt = pausedReadAt,
       sf_blacklisted = (case blacklistedValue of AnyBool True \<Rightarrow> Blacklisted | AnyBool False \<Rightarrow> Clear | _ \<Rightarrow> BlacklistUnknown),
       sf_blacklistedReadAt = blacklistedReadAt \<rparr>"

definition safety_key :: "leg_safety option \<Rightarrow> string" where
  "safety_key r = lcAddr (case r of None \<Rightarrow> None | Some x \<Rightarrow> sf_address x)"

text \<open>The loop over the safety records: the map under construction and the addresses named twice.\<close>

fun index_safety ::
  "leg_safety option list \<Rightarrow> (string \<rightharpoonup> leg_safety) \<times> string set \<Rightarrow> (string \<rightharpoonup> leg_safety) \<times> string set" where
  "index_safety [] acc = acc"
| "index_safety (r # rs) (byAddress, ambiguous) =
     (let key = safety_key r in
      if key = [] then index_safety rs (byAddress, ambiguous)
      else if byAddress key \<noteq> None \<or> key \<in> ambiguous then index_safety rs (byAddress(key := None), insert key ambiguous)
      else index_safety rs (byAddress(key := r), ambiguous))"

record basket_leg =
  bl_leg :: leg
  bl_paused :: paused_state
  bl_pausedReadAt :: "int option"
  bl_blacklisted :: blacklist_state
  bl_blacklistedReadAt :: "int option"

section \<open>The proposal\<close>

definition PROPOSAL_TYPE_BY_ORDINAL :: "string list" where
  "PROPOSAL_TYPE_BY_ORDINAL = [''Rebalance'', ''RuleChange'', ''ChildAllocation'']"

definition PROPOSAL_STATUS_BY_ORDINAL :: "string list" where
  "PROPOSAL_STATUS_BY_ORDINAL = [''None'', ''Active'', ''Passed'', ''Defeated'', ''Executed'', ''Expired'']"

definition by_ordinal :: "string list \<Rightarrow> int \<Rightarrow> string option" where
  "by_ordinal names n = (if 0 \<le> n \<and> nat n < length names then Some (names ! nat n) else None)"

record proposal_reads =
  pq_ptype :: int
  pq_proposer :: string
  pq_createdAt :: int
  pq_commitDeadline :: int
  pq_revealDeadline :: int
  pq_executableAt :: int
  pq_expiresAt :: int
  pq_status :: int
  pq_actionHash :: string
  pq_snapshotTotal :: int
  pq_memberCount :: int
  pq_forWeight :: int
  pq_againstWeight :: int
  pq_revealedWeight :: int
  pq_revealedVoterCount :: int

text \<open>The record is the one \<open>governance.mjs\<close> reads: its phase fields, and its tally.\<close>

record proposal_record =
  po_pid :: int
  po_ptype :: string
  po_proposer :: string
  po_createdAt :: int
  po_phase :: web_proposal
  po_actionHash :: string
  po_snapshotTotal :: int
  po_memberCount :: int
  po_forWeight :: int
  po_againstWeight :: int
  po_revealedWeight :: int
  po_revealedVoterCount :: int
  po_delegatedForWeight :: "int option"

definition deadline_at :: "int \<Rightarrow> int option" where
  "deadline_at v = (if v = 0 then None else Some v)"

definition assembleProposal :: "int \<Rightarrow> proposal_reads option \<Rightarrow> int option \<Rightarrow> proposal_record option" where
  "assembleProposal pid p delegatedForWeight = (case p of
      None \<Rightarrow> None
    | Some q \<Rightarrow>
        if pid = 0 then None
        else (case by_ordinal PROPOSAL_STATUS_BY_ORDINAL (pq_status q) of
            None \<Rightarrow> None
          | Some status \<Rightarrow>
              if status = ''None'' then None
              else Some \<lparr> po_pid = pid,
                po_ptype = (case by_ordinal PROPOSAL_TYPE_BY_ORDINAL (pq_ptype q) of None \<Rightarrow> ''unknown'' | Some t \<Rightarrow> t),
                po_proposer = pq_proposer q, po_createdAt = pq_createdAt q,
                po_phase = \<lparr> wp_status = status, wp_commitDeadline = deadline_at (pq_commitDeadline q),
                  wp_revealDeadline = deadline_at (pq_revealDeadline q), wp_executableAt = deadline_at (pq_executableAt q),
                  wp_expiresAt = deadline_at (pq_expiresAt q) \<rparr>,
                po_actionHash = pq_actionHash q, po_snapshotTotal = pq_snapshotTotal q, po_memberCount = pq_memberCount q,
                po_forWeight = pq_forWeight q, po_againstWeight = pq_againstWeight q, po_revealedWeight = pq_revealedWeight q,
                po_revealedVoterCount = pq_revealedVoterCount q, po_delegatedForWeight = delegatedForWeight \<rparr>))"

section \<open>The vault\<close>

record vault_reads =
  rr_address :: string
  rr_navWad :: "int option"
  rr_totalShares :: int
  rr_idleUsdc :: int
  rr_totalPendingUsdc :: int
  rr_childVaultCount :: "int option"
  rr_legs :: "leg list"
  rr_legSafety :: "leg_safety option list"
  rr_proposal :: "proposal_record option"
  rr_attested :: "bool option"
  rr_holderCount :: "int option"
  rr_nonCreatorMemberCount :: "int option"
  rr_blockNumber :: "int option"

record chain_vault =
  cv_address :: string
  cv_attested :: bool
  cv_frozen :: bool
  cv_navWad :: int
  cv_navPerShareWad :: int
  cv_totalShares :: int
  cv_idleUsdc :: int
  cv_totalPendingUsdc :: int
  cv_holderCount :: int
  cv_nonCreatorMemberCount :: "int option"
  cv_childVaultCount :: int
  cv_basket :: "basket_leg list"
  cv_proposal :: "proposal_record option"
  cv_blockNumber :: "int option"

definition merge_leg :: "(string \<rightharpoonup> leg_safety) \<Rightarrow> leg \<times> int \<Rightarrow> basket_leg" where
  "merge_leg byAddress = (\<lambda>(l, w).
     (let safety = (case byAddress (lcAddr (lg_address l)) of None \<Rightarrow> LEG_SAFETY_UNREAD | Some s \<Rightarrow> s) in
      \<lparr> bl_leg = l\<lparr>lg_weightBps := w\<rparr>, bl_paused = sf_paused safety, bl_pausedReadAt = sf_pausedReadAt safety,
        bl_blacklisted = sf_blacklisted safety, bl_blacklistedReadAt = sf_blacklistedReadAt safety \<rparr>))"

definition assembleVault :: "vault_reads \<Rightarrow> chain_vault" where
  "assembleVault r =
     (let frozen = (rr_navWad r = None);
          navWad = (case rr_navWad r of None \<Rightarrow> 0 | Some n \<Rightarrow> n);
          legs = rr_legs r;
          weights = weightsBps legs navWad;
          (byAddress, ambiguous) = index_safety (rr_legSafety r) (Map.empty, {})
      in \<lparr> cv_address = rr_address r, cv_attested = (case rr_attested r of None \<Rightarrow> False | Some b \<Rightarrow> b), cv_frozen = frozen,
           cv_navWad = navWad, cv_navPerShareWad = (if frozen then 0 else navPerShareWad navWad (rr_totalShares r)),
           cv_totalShares = rr_totalShares r, cv_idleUsdc = rr_idleUsdc r, cv_totalPendingUsdc = rr_totalPendingUsdc r,
           cv_holderCount = (case rr_holderCount r of None \<Rightarrow> 0 | Some n \<Rightarrow> n),
           cv_nonCreatorMemberCount = rr_nonCreatorMemberCount r,
           cv_childVaultCount = (case rr_childVaultCount r of None \<Rightarrow> 0 | Some n \<Rightarrow> n),
           cv_basket = map (merge_leg byAddress) (zip legs weights),
           cv_proposal = rr_proposal r, cv_blockNumber = rr_blockNumber r \<rparr>)"


section \<open>What the reader establishes\<close>

text \<open>The legs' safety: the map holds exactly the addresses that one record names.\<close>

definition named_by :: "string \<Rightarrow> leg_safety option list \<Rightarrow> leg_safety list" where
  "named_by key rs = filter (\<lambda>s. lcAddr (sf_address s) = key) (List.map_filter id rs)"

lemma named_by_simps [simp]:
  "named_by key [] = []"
  "named_by key (None # rs) = named_by key rs"
  "named_by key (Some s # rs) = (if lcAddr (sf_address s) = key then s # named_by key rs else named_by key rs)"
  by (simp_all add: named_by_def map_filter_simps)

definition only_record :: "string \<Rightarrow> leg_safety option list \<Rightarrow> leg_safety option" where
  "only_record key rs = (case named_by key rs of [s] \<Rightarrow> if key = [] then None else Some s | _ \<Rightarrow> None)"

lemma lcAddr_None: "lcAddr None = []" by (simp add: lcAddr_def)

lemma safety_key_Some: "safety_key r = key \<Longrightarrow> key \<noteq> [] \<Longrightarrow> \<exists>s. r = Some s \<and> lcAddr (sf_address s) = key"
  by (cases r) (auto simp: safety_key_def lcAddr_None)

lemma named_by_other: "safety_key r \<noteq> key \<Longrightarrow> named_by key (r # rs) = named_by key rs"
  by (cases r) (auto simp: safety_key_def)

lemma index_ambiguous:
  "key \<in> amb \<Longrightarrow> m key = None \<Longrightarrow> fst (index_safety rs (m, amb)) key = None"
proof (induction rs arbitrary: m amb)
  case (Cons r rs)
  show ?case
    using Cons by (cases "safety_key r = key") (auto simp: Let_def)
qed simp

lemma index_taken:
  "m key = Some s \<Longrightarrow> key \<notin> amb \<Longrightarrow> key \<noteq> [] \<Longrightarrow>
   fst (index_safety rs (m, amb)) key = (if named_by key rs = [] then Some s else None)"
proof (induction rs arbitrary: m amb)
  case (Cons r rs)
  show ?case
  proof (cases "safety_key r = key")
    case True
    then obtain x where x: "r = Some x" "lcAddr (sf_address x) = key" using safety_key_Some Cons.prems(3) by blast
    have "fst (index_safety (r # rs) (m, amb)) key = fst (index_safety rs (m(key := None), insert key amb)) key"
      using True Cons.prems by (simp add: Let_def)
    also have "\<dots> = None" by (rule index_ambiguous) simp_all
    finally show ?thesis using x by simp
  next
    case False
    then show ?thesis unfolding named_by_other [OF False] using Cons by (auto simp: Let_def)
  qed
qed simp

lemma index_fresh:
  "m key = None \<Longrightarrow> key \<notin> amb \<Longrightarrow> key \<noteq> [] \<Longrightarrow> fst (index_safety rs (m, amb)) key = only_record key rs"
proof (induction rs arbitrary: m amb)
  case (Cons r rs)
  show ?case
  proof (cases "safety_key r = key")
    case True
    then obtain x where x: "r = Some x" "lcAddr (sf_address x) = key" using safety_key_Some Cons.prems(3) by blast
    have "fst (index_safety (r # rs) (m, amb)) key = fst (index_safety rs (m(key := Some x), amb)) key"
      using True x Cons.prems by (simp add: Let_def)
    also have "\<dots> = (if named_by key rs = [] then Some x else None)"
      by (rule index_taken) (use Cons.prems in simp_all)
    finally show ?thesis using x Cons.prems(3) by (cases "named_by key rs") (simp_all add: only_record_def)
  next
    case False
    then show ?thesis unfolding only_record_def named_by_other [OF False] using Cons
      by (auto simp: Let_def only_record_def)
  qed
qed (simp add: only_record_def)

lemma index_nameless: "m [] = None \<Longrightarrow> fst (index_safety rs (m, amb)) [] = None"
  by (induction rs arbitrary: m amb) (auto simp: Let_def)

lemma index_is_only_record: "fst (index_safety rs (Map.empty, {})) key = only_record key rs"
proof (cases "key = []")
  case True
  have "only_record [] rs = None" by (auto simp: only_record_def split: list.split)
  then show ?thesis using True index_nameless [of Map.empty rs "{}"] by simp
qed (use index_fresh [of Map.empty key "{}" rs] in simp)

lemma named_by_mset: "mset rs = mset rs' \<Longrightarrow> mset (named_by key rs) = mset (named_by key rs')"
proof -
  assume a: "mset rs = mset rs'"
  have m: "mset (named_by key xs) = image_mset the (filter_mset (\<lambda>r. r \<noteq> None \<and> lcAddr (sf_address (the r)) = key) (mset xs))" for xs
  proof (induction xs)
    case (Cons r xs)
    then show ?case by (cases r) simp_all
  qed simp
  show ?thesis unfolding m a ..
qed

lemma only_record_mset: "mset rs = mset rs' \<Longrightarrow> only_record key rs = only_record key rs'"
proof -
  assume "mset rs = mset rs'"
  then have m: "mset (named_by key rs) = mset (named_by key rs')" by (rule named_by_mset)
  have "length xs = Suc 0 \<Longrightarrow> mset xs = mset ys \<Longrightarrow> xs = ys" for xs ys :: "leg_safety list"
    by (cases xs) auto
  then show ?thesis using m mset_eq_length [OF m]
    by (auto simp: only_record_def split: list.splits)
qed

lemma basket_of:
  "cv_basket (assembleVault r) = map (\<lambda>(l, w). merge_leg (\<lambda>key. only_record key (rr_legSafety r)) (l, w))
     (zip (rr_legs r) (weightsBps (rr_legs r) (case rr_navWad r of None \<Rightarrow> 0 | Some n \<Rightarrow> n)))"
proof -
  have "fst (index_safety (rr_legSafety r) (Map.empty, {})) = (\<lambda>key. only_record key (rr_legSafety r))"
    using index_is_only_record by (auto intro: ext)
  then show ?thesis
    by (simp add: assembleVault_def Let_def case_prod_unfold)
qed



text \<open>The tuple the reader decodes for a proposal of the contract; the status and the type are ordinals.\<close>

fun status_ordinal :: "sol_status \<Rightarrow> int" where
  "status_ordinal SNone = 0" | "status_ordinal SActive = 1" | "status_ordinal SPassed = 2"
| "status_ordinal SDefeated = 3" | "status_ordinal SExecuted = 4" | "status_ordinal SExpired = 5"

fun ptype_ordinal :: "sol_ptype \<Rightarrow> int" where
  "ptype_ordinal Rebalance = 0" | "ptype_ordinal RuleChange = 1" | "ptype_ordinal ChildAllocation = 2"

definition proposal_tuple :: "proposal_reads \<Rightarrow> sol_proposal \<Rightarrow> bool" where
  "proposal_tuple q sp \<longleftrightarrow> pq_ptype q = ptype_ordinal (sp_ptype sp) \<and> pq_status q = status_ordinal (sp_status sp)
     \<and> pq_commitDeadline q = sp_commitDeadline sp \<and> pq_revealDeadline q = sp_revealDeadline sp
     \<and> pq_executableAt q = sp_executableAt sp \<and> pq_expiresAt q = sp_expiresAt sp
     \<and> pq_snapshotTotal q = sp_snapshotTotal sp \<and> pq_memberCount q = sp_memberCount sp \<and> pq_forWeight q = sp_forWeight sp
     \<and> pq_revealedWeight q = sp_revealedWeight sp \<and> pq_revealedVoterCount q = sp_revealedVoterCount sp"

text \<open>What \<open>governance.mjs\<close> is handed: \<open>null\<close> is known absence, and the tally of the record.\<close>

definition active_of :: "proposal_record option \<Rightarrow> active_proposal" where
  "active_of r = (case r of None \<Rightarrow> NoProposal | Some x \<Rightarrow> Proposal (po_phase x))"

definition tally_of :: "proposal_record \<Rightarrow> int option \<Rightarrow> quorum_input" where
  "tally_of x quorumBps = \<lparr> qi_ptype = po_ptype x, qi_revealedWeight = JBig (po_revealedWeight x), qi_forWeight = JBig (po_forWeight x),
     qi_snapshotTotal = JBig (po_snapshotTotal x), qi_memberCount = Some (po_memberCount x), qi_quorumBps = quorumBps,
     qi_revealedVoterCount = Some (po_revealedVoterCount x),
     qi_delegatedForWeight = (case po_delegatedForWeight x of None \<Rightarrow> JNone | Some d \<Rightarrow> JBig d) \<rparr>"

text \<open>The contract sets the deadline that its own test of a pending execution reads.\<close>

definition deadlines_set :: "sol_proposal \<Rightarrow> bool" where
  "deadlines_set sp \<longleftrightarrow> (sp_status sp = SActive \<longrightarrow> sp_commitDeadline sp > 0) \<and> (sp_status sp = SPassed \<longrightarrow> sp_expiresAt sp > 0)"

lemma status_by_ordinal: "by_ordinal PROPOSAL_STATUS_BY_ORDINAL (status_ordinal st) = Some (status_name st)"
  by (cases st) (simp_all add: by_ordinal_def PROPOSAL_STATUS_BY_ORDINAL_def nat_numeral)

lemma ptype_by_ordinal: "by_ordinal PROPOSAL_TYPE_BY_ORDINAL (ptype_ordinal t) = Some (ptype_name t)"
  by (cases t) (simp_all add: by_ordinal_def PROPOSAL_TYPE_BY_ORDINAL_def nat_numeral)

lemma assembled_status:
  assumes "proposal_tuple q sp" "pid \<noteq> 0"
  shows "assembleProposal pid (Some q) d = None \<longleftrightarrow> sp_status sp = SNone"
    and "assembleProposal pid (Some q) d = Some x \<Longrightarrow> wp_status (po_phase x) = status_name (sp_status sp)"
  using assms by (cases "sp_status sp"; auto simp: assembleProposal_def proposal_tuple_def status_by_ordinal simp del: status_ordinal.simps split: if_splits)+

lemma assembled_fields:
  assumes "assembleProposal pid (Some q) d = Some x"
  shows "wp_commitDeadline (po_phase x) = deadline_at (pq_commitDeadline q)" "wp_expiresAt (po_phase x) = deadline_at (pq_expiresAt q)"
    "po_snapshotTotal x = pq_snapshotTotal q" "po_memberCount x = pq_memberCount q" "po_forWeight x = pq_forWeight q"
    "po_revealedWeight x = pq_revealedWeight q" "po_revealedVoterCount x = pq_revealedVoterCount q" "po_delegatedForWeight x = d"
    "po_ptype x = (case by_ordinal PROPOSAL_TYPE_BY_ORDINAL (pq_ptype q) of None \<Rightarrow> ''unknown'' | Some t \<Rightarrow> t)"
  using assms by (auto simp: assembleProposal_def split: if_splits option.splits)

lemma assembled_mode:
  assumes "proposal_tuple q sp" "pid \<noteq> 0" "deadlines_set sp"
  shows "resolveExitMode (active_of (assembleProposal pid (Some q) d)) now = (if sol_pending (Some sp) now then ModeF else ModeI)"
proof (cases "assembleProposal pid (Some q) d")
  case None
  then show ?thesis using assembled_status(1) [OF assms(1,2)]
    by (simp add: active_of_def resolveExitMode_def hasPendingExecution_def sol_pending_def)
next
  case (Some x)
  have st: "sp_status sp \<noteq> SNone" using Some assembled_status(1) [OF assms(1,2), of d] by auto
  show ?thesis
    using assms(1,3) st assembled_status(2) [OF assms(1,2) Some] assembled_fields(1,2) [OF Some] Some
    by (cases "sp_status sp")
       (simp_all add: active_of_def resolveExitMode_def hasPendingExecution_def sol_pending_def proposal_tuple_def deadlines_set_def
          deadline_at_def num_def)
qed

lemma assembled_ptype:
  assumes "proposal_tuple q sp" "assembleProposal pid (Some q) d = Some x"
  shows "po_ptype x = ptype_name (sp_ptype sp)"
  using assms assembled_fields(9) [OF assms(2)]
  by (simp add: proposal_tuple_def ptype_by_ordinal)

lemma full_tally_known:
  assumes "proposal_tuple q sp" "assembleProposal pid (Some q) (Some (sp_delegatedForWeight sp)) = Some x"
    and "sp_snapshotTotal sp \<noteq> 0" "0 < quorumBps" "0 < sp_memberCount sp"
  shows "\<exists>b. qr_met (quorumReadout (tally_of x (Some quorumBps))) = Some b"
proof -
  note fields = assembled_fields [OF assms(2)]
  show ?thesis
    using assms fields assembled_ptype [OF assms(1,2)]
    by (cases "sp_ptype sp")
       (auto simp: quorumReadout_def tally_of_def proposal_tuple_def stake_readout_def signers_readout_def readout_def num_def Let_def)
qed

text \<open>
  C25. Read from the chain, nothing about a proposal is unknown. For a proposal of the contract and its
  decoded tuple, the exit mode resolved by the app is the contract's answer to whether an execution is
  pending, in every status and at every time; and with the cranked weight read too, the quorum line has a
  verdict, and it is the one \<open>finalize\<close> computes.
\<close>

theorem chain_read_settles_the_proposal:
  assumes "proposal_tuple q sp" "pid \<noteq> 0" "deadlines_set sp"
    and "0 \<le> sp_delegatedForWeight sp" "sp_delegatedForWeight sp \<le> sp_forWeight sp"
    and "sp_snapshotTotal sp \<noteq> 0" "0 < quorumBps" "0 < sp_memberCount sp"
  defines "r \<equiv> assembleProposal pid (Some q) (Some (sp_delegatedForWeight sp))"
  shows "resolveExitMode (active_of r) now = (if sol_pending (Some sp) now then ModeF else ModeI)
    \<and> (\<forall>x. r = Some x \<longrightarrow> qr_met (quorumReadout (tally_of x (Some quorumBps))) = Some (sol_quorumOk sp quorumBps))"
proof (intro conjI allI impI)
  show "resolveExitMode (active_of r) now = (if sol_pending (Some sp) now then ModeF else ModeI)"
    unfolding r_def by (rule assembled_mode [OF assms(1-3)])
next
  fix x assume "r = Some x"
  then have x: "assembleProposal pid (Some q) (Some (sp_delegatedForWeight sp)) = Some x" by (simp add: r_def)
  obtain b where b: "qr_met (quorumReadout (tally_of x (Some quorumBps))) = Some b"
    using full_tally_known [OF assms(1) x assms(6-8)] by blast
  have "carries_tally (tally_of x (Some quorumBps)) sp quorumBps"
    using assembled_fields [OF x] assembled_ptype [OF assms(1) x] assms(1)
    by (simp add: carries_tally_def tally_of_def amount_of_def proposal_tuple_def)
  then show "qr_met (quorumReadout (tally_of x (Some quorumBps))) = Some (sol_quorumOk sp quorumBps)"
    using quorumReadout_met [OF _ assms(8) b assms(4,5)] b by simp
qed


lemma resolve_vaults_Some:
  "resolve_vaults vs = Some xs \<Longrightarrow> list_all2 (\<lambda>v x. \<exists>s. v = AnyText s \<and> is_address s \<and> x = lc s) vs xs"
  by (induction vs arbitrary: xs) (auto split: js_any.splits if_splits)

lemma resolve_vaults_texts: "list_all is_address vs \<Longrightarrow> resolve_vaults (map AnyText vs) = Some (map lc vs)"
  by (induction vs) auto

text \<open>
  The manifest check claims nothing it did not read. Against the factory's list of vaults, with any
  answer missing or undecodable, \<open>verified\<close> is given only to a vault on the list and \<open>not-found\<close> only to
  one that is not, in any letter case; with every answer in hand it is one of the two.
\<close>

theorem manifest_check_is_honest:
  fixes vault :: string and n :: int
  assumes "list_all is_address vaults"
    and "list_all2 (\<lambda>v a. a = AnyText v \<or> \<not> (\<exists>s. a = AnyText s \<and> is_address s)) vaults answers"
  defines "m \<equiv> assembleManifestCheck vault (AnyBig n) answers"
  shows "(m = Verified \<longrightarrow> lc vault \<in> lc ` set vaults) \<and> (m = NotFound \<longrightarrow> lc vault \<notin> lc ` set vaults)
    \<and> (answers = map AnyText vaults \<and> n = int (length vaults) \<longrightarrow> m \<noteq> ManifestUnknown)"
proof -
  have read: "answers = map AnyText vaults" if "resolve_vaults answers = Some xs" for xs
  proof -
    have "list_all2 (\<lambda>v x. \<exists>s. v = AnyText s \<and> is_address s \<and> x = lc s) answers xs"
      by (rule resolve_vaults_Some [OF that])
    then have "\<forall>i < length answers. \<exists>s. answers ! i = AnyText s \<and> is_address s"
      by (auto simp: list_all2_conv_all_nth)
    then show ?thesis using assms(2)
      by (intro nth_equalityI) (force simp: list_all2_conv_all_nth)+
  qed
  have resolved: "xs = map lc vaults" if "resolve_vaults answers = Some xs" for xs
    using resolve_vaults_texts [OF assms(1)] that unfolding read [OF that] by simp
  show ?thesis
  proof (cases "resolve_vaults answers")
    case None
    then have "answers \<noteq> map AnyText vaults" using resolve_vaults_texts [OF assms(1)] by auto
    then show ?thesis using None by (simp add: m_def assembleManifestCheck_def)
  next
    case (Some xs)
    have "m = (if int (length answers) \<noteq> n then ManifestUnknown else if lc vault \<in> lc ` set vaults then Verified else NotFound)"
      by (simp add: m_def assembleManifestCheck_def Some resolved [OF Some])
    then show ?thesis by auto
  qed
qed

text \<open>A token appears as claimable with its amount, as unread, or (a zero that was read) not at all.\<close>

lemma claimable_is_partition:
  "assembleClaimableEscrow entries =
     (List.map_filter (\<lambda>(a, v, t). case v of AnyBig n \<Rightarrow> if n > 0 then Some (a, n, t) else None | _ \<Rightarrow> None) entries,
      List.map_filter (\<lambda>(a, v, t). case v of AnyBig n \<Rightarrow> None | _ \<Rightarrow> Some (a, t)) entries)"
proof (induction entries)
  case (Cons e entries)
  obtain a v t where e: "e = (a, v, t)" by (cases e)
  show ?case by (cases v) (simp_all add: e Cons map_filter_simps)
qed (simp add: map_filter_simps)

text \<open>The calls of the third round come four to an asset, in basket order.\<close>

lemma planLegs_of_asset:
  assumes "i < length assets"
  shows "take 4 (drop (4 * i) (planLegs vault oracle assets)) = planLegs vault oracle [assets ! i]"
  using assms
proof (induction assets arbitrary: i)
  case (Cons a assets)
  show ?case
  proof (cases i)
    case (Suc j)
    have "drop (4 * i) (planLegs vault oracle (a # assets)) = drop (4 * j) (planLegs vault oracle assets)"
      by (simp add: planLegs_def Suc drop_Cons')
    then show ?thesis using Cons Suc by simp
  qed (simp add: planLegs_def)
qed simp

lemma sum_list_floor:
  assumes "0 < (n::int)"
  shows "sum_list (map (\<lambda>x. x * 10000 div n) xs) * n \<le> sum_list xs * 10000
    \<and> sum_list xs * 10000 - sum_list (map (\<lambda>x. x * 10000 div n) xs) * n \<le> int (length xs) * (n - 1)"
proof (induction xs)
  case (Cons x xs)
  define q where "q = x * 10000 div n"
  define S where "S = sum_list (map (\<lambda>x. x * 10000 div n) xs)"
  have x: "q * n \<le> x * 10000" "x * 10000 - q * n \<le> n - 1"
    using div_mult_mod_eq [of "x * 10000" n] pos_mod_bound [OF assms, of "x * 10000"] pos_mod_sign [OF assms, of "x * 10000"]
    unfolding q_def by linarith+
  have "(q + S) * n = q * n + S * n" "int (length (x # xs)) * (n - 1) = int (length xs) * (n - 1) + (n - 1)"
    by (simp_all add: algebra_simps)
  then show ?case using Cons x by (simp add: q_def [symmetric] S_def [symmetric])
qed simp

text \<open>
  The weights shown are shares of NAV. With non-negative leg values no larger than NAV together, the
  weights add up to at most 100%, each is the floor of the leg's share, and together they fall short of
  the legs' exact share of NAV by less than one basis point a leg; cash and child vaults are never
  counted as basket.
\<close>

theorem weights_are_shares_of_nav:
  assumes "0 < nav" "\<And>l. l \<in> set legs \<Longrightarrow> 0 \<le> lg_valueWad l" "sum_list (map lg_valueWad legs) \<le> nav"
  shows "list_all (\<lambda>w. 0 \<le> w) (weightsBps legs nav) \<and> sum_list (weightsBps legs nav) \<le> 10000
    \<and> sum_list (weightsBps legs nav) * nav \<le> sum_list (map lg_valueWad legs) * 10000
    \<and> sum_list (map lg_valueWad legs) * 10000 - sum_list (weightsBps legs nav) * nav \<le> int (length legs) * (nav - 1)"
proof -
  have w: "weightsBps legs nav = map (\<lambda>x. x * 10000 div nav) (map lg_valueWad legs)"
    using assms(1,2) by (simp add: weightsBps_def)
  have fl: "sum_list (weightsBps legs nav) * nav \<le> sum_list (map lg_valueWad legs) * 10000"
    "sum_list (map lg_valueWad legs) * 10000 - sum_list (weightsBps legs nav) * nav \<le> int (length legs) * (nav - 1)"
    using sum_list_floor [OF assms(1), of "map lg_valueWad legs"] unfolding w by simp_all
  have "sum_list (weightsBps legs nav) * nav \<le> 10000 * nav" using fl(1) assms(3) by simp
  then have "sum_list (weightsBps legs nav) \<le> 10000" using assms(1) by simp
  moreover have "list_all (\<lambda>w. 0 \<le> w) (weightsBps legs nav)"
    unfolding w using assms(1,2) by (simp add: list_all_iff pos_imp_zdiv_nonneg_iff)
  ultimately show ?thesis using fl by blast
qed


section \<open>Instances\<close>

definition sample_leg :: leg where
  "sample_leg = \<lparr> lg_address = Some ''0xA'', lg_symbol = ''BTC'', lg_decimals = 8, lg_assetUnit = 100, lg_balance = 50,
     lg_priceWad = 6, lg_feed = ''0xf'', lg_oracleUpdatedAt = 100, lg_maxStalenessSec = 60, lg_weightBps = 0, lg_valueWad = 3 \<rparr>"

definition sample_reads :: vault_reads where
  "sample_reads = \<lparr> rr_address = ''0xv'', rr_navWad = Some 10, rr_totalShares = 10, rr_idleUsdc = 0, rr_totalPendingUsdc = 0,
     rr_childVaultCount = None, rr_legs = [sample_leg],
     rr_legSafety = [None, Some (assembleLegSafety (Some ''0xa'') (AnyBool False) (Some 5) AnyOther None)],
     rr_proposal = None, rr_attested = None, rr_holderCount = None, rr_nonCreatorMemberCount = None, rr_blockNumber = None \<rparr>"

definition shown_leg :: basket_leg where
  "shown_leg = \<lparr> bl_leg = sample_leg\<lparr>lg_weightBps := 3000\<rparr>, bl_paused = PausedActive, bl_pausedReadAt = Some 5,
     bl_blacklisted = BlacklistUnknown, bl_blacklistedReadAt = None \<rparr>"

lemma sample_key: "lcAddr (Some ''0xA'') = ''0xa''" "lcAddr (Some ''0xa'') = ''0xa''"
  unfolding lcAddr_def by code_simp+

lemma sample_basket: "shown_leg \<in> set (cv_basket (assembleVault sample_reads))"
  unfolding basket_of
  by (simp add: sample_reads_def sample_leg_def shown_leg_def weightsBps_def merge_leg_def only_record_def assembleLegSafety_def sample_key)


definition sample_tuple :: proposal_reads where
  "sample_tuple = \<lparr> pq_ptype = 0, pq_proposer = ''0xp'', pq_createdAt = 1, pq_commitDeadline = 100, pq_revealDeadline = 200,
     pq_executableAt = 0, pq_expiresAt = 0, pq_status = 1, pq_actionHash = ''0x'', pq_snapshotTotal = 2000, pq_memberCount = 4,
     pq_forWeight = 900, pq_againstWeight = 0, pq_revealedWeight = 900, pq_revealedVoterCount = 3 \<rparr>"

lemma chain_read_settles_the_proposal_witness:
  "resolveExitMode (active_of (assembleProposal 7 (Some sample_tuple) (Some 200))) 150 = ModeF"
proof -
  have d: "sp_delegatedForWeight onchain_proposal = 200" by (simp add: onchain_proposal_def)
  have t: "proposal_tuple sample_tuple onchain_proposal" "deadlines_set onchain_proposal" "sol_pending (Some onchain_proposal) 150"
    by (simp_all add: proposal_tuple_def sample_tuple_def onchain_proposal_def deadlines_set_def sol_pending_def)
  have "resolveExitMode (active_of (assembleProposal 7 (Some sample_tuple) (Some (sp_delegatedForWeight onchain_proposal)))) 150
      = (if sol_pending (Some onchain_proposal) 150 then ModeF else ModeI)"
    by (rule conjunct1, rule chain_read_settles_the_proposal [OF t(1) _ t(2), of 7 3500]) (simp_all add: onchain_proposal_def)
  then show ?thesis using t(3) by (simp add: d)
qed

definition sample_vault_address :: string where
  "sample_vault_address = ''0x'' @ replicate 40 (CHR ''a'')"

lemma sample_vault_is_address: "is_address sample_vault_address"
  unfolding sample_vault_address_def by code_simp

lemma manifest_check_is_honest_witness:
  "assembleManifestCheck sample_vault_address (AnyBig 1) [AnyText sample_vault_address] \<noteq> ManifestUnknown"
  using manifest_check_is_honest [of "[sample_vault_address]" "[AnyText sample_vault_address]" sample_vault_address 1]
    sample_vault_is_address by simp

lemma weights_are_shares_of_nav_witness: "sum_list (weightsBps [sample_leg] 10) \<le> 10000"
  using weights_are_shares_of_nav [of 10 "[sample_leg]"] by (simp add: sample_leg_def)

end
