(* ===== verification/Web_Custody.thy ===== *)
theory Web_Custody
  imports Agent_Salt
begin

text \<open>
  A member's commit-reveal vote in the browser, \<open>apps/web/src/vote-custody.mjs\<close>, with the assembly of the
  three chain reads it starts from, \<open>assembleVoteCommit\<close> of \<open>chain-reader.mjs\<close>. No salt is stored: it is
  derived again from a signature and tried against the commitment on the chain. \<open>keccak256\<close>,
  \<open>encodeAbiParameters\<close> and \<open>signMessage\<close> are injected, so they are parameters here as in theory Agent_Salt,
  whose agent shares the scheme.
\<close>

section \<open>The code\<close>

datatype custody_error = VaultNotAnAddress string | NotASignature string | NotAHash string | NotASalt string

definition WEB_SALT_MESSAGE_PREFIX :: string where
  "WEB_SALT_MESSAGE_PREFIX = ''x402-vaults:reveal-salt:v1''"

definition VOTE_COMMIT_ZERO :: string where
  "VOTE_COMMIT_ZERO = ''0x'' @ replicate 64 (CHR ''0'')"

definition isHex32 :: "string \<Rightarrow> bool" where
  "isHex32 v \<longleftrightarrow> hex_string 64 v"

definition isPlausibleSignatureHex :: "string \<Rightarrow> bool" where
  "isPlausibleSignatureHex v \<longleftrightarrow> take 2 v = ''0x'' \<and> drop 2 v \<noteq> [] \<and> list_all hex_char (drop 2 v) \<and> length v > 4"

definition web_saltMessage :: "int \<Rightarrow> string \<Rightarrow> int \<Rightarrow> custody_error + string" where
  "web_saltMessage chainId vault pid =
     (if \<not> is_address vault then Inl (VaultNotAnAddress vault)
      else Inr (WEB_SALT_MESSAGE_PREFIX @ '':'' @ show_int chainId @ '':'' @ lc vault @ '':'' @ show_int pid))"

definition web_deriveSalt :: "hash \<Rightarrow> signer \<Rightarrow> int \<Rightarrow> string \<Rightarrow> int \<Rightarrow> custody_error + string" where
  "web_deriveSalt keccak sign chainId vault pid =
     bindE (web_saltMessage chainId vault pid) (\<lambda>msg.
     let signature = sign msg in
     if \<not> isPlausibleSignatureHex signature then Inl (NotASignature signature)
     else let salt = keccak signature in if \<not> isHex32 salt then Inl (NotAHash salt) else Inr salt)"

definition web_commitmentFor :: "hash \<Rightarrow> abi_encode \<Rightarrow> int \<Rightarrow> string \<Rightarrow> bool \<Rightarrow> string \<Rightarrow> custody_error + string" where
  "web_commitmentFor keccak encode pid voter support salt =
     (if \<not> isHex32 salt then Inl (NotASalt salt) else Inr (keccak (encode pid voter support salt)))"

text \<open>The reads of \<open>commitOf\<close>, \<open>revealedOf\<close> and \<open>revealedSupportOf\<close>; \<open>None\<close> is a read that gave nothing usable.\<close>

record vote_commit =
  vc_onChainCommitment :: "string option"
  vc_revealed :: "bool option"
  vc_revealedSupport :: "bool option"

definition assembleVoteCommit :: "string option \<Rightarrow> bool option \<Rightarrow> bool option \<Rightarrow> vote_commit" where
  "assembleVoteCommit commitOfValue revealedValue revealedSupportValue =
     \<lparr> vc_onChainCommitment = (case commitOfValue of Some c \<Rightarrow> if hex_string 64 c then Some c else None | None \<Rightarrow> None),
       vc_revealed = revealedValue, vc_revealedSupport = revealedSupportValue \<rparr>"

datatype custody =
    CustodyUnread
  | CustodyNone
  | CustodyRevealed bool
  | CustodyReady bool string string
  | CustodyMismatch string

fun try_directions :: "hash \<Rightarrow> abi_encode \<Rightarrow> int \<Rightarrow> string \<Rightarrow> string \<Rightarrow> string \<Rightarrow> bool list \<Rightarrow> custody_error + custody" where
  "try_directions keccak encode pid voter salt onChain [] = Inr (CustodyMismatch onChain)"
| "try_directions keccak encode pid voter salt onChain (support # bs) =
     bindE (web_commitmentFor keccak encode pid voter support salt) (\<lambda>commitment.
     if lc commitment = lc onChain then Inr (CustodyReady support salt commitment)
     else try_directions keccak encode pid voter salt onChain bs)"

definition reconstructVoteCustody ::
  "hash \<Rightarrow> abi_encode \<Rightarrow> signer \<Rightarrow> int \<Rightarrow> string \<Rightarrow> int \<Rightarrow> string \<Rightarrow> vote_commit \<Rightarrow> custody_error + custody" where
  "reconstructVoteCustody keccak encode sign chainId vault pid voter r =
     (if vc_revealed r = Some True then
        Inr (case vc_revealedSupport r of None \<Rightarrow> CustodyUnread | Some s \<Rightarrow> CustodyRevealed s)
      else case vc_onChainCommitment r of
          None \<Rightarrow> Inr CustodyUnread
        | Some onChain \<Rightarrow>
            if vc_revealed r \<noteq> Some False \<or> \<not> isHex32 onChain then Inr CustodyUnread
            else if lc onChain = VOTE_COMMIT_ZERO then Inr CustodyNone
            else bindE (web_deriveSalt keccak sign chainId vault pid) (\<lambda>salt.
                 try_directions keccak encode pid voter salt onChain [True, False]))"

fun canReveal :: "custody \<Rightarrow> bool" where
  "canReveal (CustodyReady _ _ _) = True"
| "canReveal _ = False"

section \<open>Votes across surfaces\<close>

lemma web_deriveSalt_v1:
  assumes "is_address vault" "is_address (acct_address a)" "\<And>s. hex_string 64 (keccak s)" "\<And>msg. isPlausibleSignatureHex (sign msg)"
  shows "web_deriveSalt keccak sign chainId vault pid = Inr (salt_under keccak sign a chainId vault pid ''v1'')"
  using assms
  by (simp add: web_deriveSalt_def web_saltMessage_def salt_under_def deriveSalt_def saltMessage_def isHex32_def
      WEB_SALT_MESSAGE_PREFIX_def SALT_MESSAGE_PREFIX_def Let_def)

lemma try_directions_found:
  assumes "hex_string 64 salt"
  shows "try_directions keccak encode pid voter salt onChain [True, False] = Inr (
     if lc (keccak (encode pid voter True salt)) = lc onChain then CustodyReady True salt (keccak (encode pid voter True salt))
     else if lc (keccak (encode pid voter False salt)) = lc onChain then CustodyReady False salt (keccak (encode pid voter False salt))
     else CustodyMismatch onChain)"
  using assms by (simp add: web_commitmentFor_def isHex32_def)

text \<open>
  C27. The reveal button is safe. \<open>READY\<close> is answered only for a commitment that was read, is not zero and
  is not revealed yet, and with a direction and salt whose commitment is the one on the chain, so
  \<open>revealVote\<close> with them passes its check; every other state says the button stays off.
\<close>

theorem ready_custody_reveals:
  assumes "reconstructVoteCustody keccak encode sign chainId vault pid voter r = Inr state" "canReveal state"
  shows "\<exists>support salt onChain. state = CustodyReady support salt (keccak (encode pid voter support salt))
    \<and> vc_onChainCommitment r = Some onChain \<and> lc (keccak (encode pid voter support salt)) = lc onChain
    \<and> lc onChain \<noteq> VOTE_COMMIT_ZERO \<and> vc_revealed r = Some False"
proof -
  obtain onChain where oc: "vc_onChainCommitment r = Some onChain" "vc_revealed r = Some False" "lc onChain \<noteq> VOTE_COMMIT_ZERO"
    and d: "bindE (web_deriveSalt keccak sign chainId vault pid) (\<lambda>salt.
              try_directions keccak encode pid voter salt onChain [True, False]) = Inr state"
    using assms by (auto simp: reconstructVoteCustody_def simp del: try_directions.simps split: option.splits if_splits)
  obtain salt where salt: "web_deriveSalt keccak sign chainId vault pid = Inr salt"
    "try_directions keccak encode pid voter salt onChain [True, False] = Inr state"
    using d by (auto simp: bindE_Inr simp del: try_directions.simps)
  have "hex_string 64 salt"
    using salt(1) by (auto simp: web_deriveSalt_def bindE_Inr isHex32_def Let_def split: if_splits)
  then show ?thesis using oc salt(2) assms(2) try_directions_found
    by (auto simp del: try_directions.simps split: if_splits)
qed

text \<open>
  C28. A vote moves between surfaces under the shared scheme only. For a signer that reproduces its
  signatures, a vote the agent committed reads in the browser as ready to reveal, with its direction and
  salt, when it was made with the first salt scheme, and as a custody mismatch when its salt is not that
  one (the agent's voter-bound scheme); the agent reveals it in both cases. A mismatch never means that
  nothing was committed.
\<close>

theorem vote_moves_between_surfaces:
  assumes "\<And>s. hex_string 64 (keccak s)" "\<And>msg. isPlausibleSignatureHex (sign msg)"
    and "is_address vault" "is_address (acct_address a)"
    and "buildVote keccak encode sign a chainId vault pid support = Inr vote"
    and "\<And>b s b' s'. s \<in> salt_under keccak sign a chainId vault pid ` {''v1'', ''v2''} \<Longrightarrow>
        s' \<in> salt_under keccak sign a chainId vault pid ` {''v1'', ''v2''} \<Longrightarrow>
        lc (keccak (encode pid (acct_address a) b s)) = lc (keccak (encode pid (acct_address a) b' s')) \<Longrightarrow> b = b' \<and> s = s'"
    and "hex_string 64 onChain" "lc onChain = lc (bv_commitment vote)" "lc onChain \<noteq> VOTE_COMMIT_ZERO"
  defines "web \<equiv> reconstructVoteCustody keccak encode sign chainId vault pid (acct_address a)
      (assembleVoteCommit (Some onChain) (Some False) None)"
  shows "web = Inr (if bv_salt vote = salt_under keccak sign a chainId vault pid ''v1''
            then CustodyReady support (bv_salt vote) (bv_commitment vote) else CustodyMismatch onChain)
    \<and> (\<exists>v. recoverVote keccak encode sign a chainId vault pid onChain = Inr (Some (support, bv_salt vote, v)))"
proof -
  let ?s = "salt_under keccak sign a chainId vault pid"
  obtain v0 salt c where b: "saltVersionOf a = Inr v0" "deriveSalt keccak sign a chainId vault pid v0 = Inr salt"
    "commitmentFor keccak encode pid (acct_address a) support salt = Inr c" "bv_salt vote = salt" "bv_commitment vote = c"
    using assms(5) by (auto simp: buildVote_def bindE_Inr)
  have v0: "v0 = ''v1'' \<or> v0 = ''v2''" and ver: "acct_saltVersion a \<in> {None, Some ''v1'', Some ''v2''}"
    using b(1) by (auto simp: saltVersionOf_def Let_def split: if_splits option.splits)
  have salt: "bv_salt vote = ?s v0" using b(2,4) deriveSalt_ok [OF assms(3,4) v0] by simp
  have hexv: "hex_string 64 (?s v)" if "v = ''v1'' \<or> v = ''v2''" for v
    by (rule salt_under_hex [OF assms(1,3,4) that])
  have com: "bv_commitment vote = keccak (encode pid (acct_address a) support (?s v0))"
    using b(3,4,5) salt hexv [OF v0] by (simp add: commitmentFor_def)
  have hex1: "hex_string 64 (?s ''v1'')" by (rule hexv) simp
  have eq: "lc (keccak (encode pid (acct_address a) b (?s ''v1''))) = lc onChain \<longleftrightarrow> b = support \<and> ?s ''v1'' = ?s v0" for b
    using assms(6) [of "?s ''v1''" "?s v0" b support] v0 by (auto simp: assms(8) com)
  have "web = try_directions keccak encode pid (acct_address a) (?s ''v1'') onChain [True, False]"
    using assms(7,9) web_deriveSalt_v1 [OF assms(3,4,1,2)]
    by (simp add: web_def reconstructVoteCustody_def assembleVoteCommit_def isHex32_def del: try_directions.simps)
  then have w: "web = Inr (if ?s ''v1'' = ?s v0 then CustodyReady support (?s ''v1'') (keccak (encode pid (acct_address a) support (?s ''v1'')))
      else CustodyMismatch onChain)"
    unfolding try_directions_found [OF hex1] eq by (cases support) auto
  have "\<exists>v. recoverVote keccak encode sign a chainId vault pid onChain = Inr (Some (support, bv_salt vote, v))"
    by (rule recover_built [OF assms(1,3,4,5) ver refl assms(6,8)])
  then show ?thesis using w salt com by auto
qed


definition toy_signer :: signer where "toy_signer msg = ''0xabc''"

lemma toy_signer_plausible: "isPlausibleSignatureHex (toy_signer msg)"
  unfolding toy_signer_def by code_simp

lemma toy_addr: "is_address (acct_address toy_account)"
  by code_simp

lemma toy_signer_salt:
  assumes "v = ''v1'' \<or> v = ''v2''"
  shows "salt_under toy_keccak toy_signer toy_account 1 (acct_address toy_account) 7 v = toy_keccak ''0xabc''"
proof -
  show ?thesis using assms toy_addr by (auto simp: salt_under_def deriveSalt_def saltMessage_def toy_signer_def Let_def)
qed

definition toy_commit :: string where "toy_commit = ''0x'' @ replicate 64 (CHR ''b'')"

lemma toy_false: "toy_keccak (toy_encode pid voter False salt) = toy_commit"
  by (simp add: toy_keccak_def toy_encode_def toy_commit_def)

lemma toy_vote_built: "\<exists>vote. buildVote toy_keccak toy_encode toy_signer toy_account 1 (acct_address toy_account) 7 False = Inr vote
    \<and> bv_commitment vote = toy_commit \<and> bv_salt vote = toy_keccak ''0xabc''"
proof -
  have v: "saltVersionOf toy_account = Inr ''v2''" by code_simp
  have d: "deriveSalt toy_keccak toy_signer toy_account 1 (acct_address toy_account) 7 ''v2'' = Inr (toy_keccak ''0xabc'')"
    using deriveSalt_ok [OF toy_addr toy_addr] toy_signer_salt by simp
  show ?thesis unfolding buildVote_def v d bindE_simps
    by (simp add: commitmentFor_def toy_keccak_hex toy_false)
qed

lemma vote_moves_between_surfaces_witness:
  "reconstructVoteCustody toy_keccak toy_encode toy_signer 1 (acct_address toy_account) 7 (acct_address toy_account)
      (assembleVoteCommit (Some toy_commit) (Some False) None)
    = Inr (CustodyReady False (toy_keccak ''0xabc'') toy_commit)"
proof -
  note addr = toy_addr
  obtain vote where vote: "buildVote toy_keccak toy_encode toy_signer toy_account 1 (acct_address toy_account) 7 False = Inr vote"
    and c: "bv_commitment vote = toy_commit" and s: "bv_salt vote = toy_keccak ''0xabc''"
    using toy_vote_built by blast
  have hex: "hex_string 64 (bv_commitment vote)" "lc (bv_commitment vote) \<noteq> VOTE_COMMIT_ZERO"
    unfolding c toy_commit_def by code_simp+
  have e: "bv_salt vote = salt_under toy_keccak toy_signer toy_account 1 (acct_address toy_account) 7 ''v1''"
    unfolding s by (simp only: toy_signer_salt simp_thms)
  have "reconstructVoteCustody toy_keccak toy_encode toy_signer 1 (acct_address toy_account) 7 (acct_address toy_account)
      (assembleVoteCommit (Some (bv_commitment vote)) (Some False) None)
    = Inr (if bv_salt vote = salt_under toy_keccak toy_signer toy_account 1 (acct_address toy_account) 7 ''v1''
        then CustodyReady False (bv_salt vote) (bv_commitment vote) else CustodyMismatch (bv_commitment vote))"
    by (rule conjunct1, rule vote_moves_between_surfaces [OF toy_keccak_hex toy_signer_plausible addr addr vote _ hex(1) refl hex(2)])
       (auto simp: toy_signer_salt dest: toy_commitments_differ)
  then show ?thesis unfolding c s if_P [OF e [unfolded s]] .
qed

lemma ready_custody_reveals_witness:
  "\<exists>salt. lc (toy_keccak (toy_encode 7 (acct_address toy_account) False salt)) = toy_commit"
proof -
  let ?r = "assembleVoteCommit (Some toy_commit) (Some False) None"
  have hexb: "hex_string 64 toy_commit" "lc toy_commit \<noteq> VOTE_COMMIT_ZERO"
    unfolding toy_commit_def by code_simp+
  have salt: "web_deriveSalt toy_keccak toy_signer 1 (acct_address toy_account) 7 = Inr (toy_keccak ''0xabc'')"
    using web_deriveSalt_v1 [OF toy_addr toy_addr toy_keccak_hex toy_signer_plausible] toy_signer_salt by simp
  have true: "lc (toy_keccak (toy_encode 7 (acct_address toy_account) True s)) \<noteq> lc toy_commit" for s
    using toy_commitments_differ [of 7 "acct_address toy_account" True s False] by (auto simp: toy_false)
  have st: "reconstructVoteCustody toy_keccak toy_encode toy_signer 1 (acct_address toy_account) 7 (acct_address toy_account) ?r
      = Inr (CustodyReady False (toy_keccak ''0xabc'') toy_commit)"
    unfolding reconstructVoteCustody_def salt bindE_simps try_directions_found [OF toy_keccak_hex] toy_false
    using true hexb by (simp add: assembleVoteCommit_def isHex32_def)
  have oc: "vc_onChainCommitment ?r = Some toy_commit" "lc toy_commit = toy_commit"
    unfolding toy_commit_def assembleVoteCommit_def by code_simp+
  obtain b salt onChain where "CustodyReady False (toy_keccak ''0xabc'') toy_commit = CustodyReady b salt (toy_keccak (toy_encode 7 (acct_address toy_account) b salt))"
    "vc_onChainCommitment ?r = Some onChain" "lc (toy_keccak (toy_encode 7 (acct_address toy_account) b salt)) = lc onChain"
    using ready_custody_reveals [OF st] unfolding canReveal.simps(1) by blast
  then have "lc (toy_keccak (toy_encode 7 (acct_address toy_account) False salt)) = toy_commit" using oc by simp
  then show ?thesis by (rule exI)
qed

end
