(* ===== verification/Web_Impact.thy ===== *)
theory Web_Impact
  imports Complex_Main Decimal
begin

text \<open>
  What a deposit or an exit of a given size would do to the pool's price, \<open>apps/web/src/size-impact.mjs\<close>:
  the ticks worth reading, the walk to the first tick that matters, and the forecast below it.

  The walk is integer arithmetic and modelled as such; ticks are integers. The forecast computes with
  doubles, which are modelled as reals: its definitions state the formulas, not the rounding.
\<close>

section \<open>The walk\<close>

definition MATERIALITY_BPS :: int where "MATERIALITY_BPS = 10"
definition MAX_TICK_WALK :: nat where "MAX_TICK_WALK = 50"

datatype walk_direction = Up | Down

definition tickBoundaries :: "int \<Rightarrow> int \<Rightarrow> walk_direction \<Rightarrow> nat \<Rightarrow> int list" where
  "tickBoundaries currentTick tickSpacing direction n =
     (if \<not> tickSpacing > 0 then []
      else let base = (currentTick div tickSpacing) * tickSpacing in
        case direction of
          Up \<Rightarrow> map (\<lambda>i. base + tickSpacing + int i * tickSpacing) [0..<n]
        | Down \<Rightarrow> (let t = (if base \<ge> currentTick then base - tickSpacing else base)
                   in map (\<lambda>i. t - int i * tickSpacing) [0..<n]))"

record edge =
  ed_edgeTick :: "int option"
  ed_edgeIndex :: "nat option"
  ed_ticksWalked :: nat
  ed_cappedByLimit :: bool
  ed_readFailed :: bool

definition unread_edge :: "nat \<Rightarrow> edge" where
  "unread_edge i = \<lparr> ed_edgeTick = None, ed_edgeIndex = None, ed_ticksWalked = i, ed_cappedByLimit = False, ed_readFailed = True \<rparr>"

definition found_edge :: "int \<Rightarrow> nat \<Rightarrow> edge" where
  "found_edge tick i = \<lparr> ed_edgeTick = Some tick, ed_edgeIndex = Some i, ed_ticksWalked = i + 1, ed_cappedByLimit = False, ed_readFailed = False \<rparr>"

definition capped_edge :: "nat \<Rightarrow> edge" where
  "capped_edge i = \<lparr> ed_edgeTick = None, ed_edgeIndex = None, ed_ticksWalked = i, ed_cappedByLimit = True, ed_readFailed = False \<rparr>"

definition material :: "int \<Rightarrow> int \<Rightarrow> bool" where
  "material runningL liquidityNet \<longleftrightarrow> \<bar>liquidityNet\<bar> * 10000 \<ge> MATERIALITY_BPS * runningL"

definition crossed :: "walk_direction \<Rightarrow> int \<Rightarrow> int \<Rightarrow> int" where
  "crossed direction runningL liquidityNet = (case direction of Up \<Rightarrow> runningL + liquidityNet | Down \<Rightarrow> runningL - liquidityNet)"

fun walk :: "walk_direction \<Rightarrow> int \<Rightarrow> nat \<Rightarrow> (int \<times> int option) list \<Rightarrow> edge" where
  "walk direction runningL i [] = capped_edge i"
| "walk direction runningL i ((tick, liquidityNet) # ticks) = (case liquidityNet of
      None \<Rightarrow> unread_edge i
    | Some net \<Rightarrow>
        if material runningL net then found_edge tick i
        else let runningL' = crossed direction runningL net in
          if runningL' \<le> 0 then found_edge tick i
          else walk direction runningL' (i + 1) ticks)"

definition findMaterialEdge :: "int option \<Rightarrow> (int \<times> int option) list \<Rightarrow> walk_direction \<Rightarrow> edge" where
  "findMaterialEdge liquidity ticks direction = (case liquidity of
      None \<Rightarrow> unread_edge 0
    | Some l \<Rightarrow> if l \<le> 0 then unread_edge 0 else walk direction l 0 (take MAX_TICK_WALK ticks))"

section \<open>The forecast\<close>

definition Q96 :: real where "Q96 = 2 ^ 96"

definition sqrtRatioAtOffset :: "int \<Rightarrow> int \<Rightarrow> real" where
  "sqrtRatioAtOffset sqrtPriceX96 deltaTicks = (of_int sqrtPriceX96 / Q96) * (1.0001 powr (of_int deltaTicks / 2))"

definition amountInForTargetSqrtPrice :: "int \<Rightarrow> int \<Rightarrow> real \<Rightarrow> bool \<Rightarrow> real" where
  "amountInForTargetSqrtPrice sqrtPriceX96 liquidity targetSqrtP tokenInIsToken0 =
     (let sqrtP = of_int sqrtPriceX96 / Q96; L = of_int liquidity in
      if tokenInIsToken0 then L * (1 / targetSqrtP - 1 / sqrtP) else L * (targetSqrtP - sqrtP))"

definition sqrtPriceAfterAmountIn :: "int \<Rightarrow> int \<Rightarrow> real \<Rightarrow> bool \<Rightarrow> real" where
  "sqrtPriceAfterAmountIn sqrtPriceX96 liquidity amountInRaw tokenInIsToken0 =
     (let sqrtP = of_int sqrtPriceX96 / Q96; L = of_int liquidity in
      if tokenInIsToken0 then 1 / (1 / sqrtP + amountInRaw / L) else sqrtP + amountInRaw / L)"

definition priceImpactFrac :: "real \<Rightarrow> real \<Rightarrow> real option" where
  "priceImpactFrac sqrtPBefore sqrtPAfter =
     (let p0 = sqrtPBefore * sqrtPBefore; p1 = sqrtPAfter * sqrtPAfter in
      if \<not> p0 > 0 then None else Some (\<bar>p1 - p0\<bar> / p0))"

record forecast =
  fc_ok :: bool
  fc_pastEdge :: bool
  fc_edgeTick :: "int option"
  fc_capacityInRaw :: "real option"
  fc_impactFrac :: "real option"
  fc_ticksWalked :: nat
  fc_cappedByLimit :: bool

record pool_side =
  ps_liquidity :: "int option"
  ps_sqrtPriceX96 :: int
  ps_currentTick :: int
  ps_direction :: walk_direction
  ps_tokenInIsToken0 :: bool
  ps_ticks :: "(int \<times> int option) list"

definition sizeForecast :: "pool_side \<Rightarrow> real option \<Rightarrow> forecast" where
  "sizeForecast p requestedAmountInRaw =
     (let edge = findMaterialEdge (ps_liquidity p) (ps_ticks p) (ps_direction p) in
      if ed_readFailed edge then
        \<lparr> fc_ok = False, fc_pastEdge = False, fc_edgeTick = None, fc_capacityInRaw = None, fc_impactFrac = None,
          fc_ticksWalked = ed_ticksWalked edge, fc_cappedByLimit = False \<rparr>
      else case (ed_edgeTick edge, ps_liquidity p) of
        (Some edgeTick, Some liquidity) \<Rightarrow>
          (let targetSqrtP = sqrtRatioAtOffset (ps_sqrtPriceX96 p) (edgeTick - ps_currentTick p);
               capacityInRaw = amountInForTargetSqrtPrice (ps_sqrtPriceX96 p) liquidity targetSqrtP (ps_tokenInIsToken0 p);
               capacity = (if capacityInRaw > 0 then capacityInRaw else 0);
               (pastEdge, impactFrac) = (case requestedAmountInRaw of
                   None \<Rightarrow> (False, None)
                 | Some amount \<Rightarrow>
                     if amount \<ge> capacity then (True, None)
                     else (False, priceImpactFrac (of_int (ps_sqrtPriceX96 p) / Q96)
                            (sqrtPriceAfterAmountIn (ps_sqrtPriceX96 p) liquidity amount (ps_tokenInIsToken0 p))))
           in \<lparr> fc_ok = True, fc_pastEdge = pastEdge, fc_edgeTick = Some edgeTick, fc_capacityInRaw = Some capacity,
                fc_impactFrac = (if pastEdge then None else impactFrac), fc_ticksWalked = ed_ticksWalked edge,
                fc_cappedByLimit = ed_cappedByLimit edge \<rparr>)
      | _ \<Rightarrow>
          \<lparr> fc_ok = True, fc_pastEdge = True, fc_edgeTick = None, fc_capacityInRaw = None, fc_impactFrac = None,
            fc_ticksWalked = ed_ticksWalked edge, fc_cappedByLimit = ed_cappedByLimit edge \<rparr>)"

definition valueRawAtSpot :: "int \<Rightarrow> real \<Rightarrow> bool \<Rightarrow> real" where
  "valueRawAtSpot sqrtPriceX96 amountRaw amountIsToken0 =
     (let sqrtP = of_int sqrtPriceX96 / Q96; price = sqrtP * sqrtP in
      if \<not> price > 0 then 0 else if amountIsToken0 then amountRaw * price else amountRaw / price)"

section \<open>The edge is where liquidity changes\<close>

text \<open>The liquidity in front of the i-th tick of the walk.\<close>

fun running :: "walk_direction \<Rightarrow> int \<Rightarrow> (int \<times> int option) list \<Rightarrow> nat \<Rightarrow> int" where
  "running direction l ticks 0 = l"
| "running direction l [] (Suc i) = l"
| "running direction l ((t, net) # ticks) (Suc i) = running direction (crossed direction l (the net)) ticks i"

lemma walk_found:
  assumes "walk direction l k ticks = e" "ed_edgeIndex e = Some j"
  shows "\<exists>i < length ticks. j = k + i \<and> ed_edgeTick e = Some (fst (ticks ! i)) \<and> \<not> ed_readFailed e
    \<and> (\<forall>m < i. \<exists>net. snd (ticks ! m) = Some net \<and> \<not> material (running direction l ticks m) net
         \<and> running direction l ticks (Suc m) > 0)
    \<and> (\<exists>net. snd (ticks ! i) = Some net \<and> (material (running direction l ticks i) net \<or> running direction l ticks (Suc i) \<le> 0))"
  using assms
proof (induction ticks arbitrary: l k)
  case Nil
  then show ?case by (auto simp: capped_edge_def)
next
  case (Cons t ticks)
  obtain tick net where t: "t = (tick, net)" by (cases t)
  obtain n where n: "net = Some n" using Cons.prems t by (cases net) (auto simp: unread_edge_def)
  show ?case
  proof (cases "material l n \<or> crossed direction l n \<le> 0")
    case True
    then have "e = found_edge tick k" using Cons.prems(1) t n by (auto simp: Let_def split: if_splits)
    then show ?thesis using True Cons.prems(2) t n by (intro exI [of _ 0]) (auto simp: found_edge_def)
  next
    case False
    then have "walk direction (crossed direction l n) (k + 1) ticks = e" using Cons.prems(1) t n by (simp add: Let_def)
    then obtain i where i: "i < length ticks" "j = k + 1 + i" "ed_edgeTick e = Some (fst (ticks ! i))" "\<not> ed_readFailed e"
      "\<forall>m < i. \<exists>net. snd (ticks ! m) = Some net \<and> \<not> material (running direction (crossed direction l n) ticks m) net
         \<and> running direction (crossed direction l n) ticks (Suc m) > 0"
      "\<exists>net. snd (ticks ! i) = Some net \<and> (material (running direction (crossed direction l n) ticks i) net
         \<or> running direction (crossed direction l n) ticks (Suc i) \<le> 0)"
      using Cons.IH Cons.prems(2) by blast
    show ?thesis
    proof (intro exI [of _ "Suc i"] conjI allI impI)
      fix m assume m: "m < Suc i"
      show "\<exists>net. snd ((t # ticks) ! m) = Some net \<and> \<not> material (running direction l (t # ticks) m) net
         \<and> running direction l (t # ticks) (Suc m) > 0"
        using m i(5) False t n by (cases m) auto
    qed (use i t n in auto)
  qed
qed


lemma crossed_bounds:
  assumes "\<not> material l net" "0 \<le> l"
  shows "l * 9990 \<le> crossed direction l net * 10000" "crossed direction l net * 10000 \<le> l * 10010"
  using assms by (auto simp: material_def MATERIALITY_BPS_def crossed_def split: walk_direction.splits)

lemma running_step:
  "i < length ticks \<Longrightarrow> running direction l ticks (Suc i) = crossed direction (running direction l ticks i) (the (snd (ticks ! i)))"
proof (induction direction l ticks i rule: running.induct)
  case (1 direction l ticks)
  then show ?case by (cases ticks) auto
qed auto

lemma running_drift:
  assumes "0 < l" "j \<le> length ticks"
    and "\<And>m. m < j \<Longrightarrow> \<exists>net. snd (ticks ! m) = Some net \<and> \<not> material (running direction l ticks m) net
           \<and> running direction l ticks (Suc m) > 0"
  shows "l * 9990 ^ j \<le> running direction l ticks j * 10000 ^ j \<and> running direction l ticks j * 10000 ^ j \<le> l * 10010 ^ j
    \<and> 0 < running direction l ticks j"
  using assms(2,3)
proof (induction j)
  case (Suc j)
  let ?r = "running direction l ticks j" and ?r' = "running direction l ticks (Suc j)"
  have IH: "l * 9990 ^ j \<le> ?r * 10000 ^ j" "?r * 10000 ^ j \<le> l * 10010 ^ j" "0 < ?r"
    using Suc.IH Suc.prems by auto
  obtain net where net: "snd (ticks ! j) = Some net" "\<not> material ?r net" "?r' > 0" using Suc.prems(2) [of j] by auto
  have r': "?r' = crossed direction ?r net" using running_step [of j ticks direction l] Suc.prems(1) net(1) by simp
  have b: "?r * 9990 \<le> ?r' * 10000" "?r' * 10000 \<le> ?r * 10010"
    unfolding r' using crossed_bounds [OF net(2)] IH(3) by auto
  have lo: "l * 9990 ^ Suc j \<le> ?r' * 10000 ^ Suc j"
  proof -
    have "l * 9990 ^ j * 9990 \<le> ?r * 10000 ^ j * 9990" using IH(1) by (rule mult_right_mono) simp
    also have "\<dots> = ?r * 9990 * 10000 ^ j" by simp
    also have "\<dots> \<le> ?r' * 10000 * 10000 ^ j" using b(1) by (rule mult_right_mono) simp
    finally show ?thesis by (simp only: power_Suc ac_simps)
  qed
  have hi: "?r' * 10000 ^ Suc j \<le> l * 10010 ^ Suc j"
  proof -
    have "?r' * 10000 * 10000 ^ j \<le> ?r * 10010 * 10000 ^ j" using b(2) by (rule mult_right_mono) simp
    also have "\<dots> = ?r * 10000 ^ j * 10010" by simp
    also have "\<dots> \<le> l * 10010 ^ j * 10010" using IH(2) by (rule mult_right_mono) simp
    finally show ?thesis by (simp only: power_Suc ac_simps)
  qed
  show ?case using lo hi net(3) by blast
qed (use assms(1) in simp)


section \<open>The ticks read\<close>

lemma floor_multiple:
  assumes "(0::int) < s"
  shows "(c div s) * s \<le> c" "c < (c div s) * s + s"
  using div_mult_mod_eq [of c s] pos_mod_bound [OF assms, of c] pos_mod_sign [OF assms, of c] by linarith+

lemma boundaries_up:
  assumes "0 < s"
  shows "t \<in> set (tickBoundaries c s Up n) \<longleftrightarrow> s dvd t \<and> c < t \<and> t \<le> (c div s + int n) * s"
proof -
  have up: "tickBoundaries c s Up n = map (\<lambda>i. (c div s + 1 + int i) * s) [0..<n]"
    using assms by (simp add: tickBoundaries_def Let_def algebra_simps)
  show ?thesis
  proof
    assume "t \<in> set (tickBoundaries c s Up n)"
    then obtain i where i: "i < n" "t = (c div s + 1 + int i) * s" unfolding up by auto
    have "(c div s + 1) * s \<le> t" "t \<le> (c div s + int n) * s"
      unfolding i(2) using assms i(1) by (intro mult_right_mono; simp)+
    moreover have "(c div s + 1) * s = (c div s) * s + s" by (simp add: algebra_simps)
    ultimately show "s dvd t \<and> c < t \<and> t \<le> (c div s + int n) * s"
      using floor_multiple(2) [OF assms, of c] i(2) by simp
  next
    assume t: "s dvd t \<and> c < t \<and> t \<le> (c div s + int n) * s"
    then obtain k where k: "t = k * s" by (auto simp: dvd_def mult.commute)
    have "(c div s) * s < k * s" using t k floor_multiple(1) [OF assms, of c] by linarith
    then have "c div s < k" using assms by simp
    moreover have "k \<le> c div s + int n" using t k assms by simp
    ultimately show "t \<in> set (tickBoundaries c s Up n)" unfolding up k
      by (auto intro!: image_eqI [of _ _ "nat (k - (c div s + 1))"])
  qed
qed

text \<open>The first boundary below: the floor, or one further when the tick stands on a boundary.\<close>

lemma below_first:
  assumes "(0::int) < s"
  shows "(if (c div s) * s \<ge> c then (c div s) * s - s else (c div s) * s) = ((c - 1) div s) * s"
proof (cases "s dvd c")
  case True
  then obtain k where k: "c = k * s" by (auto simp: dvd_def mult.commute)
  have "(k * s - 1) div s = k - 1"
    using assms by (intro div_pos_geq [THEN trans] int_div_pos_eq [of _ _ _ "s - 1"]) (auto simp: algebra_simps)
  moreover have "k * s - s = (k - 1) * s" by (simp add: left_diff_distrib)
  ultimately show ?thesis using assms by (simp add: k)
next
  case False
  then have m: "c mod s > 0" using pos_mod_sign [OF assms, of c] by (simp add: dvd_eq_mod_eq_0)
  have e: "c = (c div s) * s + c mod s" by simp
  have "(c - 1) div s = c div s"
    by (rule int_div_pos_eq [of _ _ _ "c mod s - 1"]) (use m e pos_mod_bound [OF assms, of c] in \<open>auto simp: algebra_simps\<close>)
  moreover have "\<not> (c div s) * s \<ge> c" using m e by linarith
  ultimately show ?thesis by simp
qed

lemma boundaries_down:
  assumes "0 < s"
  shows "t \<in> set (tickBoundaries c s Down n) \<longleftrightarrow> s dvd t \<and> t < c \<and> ((c - 1) div s - int n) * s < t"
proof -
  have down: "tickBoundaries c s Down n = map (\<lambda>i. ((c - 1) div s - int i) * s) [0..<n]"
    using assms unfolding tickBoundaries_def Let_def below_first [OF assms] by (simp add: left_diff_distrib)
  show ?thesis
  proof
    assume "t \<in> set (tickBoundaries c s Down n)"
    then obtain i where i: "i < n" "t = ((c - 1) div s - int i) * s" unfolding down by auto
    have "t \<le> ((c - 1) div s) * s" unfolding i(2) using assms by (intro mult_right_mono) simp_all
    moreover have "((c - 1) div s - int n) * s < t"
      unfolding i(2) using assms i(1) by (intro mult_strict_right_mono) simp_all
    ultimately show "s dvd t \<and> t < c \<and> ((c - 1) div s - int n) * s < t"
      using floor_multiple(1) [OF assms, of "c - 1"] i(2) by simp
  next
    assume t: "s dvd t \<and> t < c \<and> ((c - 1) div s - int n) * s < t"
    then obtain k where k: "t = k * s" by (auto simp: dvd_def mult.commute)
    have "k * s < (((c - 1) div s) + 1) * s"
      using t k floor_multiple(2) [OF assms, of "c - 1"] by (simp add: algebra_simps)
    then have "k \<le> (c - 1) div s" using assms by simp
    moreover have "(c - 1) div s - int n < k" using t k assms by simp
    ultimately show "t \<in> set (tickBoundaries c s Down n)" unfolding down k
      by (auto intro!: image_eqI [of _ _ "nat ((c - 1) div s - k)"])
  qed
qed


text \<open>
  What a swap crosses in the pool: a tick \<open>t\<close> is crossed upwards from below it, and downwards from it or
  from above it, since the pool's current tick is the largest one at or below its price.
\<close>

definition pool_crosses :: "walk_direction \<Rightarrow> int \<Rightarrow> int \<Rightarrow> bool" where
  "pool_crosses direction currentTick t = (case direction of Up \<Rightarrow> currentTick < t | Down \<Rightarrow> t \<le> currentTick)"

text \<open>
  The boundaries read upwards are exactly the next ones the pool crosses. Downwards they are the next
  ones strictly below the current tick: when the current tick is itself a boundary, which the pool crosses
  first, that tick is skipped, and a walk over the ticks read finds no edge however much liquidity
  ends there.
\<close>

theorem boundary_under_the_price_is_skipped:
  assumes "0 < s" "s dvd c" "0 < l" "0 < n"
  defines "ladder \<equiv> (\<lambda>net. map (\<lambda>t. (t, Some (if t = c then net else 0))) (tickBoundaries c s Down n))"
  shows "pool_crosses Down c c \<and> (\<forall>net. ed_edgeTick (findMaterialEdge (Some l) (ladder net) Down) = None)
    \<and> (\<forall>t \<in> set (tickBoundaries c s Down n). pool_crosses Down c t)
    \<and> (\<forall>t. s dvd t \<and> pool_crosses Up c t \<and> t \<le> (c div s + int n) * s \<longleftrightarrow> t \<in> set (tickBoundaries c s Up n))"
proof -
  have flat: "ed_edgeTick (walk Down l i (map (\<lambda>t. (t, Some 0)) ts)) = None" for i ts
    using assms(3) by (induction ts arbitrary: i)
      (simp_all add: capped_edge_def material_def MATERIALITY_BPS_def crossed_def Let_def)
  have "ladder net = map (\<lambda>t. (t, Some 0)) (tickBoundaries c s Down n)" for net
    using boundaries_down [OF assms(1), of _ c n] by (auto simp: ladder_def)
  then have "\<forall>net. ed_edgeTick (findMaterialEdge (Some l) (ladder net) Down) = None"
    using flat assms(3) by (simp add: findMaterialEdge_def take_map)
  then show ?thesis
    using boundaries_down [OF assms(1), of _ c n] boundaries_up [OF assms(1), of _ c n] by (auto simp: pool_crosses_def)
qed

section \<open>The forecast stays in front of the edge\<close>

lemma amount_round_trip:
  assumes "0 < sqrtPriceX96" "0 < l" "0 < target"
  shows "sqrtPriceAfterAmountIn sqrtPriceX96 l (amountInForTargetSqrtPrice sqrtPriceX96 l target b) b = target"
  using assms by (simp add: sqrtPriceAfterAmountIn_def amountInForTargetSqrtPrice_def Let_def)

text \<open>Between the current price and the edge: the price after an amount, by direction.\<close>

lemma after_between:
  assumes "0 < sqrtPriceX96" "0 < l" "0 < target" "0 \<le> amount"
    and "amount < amountInForTargetSqrtPrice sqrtPriceX96 l target b"
  defines "p \<equiv> of_int sqrtPriceX96 / Q96" and "after \<equiv> sqrtPriceAfterAmountIn sqrtPriceX96 l amount b"
  shows "if b then target < after \<and> after \<le> p else p \<le> after \<and> after < target"
proof -
  have p: "0 < p" using assms(1) by (simp add: p_def Q96_def)
  have L: "(0::real) < of_int l" using assms(2) by simp
  show ?thesis
  proof (cases b)
    case True
    have a: "amount / of_int l < 1 / target - 1 / p"
      using assms(5) L True by (simp add: amountInForTargetSqrtPrice_def Let_def p_def pos_divide_less_eq mult.commute)
    have lo: "1 / p \<le> 1 / p + amount / of_int l" using assms(4) L by simp
    define q where "q = 1 / p + amount / of_int l"
    have after: "after = inverse q" using True by (simp add: after_def sqrtPriceAfterAmountIn_def Let_def p_def q_def inverse_eq_divide)
    have q: "inverse p \<le> q" "q < inverse target" using lo a by (simp_all add: q_def inverse_eq_divide)
    have "inverse q \<le> inverse (inverse p)" by (rule le_imp_inverse_le [OF q(1)]) (use p in simp)
    moreover have "inverse (inverse target) < inverse q"
      by (rule less_imp_inverse_less [OF q(2)]) (use p q(1) in \<open>auto intro: less_le_trans [of 0 "inverse p"]\<close>)
    ultimately show ?thesis using True by (simp add: after)
  next
    case False
    have "amount / of_int l < target - p"
      using assms(5) L False by (simp add: amountInForTargetSqrtPrice_def Let_def p_def pos_divide_less_eq mult.commute)
    then show ?thesis using False assms(4) L by (simp add: after_def sqrtPriceAfterAmountIn_def Let_def p_def [symmetric])
  qed
qed


lemma impact_Some: "0 < a \<Longrightarrow> priceImpactFrac a b = Some (\<bar>b * b - a * a\<bar> / (a * a))"
  by (simp add: priceImpactFrac_def Let_def)

lemma impact_mono:
  fixes a :: real
  assumes "0 < a" "0 < b" "0 < b'" "if d then b' < b \<and> b \<le> a else a \<le> b \<and> b < b'"
  shows "\<bar>b * b - a * a\<bar> / (a * a) < \<bar>b' * b' - a * a\<bar> / (a * a)"
proof -
  have "\<bar>b * b - a * a\<bar> < \<bar>b' * b' - a * a\<bar>"
  proof (cases d)
    case True
    then have "b' < b" "b \<le> a" using assms(4) by simp_all
    then have "b' * b' < b * b" "b * b \<le> a * a" using assms(1-3) by (simp_all add: mult_strict_mono mult_mono)
    then show ?thesis by linarith
  next
    case False
    then have "a \<le> b" "b < b'" using assms(4) by simp_all
    then have "a * a \<le> b * b" "b * b < b' * b'" using assms(1-3) by (simp_all add: mult_strict_mono mult_mono)
    then show ?thesis by linarith
  qed
  then show ?thesis using assms(1) by (simp add: divide_strict_right_mono)
qed



definition sample_side :: pool_side where
  "sample_side = \<lparr> ps_liquidity = Some 1000000, ps_sqrtPriceX96 = 2 ^ 96, ps_currentTick = 0, ps_direction = Up,
     ps_tokenInIsToken0 = False, ps_ticks = [(10, Some 1), (20, Some 5000)] \<rparr>"

lemma sample_edge: "findMaterialEdge (Some 1000000) [(10, Some 1), (20, Some 5000)] Up = found_edge 20 1"
  by code_simp


lemma boundary_under_the_price_is_skipped_witness:
  "pool_crosses Down 20 20
   \<and> ed_edgeTick (findMaterialEdge (Some 5) (map (\<lambda>t. (t, Some (if t = 20 then 5 else 0))) (tickBoundaries 20 10 Down 3)) Down) = None"
  using boundary_under_the_price_is_skipped [of 10 20 5 3] by simp


end
