(* ===== verification/Agent_Logs.thy ===== *)
theory Agent_Logs
  imports Agent_Policy
begin

text \<open>
  The realization logs of an operator, as \<open>packages/reference-agent/src/chain.mjs\<close> reads them:
  \<open>classifyRpcError\<close>, \<open>findCreationBlock\<close>, the retries, and \<open>readRealizations\<close> with its watermark, its
  budget of requests, its narrowing pages and its named gaps.

  The node is a parameter. A request is answered as a function of how many requests went before it, so
  it may fail, change its mind and recover. Sleeping is left out; the pause a rate limit teaches the
  reader is kept. The key of a scan is the triple of registry, operator and vault, which the code joins by
  colons. The budget is a number of requests, as \<open>perceive\<close> passes it.
\<close>

section \<open>What an error means\<close>

text \<open>An error is the texts it carries, in the order the code joins them; absent ones are left out.\<close>

type_synonym rpc_error = "string option list"

datatype rpc_kind = Throttled | RangeRefused | OtherError

definition begins :: "string \<Rightarrow> string \<Rightarrow> bool" where
  "begins p s \<longleftrightarrow> take (length p) s = p"

text \<open>A pattern is tried at every position, with the character in front of it.\<close>

fun anywhere :: "(char option \<Rightarrow> string \<Rightarrow> bool) \<Rightarrow> char option \<Rightarrow> string \<Rightarrow> bool" where
  "anywhere P before [] = P before []"
| "anywhere P before (c # cs) = (P before (c # cs) \<or> anywhere P (Some c) cs)"

definition has :: "string \<Rightarrow> string \<Rightarrow> bool" where
  "has p s = anywhere (\<lambda>_ t. begins p t) None s"

definition word_char :: "char \<Rightarrow> bool" where
  "word_char c \<longleftrightarrow> decimal_char c \<or> c \<in> set ''abcdefghijklmnopqrstuvwxyzABCDEFGHIJKLMNOPQRSTUVWXYZ_''"

text \<open>\<open>rate.?limit\<close>: at most one character, not a line end, between the two words.\<close>

definition has_rate_limit :: "string \<Rightarrow> bool" where
  "has_rate_limit s = anywhere (\<lambda>_ t. begins ''rate'' t \<and>
     (begins ''limit'' (drop 4 t) \<or>
      (case drop 4 t of [] \<Rightarrow> False | c # u \<Rightarrow> c \<noteq> CHR 0x0A \<and> c \<noteq> CHR 0x0D \<and> begins ''limit'' u))) None s"

text \<open>\<open>\b429\b\<close>: no word character on either side.\<close>

definition has_429 :: "string \<Rightarrow> bool" where
  "has_429 s = anywhere (\<lambda>before t. begins ''429'' t \<and> (case before of None \<Rightarrow> True | Some c \<Rightarrow> \<not> word_char c)
     \<and> (case drop 3 t of [] \<Rightarrow> True | c # _ \<Rightarrow> \<not> word_char c)) None s"

fun join_texts :: "string list \<Rightarrow> string" where
  "join_texts [] = []"
| "join_texts [t] = t"
| "join_texts (t # ts) = t @ CHR '' '' # join_texts ts"

definition classifyRpcError :: "rpc_error \<Rightarrow> rpc_kind" where
  "classifyRpcError err =
     (let text = lc (join_texts (map the (filter (\<lambda>x. x \<noteq> None) err))) in
      if has_rate_limit text \<or> has ''-32005'' text \<or> has_429 text \<or> has ''too many requests'' text \<or> has ''limit exceeded'' text
      then Throttled
      else if has ''range'' text \<or> has ''too large'' text \<or> has ''max block'' text \<or> has ''exceeds'' text \<or> has ''-32012'' text
        \<or> has ''-32602'' text \<or> has ''limited to'' text \<or> has ''10,000'' text \<or> has ''10000'' text
        \<or> has ''too many results'' text \<or> has ''response size'' text
      then RangeRefused
      else OtherError)"

section \<open>The node and the session\<close>

record realization_log =
  rl_member :: "string option"
  rl_gainUsdc :: "int option"
  rl_lossUsdc :: "int option"
  rl_blockNumber :: int

record rpc_node =
  rn_blockNumber :: "nat \<Rightarrow> rpc_error + int"
  rn_getCode :: "nat \<Rightarrow> string \<Rightarrow> int \<Rightarrow> rpc_error + string option"
  rn_attested :: "nat \<Rightarrow> string \<Rightarrow> string \<Rightarrow> int \<Rightarrow> rpc_error + nat option"
  rn_realizations :: "nat \<Rightarrow> string \<Rightarrow> int \<Rightarrow> int \<Rightarrow> int \<Rightarrow> rpc_error + realization_log list"

record member_tally =
  mt_gain :: int
  mt_loss :: int
  mt_events :: int

datatype scan_gap =
    GapNoCode int
  | GapUnconfirmed int
  | GapNotFound rpc_error
  | GapBudget int int
  | GapLogs int int rpc_kind
  | GapUnreadable rpc_error
  | GapUndecoded int
  | GapWindow int int
  | GapNotYet

record scan =
  sc_creationBlock :: "int option"
  sc_scanFrom :: int
  sc_scannedTo :: int
  sc_windowGap :: "scan_gap option"
  sc_pageBlocks :: int
  sc_byMember :: "(string, member_tally) jsmap"
  sc_pages :: nat

type_synonym scan_key = "string \<times> int \<times> string"

record log_session =
  ls_requests :: nat
  ls_learnedPaceMs :: int
  ls_scans :: "scan_key \<rightharpoonup> scan"

definition MAX_LEARNED_PACE_MS :: int where "MAX_LEARNED_PACE_MS = 8000"
definition MIN_LOG_PAGE_BLOCKS :: int where "MIN_LOG_PAGE_BLOCKS = 500"

definition paceMs :: "int \<Rightarrow> log_session \<Rightarrow> int" where
  "paceMs pacing s = max pacing (ls_learnedPaceMs s)"

definition requested :: "log_session \<Rightarrow> log_session" where
  "requested s = s\<lparr>ls_requests := ls_requests s + 1\<rparr>"

definition slower :: "int \<Rightarrow> log_session \<Rightarrow> log_session" where
  "slower pacing s = s\<lparr>ls_learnedPaceMs := min MAX_LEARNED_PACE_MS (max (paceMs pacing s) 500 * 2)\<rparr>"

text \<open>The retries that are left: four after the first attempt.\<close>

fun rpc_retrying :: "(nat \<Rightarrow> rpc_error + 'a) \<Rightarrow> int \<Rightarrow> nat \<Rightarrow> log_session \<Rightarrow> (rpc_error + 'a) \<times> log_session" where
  "rpc_retrying request pacing 0 s = (request (ls_requests s), requested s)"
| "rpc_retrying request pacing (Suc k) s =
     (case request (ls_requests s) of
        Inl err \<Rightarrow>
          if classifyRpcError err \<noteq> Throttled then (Inl err, requested s)
          else rpc_retrying request pacing k (slower pacing (requested s))
      | Inr v \<Rightarrow> (Inr v, requested s))"

section \<open>The block a vault was created in\<close>

definition codeAt :: "rpc_node \<Rightarrow> string \<Rightarrow> int \<Rightarrow> int \<Rightarrow> log_session \<Rightarrow> (rpc_error + bool) \<times> log_session" where
  "codeAt node vault pacing block s =
     (case rpc_retrying (\<lambda>n. rn_getCode node n vault block) pacing 4 s of
        (Inl err, s') \<Rightarrow> (Inl err, s')
      | (Inr code, s') \<Rightarrow> (Inr (case code of None \<Rightarrow> False | Some c \<Rightarrow> length c > 2), s'))"

function bisect :: "rpc_node \<Rightarrow> string \<Rightarrow> int \<Rightarrow> int \<Rightarrow> int \<Rightarrow> log_session \<Rightarrow> (rpc_error + int) \<times> log_session" where
  "bisect node vault pacing lo hi s =
     (if lo < hi then
        let mid = (lo + hi) div 2 in
        case codeAt node vault pacing mid s of
          (Inl err, s') \<Rightarrow> (Inl err, s')
        | (Inr True, s') \<Rightarrow> bisect node vault pacing lo mid s'
        | (Inr False, s') \<Rightarrow> bisect node vault pacing (mid + 1) hi s'
      else (Inr lo, s))"
  by pat_completeness auto
termination by (relation "measure (\<lambda>(node, vault, pacing, lo, hi, s). nat (hi - lo))") auto

definition findCreationBlock ::
  "rpc_node \<Rightarrow> string \<Rightarrow> string \<Rightarrow> int \<Rightarrow> int \<Rightarrow> log_session \<Rightarrow> (scan_gap + int) \<times> log_session" where
  "findCreationBlock node registry vault pacing head s =
     (case codeAt node vault pacing head s of
        (Inl err, s1) \<Rightarrow> (Inl (GapNotFound err), s1)
      | (Inr False, s1) \<Rightarrow> (Inl (GapNoCode head), s1)
      | (Inr True, s1) \<Rightarrow>
          (case bisect node vault pacing 0 head s1 of
             (Inl err, s2) \<Rightarrow> (Inl (GapNotFound err), s2)
           | (Inr lo, s2) \<Rightarrow>
               (case rpc_retrying (\<lambda>n. rn_attested node n registry vault lo) pacing 4 s2 of
                  (Inl err, s3) \<Rightarrow> (Inl (GapNotFound err), s3)
                | (Inr control, s3) \<Rightarrow>
                    if control = None \<or> control = Some 0 then (Inl (GapUnconfirmed lo), s3) else (Inr lo, s3))))"

section \<open>The scan\<close>

declare bisect.simps [simp del]

text \<open>One page: a refused range narrows it for the rest of the scan, down to the smallest page.\<close>

function fetch_page ::
  "(nat \<Rightarrow> int \<Rightarrow> int \<Rightarrow> rpc_error + realization_log list) \<Rightarrow> int \<Rightarrow> int \<Rightarrow> int \<Rightarrow> int \<Rightarrow> log_session
   \<Rightarrow> (scan_gap + realization_log list \<times> int) \<times> int \<times> log_session" where
  "fetch_page getLogs pacing head start span s =
     (let to = min head (start + span - 1) in
      case rpc_retrying (\<lambda>n. getLogs n start to) pacing 4 s of
        (Inr logs, s') \<Rightarrow> (Inr (logs, to), span, s')
      | (Inl err, s') \<Rightarrow>
          if classifyRpcError err = RangeRefused \<and> span > MIN_LOG_PAGE_BLOCKS
          then fetch_page getLogs pacing head start (max MIN_LOG_PAGE_BLOCKS (span div 2)) s'
          else (Inl (GapLogs start to (classifyRpcError err)), span, s'))"
  by pat_completeness auto
termination by (relation "measure (\<lambda>(getLogs, pacing, head, start, span, s). nat span)")
    (auto simp: MIN_LOG_PAGE_BLOCKS_def)

declare fetch_page.simps [simp del]

text \<open>The logs of a page, added one by one; a log without its arguments throws where it stands.\<close>

definition add_realization :: "string \<Rightarrow> int \<Rightarrow> int \<Rightarrow> (string, member_tally) jsmap \<Rightarrow> (string, member_tally) jsmap" where
  "add_realization who gain loss byMember =
     (let t = (case map_of byMember who of None \<Rightarrow> \<lparr>mt_gain = 0, mt_loss = 0, mt_events = 0\<rparr> | Some t \<Rightarrow> t)
      in AList.update who \<lparr>mt_gain = mt_gain t + gain, mt_loss = mt_loss t + loss, mt_events = mt_events t + 1\<rparr> byMember)"

fun add_logs :: "realization_log list \<Rightarrow> (string, member_tally) jsmap \<Rightarrow> int option \<times> (string, member_tally) jsmap" where
  "add_logs [] byMember = (None, byMember)"
| "add_logs (l # ls) byMember = (case (rl_member l, rl_gainUsdc l, rl_lossUsdc l) of
      (Some who, Some gain, Some loss) \<Rightarrow> add_logs ls (add_realization (lc who) gain loss byMember)
    | _ \<Rightarrow> (Some (rl_blockNumber l), byMember))"

fun scan_pages ::
  "(nat \<Rightarrow> int \<Rightarrow> int \<Rightarrow> rpc_error + realization_log list) \<Rightarrow> int \<Rightarrow> int \<Rightarrow> nat \<Rightarrow> scan \<Rightarrow> log_session
   \<Rightarrow> scan_gap option \<times> nat \<times> scan \<times> log_session" where
  "scan_pages getLogs pacing head 0 st s =
     ((if sc_scannedTo st < head then Some (GapBudget (sc_scannedTo st) head) else None), 0, st, s)"
| "scan_pages getLogs pacing head (Suc k) st s =
     (if \<not> sc_scannedTo st < head then (None, Suc k, st, s)
      else case fetch_page getLogs pacing head (sc_scannedTo st + 1) (sc_pageBlocks st) s of
        (Inl gap, span, s') \<Rightarrow> (Some gap, Suc k, st\<lparr>sc_pageBlocks := span\<rparr>, s')
      | (Inr (logs, to), span, s') \<Rightarrow>
          (case add_logs logs (sc_byMember st) of
             (Some block, byMember) \<Rightarrow>
               (Some (GapUndecoded block), k, st\<lparr>sc_pageBlocks := span, sc_pages := sc_pages st + 1, sc_byMember := byMember\<rparr>, s')
           | (None, byMember) \<Rightarrow>
               scan_pages getLogs pacing head k
                 (st\<lparr>sc_pageBlocks := span, sc_pages := sc_pages st + 1, sc_byMember := byMember, sc_scannedTo := to\<rparr>) s'))"

definition fresh_scan :: "int \<Rightarrow> scan" where
  "fresh_scan span = \<lparr> sc_creationBlock = None, sc_scanFrom = 0, sc_scannedTo = -1, sc_windowGap = None,
     sc_pageBlocks = span, sc_byMember = [], sc_pages = 0 \<rparr>"

text \<open>The scan starts at the creation block, or at most \<open>maxBlocks\<close> behind the head.\<close>

definition start_scan :: "int \<Rightarrow> int \<Rightarrow> int \<Rightarrow> scan \<Rightarrow> scan" where
  "start_scan limit head block st =
     (let scanFrom = max block (head - limit + 1) in
      st\<lparr>sc_creationBlock := Some block, sc_scanFrom := scanFrom, sc_scannedTo := scanFrom - 1,
         sc_windowGap := (if scanFrom > block then Some (GapWindow block scanFrom) else None)\<rparr>)"

record realization_answer =
  ra_record :: realization_record
  ra_gap :: "scan_gap option"
  ra_creationBlock :: "int option"
  ra_scannedFrom :: "int option"
  ra_scannedTo :: "int option"
  ra_head :: "int option"
  ra_pageBlocks :: int

definition snapshot :: "scan_gap option \<Rightarrow> int option \<Rightarrow> scan \<Rightarrow> realization_answer" where
  "snapshot gap head st =
     (let done = (gap = None \<and> sc_windowGap st = None \<and> sc_creationBlock st \<noteq> None
                  \<and> (case head of None \<Rightarrow> False | Some h \<Rightarrow> sc_scannedTo st \<ge> h))
      in \<lparr> ra_record = \<lparr> rr_complete = done,
             rr_members = map (\<lambda>(who, t). \<lparr>mr_member = who, mr_gain = mt_gain t, mr_loss = mt_loss t\<rparr>) (sc_byMember st) \<rparr>,
           ra_gap = (if gap \<noteq> None then gap else if sc_windowGap st \<noteq> None then sc_windowGap st
                     else if done then None else Some GapNotYet),
           ra_creationBlock = sc_creationBlock st,
           ra_scannedFrom = map_option (\<lambda>_. sc_scanFrom st) (sc_creationBlock st),
           ra_scannedTo = map_option (\<lambda>_. sc_scannedTo st) (sc_creationBlock st),
           ra_head = head, ra_pageBlocks = sc_pageBlocks st \<rparr>)"

record log_request =
  lq_registry :: string
  lq_vault :: string
  lq_opId :: int
  lq_pageBlocks :: int
  lq_maxBlocks :: int
  lq_pacingMs :: int

definition scan_key_of :: "log_request \<Rightarrow> scan_key" where
  "scan_key_of q = (lc (lq_registry q), lq_opId q, lc (lq_vault q))"

text \<open>
  With the requests left this tick: the answer, the requests left after it, and the session. The scan is
  kept in the session whatever happens. \<open>None\<close> is one of the two assertions.
\<close>

definition read_scan ::
  "rpc_node \<Rightarrow> log_request \<Rightarrow> nat \<Rightarrow> log_session \<Rightarrow> realization_answer \<times> nat \<times> log_session" where
  "read_scan node q pages s =
     (let registry = lc (lq_registry q); vault = lc (lq_vault q); key = scan_key_of q;
          st = (case ls_scans s key of None \<Rightarrow> fresh_scan (lq_pageBlocks q) | Some st \<Rightarrow> st);
          keep = (\<lambda>st s. s\<lparr>ls_scans := (ls_scans s)(key \<mapsto> st)\<rparr>)
      in case rpc_retrying (rn_blockNumber node) (lq_pacingMs q) 4 s of
        (Inl err, s1) \<Rightarrow> (snapshot (Some (GapUnreadable err)) None st, pages, keep st s1)
      | (Inr head, s1) \<Rightarrow>
          (case (if sc_creationBlock st = None
                 then (case findCreationBlock node registry vault (lq_pacingMs q) head s1 of
                         (Inl gap, s2) \<Rightarrow> (Inl gap, s2)
                       | (Inr block, s2) \<Rightarrow> (Inr (start_scan (lq_maxBlocks q) head block st), s2))
                 else (Inr st, s1)) of
             (Inl gap, s2) \<Rightarrow> (snapshot (Some gap) (Some head) st, pages, keep st s2)
           | (Inr st1, s2) \<Rightarrow>
               (case scan_pages (\<lambda>n start to. rn_realizations node n registry (lq_opId q) start to) (lq_pacingMs q) head pages st1 s2 of
                  (gap, left, st2, s3) \<Rightarrow> (snapshot gap (Some head) st2, left, keep st2 s3))))"

definition readRealizations ::
  "rpc_node \<Rightarrow> log_request \<Rightarrow> nat \<Rightarrow> log_session \<Rightarrow> (realization_answer \<times> nat \<times> log_session) option" where
  "readRealizations node q pages s =
     (if \<not> lq_pageBlocks q > 0 \<or> \<not> lq_opId q > 0 then None else Some (read_scan node q pages s))"


section \<open>What is tallied\<close>

text \<open>The logs of one member, and a Map that holds the sums of a list of logs.\<close>

definition decoded :: "realization_log \<Rightarrow> bool" where
  "decoded l \<longleftrightarrow> rl_member l \<noteq> None \<and> rl_gainUsdc l \<noteq> None \<and> rl_lossUsdc l \<noteq> None"

definition mine :: "string \<Rightarrow> realization_log list \<Rightarrow> realization_log list" where
  "mine who ls = filter (\<lambda>l. map_option lc (rl_member l) = Some who) ls"

definition tally :: "string \<Rightarrow> realization_log list \<Rightarrow> member_tally" where
  "tally who ls = \<lparr> mt_gain = sum_list (map (the \<circ> rl_gainUsdc) (mine who ls)),
     mt_loss = sum_list (map (the \<circ> rl_lossUsdc) (mine who ls)), mt_events = int (length (mine who ls)) \<rparr>"

definition tallied :: "(string, member_tally) jsmap \<Rightarrow> realization_log list \<Rightarrow> bool" where
  "tallied byMember ls \<longleftrightarrow> wf_map byMember \<and>
     (\<forall>who. map_of byMember who = (if mine who ls = [] then None else Some (tally who ls)))"

lemma mine_simps [simp]: "mine who [] = []" "mine who (ls @ ls') = mine who ls @ mine who ls'"
  by (simp_all add: mine_def)

lemma tallied_empty: "tallied [] []"
  by (simp add: tallied_def)

lemma tallied_add:
  assumes "tallied bm ls" "rl_member l = Some m" "rl_gainUsdc l = Some g" "rl_lossUsdc l = Some x"
  shows "tallied (add_realization (lc m) g x bm) (ls @ [l])"
proof -
  have l: "mine who [l] = (if who = lc m then [l] else [])" for who
    using assms(2) by (auto simp: mine_def)
  have "map_of (add_realization (lc m) g x bm) who = (if mine who (ls @ [l]) = [] then None else Some (tally who (ls @ [l])))" for who
    using assms unfolding add_realization_def Let_def
    by (auto simp: tallied_def l tally_def update_conv mine_simps(1) split: option.splits)
  moreover have "wf_map (add_realization (lc m) g x bm)"
    using assms(1) by (simp add: tallied_def add_realization_def Let_def distinct_update)
  ultimately show ?thesis by (simp add: tallied_def)
qed

lemma add_logs_tallied:
  assumes "tallied bm ls" "list_all decoded ls'"
  shows "\<exists>bm'. add_logs ls' bm = (None, bm') \<and> tallied bm' (ls @ ls')"
  using assms
proof (induction ls' arbitrary: bm ls)
  case Nil
  then show ?case by simp
next
  case (Cons l ls')
  then obtain m g x where l: "rl_member l = Some m" "rl_gainUsdc l = Some g" "rl_lossUsdc l = Some x"
    by (auto simp: decoded_def)
  then have "\<exists>bm'. add_logs ls' (add_realization (lc m) g x bm) = (None, bm') \<and> tallied bm' ((ls @ [l]) @ ls')"
    using Cons.IH [OF tallied_add [OF Cons.prems(1) l]] Cons.prems(2) by auto
  then show ?case using l by simp
qed


section \<open>What a scan keeps\<close>

definition same_session :: "log_session \<Rightarrow> log_session \<Rightarrow> bool" where
  "same_session s s' \<longleftrightarrow> ls_scans s' = ls_scans s \<and> ls_requests s \<le> ls_requests s'
     \<and> (ls_learnedPaceMs s \<le> MAX_LEARNED_PACE_MS \<longrightarrow>
          ls_learnedPaceMs s \<le> ls_learnedPaceMs s' \<and> ls_learnedPaceMs s' \<le> MAX_LEARNED_PACE_MS)"

lemma same_refl [simp]: "same_session s s"
  by (simp add: same_session_def)

lemma same_trans: "same_session s t \<Longrightarrow> same_session t u \<Longrightarrow> same_session s u"
  by (auto simp: same_session_def)

lemma same_requested [simp]: "same_session s (requested s)"
  by (simp add: same_session_def requested_def)

lemma same_slower [simp]: "same_session s (slower p s)"
  by (auto simp: same_session_def slower_def paceMs_def MAX_LEARNED_PACE_MS_def)

lemma rpc_retrying_answer:
  assumes "rpc_retrying request p k s = (r, s')"
  shows "(\<exists>n. request n = r) \<and> same_session s s'"
  using assms
proof (induction k arbitrary: s)
  case 0
  then show ?case by auto
next
  case (Suc k)
  show ?case
  proof (cases "request (ls_requests s)")
    case (Inl err)
    show ?thesis
    proof (cases "classifyRpcError err = Throttled")
      case True
      have st: "same_session s (slower p (requested s))" by (rule same_trans [OF same_requested same_slower])
      show ?thesis using Suc.IH [of "slower p (requested s)"] Suc.prems Inl True same_trans [OF st] by auto
    next
      case False
      then show ?thesis using Suc.prems Inl by auto
    qed
  next
    case (Inr v)
    then show ?thesis using Suc.prems by auto
  qed
qed

lemma codeAt_session: "codeAt node v p b s = (r, s') \<Longrightarrow> same_session s s'"
  using rpc_retrying_answer [of "\<lambda>n. rn_getCode node n v b" p 4 s]
  by (auto simp: codeAt_def split: prod.splits sum.splits)

lemma bisect_session: "bisect node v p lo hi s = (r, s') \<Longrightarrow> same_session s s'"
proof (induction node v p lo hi s arbitrary: r s' rule: bisect.induct)
  case (1 node v p lo hi s)
  show ?case
  proof (cases "lo < hi")
    case True
    obtain c s1 where c: "codeAt node v p ((lo + hi) div 2) s = (c, s1)" by fastforce
    have t: "same_session s s1" by (rule codeAt_session [OF c])
    show ?thesis
    proof (cases c)
      case (Inl e)
      then show ?thesis using 1(3) True c t by (simp add: bisect.simps [of node v p lo] Let_def)
    next
      case (Inr b)
      then show ?thesis using 1 True c t same_trans [OF t] by (cases b) (simp_all add: bisect.simps [of node v p lo] Let_def)
    qed
  next
    case False
    then show ?thesis using 1(3) by (simp add: bisect.simps)
  qed
qed

lemma findCreationBlock_answer:
  assumes "findCreationBlock node reg v p head s = (r, s')"
  shows "same_session s s' \<and> (\<forall>b. r = Inr b \<longrightarrow> (\<exists>n c. rn_attested node n reg v b = Inr (Some c) \<and> 0 < c))"
proof -
  obtain c s1 where c: "codeAt node v p head s = (c, s1)" by fastforce
  obtain bi s2 where bi: "bisect node v p 0 head s1 = (bi, s2)" by fastforce
  note s1 = codeAt_session [OF c]
  note s2 = same_trans [OF s1 bisect_session [OF bi]]
  show ?thesis
  proof (cases "c = Inr True \<and> (\<exists>lo. bi = Inr lo)")
    case True
    then obtain lo where lo: "bi = Inr lo" "c = Inr True" by blast
    obtain ct s3 where ct: "rpc_retrying (\<lambda>n. rn_attested node n reg v lo) p 4 s2 = (ct, s3)" by fastforce
    note a = rpc_retrying_answer [OF ct]
    have "same_session s s3" using same_trans [OF s2] a by blast
    then show ?thesis using assms a unfolding findCreationBlock_def
      by (auto simp: c lo bi ct split: sum.splits if_splits option.splits)
  next
    case False
    then show ?thesis using assms s1 s2 unfolding findCreationBlock_def
      by (auto simp: c bi split: sum.splits bool.splits)
  qed
qed

lemma fetch_page_answer:
  assumes "fetch_page getLogs p head start pb s = (r, pb', s')" "0 < pb"
  shows "same_session s s' \<and> 0 < pb' \<and> pb' \<le> pb \<and>
    (\<forall>logs to. r = Inr (logs, to) \<longrightarrow> to = min head (start + pb' - 1) \<and> (\<exists>n. getLogs n start to = Inr logs))"
  using assms
proof (induction getLogs p head start pb s arbitrary: r pb' s' rule: fetch_page.induct)
  case (1 getLogs p head start pb s)
  obtain a s1 where a: "rpc_retrying (\<lambda>n. getLogs n start (min head (start + pb - 1))) p 4 s = (a, s1)" by fastforce
  note ans = rpc_retrying_answer [OF a]
  show ?case
  proof (cases a)
    case (Inr logs)
    then show ?thesis using 1(2,3) a ans by (auto simp: fetch_page.simps Let_def)
  next
    case (Inl err)
    show ?thesis
    proof (cases "classifyRpcError err = RangeRefused \<and> pb > MIN_LOG_PAGE_BLOCKS")
      case True
      have m: "0 < max MIN_LOG_PAGE_BLOCKS (pb div 2)" "max MIN_LOG_PAGE_BLOCKS (pb div 2) \<le> pb"
        using True by (auto simp: MIN_LOG_PAGE_BLOCKS_def)
      have "fetch_page getLogs p head start (max MIN_LOG_PAGE_BLOCKS (pb div 2)) s1 = (r, pb', s')"
        using 1(2) True Inl a by (simp add: fetch_page.simps [of _ _ _ _ pb] Let_def)
      then show ?thesis using 1(1) [OF refl a [symmetric] Inl True _ m(1)] ans m(2) same_trans by fastforce
    next
      case False
      then show ?thesis using 1(2,3) Inl a ans by (auto simp: fetch_page.simps Let_def)
    qed
  qed
qed


section \<open>The chain behind the node\<close>

text \<open>
  The registry's logs are a function of the block, and they are all decoded; an answer of the node, when
  there is one, is the logs of the range asked for. The registry attested a vault in one block, and an
  answer with an attestation is that block's. Nothing is assumed of \<open>getCode\<close>, nor of when requests fail.
\<close>

type_synonym log_chain = "string \<Rightarrow> int \<Rightarrow> int \<Rightarrow> realization_log list"

definition logs_between :: "log_chain \<Rightarrow> string \<Rightarrow> int \<Rightarrow> int \<Rightarrow> int \<Rightarrow> realization_log list" where
  "logs_between chain reg op a b = concat (map (chain reg op) [a..b])"

definition honest_logs :: "rpc_node \<Rightarrow> log_chain \<Rightarrow> bool" where
  "honest_logs node chain \<longleftrightarrow> (\<forall>n reg op a b ls. rn_realizations node n reg op a b = Inr ls \<longrightarrow> ls = logs_between chain reg op a b)"

definition honest_control :: "rpc_node \<Rightarrow> (string \<Rightarrow> string \<Rightarrow> int) \<Rightarrow> bool" where
  "honest_control node born \<longleftrightarrow> (\<forall>n reg v b c. rn_attested node n reg v b = Inr (Some c) \<and> 0 < c \<longrightarrow> b = born reg v)"

definition all_decoded :: "log_chain \<Rightarrow> bool" where
  "all_decoded chain \<longleftrightarrow> (\<forall>reg op b. list_all decoded (chain reg op b))"

lemma logs_between_empty [simp]: "b < a \<Longrightarrow> logs_between chain reg op a b = []"
  by (simp add: logs_between_def)

lemma logs_between_append:
  assumes "a \<le> b + 1" "b \<le> c"
  shows "logs_between chain reg op a c = logs_between chain reg op a b @ logs_between chain reg op (b + 1) c"
proof (cases "a \<le> b")
  case True
  then show ?thesis using upto_split2 [of a b c] assms(2) by (simp add: logs_between_def)
next
  case False
  then have "a = b + 1" using assms(1) by simp
  then show ?thesis by (simp add: logs_between_def)
qed

lemma decoded_between: "all_decoded chain \<Longrightarrow> list_all decoded (logs_between chain reg op a b)"
  by (auto simp: all_decoded_def logs_between_def list_all_iff)

definition scan_ok :: "log_chain \<Rightarrow> (string \<Rightarrow> string \<Rightarrow> int) \<Rightarrow> scan_key \<Rightarrow> scan \<Rightarrow> bool" where
  "scan_ok chain born key st \<longleftrightarrow> (case key of (reg, op, v) \<Rightarrow>
     0 < sc_pageBlocks st \<and>
     (case sc_creationBlock st of
        None \<Rightarrow> sc_byMember st = [] \<and> sc_windowGap st = None
      | Some b \<Rightarrow> b = born reg v \<and> b \<le> sc_scanFrom st \<and> (sc_windowGap st = None \<longrightarrow> sc_scanFrom st = b)
          \<and> sc_scanFrom st \<le> sc_scannedTo st + 1
          \<and> tallied (sc_byMember st) (logs_between chain reg op (sc_scanFrom st) (sc_scannedTo st))))"

lemma scan_pages_ok:
  assumes "scan_pages getLogs p head k st s = (gap, left, st', s')"
    and "\<And>n a b ls. getLogs n a b = Inr ls \<Longrightarrow> ls = logs_between chain reg op a b" "all_decoded chain"
    and "scan_ok chain born (reg, op, v) st" "sc_creationBlock st \<noteq> None"
  shows "scan_ok chain born (reg, op, v) st' \<and> sc_creationBlock st' = sc_creationBlock st \<and> sc_windowGap st' = sc_windowGap st
    \<and> sc_scannedTo st \<le> sc_scannedTo st' \<and> (gap = None \<longrightarrow> head \<le> sc_scannedTo st') \<and> left \<le> k \<and> same_session s s'"
  using assms(1,4,5)
proof (induction k arbitrary: st s)
  case 0
  then show ?case by (auto split: if_splits)
next
  case (Suc k)
  show ?case
  proof (cases "sc_scannedTo st < head")
    case False
    then show ?thesis using Suc.prems by auto
  next
    case True
    obtain r pb s1 where f: "fetch_page getLogs p head (sc_scannedTo st + 1) (sc_pageBlocks st) s = (r, pb, s1)"
      by (metis prod_cases3)
    have pb: "0 < sc_pageBlocks st" using Suc.prems(2) by (simp add: scan_ok_def)
    note page = fetch_page_answer [OF f pb]
    show ?thesis
    proof (cases r)
      case (Inl g)
      then show ?thesis using Suc.prems True f page by (auto simp: scan_ok_def split: option.splits)
    next
      case (Inr lt)
      obtain logs to where lt: "lt = (logs, to)" by fastforce
      then have "to = min head (sc_scannedTo st + 1 + pb - 1)" "\<exists>n. getLogs n (sc_scannedTo st + 1) to = Inr logs"
        using page Inr by blast+
      then have to: "sc_scannedTo st < to" and logs: "logs = logs_between chain reg op (sc_scannedTo st + 1) to"
        using True page assms(2) by auto
      have t: "tallied (sc_byMember st) (logs_between chain reg op (sc_scanFrom st) (sc_scannedTo st))"
        and le: "sc_scanFrom st \<le> sc_scannedTo st + 1"
        using Suc.prems(2,3) by (auto simp: scan_ok_def)
      obtain bm where bm: "add_logs logs (sc_byMember st) = (None, bm)"
        "tallied bm (logs_between chain reg op (sc_scanFrom st) to)"
        using add_logs_tallied [OF t, of logs] decoded_between [OF assms(3)]
          logs_between_append [OF le, of to chain reg op] to by (auto simp: logs)
      let ?st = "st\<lparr>sc_pageBlocks := pb, sc_pages := sc_pages st + 1, sc_byMember := bm, sc_scannedTo := to\<rparr>"
      have "scan_pages getLogs p head k ?st s1 = (gap, left, st', s')"
        using Suc.prems(1) True f Inr lt bm(1) by simp
      moreover have "scan_ok chain born (reg, op, v) ?st"
        using Suc.prems(2,3) page bm(2) to by (auto simp: scan_ok_def)
      ultimately show ?thesis using Suc.IH [of ?st s1] Suc.prems(3) to page same_trans by fastforce
    qed
  qed
qed


section \<open>A complete record is every realization\<close>

definition scans_ok :: "log_chain \<Rightarrow> (string \<Rightarrow> string \<Rightarrow> int) \<Rightarrow> log_session \<Rightarrow> bool" where
  "scans_ok chain born s \<longleftrightarrow> (\<forall>key st. ls_scans s key = Some st \<longrightarrow> scan_ok chain born key st)"

inductive log_reachable :: "rpc_node \<Rightarrow> log_session \<Rightarrow> bool" for node :: rpc_node where
  start: "log_reachable node \<lparr>ls_requests = n, ls_learnedPaceMs = 0, ls_scans = Map.empty\<rparr>"
| read: "log_reachable node s \<Longrightarrow> readRealizations node q pages s = Some (a, left, s') \<Longrightarrow> log_reachable node s'"

text \<open>One call: the scan it leaves in the session, and the answer as a snapshot of it.\<close>

lemma read_scan_step:
  assumes "read_scan node q pages s = (a, left, s')" "0 < lq_pageBlocks q"
    and "honest_logs node chain" "honest_control node born" "all_decoded chain" "scans_ok chain born s"
  shows "\<exists>gap head st t. a = snapshot gap head st \<and> ls_scans s' = (ls_scans s)(scan_key_of q \<mapsto> st)
    \<and> scan_ok chain born (scan_key_of q) st \<and> left \<le> pages \<and> same_session s t \<and> ls_learnedPaceMs s' = ls_learnedPaceMs t"
proof -
  let ?reg = "lc (lq_registry q)" and ?v = "lc (lq_vault q)" and ?key = "scan_key_of q"
  define st where "st = (case ls_scans s ?key of None \<Rightarrow> fresh_scan (lq_pageBlocks q) | Some st \<Rightarrow> st)"
  have key: "?key = (?reg, lq_opId q, ?v)" by (simp add: scan_key_of_def)
  have st: "scan_ok chain born ?key st"
  proof (cases "ls_scans s ?key")
    case None
    then show ?thesis using assms(2) by (simp add: st_def scan_ok_def fresh_scan_def key)
  next
    case (Some u)
    moreover have "scan_ok chain born ?key u" using assms(6) Some unfolding scans_ok_def by blast
    ultimately show ?thesis by (simp add: st_def)
  qed
  obtain h s1 where h: "rpc_retrying (rn_blockNumber node) (lq_pacingMs q) 4 s = (h, s1)" by fastforce
  have s1: "same_session s s1" using rpc_retrying_answer [OF h] by blast
  note run = assms(1) [unfolded read_scan_def Let_def, folded st_def, unfolded h]
  have kept: "a = snapshot gap hd st \<Longrightarrow> s' = u\<lparr>ls_scans := (ls_scans u)(?key \<mapsto> st)\<rparr> \<Longrightarrow> left = pages \<Longrightarrow> same_session s u \<Longrightarrow> ?thesis"
    for gap hd u using st by (auto simp: same_session_def intro!: exI [of _ gap] exI [of _ hd] exI [of _ st] exI [of _ u])
  show ?thesis
  proof (cases h)
    case (Inl err)
    show ?thesis by (rule kept [of "Some (GapUnreadable err)" None s1]) (use run Inl s1 in simp_all)
  next
    case (Inr head)
    define found where "found = (if sc_creationBlock st = None
      then (case findCreationBlock node ?reg ?v (lq_pacingMs q) head s1 of
              (Inl gap, s2) \<Rightarrow> (Inl gap, s2)
            | (Inr block, s2) \<Rightarrow> (Inr (start_scan (lq_maxBlocks q) head block st), s2))
      else (Inr st, s1))"
    obtain r s2 where r: "found = (r, s2)" by fastforce
    have s2: "same_session s s2" and r_ok: "\<And>st1. r = Inr st1 \<Longrightarrow> scan_ok chain born ?key st1 \<and> sc_creationBlock st1 \<noteq> None"
    proof -
      obtain b u where b: "findCreationBlock node ?reg ?v (lq_pacingMs q) head s1 = (b, u)" by fastforce
      note f = findCreationBlock_answer [OF b]
      show "same_session s s2" using r s1 b f same_trans [OF s1] by (auto simp: found_def split: if_splits sum.splits)
      fix st1 assume "r = Inr st1"
      then have "st1 = st \<and> sc_creationBlock st \<noteq> None
          \<or> (\<exists>block. sc_creationBlock st = None \<and> b = Inr block \<and> st1 = start_scan (lq_maxBlocks q) head block st)"
        using r b by (auto simp: found_def split: if_splits sum.splits)
      then show "scan_ok chain born ?key st1 \<and> sc_creationBlock st1 \<noteq> None"
      proof (elim disjE exE conjE)
        fix block assume n: "sc_creationBlock st = None" "b = Inr block" "st1 = start_scan (lq_maxBlocks q) head block st"
        then have "block = born ?reg ?v" using f n(2) assms(4) unfolding honest_control_def by blast
        then show ?thesis using st n by (auto simp: scan_ok_def key start_scan_def Let_def tallied_empty)
      qed (use st in simp)
    qed
    show ?thesis
    proof (cases r)
      case (Inl gap)
      show ?thesis by (rule kept [of "Some gap" "Some head" s2]) (use run Inr r s2 Inl in \<open>simp_all add: found_def\<close>)
    next
      case st1: (Inr st1)
      obtain gap l2 st2 s3 where sp: "scan_pages (\<lambda>n a b. rn_realizations node n ?reg (lq_opId q) a b) (lq_pacingMs q) head pages st1 s2
          = (gap, l2, st2, s3)"
        by (metis prod_cases4)
      have honest: "\<And>n a b ls. rn_realizations node n ?reg (lq_opId q) a b = Inr ls \<Longrightarrow> ls = logs_between chain ?reg (lq_opId q) a b"
        using assms(3) by (simp add: honest_logs_def)
      note ok = scan_pages_ok [OF sp honest assms(5), where born = born and v = ?v] r_ok [OF st1]
      have "a = snapshot gap (Some head) st2" "left = l2" "s' = s3\<lparr>ls_scans := (ls_scans s3)(?key \<mapsto> st2)\<rparr>"
        using run Inr r st1 sp by (simp_all add: found_def)
      then show ?thesis using ok s2 same_trans [OF s2, of s3] unfolding key
        by (auto simp: same_session_def intro!: exI [of _ gap] exI [of _ "Some head"] exI [of _ st2] exI [of _ s3])
    qed
  qed
qed

lemma reachable_scans_ok:
  assumes "log_reachable node s" "honest_logs node chain" "honest_control node born" "all_decoded chain"
  shows "scans_ok chain born s"
  using assms(1)
proof (induction rule: log_reachable.induct)
  case (start n)
  then show ?case by (simp add: scans_ok_def)
next
  case (read s q pages a left s')
  then have "read_scan node q pages s = (a, left, s')" "0 < lq_pageBlocks q"
    by (auto simp: readRealizations_def split: if_splits)
  then obtain st where "ls_scans s' = (ls_scans s)(scan_key_of q \<mapsto> st)" "scan_ok chain born (scan_key_of q) st"
    using read_scan_step [OF _ _ assms(2-4) read.IH] by blast
  then show ?case using read.IH by (auto simp: scans_ok_def)
qed

lemma complete_record_sums:
  assumes "log_reachable node s" "honest_logs node chain" "honest_control node born" "all_decoded chain"
    and "readRealizations node q pages s = Some (a, left, s')" "rr_complete (ra_record a)"
  shows "\<exists>h t. ra_creationBlock a = Some (born (lc (lq_registry q)) (lc (lq_vault q))) \<and> ra_scannedFrom a = Some (born (lc (lq_registry q)) (lc (lq_vault q))) \<and> ra_head a = Some h \<and> ra_scannedTo a = Some t \<and> h \<le> t
    \<and> (let logs = logs_between chain (lc (lq_registry q)) (lq_opId q) (born (lc (lq_registry q)) (lc (lq_vault q))) t in
        distinct (map mr_member (rr_members (ra_record a)))
        \<and> (\<forall>who. mine who logs \<noteq> [] \<longleftrightarrow> who \<in> mr_member ` set (rr_members (ra_record a)))
        \<and> (\<forall>m \<in> set (rr_members (ra_record a)).
             mr_gain m = mt_gain (tally (mr_member m) logs) \<and> mr_loss m = mt_loss (tally (mr_member m) logs)))"
proof -
  let ?b = "born (lc (lq_registry q)) (lc (lq_vault q))"
  have "read_scan node q pages s = (a, left, s')" "0 < lq_pageBlocks q"
    using assms(5) by (auto simp: readRealizations_def split: if_splits)
  then obtain gap head st where st: "a = snapshot gap head st" "scan_ok chain born (scan_key_of q) st"
    using read_scan_step [OF _ _ assms(2-4) reachable_scans_ok [OF assms(1-4)]] by blast
  have fin: "gap = None" "sc_windowGap st = None" "sc_creationBlock st \<noteq> None" "\<exists>h. head = Some h \<and> h \<le> sc_scannedTo st"
    using assms(6) by (auto simp: st(1) snapshot_def Let_def split: option.splits)
  let ?logs = "logs_between chain (lc (lq_registry q)) (lq_opId q) ?b (sc_scannedTo st)"
  have b: "sc_creationBlock st = Some ?b" "sc_scanFrom st = ?b" and t: "tallied (sc_byMember st) ?logs"
    using st(2) fin(2,3) by (auto simp: scan_ok_def scan_key_of_def)
  have ms: "rr_members (ra_record a) = map (\<lambda>(who, t). \<lparr>mr_member = who, mr_gain = mt_gain t, mr_loss = mt_loss t\<rparr>) (sc_byMember st)"
    by (simp add: st(1) snapshot_def Let_def)
  have names: "map mr_member (rr_members (ra_record a)) = map fst (sc_byMember st)"
    by (simp add: ms case_prod_unfold)
  have wf: "wf_map (sc_byMember st)" using t by (simp add: tallied_def)
  have listed: "mine who ?logs \<noteq> [] \<longleftrightarrow> who \<in> mr_member ` set (rr_members (ra_record a))" for who
  proof -
    have "who \<in> mr_member ` set (rr_members (ra_record a)) \<longleftrightarrow> who \<in> fst ` set (sc_byMember st)"
      by (metis names list.set_map)
    also have "\<dots> \<longleftrightarrow> map_of (sc_byMember st) who \<noteq> None" by (simp add: map_of_eq_None_iff)
    finally show ?thesis using t by (simp add: tallied_def)
  qed
  have sums: "mr_gain m = mt_gain (tally (mr_member m) ?logs) \<and> mr_loss m = mt_loss (tally (mr_member m) ?logs)"
    if listed_m: "m \<in> set (rr_members (ra_record a))" for m
  proof -
    obtain y where y: "y \<in> set (sc_byMember st)" "m = (\<lambda>(who, t). \<lparr>mr_member = who, mr_gain = mt_gain t, mr_loss = mt_loss t\<rparr>) y"
      using listed_m unfolding ms set_map by blast
    obtain who x where wx: "y = (who, x)" by fastforce
    have m: "(who, x) \<in> set (sc_byMember st)" "m = \<lparr>mr_member = who, mr_gain = mt_gain x, mr_loss = mt_loss x\<rparr>"
      using y by (simp_all add: wx)
    have "map_of (sc_byMember st) who = Some x" using wf m(1) by (rule map_of_is_SomeI)
    then have "x = tally who ?logs" using t by (auto simp: tallied_def split: if_splits)
    then show ?thesis by (simp add: m(2))
  qed
  obtain h where h: "head = Some h" "h \<le> sc_scannedTo st" using fin(4) by blast
  have dist: "distinct (map mr_member (rr_members (ra_record a)))" using wf unfolding names .
  have "ra_creationBlock a = Some ?b" "ra_scannedFrom a = Some ?b" "ra_head a = Some h" "ra_scannedTo a = Some (sc_scannedTo st)"
    using b h by (simp_all add: st(1) snapshot_def Let_def)
  then show ?thesis unfolding Let_def using h(2) dist listed sums by blast
qed

text \<open>
  C12. A complete record is every realization. In every session, however often requests were refused,
  narrowed, postponed or resumed over earlier ticks, and whatever \<open>getCode\<close> answered, a record marked
  complete starts at the block the registry attested the vault in, reaches the head, and holds for each
  member exactly the sums of that member's logs of the operator in that range, each log once.
\<close>

theorem complete_record_is_every_realization:
  assumes "log_reachable node s" "honest_logs node chain" "honest_control node born" "all_decoded chain"
    and "readRealizations node q pages s = Some (a, left, s')" "rr_complete (ra_record a)"
  defines "b \<equiv> born (lc (lq_registry q)) (lc (lq_vault q))"
  shows "\<exists>h t. ra_creationBlock a = Some b \<and> ra_scannedFrom a = Some b \<and> ra_head a = Some h \<and> ra_scannedTo a = Some t \<and> h \<le> t
    \<and> (let logs = logs_between chain (lc (lq_registry q)) (lq_opId q) b t in
        distinct (map mr_member (rr_members (ra_record a)))
        \<and> (\<forall>who. mine who logs \<noteq> [] \<longleftrightarrow> who \<in> mr_member ` set (rr_members (ra_record a)))
        \<and> (\<forall>m \<in> set (rr_members (ra_record a)).
             mr_gain m = mt_gain (tally (mr_member m) logs) \<and> mr_loss m = mt_loss (tally (mr_member m) logs)))"
  unfolding b_def by (rule complete_record_sums [OF assms(1-6)])

text \<open>Two members, a node that is busy at first and a second tick that resumes the first.\<close>

definition toy_chain :: log_chain where
  "toy_chain reg op b = (if b = 2 then [\<lparr>rl_member = Some ''0xA'', rl_gainUsdc = Some 5, rl_lossUsdc = Some 0, rl_blockNumber = 2\<rparr>] else [])"

definition toy_node :: rpc_node where
  "toy_node = \<lparr> rn_blockNumber = (\<lambda>n. if n = 0 then Inl [Some ''429''] else Inr 3),
     rn_getCode = (\<lambda>n v b. Inr (if b \<ge> 1 then Some ''0x60'' else Some ''0x'')),
     rn_attested = (\<lambda>n reg v b. Inr (Some (if b = 1 then 1 else 0))),
     rn_realizations = (\<lambda>n reg op a b. Inr (logs_between toy_chain reg op a b)) \<rparr>"

definition toy_request :: log_request where
  "toy_request = \<lparr>lq_registry = ''0xR'', lq_vault = ''0xV'', lq_opId = 7, lq_pageBlocks = 2, lq_maxBlocks = 100, lq_pacingMs = 0\<rparr>"

definition toy_session :: log_session where
  "toy_session = \<lparr>ls_requests = 0, ls_learnedPaceMs = 0, ls_scans = Map.empty\<rparr>"

definition toy_tick :: "nat \<Rightarrow> log_session \<Rightarrow> realization_answer \<times> nat \<times> log_session" where
  "toy_tick pages s = read_scan toy_node toy_request pages s"

lemma toy_runs: "readRealizations toy_node toy_request pages s = Some (toy_tick pages s)"
  by (simp add: readRealizations_def toy_request_def toy_tick_def)

lemma complete_record_is_every_realization_witness:
  "ra_creationBlock (fst (toy_tick 1 (snd (snd (toy_tick 1 toy_session))))) = Some 1
    \<and> distinct (map mr_member (rr_members (ra_record (fst (toy_tick 1 (snd (snd (toy_tick 1 toy_session))))))))"
proof -
  obtain a l s where t1: "toy_tick 1 toy_session = (a, l, s)" by (metis prod_cases3)
  obtain a' l' s' where t2: "toy_tick 1 s = (a', l', s')" by (metis prod_cases3)
  have r0: "log_reachable toy_node toy_session" unfolding toy_session_def by (rule log_reachable.start)
  have r: "log_reachable toy_node s" by (rule log_reachable.read [OF r0, of toy_request 1 a l]) (simp only: toy_runs t1)
  have h: "honest_logs toy_node toy_chain" "honest_control toy_node (\<lambda>_ _. 1)" "all_decoded toy_chain"
    by (auto simp: honest_logs_def honest_control_def all_decoded_def toy_node_def toy_chain_def decoded_def split: if_splits)
  have "rr_complete (ra_record (fst (toy_tick 1 (snd (snd (toy_tick 1 toy_session))))))" by code_simp
  then have c: "rr_complete (ra_record a')" by (simp only: t1 t2 fst_conv snd_conv)
  have e: "readRealizations toy_node toy_request 1 s = Some (a', l', s')" by (simp only: toy_runs t2)
  show ?thesis using complete_record_is_every_realization [OF r h e c] unfolding t1 t2 fst_conv snd_conv Let_def by blast
qed


section \<open>The scan finishes\<close>

text \<open>A node that answers every request, with a head that stays.\<close>

definition answering :: "rpc_node \<Rightarrow> log_chain \<Rightarrow> int \<Rightarrow> int \<Rightarrow> bool" where
  "answering node chain created head \<longleftrightarrow> (\<forall>n. rn_blockNumber node n = Inr head)
     \<and> (\<forall>n v b. \<exists>c. rn_getCode node n v b = Inr c \<and> (case c of None \<Rightarrow> False | Some x \<Rightarrow> length x > 2) = (created \<le> b))
     \<and> (\<forall>n reg v. \<exists>c. rn_attested node n reg v created = Inr (Some c) \<and> 0 < c)
     \<and> (\<forall>n reg op a b. rn_realizations node n reg op a b = Inr (logs_between chain reg op a b))"

fun answers_of :: "rpc_node \<Rightarrow> log_request \<Rightarrow> nat \<Rightarrow> nat \<Rightarrow> log_session \<Rightarrow> realization_answer list" where
  "answers_of node q pages 0 s = []"
| "answers_of node q pages (Suc k) s = (case readRealizations node q pages s of
      None \<Rightarrow> [] | Some (a, _, s') \<Rightarrow> a # answers_of node q pages k s')"

lemma rpc_retrying_ok: "request (ls_requests s) = Inr v \<Longrightarrow> rpc_retrying request p k s = (Inr v, requested s)"
  by (cases k) simp_all

lemma codeAt_answers:
  assumes "answering node chain created head"
  shows "\<exists>s1. codeAt node v p b s = (Inr (created \<le> b), s1)"
proof -
  obtain c where "rn_getCode node (ls_requests s) v b = Inr c" "(case c of None \<Rightarrow> False | Some x \<Rightarrow> length x > 2) = (created \<le> b)"
    using assms unfolding answering_def by blast
  then show ?thesis by (simp add: codeAt_def rpc_retrying_ok)
qed

lemma bisect_finds:
  assumes "answering node chain created head" "lo \<le> created" "created \<le> hi"
  shows "\<exists>s'. bisect node v p lo hi s = (Inr created, s')"
  using assms
proof (induction node v p lo hi s rule: bisect.induct)
  case (1 node v p lo hi s)
  show ?case
  proof (cases "lo < hi")
    case True
    let ?mid = "(lo + hi) div 2"
    obtain s1 where c: "codeAt node v p ?mid s = (Inr (created \<le> ?mid), s1)" using codeAt_answers [OF 1(3)] by blast
    have b: "bisect node v p lo hi s = (if created \<le> ?mid then bisect node v p lo ?mid s1 else bisect node v p (?mid + 1) hi s1)"
      using True c by (simp add: bisect.simps [of node v p lo] Let_def)
    show ?thesis
    proof (cases "created \<le> ?mid")
      case t: True
      then show ?thesis unfolding b using 1(1) [OF True refl c [symmetric, unfolded t] refl] 1(3-5) c by simp
    next
      case f: False
      then show ?thesis unfolding b using 1(2) [OF True refl] 1(3-5) c by simp
    qed
  qed (use 1 in \<open>simp add: bisect.simps\<close>)
qed

lemma findCreationBlock_answers:
  assumes "answering node chain created head" "0 \<le> created" "created \<le> head"
  shows "\<exists>s'. findCreationBlock node reg v p head s = (Inr created, s')"
proof -
  obtain s1 where c: "codeAt node v p head s = (Inr True, s1)" using codeAt_answers [OF assms(1), of v p head s] assms(3) by auto
  obtain s2 where b: "bisect node v p 0 head s1 = (Inr created, s2)" using bisect_finds [OF assms] by blast
  obtain n where "rn_attested node (ls_requests s2) reg v created = Inr (Some n)" "0 < n"
    using assms(1) unfolding answering_def by blast
  then show ?thesis using c b by (simp add: findCreationBlock_def rpc_retrying_ok)
qed

lemma scan_pages_progress:
  assumes "scan_pages getLogs p head k st s = (gap, left, st', s')" "0 < sc_pageBlocks st" "all_decoded chain"
    and "\<And>n a b. getLogs n a b = Inr (logs_between chain reg op a b)"
    and "tallied (sc_byMember st) ls"
  shows "sc_creationBlock st' = sc_creationBlock st \<and> sc_windowGap st' = sc_windowGap st \<and> sc_pageBlocks st' = sc_pageBlocks st
    \<and> (\<exists>ls. tallied (sc_byMember st') ls) \<and> min head (sc_scannedTo st + int k * sc_pageBlocks st) \<le> sc_scannedTo st'
    \<and> (head \<le> sc_scannedTo st + int k * sc_pageBlocks st \<longrightarrow> gap = None)"
  using assms(1,2,5)
proof (induction k arbitrary: st s ls)
  case 0
  then show ?case by (auto split: if_splits)
next
  case (Suc k)
  show ?case
  proof (cases "sc_scannedTo st < head")
    case False
    then show ?thesis using Suc.prems by auto
  next
    case True
    let ?to = "min head (sc_scannedTo st + sc_pageBlocks st)"
    have f: "fetch_page getLogs p head (sc_scannedTo st + 1) (sc_pageBlocks st) s
        = (Inr (logs_between chain reg op (sc_scannedTo st + 1) ?to, ?to), sc_pageBlocks st, requested s)"
      using assms(4) by (simp add: fetch_page.simps Let_def rpc_retrying_ok algebra_simps)
    obtain bm where bm: "add_logs (logs_between chain reg op (sc_scannedTo st + 1) ?to) (sc_byMember st) = (None, bm)"
      "tallied bm (ls @ logs_between chain reg op (sc_scannedTo st + 1) ?to)"
      using add_logs_tallied [OF Suc.prems(3)] decoded_between [OF assms(3)] by blast
    let ?st = "st\<lparr>sc_pageBlocks := sc_pageBlocks st, sc_pages := sc_pages st + 1, sc_byMember := bm, sc_scannedTo := ?to\<rparr>"
    have "scan_pages getLogs p head k ?st (requested s) = (gap, left, st', s')"
      using Suc.prems(1) True f bm(1) by simp
    then have ih: "sc_creationBlock st' = sc_creationBlock st \<and> sc_windowGap st' = sc_windowGap st \<and> sc_pageBlocks st' = sc_pageBlocks st
        \<and> (\<exists>ls. tallied (sc_byMember st') ls) \<and> min head (?to + int k * sc_pageBlocks st) \<le> sc_scannedTo st'
        \<and> (head \<le> ?to + int k * sc_pageBlocks st \<longrightarrow> gap = None)"
      using Suc.IH [of ?st "requested s"] Suc.prems(2) bm(2) by fastforce
    moreover have "0 \<le> int k * sc_pageBlocks st" using Suc.prems(2) by simp
    ultimately show ?thesis by (auto simp: algebra_simps min_def split: if_splits)
  qed
qed


text \<open>How far the scan of a request has come: \<open>d\<close> blocks from the creation block on, or to the head.\<close>

definition scanned_by :: "log_request \<Rightarrow> int \<Rightarrow> int \<Rightarrow> int \<Rightarrow> log_session \<Rightarrow> bool" where
  "scanned_by q created head d s \<longleftrightarrow> (case ls_scans s (scan_key_of q) of
      None \<Rightarrow> d = 0
    | Some st \<Rightarrow> sc_creationBlock st = Some created \<and> sc_windowGap st = None \<and> sc_pageBlocks st = lq_pageBlocks q
        \<and> (\<exists>ls. tallied (sc_byMember st) ls) \<and> min head (created - 1 + d) \<le> sc_scannedTo st)"

lemma scan_step:
  assumes "answering node chain created head" "0 \<le> created" "created \<le> head" "head - created < lq_maxBlocks q"
    and "all_decoded chain" "0 < lq_pageBlocks q" "scanned_by q created head d s"
  shows "\<exists>a left s'. read_scan node q pages s = (a, left, s') \<and> scanned_by q created head (d + int pages * lq_pageBlocks q) s'
    \<and> (head \<le> created - 1 + d + int pages * lq_pageBlocks q \<longrightarrow> rr_complete (ra_record a))"
proof -
  let ?key = "scan_key_of q" and ?reg = "lc (lq_registry q)" and ?v = "lc (lq_vault q)"
  define st where "st = (case ls_scans s ?key of None \<Rightarrow> fresh_scan (lq_pageBlocks q) | Some st \<Rightarrow> st)"
  have h: "rpc_retrying (rn_blockNumber node) (lq_pacingMs q) 4 s = (Inr head, requested s)"
    using assms(1) by (simp add: rpc_retrying_ok answering_def)
  define found where "found = (if sc_creationBlock st = None
      then (case findCreationBlock node ?reg ?v (lq_pacingMs q) head (requested s) of
              (Inl gap, s2) \<Rightarrow> (Inl gap, s2)
            | (Inr block, s2) \<Rightarrow> (Inr (start_scan (lq_maxBlocks q) head block st), s2))
      else (Inr st, requested s))"
  have "\<exists>st1 s2. found = (Inr st1, s2) \<and> sc_creationBlock st1 = Some created \<and> sc_windowGap st1 = None
      \<and> sc_pageBlocks st1 = lq_pageBlocks q \<and> (\<exists>ls. tallied (sc_byMember st1) ls) \<and> min head (created - 1 + d) \<le> sc_scannedTo st1"
  proof (cases "ls_scans s ?key")
    case None
    obtain s2 where s2: "findCreationBlock node ?reg ?v (lq_pacingMs q) head (requested s) = (Inr created, s2)"
      using findCreationBlock_answers [OF assms(1-3)] by blast
    have m: "max created (head - lq_maxBlocks q + 1) = created" using assms(4) by simp
    show ?thesis using None s2 m assms(7) tallied_empty
      by (auto simp: found_def st_def fresh_scan_def start_scan_def scanned_by_def Let_def)
  next
    case (Some u)
    then show ?thesis using assms(7) by (auto simp: found_def st_def scanned_by_def)
  qed
  then obtain st1 s2 ls where st1: "found = (Inr st1, s2)" "sc_creationBlock st1 = Some created" "sc_windowGap st1 = None"
    "sc_pageBlocks st1 = lq_pageBlocks q" "tallied (sc_byMember st1) ls" "min head (created - 1 + d) \<le> sc_scannedTo st1" by blast
  obtain gap left st2 s3 where sp: "scan_pages (\<lambda>n a b. rn_realizations node n ?reg (lq_opId q) a b) (lq_pacingMs q) head pages st1 s2
      = (gap, left, st2, s3)"
    by (metis prod_cases4)
  have ans: "\<And>n a b. rn_realizations node n ?reg (lq_opId q) a b = Inr (logs_between chain ?reg (lq_opId q) a b)"
    using assms(1) by (simp add: answering_def)
  note sp' = scan_pages_progress [OF sp _ assms(5) ans st1(5), unfolded st1(4), OF assms(6)]
  have run: "read_scan node q pages s = (snapshot gap (Some head) st2, left, s3\<lparr>ls_scans := (ls_scans s3)(?key \<mapsto> st2)\<rparr>)"
    unfolding read_scan_def Let_def st_def [symmetric] h
    by (simp only: prod.case sum.case found_def [symmetric] st1(1) sp)
  have le: "min head (created - 1 + d + int pages * lq_pageBlocks q) \<le> sc_scannedTo st2"
  proof (cases "head \<le> created - 1 + d")
    case True
    have "0 \<le> int pages * lq_pageBlocks q" using assms(6) by simp
    then show ?thesis using sp' st1(6) True by auto
  qed (use sp' st1(6) in auto)
  have fin: "rr_complete (ra_record (snapshot gap (Some head) st2))" if "head \<le> created - 1 + d + int pages * lq_pageBlocks q"
  proof -
    have "head \<le> sc_scannedTo st1 + int pages * lq_pageBlocks q"
    proof (cases "head \<le> created - 1 + d")
      case True
      have "0 \<le> int pages * lq_pageBlocks q" using assms(6) by simp
      then show ?thesis using st1(6) True by linarith
    qed (use st1(6) that in auto)
    then show ?thesis using sp' le that st1(2,3) by (simp add: snapshot_def Let_def)
  qed
  have "scanned_by q created head (d + int pages * lq_pageBlocks q) (s3\<lparr>ls_scans := (ls_scans s3)(?key \<mapsto> st2)\<rparr>)"
    using sp' st1(2,3,4) le by (auto simp: scanned_by_def algebra_simps)
  then show ?thesis using run fin by blast
qed



section \<open>A page that throws\<close>

text \<open>
  A log without decoded arguments throws in the middle of its page: the logs in front of it are already
  added, and the watermark still stands in front of the page. When the page is read again, this time
  decoded, those logs are added a second time, and the record it belongs to can be marked complete.
\<close>

theorem half_read_page_is_counted_twice:
  assumes "tallied (sc_byMember st) ls" "list_all decoded good" "\<not> decoded bad" "sc_scannedTo st + 1 = head" "0 < sc_pageBlocks st"
    and "\<And>n a b. getLogs n a b = Inr (good @ [bad])" "\<And>n a b. getLogs' n a b = Inr good"
  shows "\<exists>st1 st2 s1 s2. scan_pages getLogs p head 1 st s = (Some (GapUndecoded (rl_blockNumber bad)), 0, st1, s1)
    \<and> sc_scannedTo st1 = sc_scannedTo st
    \<and> scan_pages getLogs' p head 1 st1 s1 = (None, 0, st2, s2) \<and> sc_scannedTo st2 = head
    \<and> tallied (sc_byMember st2) (ls @ good @ good)"
proof -
  have halt: "add_logs (good @ [bad]) bm = (Some (rl_blockNumber bad), snd (add_logs good bm))" for bm
    using assms(2,3) by (induction good arbitrary: bm) (auto simp: decoded_def split: option.splits)
  obtain bm where bm: "add_logs good (sc_byMember st) = (None, bm)" "tallied bm (ls @ good)"
    using add_logs_tallied [OF assms(1,2)] by blast
  obtain bm' where bm': "add_logs good bm = (None, bm')" "tallied bm' (ls @ good @ good)"
    using add_logs_tallied [OF bm(2) assms(2)] by auto
  have to: "min head (head + sc_pageBlocks st - 1) = head" using assms(5) by simp
  have st: "sc_scannedTo st < head" "sc_scannedTo st + 1 = head" using assms(4) by simp_all
  let ?st1 = "st\<lparr>sc_pageBlocks := sc_pageBlocks st, sc_pages := sc_pages st + 1, sc_byMember := bm\<rparr>"
  let ?st2 = "?st1\<lparr>sc_pages := sc_pages st + 2, sc_byMember := bm', sc_scannedTo := head\<rparr>"
  have f1: "fetch_page getLogs p head (sc_scannedTo st + 1) (sc_pageBlocks st) s = (Inr (good @ [bad], head), sc_pageBlocks st, requested s)"
    using assms(6) to by (simp add: fetch_page.simps rpc_retrying_ok st(2))
  have r1: "scan_pages getLogs p head 1 st s = (Some (GapUndecoded (rl_blockNumber bad)), 0, ?st1, requested s)"
    unfolding One_nat_def using f1 st(1) halt [of "sc_byMember st"] bm(1) by simp
  have f2: "fetch_page getLogs' p head (sc_scannedTo ?st1 + 1) (sc_pageBlocks ?st1) (requested s)
      = (Inr (good, head), sc_pageBlocks st, requested (requested s))"
    using assms(7) to by (simp add: fetch_page.simps rpc_retrying_ok st(2))
  have r2: "scan_pages getLogs' p head 1 ?st1 (requested s) = (None, 0, ?st2, requested (requested s))"
    unfolding One_nat_def using f2 st(1) bm'(1) by simp
  have "sc_scannedTo ?st1 = sc_scannedTo st" "sc_scannedTo ?st2 = head" "tallied (sc_byMember ?st2) (ls @ good @ good)"
    using bm'(2) by simp_all
  then show ?thesis using r1 r2 by blast
qed

end
