(* ===== verification/Agent_Reader.thy ===== *)
theory Agent_Reader
  imports Agent_Logs
begin

text \<open>
  The reader of \<open>packages/reference-agent/src/chain.mjs\<close>: every read of a vault, of the factory, of the
  operator registry and of governance, from the agent's point of view.

  A read is answered by its decoded value or fails; which one is the parameter \<open>env\<close>, one answer per
  address, function and arguments within a tick. A decoded value has the type its ABI fragment says.
  The text of an error and the warnings are left out.
\<close>

section \<open>One read\<close>

datatype sol_value = VUint int | VBool bool | VAddress string | VBytes string | VTuple "sol_value list"

type_synonym read_env = "string \<Rightarrow> string \<Rightarrow> sol_value list \<Rightarrow> sol_value option"

definition uint_of :: "sol_value option \<Rightarrow> int option" where
  "uint_of r = (case r of Some (VUint n) \<Rightarrow> Some n | _ \<Rightarrow> None)"

definition bool_of :: "sol_value option \<Rightarrow> bool option" where
  "bool_of r = (case r of Some (VBool b) \<Rightarrow> Some b | _ \<Rightarrow> None)"

definition address_of :: "sol_value option \<Rightarrow> string option" where
  "address_of r = (case r of Some (VAddress a) \<Rightarrow> Some (lc a) | _ \<Rightarrow> None)"

text \<open>An address that is null or empty.\<close>

definition absent :: "string option \<Rightarrow> bool" where
  "absent a \<longleftrightarrow> a = None \<or> a = Some []"

section \<open>A vault\<close>

record vault_read = chain_read +
  vl_totalShares :: "int option"
  vl_isCapped :: "bool option"
  vl_observationWindowSec :: "int option"
  vl_operatorRegistry :: "string option"
  vl_navConsecutiveFailures :: int
  vl_windowCleared :: "bool option"
  vl_skipOptIn :: "bool option"

definition pending_pair :: "sol_value option \<Rightarrow> (int \<times> int) option" where
  "pending_pair r = (case r of Some (VTuple [VUint amount, VUint availableAt]) \<Rightarrow> Some (amount, availableAt) | _ \<Rightarrow> None)"

definition read_self :: "read_env \<Rightarrow> string \<Rightarrow> string option \<Rightarrow> self_read" where
  "read_self env v who = (case who of
      None \<Rightarrow> \<lparr> self_shares = None, pendingAmount = None, pendingAvailableAt = None, queuedExitSharesRead = None, exitFeeBpsRead = None \<rparr>
    | Some m \<Rightarrow>
        (let pending = pending_pair (env v ''pendingDeposit'' [VAddress m])
         in \<lparr> self_shares = uint_of (env v ''sharesOf'' [VAddress m]),
              pendingAmount = map_option fst pending, pendingAvailableAt = map_option snd pending,
              queuedExitSharesRead = uint_of (env v ''queuedExitShares'' [VAddress m]),
              exitFeeBpsRead = uint_of (env v ''exitFeeBpsOf'' [VAddress m]) \<rparr>))"

text \<open>\<open>failures\<close> counts the NAV reads of a vault that failed in a row.\<close>

definition readVault :: "read_env \<Rightarrow> (string, int) jsmap \<Rightarrow> string \<Rightarrow> string option \<Rightarrow> vault_read \<times> (string, int) jsmap" where
  "readVault env failures vault who =
     (let v = lc vault; nav = env v ''navPerShareWad'' [];
          navFailures = (if nav \<noteq> None then 0 else jget_or 0 failures v + 1)
      in (\<lparr> ch_vault = v,
            ch_minDepositUsdc = uint_of (env v ''minDepositUsdc'' []),
            ch_capacityCapUsdc = uint_of (env v ''capacityCapUsdc'' []),
            ch_totalAssetsUsdc = uint_of (env v ''totalAssets'' []),
            ch_totalPendingUsdc = uint_of (env v ''totalPendingUsdc'' []),
            ch_idleUsdc = uint_of (env v ''idleUsdc'' []),
            ch_navReadable = Some (nav \<noteq> None),
            ch_navPerShareWad = uint_of nav,
            ch_self = read_self env v who,
            vl_totalShares = uint_of (env v ''totalShares'' []),
            vl_isCapped = bool_of (env v ''isCapped'' []),
            vl_observationWindowSec = uint_of (env v ''OBSERVATION_WINDOW'' []),
            vl_operatorRegistry = address_of (env v ''operatorRegistry'' []),
            vl_navConsecutiveFailures = navFailures,
            vl_windowCleared = (case who of None \<Rightarrow> None | Some m \<Rightarrow> bool_of (env v ''windowCleared'' [VAddress m])),
            vl_skipOptIn = (case who of None \<Rightarrow> None | Some m \<Rightarrow> bool_of (env v ''skipOptIn'' [VAddress m])) \<rparr>,
          AList.update v navFailures failures))"

definition readOperatorId :: "read_env \<Rightarrow> string option \<Rightarrow> string \<Rightarrow> int option" where
  "readOperatorId env registryAddress vault =
     (if absent registryAddress then None
      else uint_of (env (lc (the registryAddress)) ''operatorOf'' [VAddress (lc vault)]))"

record identity =
  id_holderCount :: "int option"
  id_creator :: "string option"
  id_operatorRegistry :: "string option"

definition readVaultIdentity :: "read_env \<Rightarrow> string \<Rightarrow> identity" where
  "readVaultIdentity env vault =
     (let v = lc vault
      in \<lparr> id_holderCount = uint_of (env v ''holderCount'' []), id_creator = address_of (env v ''creator'' []),
           id_operatorRegistry = address_of (env v ''operatorRegistry'' []) \<rparr>)"

section \<open>The factory\<close>

record listing =
  li_total :: "int option"
  li_addresses :: "string list"
  li_truncated :: bool
  li_failedIndexes :: "int list"

definition no_listing :: listing where
  "no_listing = \<lparr> li_total = None, li_addresses = [], li_truncated = False, li_failedIndexes = [] \<rparr>"

text \<open>The pages, newest index first; a page size that is not positive never gets here.\<close>

function index_pages :: "int \<Rightarrow> int \<Rightarrow> int \<Rightarrow> int list list" where
  "index_pages oldest width newest =
     (if newest < oldest \<or> width \<le> 0 then []
      else rev [max oldest (newest - width + 1)..newest] # index_pages oldest width (newest - width))"
  by pat_completeness auto
termination by (relation "measure (\<lambda>(oldest, width, newest). nat (newest - oldest + 1))") auto

declare index_pages.simps [simp del]

fun take_page :: "(int \<Rightarrow> sol_value option) \<Rightarrow> int list \<Rightarrow> string list \<times> int list" where
  "take_page entry [] = ([], [])"
| "take_page entry (i # is) =
     (let (addresses, failed) = take_page entry is in
      case address_of (entry i) of Some a \<Rightarrow> (a # addresses, failed) | None \<Rightarrow> (addresses, i # failed))"

fun take_pages :: "(int \<Rightarrow> sol_value option) \<Rightarrow> int list list \<Rightarrow> string list \<times> int list" where
  "take_pages entry [] = ([], [])"
| "take_pages entry (p # ps) =
     (let (a, f) = take_page entry p; (as, fs) = take_pages entry ps in (a @ as, f @ fs))"

text \<open>\<open>None\<close> is one of the two assertions.\<close>

definition listFactoryVaults :: "read_env \<Rightarrow> string option \<Rightarrow> int \<Rightarrow> int \<Rightarrow> listing option" where
  "listFactoryVaults env factory most width =
     (if absent factory then Some no_listing
      else if \<not> most > 0 \<or> \<not> width > 0 then None
      else case uint_of (env (lc (the factory)) ''vaultCount'' []) of
        None \<Rightarrow> Some no_listing
      | Some known \<Rightarrow>
          (let oldest = max 0 (known - most);
               (addresses, failed) = take_pages (\<lambda>i. env (lc (the factory)) ''allVaults'' [VUint i]) (index_pages oldest width (known - 1))
           in Some \<lparr> li_total = Some known, li_addresses = addresses, li_truncated = (known > most), li_failedIndexes = failed \<rparr>))"

section \<open>The operator registry\<close>

record operator_record = operator_row +
  oc_operatorId :: int
  oc_operator :: string
  oc_lifetimeFeesUsdc :: string
  oc_vaultCount :: int

definition zero_address :: string where
  "zero_address = ''0x'' @ replicate 40 (CHR ''0'')"

definition readOperatorRecord :: "read_env \<Rightarrow> string option \<Rightarrow> int \<Rightarrow> operator_record option" where
  "readOperatorRecord env registryAddress opId =
     (if absent registryAddress \<or> opId \<le> 0 then None
      else case env (lc (the registryAddress)) ''leaderboardEntry'' [VUint opId] of
        Some (VTuple [VAddress operator, VTuple [VUint gain, VUint loss, VUint fees, VUint n]]) \<Rightarrow>
          if operator = [] \<or> lc operator = zero_address then None
          else Some \<lparr> or_netRealizedUsdc = Some (show_int (gain - loss)), or_lifetimeGainUsdc = Some (show_int gain),
                      or_lifetimeLossUsdc = Some (show_int loss), oc_operatorId = opId, oc_operator = lc operator,
                      oc_lifetimeFeesUsdc = show_int fees, oc_vaultCount = n \<rparr>
      | _ \<Rightarrow> None)"

definition readStackedFees :: "read_env \<Rightarrow> string option \<Rightarrow> string \<Rightarrow> fee_read" where
  "readStackedFees env subvaultRegistry vault =
     (if absent subvaultRegistry then \<lparr> stackedPerfFeeBps = None, stackedExitFeeCapBps = None, fee_depth = None \<rparr>
      else let r = lc (the subvaultRegistry); v = lc vault
        in \<lparr> stackedPerfFeeBps = uint_of (env r ''stackedPerfFeeBps'' [VAddress v]),
             stackedExitFeeCapBps = uint_of (env r ''stackedExitFeeCapBps'' [VAddress v]),
             fee_depth = uint_of (env r ''depthOf'' [VAddress v]) \<rparr>)"

section \<open>Governance\<close>

record agent_proposal = gov_proposal +
  ap_vault :: "string option"
  ap_proposer :: "string option"
  ap_createdAt :: int
  ap_snapshotTotal :: int
  ap_memberCount :: int
  ap_forWeight :: int
  ap_againstWeight :: int
  ap_revealedWeight :: int
  ap_revealedVoterCount :: int

definition field_at :: "sol_value list \<Rightarrow> nat \<Rightarrow> sol_value option" where
  "field_at raw i = (if i < length raw then Some (raw ! i) else None)"

definition num_at :: "sol_value list \<Rightarrow> nat \<Rightarrow> int" where
  "num_at raw i = or_zero (uint_of (field_at raw i))"

definition bytes_at :: "sol_value list \<Rightarrow> nat \<Rightarrow> string" where
  "bytes_at raw i = (case field_at raw i of Some (VBytes h) \<Rightarrow> h | _ \<Rightarrow> [])"

definition PROPOSAL_STATUS :: "gov_status list" where
  "PROPOSAL_STATUS = [GNone, GActive, GPassed, GDefeated, GExecuted, GExpired]"

definition status_at :: "int \<Rightarrow> gov_status" where
  "status_at n = (if 0 \<le> n \<and> nat n < length PROPOSAL_STATUS then PROPOSAL_STATUS ! nat n else GUnknown)"

definition agent_decodeProposal :: "int \<Rightarrow> sol_value list \<Rightarrow> agent_proposal" where
  "agent_decodeProposal pid raw =
     \<lparr> gp_pid = pid, gp_ptype = num_at raw 1, gp_status = status_at (num_at raw 8),
       gp_commitDeadline = num_at raw 4, gp_revealDeadline = num_at raw 5,
       gp_executableAt = num_at raw 6, gp_expiresAt = num_at raw 7, gp_actionHash = bytes_at raw 9,
       ap_vault = address_of (field_at raw 0), ap_proposer = address_of (field_at raw 2), ap_createdAt = num_at raw 3,
       ap_snapshotTotal = num_at raw 10, ap_memberCount = num_at raw 11, ap_forWeight = num_at raw 12,
       ap_againstWeight = num_at raw 13, ap_revealedWeight = num_at raw 14, ap_revealedVoterCount = num_at raw 15 \<rparr>"

definition ZERO_BYTES32 :: string where
  "ZERO_BYTES32 = ''0x'' @ replicate 64 (CHR ''0'')"

record governance_read = gov_read +
  gv_record :: "agent_proposal option"
  gv_commitment :: "string option"
  gv_proposalUnknown :: bool

definition readGovernance :: "read_env \<Rightarrow> string option \<Rightarrow> string \<Rightarrow> string option \<Rightarrow> governance_read" where
  "readGovernance env governance vault voter =
     (if absent governance
      then \<lparr> gr_proposal = None, gr_activePid = None, gr_available = Some False, gr_hasOutstandingCommit = False, gr_commitUnknown = False,
             gr_revealed = None, gr_hasPendingExecution = None, gv_record = None, gv_commitment = None, gv_proposalUnknown = False \<rparr>
      else let g = the governance; v = lc vault;
          pid = or_zero (uint_of (env g ''activeProposalOf'' [VAddress v]));
          answer = (if pid > 0 then env g ''proposals'' [VUint pid] else None);
          proposal = (case answer of Some (VTuple raw) \<Rightarrow> Some (agent_decodeProposal pid raw) | _ \<Rightarrow> None);
          asked = (pid > 0 \<and> \<not> absent voter);
          c = (if asked then env g ''commitOf'' [VUint pid, VAddress (the voter)] else None);
          commitment = (case c of Some (VBytes h) \<Rightarrow> Some h | _ \<Rightarrow> None);
          revealed = (if asked then bool_of (env g ''revealedOf'' [VUint pid, VAddress (the voter)]) else None)
        in \<lparr> gr_proposal = map_option gov_proposal.truncate proposal, gr_activePid = Some pid, gr_available = Some True,
             gr_hasOutstandingCommit = (commitment \<noteq> None \<and> commitment \<noteq> Some ZERO_BYTES32 \<and> revealed \<noteq> Some True),
             gr_commitUnknown = (asked \<and> c = None), gr_revealed = revealed,
             gr_hasPendingExecution = bool_of (env g ''hasPendingExecution'' [VAddress v]),
             gv_record = proposal, gv_commitment = commitment, gv_proposalUnknown = (pid > 0 \<and> answer = None) \<rparr>)"

text \<open>At a timestamp that is not zero the stake is the one the contract counts then.\<close>

definition readVotingWeight :: "read_env \<Rightarrow> string \<Rightarrow> string option \<Rightarrow> int option \<Rightarrow> int option" where
  "readVotingWeight env vault who ts =
     (if absent who then None
      else case ts of
        Some t \<Rightarrow> if t \<noteq> 0 then uint_of (env (lc vault) ''pastVotingEligibleShares'' [VAddress (the who), VUint t])
                  else uint_of (env (lc vault) ''votingEligibleShares'' [VAddress (the who)])
      | None \<Rightarrow> uint_of (env (lc vault) ''votingEligibleShares'' [VAddress (the who)]))"

text \<open>The block's timestamp: \<open>None\<close> when it fails or is not a positive safe integer.\<close>

definition readBlockTimestamp :: "int option \<Rightarrow> int option" where
  "readBlockTimestamp stamp = (case stamp of None \<Rightarrow> None | Some ts \<Rightarrow> if 0 < ts \<and> ts < 2 ^ 53 then Some ts else None)"


section \<open>The listing\<close>

lemma index_pages_concat:
  assumes "0 < width"
  shows "concat (index_pages oldest width newest) = rev [oldest..newest]"
  using assms
proof (induction oldest width newest rule: index_pages.induct)
  case (1 oldest width newest)
  show ?case
  proof (cases "newest < oldest \<or> width \<le> 0")
    case True
    then show ?thesis using 1(2) by (auto simp: index_pages.simps)
  next
    case False
    let ?b = "max oldest (newest - width + 1)"
    have "[oldest..newest] = [oldest..?b - 1] @ [?b..newest]" using False upto_split1 [of oldest ?b newest] by auto
    moreover have "[oldest..?b - 1] = [oldest..newest - width]" by (cases "oldest \<le> newest - width") (simp_all add: max_def)
    ultimately have "rev [?b..newest] @ rev [oldest..newest - width] = rev [oldest..newest]" by simp
    then show ?thesis using False 1 by (simp add: index_pages.simps [of oldest width newest])
  qed
qed

lemma take_page_spec:
  "take_page entry is = (List.map_filter (\<lambda>i. address_of (entry i)) is, filter (\<lambda>i. address_of (entry i) = None) is)"
  by (induction "is") (auto simp: map_filter_simps split: option.splits)

lemma take_pages_spec:
  "take_pages entry ps = (List.map_filter (\<lambda>i. address_of (entry i)) (concat ps), filter (\<lambda>i. address_of (entry i) = None) (concat ps))"
  by (induction ps) (auto simp: take_page_spec map_filter_def)

lemma map_filter_length:
  "length (List.map_filter f xs) + length (filter (\<lambda>x. f x = None) xs) = length xs"
  by (induction xs) (auto simp: map_filter_simps split: option.splits)

text \<open>
  The newest vaults, each once. Whatever the page size, the factory's array is read from its newest entry
  downwards over the newest \<open>maxVaults\<close> indexes, each exactly once: the addresses are the answers in
  that order, an index without an answer is reported as failed, and together they are the whole window.
\<close>

theorem newest_vaults_are_listed_once:
  assumes "listFactoryVaults env (Some f) most width = Some l" "li_total l = Some n" "0 \<le> n"
  defines "window \<equiv> rev [max 0 (n - most)..n - 1]"
    and "entry \<equiv> (\<lambda>i. address_of (env (lc f) ''allVaults'' [VUint i]))"
  shows "li_addresses l = List.map_filter entry window \<and> li_failedIndexes l = filter (\<lambda>i. entry i = None) window
    \<and> int (length (li_addresses l) + length (li_failedIndexes l)) = min most n \<and> (li_truncated l \<longleftrightarrow> most < n)"
proof -
  have p: "0 < most" "0 < width" "uint_of (env (lc f) ''vaultCount'' []) = Some n"
    using assms(1,2) by (auto simp: listFactoryVaults_def absent_def no_listing_def Let_def split: if_splits option.splits prod.splits)
  have l: "li_addresses l = List.map_filter entry window" "li_failedIndexes l = filter (\<lambda>i. entry i = None) window" "li_truncated l \<longleftrightarrow> most < n"
    using assms(1,2) p
    by (auto simp: listFactoryVaults_def absent_def no_listing_def Let_def take_pages_spec index_pages_concat window_def entry_def
        split: if_splits)
  have "int (length window) = min most n" using p(1) assms(3) by (simp add: window_def max_def min_def)
  then show ?thesis using l map_filter_length [of entry window] by simp
qed

section \<open>A vote that is owed\<close>

text \<open>
  What governance must answer for a commit to be known: the active proposal, the proposal itself and the
  commitment. Whether it was revealed may be unreadable.
\<close>

definition owes_reveal :: "read_env \<Rightarrow> string \<Rightarrow> string \<Rightarrow> string \<Rightarrow> int \<Rightarrow> sol_value list \<Rightarrow> bool" where
  "owes_reveal env g v who pid raw \<longleftrightarrow> 0 < pid \<and> env g ''activeProposalOf'' [VAddress v] = Some (VUint pid)
     \<and> env g ''proposals'' [VUint pid] = Some (VTuple raw)
     \<and> (\<exists>h. env g ''commitOf'' [VUint pid, VAddress who] = Some (VBytes h) \<and> h \<noteq> ZERO_BYTES32)
     \<and> env g ''revealedOf'' [VUint pid, VAddress who] \<noteq> Some (VBool True)"

lemma owed_reveal_is_read:
  assumes "owes_reveal env g (lc v) who pid raw" "g \<noteq> []" "who \<noteq> []"
  defines "r \<equiv> readGovernance env (Some g) v (Some who)"
  shows "gr_hasOutstandingCommit r" "gr_proposal r = Some (gov_proposal.truncate (agent_decodeProposal pid raw))"
    "gv_record r = Some (agent_decodeProposal pid raw)"
proof -
  obtain h where h: "env g ''commitOf'' [VUint pid, VAddress who] = Some (VBytes h)" "h \<noteq> ZERO_BYTES32"
    using assms(1) by (auto simp: owes_reveal_def)
  have "bool_of (env g ''revealedOf'' [VUint pid, VAddress who]) \<noteq> Some True"
    using assms(1) by (auto simp: owes_reveal_def bool_of_def split: option.splits sol_value.splits)
  then show "gr_hasOutstandingCommit r" "gr_proposal r = Some (gov_proposal.truncate (agent_decodeProposal pid raw))"
    "gv_record r = Some (agent_decodeProposal pid raw)"
    using assms(1-3) h by (simp_all add: r_def readGovernance_def absent_def uint_of_def owes_reveal_def Let_def)
qed

lemma newest_vaults_are_listed_once_witness:
  "length (li_addresses (the (listFactoryVaults (\<lambda>a f xs. if f = ''vaultCount'' then Some (VUint 3) else Some (VAddress ''0xV'')) (Some ''0xF'') 2 1))) = 2"
proof -
  let ?env = "\<lambda>a f xs. if f = ''vaultCount'' then Some (VUint 3) else Some (VAddress ''0xV'')"
  have l: "listFactoryVaults ?env (Some ''0xF'') 2 1 = Some \<lparr>li_total = Some 3, li_addresses = [''0xv'', ''0xv''], li_truncated = True, li_failedIndexes = []\<rparr>"
    by code_simp
  have "length (li_addresses (the (listFactoryVaults ?env (Some ''0xF'') 2 1)))
      + length (li_failedIndexes (the (listFactoryVaults ?env (Some ''0xF'') 2 1))) = nat (min 2 3)"
    unfolding l option.sel by (subst newest_vaults_are_listed_once [OF l, of 3, THEN conjunct2, THEN conjunct2, THEN conjunct1, symmetric]) simp_all
  then show ?thesis unfolding l by simp
qed


text \<open>
  An unread active proposal is taken for none. When only the read of the active proposal fails, the state says
  neither that a proposal nor that a commitment is unknown, and the vote decision is the plain "nothing to
  do" of a vault without a proposal, whatever the agent has committed to.
\<close>

theorem unread_active_proposal_is_nothing_to_do:
  assumes "env g ''activeProposalOf'' [VAddress (lc v)] = None" "g \<noteq> []"
  shows "let r = readGovernance env (Some g) v who in gr_activePid r = Some 0 \<and> \<not> gv_proposalUnknown r \<and> \<not> gr_commitUnknown r \<and> \<not> gr_hasOutstandingCommit r
    \<and> decideVote (gov_read.truncate r) chain weight nowSec cfg evaluator timing = Inr (VoteNone False)"
  using assms by (simp add: readGovernance_def absent_def uint_of_def Let_def gov_read.defs decideVote_def)

end
