(* ===== verification/Agent_Perceive.thy ===== *)
theory Agent_Perceive
  imports Agent_Reader Agent_Act Agent_Budget
begin

text \<open>
  Perception, \<open>packages/reference-agent/src/perceive.mjs\<close>: where the vault set comes from, the paid reads
  under the budget, the two discoveries, and the pass over the vaults that builds the world the planner
  decides on. Log lines are left out; a gap is a constructor for the sentence of the code.

  The chain reader is the model of \<open>Agent_Reader\<close> and \<open>Agent_Logs\<close>; within one tick a read has one
  answer. The API client is a parameter: a call may sign payments, so it takes the budget and returns it.
\<close>

record chain_config =
  cc_preset :: "string option"
  cc_baseUrl :: "string option"
  cc_factory :: "string option"
  cc_operatorRegistry :: "string option"
  cc_subvaultRegistry :: "string option"
  cc_governance :: "string option"

record perceive_config =
  pc_chain :: chain_config
  pc_maxSingleReadUsdc :: string
  pc_discovery :: discovery_config
  pc_join :: join_config
  pc_crank :: crank_config

datatype perceive_gap =
    GapDiscoveryConfig
  | GapVaultList
  | GapVaultIndexes "int list"
  | GapVaultWindow int int
  | GapOtherRegistry string
  | GapOperatorId string
  | GapPinned string
  | GapOperatorRecord int
  | GapDiscovery
  | GapHealth
  | GapApiVaults
  | GapApiLeaderboard
  | GapVaultDetail string
  | GapDepth string
  | GapOutside string
  | GapBlockTime
  | GapPayload string

datatype perceive_error = PerceiveConfig config_error | PerceiveAssertion

section \<open>Where the vaults come from\<close>

datatype discovery_source = FromApi | FromChain

definition discoverySource :: "chain_config \<Rightarrow> discovery_source" where
  "discoverySource c = (if \<not> absent (cc_preset c) \<and> absent (cc_baseUrl c) then FromChain else FromApi)"

definition wantsOutsideRecord :: "join_config \<Rightarrow> bool" where
  "wantsOutsideRecord c \<longleftrightarrow> profile c = Some UNPROVEN_OPERATOR_PROFILE \<or> length (disclosedAddresses c) > 0"

datatype paid_failure = Skipped refusal | PaidFailed string

definition paidRead :: "(budget \<Rightarrow> (string + 'a) \<times> budget) \<Rightarrow> int \<Rightarrow> budget \<Rightarrow> (paid_failure + 'a) \<times> budget" where
  "paidRead request price b = (case canAfford b price of
      Some r \<Rightarrow> (Inl (Skipped r), b)
    | None \<Rightarrow> (case request b of (Inl e, b') \<Rightarrow> (Inl (PaidFailed e), b') | (Inr d, b') \<Rightarrow> (Inr d, b')))"

record vault_row = vault_summary +
  vw_vault :: string
  vw_memberCount :: "int option"
  vw_parent :: "string option"
  vw_capacityCapUsdc :: "string option"
  vw_attested :: bool
  vw_creator :: "string option"

text \<open>One candidate: its row, unless it is a pinned vault that the registry has not attested.\<close>

definition discover_vault :: "read_env \<Rightarrow> string \<Rightarrow> string list \<Rightarrow> string \<Rightarrow> vault_row option \<times> perceive_gap list" where
  "discover_vault env registry listed v =
     (let identity = readVaultIdentity env v;
          answered = readOperatorId env (Some registry) v;
          sameRegistry = (id_operatorRegistry identity = Some (lc registry));
          operatorId = (if sameRegistry then or_zero answered else 0);
          gaps = (if \<not> sameRegistry then [GapOtherRegistry v] else []) @ (if sameRegistry \<and> answered = None then [GapOperatorId v] else [])
      in if v \<notin> set listed \<and> operatorId = 0 then (None, gaps @ [GapPinned v])
         else (Some \<lparr> vs_operatorId = Some operatorId, vs_depth = None, vw_vault = v, vw_memberCount = id_holderCount identity,
                      vw_parent = None, vw_capacityCapUsdc = None, vw_attested = (operatorId \<noteq> 0), vw_creator = id_creator identity \<rparr>, gaps))"

fun discover_vaults :: "read_env \<Rightarrow> string \<Rightarrow> string list \<Rightarrow> string list \<Rightarrow> vault_row list \<times> perceive_gap list" where
  "discover_vaults env registry listed [] = ([], [])"
| "discover_vaults env registry listed (v # vs) =
     (let (r, g) = discover_vault env registry listed v; (rs, gs) = discover_vaults env registry listed vs
      in ((case r of None \<Rightarrow> rs | Some row \<Rightarrow> row # rs), g @ gs))"

type_synonym leaderboard_rows = "(int \<times> operator_row) list"

text \<open>\<open>None\<close>: an assertion of the listing failed.\<close>

definition discoverFromChain ::
  "read_env \<Rightarrow> chain_config \<Rightarrow> discovery_config \<Rightarrow> (vault_row list \<times> leaderboard_rows \<times> perceive_gap list) option" where
  "discoverFromChain env c d =
     (if absent (cc_factory c) \<or> absent (cc_operatorRegistry c) then Some ([], [], [GapDiscoveryConfig])
      else case listFactoryVaults env (cc_factory c) (maxVaults d) (pageSize d) of
        None \<Rightarrow> None
      | Some listing \<Rightarrow>
          (case li_total listing of
             None \<Rightarrow> Some ([], [], [GapVaultList])
           | Some n \<Rightarrow>
               (let registry = the (cc_operatorRegistry c);
                    listGaps = (if li_failedIndexes listing \<noteq> [] then [GapVaultIndexes (li_failedIndexes listing)] else [])
                      @ (if li_truncated listing then [GapVaultWindow (maxVaults d) n] else []);
                    addresses = set_of_list (map lc (include_vaults d) @ li_addresses listing);
                    (rows, vaultGaps) = discover_vaults env registry (li_addresses listing) addresses;
                    opIds = set_of_list (filter (\<lambda>i. i > 0) (map (\<lambda>r. or_zero (vs_operatorId r)) rows));
                    leaderboard = List.map_filter (\<lambda>i. map_option (\<lambda>r. (oc_operatorId r, operator_row.truncate r))
                                                      (readOperatorRecord env (Some registry) i)) opIds;
                    recordGaps = map GapOperatorRecord (filter (\<lambda>i. i \<notin> fst ` set leaderboard) opIds)
                in Some (rows, leaderboard, listGaps @ vaultGaps @ recordGaps))))"

record api_client =
  al_discovery :: "string + int option"
  al_health :: "string + unit"
  al_listVaults :: "budget \<Rightarrow> (string + vault_row list) \<times> budget"
  al_leaderboard :: "budget \<Rightarrow> (string + leaderboard_rows) \<times> budget"
  al_getVault :: "string \<Rightarrow> budget \<Rightarrow> (string + unit) \<times> budget"

definition discoverFromApi ::
  "api_client \<Rightarrow> string \<Rightarrow> budget \<Rightarrow> config_error + (int \<times> vault_row list \<times> leaderboard_rows \<times> perceive_gap list) \<times> budget" where
  "discoverFromApi api maxSingleReadUsdc b =
     (let gaps = (case al_discovery api of Inl _ \<Rightarrow> [GapDiscovery] | Inr _ \<Rightarrow> []) @ (case al_health api of Inl _ \<Rightarrow> [GapHealth] | Inr _ \<Rightarrow> [])
      in bindE (case al_discovery api of Inr (Some amount) \<Rightarrow> Inr amount | _ \<Rightarrow> toBaseUnits maxSingleReadUsdc) (\<lambda>price.
           let (vaultsRes, b1) = paidRead (al_listVaults api) price b;
               (lbRes, b2) = paidRead (al_leaderboard api) price b1
           in Inr ((price, (case vaultsRes of Inl _ \<Rightarrow> [] | Inr rows \<Rightarrow> rows), (case lbRes of Inl _ \<Rightarrow> [] | Inr rows \<Rightarrow> rows),
                    gaps @ (case vaultsRes of Inl _ \<Rightarrow> [GapApiVaults] | Inr _ \<Rightarrow> []) @ (case lbRes of Inl _ \<Rightarrow> [GapApiLeaderboard] | Inr _ \<Rightarrow> [])), b2)))"

section \<open>One vault\<close>

record perceive_state =
  px_budget :: budget
  px_failures :: "(string, int) jsmap"
  px_logs :: log_session
  px_pages :: nat
  px_observed :: "observation list"
  px_gaps :: "perceive_gap list"

record perceive_env =
  pe_env :: read_env
  pe_node :: rpc_node
  pe_api :: api_client
  pe_blockTimestamp :: "int option"
  pe_keccak :: hash

definition held_shares :: "chain_read \<Rightarrow> bool" where
  "held_shares c = (case self_shares (ch_self c) of None \<Rightarrow> False | Some n \<Rightarrow> n > 0)"

definition pending_escrow :: "chain_read \<Rightarrow> bool" where
  "pending_escrow c = (case pendingAmount (ch_self c) of None \<Rightarrow> False | Some n \<Rightarrow> n > 0)"

text \<open>The outside record, only for a vault the agent could still join; the requests left and the log session after it.\<close>

definition no_record :: realization_record where
  "no_record = \<lparr>rr_complete = False, rr_members = []\<rparr>"

definition observe_outside ::
  "perceive_env \<Rightarrow> perceive_config \<Rightarrow> discovery_source \<Rightarrow> (int, operator_row) jsmap \<Rightarrow> vault_read \<Rightarrow> int \<Rightarrow> perceive_state
   \<Rightarrow> (track_record option \<times> perceive_state) option" where
  "observe_outside pe cfg source operatorById chain opId st =
     (if \<not> (wantsOutsideRecord (pc_join cfg) \<and> \<not> held_shares (chain_read.truncate chain) \<and> \<not> pending_escrow (chain_read.truncate chain) \<and> opId > 0)
      then Some (None, st)
      else
        let registry = (if source = FromChain then cc_operatorRegistry (pc_chain cfg)
              else if vl_operatorRegistry chain \<noteq> None then vl_operatorRegistry chain else cc_operatorRegistry (pc_chain cfg));
            d = pc_discovery cfg;
            read = (if absent registry then Some (no_record, px_pages st, px_logs st)
              else map_option (\<lambda>(a, left, logs). (ra_record a, left, logs))
                (readRealizations (pe_node pe)
                  \<lparr> lq_registry = the registry, lq_vault = ch_vault chain, lq_opId = opId, lq_pageBlocks = pageBlocks d,
                    lq_maxBlocks = maxBlocks d, lq_pacingMs = pacingMs d \<rparr> (px_pages st) (px_logs st)))
        in case read of
          None \<Rightarrow> None
        | Some (raw, left, logs) \<Rightarrow>
            (let record = outsideTrackRecord (Some raw) (disclosedAddresses (pc_join cfg)) (map_of operatorById opId)
             in Some (record, st\<lparr>px_pages := left, px_logs := logs,
                  px_gaps := px_gaps st @ (if rr_complete raw then [] else [GapOutside (ch_vault chain)])\<rparr>)))"

definition observe_vault ::
  "perceive_env \<Rightarrow> perceive_config \<Rightarrow> discovery_source \<Rightarrow> string option \<Rightarrow> int \<Rightarrow> (int, operator_row) jsmap \<Rightarrow> perceive_state \<Rightarrow> vault_row
   \<Rightarrow> (perceive_error, perceive_state) outcome" where
  "observe_vault pe cfg source who price operatorById st v =
     (let address = lc (vw_vault v); c = pc_chain cfg; env = pe_env pe;
          (detailGaps, b) = (if source = FromChain then ([], px_budget st)
            else case paidRead (al_getVault (pe_api pe) address) price (px_budget st) of
              (Inl _, b) \<Rightarrow> ([GapVaultDetail address], b) | (Inr _, b) \<Rightarrow> ([], b));
          (chain, failures) = readVault env (px_failures st) address who;
          registryOperatorId = readOperatorId env (if source = FromChain then cc_operatorRegistry c else vl_operatorRegistry chain) address;
          fees = readStackedFees env (cc_subvaultRegistry c) address;
          depthGaps = (if fee_depth fees = None \<and> vs_depth v = None then [GapDepth address] else []);
          governance = readGovernance env (cc_governance c) address who;
          votingWeight = (case gv_record governance of None \<Rightarrow> None | Some p \<Rightarrow> readVotingWeight env address who (Some (ap_createdAt p)));
          opId = (case registryOperatorId of Some i \<Rightarrow> i | None \<Rightarrow> or_zero (vs_operatorId v));
          st1 = st\<lparr>px_budget := b, px_failures := failures, px_gaps := px_gaps st @ detailGaps @ depthGaps\<rparr>
      in case observe_outside pe cfg source operatorById chain opId st1 of
        None \<Rightarrow> Threw PerceiveAssertion st1
      | Some (outsideRecord, st2) \<Rightarrow>
          Done (st2\<lparr>px_observed := px_observed st2 @
            [\<lparr> ob_chain = chain_read.truncate chain, ob_summary = vault_summary.truncate v, ob_governance = gov_read.truncate governance,
               ob_votingWeight = votingWeight, ob_operatorRow = map_of operatorById opId, ob_registryOperatorId = registryOperatorId,
               ob_fees = fees, ob_outsideRecord = outsideRecord \<rparr>]\<rparr>))"

section \<open>A pass\<close>

text \<open>\<open>new Map(rows)\<close>: the last row of an operator counts.\<close>

definition operators_by_id :: "leaderboard_rows \<Rightarrow> (int, operator_row) jsmap" where
  "operators_by_id rows = foldl (\<lambda>m (i, r). AList.update i r m) [] rows"

definition discover ::
  "perceive_env \<Rightarrow> perceive_config \<Rightarrow> budget
   \<Rightarrow> perceive_error + (int \<times> vault_row list \<times> leaderboard_rows \<times> perceive_gap list) \<times> budget" where
  "discover pe cfg b = (case discoverySource (pc_chain cfg) of
      FromChain \<Rightarrow> (case discoverFromChain (pe_env pe) (pc_chain cfg) (pc_discovery cfg) of
          None \<Rightarrow> Inl PerceiveAssertion | Some (rows, lb, gaps) \<Rightarrow> Inr ((0, rows, lb, gaps), b))
    | FromApi \<Rightarrow> (case discoverFromApi (pe_api pe) (pc_maxSingleReadUsdc cfg) b of
          Inl e \<Rightarrow> Inl (PerceiveConfig e) | Inr r \<Rightarrow> Inr r))"

definition perceive ::
  "perceive_env \<Rightarrow> perceive_config \<Rightarrow> string option \<Rightarrow> int \<Rightarrow> (string, int) jsmap \<Rightarrow> log_session \<Rightarrow> budget
   \<Rightarrow> perceive_error + world \<times> perceive_state" where
  "perceive pe cfg who nowSec failures logs b =
     bindE (discover pe cfg b) (\<lambda>((price, rows, leaderboard, gaps), b1).
       (case run_seq (observe_vault pe cfg (discoverySource (pc_chain cfg)) who price (operators_by_id leaderboard))
               \<lparr> px_budget = b1, px_failures = failures, px_logs = logs, px_pages = nat (maxPagesPerTick (pc_discovery cfg)),
                 px_observed = [], px_gaps = gaps \<rparr> rows of
          Threw e st \<Rightarrow> Inl e
        | Done st \<Rightarrow>
            (let cranking = (scope (pc_crank cfg) \<noteq> ''off'');
                 chainNow = (if cranking then readBlockTimestamp (pe_blockTimestamp pe) else None);
                 (verified, rejected) = (if cranking then verifyKnownPayloads (pe_keccak pe) (knownPayloads (pc_crank cfg)) [] [] else ([], []))
             in Inr (\<lparr> w_nowSec = nowSec, w_chainNowSec = chainNow,
                       w_heldVaultCount = int (length (filter (\<lambda>ob. held_shares (ob_chain ob)) (px_observed st))),
                       w_crankPayloads = verified, w_vaults = px_observed st \<rparr>,
                     st\<lparr>px_gaps := px_gaps st @ (if cranking \<and> chainNow = None then [GapBlockTime] else [])
                           @ map (\<lambda>(h, _). GapPayload h) rejected\<rparr>))))"


section \<open>What is observed\<close>

text \<open>The observation of a row, field by field, from the reads of the tick.\<close>

definition op_id_of :: "perceive_env \<Rightarrow> perceive_config \<Rightarrow> discovery_source \<Rightarrow> string option \<Rightarrow> vault_row \<Rightarrow> int option" where
  "op_id_of pe cfg source who v =
     readOperatorId (pe_env pe) (if source = FromChain then cc_operatorRegistry (pc_chain cfg)
       else vl_operatorRegistry (fst (readVault (pe_env pe) [] (lc (vw_vault v)) who))) (lc (vw_vault v))"

definition observed_as ::
  "perceive_env \<Rightarrow> perceive_config \<Rightarrow> discovery_source \<Rightarrow> string option \<Rightarrow> (int, operator_row) jsmap \<Rightarrow> vault_row \<Rightarrow> observation \<Rightarrow> bool" where
  "observed_as pe cfg source who ops v ob \<longleftrightarrow>
     ob_chain ob = chain_read.truncate (fst (readVault (pe_env pe) [] (lc (vw_vault v)) who))
     \<and> ob_summary ob = vault_summary.truncate v
     \<and> ob_governance ob = gov_read.truncate (readGovernance (pe_env pe) (cc_governance (pc_chain cfg)) (lc (vw_vault v)) who)
     \<and> ob_registryOperatorId ob = op_id_of pe cfg source who v
     \<and> ob_operatorRow ob = map_of ops (case op_id_of pe cfg source who v of Some i \<Rightarrow> i | None \<Rightarrow> or_zero (vs_operatorId v))
     \<and> ob_fees ob = readStackedFees (pe_env pe) (cc_subvaultRegistry (pc_chain cfg)) (lc (vw_vault v))"

lemma readVault_failures:
  "chain_read.truncate (fst (readVault env fl v who)) = chain_read.truncate (fst (readVault env [] v who))"
  "vl_operatorRegistry (fst (readVault env fl v who)) = vl_operatorRegistry (fst (readVault env [] v who))"
  by (simp_all add: readVault_def Let_def chain_read.defs)

definition kept :: "discovery_source \<Rightarrow> perceive_env \<Rightarrow> perceive_state \<Rightarrow> perceive_state \<Rightarrow> bool" where
  "kept source pe st st' \<longleftrightarrow> (source = FromChain \<longrightarrow> px_budget st' = px_budget st) \<and> px_pages st' \<le> px_pages st
     \<and> (log_reachable (pe_node pe) (px_logs st) \<longrightarrow> log_reachable (pe_node pe) (px_logs st'))
     \<and> set (px_gaps st) \<subseteq> set (px_gaps st')"

lemma read_scan_left: "read_scan node q pages s = (a, left, s') \<Longrightarrow> left \<le> pages"
proof -
  have "scan_pages getLogs p head k st s = (gap, left, st', s') \<Longrightarrow> left \<le> k" for getLogs p head k st s gap left st' s'
  proof (induction k arbitrary: st s)
    case (Suc k)
    then show ?case by (auto split: if_splits prod.splits sum.splits option.splits) fastforce+
  qed (auto split: if_splits)
  then show "read_scan node q pages s = (a, left, s') \<Longrightarrow> left \<le> pages"
    unfolding read_scan_def Let_def by (auto split: prod.splits sum.splits if_splits)
qed

lemma observe_outside_step:
  assumes "0 < pageBlocks (pc_discovery cfg)"
  obtains t st' where "observe_outside pe cfg source ops chain opId st = Some (t, st')"
    "px_observed st' = px_observed st" "px_budget st' = px_budget st" "kept source pe st st'"
proof (cases "wantsOutsideRecord (pc_join cfg) \<and> \<not> held_shares (chain_read.truncate chain) \<and> \<not> pending_escrow (chain_read.truncate chain) \<and> opId > 0")
  case False
  then have "observe_outside pe cfg source ops chain opId st = Some (None, st)" unfolding observe_outside_def by (simp only: if_True simp_thms)
  then show thesis using that by (simp add: kept_def)
next
  case True
  define registry where "registry = (if source = FromChain then cc_operatorRegistry (pc_chain cfg)
    else if vl_operatorRegistry chain \<noteq> None then vl_operatorRegistry chain else cc_operatorRegistry (pc_chain cfg))"
  define q where "q = \<lparr> lq_registry = the registry, lq_vault = ch_vault chain, lq_opId = opId, lq_pageBlocks = pageBlocks (pc_discovery cfg),
    lq_maxBlocks = maxBlocks (pc_discovery cfg), lq_pacingMs = pacingMs (pc_discovery cfg) \<rparr>"
  define read where "read = (if absent registry then Some (no_record, px_pages st, px_logs st)
    else map_option (\<lambda>(a, left, logs). (ra_record a, left, logs)) (readRealizations (pe_node pe) q (px_pages st) (px_logs st)))"
  have rr: "readRealizations (pe_node pe) q (px_pages st) (px_logs st) = Some (read_scan (pe_node pe) q (px_pages st) (px_logs st))"
    using assms True by (simp add: readRealizations_def q_def)
  obtain raw left logs where r: "read = Some (raw, left, logs)" "left \<le> px_pages st"
    "log_reachable (pe_node pe) (px_logs st) \<longrightarrow> log_reachable (pe_node pe) logs"
  proof (cases "absent registry")
    case True
    then show thesis using that by (simp add: read_def)
  next
    case False
    obtain a left logs where s: "read_scan (pe_node pe) q (px_pages st) (px_logs st) = (a, left, logs)" by (metis prod_cases3)
    have e: "readRealizations (pe_node pe) q (px_pages st) (px_logs st) = Some (a, left, logs)" by (simp only: rr s)
    have "log_reachable (pe_node pe) (px_logs st) \<Longrightarrow> log_reachable (pe_node pe) logs"
      by (rule log_reachable.read [OF _ e])
    then show thesis using that [of "ra_record a" left logs] False read_scan_left [OF s] by (simp add: read_def rr s)
  qed
  have "observe_outside pe cfg source ops chain opId st = Some (outsideTrackRecord (Some raw) (disclosedAddresses (pc_join cfg)) (map_of ops opId),
      st\<lparr>px_pages := left, px_logs := logs, px_gaps := px_gaps st @ (if rr_complete raw then [] else [GapOutside (ch_vault chain)])\<rparr>)"
    unfolding observe_outside_def Let_def using True
    by (simp only: if_False simp_thms registry_def [symmetric] q_def [symmetric] read_def [symmetric] r option.case prod.case)
  then show thesis using that r by (simp add: kept_def)
qed


lemma kept_refl [simp]: "kept source pe st st"
  by (simp add: kept_def)

lemma kept_trans: "kept source pe s t \<Longrightarrow> kept source pe t u \<Longrightarrow> kept source pe s u"
  by (auto simp: kept_def)

text \<open>Where the outside record of an observation comes from: the session its scan ran in.\<close>

definition outside_from ::
  "perceive_env \<Rightarrow> perceive_config \<Rightarrow> discovery_source \<Rightarrow> string option \<Rightarrow> (int, operator_row) jsmap \<Rightarrow> vault_row \<Rightarrow> log_session \<Rightarrow> observation \<Rightarrow> bool" where
  "outside_from pe cfg source who ops v logs ob \<longleftrightarrow> (\<exists>vread st1 st2. px_logs st1 = logs \<and> chain_read.truncate vread = ob_chain ob
     \<and> observe_outside pe cfg source ops vread (case op_id_of pe cfg source who v of Some i \<Rightarrow> i | None \<Rightarrow> or_zero (vs_operatorId v)) st1
         = Some (ob_outsideRecord ob, st2))"

lemma observe_vault_step:
  assumes "0 < pageBlocks (pc_discovery cfg)"
  shows "\<exists>st' ob. observe_vault pe cfg source who price ops st v = Done st' \<and> px_observed st' = px_observed st @ [ob]
    \<and> observed_as pe cfg source who ops v ob \<and> outside_from pe cfg source who ops v (px_logs st) ob \<and> kept source pe st st'"
proof -
  let ?a = "lc (vw_vault v)" and ?env = "pe_env pe"
  obtain dg b where d: "(if source = FromChain then ([], px_budget st)
            else case paidRead (al_getVault (pe_api pe) ?a) price (px_budget st) of
              (Inl _, b) \<Rightarrow> ([GapVaultDetail ?a], b) | (Inr _, b) \<Rightarrow> ([], b)) = (dg, b)"
    by fastforce
  then have b: "source = FromChain \<longrightarrow> b = px_budget st" by auto
  obtain chain fl where c: "readVault ?env (px_failures st) ?a who = (chain, fl)" by fastforce
  define fees where "fees = readStackedFees ?env (cc_subvaultRegistry (pc_chain cfg)) ?a"
  define rid where "rid = readOperatorId ?env (if source = FromChain then cc_operatorRegistry (pc_chain cfg) else vl_operatorRegistry chain) ?a"
  define opId where "opId = (case rid of Some i \<Rightarrow> i | None \<Rightarrow> or_zero (vs_operatorId v))"
  define st1 where "st1 = st\<lparr>px_budget := b, px_failures := fl,
     px_gaps := px_gaps st @ dg @ (if fee_depth fees = None \<and> vs_depth v = None then [GapDepth ?a] else [])\<rparr>"
  obtain t st2 where t: "observe_outside pe cfg source ops chain opId st1 = Some (t, st2)"
    "px_observed st2 = px_observed st1" "kept source pe st1 st2"
    using observe_outside_step [OF assms] by metis
  define governance where "governance = readGovernance ?env (cc_governance (pc_chain cfg)) ?a who"
  define ob where "ob = \<lparr> ob_chain = chain_read.truncate chain, ob_summary = vault_summary.truncate v, ob_governance = gov_read.truncate governance,
     ob_votingWeight = (case gv_record governance of None \<Rightarrow> None | Some p \<Rightarrow> readVotingWeight ?env ?a who (Some (ap_createdAt p))),
     ob_operatorRow = map_of ops opId, ob_registryOperatorId = rid, ob_fees = fees, ob_outsideRecord = t \<rparr>"
  have run: "observe_vault pe cfg source who price ops st v = Done (st2\<lparr>px_observed := px_observed st2 @ [ob]\<rparr>)"
    unfolding observe_vault_def Let_def d c prod.case fees_def [symmetric] governance_def [symmetric]
    unfolding rid_def [symmetric] opId_def [symmetric] st1_def [symmetric] t(1) option.case prod.case ob_def ..
  have "chain_read.truncate chain = chain_read.truncate (fst (readVault ?env [] ?a who))"
    "vl_operatorRegistry chain = vl_operatorRegistry (fst (readVault ?env [] ?a who))"
    using readVault_failures [of ?env "px_failures st" ?a who] by (simp_all add: c)
  then have "observed_as pe cfg source who ops v ob" and id: "rid = op_id_of pe cfg source who v"
    by (simp_all add: observed_as_def ob_def op_id_of_def rid_def opId_def fees_def governance_def)
  moreover have "outside_from pe cfg source who ops v (px_logs st) ob"
    unfolding outside_from_def
    by (rule exI [of _ chain], rule exI [of _ st1], rule exI [of _ st2]) (use t(1) in \<open>simp add: ob_def st1_def opId_def id\<close>)
  moreover have "kept source pe st (st2\<lparr>px_observed := px_observed st2 @ [ob]\<rparr>)"
    using t(3) b by (auto simp: kept_def st1_def)
  ultimately show ?thesis using run t(2) by (auto simp: st1_def)
qed

lemma observe_all:
  assumes "0 < pageBlocks (pc_discovery cfg)"
  shows "\<exists>st' obs. run_seq (observe_vault pe cfg source who price ops) st rows = Done st' \<and> px_observed st' = px_observed st @ obs
    \<and> list_all2 (observed_as pe cfg source who ops) rows obs \<and> kept source pe st st'
    \<and> (log_reachable (pe_node pe) (px_logs st) \<longrightarrow>
         list_all2 (\<lambda>v ob. \<exists>logs. log_reachable (pe_node pe) logs \<and> outside_from pe cfg source who ops v logs ob) rows obs)"
proof (induction rows arbitrary: st)
  case Nil
  then show ?case by simp
next
  case (Cons v rows)
  obtain st1 ob where 1: "observe_vault pe cfg source who price ops st v = Done st1" "px_observed st1 = px_observed st @ [ob]"
    "observed_as pe cfg source who ops v ob" "kept source pe st st1" "outside_from pe cfg source who ops v (px_logs st) ob"
    using observe_vault_step [OF assms] by blast
  obtain st2 obs where 2: "run_seq (observe_vault pe cfg source who price ops) st1 rows = Done st2" "px_observed st2 = px_observed st1 @ obs"
    "list_all2 (observed_as pe cfg source who ops) rows obs" "kept source pe st1 st2"
    "log_reachable (pe_node pe) (px_logs st1) \<longrightarrow>
       list_all2 (\<lambda>v ob. \<exists>logs. log_reachable (pe_node pe) logs \<and> outside_from pe cfg source who ops v logs ob) rows obs"
    using Cons.IH by blast
  have "log_reachable (pe_node pe) (px_logs st) \<longrightarrow> log_reachable (pe_node pe) (px_logs st1)" using 1(4) by (simp add: kept_def)
  then show ?case by (intro exI [of _ st2] exI [of _ "ob # obs"]) (use 1 2 kept_trans in auto)
qed

lemma perceive_Inr:
  assumes "perceive pe cfg who nowSec fl logs b = Inr (w, st)" "0 < pageBlocks (pc_discovery cfg)"
  shows "\<exists>price rows lb gaps b1. discover pe cfg b = Inr ((price, rows, lb, gaps), b1)
    \<and> list_all2 (observed_as pe cfg (discoverySource (pc_chain cfg)) who (operators_by_id lb)) rows (w_vaults w)
    \<and> w_nowSec w = nowSec \<and> set gaps \<subseteq> set (px_gaps st)
    \<and> (discoverySource (pc_chain cfg) = FromChain \<longrightarrow> px_budget st = b1)
    \<and> (log_reachable (pe_node pe) logs \<longrightarrow> log_reachable (pe_node pe) (px_logs st)
        \<and> list_all2 (\<lambda>v ob. \<exists>logs. log_reachable (pe_node pe) logs
            \<and> outside_from pe cfg (discoverySource (pc_chain cfg)) who (operators_by_id lb) v logs ob) rows (w_vaults w))"
proof -
  obtain price rows lb gaps b1 where d: "discover pe cfg b = Inr ((price, rows, lb, gaps), b1)"
    using assms(1) by (auto simp: perceive_def bindE_Inr split: prod.splits)
  let ?s0 = "\<lparr> px_budget = b1, px_failures = fl, px_logs = logs, px_pages = nat (maxPagesPerTick (pc_discovery cfg)), px_observed = [], px_gaps = gaps \<rparr>"
  obtain st' obs where o: "run_seq (observe_vault pe cfg (discoverySource (pc_chain cfg)) who price (operators_by_id lb)) ?s0 rows = Done st'"
    "px_observed st' = obs" "list_all2 (observed_as pe cfg (discoverySource (pc_chain cfg)) who (operators_by_id lb)) rows obs"
    "kept (discoverySource (pc_chain cfg)) pe ?s0 st'"
    "log_reachable (pe_node pe) logs \<longrightarrow> list_all2 (\<lambda>v ob. \<exists>logs. log_reachable (pe_node pe) logs
            \<and> outside_from pe cfg (discoverySource (pc_chain cfg)) who (operators_by_id lb) v logs ob) rows obs"
    using observe_all [OF assms(2), of pe "discoverySource (pc_chain cfg)" who price "operators_by_id lb" ?s0 rows] by auto
  have "w_vaults w = obs" "w_nowSec w = nowSec" "set (px_gaps st') \<subseteq> set (px_gaps st)" "px_budget st = px_budget st'" "px_logs st = px_logs st'"
    using assms(1) by (auto simp: perceive_def d o bindE_def Let_def split: prod.splits if_splits)
  then show ?thesis using d o(3,4,5) by (auto simp: kept_def)
qed


section \<open>Chain discovery\<close>

lemma jsset_distinct [simp]: "distinct (set_of_list xs)"
proof -
  have "distinct s \<Longrightarrow> distinct (foldl (\<lambda>s x. jadd x s) s xs)" for s :: "'a list"
    by (induction xs arbitrary: s) (auto simp: jadd_def)
  then show ?thesis by (simp add: set_of_list_def)
qed

text \<open>What the registry the configuration names says of a vault that is wired to it.\<close>

definition attested_by :: "read_env \<Rightarrow> string \<Rightarrow> string \<Rightarrow> int \<Rightarrow> bool" where
  "attested_by env registry v n \<longleftrightarrow> n \<noteq> 0 \<and> env (lc registry) ''operatorOf'' [VAddress v] = Some (VUint n)
     \<and> address_of (env v ''operatorRegistry'' []) = Some (lc registry)"

lemma uint_of_Some: "uint_of r = Some n \<longleftrightarrow> r = Some (VUint n)"
  by (auto simp: uint_of_def split: option.splits sol_value.splits)

lemma discover_vault_row:
  assumes "discover_vault env registry listed v = (r, g)" "lc v = v" "registry \<noteq> []"
  shows "case r of
      None \<Rightarrow> v \<notin> set listed \<and> GapPinned v \<in> set g
    | Some row \<Rightarrow> vw_vault row = v \<and> (\<exists>n. vs_operatorId row = Some n \<and> (n \<noteq> 0 \<longrightarrow> attested_by env registry v n))
        \<and> (v \<notin> set listed \<longrightarrow> vs_operatorId row \<noteq> Some 0) \<and> vs_depth row = None"
proof -
  define answered where "answered = readOperatorId env (Some registry) v"
  define same where "same \<longleftrightarrow> id_operatorRegistry (readVaultIdentity env v) = Some (lc registry)"
  define n where "n = (if same then or_zero answered else 0)"
  have a: "answered = uint_of (env (lc registry) ''operatorOf'' [VAddress v])"
    using assms(2,3) by (simp add: answered_def readOperatorId_def absent_def)
  have s: "same \<longleftrightarrow> address_of (env v ''operatorRegistry'' []) = Some (lc registry)"
    using assms(2) by (simp add: same_def readVaultIdentity_def Let_def)
  have att: "n \<noteq> 0 \<longrightarrow> attested_by env registry v n"
    using a s by (auto simp: n_def attested_by_def uint_of_Some split: option.splits)
  show ?thesis
    using assms(1) att unfolding discover_vault_def Let_def answered_def [symmetric] same_def [symmetric] n_def [symmetric]
    by (auto split: if_splits)
qed

lemma discover_vaults_rows:
  assumes "discover_vaults env registry listed vs = (rows, gaps)" "\<And>v. v \<in> set vs \<Longrightarrow> lc v = v" "registry \<noteq> []" "distinct vs"
  shows "distinct (map vw_vault rows) \<and> set (map vw_vault rows) \<subseteq> set vs
    \<and> (\<forall>v \<in> set vs. v \<in> set (map vw_vault rows) \<or> v \<notin> set listed \<and> GapPinned v \<in> set gaps)
    \<and> (\<forall>row \<in> set rows. vs_depth row = None \<and> (\<exists>n. vs_operatorId row = Some n \<and> (n \<noteq> 0 \<longrightarrow> attested_by env registry (vw_vault row) n)
         \<and> (vw_vault row \<notin> set listed \<longrightarrow> n \<noteq> 0)))"
  using assms(1,2,4)
proof (induction vs arbitrary: rows gaps)
  case (Cons v vs)
  obtain r g rs gs where d: "discover_vault env registry listed v = (r, g)" "discover_vaults env registry listed vs = (rs, gs)"
    by fastforce
  then have e: "rows = (case r of None \<Rightarrow> rs | Some row \<Rightarrow> row # rs)" "gaps = g @ gs" using Cons.prems(1) by simp_all
  have ih: "distinct (map vw_vault rs) \<and> set (map vw_vault rs) \<subseteq> set vs
    \<and> (\<forall>v \<in> set vs. v \<in> set (map vw_vault rs) \<or> v \<notin> set listed \<and> GapPinned v \<in> set gs)
    \<and> (\<forall>row \<in> set rs. vs_depth row = None \<and> (\<exists>n. vs_operatorId row = Some n \<and> (n \<noteq> 0 \<longrightarrow> attested_by env registry (vw_vault row) n)
         \<and> (vw_vault row \<notin> set listed \<longrightarrow> n \<noteq> 0)))"
    by (rule Cons.IH [OF d(2)]) (use Cons.prems in auto)
  have row: "case r of
      None \<Rightarrow> v \<notin> set listed \<and> GapPinned v \<in> set g
    | Some row \<Rightarrow> vw_vault row = v \<and> (\<exists>n. vs_operatorId row = Some n \<and> (n \<noteq> 0 \<longrightarrow> attested_by env registry v n))
        \<and> (v \<notin> set listed \<longrightarrow> vs_operatorId row \<noteq> Some 0) \<and> vs_depth row = None"
    by (rule discover_vault_row [OF d(1) _ assms(3)]) (use Cons.prems in simp)
  show ?case
  proof (cases r)
    case None
    then show ?thesis using ih row by (auto simp: e)
  next
    case (Some x)
    have notin: "v \<notin> set (map vw_vault rs)" using ih Cons.prems(3) by auto
    show ?thesis using ih row notin by (auto simp: e Some)
  qed
qed simp

lemma listed_lower: "listFactoryVaults env f most width = Some l \<Longrightarrow> a \<in> set (li_addresses l) \<Longrightarrow> lc a = a"
proof -
  have "lc b = b" if "b \<in> set (List.map_filter (\<lambda>i. address_of (entry i)) is)" for b entry and "is" :: "int list"
    using that by (auto simp: map_filter_def address_of_def split: option.splits sol_value.splits)
  then show "listFactoryVaults env f most width = Some l \<Longrightarrow> a \<in> set (li_addresses l) \<Longrightarrow> lc a = a"
    by (auto simp: listFactoryVaults_def no_listing_def take_pages_spec Let_def split: if_splits option.splits)
qed

lemma chain_rows:
  assumes "discoverFromChain env c d = Some (rows, lb, gaps)" "cc_factory c = Some f" "cc_operatorRegistry c = Some registry"
    and "f \<noteq> []" "registry \<noteq> []" "listFactoryVaults env (Some f) (maxVaults d) (pageSize d) = Some l" "li_total l \<noteq> None"
  shows "distinct (map vw_vault rows) \<and> set (li_addresses l) \<subseteq> set (map vw_vault rows)"
    and "\<forall>a \<in> set (include_vaults d). lc a \<in> set (map vw_vault rows) \<or> GapPinned (lc a) \<in> set gaps"
    and "\<And>row. row \<in> set rows \<Longrightarrow> vs_depth row = None \<and> (\<exists>n. vs_operatorId row = Some n \<and> (n \<noteq> 0 \<longrightarrow> attested_by env registry (vw_vault row) n)
         \<and> (vw_vault row \<notin> set (li_addresses l) \<longrightarrow> n \<noteq> 0))"
    and "\<And>row. row \<in> set rows \<Longrightarrow> lc (vw_vault row) = vw_vault row"
proof -
  let ?as = "set_of_list (map lc (include_vaults d) @ li_addresses l)"
  obtain vrows vgaps where v: "discover_vaults env registry (li_addresses l) ?as = (vrows, vgaps)" by fastforce
  have r: "rows = vrows" "set vgaps \<subseteq> set gaps"
    using assms(1-5,7) v by (auto simp: discoverFromChain_def absent_def assms(6) Let_def)
  have low: "lc a = a" if "a \<in> set ?as" for a
    using that listed_lower [OF assms(6)] by auto
  note rws = discover_vaults_rows [OF v low assms(5) jsset_distinct]
  show "distinct (map vw_vault rows) \<and> set (li_addresses l) \<subseteq> set (map vw_vault rows)"
    and "\<forall>a \<in> set (include_vaults d). lc a \<in> set (map vw_vault rows) \<or> GapPinned (lc a) \<in> set gaps"
    and "\<And>row. row \<in> set rows \<Longrightarrow> vs_depth row = None \<and> (\<exists>n. vs_operatorId row = Some n \<and> (n \<noteq> 0 \<longrightarrow> attested_by env registry (vw_vault row) n)
         \<and> (vw_vault row \<notin> set (li_addresses l) \<longrightarrow> n \<noteq> 0))"
    using rws r by auto
  show "\<And>row. row \<in> set rows \<Longrightarrow> lc (vw_vault row) = vw_vault row"
    using rws r(1) low by (metis (no_types, lifting) image_eqI list.set_map subset_iff)
qed

lemma chain_rows_listed:
  assumes "discoverFromChain env c d = Some (rows, lb, gaps)" "rows \<noteq> []" "cc_operatorRegistry c = Some registry"
  obtains f l where "cc_factory c = Some f" "f \<noteq> []" "registry \<noteq> []"
    "listFactoryVaults env (Some f) (maxVaults d) (pageSize d) = Some l" "li_total l \<noteq> None"
  using assms by (auto simp: discoverFromChain_def absent_def split: if_splits option.splits)

text \<open>
  A vault is taken for what the configured registry says of it. Of a chain-only discovery: every vault
  the factory listed has exactly one row; an operator id other than zero is the one the registry named in
  the configuration answered, for a vault that reports that same registry; and a vault pinned by hand
  that is not listed has a row only if the registry attested it, and is reported as skipped otherwise.
\<close>

theorem chain_rows_are_attested:
  assumes "discoverFromChain env c d = Some (rows, lb, gaps)" "cc_factory c = Some f" "cc_operatorRegistry c = Some registry"
    and "f \<noteq> []" "registry \<noteq> []" "listFactoryVaults env (Some f) (maxVaults d) (pageSize d) = Some l" "li_total l \<noteq> None"
  shows "distinct (map vw_vault rows) \<and> set (li_addresses l) \<subseteq> set (map vw_vault rows)
    \<and> (\<forall>a \<in> set (include_vaults d). lc a \<in> set (map vw_vault rows) \<or> GapPinned (lc a) \<in> set gaps)
    \<and> (\<forall>row \<in> set rows. vs_depth row = None \<and> (\<exists>n. vs_operatorId row = Some n \<and> (n \<noteq> 0 \<longrightarrow> attested_by env registry (vw_vault row) n)
         \<and> (vw_vault row \<notin> set (li_addresses l) \<longrightarrow> n \<noteq> 0)))"
  using chain_rows [OF assms] by blast


section \<open>From the chain to the plan\<close>

lemma observed_row:
  assumes "list_all2 (observed_as pe cfg source who ops) rows obs" "ob \<in> set obs"
  obtains v where "v \<in> set rows" "observed_as pe cfg source who ops v ob"
  using assms by (metis in_set_conv_nth list_all2_conv_all_nth)

lemma row_observed:
  assumes "list_all2 (observed_as pe cfg source who ops) rows obs" "v \<in> set rows"
  obtains ob where "ob \<in> set obs" "observed_as pe cfg source who ops v ob"
  using assms by (metis in_set_conv_nth list_all2_conv_all_nth)

lemma observed_vault: "observed_as pe cfg source who ops v ob \<Longrightarrow> ob_vault ob = lc (vw_vault v)"
  by (simp add: observed_as_def ob_vault_def readVault_def Let_def chain_read.defs)

lemma chain_row_attested:
  assumes "discoverFromChain env c d = Some (rows, lb, gaps)" "v \<in> set rows" "cc_operatorRegistry c = Some registry"
  obtains n where "vs_operatorId v = Some n" "n \<noteq> 0 \<longrightarrow> attested_by env registry (lc (vw_vault v)) n"
proof -
  have row: "rows \<noteq> []" using assms(2) by auto
  obtain f l where fl: "cc_factory c = Some f" "f \<noteq> []" "registry \<noteq> []"
    "listFactoryVaults env (Some f) (maxVaults d) (pageSize d) = Some l" "li_total l \<noteq> None"
    by (rule chain_rows_listed [OF assms(1) row assms(3)])
  note rws = chain_rows [OF assms(1) fl(1) assms(3) fl(2-5)]
  show thesis using rws(3) [OF assms(2)] that unfolding rws(4) [OF assms(2)] by blast
qed

lemma decideJoin_outside:
  assumes "decideJoin cfg v ch row reg fees held (Some t) = Inr d" "jd_join d" "toBaseUnits (minOperatorNetRealizedUsdc cfg) = Inr minNet"
  shows "tr_complete t \<and> minNet \<le> tr_net t"
proof -
  obtain deposit ceiling net free where "jd_join d = all_ok (join_checks cfg v ch row reg fees held (Some t) deposit ceiling net free)"
    "toBaseUnits (minOperatorNetRealizedUsdc cfg) = Inr net"
    by (rule decideJoin_Inr [OF assms(1)])
  then show ?thesis using assms(2,3) by (auto simp: join_checks_def outside_checks_def Let_def split: if_splits)
qed

text \<open>
  C3. An owed vote is revealed whatever else fails. If governance answers the active proposal, the proposal
  and a commitment of the agent, and does not answer that it was revealed, then a tick inside the reveal
  window plans the reveal, due now and before everything else, although every other read of the tick may
  have failed and nothing about the vote was stored.
\<close>

theorem owed_reveal_survives_failed_reads:
  assumes "perceive pe cfg (Some m) nowSec fl logs b = Inr (w, st)" "0 < pageBlocks (pc_discovery cfg)"
    and "discover pe cfg b = Inr ((price, rows, lb, gaps), b1)" "v \<in> set rows"
    and "cc_governance (pc_chain cfg) = Some g" "g \<noteq> []" "m \<noteq> []"
    and "owes_reveal (pe_env pe) g (lc (vw_vault v)) m pid raw"
    and "num_at raw 4 \<le> nowSec" "nowSec < num_at raw 5" "plan acfg marks w = Inr is"
  shows "\<exists>i u. i \<in> set (fst (partitionDue is nowSec)) \<and> i_args i = AReveal pid u \<and> i_vault i = lc (vw_vault v)
    \<and> (\<forall>j \<in> set is. INTENT_ORDER (i_args i) \<le> INTENT_ORDER (i_args j))"
proof -
  have o: "list_all2 (observed_as pe cfg (discoverySource (pc_chain cfg)) (Some m) (operators_by_id lb)) rows (w_vaults w)" "w_nowSec w = nowSec"
    using perceive_Inr [OF assms(1,2)] assms(3) by auto
  obtain ob where ob: "ob \<in> set (w_vaults w)" "observed_as pe cfg (discoverySource (pc_chain cfg)) (Some m) (operators_by_id lb) v ob"
    by (rule row_observed [OF o(1) assms(4)])
  let ?r = "readGovernance (pe_env pe) (Some g) (lc (vw_vault v)) (Some m)"
  have owes: "owes_reveal (pe_env pe) g (lc (lc (vw_vault v))) m pid raw" using assms(8) by simp
  note read = owed_reveal_is_read [OF owes assms(6,7)]
  have gov: "ob_governance ob = gov_read.truncate ?r" using ob(2) by (simp add: observed_as_def assms(5))
  let ?p = "gov_proposal.truncate (agent_decodeProposal pid raw)"
  have p: "gp_pid ?p = pid" "gp_commitDeadline ?p = num_at raw 4" "gp_revealDeadline ?p = num_at raw 5"
    by (simp_all add: agent_decodeProposal_def gov_proposal.defs)
  have "gr_proposal (ob_governance ob) = Some ?p" "gr_hasOutstandingCommit (ob_governance ob)"
    using read(1,2) by (simp_all add: gov gov_read.defs)
  from owed_reveal_planned [OF assms(11) ob(1) this] show ?thesis
    using assms(9,10) p o(2) observed_vault [OF ob(2)] by simp
qed

text \<open>
  C4. Money goes only where the chain said so. In chain-only discovery with attestation required, a deposit is
  planned only into a vault that the configured registry attests to a nonzero operator and that reports that
  registry, whose NAV was readable, whose stacked performance fee was read and is within the limit, whose
  minimum and capacity were read; and the whole perception spent nothing of the payment budget.
\<close>

theorem deposit_only_on_answers:
  assumes "perceive pe cfg who nowSec fl logs b = Inr (w, st)" "0 < pageBlocks (pc_discovery cfg)"
    and "discoverySource (pc_chain cfg) = FromChain" "cc_operatorRegistry (pc_chain cfg) = Some registry"
    and "plan acfg marks w = Inr is" "i \<in> set is" "i_args i = ADeposit amt" "requireAttestedOperator (ac_join acfg)"
  defines "env \<equiv> pe_env pe" and "a \<equiv> i_vault i"
  shows "(\<exists>n. attested_by env registry a n) \<and> env a ''navPerShareWad'' [] \<noteq> None
    \<and> (\<exists>sub perf. cc_subvaultRegistry (pc_chain cfg) = Some sub \<and> env (lc sub) ''stackedPerfFeeBps'' [VAddress a] = Some (VUint perf)
         \<and> perf \<le> maxPerfFeeBps (ac_join acfg))
    \<and> (\<exists>least. env a ''minDepositUsdc'' [] = Some (VUint least) \<and> least \<le> amt)
    \<and> (\<exists>cap. env a ''capacityCapUsdc'' [] = Some (VUint cap)) \<and> px_budget st = b"
proof -
  obtain price rows lb gaps b1 where d: "discover pe cfg b = Inr ((price, rows, lb, gaps), b1)"
    "list_all2 (observed_as pe cfg FromChain who (operators_by_id lb)) rows (w_vaults w)" "px_budget st = b1"
    using perceive_Inr [OF assms(1,2)] assms(3) by auto
  then have dc: "discoverFromChain env (pc_chain cfg) (pc_discovery cfg) = Some (rows, lb, gaps)" "b1 = b"
    by (auto simp: discover_def assms(3) env_def split: option.splits prod.splits)
  obtain ob held dd where j: "ob \<in> set (w_vaults w)" "a = ob_vault ob"
    "decideJoin (ac_join acfg) (ob_summary ob) (ob_chain ob) (ob_operatorRow ob) (ob_registryOperatorId ob) (ob_fees ob) held
        (ob_outsideRecord ob) = Inr dd" "jd_join dd" "amt = jd_depositUsdc dd"
    using planned_deposit_joined [OF assms(5-7)] unfolding a_def by blast
  obtain v where v: "v \<in> set rows" "observed_as pe cfg FromChain who (operators_by_id lb) v ob"
    by (rule observed_row [OF d(2) j(1)])
  have lims: "within_limits (ac_join acfg) (ob_summary ob) (ob_chain ob) (ob_registryOperatorId ob) (ob_fees ob) held amt"
    using decideJoin_respects_limits [OF j(3,4)] by (simp add: j(5))
  have a: "a = lc (vw_vault v)" using observed_vault [OF v(2)] j(2) by simp
  obtain n where n: "vs_operatorId v = Some n" "n \<noteq> 0 \<longrightarrow> attested_by env registry a n"
    using chain_row_attested [OF dc(1) v(1) assms(4)] unfolding a by blast
  have "n \<noteq> 0" using lims assms(8) v(2) n(1) by (auto simp: within_limits_def observed_as_def vault_summary.defs)
  then have att: "\<exists>n. attested_by env registry a n" using n(2) by blast
  have chain: "ob_chain ob = chain_read.truncate (fst (readVault env [] a who))" "ob_fees ob = readStackedFees env (cc_subvaultRegistry (pc_chain cfg)) a"
    using v(2) by (simp_all add: observed_as_def env_def a)
  have la: "lc a = a" by (simp add: a)
  have fields: "ch_navReadable (ob_chain ob) = Some (env a ''navPerShareWad'' [] \<noteq> None)"
    "ch_minDepositUsdc (ob_chain ob) = uint_of (env a ''minDepositUsdc'' [])" "ch_capacityCapUsdc (ob_chain ob) = uint_of (env a ''capacityCapUsdc'' [])"
    by (simp_all add: chain readVault_def Let_def chain_read.defs la)
  obtain perf where perf: "stackedPerfFeeBps (ob_fees ob) = Some perf" "perf \<le> maxPerfFeeBps (ac_join acfg)"
    using lims by (auto simp: within_limits_def)
  have "\<exists>sub. cc_subvaultRegistry (pc_chain cfg) = Some sub \<and> env (lc sub) ''stackedPerfFeeBps'' [VAddress a] = Some (VUint perf)"
    using perf(1) by (auto simp: chain readStackedFees_def absent_def la uint_of_Some Let_def split: if_splits)
  then show ?thesis using att perf(2) lims fields d(3) dc(2) by (auto simp: within_limits_def uint_of_Some)
qed


section \<open>A pass never fails\<close>



section \<open>From the logs to the plan\<close>

text \<open>What the members that are not disclosed realised, over a list of logs.\<close>

definition outsider_net :: "string list \<Rightarrow> realization_log list \<Rightarrow> int" where
  "outsider_net disclosed ls = sum_list (map (\<lambda>l. the (rl_gainUsdc l) - the (rl_lossUsdc l))
     (filter (\<lambda>l. lc (the (rl_member l)) \<notin> set (map lc disclosed)) ls))"

lemma sum_by_key:
  assumes "distinct ns" "\<And>l. l \<in> set ls \<Longrightarrow> key l \<in> set ns"
  shows "sum_list (map (\<lambda>n. sum_list (map g (filter (\<lambda>l. key l = n) ls))) (filter P ns)) = (sum_list (map g (filter (\<lambda>l. P (key l)) ls)) :: int)"
  using assms(2)
proof (induction ls)
  case Nil
  then show ?case by simp
next
  case (Cons l ls)
  have d: "distinct (filter P ns)" using assms(1) by simp
  have "sum_list (map (\<lambda>n. sum_list (map g (filter (\<lambda>l. key l = n) (l # ls)))) (filter P ns))
      = sum_list (map (\<lambda>n. (if n = key l then g l else 0) + sum_list (map g (filter (\<lambda>l. key l = n) ls))) (filter P ns))"
    by (rule arg_cong [where f = sum_list]) auto
  also have "\<dots> = sum_list (map (\<lambda>n. if n = key l then g l else 0) (filter P ns)) + sum_list (map g (filter (\<lambda>l. P (key l)) ls))"
    using Cons by (simp add: sum_list_addf)
  also have "sum_list (map (\<lambda>n. if n = key l then g l else 0) (filter P ns)) = (if P (key l) then g l else 0)"
    using Cons.prems [of l] by (simp add: sum_list_distinct_conv_sum_set [OF d] sum.delta)
  finally show ?case by simp
qed

lemma mine_key:
  assumes "list_all decoded ls"
  shows "mine who ls = filter (\<lambda>l. lc (the (rl_member l)) = who) ls"
  unfolding mine_def by (rule filter_cong) (use assms in \<open>auto simp: list_all_iff decoded_def\<close>)

lemma complete_outside_net:
  assumes "outsideTrackRecord (Some r) disclosed row = Some t" "list_all decoded ls" "distinct (map mr_member (rr_members r))"
    and "\<forall>who. mine who ls \<noteq> [] \<longleftrightarrow> who \<in> mr_member ` set (rr_members r)"
    and "\<forall>m \<in> set (rr_members r). mr_gain m = mt_gain (tally (mr_member m) ls) \<and> mr_loss m = mt_loss (tally (mr_member m) ls)"
  shows "tr_net t = outsider_net disclosed ls"
proof -
  let ?P = "\<lambda>n. n \<notin> set (map lc disclosed)" and ?key = "\<lambda>l. lc (the (rl_member l))"
  let ?in = "filter (\<lambda>m. lc (mr_member m) \<notin> set (map lc disclosed)) (rr_members r)"
  have net: "tr_net t = sum_list (map mr_gain ?in) - sum_list (map mr_loss ?in)"
    using assms(1) by (auto simp: outsideTrackRecord_def Let_def side_of_sums simp del: set_map)
  have low: "lc (mr_member m) = mr_member m" if "m \<in> set (rr_members r)" for m
  proof -
    have "mine (mr_member m) ls \<noteq> []" using assms(4) that by blast
    then obtain l where "l \<in> set (mine (mr_member m) ls)" by (meson list.set_sel(1))
    then obtain z where "lc z = mr_member m" by (auto simp: mine_def)
    then show ?thesis using lc_idem by metis
  qed
  have keys: "?key l \<in> set (map mr_member (rr_members r))" if "l \<in> set ls" for l
  proof -
    have "l \<in> set (mine (?key l) ls)" using that by (simp add: mine_key [OF assms(2)])
    then have "mine (?key l) ls \<noteq> []" by auto
    then show ?thesis using assms(4) by simp
  qed
  have part: "map mr_member ?in = filter ?P (map mr_member (rr_members r))"
    unfolding filter_map comp_def by (rule arg_cong [where f = "map mr_member"], rule filter_cong) (use low in auto)
  have side: "sum_list (map f ?in) = sum_list (map g (filter (\<lambda>l. ?P (?key l)) ls))"
    if "\<And>m. m \<in> set (rr_members r) \<Longrightarrow> f m = sum_list (map g (mine (mr_member m) ls))"
    for f :: "member_realization \<Rightarrow> int" and g :: "realization_log \<Rightarrow> int"
  proof -
    have "sum_list (map f ?in) = sum_list (map (\<lambda>n. sum_list (map g (filter (\<lambda>l. ?key l = n) ls))) (map mr_member ?in))"
      unfolding map_map comp_def by (rule arg_cong [where f = sum_list], rule map_cong) (use that mine_key [OF assms(2)] in auto)
    also have "\<dots> = sum_list (map g (filter (\<lambda>l. ?P (?key l)) ls))"
      unfolding part by (rule sum_by_key [where key = ?key and P = ?P, OF assms(3) keys])
    finally show ?thesis .
  qed
  have "sum_list (map mr_gain ?in) = sum_list (map (the \<circ> rl_gainUsdc) (filter (\<lambda>l. ?P (?key l)) ls))"
    "sum_list (map mr_loss ?in) = sum_list (map (the \<circ> rl_lossUsdc) (filter (\<lambda>l. ?P (?key l)) ls))"
    by (rule side; use assms(5) in \<open>simp add: tally_def\<close>)+
  then show ?thesis unfolding net outsider_net_def by (simp only: sum_list_subtractf comp_def)
qed

text \<open>A complete outside record that an observation carries, traced back to the logs.\<close>

definition backed :: "perceive_env \<Rightarrow> perceive_config \<Rightarrow> discovery_source \<Rightarrow> log_chain \<Rightarrow> (string \<Rightarrow> string \<Rightarrow> int) \<Rightarrow> vault_read \<Rightarrow> int \<Rightarrow> track_record option \<Rightarrow> bool" where
  "backed pe cfg source chain born vread opId record \<longleftrightarrow> (\<forall>t. record = Some t \<and> tr_complete t \<longrightarrow>
     (\<exists>reg last. (source = FromChain \<longrightarrow> cc_operatorRegistry (pc_chain cfg) = Some reg) \<and>
        tr_net t = outsider_net (disclosedAddresses (pc_join cfg)) (logs_between chain (lc reg) opId (born (lc reg) (lc (ch_vault vread))) last)))"

lemma observe_outside_backed:
  assumes "0 < pageBlocks (pc_discovery cfg)" "log_reachable (pe_node pe) (px_logs st)"
    and "honest_logs (pe_node pe) chain" "honest_control (pe_node pe) born" "all_decoded chain"
    and "observe_outside pe cfg source ops vread opId st = Some (record, st')"
  shows "backed pe cfg source chain born vread opId record"
    and "wantsOutsideRecord (pc_join cfg) \<and> \<not> held_shares (chain_read.truncate vread) \<and> \<not> pending_escrow (chain_read.truncate vread) \<and> 0 < opId
      \<Longrightarrow> record \<noteq> None"
proof -
  let ?go = "wantsOutsideRecord (pc_join cfg) \<and> \<not> held_shares (chain_read.truncate vread) \<and> \<not> pending_escrow (chain_read.truncate vread) \<and> opId > 0"
  define registry where "registry = (if source = FromChain then cc_operatorRegistry (pc_chain cfg)
    else if vl_operatorRegistry vread \<noteq> None then vl_operatorRegistry vread else cc_operatorRegistry (pc_chain cfg))"
  define q where "q = \<lparr> lq_registry = the registry, lq_vault = ch_vault vread, lq_opId = opId, lq_pageBlocks = pageBlocks (pc_discovery cfg),
    lq_maxBlocks = maxBlocks (pc_discovery cfg), lq_pacingMs = pacingMs (pc_discovery cfg) \<rparr>"
  define ans where "ans = (if absent registry then Some (no_record, px_pages st, px_logs st)
    else map_option (\<lambda>(a, left, logs). (ra_record a, left, logs)) (readRealizations (pe_node pe) q (px_pages st) (px_logs st)))"
  have run: "observe_outside pe cfg source ops vread opId st = (case ans of None \<Rightarrow> None | Some (raw, left, logs) \<Rightarrow>
      Some (outsideTrackRecord (Some raw) (disclosedAddresses (pc_join cfg)) (map_of ops opId),
        st\<lparr>px_pages := left, px_logs := logs, px_gaps := px_gaps st @ (if rr_complete raw then [] else [GapOutside (ch_vault vread)])\<rparr>))"
    if "?go"
    unfolding observe_outside_def Let_def using that
    by (simp only: if_False simp_thms registry_def [symmetric] q_def [symmetric] ans_def [symmetric])
  have none: "observe_outside pe cfg source ops vread opId st = Some (None, st)" if "\<not> ?go"
    unfolding observe_outside_def using that by (simp only: if_True simp_thms)
  show "?go \<Longrightarrow> record \<noteq> None"
    using run assms(6) by (auto simp: outsideTrackRecord_def Let_def split: option.splits prod.splits)
  show "backed pe cfg source chain born vread opId record"
    unfolding backed_def
  proof (intro allI impI)
    fix t assume t: "record = Some t \<and> tr_complete t"
    then have go: ?go using none assms(6) by auto
    then obtain raw left logs where a: "ans = Some (raw, left, logs)"
      "outsideTrackRecord (Some raw) (disclosedAddresses (pc_join cfg)) (map_of ops opId) = Some t"
      using run assms(6) t by (auto split: option.splits)
    have c: "rr_complete raw" using a(2) t by (auto simp: outsideTrackRecord_def Let_def)
    then have reg: "\<not> absent registry" using a(1) by (auto simp: ans_def no_record_def)
    then obtain x where x: "readRealizations (pe_node pe) q (px_pages st) (px_logs st) = Some (x, left, logs)" "raw = ra_record x"
      using a(1) by (auto simp: ans_def)
    have cx: "rr_complete (ra_record x)" using c x(2) by simp
    obtain h last where m: "distinct (map mr_member (rr_members raw))"
      "\<forall>who. mine who (logs_between chain (lc (the registry)) opId (born (lc (the registry)) (lc (ch_vault vread))) last) \<noteq> []
         \<longleftrightarrow> who \<in> mr_member ` set (rr_members raw)"
      "\<forall>m \<in> set (rr_members raw). mr_gain m = mt_gain (tally (mr_member m) (logs_between chain (lc (the registry)) opId (born (lc (the registry)) (lc (ch_vault vread))) last))
        \<and> mr_loss m = mt_loss (tally (mr_member m) (logs_between chain (lc (the registry)) opId (born (lc (the registry)) (lc (ch_vault vread))) last))"
      using complete_record_sums [OF assms(2-5) x(1) cx] unfolding x(2) q_def log_request.simps Let_def by blast
    have "tr_net t = outsider_net (disclosedAddresses (pc_join cfg))
        (logs_between chain (lc (the registry)) opId (born (lc (the registry)) (lc (ch_vault vread))) last)"
      by (rule complete_outside_net [OF a(2) decoded_between [OF assms(5)] m])
    moreover have "source = FromChain \<longrightarrow> cc_operatorRegistry (pc_chain cfg) = Some (the registry)"
      using reg by (auto simp: registry_def absent_def)
    ultimately show "\<exists>reg last. (source = FromChain \<longrightarrow> cc_operatorRegistry (pc_chain cfg) = Some reg) \<and>
        tr_net t = outsider_net (disclosedAddresses (pc_join cfg)) (logs_between chain (lc reg) opId (born (lc reg) (lc (ch_vault vread))) last)"
      by blast
  qed
qed


lemma observed_pair:
  assumes "list_all2 P vs obs" "list_all2 Q vs obs" "ob \<in> set obs"
  obtains v where "v \<in> set vs" "P v ob" "Q v ob"
  using assms by (metis in_set_conv_nth list_all2_conv_all_nth)



section \<open>One small chain\<close>

text \<open>Every contract answers by function; one vault, listed, attested to operator 7 by the configured registry.\<close>

definition toy_contracts :: "(string \<times> sol_value) list \<Rightarrow> read_env" where
  "toy_contracts answers a f xs = map_of answers f"

definition toy_answers :: "(string \<times> sol_value) list" where
  "toy_answers = [(''vaultCount'', VUint 1), (''allVaults'', VAddress ''0xV''), (''operatorRegistry'', VAddress ''0xR''),
     (''operatorOf'', VUint 7), (''navPerShareWad'', VUint 1), (''minDepositUsdc'', VUint 1000000), (''capacityCapUsdc'', VUint 0),
     (''stackedPerfFeeBps'', VUint 1000), (''stackedExitFeeCapBps'', VUint 100), (''depthOf'', VUint 0), (''sharesOf'', VUint 0),
     (''leaderboardEntry'', VTuple [VAddress ''0xE'', VTuple [VUint 9, VUint 2, VUint 0, VUint 1]])]"

definition toy_votes :: "(string \<times> sol_value) list" where
  "toy_votes = [(''vaultCount'', VUint 1), (''allVaults'', VAddress ''0xV''), (''activeProposalOf'', VUint 4),
     (''commitOf'', VBytes ''0xc0''), (''proposals'', VTuple [VAddress ''0xv'', VUint 0, VAddress ''0xp'', VUint 1, VUint 100, VUint 200])]"

definition toy_api :: api_client where
  "toy_api = \<lparr> al_discovery = Inl ''down'', al_health = Inl ''down'', al_listVaults = (\<lambda>b. (Inl ''down'', b)),
     al_leaderboard = (\<lambda>b. (Inl ''down'', b)), al_getVault = (\<lambda>v b. (Inl ''down'', b)) \<rparr>"

definition toy_world :: "(string \<times> sol_value) list \<Rightarrow> perceive_env" where
  "toy_world answers = \<lparr> pe_env = toy_contracts answers, pe_node = toy_node\<lparr>rn_blockNumber := \<lambda>_. Inr 3\<rparr>, pe_api = toy_api, pe_blockTimestamp = None,
     pe_keccak = id \<rparr>"

definition toy_config :: perceive_config where
  "toy_config = \<lparr> pc_chain = \<lparr> cc_preset = Some ''base'', cc_baseUrl = None, cc_factory = Some ''0xF'', cc_operatorRegistry = Some ''0xR'',
       cc_subvaultRegistry = Some ''0xS'', cc_governance = Some ''0xG'' \<rparr>, pc_maxSingleReadUsdc = ''1'',
     pc_discovery = \<lparr> maxVaults = 5, pageSize = 2, include_vaults = [''0xW''], pageBlocks = 2, maxPagesPerTick = 3, maxBlocks = 100, pacingMs = 0 \<rparr>,
     pc_join = sample_join\<lparr>disclosedAddresses := [''0xD'']\<rparr>, pc_crank = ac_crank sample_agent \<rparr>"

definition toy_budget :: budget where
  "toy_budget = \<lparr> b_enabled = True, b_cap = 0, b_perRead = 0, b_spent = 0, b_ledger = [] \<rparr>"

definition toy_agent :: agent_config where
  "toy_agent = sample_agent\<lparr>ac_join := pc_join toy_config\<rparr>"

definition toy_seen :: "(string \<times> sol_value) list \<Rightarrow> world \<times> perceive_state" where
  "toy_seen answers = (case perceive (toy_world answers) toy_config (Some ''0xM'') 150 [] toy_session toy_budget of Inr r \<Rightarrow> r | Inl _ \<Rightarrow> undefined)"

definition toy_plan :: "(string \<times> sol_value) list \<Rightarrow> intent list" where
  "toy_plan answers = (case plan toy_agent [] (fst (toy_seen answers)) of Inr is \<Rightarrow> is | Inl _ \<Rightarrow> [])"

lemma toy_runs_answers:
  "perceive (toy_world toy_answers) toy_config (Some ''0xM'') 150 [] toy_session toy_budget = Inr (fst (toy_seen toy_answers), snd (toy_seen toy_answers))"
  "plan toy_agent [] (fst (toy_seen toy_answers)) = Inr (toy_plan toy_answers)"
  "list_ex (\<lambda>i. is_deposit (i_args i)) (toy_plan toy_answers)"
proof -
  have "case perceive (toy_world toy_answers) toy_config (Some ''0xM'') 150 [] toy_session toy_budget of Inl _ \<Rightarrow> False | Inr (w, st) \<Rightarrow>
     (case plan toy_agent [] w of Inl _ \<Rightarrow> False | Inr is \<Rightarrow> list_ex (\<lambda>i. is_deposit (i_args i)) is)" by code_simp
  then show "perceive (toy_world toy_answers) toy_config (Some ''0xM'') 150 [] toy_session toy_budget = Inr (fst (toy_seen toy_answers), snd (toy_seen toy_answers))"
    "plan toy_agent [] (fst (toy_seen toy_answers)) = Inr (toy_plan toy_answers)"
    "list_ex (\<lambda>i. is_deposit (i_args i)) (toy_plan toy_answers)"
    by (auto simp: toy_seen_def toy_plan_def split: sum.splits prod.splits)
qed

lemma toy_config_ok:
  "0 < maxVaults (pc_discovery toy_config)" "0 < pageSize (pc_discovery toy_config)" "0 < pageBlocks (pc_discovery toy_config)"
  "discoverySource (pc_chain toy_config) = FromChain" "cc_operatorRegistry (pc_chain toy_config) = Some ''0xR''"
  "requireAttestedOperator (ac_join toy_agent)" "ac_join toy_agent = pc_join toy_config" "wantsOutsideRecord (pc_join toy_config)"
  by (simp_all add: toy_config_def toy_agent_def discoverySource_def absent_def wantsOutsideRecord_def sample_join_def)

lemma toy_amounts:
  "toBaseUnits (minOperatorNetRealizedUsdc (pc_join toy_config)) = Inr 0" "toBaseUnits (pc_maxSingleReadUsdc toy_config) = Inr 1000000"
proof -
  have "toBaseUnits ''0'' = Inr 0" "toBaseUnits ''1'' = Inr 1000000" by code_simp+
  then show "toBaseUnits (minOperatorNetRealizedUsdc (pc_join toy_config)) = Inr 0" "toBaseUnits (pc_maxSingleReadUsdc toy_config) = Inr 1000000"
    by (simp_all add: toy_config_def sample_join_def)
qed

lemma chain_rows_are_attested_witness:
  "distinct (map vw_vault (fst (the (discoverFromChain (toy_contracts toy_answers) (pc_chain toy_config) (pc_discovery toy_config)))))"
proof -
  obtain rows lb gaps where d: "discoverFromChain (toy_contracts toy_answers) (pc_chain toy_config) (pc_discovery toy_config) = Some (rows, lb, gaps)"
    "fst (the (discoverFromChain (toy_contracts toy_answers) (pc_chain toy_config) (pc_discovery toy_config))) = rows"
  proof -
    have "case discoverFromChain (toy_contracts toy_answers) (pc_chain toy_config) (pc_discovery toy_config) of None \<Rightarrow> False | Some _ \<Rightarrow> True" by code_simp
    then show thesis using that by (auto split: option.splits)
  qed
  let ?l = "\<lparr> li_total = Some 1, li_addresses = [''0xv''], li_truncated = False, li_failedIndexes = [] \<rparr>"
  have f: "cc_factory (pc_chain toy_config) = Some ''0xF''" by (simp add: toy_config_def)
  have p: "index_pages 0 2 0 = [[0]]" and low: "lc ''0xV'' = ''0xv''" by code_simp+
  have l: "listFactoryVaults (toy_contracts toy_answers) (Some ''0xF'') (maxVaults (pc_discovery toy_config)) (pageSize (pc_discovery toy_config)) = Some ?l"
    by (simp add: listFactoryVaults_def absent_def toy_contracts_def toy_answers_def toy_config_def uint_of_def address_of_def p low)
  show ?thesis using chain_rows_are_attested [OF d(1) f toy_config_ok(5) _ _ l] unfolding d(2) by simp
qed

lemma deposit_only_on_answers_witness:
  "\<exists>(i :: intent) n. attested_by (toy_contracts toy_answers) ''0xR'' (i_vault i) n"
proof -
  obtain i amt where i: "i \<in> set (toy_plan toy_answers)" "i_args i = ADeposit amt"
    using toy_runs_answers(3) by (auto simp: list_ex_iff elim: is_deposit.elims)
  have env: "pe_env (toy_world toy_answers) = toy_contracts toy_answers" by (simp add: toy_world_def)
  show ?thesis
    using deposit_only_on_answers [OF toy_runs_answers(1) toy_config_ok(3-5) toy_runs_answers(2) i toy_config_ok(6)]
    unfolding env by blast
qed



lemma toy_votes_run:
  "\<exists>w st is price rows lb gaps b1 v. perceive (toy_world toy_votes) toy_config (Some ''0xM'') 150 [] toy_session toy_budget = Inr (w, st)
    \<and> plan toy_agent [] w = Inr is \<and> discover (toy_world toy_votes) toy_config toy_budget = Inr ((price, rows, lb, gaps), b1)
    \<and> v \<in> set rows \<and> lc (vw_vault v) = ''0xv''"
proof -
  have "case perceive (toy_world toy_votes) toy_config (Some ''0xM'') 150 [] toy_session toy_budget of Inl _ \<Rightarrow> False | Inr (w, st) \<Rightarrow>
     (case plan toy_agent [] w of Inl _ \<Rightarrow> False | Inr is \<Rightarrow> True)" by code_simp
  moreover have "case discover (toy_world toy_votes) toy_config toy_budget of Inl _ \<Rightarrow> False | Inr ((price, rows, lb, gaps), b1) \<Rightarrow>
     list_ex (\<lambda>v. lc (vw_vault v) = ''0xv'') rows" by code_simp
  ultimately show ?thesis by (auto simp: list_ex_iff split: sum.splits prod.splits)
qed

lemma owed_reveal_survives_failed_reads_witness:
  "\<exists>is i u. i \<in> set (fst (partitionDue is 150)) \<and> i_args i = AReveal 4 u \<and> i_vault i = ''0xv''"
proof -
  obtain w st "is" price rows lb gaps b1 v where r: "perceive (toy_world toy_votes) toy_config (Some ''0xM'') 150 [] toy_session toy_budget = Inr (w, st)"
    "plan toy_agent [] w = Inr is" "discover (toy_world toy_votes) toy_config toy_budget = Inr ((price, rows, lb, gaps), b1)"
    "v \<in> set rows" "lc (vw_vault v) = ''0xv''"
    using toy_votes_run by blast
  let ?raw = "[VAddress ''0xv'', VUint 0, VAddress ''0xp'', VUint 1, VUint 100, VUint 200]"
  have g: "cc_governance (pc_chain toy_config) = Some ''0xG''" by (simp add: toy_config_def)
  have o: "owes_reveal (pe_env (toy_world toy_votes)) ''0xG'' (lc (vw_vault v)) ''0xM'' 4 ?raw"
    by (simp add: owes_reveal_def toy_world_def toy_contracts_def toy_votes_def r(5) ZERO_BYTES32_def numeral_eq_Suc)
  have t: "num_at ?raw 4 \<le> 150" "150 < num_at ?raw 5" by (simp_all add: num_at_def field_at_def uint_of_def)
  show ?thesis using owed_reveal_survives_failed_reads [OF r(1) toy_config_ok(3) r(3,4) g _ _ o t r(2)] unfolding r(5) by auto
qed

end
