(* ===== verification/Spec2Isabelle.thy ===== *)
theory Spec2Isabelle
  imports Chain_Source Daemon Agent_Plan Agent_Budget Agent_Act Facilitators Canary_Governance
    Deposit_Preview Rebalance_Order Canary_Conservation Rate_Limit Operator_Power Canary_Exits Canary_Feeds Leader_Run
    Web_Reader Web_Custody Web_Impact Agent_Perceive
begin

text \<open>
  Verification development of the off-chain half of the agent-governed vault protocol: the
  JavaScript that indexes the vaults' events, runs an agent that votes and moves money, meters an
  API by payment, previews deposits and exits in the web app, and watches the chain for an operator.
  The Solidity contracts under \<open>contracts/src\<close> are not modelled; the rules the JavaScript mirrors
  (\<open>Governance\<close> phases and quorum, \<open>VaultCore\<close> deposits, exits, rebalances and NAV,
  \<open>SubVaultRegistry\<close> fees) are stated as specifications, named \<open>sol_\<close>, beside the code they check.

  \<^bold>\<open>Indexer\<close> (\<open>packages/indexer/src\<close>). \<open>Projections\<close> is \<open>projections.mjs\<close>: the state of the fold
  (association lists for its Maps, so insertion order is kept), one handler per event kind with its
  throws, \<open>applyAll\<close>. \<open>Projection_Invariants\<close> proves what each handler keeps, in the locale
  \<open>event_fold\<close> of the prelude; \<open>Projection_Runs\<close> lifts it to logs (counters, share conservation,
  determinism, resuming); \<open>Projection_Views\<close> has the read views. \<open>Store\<close> and \<open>Store_Roundtrip\<close> are
  \<open>store.mjs\<close>: the snapshot and its reading back. \<open>Chain_Source\<close> is \<open>chain.mjs\<close> and \<open>rpc.mjs\<close>: log
  normalisation and the discovery of vaults and adapters. \<open>Daemon\<close> is \<open>daemon.mjs\<close>: one batch, and
  catching up.

  \<^bold>\<open>Agent\<close> (\<open>packages/reference-agent/src\<close>). \<open>Agent_Config\<close> (\<open>config.mjs\<close>), \<open>Agent_Policy\<close> and
  \<open>Agent_Policy_Props\<close> (\<open>policy.mjs\<close>, \<open>evaluators.mjs\<close>), \<open>Agent_Plan\<close> (\<open>plan.mjs\<close>), \<open>Agent_Budget\<close>
  (\<open>budget.mjs\<close>), \<open>Agent_Salt\<close> (\<open>salt.mjs\<close>), \<open>Sanctions\<close> (\<open>screen.mjs\<close> and \<open>sanctions.ts\<close>) and
  \<open>Agent_Act\<close> (\<open>act.mjs\<close>, \<open>payloads.mjs\<close>, \<open>agent.mjs\<close>): from a perceived world to a plan, from an
  intent to a call, from a call to what the wallet is asked to send, over whole ticks.
  \<open>Agent_Logs\<close> and \<open>Agent_Reader\<close> are \<open>chain.mjs\<close>: the scan of an operator's realization logs, which
  keeps its watermark, its tallies and the pause it has learned from tick to tick, and every other read.
  \<open>Agent_Perceive\<close> is \<open>perceive.mjs\<close>: discovery, paid reads and the observation of each vault, composed
  with the planner, so that its last theorems run from the answers of the contracts and the node to the
  plan. A read has one answer within a tick; the node of the log scan answers as a function of the number
  of requests before, so it may fail and recover; \<open>None\<close> is a failed assertion of the reader.
  \<open>Rebalance_Order\<close> is \<open>packages/chain-config/src/rebalance-order.mjs\<close>, the payload of an execution,
  down to its bytes.

  \<^bold>\<open>API\<close> (\<open>apps/api/src\<close>). \<open>Payment_Gate\<close> is the gate of \<open>x402.mjs\<close>, split at its one await so that
  interleavings are sequences of enters and finishes; \<open>Facilitators\<close> is \<open>facilitator.mjs\<close>, and what a
  served request implies behind the gate; \<open>Rate_Limit\<close> is \<open>ratelimit.mjs\<close>, over rationals.

  \<^bold>\<open>Web app\<close> (\<open>apps/web/src\<close>). \<open>Web_Governance\<close> (\<open>governance.mjs\<close>), \<open>Exit_Preview\<close>
  (\<open>exit-preview.mjs\<close>, \<open>fees.mjs\<close>) and \<open>Deposit_Preview\<close> (\<open>deposit-preview.mjs\<close>), each proved against
  the contract's own rule. \<open>Web_Member\<close> is \<open>vault-state.mjs\<close>, \<open>deposit-status.mjs\<close> and
  \<open>wallet-refusals.mjs\<close>: which buttons a member gets and what is refused before a signature.
  \<open>Web_View\<close> is \<open>vault-view.mjs\<close>, which derives the facts they run on from a vault record and a wallet.
  \<open>Web_Reader\<close> is \<open>chain-reader.mjs\<close>: the calls each round plans and what is assembled from the answers.
  \<open>Web_Custody\<close> is \<open>vote-custody.mjs\<close>: a vote recovered from the chain and one signature.
  \<open>Web_Impact\<close> is \<open>size-impact.mjs\<close>: the walk over a pool's ticks, in integers, and the forecast below
  the edge it finds, whose doubles are reals (these definitions state formulas and are not executable).

  \<open>Vault_Core\<close> is a specification: the share, escrow and exit books of \<open>contracts/src/VaultCore.sol\<close>
  as a state, one step per external call of a member with its reverts (\<open>vault_exec\<close>), the states
  reachable by them, and the invariant they keep. NAV, prices, child vaults and token transfers enter a
  step as an environment. The button, status and refusal theorems quantify over its reachable states.

  \<^bold>\<open>Canary\<close> (\<open>packages/canary/src\<close>). \<open>Canary_Tracker\<close> is \<open>signal.mjs\<close> and \<open>transitions.mjs\<close>, the
  debouncing every signal goes through. One theory per family of \<open>signals/\<close>: \<open>Canary_Governance\<close>
  (\<open>governance-watch.mjs\<close>), \<open>Canary_Conservation\<close> (\<open>share-conservation.mjs\<close>, \<open>nav-backing.mjs\<close>),
  \<open>Operator_Power\<close> (\<open>operator-power.mjs\<close>), \<open>Canary_Exits\<close> (\<open>exit-liveness.mjs\<close>, \<open>fee-routing.mjs\<close>),
  \<open>Canary_Oracle\<close> (\<open>oracle-health.mjs\<close>, \<open>oracle-freshness.mjs\<close>, \<open>depeg-reference.mjs\<close>) and
  \<open>Canary_Feeds\<close> (\<open>feed-identity.mjs\<close>): what a sweep reports, against the contract and against the
  indexer's fold.

  \<^bold>\<open>Activity leaderboard\<close> (\<open>packages/activity-leaderboard/src\<close>). \<open>Leader_Json\<close> is \<open>canonical.mjs\<close>: the
  text of a value determines the value. \<open>Leader_Ledger\<close> is \<open>epoch.mjs\<close>, \<open>ledger.mjs\<close> and
  \<open>consistency.mjs\<close>: the fold is the integral of the contract's cost basis, and the head check sees every
  holder. \<open>Leader_Source\<close> is \<open>source.mjs\<close>: retries, the block search and the paging of logs.
  \<open>Leader_Board\<close> is \<open>team.mjs\<close> and \<open>board.mjs\<close>: ranks, totals, global rows and the hashed board.
  \<open>Leader_Run\<close> is \<open>run.mjs\<close>, which composes them: from an endpoint to a published board.

  \<open>Prelude\<close> holds Maps and Sets as association lists, folds that may throw, errors as sums, sorting by
  a comparator and the locales; \<open>Decimal\<close> holds BigInt strings and division. Locales, all interpreted
  on the model: \<open>event_fold\<close> (an invariant every handler keeps), \<open>chain_order\<close> (a log has one order),
  \<open>snapshots\<close> (what is restored is what was stored), \<open>facilitator\<close> (a success has a mined transfer),
  \<open>readable\<close> (texts of elements that can be cut off at a delimiter).

  \<^bold>\<open>Conventions.\<close> BigInts are \<open>int\<close>; a Number that is an integer is \<open>int\<close>; a value that may be null,
  missing or not a number is an option. A throw is \<open>Inl\<close>, or \<open>Threw\<close> with the state it leaves behind.
  Hashes, ABI encoding, signatures, HTTP, RPC clients and wallets are parameters; what is assumed of
  them (a hash gives 32-byte hex and does not collide on the named candidates, a signer repeats
  itself, a node answers only logs of the range asked for) is a hypothesis where it is used. Of the log
  scan: answers that are given are the chain's (\<open>honest_logs\<close>, \<open>honest_control\<close>), and, where it is to
  finish, they are given (\<open>answering\<close>). A request is retried four times, the pages of a tick are counted
  down, and the bisection and the narrowing page end by a measure, so none of these needs fuel.
  The fuel of \<open>catchUp\<close> is the number of blocks still to read, proved to be enough from a cursor past
  genesis; the look-through of NAV has three levels, the code's own bound.

  \<^bold>\<open>Not modelled.\<close> Log lines and prose; reading files and the environment; of the agent, the command
  line (\<open>run.mjs\<close>), the construction of the RPC and API clients, \<open>simulateCall\<close> and the offline stub
  reader; the web app's API client, adapters, fixtures and formatting; the HTTP servers; the Solana facilitator; React components; the canary's module-events signal, runner and sinks;
  the leaderboard's git publisher and command line; the terms, oplog and agent-sdk packages; repository
  scripts.
\<close>

section \<open>One proposal, four readers\<close>

fun agent_status :: "sol_status \<Rightarrow> gov_status" where
  "agent_status SNone = GNone" | "agent_status SActive = GActive" | "agent_status SPassed = GPassed"
| "agent_status SDefeated = GDefeated" | "agent_status SExecuted = GExecuted" | "agent_status SExpired = GExpired"

definition agent_reads :: "gov_proposal \<Rightarrow> sol_proposal \<Rightarrow> bool" where
  "agent_reads g p \<longleftrightarrow> gp_status g = agent_status (sp_status p)
     \<and> gp_commitDeadline g = sp_commitDeadline p \<and> gp_revealDeadline g = sp_revealDeadline p
     \<and> gp_executableAt g = sp_executableAt p \<and> gp_expiresAt g = sp_expiresAt p"

definition web_reads :: "web_proposal \<Rightarrow> sol_proposal \<Rightarrow> bool" where
  "web_reads w p \<longleftrightarrow> wp_status w = status_name (sp_status p)
     \<and> wp_commitDeadline w = Some (sp_commitDeadline p) \<and> wp_revealDeadline w = Some (sp_revealDeadline p)
     \<and> wp_executableAt w = Some (sp_executableAt p) \<and> wp_expiresAt w = Some (sp_expiresAt p)"

text \<open>
  The agent, the canary and the web app agree on a proposal they all read from the chain. Whatever
  the agent sends, the contract accepts it at that time and the canary announces that phase: a
  commit in the commit phase, a reveal of an active round in the reveal phase, a finalize in the
  tally, an execute in the execution window, a markExpired once it has lapsed; and the web app tells
  a member that an exit is queued exactly when the canary's flag for queued exits is up.
\<close>

lemma vote_phase_of:
  assumes "agent_reads g p" "gr_proposal gr = Some g" "decideVote gr chain weight now vcfg evaluator timing = Inr vote"
  shows "vote = VoteCommit s \<Longrightarrow> sol_can_commit p now"
    and "vote = VoteReveal u n \<Longrightarrow> sp_status p = SActive \<Longrightarrow> sol_can_reveal p now"
  using assms
  by (cases "sp_status p";
      auto simp: decideVote_def votePhase_def Let_def bindE_Inr agent_reads_def sol_guards split: if_splits option.splits)+

lemma crank_phase_of:
  assumes "agent_reads g p" "gr_proposal gr = Some g"
    and "crank = fst (decideCrank gr (Some now) local timing ccfg payloads held)"
  shows "crank = CrankFinalize pid \<Longrightarrow> sol_can_finalize p now"
    and "crank = CrankExecute pid t x y u \<Longrightarrow> sol_can_execute p now"
    and "crank = CrankMarkExpired pid \<Longrightarrow> sol_can_expire p now"
proof -
  obtain cs where d: "decideCrank gr (Some now) local timing ccfg payloads held = (crank, cs)"
    using assms(3) by (metis prod.collapse)
  note acts = decideCrank_acts [OF d]
  show "crank = CrankFinalize pid \<Longrightarrow> sol_can_finalize p now"
    by (rule acts; cases "sp_status p") (use assms(1,2) in \<open>auto simp: agent_reads_def sol_guards crank_now_def\<close>)
  show "crank = CrankExecute pid t x y u \<Longrightarrow> sol_can_execute p now"
    by (rule acts; cases "sp_status p") (use assms(1,2) in \<open>auto simp: agent_reads_def sol_guards crank_now_def\<close>)
  show "crank = CrankMarkExpired pid \<Longrightarrow> sol_can_expire p now"
    by (rule acts; cases "sp_status p") (use assms(1,2) in \<open>auto simp: agent_reads_def sol_guards crank_now_def\<close>)
qed

lemma canary_phase_of:
  assumes "sp_status p = SPassed \<longrightarrow> sp_executableAt p \<le> sp_expiresAt p"
    and "sp_status p = SActive \<longrightarrow> sp_commitDeadline p \<le> sp_revealDeadline p"
    and "ph = phaseOf (decodeProposal (tuple_of v pr c h ag p)) now"
  shows "sol_can_commit p now \<Longrightarrow> ph = Some ''commit''" and "sol_can_reveal p now \<Longrightarrow> ph = Some ''reveal''"
    and "sol_can_finalize p now \<Longrightarrow> ph = Some ''tally''" and "sol_can_execute p now \<Longrightarrow> ph = Some ''execution''"
    and "sol_can_expire p now \<Longrightarrow> ph = Some ''lapsed''" and "modeFExitQueueing ph \<longleftrightarrow> sol_pending (Some p) now"
  using assms(1,2) unfolding assms(3)
  by (cases "sp_status p"; auto simp: phaseOf_def decode_tuple_of sol_guards modeFExitQueueing_def sol_pending_def)+

lemma web_mode_of:
  assumes "web_reads w p" "sp_status p \<noteq> SNone" "sp_status p = SActive \<longrightarrow> 0 < sp_commitDeadline p"
    and "sp_status p = SPassed \<longrightarrow> 0 < sp_expiresAt p"
  shows "resolveExitMode (Proposal w) now = (if sol_pending (Some p) now then ModeF else ModeI)"
  using assms
  by (cases "sp_status p") (auto simp: resolveExitMode_def hasPendingExecution_def web_reads_def sol_pending_def num_def Let_def)


definition web_sample :: web_proposal where
  "web_sample = \<lparr> wp_status = ''Active'', wp_commitDeadline = Some 100, wp_revealDeadline = Some 200,
     wp_executableAt = Some 300, wp_expiresAt = Some 400 \<rparr>"

definition chain_sample :: sol_proposal where
  "chain_sample = \<lparr> sp_ptype = Rebalance, sp_commitDeadline = 100, sp_revealDeadline = 200, sp_executableAt = 300,
     sp_expiresAt = 400, sp_status = SActive, sp_snapshotTotal = 10, sp_memberCount = 3, sp_forWeight = 0,
     sp_revealedWeight = 0, sp_revealedVoterCount = 0, sp_delegatedForWeight = 0 \<rparr>"


end
